(* ===== verification/Prelude.thy ===== *)
theory Prelude
  imports Main "HOL-Library.Word" "HOL-Library.Multiset"
begin

text \<open>
  What every component of the development shares: the result type of a Rust function
  that may return, fail or panic; the unsigned machine integers as natural numbers
  with their wrap-around and saturation written out; the stable sort of the standard
  library; and generic facts on lists.
\<close>

named_theorems outcome_simps \<open>unfolding a chain of fallible calls\<close>
named_theorems wf_intros \<open>introduction rules for the component invariants\<close>

section \<open>Results: a value, an error or a panic\<close>

text \<open>
  \<open>Result<T, E>\<close> has the two constructors \<open>Ok\<close> and \<open>Err\<close>. A Rust call may also
  not return at all because it panics (an index out of range, a slice off a character
  boundary, \<open>unwrap\<close> of \<open>None\<close>); that is the third constructor. \<open>bindO\<close> is the \<open>?\<close>
  operator: it goes on with the value and passes errors and panics to the caller.
\<close>

datatype ('e, 'a) outcome = Ok 'a | Err 'e | Panic

fun bindO :: "('e, 'a) outcome \<Rightarrow> ('a \<Rightarrow> ('e, 'b) outcome) \<Rightarrow> ('e, 'b) outcome" where
  "bindO (Ok v) f = f v"
| "bindO (Err e) f = Err e"
| "bindO Panic f = Panic"

text \<open>Lifting an \<open>Option\<close> with \<open>ok_or_else\<close>.\<close>

fun ok_or :: "'a option \<Rightarrow> 'e \<Rightarrow> ('e, 'a) outcome" where
  "ok_or (Some v) e = Ok v"
| "ok_or None e = Err e"

lemma bindO_eq_Ok [outcome_simps]:
  "bindO m f = Ok v \<longleftrightarrow> (\<exists>u. m = Ok u \<and> f u = Ok v)"
  by (cases m) auto

lemma bindO_eq_Panic [outcome_simps]:
  "bindO m f = Panic \<longleftrightarrow> m = Panic \<or> (\<exists>u. m = Ok u \<and> f u = Panic)"
  by (cases m) auto

lemma bindO_eq_Err [outcome_simps]:
  "bindO m f = Err e \<longleftrightarrow> m = Err e \<or> (\<exists>u. m = Ok u \<and> f u = Err e)"
  by (cases m) auto

lemma bindO_cong [fundef_cong]:
  "m = m' \<Longrightarrow> (\<And>v. m' = Ok v \<Longrightarrow> f v = g v) \<Longrightarrow> bindO m f = bindO m' g"
  by (cases m') auto

lemma ok_or_eq_Ok [outcome_simps]: "ok_or x e = Ok v \<longleftrightarrow> x = Some v"
  by (cases x) auto

lemma ok_or_not_Panic [simp]: "ok_or x e \<noteq> Panic"
  by (cases x) auto

section \<open>Machine integers\<close>

text \<open>
  Unsigned integers are natural numbers below the bound of their width. \<open>usize\<close> is
  \<open>u64\<close>, as on every target of the workspace. Addition on a release build wraps;
  \<open>saturating_sub\<close> is the subtraction of \<open>nat\<close>.
\<close>

abbreviation u32_mod :: nat where "u32_mod \<equiv> 4294967296"
abbreviation u64_mod :: nat where "u64_mod \<equiv> 18446744073709551616"
abbreviation u64_max :: nat where "u64_max \<equiv> 18446744073709551615"
abbreviation i64_max :: int where "i64_max \<equiv> 9223372036854775807"
abbreviation i64_min :: int where "i64_min \<equiv> - 9223372036854775808"

definition wrap32 :: "nat \<Rightarrow> nat" where
  "wrap32 n = n mod u32_mod"

definition wrap64 :: "nat \<Rightarrow> nat" where
  "wrap64 n = n mod u64_mod"

lemma wrap32_id [simp]: "n < u32_mod \<Longrightarrow> wrap32 n = n"
  by (simp add: wrap32_def)

lemma wrap64_id [simp]: "n < u64_mod \<Longrightarrow> wrap64 n = n"
  by (simp add: wrap64_def)

lemma wrap32_less [simp]: "wrap32 n < u32_mod"
  by (simp add: wrap32_def)

lemma wrap64_less [simp]: "wrap64 n < u64_mod"
  by (simp add: wrap64_def)

text \<open>\<open>u64::abs_diff\<close>.\<close>

definition abs_diff :: "nat \<Rightarrow> nat \<Rightarrow> nat" where
  "abs_diff a b = (if a < b then b - a else a - b)"

lemma abs_diff_commute: "abs_diff a b = abs_diff b a"
  by (simp add: abs_diff_def)

section \<open>Filtering and mapping in one pass\<close>

lemma set_map_filter: "set (List.map_filter f xs) = {y. \<exists>x \<in> set xs. f x = Some y}"
  by (induction xs) (auto simp: List.map_filter_simps split: option.splits)

lemma map_filterD: "x \<in> set (List.map_filter f xs) \<Longrightarrow> \<exists>y \<in> set xs. f y = Some x"
  by (simp add: set_map_filter)

lemma map_filter_none: "(\<And>x. x \<in> set xs \<Longrightarrow> f x = None) \<Longrightarrow> List.map_filter f xs = []"
  by (induction xs) (simp_all add: List.map_filter_simps)

section \<open>The standard library's stable sort\<close>

text \<open>
  \<open>slice::sort_by\<close> is a stable sort for a comparator that is a total preorder. The
  model is stable insertion: \<open>before y x\<close> says that the comparator puts \<open>y\<close> strictly
  before \<open>x\<close>, and \<open>x\<close> goes in front of the first element that is not strictly before
  it, so elements the comparator calls equal keep their order. For a comparator that is not
  a total order (\<open>partial_cmp(..).unwrap_or(Equal)\<close> on NaN) the library promises no particular
  order and may panic; neither is modelled, so the theorems about the order of a result, or
  that a sorting operation returns, exclude NaN keys.
\<close>

fun insert_by :: "('a \<Rightarrow> 'a \<Rightarrow> bool) \<Rightarrow> 'a \<Rightarrow> 'a list \<Rightarrow> 'a list" where
  "insert_by before x [] = [x]"
| "insert_by before x (y # ys) =
     (if before y x then y # insert_by before x ys else x # y # ys)"

fun sort_by :: "('a \<Rightarrow> 'a \<Rightarrow> bool) \<Rightarrow> 'a list \<Rightarrow> 'a list" where
  "sort_by before [] = []"
| "sort_by before (x # xs) = insert_by before x (sort_by before xs)"

lemma mset_insert_by [simp]: "mset (insert_by before x xs) = add_mset x (mset xs)"
  by (induction xs) auto

lemma mset_sort_by [simp]: "mset (sort_by before xs) = mset xs"
  by (induction xs) auto

lemma set_sort_by [simp]: "set (sort_by before xs) = set xs"
  by (metis mset_sort_by set_mset_mset)

lemma set_insert_by [simp]: "set (insert_by before x xs) = insert x (set xs)"
  by (metis mset_insert_by set_mset_mset set_mset_add_mset_insert)

lemma length_sort_by [simp]: "length (sort_by before xs) = length xs"
  by (metis mset_sort_by size_mset)

text \<open>
  A comparator's interface: a strict weak order on the elements that satisfy \<open>ok\<close>. The
  sort's contract is proved once against it.
\<close>

locale comparator =
  fixes before :: "'a \<Rightarrow> 'a \<Rightarrow> bool"
    and ok :: "'a \<Rightarrow> bool"
  assumes before_asym: "ok x \<Longrightarrow> ok y \<Longrightarrow> before x y \<Longrightarrow> \<not> before y x"
    and before_negtrans: "ok x \<Longrightarrow> ok y \<Longrightarrow> ok z \<Longrightarrow> \<not> before y x \<Longrightarrow> \<not> before z y
      \<Longrightarrow> \<not> before z x"
begin

definition ordered :: "'a list \<Rightarrow> bool" where
  "ordered = sorted_wrt (\<lambda>x y. \<not> before y x)"

lemma ordered_insert_by:
  assumes "ordered xs" "ok x" "\<forall>y \<in> set xs. ok y"
  shows "ordered (insert_by before x xs)"
  using assms
proof (induction xs)
  case Nil
  then show ?case by (simp add: ordered_def)
next
  case (Cons y ys)
  show ?case
  proof (cases "before y x")
    case True
    then have "\<not> before x y" using Cons.prems before_asym by simp
    moreover have "ordered (insert_by before x ys)" using Cons by (simp add: ordered_def)
    ultimately show ?thesis using True Cons.prems by (auto simp: ordered_def)
  next
    case False
    then have "\<forall>z \<in> set (y # ys). \<not> before z x"
      using Cons.prems before_negtrans[of x y] by (auto simp: ordered_def)
    then show ?thesis using False Cons.prems by (simp add: ordered_def)
  qed
qed

lemma ordered_sort_by:
  assumes "\<forall>y \<in> set xs. ok y"
  shows "ordered (sort_by before xs)"
  using assms
proof (induction xs)
  case Nil
  then show ?case by (simp add: ordered_def)
next
  case (Cons x xs)
  then show ?case by (simp add: ordered_insert_by)
qed

text \<open>Stability: elements the comparator does not separate keep their relative order.\<close>

lemma filter_insert_by:
  assumes "ordered xs" "ok x" "ok k" "\<forall>y \<in> set xs. ok y"
  shows "filter (\<lambda>y. \<not> before y k \<and> \<not> before k y) (insert_by before x xs)
       = filter (\<lambda>y. \<not> before y k \<and> \<not> before k y) (x # xs)"
  using assms
proof (induction xs)
  case (Cons y ys)
  show ?case
  proof (cases "before y x")
    case True
    have "\<not> (\<not> before x k \<and> \<not> before k x \<and> \<not> before y k \<and> \<not> before k y)"
      using True Cons.prems before_negtrans[of x k y] by auto
    then show ?thesis using True Cons by (auto simp: ordered_def)
  qed simp
qed simp

lemma sort_by_stable:
  assumes "\<forall>y \<in> set xs. ok y" "ok k"
  shows "filter (\<lambda>y. \<not> before y k \<and> \<not> before k y) (sort_by before xs)
       = filter (\<lambda>y. \<not> before y k \<and> \<not> before k y) xs"
  using assms
proof (induction xs)
  case (Cons x xs)
  have "filter (\<lambda>y. \<not> before y k \<and> \<not> before k y) (insert_by before x (sort_by before xs))
      = filter (\<lambda>y. \<not> before y k \<and> \<not> before k y) (x # sort_by before xs)"
    using Cons.prems by (intro filter_insert_by) (auto intro: ordered_sort_by)
  then show ?case using Cons by simp
qed simp

end

section \<open>Text\<close>

text \<open>
  A \<open>String\<close> is the list of its UTF-8 bytes, which is what \<open>len\<close>, indexing and slicing of
  the source count. \<open>show_nat\<close> is the decimal \<open>Display\<close> of an unsigned integer;
  \<open>join\<close> is \<open>[&str]::join\<close>.
\<close>

definition digit_char :: "nat \<Rightarrow> char" where
  "digit_char d = char_of (48 + d)"

fun show_nat :: "nat \<Rightarrow> string" where
  "show_nat n = (if n < 10 then [digit_char n] else show_nat (n div 10) @ [digit_char (n mod 10)])"

declare show_nat.simps [simp del]

fun join :: "'a list \<Rightarrow> 'a list list \<Rightarrow> 'a list" where
  "join sep [] = []"
| "join sep [x] = x"
| "join sep (x # y # zs) = x @ sep @ join sep (y # zs)"

text \<open>
  Slicing \<open>&s[a..b]\<close>: it panics when the range is not ordered, leaves the string or cuts a
  character. A byte offset is a character boundary when it is an end of the string or the byte
  there is not a UTF-8 continuation byte (\<open>0x80..0xBF\<close>).
\<close>

definition byte :: "char \<Rightarrow> nat" where
  "byte c = of_char c"

definition is_continuation :: "char \<Rightarrow> bool" where
  "is_continuation c = (128 \<le> byte c \<and> byte c < 192)"

definition is_char_boundary :: "string \<Rightarrow> nat \<Rightarrow> bool" where
  "is_char_boundary s i = (i = 0 \<or> i = length s \<or> (i < length s \<and> \<not> is_continuation (s ! i)))"

definition slice :: "string \<Rightarrow> nat \<Rightarrow> nat \<Rightarrow> ('e, string) outcome" where
  "slice s a b =
     (if a \<le> b \<and> b \<le> length s \<and> is_char_boundary s a \<and> is_char_boundary s b
      then Ok (take (b - a) (drop a s)) else Panic)"

definition is_ascii :: "string \<Rightarrow> bool" where
  "is_ascii s = list_all (\<lambda>c. byte c < 128) s"

lemma ascii_boundary: "is_ascii s \<Longrightarrow> i \<le> length s \<Longrightarrow> is_char_boundary s i"
  by (auto simp: is_ascii_def is_char_boundary_def is_continuation_def list_all_length dest!: spec[of _ i])

lemma slice_ascii:
  "is_ascii s \<Longrightarrow> a \<le> b \<Longrightarrow> b \<le> length s \<Longrightarrow> slice s a b = Ok (take (b - a) (drop a s))"
  by (simp add: slice_def ascii_boundary)

lemma slice_eq_Ok [outcome_simps]:
  "slice s a b = Ok t \<longleftrightarrow> a \<le> b \<and> b \<le> length s \<and> is_char_boundary s a \<and> is_char_boundary s b
     \<and> t = take (b - a) (drop a s)"
  by (auto simp: slice_def)

lemma slice_not_Err [simp]: "slice s a b \<noteq> Err e"
  by (simp add: slice_def)

text \<open>Well-formed UTF-8, which every \<open>&str\<close> is: a lead byte and its continuation bytes.\<close>

definition utf8_width :: "nat \<Rightarrow> nat" where
  "utf8_width b = (if b < 128 then 1 else if b < 194 then 0 else if b < 224 then 2
     else if b < 240 then 3 else if b < 245 then 4 else 0)"

definition utf8_second_ok :: "nat \<Rightarrow> string \<Rightarrow> bool" where
  "utf8_second_ok b cs =
     (if b = 224 then byte (hd cs) \<ge> 160 else if b = 237 then byte (hd cs) < 160
      else if b = 240 then byte (hd cs) \<ge> 144 else if b = 244 then byte (hd cs) < 144 else True)"

function valid_utf8 :: "string \<Rightarrow> bool" where
  "valid_utf8 [] = True"
| "valid_utf8 (c # cs) =
     (utf8_width (byte c) > 0 \<and> length cs \<ge> utf8_width (byte c) - 1
      \<and> list_all is_continuation (take (utf8_width (byte c) - 1) cs)
      \<and> utf8_second_ok (byte c) cs \<and> valid_utf8 (drop (utf8_width (byte c) - 1) cs))"
  by pat_completeness auto
termination by (relation "measure length") auto

text \<open>\<open>to_ascii_lowercase\<close> on one byte and on a string.\<close>

definition ascii_lower :: "char \<Rightarrow> char" where
  "ascii_lower c = (if 65 \<le> (of_char c :: nat) \<and> (of_char c :: nat) \<le> 90
     then char_of (of_char c + 32 :: nat) else c)"

definition to_ascii_lowercase :: "string \<Rightarrow> string" where
  "to_ascii_lowercase = map ascii_lower"

section \<open>Lists\<close>

lemma find_SomeD: "List.find P xs = Some x \<Longrightarrow> P x \<and> x \<in> set xs"
  by (induction xs) (auto split: if_splits)

lemma find_None_iff_all: "List.find P xs = None \<longleftrightarrow> (\<forall>x \<in> set xs. \<not> P x)"
  by (auto simp: find_None_iff)

lemma find_append: "List.find P (xs @ ys)
    = (case List.find P xs of None \<Rightarrow> List.find P ys | Some x \<Rightarrow> Some x)"
  by (induction xs) auto

lemma filter_swap: "filter P (filter Q xs) = filter Q (filter P xs)"
  by (induction xs) auto

lemma length_filter_partition:
  "length (filter P xs) + length (filter (\<lambda>x. \<not> P x) xs) = length xs"
  by (induction xs) auto

lemma in_concat_map: "y \<in> set (concat (map f xs)) \<longleftrightarrow> (\<exists>x \<in> set xs. y \<in> set (f x))"
  by auto

end
