(* ===== verification/Rust_Float.thy ===== *)
theory Rust_Float
  imports Complex_Main Prelude "HOL-Library.Log_Nat"
begin

text \<open>
  The \<open>f32\<close> and \<open>f64\<close> of the source: a floating-point number is NaN, an infinity with
  its sign, or a finite value, kept as the rational it denotes. Every operation computes
  the exact rational result and rounds it to nearest, ties to even, on the format's
  grid (precision \<open>p\<close>, exponent of the least subnormal \<open>emin\<close>, overflow at \<open>2 ^ emax\<close>), as
  IEEE 754 prescribes and the language promises for \<open>+ - * /\<close>, comparisons, \<open>min\<close>, \<open>max\<close>
  and \<open>as\<close> casts. The two zeros are one value here: no modelled function divides by a zero
  that can be negative or reads the sign of a zero.
\<close>

section \<open>Numbers and rounding\<close>

datatype fl = NaN | Inf bool | Fin rat \<comment> \<open>\<open>Inf True\<close> is negative infinity\<close>

type_synonym f32 = fl
type_synonym f64 = fl

text \<open>Powers of two, with one division where the exponent is negative.\<close>

definition pow2 :: "int \<Rightarrow> rat" where
  "pow2 k = (if 0 \<le> k then of_int (2 ^ nat k) else Fract 1 (2 ^ nat (- k)))"

lemma pow2_powi [simp]: "pow2 k = 2 powi k"
  by (simp add: pow2_def power_int_def Fract_of_int_quotient field_simps)

definition flog2 :: "rat \<Rightarrow> int" where
  "flog2 x = (let (n, d) = quotient_of x; k = bitlen n - bitlen d
     in if pow2 k \<le> x then k else k - 1)"

definition rnd_even :: "rat \<Rightarrow> int" where
  "rnd_even x = (let f = \<lfloor>x\<rfloor>; r = x - of_int f in
     if r < 1/2 then f else if r > 1/2 then f + 1 else if even f then f else f + 1)"

definition grid_exp :: "nat \<Rightarrow> int \<Rightarrow> rat \<Rightarrow> int" where
  "grid_exp p emin x = max emin (flog2 \<bar>x\<bar> - int p + 1)"

definition rnd :: "nat \<Rightarrow> int \<Rightarrow> rat \<Rightarrow> rat" where
  "rnd p emin x = (if x = 0 then 0
     else let q = pow2 (grid_exp p emin x) in of_int (rnd_even (x / q)) * q)"

definition to_fl :: "nat \<Rightarrow> int \<Rightarrow> int \<Rightarrow> rat \<Rightarrow> fl" where
  "to_fl p emin emax x = (let r = rnd p emin x in
     if r \<ge> pow2 emax then Inf False else if r \<le> - pow2 emax then Inf True else Fin r)"

definition f32_of :: "rat \<Rightarrow> f32" where
  "f32_of = to_fl 24 (-149) 128"

definition f64_of :: "rat \<Rightarrow> f64" where
  "f64_of = to_fl 53 (-1074) 1024"

section \<open>Operations\<close>

text \<open>Each takes the rounding of the format it computes in.\<close>

fun fl_neg :: "fl \<Rightarrow> fl" where
  "fl_neg NaN = NaN"
| "fl_neg (Inf s) = Inf (\<not> s)"
| "fl_neg (Fin a) = Fin (- a)"

fun fl_add :: "(rat \<Rightarrow> fl) \<Rightarrow> fl \<Rightarrow> fl \<Rightarrow> fl" where
  "fl_add R NaN y = NaN"
| "fl_add R x NaN = NaN"
| "fl_add R (Inf s) (Inf t) = (if s = t then Inf s else NaN)"
| "fl_add R (Inf s) (Fin b) = Inf s"
| "fl_add R (Fin a) (Inf t) = Inf t"
| "fl_add R (Fin a) (Fin b) = R (a + b)"

definition fl_sub :: "(rat \<Rightarrow> fl) \<Rightarrow> fl \<Rightarrow> fl \<Rightarrow> fl" where
  "fl_sub R x y = fl_add R x (fl_neg y)"

fun fl_mul :: "(rat \<Rightarrow> fl) \<Rightarrow> fl \<Rightarrow> fl \<Rightarrow> fl" where
  "fl_mul R NaN y = NaN"
| "fl_mul R x NaN = NaN"
| "fl_mul R (Inf s) (Inf t) = Inf (s \<noteq> t)"
| "fl_mul R (Inf s) (Fin b) = (if b = 0 then NaN else Inf (s \<noteq> (b < 0)))"
| "fl_mul R (Fin a) (Inf t) = (if a = 0 then NaN else Inf (t \<noteq> (a < 0)))"
| "fl_mul R (Fin a) (Fin b) = R (a * b)"

fun fl_div :: "(rat \<Rightarrow> fl) \<Rightarrow> fl \<Rightarrow> fl \<Rightarrow> fl" where
  "fl_div R NaN y = NaN"
| "fl_div R x NaN = NaN"
| "fl_div R (Inf s) (Inf t) = NaN"
| "fl_div R (Inf s) (Fin b) = Inf (s \<noteq> (b < 0))"
| "fl_div R (Fin a) (Inf t) = Fin 0"
| "fl_div R (Fin a) (Fin b) =
     (if b = 0 then (if a = 0 then NaN else Inf (a < 0)) else R (a / b))"

text \<open>The comparison operators: false as soon as an operand is NaN.\<close>

fun fl_lt :: "fl \<Rightarrow> fl \<Rightarrow> bool" where
  "fl_lt (Fin a) (Fin b) = (a < b)"
| "fl_lt (Inf s) (Fin b) = s"
| "fl_lt (Fin a) (Inf t) = (\<not> t)"
| "fl_lt (Inf s) (Inf t) = (s \<and> \<not> t)"
| "fl_lt x y = False"

fun fl_eq :: "fl \<Rightarrow> fl \<Rightarrow> bool" where
  "fl_eq NaN y = False"
| "fl_eq x NaN = False"
| "fl_eq x y = (x = y)"

definition fl_le :: "fl \<Rightarrow> fl \<Rightarrow> bool" where
  "fl_le x y \<longleftrightarrow> fl_lt x y \<or> fl_eq x y"

text \<open>\<open>f32::max\<close> and \<open>f32::min\<close> return the other operand when one is NaN.\<close>

definition fl_max :: "fl \<Rightarrow> fl \<Rightarrow> fl" where
  "fl_max x y = (if x = NaN then y else if y = NaN then x else if fl_lt x y then y else x)"

definition fl_min :: "fl \<Rightarrow> fl \<Rightarrow> fl" where
  "fl_min x y = (if x = NaN then y else if y = NaN then x else if fl_lt y x then y else x)"

text \<open>\<open>clamp\<close> panics when its bounds are not ordered (or are NaN), and keeps NaN.\<close>

definition fl_clamp :: "fl \<Rightarrow> fl \<Rightarrow> fl \<Rightarrow> ('e, fl) outcome" where
  "fl_clamp lo hi x =
     (if \<not> fl_le lo hi then Panic
      else Ok (if fl_lt x lo then lo else if fl_lt hi x then hi else x))"

text \<open>\<open>as usize\<close> truncates towards zero and saturates; NaN becomes 0.\<close>

fun fl_to_u64 :: "fl \<Rightarrow> nat" where
  "fl_to_u64 NaN = 0"
| "fl_to_u64 (Inf s) = (if s then 0 else u64_max)"
| "fl_to_u64 (Fin a) = nat (min (int u64_max) \<lfloor>a\<rfloor>)"

fun fl_ceil :: "fl \<Rightarrow> fl" where
  "fl_ceil (Fin a) = Fin (of_int \<lceil>a\<rceil>)"
| "fl_ceil x = x"

text \<open>A number in the unit interval: the range of weights, scores and confidences.\<close>

fun in_unit :: "fl \<Rightarrow> bool" where
  "in_unit (Fin a) = (0 \<le> a \<and> a \<le> 1)"
| "in_unit x = False"

section \<open>The binary logarithm\<close>

lemma bitlen_bounds_rat:
  assumes "0 < n"
  shows "(2::rat) powi (bitlen n - 1) \<le> of_int n" and "of_int n < (2::rat) powi bitlen n"
proof -
  obtain k where k: "bitlen n = int k" "0 < k"
    using assms bitlen_nonneg[of n] bitlen_bounds[of n] by (cases "bitlen n") force+
  have "2 ^ nat (bitlen n - 1) \<le> n \<and> n < 2 ^ nat (bitlen n)"
    using bitlen_bounds[of n] assms by simp
  then have b: "2 ^ (k - 1) \<le> n" "n < 2 ^ k"
    using k by (auto simp: nat_diff_distrib)
  have e: "(2::rat) powi (bitlen n - 1) = of_int (2 ^ (k - 1))"
    using k by (simp add: power_int_def nat_diff_distrib)
  show "(2::rat) powi (bitlen n - 1) \<le> of_int n"
    unfolding e using b(1) by (simp only: of_int_le_iff)
  have e2: "(2::rat) powi bitlen n = of_int (2 ^ k)"
    using k by (simp add: power_int_def)
  show "of_int n < (2::rat) powi bitlen n"
    unfolding e2 using b(2) by (simp only: of_int_less_iff)
qed

lemma powi_mono2: "m \<le> n \<Longrightarrow> (2::rat) powi m \<le> 2 powi n"
  by (simp add: power_int_increasing)

lemma powi_pos2 [simp]: "0 < (2::rat) powi n"
  by (simp add: zero_less_power_int)

lemma powi_less_iff2: "(2::rat) powi m < 2 powi n \<longleftrightarrow> m < n"
  using power_int_strict_increasing[of m n "2::rat"] powi_mono2[of n m] by fastforce

lemma powi_add2: "(2::rat) powi (m + n) = 2 powi m * 2 powi n"
  by (simp add: power_int_add)

lemma powi_diff2: "(2::rat) powi (m - n) = 2 powi m / 2 powi n"
  by (simp add: power_int_diff)

lemma flog2_bounds:
  assumes "0 < x"
  shows "2 powi flog2 x \<le> x" and "x < 2 powi (flog2 x + 1)"
proof -
  obtain n d where q: "quotient_of x = (n, d)" by fastforce
  have d: "0 < d" using quotient_of_denom_pos[OF q] .
  have x: "x = of_int n / of_int d" using quotient_of_div[OF q] .
  then have n: "0 < n" using assms d by (simp add: zero_less_divide_iff)
  define k where "k = bitlen n - bitlen d"
  have lo: "2 powi (k - 1) \<le> x"
  proof -
    have "(2::rat) powi (bitlen n - 1) / 2 powi bitlen d \<le> of_int n / of_int d"
      using bitlen_bounds_rat[OF n] bitlen_bounds_rat[OF d] n d by (intro frac_le) auto
    then show ?thesis by (simp add: x k_def algebra_simps flip: powi_diff2)
  qed
  have hi: "x < 2 powi (k + 1)"
  proof -
    have "of_int n / of_int d < (2::rat) powi bitlen n / 2 powi (bitlen d - 1)"
      using bitlen_bounds_rat[OF n] bitlen_bounds_rat[OF d] n d
      by (intro frac_less) auto
    moreover have "(2::rat) powi bitlen n / 2 powi (bitlen d - 1) = 2 powi (k + 1)"
      by (simp add: k_def algebra_simps flip: powi_diff2)
    ultimately show ?thesis using x by simp
  qed
  have f: "flog2 x = (if 2 powi k \<le> x then k else k - 1)"
    by (simp add: flog2_def q k_def Let_def)
  show "2 powi flog2 x \<le> x" "x < 2 powi (flog2 x + 1)"
    using lo hi by (auto simp: f)
qed

lemma flog2_mono:
  assumes "0 < x" "x \<le> y"
  shows "flog2 x \<le> flog2 y"
proof -
  have "(2::rat) powi flog2 x < 2 powi (flog2 y + 1)"
    using flog2_bounds(1)[of x] flog2_bounds(2)[of y] assms by linarith
  then show ?thesis by (simp add: powi_less_iff2)
qed

section \<open>Rounding is monotone and exact on the grid\<close>

lemma rnd_even_bounds: "\<lfloor>x\<rfloor> \<le> rnd_even x" "rnd_even x \<le> \<lfloor>x\<rfloor> + 1"
  by (auto simp: rnd_even_def Let_def)

lemma rnd_even_of_int [simp]: "rnd_even (of_int n) = n"
  by (simp add: rnd_even_def)

lemma rnd_even_mono:
  assumes "x \<le> y"
  shows "rnd_even x \<le> rnd_even y"
proof (cases "\<lfloor>x\<rfloor> = \<lfloor>y\<rfloor>")
  case True
  then show ?thesis using assms by (auto simp: rnd_even_def Let_def)
next
  case False
  then have "\<lfloor>x\<rfloor> + 1 \<le> \<lfloor>y\<rfloor>" using assms floor_mono[of x y] by linarith
  then show ?thesis using rnd_even_bounds[of x] rnd_even_bounds[of y] by linarith
qed

lemma rnd_even_minus: "rnd_even (- x) = - rnd_even x"
proof (cases "x = of_int \<lfloor>x\<rfloor>")
  case True
  then show ?thesis by (metis of_int_minus rnd_even_of_int)
next
  case False
  then have "of_int \<lfloor>x\<rfloor> < x" using of_int_floor_le[of x] by linarith
  then have "\<lfloor>- x\<rfloor> = - \<lfloor>x\<rfloor> - 1" by linarith
  then show ?thesis by (auto simp: rnd_even_def Let_def)
qed

lemma rnd_zero [simp]: "rnd p emin 0 = 0"
  by (simp add: rnd_def)

lemma rnd_minus: "rnd p emin (- x) = - rnd p emin x"
  by (simp add: rnd_def grid_exp_def Let_def rnd_even_minus)

lemma rnd_le_grid:
  assumes "x \<noteq> 0" "x \<le> c" "c = of_int m * 2 powi grid_exp p emin x"
  shows "rnd p emin x \<le> c"
proof -
  let ?q = "(2::rat) powi grid_exp p emin x"
  have "x / ?q \<le> of_int m" using assms(2,3) by (simp add: divide_le_eq)
  then have "rnd_even (x / ?q) \<le> m" using rnd_even_mono[of "x / ?q" "of_int m"] by simp
  then have "(of_int (rnd_even (x / ?q)) :: rat) \<le> of_int m" by simp
  then show ?thesis using assms(1,3) by (simp add: rnd_def Let_def mult_right_mono)
qed

lemma rnd_ge_grid:
  assumes "x \<noteq> 0" "c \<le> x" "c = of_int m * 2 powi grid_exp p emin x"
  shows "c \<le> rnd p emin x"
proof -
  let ?q = "(2::rat) powi grid_exp p emin x"
  have "of_int m \<le> x / ?q" using assms(2,3) by (simp add: le_divide_eq)
  then have "m \<le> rnd_even (x / ?q)" using rnd_even_mono[of "of_int m" "x / ?q"] by simp
  then have "(of_int m :: rat) \<le> of_int (rnd_even (x / ?q))" by simp
  then show ?thesis using assms(1,3) by (simp add: rnd_def Let_def mult_right_mono)
qed

lemma powi_on_grid:
  assumes "j \<le> i"
  shows "(2::rat) powi i = of_int (2 ^ nat (i - j)) * 2 powi j"
proof -
  have "(2::rat) powi i = 2 powi ((i - j) + j)" by simp
  also have "\<dots> = 2 powi (i - j) * 2 powi j" by (simp only: powi_add2)
  also have "(2::rat) powi (i - j) = of_int (2 ^ nat (i - j))"
    using assms by (simp add: power_int_def)
  finally show ?thesis .
qed

lemma rnd_mono_pos:
  assumes "0 < x" "x \<le> y" "0 < p"
  shows "rnd p emin x \<le> rnd p emin y"
proof (cases "grid_exp p emin x = grid_exp p emin y")
  case True
  let ?q = "(2::rat) powi grid_exp p emin x"
  have "x / ?q \<le> y / ?q" using assms by (simp add: divide_right_mono)
  then have "rnd_even (x / ?q) \<le> rnd_even (y / ?q)" by (rule rnd_even_mono)
  then have "(of_int (rnd_even (x / ?q)) :: rat) \<le> of_int (rnd_even (y / ?q))" by simp
  then show ?thesis using assms True by (simp add: rnd_def Let_def mult_right_mono)
next
  case False
  let ?B = "(2::rat) powi flog2 y"
  have y: "0 < y" using assms by simp
  have le: "flog2 x \<le> flog2 y" using flog2_mono assms by simp
  have gy: "grid_exp p emin y = flog2 y - int p + 1" and gx: "grid_exp p emin x < grid_exp p emin y"
    and lt: "flog2 x < flog2 y"
    using False le assms y by (auto simp: grid_exp_def max_def split: if_splits)
  have "x < 2 powi (flog2 x + 1)" using flog2_bounds(2) assms by simp
  also have "\<dots> \<le> ?B" using lt by (intro powi_mono2) simp
  finally have xB: "x \<le> ?B" by simp
  have "grid_exp p emin x \<le> flog2 y" using gx gy assms by simp
  note Bx = powi_on_grid[OF this]
  have "grid_exp p emin y \<le> flog2 y" using gy assms by simp
  note By = powi_on_grid[OF this]
  have "rnd p emin x \<le> ?B"
    using assms by (intro rnd_le_grid[OF _ xB Bx]) simp
  also have "?B \<le> rnd p emin y"
    using y by (intro rnd_ge_grid[OF _ flog2_bounds(1) By]) simp_all
  finally show ?thesis .
qed

lemma rnd_nonneg: "0 \<le> x \<Longrightarrow> 0 \<le> rnd p emin x"
  using rnd_ge_grid[of x 0 0 p emin] by (cases "x = 0") auto

lemma rnd_mono:
  assumes "x \<le> y" "0 < p"
  shows "rnd p emin x \<le> rnd p emin y"
proof -
  consider "0 < x" | "x \<le> 0" "0 \<le> y" | "y < 0" by linarith
  then show ?thesis
  proof cases
    case 1
    then show ?thesis using rnd_mono_pos assms by simp
  next
    case 2
    then have "rnd p emin x \<le> 0" using rnd_nonneg[of "- x" p emin] by (simp add: rnd_minus)
    also have "0 \<le> rnd p emin y" using 2 by (simp add: rnd_nonneg)
    finally show ?thesis .
  next
    case 3
    then have "rnd p emin (- y) \<le> rnd p emin (- x)" using rnd_mono_pos[of "- y" "- x"] assms by simp
    then show ?thesis by (simp add: rnd_minus)
  qed
qed

lemma rnd_powi:
  assumes "0 < p" "emin \<le> k"
  shows "rnd p emin (2 powi k) = 2 powi k"
proof -
  have "flog2 (2 powi k) = k"
    using flog2_bounds[of "2 powi k"] powi_less_iff2[of k "flog2 (2 powi k) + 1"]
      powi_less_iff2[of k "flog2 (2 powi k)"] by (force simp: not_less)
  then have "grid_exp p emin (2 powi k) \<le> k" using assms by (simp add: grid_exp_def)
  note g = powi_on_grid[OF this]
  show ?thesis
    by (intro antisym rnd_le_grid[OF _ order_refl g] rnd_ge_grid[OF _ order_refl g]) simp_all
qed

lemma rnd_of_nat:
  assumes "n < 2 ^ p" "emin \<le> 0"
  shows "rnd p emin (of_nat n) = of_nat n"
proof (cases "n = 0")
  case False
  then have n: "0 < (of_nat n :: rat)" by simp
  have "(of_nat n :: rat) < of_nat (2 ^ p)" using assms(1) by (simp only: of_nat_less_iff)
  moreover have "(of_nat (2 ^ p) :: rat) = 2 powi int p" by simp
  ultimately have "(2::rat) powi flog2 (of_nat n) < 2 powi int p"
    using flog2_bounds(1)[OF n] by linarith
  then have "flog2 (of_nat n) < int p" by (simp only: powi_less_iff2)
  then have "grid_exp p emin (of_nat n) \<le> 0" using assms by (simp add: grid_exp_def)
  from powi_on_grid[OF this]
  have g: "(of_nat n :: rat) = of_int (int n * 2 ^ nat (- grid_exp p emin (of_nat n)))
      * 2 powi grid_exp p emin (of_nat n)" by (simp add: mult.assoc)
  show ?thesis
    using n by (intro antisym rnd_le_grid[OF _ order_refl g] rnd_ge_grid[OF _ order_refl g]) simp_all
qed simp

section \<open>Bounds of the operations\<close>

lemma rnd_unit:
  assumes "0 \<le> x" "x \<le> 1" "0 < p" "emin \<le> 0"
  shows "0 \<le> rnd p emin x \<and> rnd p emin x \<le> 1"
  using rnd_nonneg[OF assms(1)] rnd_mono[OF assms(2,3), of emin] rnd_powi[OF assms(3,4)] by simp

lemma to_fl_unit:
  assumes "0 \<le> x" "x \<le> 1" "0 < p" "emin \<le> 0" "0 < emax"
  shows "to_fl p emin emax x = Fin (rnd p emin x) \<and> in_unit (Fin (rnd p emin x))"
proof -
  have "(1::rat) < 2 powi emax" using powi_less_iff2[of 0 emax] assms(5) by simp
  then show ?thesis using rnd_unit[OF assms(1-4)] by (simp add: to_fl_def Let_def)
qed

lemma f32_of_unit: "0 \<le> x \<Longrightarrow> x \<le> 1 \<Longrightarrow> in_unit (f32_of x)"
  using to_fl_unit[of x 24 "-149" 128] by (simp add: f32_of_def)

lemma f64_of_unit: "0 \<le> x \<Longrightarrow> x \<le> 1 \<Longrightarrow> in_unit (f64_of x)"
  using to_fl_unit[of x 53 "-1074" 1024] by (simp add: f64_of_def)

text \<open>Rounding keeps a magnitude bounded by a power of two within that bound.\<close>

lemma rnd_abs_le_powi:
  assumes "\<bar>x\<bar> \<le> 2 powi k" "0 < p" "emin \<le> k"
  shows "\<bar>rnd p emin x\<bar> \<le> 2 powi k"
proof -
  have "rnd p emin x \<le> 2 powi k"
    using rnd_mono[of x "2 powi k" p emin] rnd_powi[OF assms(2,3)] assms by simp
  moreover have "- rnd p emin x \<le> 2 powi k"
    using rnd_mono[of "- x" "2 powi k" p emin] rnd_powi[OF assms(2,3)] assms by (simp add: rnd_minus)
  ultimately show ?thesis by simp
qed

lemma to_fl_bounded:
  assumes "\<bar>x\<bar> \<le> 2 powi k" "0 < p" "emin \<le> k" "k < emax"
  shows "to_fl p emin emax x = Fin (rnd p emin x) \<and> \<bar>rnd p emin x\<bar> \<le> 2 powi k"
  using rnd_abs_le_powi[OF assms(1-3)] powi_less_iff2[of k emax] assms(4)
  by (auto simp: to_fl_def Let_def)

lemma f32_of_bounded: "\<bar>x\<bar> \<le> 2 powi k \<Longrightarrow> -149 \<le> k \<Longrightarrow> k < 128 \<Longrightarrow> \<exists>r. f32_of x = Fin r \<and> \<bar>r\<bar> \<le> 2 powi k"
  using to_fl_bounded[of x k 24 "-149" 128] by (simp add: f32_of_def)

lemma f64_of_bounded: "\<bar>x\<bar> \<le> 2 powi k \<Longrightarrow> -1074 \<le> k \<Longrightarrow> k < 1024 \<Longrightarrow> \<exists>r. f64_of x = Fin r \<and> \<bar>r\<bar> \<le> 2 powi k"
  using to_fl_bounded[of x k 53 "-1074" 1024] by (simp add: f64_of_def)

text \<open>\<open>as f64\<close> of a 64-bit integer is finite.\<close>

lemma f64_of_u64: "n < u64_mod \<Longrightarrow> f64_of (of_nat n) = Fin (rnd 53 (-1074) (of_nat n)) \<and> rnd 53 (-1074) (of_nat n) \<le> 2 powi 64"
proof -
  assume "n < u64_mod"
  then have "\<bar>of_nat n :: rat\<bar> \<le> of_nat (2 ^ 64)" by (simp only: abs_of_nat of_nat_le_iff) simp
  also have "of_nat (2 ^ 64) = (2::rat) powi 64" by simp
  finally have "\<bar>of_nat n :: rat\<bar> \<le> 2 powi 64" .
  from to_fl_bounded[OF this, of 53 "-1074" 1024] show ?thesis by (auto simp: f64_of_def abs_le_iff)
qed

lemma in_unit_iff: "in_unit v \<longleftrightarrow> (\<exists>a. v = Fin a \<and> 0 \<le> a \<and> a \<le> 1)"
  by (cases v) auto

lemma in_unit_mul_f32: "in_unit x \<Longrightarrow> in_unit y \<Longrightarrow> in_unit (fl_mul f32_of x y)"
  by (auto simp: in_unit_iff intro!: f32_of_unit[unfolded in_unit_iff] mult_le_one)

lemma in_unit_min: "in_unit x \<Longrightarrow> in_unit y \<Longrightarrow> in_unit (fl_min x y)"
  by (auto simp: in_unit_iff fl_min_def)

lemma in_unit_max: "in_unit x \<Longrightarrow> in_unit y \<Longrightarrow> in_unit (fl_max x y)"
  by (auto simp: in_unit_iff fl_max_def)

lemma fl_clamp_unit:
  "\<exists>v. fl_clamp (Fin 0) (Fin 1) x = Ok v \<and> (x \<noteq> NaN \<longrightarrow> in_unit v)"
  by (cases x) (auto simp: fl_clamp_def fl_le_def)

lemma f32_of_not_NaN [simp]: "f32_of x \<noteq> NaN"
  by (simp add: f32_of_def to_fl_def Let_def)

lemma f64_of_not_NaN [simp]: "f64_of x \<noteq> NaN"
  by (simp add: f64_of_def to_fl_def Let_def)

section \<open>Comparisons\<close>

lemma fl_lt_irrefl [simp]: "\<not> fl_lt x x"
  by (cases x) auto

lemma fl_lt_asym: "fl_lt x y \<Longrightarrow> \<not> fl_lt y x"
  by (cases x; cases y) auto

lemma fl_lt_trans: "fl_lt x y \<Longrightarrow> fl_lt y z \<Longrightarrow> fl_lt x z"
  by (cases x; cases y; cases z) auto

lemma fl_lt_negtrans: "y \<noteq> NaN \<Longrightarrow> \<not> fl_lt x y \<Longrightarrow> \<not> fl_lt y z \<Longrightarrow> \<not> fl_lt x z"
  by (cases x; cases y; cases z) auto

lemma fl_not_lt: "x \<noteq> NaN \<Longrightarrow> y \<noteq> NaN \<Longrightarrow> \<not> fl_lt x y \<longleftrightarrow> fl_le y x"
  by (cases x; cases y) (auto simp: fl_le_def)

lemma fl_le_not_NaN: "fl_le x y \<Longrightarrow> x \<noteq> NaN \<and> y \<noteq> NaN"
  by (cases x; cases y) (auto simp: fl_le_def)

lemma fl_le_Fin [simp]: "fl_le (Fin a) (Fin b) \<longleftrightarrow> a \<le> b"
  by (auto simp: fl_le_def)

lemma fl_le_trans: "fl_le x y \<Longrightarrow> fl_le y z \<Longrightarrow> fl_le x z"
  by (cases x; cases y; cases z) (auto simp: fl_le_def)

section \<open>Square root\<close>

text \<open>
  The correctly rounded square root: the integer root of the scaled argument, then the nearer of
  the two neighbouring numbers with \<open>p\<close> significant bits.
\<close>

function isqrt :: "int \<Rightarrow> int" where
  "isqrt n = (if n \<le> 0 then 0
     else let r = 2 * isqrt (n div 4) in if (r + 1) * (r + 1) \<le> n then r + 1 else r)"
  by pat_completeness auto
termination by (relation "measure nat") auto

declare isqrt.simps [simp del]

definition sqrt_rnd :: "nat \<Rightarrow> rat \<Rightarrow> rat" where
  "sqrt_rnd p x =
     (let q = pow2 (flog2 x div 2 - int p + 1); m = isqrt \<lfloor>x / (q * q)\<rfloor>; mid = (of_int m + 1/2) * q
      in if x < mid * mid then of_int m * q
         else if mid * mid < x then of_int (m + 1) * q
         else of_int (if even m then m else m + 1) * q)"

fun fl_sqrt :: "nat \<Rightarrow> fl \<Rightarrow> fl" where
  "fl_sqrt p NaN = NaN"
| "fl_sqrt p (Inf s) = (if s then NaN else Inf False)"
| "fl_sqrt p (Fin a) = (if a < 0 then NaN else if a = 0 then Fin 0 else Fin (sqrt_rnd p a))"

lemma isqrt_bounds: "0 \<le> n \<Longrightarrow> 0 \<le> isqrt n \<and> isqrt n * isqrt n \<le> n \<and> n < (isqrt n + 1) * (isqrt n + 1)"
proof (induction n rule: isqrt.induct)
  case (1 n)
  show ?case
  proof (cases "n \<le> 0")
    case True
    have "isqrt n = 0" by (subst isqrt.simps) (simp add: True)
    moreover have "n = 0" using True 1(2) by simp
    ultimately show ?thesis by simp
  next
    case False
    let ?s = "isqrt (n div 4)"
    have s: "0 \<le> ?s" "?s * ?s \<le> n div 4" "n div 4 < (?s + 1) * (?s + 1)" using 1 False by simp_all
    have lo: "(2 * ?s) * (2 * ?s) \<le> n" using s(2) by (simp add: algebra_simps)
    have "n < 4 * ((?s + 1) * (?s + 1))" using s(3) by linarith
    then have hi: "n < (2 * ?s + 1 + 1) * (2 * ?s + 1 + 1)" by (simp add: algebra_simps)
    show ?thesis using False s(1) lo hi by (simp add: isqrt.simps[of n] Let_def not_le)
  qed
qed

end
