(* ===== verification/Core_Types.thy ===== *)
theory Core_Types
  imports Rust_Float
begin

text \<open>
  The data model of \<open>crates/mentedb-core\<close>: identifiers (\<open>types.rs\<close>), the memory node
  (\<open>memory.rs\<close>), the typed edge (\<open>edge.rs\<close>), the error type (\<open>error.rs\<close>), and the
  temporal validity that nodes and edges share.
\<close>

section \<open>Identifiers\<close>

text \<open>
  The three newtypes of \<open>define_id!\<close> around a 128-bit UUID. Random generation
  (\<open>Uuid::new_v4\<close>) belongs to the uuid crate: an operation that makes a new identifier takes
  it as an argument.
\<close>

type_synonym uuid = "128 word"

datatype MemoryId = MemoryId uuid
datatype AgentId = AgentId uuid
datatype SpaceId = SpaceId uuid

definition nil_space :: SpaceId where
  "nil_space = SpaceId 0"

type_synonym Embedding = "f32 list"
type_synonym Timestamp = nat

section \<open>Memory nodes\<close>

datatype MemoryType =
  Episodic | Semantic | Procedural | AntiPattern | Reasoning | Correction

datatype AttributeValue =
  AString string | AInteger int | AFloat f64 | ABoolean bool | ABytes "8 word list"

record MemoryNode =
  mn_id :: MemoryId
  mn_agent_id :: AgentId
  mn_memory_type :: MemoryType
  mn_embedding :: Embedding
  mn_content :: string
  mn_created_at :: Timestamp
  mn_accessed_at :: Timestamp
  mn_access_count :: nat
  mn_salience :: f32
  mn_confidence :: f32
  mn_space_id :: SpaceId
  mn_attributes :: "string \<rightharpoonup> AttributeValue"
  mn_tags :: "string list"
  mn_valid_from :: "Timestamp option"
  mn_valid_until :: "Timestamp option"

text \<open>\<open>MemoryNode::new\<close>: the fresh identifier and the clock are arguments.\<close>

definition memory_node_new ::
  "MemoryId \<Rightarrow> Timestamp \<Rightarrow> AgentId \<Rightarrow> MemoryType \<Rightarrow> string \<Rightarrow> Embedding \<Rightarrow> MemoryNode" where
  "memory_node_new fresh now agent_id memory_type content embedding =
     \<lparr> mn_id = fresh, mn_agent_id = agent_id, mn_memory_type = memory_type,
       mn_embedding = embedding, mn_content = content, mn_created_at = now,
       mn_accessed_at = now, mn_access_count = 0, mn_salience = Fin 1, mn_confidence = Fin 1,
       mn_space_id = nil_space, mn_attributes = Map.empty, mn_tags = [],
       mn_valid_from = None, mn_valid_until = None \<rparr>"

definition node_is_valid_at :: "MemoryNode \<Rightarrow> Timestamp \<Rightarrow> bool" where
  "node_is_valid_at m t =
     (let frm = (case mn_valid_from m of None \<Rightarrow> 0 | Some f \<Rightarrow> f)
      in case mn_valid_until m of
           Some until \<Rightarrow> frm \<le> t \<and> t < until
         | None \<Rightarrow> frm \<le> t)"

definition node_invalidate :: "MemoryNode \<Rightarrow> Timestamp \<Rightarrow> MemoryNode" where
  "node_invalidate m t = m\<lparr>mn_valid_until := Some t\<rparr>"

definition node_is_invalidated :: "MemoryNode \<Rightarrow> bool" where
  "node_is_invalidated m = (mn_valid_until m \<noteq> None)"

section \<open>Edges\<close>

datatype EdgeType =
  Caused | Before | Related | Contradicts | Supports | Supersedes | Derived | PartOf

record MemoryEdge =
  me_source :: MemoryId
  me_target :: MemoryId
  me_edge_type :: EdgeType
  me_weight :: f32
  me_created_at :: Timestamp
  me_valid_from :: "Timestamp option"
  me_valid_until :: "Timestamp option"
  me_label :: "string option"

definition edge_is_valid_at :: "MemoryEdge \<Rightarrow> Timestamp \<Rightarrow> bool" where
  "edge_is_valid_at e t =
     (let frm = (case me_valid_from e of None \<Rightarrow> 0 | Some f \<Rightarrow> f)
      in case me_valid_until e of
           Some until \<Rightarrow> frm \<le> t \<and> t < until
         | None \<Rightarrow> frm \<le> t)"

definition edge_invalidate :: "MemoryEdge \<Rightarrow> Timestamp \<Rightarrow> MemoryEdge" where
  "edge_invalidate e t = e\<lparr>me_valid_until := Some t\<rparr>"

definition edge_is_invalidated :: "MemoryEdge \<Rightarrow> bool" where
  "edge_is_invalidated e = (me_valid_until e \<noteq> None)"

section \<open>Errors\<close>

datatype MenteError =
    MemoryNotFound MemoryId
  | Storage string
  | Index string
  | Query string
  | Serialization string
  | InvalidInput string
  | CapacityExceeded string
  | EmbeddingDimensionMismatch nat nat
  | PermissionDenied AgentId SpaceId
  | ResourceExhausted string
  | Io string

type_synonym 'a MenteResult = "(MenteError, 'a) outcome"

section \<open>Temporal validity\<close>

text \<open>
  Nodes and edges promise the same contract: they are valid on the half-open interval
  from \<open>valid_from\<close> (or the epoch) to \<open>valid_until\<close> (or for ever), and invalidating one
  closes the interval at the given time.
\<close>

locale temporal =
  fixes valid_from :: "'a \<Rightarrow> Timestamp option"
    and valid_until :: "'a \<Rightarrow> Timestamp option"
    and is_valid_at :: "'a \<Rightarrow> Timestamp \<Rightarrow> bool"
    and invalidate :: "'a \<Rightarrow> Timestamp \<Rightarrow> 'a"
  assumes valid_at_window: "is_valid_at x t \<longleftrightarrow>
      (case valid_from x of None \<Rightarrow> 0 | Some f \<Rightarrow> f) \<le> t
      \<and> (case valid_until x of None \<Rightarrow> True | Some u \<Rightarrow> t < u)"
    and invalidate_from: "valid_from (invalidate x t) = valid_from x"
    and invalidate_until: "valid_until (invalidate x t) = Some t"
begin

lemma valid_after_invalidate:
  "is_valid_at (invalidate x t) u
     \<longleftrightarrow> (case valid_from x of None \<Rightarrow> 0 | Some f \<Rightarrow> f) \<le> u \<and> u < t"
  by (simp add: valid_at_window invalidate_from invalidate_until)

lemma invalidate_shrinks:
  assumes "\<forall>u. valid_until x = Some u \<longrightarrow> t \<le> u"
  shows "is_valid_at (invalidate x t) s \<longleftrightarrow> is_valid_at x s \<and> s < t"
  unfolding valid_after_invalidate valid_at_window[of x s]
  using assms by (auto split: option.splits)

lemma invalidate_twice: "is_valid_at (invalidate (invalidate x t) u) s \<longleftrightarrow> is_valid_at (invalidate x u) s"
  by (simp add: valid_after_invalidate invalidate_from)

end

interpretation node_time: temporal mn_valid_from mn_valid_until node_is_valid_at node_invalidate
  by unfold_locales
    (auto simp: node_is_valid_at_def node_invalidate_def Let_def split: option.splits)

interpretation edge_time: temporal me_valid_from me_valid_until edge_is_valid_at edge_invalidate
  by unfold_locales
    (auto simp: edge_is_valid_at_def edge_invalidate_def Let_def split: option.splits)

end
