(* ===== verification/Graph_Csr.thy ===== *)
theory Graph_Csr
  imports Core_Types
begin

text \<open>
  The knowledge graph of \<open>crates/mentedb-graph/src/csr.rs\<close>: compressed sparse rows for
  outgoing edges, the same by column for incoming ones, a log of edges not compacted yet
  and a list of removed pairs. This theory holds the data, every operation, and the
  correctness of the counting sort behind \<open>compact\<close>. Node indices are \<open>u32\<close>: the cast of
  \<open>add_node\<close> and the counters of \<open>build_compressed\<close> wrap.

  The slices \<open>col_indices[start..end]\<close> and \<open>edge_data[start..end]\<close> panic in the source
  when the offsets leave the arrays; \<open>cs_wf\<close> says they do not, and the theory on the graph's
  invariant shows it of every graph the operations can build.
\<close>

section \<open>Data\<close>

record StoredEdge =
  se_edge_type :: EdgeType
  se_weight :: f32
  se_created_at :: Timestamp
  se_valid_from :: "Timestamp option"
  se_valid_until :: "Timestamp option"
  se_label :: "string option"

definition from_memory_edge :: "MemoryEdge \<Rightarrow> StoredEdge" where
  "from_memory_edge e =
     \<lparr> se_edge_type = me_edge_type e, se_weight = me_weight e, se_created_at = me_created_at e,
       se_valid_from = me_valid_from e, se_valid_until = me_valid_until e, se_label = me_label e \<rparr>"

definition stored_is_valid_at :: "StoredEdge \<Rightarrow> Timestamp \<Rightarrow> bool" where
  "stored_is_valid_at e t =
     (let frm = (case se_valid_from e of None \<Rightarrow> 0 | Some f \<Rightarrow> f)
      in case se_valid_until e of
           Some until \<Rightarrow> frm \<le> t \<and> t < until
         | None \<Rightarrow> frm \<le> t)"

definition stored_is_invalidated :: "StoredEdge \<Rightarrow> bool" where
  "stored_is_invalidated e = (se_valid_until e \<noteq> None)"

record DeltaEdge =
  de_source_idx :: nat
  de_target_idx :: nat
  de_data :: StoredEdge

record CompressedStorage =
  row_offsets :: "nat list"
  col_indices :: "nat list"
  edge_data :: "StoredEdge list"

definition cs_default :: CompressedStorage where
  "cs_default = \<lparr> row_offsets = [], col_indices = [], edge_data = [] \<rparr>"

definition cs_new :: "nat \<Rightarrow> CompressedStorage" where
  "cs_new num_nodes = \<lparr> row_offsets = replicate (num_nodes + 1) 0, col_indices = [], edge_data = [] \<rparr>"

definition neighbors :: "CompressedStorage \<Rightarrow> nat \<Rightarrow> nat list" where
  "neighbors cs row =
     (if row + 1 \<ge> length (row_offsets cs) then []
      else let start = row_offsets cs ! row; stop = row_offsets cs ! (row + 1)
           in take (stop - start) (drop start (col_indices cs)))"

definition edge_data_for :: "CompressedStorage \<Rightarrow> nat \<Rightarrow> StoredEdge list" where
  "edge_data_for cs row =
     (if row + 1 \<ge> length (row_offsets cs) then []
      else let start = row_offsets cs ! row; stop = row_offsets cs ! (row + 1)
           in take (stop - start) (drop start (edge_data cs)))"

record CsrGraph =
  id_to_idx :: "MemoryId \<rightharpoonup> nat"
  idx_to_id :: "MemoryId list"
  csr :: CompressedStorage
  csc :: CompressedStorage
  delta_edges :: "DeltaEdge list"
  removed_edges :: "(nat \<times> nat) list"

section \<open>Operations\<close>

definition graph_new :: CsrGraph where
  "graph_new = \<lparr> id_to_idx = Map.empty, idx_to_id = [], csr = cs_default, csc = cs_default,
     delta_edges = [], removed_edges = [] \<rparr>"

definition add_node :: "CsrGraph \<Rightarrow> MemoryId \<Rightarrow> CsrGraph \<times> nat" where
  "add_node g i =
     (case id_to_idx g i of
        Some idx \<Rightarrow> (g, idx)
      | None \<Rightarrow> let idx = wrap32 (length (idx_to_id g))
          in (g\<lparr>id_to_idx := (id_to_idx g)(i \<mapsto> idx), idx_to_id := idx_to_id g @ [i]\<rparr>, idx))"

definition remove_node :: "CsrGraph \<Rightarrow> MemoryId \<Rightarrow> CsrGraph" where
  "remove_node g i =
     (case id_to_idx g i of
        None \<Rightarrow> g
      | Some idx \<Rightarrow>
          g\<lparr>removed_edges := removed_edges g
               @ map (\<lambda>neighbor. (idx, neighbor)) (neighbors (csr g) idx)
               @ map (\<lambda>neighbor. (neighbor, idx)) (neighbors (csc g) idx),
            delta_edges := filter (\<lambda>e. de_source_idx e \<noteq> idx \<and> de_target_idx e \<noteq> idx)
               (delta_edges g),
            id_to_idx := (id_to_idx g)(i := None)\<rparr>)"

definition push_delta :: "CsrGraph \<Rightarrow> nat \<Rightarrow> nat \<Rightarrow> StoredEdge \<Rightarrow> CsrGraph" where
  "push_delta g s t d = g\<lparr>delta_edges := delta_edges g
     @ [\<lparr> de_source_idx = s, de_target_idx = t, de_data = d \<rparr>]\<rparr>"

definition add_edge :: "CsrGraph \<Rightarrow> MemoryEdge \<Rightarrow> CsrGraph" where
  "add_edge g e =
     (let (g1, source_idx) = add_node g (me_source e);
          (g2, target_idx) = add_node g1 (me_target e)
      in push_delta g2 source_idx target_idx (from_memory_edge e))"

definition is_removed :: "CsrGraph \<Rightarrow> nat \<Rightarrow> nat \<Rightarrow> bool" where
  "is_removed g s t = list_ex (\<lambda>(a, b). a = s \<and> b = t) (removed_edges g)"

definition outgoing_by_idx :: "CsrGraph \<Rightarrow> nat \<Rightarrow> (MemoryId \<times> StoredEdge) list" where
  "outgoing_by_idx g idx =
     map (\<lambda>(neighbor, e). (idx_to_id g ! neighbor, e))
       (filter (\<lambda>(neighbor, e). \<not> is_removed g idx neighbor \<and> neighbor < length (idx_to_id g))
         (zip (neighbors (csr g) idx) (edge_data_for (csr g) idx)))
     @ map (\<lambda>d. (idx_to_id g ! de_target_idx d, de_data d))
         (filter (\<lambda>d. de_source_idx d = idx \<and> de_target_idx d < length (idx_to_id g))
           (delta_edges g))"

definition outgoing :: "CsrGraph \<Rightarrow> MemoryId \<Rightarrow> (MemoryId \<times> StoredEdge) list" where
  "outgoing g i = (case id_to_idx g i of None \<Rightarrow> [] | Some idx \<Rightarrow> outgoing_by_idx g idx)"

definition outgoing_valid_at :: "CsrGraph \<Rightarrow> MemoryId \<Rightarrow> Timestamp \<Rightarrow> (MemoryId \<times> StoredEdge) list" where
  "outgoing_valid_at g i t = filter (\<lambda>(_, e). stored_is_valid_at e t) (outgoing g i)"

definition incoming_by_idx :: "CsrGraph \<Rightarrow> nat \<Rightarrow> (MemoryId \<times> StoredEdge) list" where
  "incoming_by_idx g idx =
     map (\<lambda>(neighbor, e). (idx_to_id g ! neighbor, e))
       (filter (\<lambda>(neighbor, e). \<not> is_removed g neighbor idx \<and> neighbor < length (idx_to_id g))
         (zip (neighbors (csc g) idx) (edge_data_for (csc g) idx)))
     @ map (\<lambda>d. (idx_to_id g ! de_source_idx d, de_data d))
         (filter (\<lambda>d. de_target_idx d = idx \<and> de_source_idx d < length (idx_to_id g))
           (delta_edges g))"

definition incoming :: "CsrGraph \<Rightarrow> MemoryId \<Rightarrow> (MemoryId \<times> StoredEdge) list" where
  "incoming g i = (case id_to_idx g i of None \<Rightarrow> [] | Some idx \<Rightarrow> incoming_by_idx g idx)"

definition incoming_valid_at :: "CsrGraph \<Rightarrow> MemoryId \<Rightarrow> Timestamp \<Rightarrow> (MemoryId \<times> StoredEdge) list" where
  "incoming_valid_at g i t = filter (\<lambda>(_, e). stored_is_valid_at e t) (incoming g i)"

definition strengthen_edge :: "CsrGraph \<Rightarrow> MemoryId \<Rightarrow> MemoryId \<Rightarrow> f32 \<Rightarrow> CsrGraph" where
  "strengthen_edge g source target delta =
     (case List.find (\<lambda>(i, _). i = target) (outgoing g source) of
        None \<Rightarrow> g
      | Some (_, stored) \<Rightarrow>
          let new_weight = fl_min (fl_add f32_of (se_weight stored) delta) (Fin 1);
              (g1, source_idx) = add_node g source;
              (g2, target_idx) = add_node g1 target
          in push_delta g2 source_idx target_idx (stored\<lparr>se_weight := new_weight\<rparr>))"

definition remove_edge :: "CsrGraph \<Rightarrow> MemoryId \<Rightarrow> MemoryId \<Rightarrow> CsrGraph" where
  "remove_edge g source target =
     (case (id_to_idx g source, id_to_idx g target) of
        (Some s, Some t) \<Rightarrow>
          g\<lparr>removed_edges := removed_edges g @ [(s, t)],
            delta_edges := filter (\<lambda>e. \<not> (de_source_idx e = s \<and> de_target_idx e = t)) (delta_edges g)\<rparr>
      | _ \<Rightarrow> g)"

definition contains_node :: "CsrGraph \<Rightarrow> MemoryId \<Rightarrow> bool" where
  "contains_node g i = (id_to_idx g i \<noteq> None)"

definition node_count :: "CsrGraph \<Rightarrow> nat" where
  "node_count g = length (idx_to_id g)"

definition get_idx :: "CsrGraph \<Rightarrow> MemoryId \<Rightarrow> nat option" where
  "get_idx g i = id_to_idx g i"

definition get_id :: "CsrGraph \<Rightarrow> nat \<Rightarrow> MemoryId option" where
  "get_id g idx = (if idx < length (idx_to_id g) then Some (idx_to_id g ! idx) else None)"

definition node_ids :: "CsrGraph \<Rightarrow> MemoryId list" where
  "node_ids g = idx_to_id g"

section \<open>Compaction\<close>

type_synonym edge_triple = "nat \<times> nat \<times> StoredEdge"

text \<open>The row and the column an edge goes to: swapped when the storage is the transposed one.\<close>

definition edge_row :: "bool \<Rightarrow> edge_triple \<Rightarrow> nat" where
  "edge_row tr = (\<lambda>(src, tgt, _). if tr then tgt else src)"

definition edge_col :: "bool \<Rightarrow> edge_triple \<Rightarrow> nat" where
  "edge_col tr = (\<lambda>(src, tgt, _). if tr then src else tgt)"

definition edge_payload :: "edge_triple \<Rightarrow> StoredEdge" where
  "edge_payload = (\<lambda>(_, _, d). d)"

fun count_rows :: "nat \<Rightarrow> bool \<Rightarrow> edge_triple list \<Rightarrow> nat list \<Rightarrow> nat list" where
  "count_rows n tr [] counts = counts"
| "count_rows n tr (e # es) counts =
     (let row = edge_row tr e in
      count_rows n tr es
        (if row < n then counts[row := wrap32 (counts ! row + 1)] else counts))"

fun prefix_sums :: "nat \<Rightarrow> nat list \<Rightarrow> nat list" where
  "prefix_sums acc [] = [acc]"
| "prefix_sums acc (c # cs) = acc # prefix_sums (wrap32 (acc + c)) cs"

fun fill_rows :: "nat \<Rightarrow> bool \<Rightarrow> edge_triple list \<Rightarrow> nat list \<Rightarrow> StoredEdge list \<Rightarrow> nat list
    \<Rightarrow> nat list \<times> StoredEdge list" where
  "fill_rows n tr [] cols datas cursors = (cols, datas)"
| "fill_rows n tr (e # es) cols datas cursors =
     (let row = edge_row tr e in
      if row < n then
        let pos = cursors ! row in
        fill_rows n tr es (cols[pos := edge_col tr e]) (datas[pos := edge_payload e])
          (cursors[row := wrap32 (cursors ! row + 1)])
      else fill_rows n tr es cols datas cursors)"

definition zero_edge :: StoredEdge where
  "zero_edge = \<lparr> se_edge_type = Related, se_weight = Fin 0, se_created_at = 0,
     se_valid_from = None, se_valid_until = None, se_label = None \<rparr>"

definition build_compressed :: "edge_triple list \<Rightarrow> nat \<Rightarrow> bool \<Rightarrow> CompressedStorage" where
  "build_compressed edges num_nodes tr =
     (let counts = count_rows num_nodes tr edges (replicate num_nodes 0);
          offsets = prefix_sums 0 counts;
          total = offsets ! num_nodes;
          (cols, datas) = fill_rows num_nodes tr edges (replicate total 0)
             (replicate total zero_edge) (take num_nodes offsets)
      in \<lparr> row_offsets = offsets, col_indices = cols, edge_data = datas \<rparr>)"

definition delta_triple :: "DeltaEdge \<Rightarrow> edge_triple" where
  "delta_triple d = (de_source_idx d, de_target_idx d, de_data d)"

definition live_row :: "CsrGraph \<Rightarrow> nat \<Rightarrow> edge_triple list" where
  "live_row g row =
     map (\<lambda>(col, e). (row, col, e))
       (filter (\<lambda>(col, e). \<not> is_removed g row col)
         (zip (neighbors (csr g) row) (edge_data_for (csr g) row)))"

definition all_edges :: "CsrGraph \<Rightarrow> edge_triple list" where
  "all_edges g = concat (map (live_row g) [0..<length (idx_to_id g)])
     @ map delta_triple (delta_edges g)"

definition compact :: "CsrGraph \<Rightarrow> CsrGraph" where
  "compact g =
     (let num_nodes = length (idx_to_id g); es = all_edges g
      in g\<lparr>csr := build_compressed es num_nodes False, csc := build_compressed es num_nodes True,
           delta_edges := [], removed_edges := []\<rparr>)"

section \<open>The counting sort\<close>

text \<open>\<open>rows_for\<close>: the edges of one row, in the order of the input.\<close>

definition rows_for :: "bool \<Rightarrow> nat \<Rightarrow> edge_triple list \<Rightarrow> edge_triple list" where
  "rows_for tr r es = filter (\<lambda>e. edge_row tr e = r) es"

lemma rows_for_simps [simp]:
  "rows_for tr r [] = []"
  "rows_for tr r (e # es) = (if edge_row tr e = r then e # rows_for tr r es else rows_for tr r es)"
  by (simp_all add: rows_for_def)

lemma rows_for_length: "length (rows_for tr r es) \<le> length es"
  by (simp add: rows_for_def)

lemma count_rows_nth:
  assumes "length counts = n" "r < n" "counts ! r + length es < u32_mod"
  shows "count_rows n tr es counts ! r = counts ! r + length (rows_for tr r es)"
  using assms
proof (induction es arbitrary: counts)
  case (Cons e es)
  show ?case
  proof (cases "edge_row tr e = r")
    case True
    then show ?thesis using Cons.prems Cons.IH[of "counts[r := counts ! r + 1]"] by simp
  next
    case False
    then show ?thesis using Cons.prems
      Cons.IH[of "if edge_row tr e < n then counts[edge_row tr e := wrap32 (counts ! edge_row tr e + 1)]
        else counts"]
      by (simp add: Let_def)
  qed
qed simp

lemma count_rows_length [simp]: "length (count_rows n tr es counts) = length counts"
  by (induction es arbitrary: counts) (auto simp: Let_def)

lemma prefix_sums_length [simp]: "length (prefix_sums acc cs) = Suc (length cs)"
  by (induction cs arbitrary: acc) auto

lemma prefix_sums_nth:
  assumes "acc + sum_list cs < u32_mod" "i \<le> length cs"
  shows "prefix_sums acc cs ! i = acc + sum_list (take i cs)"
  using assms
proof (induction cs arbitrary: acc i)
  case (Cons c cs)
  then show ?case by (cases i) auto
qed simp

text \<open>The fill loop over one array, to which both arrays of the source reduce.\<close>

fun scatter :: "nat \<Rightarrow> (nat \<times> 'a) list \<Rightarrow> 'a list \<Rightarrow> nat list \<Rightarrow> 'a list" where
  "scatter n [] arr cur = arr"
| "scatter n ((r, x) # es) arr cur =
     (if r < n then scatter n es (arr[cur ! r := x]) (cur[r := Suc (cur ! r)])
      else scatter n es arr cur)"

definition keyed :: "nat \<Rightarrow> (nat \<times> 'a) list \<Rightarrow> 'a list" where
  "keyed r es = map snd (filter (\<lambda>e. fst e = r) es)"

lemma keyed_simps [simp]:
  "keyed r [] = []" "keyed r ((s, x) # es) = (if s = r then x # keyed r es else keyed r es)"
  by (simp_all add: keyed_def)

text \<open>The cursors' ranges: one segment per row, disjoint and inside the array.\<close>

definition segments :: "nat \<Rightarrow> (nat \<times> 'a) list \<Rightarrow> nat list \<Rightarrow> nat \<Rightarrow> bool" where
  "segments n es cur len \<longleftrightarrow> length cur = n
     \<and> (\<forall>r < n. cur ! r + length (keyed r es) \<le> len)
     \<and> (\<forall>r s. r < s \<and> s < n \<longrightarrow> cur ! r + length (keyed r es) \<le> cur ! s)"

lemma segmentsD:
  assumes "segments n es cur len"
  shows "length cur = n" "r < n \<Longrightarrow> cur ! r + length (keyed r es) \<le> len"
    "r < s \<Longrightarrow> s < n \<Longrightarrow> cur ! r + length (keyed r es) \<le> cur ! s"
  using assms by (simp_all add: segments_def)

lemma segments_step:
  assumes "segments n ((r, x) # es) cur len" "r < n"
  shows "segments n es (cur[r := Suc (cur ! r)]) len"
proof -
  let ?cur = "cur[r := Suc (cur ! r)]"
  have bump: "?cur ! s + length (keyed s es) = cur ! s + length (keyed s ((r, x) # es))"
    and grow: "cur ! s \<le> ?cur ! s" if "s < n" for s
    using that segmentsD(1)[OF assms(1)] by (cases "s = r"; simp)+
  show ?thesis
    unfolding segments_def
  proof (intro conjI allI impI)
    show "length ?cur = n" using segmentsD(1)[OF assms(1)] by simp
  next
    fix s assume "s < n"
    then show "?cur ! s + length (keyed s es) \<le> len"
      using bump segmentsD(2)[OF assms(1)] by simp
  next
    fix s t assume st: "s < t \<and> t < n"
    then have "?cur ! s + length (keyed s es) \<le> cur ! t"
      using bump[of s] segmentsD(3)[OF assms(1), of s t] by simp
    also have "\<dots> \<le> ?cur ! t" using grow st by simp
    finally show "?cur ! s + length (keyed s es) \<le> ?cur ! t" .
  qed
qed

lemma segments_skip: "segments n ((r, x) # es) cur len \<Longrightarrow> \<not> r < n \<Longrightarrow> segments n es cur len"
  by (auto simp: segments_def)

lemma scatter_length [simp]: "length (scatter n es arr cur) = length arr"
  by (induction n es arr cur rule: scatter.induct) auto

lemma scatter_outside:
  assumes "segments n es cur (length arr)"
    and "\<And>r. r < n \<Longrightarrow> p < cur ! r \<or> cur ! r + length (keyed r es) \<le> p"
  shows "scatter n es arr cur ! p = arr ! p"
  using assms
proof (induction n es arr cur rule: scatter.induct)
  case (2 n r x es arr cur)
  show ?case
  proof (cases "r < n")
    case True
    have "p \<noteq> cur ! r" using "2.prems"(2)[OF True] by auto
    moreover have "p < cur[r := Suc (cur ! r)] ! s
        \<or> cur[r := Suc (cur ! r)] ! s + length (keyed s es) \<le> p" if "s < n" for s
      using "2.prems"(2)[OF that] that segmentsD(1)[OF "2.prems"(1)]
      by (auto simp: nth_list_update split: if_splits)
    ultimately show ?thesis
      using "2.IH"(1)[OF True] segments_step[OF "2.prems"(1) True] True by simp
  next
    case False
    have "p < cur ! s \<or> cur ! s + length (keyed s es) \<le> p" if "s < n" for s
      using "2.prems"(2)[OF that] False that by (auto split: if_splits)
    then show ?thesis using "2.IH"(2)[OF False] segments_skip[OF "2.prems"(1)] False by simp
  qed
qed simp

lemma scatter_segment:
  assumes "segments n es cur (length arr)" "r < n" "j < length (keyed r es)"
  shows "scatter n es arr cur ! (cur ! r + j) = keyed r es ! j"
  using assms
proof (induction n es arr cur arbitrary: j rule: scatter.induct)
  case (2 n s x es arr cur)
  show ?case
  proof (cases "s < n")
    case False
    then show ?thesis using "2.IH"(2)[OF False] segments_skip[OF "2.prems"(1)] "2.prems" by auto
  next
    case True
    let ?cur = "cur[s := Suc (cur ! s)]" and ?arr = "arr[cur ! s := x]"
    have seg: "segments n es ?cur (length ?arr)" using segments_step[OF "2.prems"(1) True] by simp
    have len: "length cur = n" using "2.prems"(1) by (simp add: segments_def)
    show ?thesis
    proof (cases "s = r \<and> j = 0")
      case first: True
      have in_arr: "cur ! s < length arr"
        using segmentsD(2)[OF "2.prems"(1) True] by simp
      have "cur ! s < ?cur ! t \<or> ?cur ! t + length (keyed t es) \<le> cur ! s" if t: "t < n" for t
        using t len segmentsD(3)[OF "2.prems"(1), of t s] segmentsD(3)[OF "2.prems"(1), of s t] True
        by (cases s t rule: linorder_cases) (auto simp: nth_list_update)
      then have "scatter n es ?arr ?cur ! (cur ! s) = x"
        using scatter_outside[OF seg] in_arr by simp
      then show ?thesis using first True by simp
    next
      case False
      show ?thesis
      proof (cases "s = r")
        case same: True
        then obtain i where j: "j = Suc i" using False by (cases j) auto
        then have "scatter n es ?arr ?cur ! (?cur ! r + i) = keyed r es ! i"
          using "2.IH"(1)[OF True seg] "2.prems" same by simp
        then show ?thesis using same True j len by simp
      next
        case diff: False
        then have "scatter n es ?arr ?cur ! (?cur ! r + j) = keyed r es ! j"
          using "2.IH"(1)[OF True seg] "2.prems" by simp
        then show ?thesis using diff True by simp
      qed
    qed
  qed
qed simp

lemma scatter_row:
  assumes "segments n es cur (length arr)" "r < n"
  shows "take (length (keyed r es)) (drop (cur ! r) (scatter n es arr cur)) = keyed r es"
proof (rule nth_equalityI)
  have "cur ! r + length (keyed r es) \<le> length arr" using assms by (simp add: segments_def)
  then show "length (take (length (keyed r es)) (drop (cur ! r) (scatter n es arr cur)))
      = length (keyed r es)" by simp
next
  fix j
  assume "j < length (take (length (keyed r es)) (drop (cur ! r) (scatter n es arr cur)))"
  then show "take (length (keyed r es)) (drop (cur ! r) (scatter n es arr cur)) ! j
      = keyed r es ! j"
    using scatter_segment[OF assms, of j] segmentsD(2)[OF assms] by (simp add: nth_drop)
qed

text \<open>The two arrays of \<open>fill_rows\<close> are two scatters with the same cursors.\<close>

lemma fill_rows_scatter:
  assumes "length cursors = n" "\<forall>r < n. cursors ! r + length (rows_for tr r es) < u32_mod"
  shows "fill_rows n tr es cols datas cursors
       = (scatter n (map (\<lambda>e. (edge_row tr e, edge_col tr e)) es) cols cursors,
          scatter n (map (\<lambda>e. (edge_row tr e, edge_payload e)) es) datas cursors)"
  using assms
proof (induction es arbitrary: cols datas cursors)
  case (Cons e es)
  show ?case
  proof (cases "edge_row tr e < n")
    case True
    then have w: "wrap32 (Suc (cursors ! edge_row tr e)) = Suc (cursors ! edge_row tr e)"
      using Cons.prems(2) by (intro trans[OF wrap32_id]) fastforce+
    have "\<forall>r < n. cursors[edge_row tr e := Suc (cursors ! edge_row tr e)] ! r
        + length (rows_for tr r es) < u32_mod"
    proof (intro allI impI)
      fix r assume "r < n"
      then show "cursors[edge_row tr e := Suc (cursors ! edge_row tr e)] ! r
          + length (rows_for tr r es) < u32_mod"
        using Cons.prems(1) spec[OF Cons.prems(2), of r]
        by (cases "edge_row tr e = r") (simp_all add: nth_list_update)
    qed
    then show ?thesis using True Cons.prems(1) by (simp add: Let_def w Cons.IH)
  next
    case False
    then have "\<forall>r < n. cursors ! r + length (rows_for tr r es) < u32_mod"
      using Cons.prems(2) by fastforce
    then show ?thesis using False Cons.IH[OF Cons.prems(1)] by (simp add: Let_def)
  qed
qed simp

lemma keyed_edges:
  "keyed r (map (\<lambda>e. (edge_row tr e, f e)) es) = map f (rows_for tr r es)"
  by (induction es) auto

lemma sum_counts_le:
  "sum_list (map (\<lambda>r. length (rows_for tr r es)) [0..<n]) \<le> length es"
proof (induction es)
  case (Cons e es)
  have "sum_list (map (\<lambda>r. length (rows_for tr r (e # es))) [0..<n])
      = sum_list (map (\<lambda>r. (if edge_row tr e = r then 1 else 0) + length (rows_for tr r es)) [0..<n])"
    by (intro arg_cong[of _ _ sum_list] map_cong) auto
  also have "\<dots> = (\<Sum>r<n. if edge_row tr e = r then 1 else 0)
      + sum_list (map (\<lambda>r. length (rows_for tr r es)) [0..<n])"
    by (simp add: sum_list_addf interv_sum_list_conv_sum_set_nat atLeast0LessThan)
  also have "\<dots> \<le> 1 + length es" using Cons by (simp add: sum.delta)
  finally show ?case by simp
qed simp

lemma counts_eq:
  assumes "length es < u32_mod"
  shows "count_rows n tr es (replicate n 0) = map (\<lambda>r. length (rows_for tr r es)) [0..<n]"
  using assms by (intro nth_equalityI) (auto simp: count_rows_nth)

text \<open>
  What \<open>build_compressed\<close> promises: row \<open>r\<close> of the result holds exactly the edges of that
  row, in the order of the input.
\<close>

definition row_entries :: "CompressedStorage \<Rightarrow> nat \<Rightarrow> (nat \<times> StoredEdge) list" where
  "row_entries cs r = zip (neighbors cs r) (edge_data_for cs r)"

definition cs_wf :: "CompressedStorage \<Rightarrow> bool" where
  "cs_wf cs \<longleftrightarrow> length (edge_data cs) = length (col_indices cs)
     \<and> (\<forall>r. Suc r < length (row_offsets cs) \<longrightarrow>
          row_offsets cs ! r \<le> row_offsets cs ! Suc r
          \<and> row_offsets cs ! Suc r \<le> length (col_indices cs))"

lemma sum_list_take_mono: "i \<le> j \<Longrightarrow> sum_list (take i (cs :: nat list)) \<le> sum_list (take j cs)"
  by (metis append_take_drop_id le_add1 min.absorb1 sum_list_append take_take)

lemma sum_list_take_Suc:
  "i < length cs \<Longrightarrow> sum_list (take (Suc i) (cs :: nat list)) = sum_list (take i cs) + cs ! i"
  by (simp add: take_Suc_conv_app_nth)

lemma build_compressed_rows:
  assumes "length es < u32_mod"
  shows "cs_wf (build_compressed es n tr)"
    and "length (row_offsets (build_compressed es n tr)) = Suc n"
    and "r < n \<Longrightarrow> neighbors (build_compressed es n tr) r = map (edge_col tr) (rows_for tr r es)"
    and "r < n \<Longrightarrow> edge_data_for (build_compressed es n tr) r = map edge_payload (rows_for tr r es)"
proof -
  define cnt where "cnt = map (\<lambda>r. length (rows_for tr r es)) [0..<n]"
  define off where "off = prefix_sums 0 cnt"
  define T where "T = off ! n"
  let ?ks = "map (\<lambda>e. (edge_row tr e, edge_col tr e)) es"
  let ?ds = "map (\<lambda>e. (edge_row tr e, edge_payload e)) es"
  have sum: "sum_list cnt < u32_mod" using sum_counts_le[of tr es n] assms by (simp add: cnt_def)
  have len: "length cnt = n" by (simp add: cnt_def)
  have off_nth: "off ! i = sum_list (take i cnt)" if "i \<le> n" for i
    using prefix_sums_nth[of 0 cnt i] sum that len by (simp add: off_def)
  have T: "T = sum_list cnt" using off_nth[of n] len by (simp add: T_def)
  have step: "off ! Suc i = off ! i + length (rows_for tr i es)" if "i < n" for i
    using that len sum_list_take_Suc[of i cnt] by (simp add: off_nth cnt_def)
  have mono: "i \<le> j \<Longrightarrow> j \<le> n \<Longrightarrow> off ! i \<le> off ! j" for i j
    by (simp add: off_nth sum_list_take_mono)
  have cur: "take n off ! r = off ! r" if "r < n" for r using that by simp
  have keys: "length (keyed r ?ks) = length (rows_for tr r es)"
    "length (keyed r ?ds) = length (rows_for tr r es)" for r by (simp_all add: keyed_edges)
  have seg: "off ! r + length (rows_for tr r es) \<le> off ! s" if "r < s" "s \<le> n" for r s
    using step[of r] mono[of "Suc r" s] that by simp
  have segs: "segments n ?ks (take n off) T" "segments n ?ds (take n off) T"
    unfolding segments_def keys T_def using seg by (simp_all add: off_def len)
  have bound: "\<forall>r < n. take n off ! r + length (rows_for tr r es) < u32_mod"
  proof (intro allI impI)
    fix r assume "r < n"
    then show "take n off ! r + length (rows_for tr r es) < u32_mod"
      using step[of r] mono[of "Suc r" n] sum T T_def by simp
  qed
  have build: "build_compressed es n tr = \<lparr> row_offsets = off,
      col_indices = scatter n ?ks (replicate T 0) (take n off),
      edge_data = scatter n ?ds (replicate T zero_edge) (take n off) \<rparr>"
    using fill_rows_scatter[OF _ bound] assms
    by (simp add: build_compressed_def counts_eq off_def cnt_def T_def Let_def)
  show "cs_wf (build_compressed es n tr)"
    unfolding cs_wf_def build using mono by (auto simp: off_def len T_def)
  show "length (row_offsets (build_compressed es n tr)) = Suc n"
    by (simp add: build off_def len)
  show "neighbors (build_compressed es n tr) r = map (edge_col tr) (rows_for tr r es)" if "r < n"
    using that scatter_row[of n ?ks "take n off" "replicate T 0" r] segs step[OF that]
    by (simp add: neighbors_def build off_def len keyed_edges)
  show "edge_data_for (build_compressed es n tr) r = map edge_payload (rows_for tr r es)" if "r < n"
    using that scatter_row[of n ?ds "take n off" "replicate T zero_edge" r] segs step[OF that]
    by (simp add: edge_data_for_def build off_def len keyed_edges)
qed

end
