(* ===== verification/Graph_Spec.thy ===== *)
theory Graph_Spec
  imports Graph_Csr
begin

text \<open>
  What the compressed graph promises. The abstract graph is a set of node identifiers and a
  multiset of labelled edges between them; \<open>graph_inv\<close> ties the row storage, the column
  storage, the delta log and the removal list to it, every operation of \<open>csr.rs\<close> keeps the
  invariant and acts on the abstract graph as its name says, and the queries \<open>outgoing\<close> and
  \<open>incoming\<close> read the abstract graph.
\<close>

section \<open>The edges a graph holds\<close>

definition row_triples :: "CompressedStorage \<Rightarrow> nat \<Rightarrow> edge_triple list" where
  "row_triples cs r = map (\<lambda>(c, e). (r, c, e)) (row_entries cs r)"

definition triples :: "CompressedStorage \<Rightarrow> nat \<Rightarrow> edge_triple list" where
  "triples cs n = concat (map (row_triples cs) [0..<n])"

definition flip_triple :: "edge_triple \<Rightarrow> edge_triple" where
  "flip_triple = (\<lambda>(a, b, e). (b, a, e))"

definition live :: "CsrGraph \<Rightarrow> nat \<Rightarrow> bool" where
  "live g i \<longleftrightarrow> i < length (idx_to_id g) \<and> id_to_idx g (idx_to_id g ! i) = Some i"

definition graph_inv :: "CsrGraph \<Rightarrow> bool" where
  "graph_inv g \<longleftrightarrow>
     (\<forall>i k. id_to_idx g i = Some k \<longrightarrow> k < length (idx_to_id g) \<and> idx_to_id g ! k = i)
     \<and> cs_wf (csr g) \<and> cs_wf (csc g)
     \<and> length (row_offsets (csr g)) \<le> Suc (length (idx_to_id g))
     \<and> length (row_offsets (csc g)) \<le> Suc (length (idx_to_id g))
     \<and> mset (triples (csr g) (length (idx_to_id g)))
        = image_mset flip_triple (mset (triples (csc g) (length (idx_to_id g))))
     \<and> (\<forall>(s, t, e) \<in> set (all_edges g). live g s \<and> live g t)"

definition graph_nodes :: "CsrGraph \<Rightarrow> MemoryId set" where
  "graph_nodes g = dom (id_to_idx g)"

definition name_edge :: "CsrGraph \<Rightarrow> edge_triple \<Rightarrow> MemoryId \<times> MemoryId \<times> StoredEdge" where
  "name_edge g = (\<lambda>(s, t, e). (idx_to_id g ! s, idx_to_id g ! t, e))"

definition graph_edges :: "CsrGraph \<Rightarrow> (MemoryId \<times> MemoryId \<times> StoredEdge) multiset" where
  "graph_edges g = image_mset (name_edge g) (mset (all_edges g))"

lemma graph_invD:
  assumes "graph_inv g"
  shows "id_to_idx g i = Some k \<Longrightarrow> k < length (idx_to_id g)"
    and "id_to_idx g i = Some k \<Longrightarrow> idx_to_id g ! k = i"
    and "cs_wf (csr g)" and "cs_wf (csc g)"
    and "length (row_offsets (csr g)) \<le> Suc (length (idx_to_id g))"
    and "length (row_offsets (csc g)) \<le> Suc (length (idx_to_id g))"
    and "mset (triples (csr g) (length (idx_to_id g)))
        = image_mset flip_triple (mset (triples (csc g) (length (idx_to_id g))))"
    and "(s, t, e) \<in> set (all_edges g) \<Longrightarrow> live g s \<and> live g t"
  using assms unfolding graph_inv_def by blast+

lemma live_index:
  assumes "graph_inv g" "live g k"
  shows "id_to_idx g i = Some k \<longleftrightarrow> idx_to_id g ! k = i"
  using assms graph_invD(2) by (auto simp: live_def)

lemma live_if_index: "graph_inv g \<Longrightarrow> id_to_idx g i = Some k \<Longrightarrow> live g k"
  using graph_invD(1,2) by (simp add: live_def)

lemma live_inj:
  "live g a \<Longrightarrow> live g b \<Longrightarrow> idx_to_id g ! a = idx_to_id g ! b \<Longrightarrow> a = b"
  by (simp add: live_def)

lemma filter_row_triples:
  "filter (\<lambda>x. \<not> is_removed g (fst x) (fst (snd x))) (row_triples (csr g) r) = live_row g r"
  by (simp add: row_triples_def live_row_def row_entries_def filter_map o_def case_prod_unfold)

lemma all_edges_triples:
  "all_edges g = filter (\<lambda>x. \<not> is_removed g (fst x) (fst (snd x))) (triples (csr g) (length (idx_to_id g)))
     @ map delta_triple (delta_edges g)"
  by (simp add: all_edges_def triples_def filter_concat o_def filter_row_triples)

lemma filter_triples_row:
  "r < n \<Longrightarrow> filter (\<lambda>x. fst x = r) (triples cs n) = row_triples cs r"
proof (induction n)
  case (Suc n)
  have other: "filter (\<lambda>x. fst x = r) (row_triples cs q) = (if q = r then row_triples cs r else [])" for q
    by (auto simp: row_triples_def filter_map o_def case_prod_unfold)
  have none: "m \<le> r \<Longrightarrow> filter (\<lambda>x. fst x = r) (triples cs m) = []" for m
    by (induction m) (auto simp: triples_def other)
  show ?case
  proof (cases "r = n")
    case True
    then show ?thesis using none[of n] other[of n] by (simp add: triples_def)
  next
    case False
    then show ?thesis using Suc by (simp add: triples_def other)
  qed
qed simp

lemma set_triples: "x \<in> set (triples cs n) \<Longrightarrow> fst x < n"
  by (auto simp: triples_def row_triples_def)

lemma row_triples_beyond: "length (row_offsets cs) \<le> Suc r \<Longrightarrow> row_triples cs r = []"
  by (simp add: row_triples_def row_entries_def neighbors_def)

section \<open>The queries read the abstract graph\<close>

lemma live_row_filter:
  assumes "r < length (idx_to_id g)"
  shows "filter (\<lambda>x. fst x = r) (filter (\<lambda>x. \<not> is_removed g (fst x) (fst (snd x)))
     (triples (csr g) (length (idx_to_id g)))) = live_row g r"
  by (subst filter_swap) (simp add: filter_triples_row[OF assms] filter_row_triples)

lemma set_live_row: "r < length (idx_to_id g) \<Longrightarrow> set (live_row g r) \<subseteq> set (all_edges g)"
  by (auto simp: all_edges_def)

lemma outgoing_by_idx_edges:
  assumes inv: "graph_inv g" and i: "i < length (idx_to_id g)"
  shows "outgoing_by_idx g i = map (\<lambda>x. (idx_to_id g ! fst (snd x), snd (snd x)))
     (filter (\<lambda>x. fst x = i) (all_edges g))"
proof -
  let ?n = "length (idx_to_id g)"
  have ran: "t < ?n" if "(s, t, e) \<in> set (all_edges g)" for s t e
    using graph_invD(8)[OF inv that] by (simp add: live_def)
  let ?es = "zip (neighbors (csr g) i) (edge_data_for (csr g) i)"
  have "c < ?n" if "(c, e) \<in> set ?es" "\<not> is_removed g i c" for c e
  proof -
    have "(i, c, e) \<in> set (live_row g i)" using that by (force simp: live_row_def)
    then show ?thesis using set_live_row[OF i] ran by blast
  qed
  then have row: "filter (\<lambda>p. \<not> is_removed g i (fst p) \<and> fst p < ?n) ?es
      = filter (\<lambda>p. \<not> is_removed g i (fst p)) ?es"
    by (intro filter_cong) auto
  have del: "filter (\<lambda>d. de_source_idx d = i \<and> de_target_idx d < ?n) (delta_edges g)
      = filter (\<lambda>d. de_source_idx d = i) (delta_edges g)"
    using ran by (intro filter_cong) (force simp: all_edges_def delta_triple_def)+
  have "filter (\<lambda>x. fst x = i) (all_edges g)
      = live_row g i @ map delta_triple (filter (\<lambda>d. de_source_idx d = i) (delta_edges g))"
    unfolding all_edges_triples filter_append live_row_filter[OF i]
    by (simp add: filter_map o_def delta_triple_def)
  then show ?thesis
    by (simp add: outgoing_by_idx_def row del live_row_def o_def delta_triple_def case_prod_unfold)
qed

lemma incoming_by_idx_edges:
  assumes inv: "graph_inv g" and i: "i < length (idx_to_id g)"
  shows "mset (incoming_by_idx g i) = image_mset (\<lambda>x. (idx_to_id g ! fst x, snd (snd x)))
     (filter_mset (\<lambda>x. fst (snd x) = i) (mset (all_edges g)))"
proof -
  let ?n = "length (idx_to_id g)"
  have ran: "s < ?n" if "(s, t, e) \<in> set (all_edges g)" for s t e
    using graph_invD(8)[OF inv that] by (simp add: live_def)
  let ?es = "row_entries (csc g) i"
  have flip: "mset (triples (csr g) ?n) = image_mset flip_triple (mset (triples (csc g) ?n))"
    using graph_invD(7)[OF inv] .
  have "s < ?n" if "(s, e) \<in> set ?es" "\<not> is_removed g s i" for s e
  proof -
    have "(i, s, e) \<in># mset (triples (csc g) ?n)"
      using that i by (force simp: triples_def row_triples_def)
    then have "(s, i, e) \<in># mset (triples (csr g) ?n)"
      unfolding flip by (force simp: flip_triple_def)
    then show ?thesis using that(2) ran[of s i e] by (simp add: all_edges_triples)
  qed
  then have row: "filter (\<lambda>p. \<not> is_removed g (fst p) i \<and> fst p < ?n) ?es
      = filter (\<lambda>p. \<not> is_removed g (fst p) i) ?es"
    by (intro filter_cong) auto
  have del: "filter (\<lambda>d. de_target_idx d = i \<and> de_source_idx d < ?n) (delta_edges g)
      = filter (\<lambda>d. de_target_idx d = i) (delta_edges g)"
    using ran by (intro filter_cong) (force simp: all_edges_def delta_triple_def)+
  have "filter_mset (\<lambda>x. fst (snd x) = i) (mset (triples (csr g) ?n))
      = image_mset flip_triple (mset (filter (\<lambda>x. fst x = i) (triples (csc g) ?n)))"
    unfolding flip by (simp add: filter_mset_image_mset flip_triple_def case_prod_unfold o_def)
  also have "\<dots> = mset (map (\<lambda>(s, e). (s, i, e)) ?es)"
    by (simp add: filter_triples_row[OF i] row_triples_def flip_triple_def case_prod_unfold o_def
        multiset.map_comp)
  finally have col: "filter_mset (\<lambda>x. fst (snd x) = i) (mset (triples (csr g) ?n))
      = mset (map (\<lambda>(s, e). (s, i, e)) ?es)" .
  have swap: "filter_mset P (filter_mset Q M) = filter_mset Q (filter_mset P M)" for P Q
    and M :: "edge_triple multiset" by (simp add: filter_filter_mset conj_commute)
  have "filter_mset (\<lambda>x. fst (snd x) = i) (filter_mset (\<lambda>x. \<not> is_removed g (fst x) (fst (snd x)))
        (mset (triples (csr g) ?n)))
      = mset (map (\<lambda>(s, e). (s, i, e)) (filter (\<lambda>p. \<not> is_removed g (fst p) i) ?es))"
    by (subst swap, subst col)
      (simp add: filter_mset_image_mset o_def case_prod_unfold)
  moreover have "incoming_by_idx g i
      = map (\<lambda>p. (idx_to_id g ! fst p, snd p)) (filter (\<lambda>p. \<not> is_removed g (fst p) i) ?es)
        @ map (\<lambda>d. (idx_to_id g ! de_source_idx d, de_data d))
            (filter (\<lambda>d. de_target_idx d = i) (delta_edges g))"
    using row del by (simp add: incoming_by_idx_def case_prod_unfold flip: row_entries_def)
  ultimately show ?thesis
    by (simp add: all_edges_triples filter_mset_image_mset o_def delta_triple_def case_prod_unfold
        multiset.map_comp)
qed

lemma graph_edges_from:
  assumes "graph_inv g" "id_to_idx g i = Some k"
  shows "filter_mset (\<lambda>x. fst x = i) (graph_edges g)
     = image_mset (name_edge g) (filter_mset (\<lambda>x. fst x = k) (mset (all_edges g)))"
proof -
  have key: "idx_to_id g ! s = i \<longleftrightarrow> s = k" if "(s, t, e) \<in># mset (all_edges g)" for s t e
    using that graph_invD(8)[OF assms(1)] live_index[OF assms(1), of s i] assms(2) by auto
  have "filter_mset (\<lambda>x. idx_to_id g ! fst x = i) (mset (all_edges g))
      = filter_mset (\<lambda>x. fst x = k) (mset (all_edges g))"
    using key by (intro filter_mset_cong) (simp_all split: prod.splits, metis prod.collapse)
  then show ?thesis
    by (simp add: graph_edges_def filter_mset_image_mset name_edge_def case_prod_unfold o_def multiset.map_comp)
qed

lemma graph_edges_to:
  assumes "graph_inv g" "id_to_idx g i = Some k"
  shows "filter_mset (\<lambda>x. fst (snd x) = i) (graph_edges g)
     = image_mset (name_edge g) (filter_mset (\<lambda>x. fst (snd x) = k) (mset (all_edges g)))"
proof -
  have key: "idx_to_id g ! t = i \<longleftrightarrow> t = k" if "(s, t, e) \<in># mset (all_edges g)" for s t e
    using that graph_invD(8)[OF assms(1)] live_index[OF assms(1), of t i] assms(2) by auto
  have "filter_mset (\<lambda>x. idx_to_id g ! fst (snd x) = i) (mset (all_edges g))
      = filter_mset (\<lambda>x. fst (snd x) = k) (mset (all_edges g))"
    using key by (intro filter_mset_cong) (simp_all split: prod.splits, metis prod.collapse)
  then show ?thesis
    by (simp add: graph_edges_def filter_mset_image_mset name_edge_def case_prod_unfold o_def multiset.map_comp)
qed

lemma graph_edges_nodes:
  assumes "graph_inv g" "(s, t, e) \<in># graph_edges g"
  shows "s \<in> graph_nodes g \<and> t \<in> graph_nodes g"
proof -
  obtain a b where "(a, b, e) \<in> set (all_edges g)" "s = idx_to_id g ! a" "t = idx_to_id g ! b"
    using assms(2) by (auto simp: graph_edges_def name_edge_def)
  then show ?thesis using graph_invD(8)[OF assms(1)] by (force simp: live_def graph_nodes_def)
qed

lemma outgoing_edges:
  assumes "graph_inv g"
  shows "mset (outgoing g i) = image_mset snd
     (filter_mset (\<lambda>x. fst x = i) (graph_edges g))"
proof (cases "id_to_idx g i")
  case None
  then have "filter_mset (\<lambda>x. fst x = i) (graph_edges g) = {#}"
    using graph_edges_nodes[OF assms] by (auto simp: graph_nodes_def filter_mset_eq_mempty_iff)
  then show ?thesis using None by (simp add: outgoing_def)
next
  case (Some k)
  then show ?thesis
    using outgoing_by_idx_edges[OF assms graph_invD(1)[OF assms Some]]
    by (simp add: outgoing_def graph_edges_from[OF assms Some] name_edge_def case_prod_unfold o_def multiset.map_comp)
qed

lemma incoming_edges:
  assumes "graph_inv g"
  shows "mset (incoming g i) = image_mset (\<lambda>x. (fst x, snd (snd x)))
     (filter_mset (\<lambda>x. fst (snd x) = i) (graph_edges g))"
proof (cases "id_to_idx g i")
  case None
  then have "filter_mset (\<lambda>x. fst (snd x) = i) (graph_edges g) = {#}"
    using graph_edges_nodes[OF assms] by (auto simp: graph_nodes_def filter_mset_eq_mempty_iff)
  then show ?thesis using None by (simp add: incoming_def)
next
  case (Some k)
  then show ?thesis
    using incoming_by_idx_edges[OF assms graph_invD(1)[OF assms Some]]
    by (simp add: incoming_def graph_edges_to[OF assms Some] name_edge_def case_prod_unfold o_def multiset.map_comp)
qed

section \<open>Every operation keeps the invariant and refines its abstract step\<close>

lemma graph_new_refines:
  "graph_inv graph_new" "graph_nodes graph_new = {}" "graph_edges graph_new = {#}"
  by (simp_all add: graph_inv_def graph_new_def cs_wf_def cs_default_def triples_def all_edges_def
      graph_nodes_def graph_edges_def)

text \<open>Registering a node.\<close>

lemma live_row_cong:
  "csr g' = csr g \<Longrightarrow> removed_edges g' = removed_edges g \<Longrightarrow> live_row g' = live_row g"
  by (simp add: live_row_def is_removed_def fun_eq_iff)

lemma live_row_beyond: "length (row_offsets (csr g)) \<le> Suc r \<Longrightarrow> live_row g r = []"
  by (simp add: live_row_def neighbors_def)

lemma add_node_cases:
  assumes "graph_inv g" "length (idx_to_id g) < u32_mod"
  obtains (known) k where "id_to_idx g i = Some k" "add_node g i = (g, k)"
  | (fresh) "id_to_idx g i = None"
      "add_node g i = (g\<lparr>id_to_idx := (id_to_idx g)(i \<mapsto> length (idx_to_id g)),
         idx_to_id := idx_to_id g @ [i]\<rparr>, length (idx_to_id g))"
  using assms(2) by (cases "id_to_idx g i") (auto simp: add_node_def Let_def)

lemma add_node_refines:
  assumes inv: "graph_inv g" and len: "length (idx_to_id g) < u32_mod"
    and g': "add_node g i = (g', k)"
  shows "graph_inv g'" "id_to_idx g' i = Some k" "graph_nodes g' = insert i (graph_nodes g)"
    "graph_edges g' = graph_edges g" "all_edges g' = all_edges g"
    "id_to_idx g j = Some m \<Longrightarrow> id_to_idx g' j = Some m"
    "length (idx_to_id g') \<le> Suc (length (idx_to_id g))"
proof -
  let ?n = "length (idx_to_id g)"
  have all: "graph_inv g' \<and> id_to_idx g' i = Some k \<and> graph_nodes g' = insert i (graph_nodes g)
    \<and> graph_edges g' = graph_edges g \<and> all_edges g' = all_edges g
    \<and> (id_to_idx g j = Some m \<longrightarrow> id_to_idx g' j = Some m)
    \<and> length (idx_to_id g') \<le> Suc ?n" for j m
    using inv len
  proof (cases rule: add_node_cases[where i = i])
    case (known k')
    then show ?thesis using g' inv by (auto simp: graph_nodes_def)
  next
    case fresh
    have g'_def: "g' = g\<lparr>id_to_idx := (id_to_idx g)(i \<mapsto> ?n), idx_to_id := idx_to_id g @ [i]\<rparr>"
      and k: "k = ?n" using fresh(2) g' by auto
    have rows: "live_row g' = live_row g" by (rule live_row_cong) (simp_all add: g'_def)
    have same: "all_edges g' = all_edges g"
      using graph_invD(5)[OF inv] unfolding all_edges_def rows
      by (simp add: g'_def live_row_beyond)
    have live': "live g' a" "idx_to_id g' ! a = idx_to_id g ! a" if "live g a" for a
      using that fresh(1) by (auto simp: live_def g'_def nth_append)
    have ends: "live g s \<and> live g t" if "(s, t, e) \<in> set (all_edges g)" for s t e
      using graph_invD(8)[OF inv that] .
    have names: "graph_edges g' = graph_edges g"
      unfolding graph_edges_def same
      by (intro image_mset_cong) (use ends live'(2) in \<open>force simp: name_edge_def\<close>)
    have idx: "id_to_idx g j = Some m \<Longrightarrow> m < ?n \<and> idx_to_id g ! m = j" for j m
      using graph_invD(1,2)[OF inv] by blast
    have "graph_inv g'"
      unfolding graph_inv_def same using graph_invD(3-7)[OF inv] ends live'(1)
      by (auto simp: g'_def nth_append triples_def row_triples_beyond split: if_splits
          dest!: idx)
    then show ?thesis using names same k fresh(1) by (auto simp: g'_def graph_nodes_def)
  qed
  from all show "graph_inv g'" "id_to_idx g' i = Some k" "graph_nodes g' = insert i (graph_nodes g)"
    "graph_edges g' = graph_edges g" "all_edges g' = all_edges g"
    "id_to_idx g j = Some m \<Longrightarrow> id_to_idx g' j = Some m"
    "length (idx_to_id g') \<le> Suc (length (idx_to_id g))" by blast+
qed

lemma push_delta_refines:
  assumes inv: "graph_inv g" and s: "id_to_idx g a = Some s" and t: "id_to_idx g b = Some t"
  shows "graph_inv (push_delta g s t d)"
    and "graph_edges (push_delta g s t d) = add_mset (a, b, d) (graph_edges g)"
    and "graph_nodes (push_delta g s t d) = graph_nodes g"
proof -
  let ?g = "push_delta g s t d"
  have es: "all_edges ?g = all_edges g @ [(s, t, d)]"
    by (simp add: all_edges_triples push_delta_def delta_triple_def is_removed_def)
  have lv: "live ?g = live g" by (simp add: live_def push_delta_def fun_eq_iff)
  have nm: "name_edge ?g = name_edge g" by (simp add: name_edge_def push_delta_def)
  show "graph_inv ?g"
    unfolding graph_inv_def es lv
    using inv live_if_index[OF inv s] live_if_index[OF inv t]
    by (auto simp: graph_inv_def push_delta_def)
  show "graph_edges ?g = add_mset (a, b, d) (graph_edges g)"
    using graph_invD(2)[OF inv s] graph_invD(2)[OF inv t]
    by (simp add: graph_edges_def es nm) (simp add: name_edge_def)
  show "graph_nodes ?g = graph_nodes g" by (simp add: graph_nodes_def push_delta_def)
qed

text \<open>Adding an edge.\<close>

lemma add_edge_refines:
  assumes inv: "graph_inv g" and len: "length (idx_to_id g) + 1 < u32_mod"
  shows "graph_inv (add_edge g e)"
    and "graph_nodes (add_edge g e) = insert (me_source e) (insert (me_target e) (graph_nodes g))"
    and "graph_edges (add_edge g e)
       = add_mset (me_source e, me_target e, from_memory_edge e) (graph_edges g)"
proof -
  obtain g1 s where a1: "add_node g (me_source e) = (g1, s)" by fastforce
  note r1 = add_node_refines[OF inv _ a1]
  obtain g2 t where a2: "add_node g1 (me_target e) = (g2, t)" by fastforce
  have inv1: "graph_inv g1" using r1(1) len by simp
  have len1: "length (idx_to_id g1) < u32_mod" using r1(7) len by simp
  note r2 = add_node_refines[OF inv1 len1 a2]
  have s: "id_to_idx g2 (me_source e) = Some s" using r2(6)[OF r1(2)] len by simp
  note p = push_delta_refines[OF r2(1) s r2(2), of "from_memory_edge e"]
  show "graph_inv (add_edge g e)"
    and "graph_nodes (add_edge g e) = insert (me_source e) (insert (me_target e) (graph_nodes g))"
    and "graph_edges (add_edge g e)
       = add_mset (me_source e, me_target e, from_memory_edge e) (graph_edges g)"
    using p r2 r1 len by (auto simp: add_edge_def a1 a2)
qed

text \<open>Removing an edge and removing a node filter the edges.\<close>

lemma triple_entries:
  assumes "(a, b, e) \<in> set (triples cs n)"
  shows "b \<in> set (neighbors cs a)"
  using assms by (auto simp: triples_def row_triples_def row_entries_def dest: set_zip_leftD)

lemma filtered_refines:
  assumes inv: "graph_inv g"
    and frame: "csr g' = csr g" "csc g' = csc g" "idx_to_id g' = idx_to_id g"
    and es: "all_edges g' = filter P (all_edges g)"
    and idx: "\<And>i k. id_to_idx g' i = Some k \<Longrightarrow> id_to_idx g i = Some k"
    and keep: "\<And>s t e. P (s, t, e) \<Longrightarrow> live g s \<Longrightarrow> live g t \<Longrightarrow> live g' s \<and> live g' t"
    and names: "\<And>s t e. live g s \<Longrightarrow> live g t \<Longrightarrow> P (s, t, e) \<longleftrightarrow> Q (name_edge g (s, t, e))"
  shows "graph_inv g'" and "graph_edges g' = filter_mset Q (graph_edges g)"
proof -
  have ends: "live g s \<and> live g t" if "(s, t, e) \<in> set (all_edges g)" for s t e
    using graph_invD(8)[OF inv that] .
  show "graph_inv g'"
    unfolding graph_inv_def es frame using graph_invD(3-7)[OF inv] ends keep
    by (auto dest!: idx dest: graph_invD(1,2)[OF inv])
  have "filter_mset P (mset (all_edges g)) = filter_mset (\<lambda>x. Q (name_edge g x)) (mset (all_edges g))"
    using ends names by (intro filter_mset_cong) auto
  then show "graph_edges g' = filter_mset Q (graph_edges g)"
    by (simp add: graph_edges_def es filter_mset_image_mset o_def name_edge_def frame)
qed

lemma remove_edge_refines:
  assumes inv: "graph_inv g"
  shows "graph_inv (remove_edge g a b)" and "graph_nodes (remove_edge g a b) = graph_nodes g"
    and "graph_edges (remove_edge g a b)
       = filter_mset (\<lambda>x. \<not> (fst x = a \<and> fst (snd x) = b)) (graph_edges g)"
proof -
  have "graph_inv (remove_edge g a b) \<and> graph_nodes (remove_edge g a b) = graph_nodes g
    \<and> graph_edges (remove_edge g a b)
       = filter_mset (\<lambda>x. \<not> (fst x = a \<and> fst (snd x) = b)) (graph_edges g)"
  proof (cases "id_to_idx g a = None \<or> id_to_idx g b = None")
    case True
    then have "remove_edge g a b = g" by (auto simp: remove_edge_def split: option.splits)
    moreover have "filter_mset (\<lambda>x. \<not> (fst x = a \<and> fst (snd x) = b)) (graph_edges g) = graph_edges g"
      using True by (auto simp: filter_mset_eq_conv graph_nodes_def dest: graph_edges_nodes[OF inv])
    ultimately show ?thesis using inv by simp
  next
    case False
    then obtain s t where st: "id_to_idx g a = Some s" "id_to_idx g b = Some t" by auto
    let ?g = "remove_edge g a b"
    have g': "csr ?g = csr g" "csc ?g = csc g" "idx_to_id ?g = idx_to_id g" "id_to_idx ?g = id_to_idx g"
      by (simp_all add: remove_edge_def st)
    have rem: "is_removed ?g x y \<longleftrightarrow> is_removed g x y \<or> x = s \<and> y = t" for x y
      by (auto simp: is_removed_def remove_edge_def st)
    have es: "all_edges ?g = filter (\<lambda>x. \<not> (fst x = s \<and> fst (snd x) = t)) (all_edges g)"
      unfolding all_edges_triples g' rem
      by (simp add: remove_edge_def st filter_map o_def delta_triple_def)
    have lv: "live ?g = live g" by (simp add: live_def g' fun_eq_iff)
    have nm: "live g x \<Longrightarrow> live g y \<Longrightarrow> \<not> (fst (x, y, e) = s \<and> fst (snd (x, y, e)) = t)
      \<longleftrightarrow> \<not> (fst (name_edge g (x, y, e)) = a \<and> fst (snd (name_edge g (x, y, e))) = b)" for x y e
      using st live_index[OF inv, of x a] live_index[OF inv, of y b] by (auto simp: name_edge_def)
    show ?thesis
      using filtered_refines[OF inv g'(1-3) es _ _ nm] lv g'(4) by (simp add: graph_nodes_def)
  qed
  then show "graph_inv (remove_edge g a b)" "graph_nodes (remove_edge g a b) = graph_nodes g"
    "graph_edges (remove_edge g a b)
       = filter_mset (\<lambda>x. \<not> (fst x = a \<and> fst (snd x) = b)) (graph_edges g)" by blast+
qed

lemma remove_node_refines:
  assumes inv: "graph_inv g"
  shows "graph_inv (remove_node g i)" and "graph_nodes (remove_node g i) = graph_nodes g - {i}"
    and "graph_edges (remove_node g i)
       = filter_mset (\<lambda>x. fst x \<noteq> i \<and> fst (snd x) \<noteq> i) (graph_edges g)"
proof -
  have "graph_inv (remove_node g i) \<and> graph_nodes (remove_node g i) = graph_nodes g - {i}
    \<and> graph_edges (remove_node g i)
       = filter_mset (\<lambda>x. fst x \<noteq> i \<and> fst (snd x) \<noteq> i) (graph_edges g)"
  proof (cases "id_to_idx g i")
    case None
    then have "filter_mset (\<lambda>x. fst x \<noteq> i \<and> fst (snd x) \<noteq> i) (graph_edges g) = graph_edges g"
      by (auto simp: filter_mset_eq_conv graph_nodes_def dest: graph_edges_nodes[OF inv])
    then show ?thesis using None inv by (auto simp: remove_node_def graph_nodes_def)
  next
    case (Some k)
    let ?g = "remove_node g i" and ?n = "length (idx_to_id g)"
    have g': "csr ?g = csr g" "csc ?g = csc g" "idx_to_id ?g = idx_to_id g"
      "id_to_idx ?g = (id_to_idx g)(i := None)" by (simp_all add: remove_node_def Some)
    have rem: "is_removed ?g a b \<longleftrightarrow> is_removed g a b \<or> a = k \<and> b \<in> set (neighbors (csr g) k)
        \<or> b = k \<and> a \<in> set (neighbors (csc g) k)" for a b
      by (auto simp: is_removed_def remove_node_def Some list_ex_iff)
    have cut: "\<not> is_removed ?g a b \<longleftrightarrow> a \<noteq> k \<and> b \<noteq> k \<and> \<not> is_removed g a b"
      if "(a, b, e) \<in> set (triples (csr g) ?n)" for a b e
    proof -
      have "(a, b, e) \<in># mset (triples (csr g) ?n)" using that by simp
      then have "(b, a, e) \<in> set (triples (csc g) ?n)"
        unfolding graph_invD(7)[OF inv] by (auto simp: flip_triple_def)
      then show ?thesis using triple_entries that rem by metis
    qed
    have es: "all_edges ?g = filter (\<lambda>x. fst x \<noteq> k \<and> fst (snd x) \<noteq> k) (all_edges g)"
      unfolding all_edges_triples g' filter_append filter_filter
      by (intro arg_cong2[of _ _ _ _ "(@)"] filter_cong)
        (use cut in \<open>force simp: remove_node_def Some filter_map o_def delta_triple_def\<close>)+
    have lv: "live ?g a \<longleftrightarrow> live g a \<and> a \<noteq> k" for a
      using live_index[OF inv, of a i] Some by (auto simp: live_def g')
    have nm: "live g x \<Longrightarrow> live g y \<Longrightarrow> (fst (x, y, e) \<noteq> k \<and> fst (snd (x, y, e)) \<noteq> k)
      \<longleftrightarrow> (fst (name_edge g (x, y, e)) \<noteq> i \<and> fst (snd (name_edge g (x, y, e))) \<noteq> i)" for x y e
      using Some live_index[OF inv, of x i] live_index[OF inv, of y i] by (auto simp: name_edge_def)
    have idx: "id_to_idx ?g j = Some m \<Longrightarrow> id_to_idx g j = Some m" for j m
      by (simp add: g' split: if_splits)
    show ?thesis
      using filtered_refines[OF inv g'(1-3) es idx _ nm] lv by (auto simp: graph_nodes_def g')
  qed
  then show "graph_inv (remove_node g i)" "graph_nodes (remove_node g i) = graph_nodes g - {i}"
    "graph_edges (remove_node g i)
       = filter_mset (\<lambda>x. fst x \<noteq> i \<and> fst (snd x) \<noteq> i) (graph_edges g)" by blast+
qed

text \<open>Compaction.\<close>

lemma mset_rows:
  assumes "\<forall>e \<in> set es. edge_row tr e < n"
  shows "mset (concat (map (\<lambda>r. rows_for tr r es) [0..<n])) = mset es"
  using assms
proof (induction es)
  case (Cons e es)
  have "mset (concat (map (\<lambda>r. rows_for tr r (e # es)) [0..<n]))
      = (\<Sum>r \<leftarrow> [0..<n]. (if edge_row tr e = r then {#e#} else {#}) + mset (rows_for tr r es))"
    by (auto simp: mset_concat o_def intro!: arg_cong[of _ _ sum_list] map_cong)
  also have "\<dots> = {#e#} + mset (concat (map (\<lambda>r. rows_for tr r es) [0..<n]))"
    using Cons.prems
    by (simp add: sum_list_addf mset_concat o_def interv_sum_list_conv_sum_set_nat sum.delta)
  finally show ?case using Cons by simp
qed (simp add: rows_for_def)

lemma build_compressed_triples:
  assumes "length es < u32_mod"
  shows "r < n \<Longrightarrow> row_triples (build_compressed es n tr) r
       = map (\<lambda>e. (r, edge_col tr e, edge_payload e)) (rows_for tr r es)"
    and "triples (build_compressed es n tr) n
       = map (\<lambda>e. (edge_row tr e, edge_col tr e, edge_payload e))
           (concat (map (\<lambda>r. rows_for tr r es) [0..<n]))"
proof -
  show row: "row_triples (build_compressed es n tr) r
       = map (\<lambda>e. (r, edge_col tr e, edge_payload e)) (rows_for tr r es)" if "r < n" for r
    using build_compressed_rows(3,4)[OF assms that]
    by (simp add: row_triples_def row_entries_def zip_map_map zip_same_conv_map o_def case_prod_unfold)
  have "row_triples (build_compressed es n tr) r
       = map (\<lambda>e. (edge_row tr e, edge_col tr e, edge_payload e)) (rows_for tr r es)" if "r < n" for r
    using row[OF that] by (simp add: rows_for_def)
  then show "triples (build_compressed es n tr) n
       = map (\<lambda>e. (edge_row tr e, edge_col tr e, edge_payload e))
           (concat (map (\<lambda>r. rows_for tr r es) [0..<n]))"
    unfolding triples_def map_concat map_map by (intro arg_cong[of _ _ concat] map_cong) auto
qed

lemma triple_parts:
  "(edge_row False e, edge_col False e, edge_payload e) = e"
  "(edge_row True e, edge_col True e, edge_payload e) = flip_triple e"
  by (simp_all add: edge_row_def edge_col_def edge_payload_def flip_triple_def split: prod.splits)

lemma compact_fields:
  "csr (compact g) = build_compressed (all_edges g) (length (idx_to_id g)) False"
  "csc (compact g) = build_compressed (all_edges g) (length (idx_to_id g)) True"
  "idx_to_id (compact g) = idx_to_id g" "id_to_idx (compact g) = id_to_idx g"
  "delta_edges (compact g) = []" "removed_edges (compact g) = []"
  by (simp_all add: compact_def Let_def)

lemma all_edges_compact:
  assumes "length (all_edges g) < u32_mod"
  shows "all_edges (compact g)
     = concat (map (\<lambda>r. rows_for False r (all_edges g)) [0..<length (idx_to_id g)])"
  using build_compressed_triples(2)[OF assms]
  by (simp add: all_edges_triples[of "compact g"] compact_fields is_removed_def triple_parts)

lemma edge_ends:
  assumes "graph_inv g"
  shows "\<forall>e \<in> set (all_edges g). edge_row tr e < length (idx_to_id g)"
  using graph_invD(8)[OF assms] by (fastforce simp: edge_row_def live_def)

lemma compact_refines:
  assumes inv: "graph_inv g" and len: "length (all_edges g) < u32_mod"
  shows "graph_inv (compact g)" and "graph_nodes (compact g) = graph_nodes g"
    and "graph_edges (compact g) = graph_edges g"
proof -
  note ends = edge_ends[OF inv] and t = build_compressed_triples(2)[OF len]
  have es: "mset (all_edges (compact g)) = mset (all_edges g)"
    unfolding all_edges_compact[OF len] by (rule mset_rows[OF ends])
  have set_es: "set (all_edges (compact g)) = set (all_edges g)"
    using es by (metis set_mset_mset)
  have lv: "live (compact g) = live g" by (simp add: live_def compact_fields fun_eq_iff)
  have flip2: "image_mset flip_triple (image_mset flip_triple M) = M" for M
    by (simp add: multiset.map_comp o_def flip_triple_def case_prod_unfold)
  have "mset (triples (csr (compact g)) (length (idx_to_id g))) = mset (all_edges g)"
    and "mset (triples (csc (compact g)) (length (idx_to_id g)))
       = image_mset flip_triple (mset (all_edges g))"
    unfolding compact_fields t by (simp_all only: mset_map mset_rows[OF ends] triple_parts) simp_all
  then show "graph_inv (compact g)"
    unfolding graph_inv_def set_es lv
    using inv build_compressed_rows(1,2)[OF len] flip2
    by (auto simp: graph_inv_def compact_fields)
  show "graph_nodes (compact g) = graph_nodes g" by (simp add: graph_nodes_def compact_fields)
  show "graph_edges (compact g) = graph_edges g"
    by (simp add: graph_edges_def es name_edge_def compact_fields)
qed

lemma filter_rows:
  "filter (\<lambda>x. fst x = i) (concat (map (\<lambda>r. rows_for False r es) [0..<n]))
     = (if i < n then filter (\<lambda>x. fst x = i) es else [])"
proof -
  have row: "filter (\<lambda>x. fst x = i) (rows_for False r es)
      = (if r = i then filter (\<lambda>x. fst x = i) es else [])" for r
    by (auto simp: rows_for_def edge_row_def case_prod_unfold filter_empty_conv intro!: filter_cong)
  show ?thesis by (induction n) (auto simp: row)
qed

lemma compact_outgoing_order:
  assumes inv: "graph_inv g" and len: "length (all_edges g) < u32_mod"
  shows "outgoing (compact g) i = outgoing g i"
proof (cases "id_to_idx g i")
  case None
  then show ?thesis by (simp add: outgoing_def compact_fields)
next
  case (Some k)
  have k: "k < length (idx_to_id g)" using graph_invD(1)[OF inv Some] .
  then have "outgoing_by_idx (compact g) k = outgoing_by_idx g k"
    using outgoing_by_idx_edges[OF inv k] outgoing_by_idx_edges[OF compact_refines(1)[OF inv len], of k]
    by (simp add: compact_fields all_edges_compact[OF len] filter_rows)
  then show ?thesis using Some by (simp add: outgoing_def compact_fields)
qed

text \<open>Strengthening appends one edge next to the one it read.\<close>

lemma outgoing_find:
  assumes inv: "graph_inv g" and find: "List.find (\<lambda>(i, _). i = b) (outgoing g a) = Some (c, d)"
  obtains s t where "c = b" "id_to_idx g a = Some s" "id_to_idx g b = Some t"
    "(a, b, d) \<in># graph_edges g"
proof -
  have c: "c = b" "(c, d) \<in># mset (outgoing g a)" using find_SomeD[OF find] by auto
  then have e: "(a, b, d) \<in># graph_edges g" unfolding outgoing_edges[OF inv] by auto
  then show thesis using graph_edges_nodes[OF inv e] that c(1) by (auto simp: graph_nodes_def)
qed

lemma strengthen_edge_unfold:
  assumes "graph_inv g"
  shows "strengthen_edge g a b delta =
    (case List.find (\<lambda>(i, _). i = b) (outgoing g a) of
       None \<Rightarrow> g
     | Some (_, d) \<Rightarrow> push_delta g (the (id_to_idx g a)) (the (id_to_idx g b))
         (d\<lparr>se_weight := fl_min (fl_add f32_of (se_weight d) delta) (Fin 1)\<rparr>))"
  by (auto simp: strengthen_edge_def add_node_def Let_def split: option.splits
      elim!: outgoing_find[OF assms])

lemma strengthen_edge_refines:
  assumes inv: "graph_inv g"
  shows "graph_inv (strengthen_edge g a b delta)"
    and "graph_nodes (strengthen_edge g a b delta) = graph_nodes g"
    and "graph_edges (strengthen_edge g a b delta) = graph_edges g +
      (case List.find (\<lambda>(i, _). i = b) (outgoing g a) of
         None \<Rightarrow> {#}
       | Some (_, d) \<Rightarrow>
           {#(a, b, d\<lparr>se_weight := fl_min (fl_add f32_of (se_weight d) delta) (Fin 1)\<rparr>)#})"
  using inv push_delta_refines[OF inv]
  by (auto simp: strengthen_edge_unfold[OF inv] split: option.splits elim!: outgoing_find[OF inv])

lemma outgoing_push_delta:
  assumes inv: "graph_inv g" and s: "id_to_idx g a = Some s" and t: "id_to_idx g b = Some t"
  shows "outgoing (push_delta g s t d) a = outgoing g a @ [(b, d)]"
proof -
  have "s < length (idx_to_id g)" "t < length (idx_to_id g)" "idx_to_id g ! t = b"
    using graph_invD(1,2)[OF inv] s t by blast+
  then show ?thesis
    by (simp add: outgoing_def outgoing_by_idx_def push_delta_def s is_removed_def)
qed

section \<open>The graphs the operations build\<close>

text \<open>
  Any sequence of operations from the empty graph, with the node and edge counts below the
  \<open>u32\<close> bound of the indices.
\<close>

inductive graph_reach :: "CsrGraph \<Rightarrow> bool" where
  reach_new: "graph_reach graph_new"
| reach_add_node: "graph_reach g \<Longrightarrow> length (idx_to_id g) < u32_mod \<Longrightarrow> graph_reach (fst (add_node g i))"
| reach_add_edge: "graph_reach g \<Longrightarrow> length (idx_to_id g) + 1 < u32_mod \<Longrightarrow> graph_reach (add_edge g e)"
| reach_remove_node: "graph_reach g \<Longrightarrow> graph_reach (remove_node g i)"
| reach_remove_edge: "graph_reach g \<Longrightarrow> graph_reach (remove_edge g a b)"
| reach_strengthen: "graph_reach g \<Longrightarrow> graph_reach (strengthen_edge g a b w)"
| reach_compact: "graph_reach g \<Longrightarrow> length (all_edges g) < u32_mod \<Longrightarrow> graph_reach (compact g)"

lemma graph_reach_inv [wf_intros]: "graph_reach g \<Longrightarrow> graph_inv g"
proof (induction rule: graph_reach.induct)
  case (reach_add_node g i)
  then show ?case using add_node_refines(1)[of g i "fst (add_node g i)" "snd (add_node g i)"] by simp
qed (simp_all add: graph_new_refines add_edge_refines remove_node_refines remove_edge_refines
    strengthen_edge_refines compact_refines)

section \<open>The interface of an edge store\<close>

text \<open>
  What the traversals, belief propagation and the manager rely on: two queries that read one
  multiset of edges between registered nodes.
\<close>

locale edge_store =
  fixes inv :: "'g \<Rightarrow> bool"
    and nodes :: "'g \<Rightarrow> MemoryId set"
    and edges :: "'g \<Rightarrow> (MemoryId \<times> MemoryId \<times> StoredEdge) multiset"
    and out :: "'g \<Rightarrow> MemoryId \<Rightarrow> (MemoryId \<times> StoredEdge) list"
    and inc :: "'g \<Rightarrow> MemoryId \<Rightarrow> (MemoryId \<times> StoredEdge) list"
  assumes out_edges: "inv g \<Longrightarrow> mset (out g i) = image_mset snd (filter_mset (\<lambda>x. fst x = i) (edges g))"
    and inc_edges: "inv g \<Longrightarrow> mset (inc g i)
      = image_mset (\<lambda>x. (fst x, snd (snd x))) (filter_mset (\<lambda>x. fst (snd x) = i) (edges g))"
    and edge_nodes: "inv g \<Longrightarrow> (s, t, e) \<in># edges g \<Longrightarrow> s \<in> nodes g \<and> t \<in> nodes g"
begin

lemma out_iff:
  assumes "inv g"
  shows "(t, e) \<in> set (out g s) \<longleftrightarrow> (s, t, e) \<in># edges g"
proof -
  have "set (out g s) = snd ` {x. x \<in># edges g \<and> fst x = s}"
    using arg_cong[OF out_edges[OF assms], of set_mset] by simp
  then show ?thesis by force
qed

lemma inc_iff:
  assumes "inv g"
  shows "(s, e) \<in> set (inc g t) \<longleftrightarrow> (s, t, e) \<in># edges g"
proof -
  have "set (inc g t) = (\<lambda>x. (fst x, snd (snd x))) ` {x. x \<in># edges g \<and> fst (snd x) = t}"
    using arg_cong[OF inc_edges[OF assms], of set_mset] by simp
  then show ?thesis by force
qed

lemma dual: "inv g \<Longrightarrow> (t, e) \<in> set (out g s) \<longleftrightarrow> (s, e) \<in> set (inc g t)"
  by (simp add: out_iff inc_iff)

lemma out_nodes: "inv g \<Longrightarrow> (t, e) \<in> set (out g s) \<Longrightarrow> s \<in> nodes g \<and> t \<in> nodes g"
  using edge_nodes by (simp add: out_iff)

end

text \<open>The same store with its updates.\<close>

locale mutable_store = edge_store +
  fixes insert_edge :: "'a \<Rightarrow> MemoryEdge \<Rightarrow> 'a"
    and delete_edge :: "'a \<Rightarrow> MemoryId \<Rightarrow> MemoryId \<Rightarrow> 'a"
    and delete_node :: "'a \<Rightarrow> MemoryId \<Rightarrow> 'a"
    and room :: "'a \<Rightarrow> bool"
  assumes insert_inv: "inv g \<Longrightarrow> room g \<Longrightarrow> inv (insert_edge g e)"
    and insert_edges: "inv g \<Longrightarrow> room g \<Longrightarrow>
      edges (insert_edge g e) = add_mset (me_source e, me_target e, from_memory_edge e) (edges g)"
    and delete_edge_inv: "inv g \<Longrightarrow> inv (delete_edge g a b)"
    and delete_edge_edges: "inv g \<Longrightarrow>
      edges (delete_edge g a b) = filter_mset (\<lambda>x. \<not> (fst x = a \<and> fst (snd x) = b)) (edges g)"
    and delete_node_inv: "inv g \<Longrightarrow> inv (delete_node g i)"
    and delete_node_edges: "inv g \<Longrightarrow>
      edges (delete_node g i) = filter_mset (\<lambda>x. fst x \<noteq> i \<and> fst (snd x) \<noteq> i) (edges g)"
begin

lemma insert_out:
  assumes "inv g" "room g"
  shows "mset (out (insert_edge g e) s) = mset (out g s)
    + (if s = me_source e then {#(me_target e, from_memory_edge e)#} else {#})"
  using assms by (auto simp: out_edges insert_inv insert_edges)

lemma insert_then_delete:
  assumes "inv g" "room g" "\<forall>d. (me_source e, me_target e, d) \<notin># edges g"
  shows "edges (delete_edge (insert_edge g e) (me_source e) (me_target e)) = edges g"
proof -
  have "edges (delete_edge (insert_edge g e) (me_source e) (me_target e))
      = filter_mset (\<lambda>x. \<not> (fst x = me_source e \<and> fst (snd x) = me_target e)) (edges g)"
    using assms by (simp add: delete_edge_edges insert_inv insert_edges)
  also have "\<dots> = edges g" using assms(3) by (auto simp: filter_mset_eq_conv)
  finally show ?thesis .
qed

lemma delete_edge_gone: "inv g \<Longrightarrow> (b, d) \<notin> set (out (delete_edge g a b) a)"
  by (simp add: out_iff delete_edge_inv delete_edge_edges)

lemma delete_edge_others:
  assumes "inv g" "(s, t) \<noteq> (a, b)"
  shows "(t, d) \<in> set (out (delete_edge g a b) s) \<longleftrightarrow> (t, d) \<in> set (out g s)"
  using assms by (auto simp: out_iff delete_edge_inv delete_edge_edges)

lemma delete_node_out:
  assumes "inv g"
  shows "(t, d) \<in> set (out (delete_node g i) s) \<longleftrightarrow> s \<noteq> i \<and> t \<noteq> i \<and> (t, d) \<in> set (out g s)"
  using assms by (auto simp: out_iff delete_node_inv delete_node_edges)

lemma delete_node_inc:
  assumes "inv g"
  shows "(s, d) \<in> set (inc (delete_node g i) t) \<longleftrightarrow> s \<noteq> i \<and> t \<noteq> i \<and> (s, d) \<in> set (inc g t)"
  using assms by (auto simp: inc_iff delete_node_inv delete_node_edges)

end

interpretation csr_store: mutable_store graph_inv graph_nodes graph_edges outgoing incoming
  add_edge remove_edge remove_node "\<lambda>g. length (idx_to_id g) + 1 < u32_mod"
  by unfold_locales
    (simp_all add: outgoing_edges incoming_edges graph_edges_nodes add_edge_refines
      remove_edge_refines remove_node_refines)

section \<open>Properties\<close>

text \<open>A graph with one edge, and the same graph compacted, on which the properties are
  evaluated.\<close>

definition sample_edge :: "uuid \<Rightarrow> uuid \<Rightarrow> EdgeType \<Rightarrow> MemoryEdge" where
  "sample_edge a b ty = \<lparr> me_source = MemoryId a, me_target = MemoryId b, me_edge_type = ty,
     me_weight = Fin (1/2), me_created_at = 0, me_valid_from = None, me_valid_until = None,
     me_label = None \<rparr>"

definition sample_graph :: CsrGraph where
  "sample_graph = add_edge graph_new (sample_edge 1 2 Supports)"

lemmas sample_simps = sample_graph_def sample_edge_def add_edge_def add_node_def graph_new_def
  push_delta_def from_memory_edge_def cs_default_def neighbors_def edge_data_for_def
  all_edges_def live_row_def delta_triple_def outgoing_def outgoing_by_idx_def is_removed_def

lemma sample_reach: "graph_reach sample_graph"
  unfolding sample_graph_def
  by (intro graph_reach.intros) (simp add: graph_new_def)

lemma sample_all_edges: "length (all_edges sample_graph) = 1"
  by (simp add: sample_simps Let_def)

lemma sample_compact_reach: "graph_reach (compact sample_graph)"
  by (intro graph_reach.intros sample_reach) (simp add: sample_all_edges)

text \<open>Every graph built by the operations of the crate keeps its two compressed
  storages well formed, so that no slice of \<open>neighbors\<close> or \<open>edge_data_for\<close> and no index
  \<open>edges[i]\<close> of the queries and of compaction can leave its array: the offsets are ordered, they end inside both
  arrays, and the two slices of a row have the same length.\<close>

theorem csr_slices_in_bounds:
  assumes "graph_reach g" "cs = csr g \<or> cs = csc g" "row + 1 < length (row_offsets cs)"
  shows "row_offsets cs ! row \<le> row_offsets cs ! (row + 1)
    \<and> row_offsets cs ! (row + 1) \<le> length (col_indices cs)
    \<and> row_offsets cs ! (row + 1) \<le> length (edge_data cs)
    \<and> length (neighbors cs row) = length (edge_data_for cs row)"
proof -
  have "cs_wf cs" using graph_invD(3,4)[OF graph_reach_inv[OF assms(1)]] assms(2) by auto
  then show ?thesis
    using assms(3) by (auto simp: cs_wf_def neighbors_def edge_data_for_def Let_def)
qed

theorem csr_slices_in_bounds_witness:
  "graph_reach (compact sample_graph) \<and> 0 + 1 < length (row_offsets (csr (compact sample_graph)))
    \<and> length (neighbors (csr (compact sample_graph)) 0)
      = length (edge_data_for (csr (compact sample_graph)) 0)"
proof -
  have len: "0 + 1 < length (row_offsets (csr (compact sample_graph)))"
    by (simp add: compact_fields build_compressed_rows(2) sample_all_edges)
      (simp add: sample_simps Let_def)
  show ?thesis
    using sample_compact_reach len csr_slices_in_bounds[OF sample_compact_reach _ len] by blast
qed

text \<open>C1: Compaction is invisible to readers: after merging the delta log and the removals
  into fresh CSR and CSC arrays, \<open>outgoing\<close> returns the very same list for every node,
  \<open>incoming\<close> the same edges with the same multiplicities, and the node set is unchanged.\<close>

theorem compact_preserves_queries:
  assumes "graph_reach g" "length (all_edges g) < u32_mod"
  shows "outgoing (compact g) i = outgoing g i
    \<and> mset (incoming (compact g) i) = mset (incoming g i)
    \<and> contains_node (compact g) i = contains_node g i
    \<and> graph_reach (compact g)"
proof -
  note inv = graph_reach_inv[OF assms(1)]
  show ?thesis
    using compact_outgoing_order[OF inv assms(2)] compact_refines[OF inv assms(2)]
      incoming_edges[OF inv] incoming_edges[OF compact_refines(1)[OF inv assms(2)]]
      graph_reach.reach_compact[OF assms]
    by (simp add: contains_node_def compact_fields)
qed

theorem compact_preserves_queries_witness:
  "graph_reach sample_graph \<and> length (all_edges sample_graph) < u32_mod
    \<and> outgoing (compact sample_graph) (MemoryId 1) = outgoing sample_graph (MemoryId 1)
    \<and> length (outgoing sample_graph (MemoryId 1)) = 1"
proof -
  have len: "length (all_edges sample_graph) < u32_mod" by (simp add: sample_all_edges)
  have "length (outgoing sample_graph (MemoryId 1)) = 1" by (simp add: sample_simps Let_def)
  then show ?thesis using sample_reach len compact_preserves_queries[OF sample_reach len] by blast
qed

text \<open>The row and the column storage describe the same edges: an edge with data \<open>d\<close>
  leaves \<open>s\<close> for \<open>t\<close> in \<open>outgoing\<close> exactly when it reaches \<open>t\<close> from \<open>s\<close> in \<open>incoming\<close>, and both of its ends
  are registered nodes.\<close>

theorem outgoing_incoming_dual:
  assumes "graph_reach g"
  shows "((t, d) \<in> set (outgoing g s) \<longleftrightarrow> (s, d) \<in> set (incoming g t))
    \<and> ((t, d) \<in> set (outgoing g s) \<longrightarrow> contains_node g s \<and> contains_node g t)"
  using csr_store.dual[OF graph_reach_inv[OF assms]]
    csr_store.out_nodes[OF graph_reach_inv[OF assms], of t d s]
  by (auto simp: contains_node_def graph_nodes_def)

theorem outgoing_incoming_dual_witness:
  "graph_reach sample_graph
    \<and> (MemoryId 1, from_memory_edge (sample_edge 1 2 Supports)) \<in> set (incoming sample_graph (MemoryId 2))
    \<and> contains_node sample_graph (MemoryId 1)"
proof -
  have "(MemoryId 2, from_memory_edge (sample_edge 1 2 Supports)) \<in> set (outgoing sample_graph (MemoryId 1))"
    by (simp add: sample_simps Let_def)
  then show ?thesis using outgoing_incoming_dual[OF sample_reach] sample_reach by blast
qed

text \<open>Removing a node forgets it: the node is not contained any more, no query of any
  node mentions it, and every edge between other nodes is still there, in both directions.\<close>

theorem remove_node_forgets:
  assumes "graph_reach g"
  shows "\<not> contains_node (remove_node g i) i
    \<and> ((t, d) \<in> set (outgoing (remove_node g i) s)
        \<longleftrightarrow> s \<noteq> i \<and> t \<noteq> i \<and> (t, d) \<in> set (outgoing g s))
    \<and> ((s, d) \<in> set (incoming (remove_node g i) t)
        \<longleftrightarrow> s \<noteq> i \<and> t \<noteq> i \<and> (s, d) \<in> set (incoming g t))"
  using csr_store.delete_node_out[OF graph_reach_inv[OF assms]]
    csr_store.delete_node_inc[OF graph_reach_inv[OF assms]]
  by (auto simp: contains_node_def remove_node_def split: option.splits)

theorem remove_node_forgets_witness:
  "graph_reach sample_graph \<and> \<not> contains_node (remove_node sample_graph (MemoryId 2)) (MemoryId 2)
    \<and> (MemoryId 2, from_memory_edge (sample_edge 1 2 Supports))
        \<notin> set (outgoing (remove_node sample_graph (MemoryId 2)) (MemoryId 1))"
  using remove_node_forgets[OF sample_reach, of "MemoryId 2"] sample_reach by blast

text \<open>C11: The compressed graph refines a multigraph: adding an edge adds exactly one edge
  between its ends (and registers them), removing an edge removes all parallel edges of that pair
  and nothing else, and both leave a graph the operations can build.\<close>

theorem edge_updates_refine:
  assumes "graph_reach g" "length (idx_to_id g) + 1 < u32_mod"
  shows "graph_edges (add_edge g e)
      = add_mset (me_source e, me_target e, from_memory_edge e) (graph_edges g)
    \<and> graph_nodes (add_edge g e) = graph_nodes g \<union> {me_source e, me_target e}
    \<and> graph_edges (remove_edge g a b)
      = filter_mset (\<lambda>(s, t, d). \<not> (s = a \<and> t = b)) (graph_edges g)
    \<and> graph_nodes (remove_edge g a b) = graph_nodes g
    \<and> graph_reach (add_edge g e) \<and> graph_reach (remove_edge g a b)"
  using add_edge_refines[OF graph_reach_inv[OF assms(1)] assms(2)]
    remove_edge_refines[OF graph_reach_inv[OF assms(1)]] graph_reach.intros assms
  by (auto simp: case_prod_unfold)

theorem edge_updates_refine_witness:
  "graph_reach sample_graph \<and> length (idx_to_id sample_graph) + 1 < u32_mod
    \<and> graph_edges (add_edge sample_graph (sample_edge 2 3 Caused))
      = add_mset (MemoryId 2, MemoryId 3, from_memory_edge (sample_edge 2 3 Caused))
          (graph_edges sample_graph)"
proof -
  have len: "length (idx_to_id sample_graph) + 1 < u32_mod" by (simp add: sample_simps Let_def)
  show ?thesis
    using sample_reach len edge_updates_refine[OF sample_reach len, of "sample_edge 2 3 Caused"]
    by (simp add: sample_edge_def)
qed

text \<open>Strengthening an edge does not replace it. The old edge stays first, also after
  compaction, so the lookup that \<open>strengthen_edge\<close> itself makes still finds the old weight: a second
  strengthening starts again from it. The comment on the function says that compaction merges the
  two, which it does not.\<close>

theorem strengthen_edge_keeps_old:
  assumes "graph_reach g" "List.find (\<lambda>(i, _). i = b) (outgoing g a) = Some (b, d)"
    and "length (all_edges (strengthen_edge g a b w)) < u32_mod"
  shows "outgoing (compact (strengthen_edge g a b w)) a
      = outgoing g a @ [(b, d\<lparr>se_weight := fl_min (fl_add f32_of (se_weight d) w) (Fin 1)\<rparr>)]
    \<and> List.find (\<lambda>(i, _). i = b) (outgoing (compact (strengthen_edge g a b w)) a) = Some (b, d)"
proof -
  note inv = graph_reach_inv[OF assms(1)]
  let ?d = "d\<lparr>se_weight := fl_min (fl_add f32_of (se_weight d) w) (Fin 1)\<rparr>"
  obtain s t where st: "id_to_idx g a = Some s" "id_to_idx g b = Some t"
    using outgoing_find[OF inv assms(2)] by blast
  have "strengthen_edge g a b w = push_delta g s t ?d"
    by (simp add: strengthen_edge_unfold[OF inv] assms(2) st)
  then have out: "outgoing (strengthen_edge g a b w) a = outgoing g a @ [(b, ?d)]"
    using outgoing_push_delta[OF inv st] by simp
  then show ?thesis
    using compact_outgoing_order[OF strengthen_edge_refines(1)[OF inv] assms(3)] assms(2)
    by (simp add: find_append)
qed

theorem strengthen_edge_keeps_old_witness:
  "List.find (\<lambda>(i, _). i = MemoryId 2)
     (outgoing (compact (strengthen_edge sample_graph (MemoryId 1) (MemoryId 2) (Fin (1/4)))) (MemoryId 1))
   = Some (MemoryId 2, from_memory_edge (sample_edge 1 2 Supports))"
proof -
  have f: "List.find (\<lambda>(i, _). i = MemoryId 2) (outgoing sample_graph (MemoryId 1))
      = Some (MemoryId 2, from_memory_edge (sample_edge 1 2 Supports))"
    by (simp add: sample_simps Let_def)
  have "length (all_edges (strengthen_edge sample_graph (MemoryId 1) (MemoryId 2) (Fin (1/4)))) < u32_mod"
    by (simp add: strengthen_edge_def f) (simp add: sample_simps Let_def)
  from strengthen_edge_keeps_old[OF sample_reach f this] show ?thesis by blast
qed

end
