(* ===== verification/Graph_Traversal.thy ===== *)
theory Graph_Traversal
  imports Graph_Spec
begin

text \<open>
  The traversals of \<open>crates/mentedb-graph/src/traversal.rs\<close>: breadth-first search with and
  without an edge filter, depth-first search, subgraph extraction and shortest path. The
  \<open>while let\<close> loops are recursive functions over the queue, the visited set and the result; they
  terminate because \<open>outgoing\<close> only names registered nodes, and each of these is queued once.
\<close>

section \<open>Loops\<close>

text \<open>
  The inner loop of both breadth-first searches: a neighbour whose edge passes the filter and
  that is new to the visited set (\<open>visited.insert\<close> returned true) goes to the end of the queue.
\<close>

fun bfs_visit :: "(StoredEdge \<Rightarrow> bool) \<Rightarrow> nat \<Rightarrow> (MemoryId \<times> StoredEdge) list \<Rightarrow> MemoryId set
    \<Rightarrow> (MemoryId \<times> nat) list \<Rightarrow> MemoryId set \<times> (MemoryId \<times> nat) list" where
  "bfs_visit P depth [] visited queue = (visited, queue)"
| "bfs_visit P depth ((neighbor, e) # es) visited queue =
     (if P e \<and> neighbor \<notin> visited
      then bfs_visit P depth es (insert neighbor visited) (queue @ [(neighbor, depth + 1)])
      else bfs_visit P depth es visited queue)"

text \<open>The neighbours one such pass finds, in order.\<close>

fun fresh :: "(StoredEdge \<Rightarrow> bool) \<Rightarrow> (MemoryId \<times> StoredEdge) list \<Rightarrow> MemoryId set \<Rightarrow> MemoryId list" where
  "fresh P [] visited = []"
| "fresh P ((n, e) # es) visited =
     (if P e \<and> n \<notin> visited then n # fresh P es (insert n visited) else fresh P es visited)"

lemma bfs_visit_fresh:
  "bfs_visit P d es vis q = (vis \<union> set (fresh P es vis), q @ map (\<lambda>n. (n, Suc d)) (fresh P es vis))"
  by (induction P d es vis q rule: bfs_visit.induct) auto

lemma set_fresh: "set (fresh P es vis) = {n. \<exists>e. (n, e) \<in> set es \<and> P e} - vis"
  by (induction P es vis rule: fresh.induct) auto

lemma distinct_fresh: "distinct (fresh P es vis)"
  by (induction P es vis rule: fresh.induct) (auto simp: set_fresh)

lemma outgoing_registered: "(n, e) \<in> set (outgoing g i) \<Longrightarrow> n \<in> set (idx_to_id g)"
  by (auto simp: outgoing_def outgoing_by_idx_def split: option.splits)

lemma fresh_measure:
  "card (set (idx_to_id g) - (vis \<union> set (fresh P (outgoing g i) vis))) + length (fresh P (outgoing g i) vis)
     = card (set (idx_to_id g) - vis)"
proof -
  let ?F = "set (fresh P (outgoing g i) vis)" and ?N = "set (idx_to_id g)"
  have sub: "?F \<subseteq> ?N - vis" using outgoing_registered by (auto simp: set_fresh)
  have eq: "?N - (vis \<union> ?F) = (?N - vis) - ?F" by auto
  have "card (?N - (vis \<union> ?F)) = card (?N - vis) - card ?F"
    unfolding eq by (rule card_Diff_subset[OF _ sub]) simp
  then show ?thesis
    using card_mono[OF _ sub] by (simp add: distinct_card[OF distinct_fresh])
qed

function bfs_loop :: "CsrGraph \<Rightarrow> (StoredEdge \<Rightarrow> bool) \<Rightarrow> nat \<Rightarrow> (MemoryId \<times> nat) list \<Rightarrow> MemoryId set
    \<Rightarrow> (MemoryId \<times> nat) list \<Rightarrow> (MemoryId \<times> nat) list" where
  "bfs_loop g P max_depth [] visited result = result"
| "bfs_loop g P max_depth ((node, depth) # queue) visited result =
     (if depth \<ge> max_depth then bfs_loop g P max_depth queue visited (result @ [(node, depth)])
      else let (visited', queue') = bfs_visit P depth (outgoing g node) visited queue
           in bfs_loop g P max_depth queue' visited' (result @ [(node, depth)]))"
  by pat_completeness auto
termination
proof (relation "measure (\<lambda>(g, P, m, q, v, r). 2 * card (set (idx_to_id g) - v) + length q)", goal_cases)
  case (3 g P m node depth queue visited result p v q)
  then show ?case using fresh_measure[of g visited P node] by (auto simp: bfs_visit_fresh)
qed auto

definition bfs :: "CsrGraph \<Rightarrow> MemoryId \<Rightarrow> nat \<Rightarrow> (MemoryId \<times> nat) list" where
  "bfs g start max_depth =
     (case get_idx g start of None \<Rightarrow> []
      | Some _ \<Rightarrow> bfs_loop g (\<lambda>_. True) max_depth [(start, 0)] {start} [])"

definition bfs_filtered :: "CsrGraph \<Rightarrow> MemoryId \<Rightarrow> nat \<Rightarrow> EdgeType list \<Rightarrow> (MemoryId \<times> nat) list" where
  "bfs_filtered g start max_depth edge_filter =
     (case get_idx g start of None \<Rightarrow> []
      | Some _ \<Rightarrow> bfs_loop g (\<lambda>e. se_edge_type e \<in> set edge_filter) max_depth [(start, 0)] {start} [])"

text \<open>
  Depth-first search: the stack's top is the head of the list, so the neighbours pushed in
  order end up reversed in front of it. A node is marked visited when it is popped.
\<close>

function dfs_loop :: "CsrGraph \<Rightarrow> nat \<Rightarrow> (MemoryId \<times> nat) list \<Rightarrow> MemoryId set
    \<Rightarrow> (MemoryId \<times> nat) list \<Rightarrow> (MemoryId \<times> nat) list" where
  "dfs_loop g max_depth [] visited result = result"
| "dfs_loop g max_depth ((node, depth) # stack) visited result =
     (if node \<in> visited then dfs_loop g max_depth stack visited result
      else if depth \<ge> max_depth
        then dfs_loop g max_depth stack (insert node visited) (result @ [(node, depth)])
        else dfs_loop g max_depth
          (rev (map (\<lambda>(neighbor, e). (neighbor, depth + 1))
             (filter (\<lambda>(neighbor, e). neighbor \<notin> insert node visited) (outgoing g node))) @ stack)
          (insert node visited) (result @ [(node, depth)]))"
  by pat_completeness auto
termination
proof (relation "(\<lambda>(g, m, s, v, r). card ((set (idx_to_id g) \<union> fst ` set s) - v)) <*mlex*>
    measure (\<lambda>(g, m, s, v, r). length s)", goal_cases)
  case 1
  show ?case by (simp add: wf_mlex)
next
  case (2 g m node depth stack visited result)
  have "card (set (idx_to_id g) \<union> fst ` set stack - visited)
      \<le> card (set (idx_to_id g) \<union> fst ` set ((node, depth) # stack) - visited)"
    by (intro card_mono) auto
  then show ?case by (auto simp: mlex_prod_def)
next
  case (3 g m node depth stack visited result)
  have "card (set (idx_to_id g) \<union> fst ` set stack - insert node visited)
      < card (set (idx_to_id g) \<union> fst ` set ((node, depth) # stack) - visited)"
    by (intro psubset_card_mono) (use 3 in auto)
  then show ?case by (auto simp: mlex_prod_def)
next
  case (4 g m node depth stack visited result)
  let ?push = "rev (map (\<lambda>(neighbor, e). (neighbor, depth + 1))
    (filter (\<lambda>(neighbor, e). neighbor \<notin> insert node visited) (outgoing g node)))"
  have "fst ` set ?push \<subseteq> set (idx_to_id g)" using outgoing_registered by force
  then have "card (set (idx_to_id g) \<union> fst ` set (?push @ stack) - insert node visited)
      < card (set (idx_to_id g) \<union> fst ` set ((node, depth) # stack) - visited)"
    by (intro psubset_card_mono) (use 4 in auto)
  then show ?case by (auto simp: mlex_prod_def)
qed

definition dfs :: "CsrGraph \<Rightarrow> MemoryId \<Rightarrow> nat \<Rightarrow> (MemoryId \<times> nat) list" where
  "dfs g start max_depth =
     (case get_idx g start of None \<Rightarrow> [] | Some _ \<Rightarrow> dfs_loop g max_depth [(start, 0)] {} [])"

section \<open>Subgraph extraction\<close>

definition memory_edge_of :: "MemoryId \<Rightarrow> MemoryId \<Rightarrow> StoredEdge \<Rightarrow> MemoryEdge" where
  "memory_edge_of s t d = \<lparr> me_source = s, me_target = t, me_edge_type = se_edge_type d,
     me_weight = se_weight d, me_created_at = se_created_at d, me_valid_from = se_valid_from d,
     me_valid_until = se_valid_until d, me_label = se_label d \<rparr>"

definition extract_subgraph :: "CsrGraph \<Rightarrow> MemoryId \<Rightarrow> nat \<Rightarrow> MemoryId list \<times> MemoryEdge list" where
  "extract_subgraph g center radius =
     (let nodes = map fst (bfs g center radius); node_set = set nodes
      in (nodes, concat (map (\<lambda>node. map (\<lambda>(neighbor, stored). memory_edge_of node neighbor stored)
            (filter (\<lambda>(neighbor, stored). neighbor \<in> node_set) (outgoing g node))) nodes)))"

section \<open>Shortest path\<close>

text \<open>
  The loops of \<open>shortest_path\<close>. \<open>sp_visit\<close> is the inner loop: \<open>Inl\<close> the parent map when the
  target is met, \<open>Inr\<close> the visited set, the parent map and the queue otherwise. \<open>sp_rebuild\<close> is the
  walk back along the parents; it may a priori run for ever, so it is a partial function.
\<close>

fun sp_visit :: "MemoryId \<Rightarrow> MemoryId \<Rightarrow> (MemoryId \<times> StoredEdge) list \<Rightarrow> MemoryId set
    \<Rightarrow> (MemoryId \<rightharpoonup> MemoryId) \<Rightarrow> MemoryId list
    \<Rightarrow> (MemoryId \<rightharpoonup> MemoryId) + (MemoryId set \<times> (MemoryId \<rightharpoonup> MemoryId) \<times> MemoryId list)" where
  "sp_visit tgt node [] visited parent queue = Inr (visited, parent, queue)"
| "sp_visit tgt node ((neighbor, e) # es) visited parent queue =
     (if neighbor \<notin> visited
      then if neighbor = tgt then Inl (parent(neighbor \<mapsto> node))
           else sp_visit tgt node es (insert neighbor visited) (parent(neighbor \<mapsto> node)) (queue @ [neighbor])
      else sp_visit tgt node es visited parent queue)"

lemma sp_visit_fresh:
  "sp_visit tgt node es vis par q = Inr (v, p, q') \<Longrightarrow>
     v = vis \<union> set (fresh (\<lambda>_. True) es vis) \<and> q' = q @ fresh (\<lambda>_. True) es vis
     \<and> tgt \<notin> set (fresh (\<lambda>_. True) es vis)"
  by (induction tgt node es vis par q rule: sp_visit.induct) (auto split: if_splits)

function sp_loop :: "CsrGraph \<Rightarrow> MemoryId \<Rightarrow> MemoryId list \<Rightarrow> MemoryId set \<Rightarrow> (MemoryId \<rightharpoonup> MemoryId)
    \<Rightarrow> (MemoryId \<rightharpoonup> MemoryId) option" where
  "sp_loop g tgt [] visited parent = None"
| "sp_loop g tgt (node # queue) visited parent =
     (case sp_visit tgt node (outgoing g node) visited parent queue of
        Inl found \<Rightarrow> Some found
      | Inr (visited', parent', queue') \<Rightarrow> sp_loop g tgt queue' visited' parent')"
  by pat_completeness auto
termination
proof (relation "measure (\<lambda>(g, tgt, q, v, p). 2 * card (set (idx_to_id g) - v) + length q)", goal_cases)
  case (2 g tgt node queue visited parent st v st' p q)
  then show ?case
    using fresh_measure[of g visited "\<lambda>_. True" node] by (auto dest!: sp_visit_fresh)
qed auto

partial_function (option) sp_rebuild ::
  "(MemoryId \<rightharpoonup> MemoryId) \<Rightarrow> MemoryId \<Rightarrow> MemoryId list \<Rightarrow> MemoryId \<Rightarrow> MemoryId list option" where
  "sp_rebuild parent start path cur =
     (case parent cur of
        None \<Rightarrow> Some path
      | Some prev \<Rightarrow> if prev = start then Some (path @ [prev])
                    else sp_rebuild parent start (path @ [prev]) prev)"

text \<open>The outer option is termination, the inner one the result of the function.\<close>

definition shortest_path :: "CsrGraph \<Rightarrow> MemoryId \<Rightarrow> MemoryId \<Rightarrow> MemoryId list option option" where
  "shortest_path g start tgt =
     (if start = tgt then Some (Some [start])
      else if get_idx g start = None \<or> get_idx g tgt = None then Some None
      else case sp_loop g tgt [start] {start} Map.empty of
             None \<Rightarrow> Some None
           | Some parent \<Rightarrow> map_option (\<lambda>path. Some (rev path)) (sp_rebuild parent start [tgt] tgt))"

section \<open>Walks and distances\<close>

inductive walk :: "CsrGraph \<Rightarrow> (StoredEdge \<Rightarrow> bool) \<Rightarrow> MemoryId \<Rightarrow> nat \<Rightarrow> MemoryId \<Rightarrow> bool"
  for g P s where
  walk_start: "walk g P s 0 s"
| walk_step: "walk g P s d n \<Longrightarrow> (m, e) \<in> set (outgoing g n) \<Longrightarrow> P e \<Longrightarrow> walk g P s (Suc d) m"

inductive_cases walk_zeroE: "walk g P s 0 n"
inductive_cases walk_SucE: "walk g P s (Suc d) n"

text \<open>\<open>hops g P s n d\<close>: the shortest walk from \<open>s\<close> to \<open>n\<close> along edges that pass \<open>P\<close> has length \<open>d\<close>.\<close>

definition hops :: "CsrGraph \<Rightarrow> (StoredEdge \<Rightarrow> bool) \<Rightarrow> MemoryId \<Rightarrow> MemoryId \<Rightarrow> nat \<Rightarrow> bool" where
  "hops g P s n d \<longleftrightarrow> walk g P s d n \<and> (\<forall>j < d. \<not> walk g P s j n)"

lemma hops_unique: "hops g P s n d \<Longrightarrow> hops g P s n e \<Longrightarrow> d = e"
  by (metis hops_def linorder_neqE_nat)

lemma hops_least: "hops g P s n d \<Longrightarrow> walk g P s j n \<Longrightarrow> d \<le> j"
  by (meson hops_def not_less)

lemma walk_hops: "walk g P s j n \<Longrightarrow> \<exists>d \<le> j. hops g P s n d"
  unfolding hops_def
  by (rule exI[of _ "LEAST d. walk g P s d n"]) (auto intro: LeastI Least_le dest: not_less_Least)

lemma within_hops: "(\<exists>k \<le> D. hops g P s n k) \<longleftrightarrow> (\<exists>k \<le> D. walk g P s k n)"
  using walk_hops[of g P s _ n] by (meson hops_def le_trans)

section \<open>Breadth-first search finds shortest distances\<close>

definition bfs_inv :: "CsrGraph \<Rightarrow> (StoredEdge \<Rightarrow> bool) \<Rightarrow> nat \<Rightarrow> MemoryId \<Rightarrow> (MemoryId \<times> nat) list
    \<Rightarrow> MemoryId set \<Rightarrow> (MemoryId \<times> nat) list \<Rightarrow> bool" where
  "bfs_inv g P D s queue visited result \<longleftrightarrow>
     fst ` set (result @ queue) = visited \<and> distinct (map fst (result @ queue))
     \<and> sorted (map snd (result @ queue))
     \<and> (\<forall>(n, k) \<in> set queue. k \<le> snd (hd queue) + 1)
     \<and> (s, 0) \<in> set (result @ queue)
     \<and> (\<forall>(n, k) \<in> set (result @ queue). hops g P s n k \<and> k \<le> D)
     \<and> (\<forall>(n, k) \<in> set result. k < D \<longrightarrow> {m. \<exists>e. (m, e) \<in> set (outgoing g n) \<and> P e} \<subseteq> visited)"

lemma bfs_inv_start: "bfs_inv g P D s [(s, 0)] {s} []"
  by (auto simp: bfs_inv_def hops_def intro: walk_start)

lemma bfs_invD:
  assumes "bfs_inv g P D s queue visited result"
  shows "fst ` set (result @ queue) = visited" "distinct (map fst (result @ queue))"
    "sorted (map snd (result @ queue))" "(n, k) \<in> set queue \<Longrightarrow> k \<le> snd (hd queue) + 1"
    "(s, 0) \<in> set (result @ queue)"
    "(n, k) \<in> set (result @ queue) \<Longrightarrow> hops g P s n k"
    "(n, k) \<in> set (result @ queue) \<Longrightarrow> k \<le> D"
    "(n, k) \<in> set result \<Longrightarrow> k < D \<Longrightarrow> (m, e) \<in> set (outgoing g n) \<Longrightarrow> P e \<Longrightarrow> m \<in> visited"
  using assms unfolding bfs_inv_def by blast+

lemma bfs_inv_depths:
  assumes "bfs_inv g P D s ((n, k) # queue) visited result"
  shows "(m, d) \<in> set queue \<Longrightarrow> k \<le> d \<and> d \<le> Suc k" "(m, d) \<in> set result \<Longrightarrow> d \<le> k"
    "sorted (map snd queue)" "sorted (map snd result)"
  using bfs_invD(3)[OF assms] bfs_invD(4)[OF assms, of m d] by (auto simp: sorted_append)

text \<open>Everything closer than the head of the queue has been seen.\<close>

lemma bfs_inv_near:
  assumes inv: "bfs_inv g P D s ((n, k) # queue) visited result" and "j \<le> k" "walk g P s j m"
  shows "m \<in> visited"
  using assms(2,3)
proof (induction j arbitrary: m)
  case 0
  then have "m = s" by (auto elim: walk_zeroE)
  then show ?case using bfs_invD(1,5)[OF inv] by force
next
  case (Suc j)
  then obtain t e where t: "walk g P s j t" "(m, e) \<in> set (outgoing g t)" "P e"
    by (auto elim: walk_SucE)
  then have "t \<in> visited" using Suc by simp
  then obtain d where d: "(t, d) \<in> set (result @ (n, k) # queue)"
    using bfs_invD(1)[OF inv] by (metis imageE prod.collapse)
  have "d \<le> j" using hops_least[OF bfs_invD(6)[OF inv d] t(1)] .
  moreover have "k \<le> D" using bfs_invD(7)[OF inv, of n k] by simp
  ultimately have "d < D" "d < k" using Suc.prems(1) by simp_all
  then have "(t, d) \<in> set result" using d bfs_inv_depths(1)[OF inv, of t d] by auto
  then show ?case using bfs_invD(8)[OF inv _ \<open>d < D\<close> t(2,3)] by blast
qed

lemma sorted_snoc_block:
  assumes "sorted xs" "\<forall>x \<in> set xs. x \<le> (c :: nat)"
  shows "sorted (xs @ replicate r c)"
  using assms by (simp add: sorted_append)

lemma head_span:
  assumes "\<And>m d. (m, d) \<in> set q \<Longrightarrow> k \<le> d \<and> d \<le> Suc k"
  shows "\<forall>(m, d) \<in> set q. d \<le> snd (hd q) + (1 :: nat)"
proof clarify
  fix m d assume md: "(m, d) \<in> set q"
  then have "hd q \<in> set q" by (cases q) auto
  then have "k \<le> snd (hd q)" using assms[of "fst (hd q)" "snd (hd q)"] by simp
  then show "d \<le> snd (hd q) + 1" using assms[OF md] by simp
qed

lemma bfs_inv_step:
  assumes inv: "bfs_inv g P D s ((n, k) # queue) visited result" and "k < D"
    and F: "F = fresh P (outgoing g n) visited"
  shows "bfs_inv g P D s (queue @ map (\<lambda>m. (m, Suc k)) F) (visited \<union> set F) (result @ [(n, k)])"
proof -
  let ?Q = "queue @ map (\<lambda>m. (m, Suc k)) F" and ?R = "result @ [(n, k)]"
  note dep = bfs_inv_depths[OF inv]
  have new: "hops g P s m (Suc k)" if "m \<in> set F" for m
  proof -
    from that obtain e where e: "(m, e) \<in> set (outgoing g n)" "P e" "m \<notin> visited"
      by (auto simp: F set_fresh)
    have "walk g P s k n" using bfs_invD(6)[OF inv, of n k] by (simp add: hops_def)
    then have "walk g P s (Suc k) m" using e walk_step by blast
    moreover have "\<not> walk g P s j m" if "j < Suc k" for j
      using bfs_inv_near[OF inv, of j m] that e(3) by auto
    ultimately show ?thesis by (simp add: hops_def)
  qed
  have set_RQ: "set (?R @ ?Q) = set (result @ (n, k) # queue) \<union> (\<lambda>m. (m, Suc k)) ` set F" by auto
  have 1: "fst ` set (?R @ ?Q) = visited \<union> set F"
    unfolding set_RQ image_Un using bfs_invD(1)[OF inv] by (simp add: image_image)
  have 2: "distinct (map fst (?R @ ?Q))"
  proof -
    have "distinct (map fst (result @ (n, k) # queue) @ F)"
      unfolding distinct_append set_map bfs_invD(1)[OF inv]
      by (intro conjI bfs_invD(2)[OF inv]) (auto simp: F set_fresh distinct_fresh)
    then show ?thesis by (simp add: o_def)
  qed
  have 3: "sorted (map snd (?R @ ?Q))"
  proof -
    have "map snd (?R @ ?Q) = map snd (result @ (n, k) # queue) @ replicate (length F) (Suc k)"
      by (simp add: o_def map_replicate_const)
    moreover have "\<forall>x \<in> set (map snd (result @ (n, k) # queue)). x \<le> Suc k" using dep(1,2)
      by (auto simp: less_eq_Suc_le intro: le_SucI)
    ultimately show ?thesis using sorted_snoc_block[OF bfs_invD(3)[OF inv]] by (simp only:)
  qed
  have 4: "\<forall>(m, d) \<in> set ?Q. d \<le> snd (hd ?Q) + 1"
    by (rule head_span[where k = k]) (use dep(1) in auto)
  have 6: "\<forall>(m, d) \<in> set (?R @ ?Q). hops g P s m d \<and> d \<le> D"
    unfolding set_RQ using bfs_invD(6,7)[OF inv] new assms(2) by (auto simp del: set_append)
  have 7: "\<forall>(m, d) \<in> set ?R. d < D \<longrightarrow> {x. \<exists>e. (x, e) \<in> set (outgoing g m) \<and> P e} \<subseteq> visited \<union> set F"
    using bfs_invD(8)[OF inv] by (auto simp: F set_fresh)
  show ?thesis
    unfolding bfs_inv_def using 1 2 3 4 6 7 bfs_invD(5)[OF inv] by auto
qed

lemma bfs_inv_skip:
  assumes inv: "bfs_inv g P D s ((n, k) # queue) visited result" and "\<not> k < D"
  shows "bfs_inv g P D s queue visited (result @ [(n, k)])"
proof -
  have "\<forall>(m, d) \<in> set queue. d \<le> snd (hd queue) + 1"
    by (rule head_span[where k = k]) (use bfs_inv_depths(1)[OF inv] in auto)
  then show ?thesis using inv assms(2) unfolding bfs_inv_def by auto
qed

lemma bfs_loop_correct:
  assumes "bfs_inv g P D s queue visited result"
  shows "\<exists>visited'. bfs_inv g P D s [] visited' (bfs_loop g P D queue visited result)"
  using assms
proof (induction g P D queue visited result rule: bfs_loop.induct)
  case (2 g P D n k queue visited result)
  show ?case
  proof (cases "k < D")
    case True
    then show ?thesis
      using "2.IH"(2) bfs_inv_step[OF "2.prems" True] by (simp add: bfs_visit_fresh)
  next
    case False
    then show ?thesis using "2.IH"(1) bfs_inv_skip[OF "2.prems" False] by simp
  qed
qed auto

lemma bfs_inv_done:
  assumes inv: "bfs_inv g P D s [] V r"
  shows "walk g P s j m \<Longrightarrow> j \<le> D \<Longrightarrow> m \<in> V"
proof (induction j arbitrary: m)
  case 0
  then show ?case using bfs_invD(1,5)[OF inv] by (force elim: walk_zeroE)
next
  case (Suc j)
  then obtain t e where t: "walk g P s j t" "(m, e) \<in> set (outgoing g t)" "P e"
    by (auto elim: walk_SucE)
  then obtain d where d: "(t, d) \<in> set r"
    using Suc bfs_invD(1)[OF inv] by fastforce
  have "d < D" using hops_least[OF bfs_invD(6)[OF inv, of t d] t(1)] d Suc.prems(2) by simp
  then show ?case using bfs_invD(8)[OF inv d _ t(2,3)] by blast
qed

text \<open>The contract of the loop: exactly the nodes within \<open>D\<close> hops, each once, with its distance,
  in order of distance.\<close>

lemma bfs_loop_spec:
  defines "r g P D s \<equiv> bfs_loop g P D [(s, 0)] {s} []"
  shows "distinct (map fst (r g P D s))" "sorted (map snd (r g P D s))"
    "(n, k) \<in> set (r g P D s) \<longleftrightarrow> hops g P s n k \<and> k \<le> D"
proof -
  obtain V where inv: "bfs_inv g P D s [] V (r g P D s)"
    using bfs_loop_correct[OF bfs_inv_start] unfolding r_def by blast
  show "distinct (map fst (r g P D s))" "sorted (map snd (r g P D s))"
    using bfs_invD(2,3)[OF inv] by simp_all
  have seen: "walk g P s j m \<Longrightarrow> j \<le> D \<Longrightarrow> m \<in> V" for j m using bfs_inv_done[OF inv] .
  show "(n, k) \<in> set (r g P D s) \<longleftrightarrow> hops g P s n k \<and> k \<le> D"
  proof
    assume "(n, k) \<in> set (r g P D s)"
    then show "hops g P s n k \<and> k \<le> D" using bfs_invD(6,7)[OF inv] by simp
  next
    assume h: "hops g P s n k \<and> k \<le> D"
    then have "n \<in> V" using seen by (auto simp: hops_def)
    then obtain d where d: "(n, d) \<in> set (r g P D s)" using bfs_invD(1)[OF inv] by fastforce
    then have "d = k" using bfs_invD(6)[OF inv, of n d] h hops_unique by auto
    then show "(n, k) \<in> set (r g P D s)" using d by simp
  qed
qed

section \<open>The shortest path is one\<close>

text \<open>\<open>path_from g p\<close>: consecutive nodes of \<open>p\<close> are joined by edges of the graph.\<close>

fun path_from :: "CsrGraph \<Rightarrow> MemoryId list \<Rightarrow> bool" where
  "path_from g [] = False"
| "path_from g [n] = True"
| "path_from g (n # m # p) = (m \<in> fst ` set (outgoing g n) \<and> path_from g (m # p))"

abbreviation any_edge :: "StoredEdge \<Rightarrow> bool" where
  "any_edge \<equiv> (\<lambda>_. True)"

definition par_ok :: "CsrGraph \<Rightarrow> MemoryId \<Rightarrow> (MemoryId \<rightharpoonup> MemoryId) \<Rightarrow> bool" where
  "par_ok g s parent \<longleftrightarrow> (\<forall>n m. parent n = Some m \<longrightarrow> m \<in> insert s (dom parent)
     \<and> n \<in> fst ` set (outgoing g m) \<and> (\<exists>k. hops g any_edge s n (Suc k) \<and> hops g any_edge s m k))"

lemma par_okD:
  assumes "par_ok g s parent" "parent n = Some m"
  shows "m \<in> insert s (dom parent)" "n \<in> fst ` set (outgoing g m)"
    "\<exists>k. hops g any_edge s n (Suc k) \<and> hops g any_edge s m k"
  using assms unfolding par_ok_def by blast+

lemma par_ok_update:
  assumes "par_ok g s parent" "m \<in> insert s (dom parent)" "n \<in> fst ` set (outgoing g m)"
    "hops g any_edge s n (Suc k)" "hops g any_edge s m k"
  shows "par_ok g s (parent(n \<mapsto> m))"
  using assms unfolding par_ok_def by (auto split: if_splits)

lemma sp_rebuild_ok:
  assumes ok: "par_ok g s parent"
  shows "hops g any_edge s n k \<Longrightarrow> n \<in> dom parent \<Longrightarrow> path_from g (n # p) \<Longrightarrow>
    \<exists>q. sp_rebuild parent s (rev (n # p)) n = Some (rev q) \<and> path_from g q \<and> hd q = s
      \<and> last q = last (n # p) \<and> length q = length (n # p) + k"
proof (induction k arbitrary: n p)
  case 0
  then obtain m where "parent n = Some m" by blast
  from par_okD(3)[OF ok this] obtain k where "hops g any_edge s n (Suc k)" by blast
  with 0(1) hops_unique show ?case by blast
next
  case (Suc k)
  then obtain m where m: "parent n = Some m" by blast
  have hm: "hops g any_edge s m k"
    using par_okD(3)[OF ok m] hops_unique[OF Suc.prems(1)] by auto
  have path: "path_from g (m # n # p)" using par_okD(2)[OF ok m] Suc.prems(3) by simp
  show ?case
  proof (cases "m = s")
    case True
    have "k = 0" using hops_unique[OF hm] True by (auto simp: hops_def intro: walk_start)
    then show ?thesis
      using path True m by (intro exI[of _ "m # n # p"]) (simp add: sp_rebuild.simps[of parent s _ n])
  next
    case False
    then have "m \<in> dom parent" using par_okD(1)[OF ok m] by blast
    from Suc.IH[OF hm this path] show ?thesis
      using False m by (simp add: sp_rebuild.simps[of parent s _ n]) 
  qed
qed


lemma sp_visit_par:
  assumes "par_ok g s parent" "node \<in> insert s (dom parent)" "hops g any_edge s node k"
    "set es \<subseteq> set (outgoing g node)" "\<And>m. m \<in> fst ` set es \<Longrightarrow> m \<notin> visited \<Longrightarrow> hops g any_edge s m (Suc k)"
  shows "(case sp_visit tgt node es visited parent queue of
      Inl p \<Rightarrow> par_ok g s p \<and> tgt \<in> dom p
    | Inr (v, p, q) \<Rightarrow> par_ok g s p \<and> dom p = dom parent \<union> set (fresh any_edge es visited))"
  using assms
proof (induction tgt node es visited parent queue rule: sp_visit.induct)
  case (2 tgt node m e es visited parent queue)
  show ?case
  proof (cases "m \<in> visited")
    case True
    then have "fresh any_edge ((m, e) # es) visited = fresh any_edge es visited" by simp
    then show ?thesis using True "2.IH"(2) "2.prems" by (auto split: sum.splits)
  next
    case False
    have ok: "par_ok g s (parent(m \<mapsto> node))"
      by (rule par_ok_update[OF "2.prems"(1,2) _ _ "2.prems"(3)]) (use "2.prems" False in force)+
    show ?thesis
    proof (cases "m = tgt")
      case False
      have "case sp_visit tgt node es (insert m visited) (parent(m \<mapsto> node)) (queue @ [m]) of
          Inl p \<Rightarrow> par_ok g s p \<and> tgt \<in> dom p
        | Inr (v, p, q) \<Rightarrow> par_ok g s p
            \<and> dom p = dom (parent(m \<mapsto> node)) \<union> set (fresh any_edge es (insert m visited))"
        by (rule "2.IH"(1)) (use \<open>m \<notin> visited\<close> False ok "2.prems" in \<open>auto simp del: fun_upd_apply\<close>)
      then show ?thesis using \<open>m \<notin> visited\<close> False by (auto split: sum.splits)
    qed (use False ok in simp)
  qed
qed simp

definition sp_inv :: "CsrGraph \<Rightarrow> MemoryId \<Rightarrow> MemoryId \<Rightarrow> MemoryId list \<Rightarrow> MemoryId set
    \<Rightarrow> (MemoryId \<rightharpoonup> MemoryId) \<Rightarrow> bool" where
  "sp_inv g s tgt queue visited parent \<longleftrightarrow> tgt \<notin> visited \<and> par_ok g s parent
     \<and> visited = insert s (dom parent)
     \<and> (\<exists>ghost result N. queue = map fst ghost
          \<and> (\<forall>D \<ge> N. bfs_inv g any_edge D s ghost visited result))"

lemma sp_inv_start: "s \<noteq> tgt \<Longrightarrow> sp_inv g s tgt [s] {s} Map.empty"
  unfolding sp_inv_def
  by (intro conjI exI[of _ "[(s, 0)]"] exI[of _ "[] :: (MemoryId \<times> nat) list"])
    (auto simp: par_ok_def intro: bfs_inv_start)

lemma sp_inv_step:
  assumes inv: "sp_inv g s tgt (node # queue) visited parent"
  shows "case sp_visit tgt node (outgoing g node) visited parent queue of
      Inl p \<Rightarrow> par_ok g s p \<and> tgt \<in> dom p
    | Inr (v, p, q) \<Rightarrow> sp_inv g s tgt q v p"
proof -
  let ?F = "fresh any_edge (outgoing g node) visited"
  from inv obtain k ghost result N where gh: "queue = map fst ghost"
      "\<And>D. N \<le> D \<Longrightarrow> bfs_inv g any_edge D s ((node, k) # ghost) visited result"
    and par: "par_ok g s parent" "visited = insert s (dom parent)" "tgt \<notin> visited"
    unfolding sp_inv_def Cons_eq_map_conv by (metis prod.collapse)
  note inv0 = gh(2)[OF order_refl]
  have hk: "hops g any_edge s node k" using bfs_invD(6)[OF inv0, of node k] by simp
  have node: "node \<in> insert s (dom parent)" using bfs_invD(1)[OF inv0] par(2) by auto
  have step: "bfs_inv g any_edge D s (ghost @ map (\<lambda>m. (m, Suc k)) ?F) (visited \<union> set ?F) (result @ [(node, k)])"
    if "max N (Suc k) \<le> D" for D
    by (rule bfs_inv_step[OF gh(2)]) (use that in auto)
  have new: "hops g any_edge s m (Suc k)" if "m \<in> fst ` set (outgoing g node)" "m \<notin> visited" for m
    by (rule bfs_invD(6)[OF step[OF order_refl]]) (use that in \<open>auto simp: set_fresh\<close>)
  note vis = sp_visit_par[OF par(1) node hk order_refl new, of visited tgt queue]
  have "sp_inv g s tgt q v p" if r: "sp_visit tgt node (outgoing g node) visited parent queue = Inr (v, p, q)" for v p q
  proof -
    have "par_ok g s p" "dom p = dom parent \<union> set ?F" using vis r by auto
    moreover note sp_visit_fresh[OF r]
    moreover have "\<exists>gh' res N. queue @ ?F = map fst gh'
        \<and> (\<forall>D \<ge> N. bfs_inv g any_edge D s gh' (visited \<union> set ?F) res)"
      using step gh(1) by (intro exI[of _ "ghost @ map (\<lambda>m. (m, Suc k)) ?F"] exI[of _ "result @ [(node, k)]"]
          exI[of _ "max N (Suc k)"]) (simp add: o_def)
    ultimately show ?thesis using par unfolding sp_inv_def by auto
  qed
  then show ?thesis using vis by (auto split: sum.splits)
qed

lemma sp_loop_correct:
  "sp_inv g s tgt queue visited parent \<Longrightarrow>
     (case sp_loop g tgt queue visited parent of
        Some p \<Rightarrow> par_ok g s p \<and> tgt \<in> dom p
      | None \<Rightarrow> (\<forall>d. \<not> walk g any_edge s d tgt))"
proof (induction g tgt queue visited parent rule: sp_loop.induct)
  case (1 g tgt visited parent)
  then obtain ghost result N where "[] = map fst ghost" "tgt \<notin> visited"
      "\<forall>D \<ge> N. bfs_inv g any_edge D s ghost visited result" unfolding sp_inv_def by blast
  then have "tgt \<notin> visited" "\<And>D. N \<le> D \<Longrightarrow> bfs_inv g any_edge D s [] visited result" by auto
  then show ?case using bfs_inv_done[of g any_edge "max N d" s visited result d tgt for d] by fastforce
next
  case (2 g tgt node queue visited parent)
  show ?case using sp_inv_step[OF "2.prems"] "2.IH" by (auto split: sum.splits prod.splits)
qed

section \<open>Depth-first search\<close>

definition dfs_inv :: "CsrGraph \<Rightarrow> nat \<Rightarrow> MemoryId \<Rightarrow> (MemoryId \<times> nat) list \<Rightarrow> MemoryId set
    \<Rightarrow> (MemoryId \<times> nat) list \<Rightarrow> bool" where
  "dfs_inv g D s stack visited result \<longleftrightarrow>
     fst ` set result = visited \<and> distinct (map fst result)
     \<and> s \<in> visited \<union> fst ` set stack
     \<and> (\<forall>(n, k) \<in> set (result @ stack). walk g any_edge s k n \<and> k \<le> D \<and> n \<in> set (idx_to_id g))
     \<and> (\<forall>(n, k) \<in> set result. k < card visited) \<and> (\<forall>(n, k) \<in> set stack. k \<le> card visited)
     \<and> (\<forall>(n, k) \<in> set result. k < D \<longrightarrow> fst ` set (outgoing g n) \<subseteq> visited \<union> fst ` set stack)"

lemma dfs_inv_start: "s \<in> set (idx_to_id g) \<Longrightarrow> dfs_inv g D s [(s, 0)] {} []"
  by (auto simp: dfs_inv_def intro: walk_start)

lemma dfs_invD:
  assumes "dfs_inv g D s stack visited result"
  shows "fst ` set result = visited" "distinct (map fst result)" "s \<in> visited \<union> fst ` set stack"
    "(n, k) \<in> set (result @ stack) \<Longrightarrow> walk g any_edge s k n \<and> k \<le> D \<and> n \<in> set (idx_to_id g)"
    "(n, k) \<in> set result \<Longrightarrow> k < card visited" "(n, k) \<in> set stack \<Longrightarrow> k \<le> card visited"
    "(n, k) \<in> set result \<Longrightarrow> k < D \<Longrightarrow> fst ` set (outgoing g n) \<subseteq> visited \<union> fst ` set stack"
  using assms unfolding dfs_inv_def by blast+

lemma dfs_inv_skip:
  assumes inv: "dfs_inv g D s ((n, k) # stack) visited result" and "n \<in> visited"
  shows "dfs_inv g D s stack visited result"
proof -
  have eq: "visited \<union> fst ` set ((n, k) # stack) = visited \<union> fst ` set stack" using assms(2) by auto
  show ?thesis using inv unfolding dfs_inv_def eq by simp
qed

lemma dfs_inv_visit:
  assumes inv: "dfs_inv g D s ((n, k) # stack) visited result" and "n \<notin> visited"
    and push: "push = (if k \<ge> D then [] else rev (map (\<lambda>(m, e). (m, k + 1))
      (filter (\<lambda>(m, e). m \<notin> insert n visited) (outgoing g n))))"
  shows "dfs_inv g D s (push @ stack) (insert n visited) (result @ [(n, k)])"
proof -
  note D = dfs_invD[OF inv]
  have "finite visited" using D(1) by (metis List.finite_set finite_imageI)
  then have card: "card (insert n visited) = Suc (card visited)" using assms(2) by simp
  have w: "walk g any_edge s k n" "k \<le> card visited" using D(4)[of n k] D(6)[of n k] by simp_all
  have p1: "set push \<subseteq> {(m, Suc k) |m. m \<in> fst ` set (outgoing g n)}"
    by (auto simp: push split: if_splits) force
  have p2: "k < D \<Longrightarrow> fst ` set (outgoing g n) \<subseteq> insert n visited \<union> fst ` set push"
    by (auto simp: push image_iff)
  have p3: "walk g any_edge s d m \<and> d \<le> D \<and> m \<in> set (idx_to_id g) \<and> d \<le> Suc (card visited)"
    if "(m, d) \<in> set push" for m d
    using that p1 w outgoing_registered by (fastforce simp: push intro: walk_step split: if_splits)
  have 4: "\<forall>(m, d) \<in> set ((result @ [(n, k)]) @ push @ stack).
      walk g any_edge s d m \<and> d \<le> D \<and> m \<in> set (idx_to_id g)"
    using D(4) p3 by auto
  have 5: "\<forall>(m, d) \<in> set (push @ stack). d \<le> card (insert n visited)"
    using D(6) p3 unfolding card by (auto intro: le_SucI)
  have 6: "\<forall>(m, d) \<in> set (result @ [(n, k)]). d < card (insert n visited)"
    using D(5) w(2) unfolding card by (auto intro: less_SucI)
  have "d < D \<longrightarrow> fst ` set (outgoing g m) \<subseteq> insert n visited \<union> fst ` set (push @ stack)"
    if "(m, d) \<in> set (result @ [(n, k)])" for m d
    using D(7)[of m d] p2 that by (auto simp: image_Un)
  then have 7: "\<forall>(m, d) \<in> set (result @ [(n, k)]). d < D \<longrightarrow>
      fst ` set (outgoing g m) \<subseteq> insert n visited \<union> fst ` set (push @ stack)"
    unfolding Ball_def split_paired_All prod.case by blast
  have "fst ` set (result @ [(n, k)]) = insert n visited" "distinct (map fst (result @ [(n, k)]))"
      "s \<in> insert n visited \<union> fst ` set (push @ stack)"
    using D(1-3) assms(2) by auto
  then show ?thesis unfolding dfs_inv_def by (intro conjI 4 5 6 7)
qed

lemma dfs_loop_correct:
  "dfs_inv g D s stack visited result \<Longrightarrow>
     \<exists>v. dfs_inv g D s [] v (dfs_loop g D stack visited result)"
proof (induction g D stack visited result rule: dfs_loop.induct)
  case (2 g D n k stack visited result)
  show ?case
  proof (cases "n \<in> visited")
    case True
    then show ?thesis using "2.IH"(1)[OF True dfs_inv_skip[OF "2.prems" True]] by simp
  next
    case False
    then show ?thesis
      using "2.IH"(2,3) dfs_inv_visit[OF "2.prems" False refl] by (cases "D \<le> k") simp_all
  qed
qed auto

lemma dfs_inv_complete:
  assumes inv: "dfs_inv g D s [] v r" and "card (set (idx_to_id g)) \<le> D"
  shows "walk g any_edge s j m \<Longrightarrow> m \<in> fst ` set r"
proof (induction rule: walk.induct)
  case walk_start
  then show ?case using dfs_invD(1,3)[OF inv] by simp
next
  case (walk_step d n m e)
  then obtain k where k: "(n, k) \<in> set r" by auto
  have "v \<subseteq> set (idx_to_id g)" using dfs_invD(1,4)[OF inv] by force
  then have "card v \<le> D" using assms(2) card_mono[of "set (idx_to_id g)" v] by simp
  then have "k < D" using dfs_invD(5)[OF inv k] by simp
  then show ?case using dfs_invD(7)[OF inv k] dfs_invD(1)[OF inv] walk_step(2) by force
qed

section \<open>Properties\<close>

lemma outgoing_unregistered: "get_idx g n = None \<Longrightarrow> outgoing g n = []"
  by (simp add: outgoing_def get_idx_def)

lemma walk_unregistered: "walk g P s d n \<Longrightarrow> get_idx g s = None \<Longrightarrow> n = s"
  by (induction rule: walk.induct) (auto simp: outgoing_unregistered)


lemma outgoing_get_idx:
  assumes "graph_inv g" "(m, e) \<in> set (outgoing g n)"
  shows "get_idx g m \<noteq> None"
proof -
  have "(m, e) \<in># image_mset snd (filter_mset (\<lambda>x. fst x = n) (graph_edges g))"
    using assms(2) outgoing_edges[OF assms(1), of n] by (metis set_mset_mset)
  then have "(n, m, e) \<in># graph_edges g" by auto
  then show ?thesis using graph_edges_nodes[OF assms(1)] by (auto simp: get_idx_def graph_nodes_def)
qed

lemma walk_registered:
  "graph_inv g \<Longrightarrow> walk g P s d n \<Longrightarrow> n = s \<or> get_idx g n \<noteq> None"
  by (erule walk.cases) (auto dest: outgoing_get_idx)

lemma get_idx_registered:
  "graph_inv g \<Longrightarrow> get_idx g n = Some i \<Longrightarrow> n \<in> set (idx_to_id g)"
  using graph_invD(1,2)[of g n i] by (metis get_idx_def nth_mem)


lemma memory_edge_of_iff:
  "e = memory_edge_of s t d \<longleftrightarrow> me_source e = s \<and> me_target e = t \<and> from_memory_edge e = d"
  by (cases e; cases d) (auto simp: memory_edge_of_def from_memory_edge_def)

lemma memory_edge_of_fields [simp]:
  "me_source (memory_edge_of s t d) = s" "me_target (memory_edge_of s t d) = t"
  "from_memory_edge (memory_edge_of s t d) = d"
  using memory_edge_of_iff[of "memory_edge_of s t d" s t d] by simp_all

lemma extract_nodes:
  "n \<in> set (fst (extract_subgraph g c r)) \<longleftrightarrow> get_idx g c \<noteq> None \<and> (\<exists>k \<le> r. walk g any_edge c k n)"
proof -
  have "n \<in> set (fst (extract_subgraph g c r)) \<longleftrightarrow> (\<exists>k. (n, k) \<in> set (bfs g c r))"
    by (force simp: extract_subgraph_def Let_def)
  also have "\<dots> \<longleftrightarrow> get_idx g c \<noteq> None \<and> (\<exists>k \<le> r. hops g any_edge c n k)"
    unfolding bfs_def using bfs_loop_spec(3)[of n _ g any_edge r c]
    by (cases "get_idx g c") (auto simp del: bfs_loop.simps)
  finally show ?thesis by (simp add: within_hops)
qed

lemma extract_edges:
  "set (snd (extract_subgraph g c r)) = {memory_edge_of s t d | s t d.
     s \<in> set (fst (extract_subgraph g c r)) \<and> t \<in> set (fst (extract_subgraph g c r)) \<and> (t, d) \<in> set (outgoing g s)}"
proof -
  have "e \<in> set (snd (extract_subgraph g c r)) \<longleftrightarrow>
      (\<exists>s \<in> set (fst (extract_subgraph g c r)). \<exists>x \<in> set (outgoing g s).
        fst x \<in> set (fst (extract_subgraph g c r)) \<and> e = memory_edge_of s (fst x) (snd x))" for e
    unfolding extract_subgraph_def Let_def fst_conv snd_conv in_concat_map case_prod_unfold
      set_map set_filter image_iff Bex_def mem_Collect_eq by blast
  then show ?thesis by (auto simp del: set_concat) force+
qed

lemma sample_get_idx: "get_idx sample_graph (MemoryId 1) = Some 0" "get_idx sample_graph (MemoryId 2) = Some 1"
  by (simp_all add: get_idx_def sample_simps Let_def)

lemma sample_outgoing:
  "outgoing sample_graph (MemoryId 1) = [(MemoryId 2, from_memory_edge (sample_edge 1 2 Supports))]"
  "outgoing sample_graph (MemoryId 2) = []"
  by (simp_all add: sample_simps Let_def)

text \<open>C14: Breadth-first search returns exactly the nodes within \<open>max_depth\<close> hops of a registered
  start, each once, with its distance in hops, nearest first; an unregistered start gives nothing.\<close>

theorem bfs_correct:
  "distinct (map fst (bfs g start D)) \<and> sorted (map snd (bfs g start D))
   \<and> ((n, k) \<in> set (bfs g start D)
        \<longleftrightarrow> get_idx g start \<noteq> None \<and> hops g (\<lambda>_. True) start n k \<and> k \<le> D)"
  unfolding bfs_def using bfs_loop_spec[where g = g and P = any_edge and D = D and s = start]
  by (auto simp del: bfs_loop.simps split: option.splits)

text \<open>The filtered search does the same in the subgraph of the edges whose type is in the
  filter.\<close>

theorem bfs_filtered_correct:
  "distinct (map fst (bfs_filtered g start D tys)) \<and> sorted (map snd (bfs_filtered g start D tys))
   \<and> ((n, k) \<in> set (bfs_filtered g start D tys)
        \<longleftrightarrow> get_idx g start \<noteq> None \<and> hops g (\<lambda>e. se_edge_type e \<in> set tys) start n k \<and> k \<le> D)"
  unfolding bfs_filtered_def
  using bfs_loop_spec[where g = g and P = "\<lambda>e. se_edge_type e \<in> set tys" and D = D and s = start]
  by (auto simp del: bfs_loop.simps split: option.splits)

text \<open>Depth-first search from a registered node returns each node once, with the length of a
  walk that reaches it, never deeper than \<open>max_depth\<close>; and once \<open>max_depth\<close> is at least the number of
  node slots of the graph, it returns every reachable node.\<close>

theorem dfs_correct:
  assumes "graph_reach g" "get_idx g start = Some i"
  shows "distinct (map fst (dfs g start D))
    \<and> ((n, k) \<in> set (dfs g start D) \<longrightarrow> walk g (\<lambda>_. True) start k n \<and> k \<le> D)
    \<and> (length (idx_to_id g) \<le> D \<longrightarrow>
        (n \<in> fst ` set (dfs g start D) \<longleftrightarrow> (\<exists>j. walk g (\<lambda>_. True) start j n)))"
proof -
  have "start \<in> set (idx_to_id g)" using get_idx_registered[OF graph_reach_inv] assms by blast
  from dfs_loop_correct[OF dfs_inv_start[OF this]] obtain v
    where inv: "dfs_inv g D start [] v (dfs g start D)" using assms(2) by (auto simp: dfs_def)
  have "card (set (idx_to_id g)) \<le> length (idx_to_id g)" by (rule card_length)
  then show ?thesis
    using dfs_invD(2)[OF inv] dfs_invD(4)[OF inv] dfs_inv_complete[OF inv] by fastforce
qed

theorem dfs_correct_witness:
  "dfs sample_graph (MemoryId 1) 2 = [(MemoryId 1, 0), (MemoryId 2, 1)]
   \<and> walk sample_graph (\<lambda>_. True) (MemoryId 1) 1 (MemoryId 2)"
proof -
  have "dfs sample_graph (MemoryId 1) 2 = [(MemoryId 1, 0), (MemoryId 2, 1)]"
    by (simp add: dfs_def sample_get_idx sample_outgoing)
  then show ?thesis
    using dfs_correct[OF sample_reach sample_get_idx(1), of 2 "MemoryId 2" 1] by simp
qed

text \<open>\<open>extract_subgraph\<close> returns the induced subgraph: its nodes are those within the radius, and
  its edges are exactly the edges of the graph that join two of them, with every field kept.\<close>

theorem extract_subgraph_induced:
  "(n \<in> set (fst (extract_subgraph g c r))
      \<longleftrightarrow> get_idx g c \<noteq> None \<and> (\<exists>k \<le> r. walk g (\<lambda>_. True) c k n))
   \<and> (e \<in> set (snd (extract_subgraph g c r))
      \<longleftrightarrow> me_source e \<in> set (fst (extract_subgraph g c r)) \<and> me_target e \<in> set (fst (extract_subgraph g c r))
        \<and> (me_target e, from_memory_edge e) \<in> set (outgoing g (me_source e)))"
proof (rule conjI[OF extract_nodes])
  show "e \<in> set (snd (extract_subgraph g c r))
      \<longleftrightarrow> me_source e \<in> set (fst (extract_subgraph g c r)) \<and> me_target e \<in> set (fst (extract_subgraph g c r))
        \<and> (me_target e, from_memory_edge e) \<in> set (outgoing g (me_source e))"
    unfolding extract_edges by (auto simp: memory_edge_of_iff)
qed

text \<open>C2: \<open>shortest_path\<close> always returns. When it returns a path, the path starts and ends at the given
  nodes, follows edges of the graph and is as short as any walk between them; when it returns
  none, there is no walk.\<close>

theorem shortest_path_correct:
  assumes "graph_reach g"
  shows "case shortest_path g a b of
      None \<Rightarrow> False
    | Some None \<Rightarrow> (\<nexists>d. walk g (\<lambda>_. True) a d b)
    | Some (Some p) \<Rightarrow> path_from g p \<and> hd p = a \<and> last p = b
        \<and> hops g (\<lambda>_. True) a b (length p - 1)"
proof -
  consider "a = b" | "a \<noteq> b" "get_idx g a = None \<or> get_idx g b = None"
    | "a \<noteq> b" "get_idx g a \<noteq> None" "get_idx g b \<noteq> None" by blast
  then show ?thesis
  proof cases
    case 1
    then show ?thesis by (auto simp: shortest_path_def hops_def intro: walk_start)
  next
    case 2
    have "\<not> walk g any_edge a d b" for d
      using walk_registered[OF graph_reach_inv[OF assms], of any_edge a d b]
        walk_unregistered[of g any_edge a d b] 2 by auto
    then show ?thesis using 2 by (simp add: shortest_path_def)
  next
    case 3
    note loop = sp_loop_correct[OF sp_inv_start[OF 3(1), of g]]
    show ?thesis
    proof (cases "sp_loop g b [a] {a} Map.empty")
      case None
      then show ?thesis using loop 3 by (simp add: shortest_path_def)
    next
      case (Some par)
      then have ok: "par_ok g a par" "b \<in> dom par" using loop by simp_all
      then obtain k where k: "hops g any_edge a b k" using par_okD(3)[OF ok(1)] by blast
      from sp_rebuild_ok[OF ok(1) k ok(2), of "[]"] Some 3 k show ?thesis
        by (auto simp: shortest_path_def)
    qed
  qed
qed

theorem shortest_path_correct_witness:
  "shortest_path sample_graph (MemoryId 1) (MemoryId 2) = Some (Some [MemoryId 1, MemoryId 2])
   \<and> hops sample_graph (\<lambda>_. True) (MemoryId 1) (MemoryId 2) 1"
proof -
  have "shortest_path sample_graph (MemoryId 1) (MemoryId 2) = Some (Some [MemoryId 1, MemoryId 2])"
    by (simp add: shortest_path_def sample_get_idx sample_outgoing sp_rebuild.simps)
  then show ?thesis
    using shortest_path_correct[OF sample_reach, of "MemoryId 1" "MemoryId 2"] by simp
qed

end
