(* ===== verification/Graph_Belief.thy ===== *)
theory Graph_Belief
  imports Graph_Traversal
begin

text \<open>
  Belief propagation, \<open>crates/mentedb-graph/src/belief.rs\<close>: a breadth-first pass that carries a
  confidence along causal, supporting, contradicting and superseding edges. The source returns the
  entries of a hash map in no particular order; the model returns the map.
\<close>

record PropagationConfig =
  pc_max_depth :: nat
  pc_caused_dampening :: f32
  pc_supports_factor :: f32
  pc_contradicts_factor :: f32
  pc_supersedes_floor :: f32

definition propagation_default :: PropagationConfig where
  "propagation_default = \<lparr> pc_max_depth = 5, pc_caused_dampening = f32_of (9/10),
     pc_supports_factor = Fin (1/2), pc_contradicts_factor = f32_of (7/10),
     pc_supersedes_floor = f32_of (1/10) \<rparr>"

text \<open>\<open>clamp(0.0, 1.0)\<close>, whose bounds are ordered.\<close>

definition clamp_unit :: "f32 \<Rightarrow> f32" where
  "clamp_unit x = (if fl_lt x (Fin 0) then Fin 0 else if fl_lt (Fin 1) x then Fin 1 else x)"

lemma clamp_unit_is_clamp: "fl_clamp (Fin 0) (Fin 1) x = Ok (clamp_unit x)"
  by (simp add: fl_clamp_def clamp_unit_def)

text \<open>The confidence an edge gives its target; \<open>None\<close> is the \<open>continue\<close> of the other types.\<close>

definition edge_confidence :: "PropagationConfig \<Rightarrow> (MemoryId \<rightharpoonup> f32) \<Rightarrow> f32 \<Rightarrow> MemoryId \<Rightarrow> StoredEdge
    \<Rightarrow> f32 option" where
  "edge_confidence cfg conf node_conf neighbor e =
     (let current = (case conf neighbor of None \<Rightarrow> Fin 1 | Some c \<Rightarrow> c); w = se_weight e in
      case se_edge_type e of
        Caused \<Rightarrow> Some (fl_mul f32_of (fl_mul f32_of node_conf w) (pc_caused_dampening cfg))
      | Supports \<Rightarrow>
          let delta = fl_sub f32_of node_conf (Fin 1)
          in Some (clamp_unit (fl_add f32_of current
               (fl_mul f32_of (fl_mul f32_of delta w) (pc_supports_factor cfg))))
      | Contradicts \<Rightarrow>
          Some (clamp_unit (fl_sub f32_of current
            (fl_mul f32_of (fl_mul f32_of node_conf w) (pc_contradicts_factor cfg))))
      | Supersedes \<Rightarrow> Some (fl_min current (fl_mul f32_of node_conf (pc_supersedes_floor cfg)))
      | _ \<Rightarrow> None)"

fun prop_visit :: "PropagationConfig \<Rightarrow> f32 \<Rightarrow> nat \<Rightarrow> (MemoryId \<times> StoredEdge) list
    \<Rightarrow> (MemoryId \<rightharpoonup> f32) \<Rightarrow> MemoryId set \<Rightarrow> (MemoryId \<times> f32 \<times> nat) list
    \<Rightarrow> (MemoryId \<rightharpoonup> f32) \<times> MemoryId set \<times> (MemoryId \<times> f32 \<times> nat) list" where
  "prop_visit cfg node_conf depth [] conf visited queue = (conf, visited, queue)"
| "prop_visit cfg node_conf depth ((neighbor, e) # es) conf visited queue =
     (case edge_confidence cfg conf node_conf neighbor e of
        None \<Rightarrow> prop_visit cfg node_conf depth es conf visited queue
      | Some c \<Rightarrow>
          if neighbor \<notin> visited
          then prop_visit cfg node_conf depth es (conf(neighbor \<mapsto> c)) (insert neighbor visited)
                 (queue @ [(neighbor, c, depth + 1)])
          else prop_visit cfg node_conf depth es (conf(neighbor \<mapsto> c)) visited queue)"

text \<open>The edges that carry belief.\<close>

definition propagates :: "StoredEdge \<Rightarrow> bool" where
  "propagates e \<longleftrightarrow> se_edge_type e \<in> {Caused, Supports, Contradicts, Supersedes}"

lemma edge_confidence_None: "edge_confidence cfg conf c n e = None \<longleftrightarrow> \<not> propagates e"
  by (cases "se_edge_type e") (simp_all add: edge_confidence_def propagates_def Let_def)

text \<open>Forgetting the confidences, the pass is that of breadth-first search.\<close>

abbreviation untagged :: "(MemoryId \<times> f32 \<times> nat) list \<Rightarrow> (MemoryId \<times> nat) list" where
  "untagged \<equiv> map (\<lambda>x. (fst x, snd (snd x)))"

lemma prop_visit_bfs:
  "prop_visit cfg c d es conf vis q = (conf', vis', q') \<Longrightarrow>
     bfs_visit propagates d es vis (untagged q) = (vis', untagged q')
     \<and> dom conf' = dom conf \<union> {n. \<exists>e. (n, e) \<in> set es \<and> propagates e}"
proof (induction cfg c d es conf vis q rule: prop_visit.induct)
  case (2 cfg c d n e es conf vis q)
  show ?case
  proof (cases "propagates e")
    case True
    then obtain x where x: "edge_confidence cfg conf c n e = Some x"
      using edge_confidence_None[of cfg conf c n e] by auto
    show ?thesis
      using True x 2 by (cases "n \<in> vis") (auto simp del: fun_upd_apply)
  next
    case False
    then have "edge_confidence cfg conf c n e = None" by (simp add: edge_confidence_None)
    then show ?thesis using False 2 by auto
  qed
qed auto

lemma prop_visit_fresh:
  assumes "prop_visit cfg c d es conf vis q = (conf', vis', q')"
  shows "vis' = vis \<union> set (fresh propagates es vis)"
    and "untagged q' = untagged q @ map (\<lambda>n. (n, Suc d)) (fresh propagates es vis)"
    and "length q' = length q + length (fresh propagates es vis)"
    and "dom conf' = dom conf \<union> {n. \<exists>e. (n, e) \<in> set es \<and> propagates e}"
proof -
  have b: "bfs_visit propagates d es vis (untagged q) = (vis', untagged q')"
    and "dom conf' = dom conf \<union> {n. \<exists>e. (n, e) \<in> set es \<and> propagates e}"
    using prop_visit_bfs[OF assms] by blast+
  then show "dom conf' = dom conf \<union> {n. \<exists>e. (n, e) \<in> set es \<and> propagates e}" by simp
  show "vis' = vis \<union> set (fresh propagates es vis)"
    and q: "untagged q' = untagged q @ map (\<lambda>n. (n, Suc d)) (fresh propagates es vis)"
    using b unfolding bfs_visit_fresh by simp_all
  show "length q' = length q + length (fresh propagates es vis)"
    using arg_cong[OF q, of length] by simp
qed

function prop_loop :: "CsrGraph \<Rightarrow> PropagationConfig \<Rightarrow> (MemoryId \<rightharpoonup> f32) \<Rightarrow> MemoryId set
    \<Rightarrow> (MemoryId \<times> f32 \<times> nat) list \<Rightarrow> (MemoryId \<rightharpoonup> f32)" where
  "prop_loop g cfg conf visited [] = conf"
| "prop_loop g cfg conf visited ((node, node_conf, depth) # queue) =
     (if depth \<ge> pc_max_depth cfg then prop_loop g cfg conf visited queue
      else let (conf', visited', queue') =
             prop_visit cfg node_conf depth (outgoing g node) conf visited queue
           in prop_loop g cfg conf' visited' queue')"
  by pat_completeness auto
termination
proof (relation "measure (\<lambda>(g, cfg, c, v, q). 2 * card (set (idx_to_id g) - v) + length q)", goal_cases)
  case (3 g cfg conf visited node node_conf depth queue r conf' r' visited' queue')
  then have "prop_visit cfg node_conf depth (outgoing g node) conf visited queue = (conf', visited', queue')"
    by simp
  from prop_visit_fresh[OF this] show ?case using fresh_measure[of g visited propagates node] by simp
qed auto

definition propagate_update_with_config ::
  "CsrGraph \<Rightarrow> MemoryId \<Rightarrow> f32 \<Rightarrow> PropagationConfig \<Rightarrow> (MemoryId \<rightharpoonup> f32)" where
  "propagate_update_with_config g changed_id new_confidence cfg =
     (case get_idx g changed_id of None \<Rightarrow> Map.empty
      | Some _ \<Rightarrow> prop_loop g cfg [changed_id \<mapsto> new_confidence] {changed_id}
                   [(changed_id, new_confidence, 0)])"

definition propagate_update :: "CsrGraph \<Rightarrow> MemoryId \<Rightarrow> f32 \<Rightarrow> (MemoryId \<rightharpoonup> f32)" where
  "propagate_update g changed_id new_confidence =
     propagate_update_with_config g changed_id new_confidence propagation_default"

section \<open>Which nodes are affected\<close>

lemma prop_loop_dom:
  assumes "dom conf = visited" "visited = fst ` set (result @ untagged queue)"
  shows "dom (prop_loop g cfg conf visited queue)
    = fst ` set (bfs_loop g propagates (pc_max_depth cfg) (untagged queue) visited result)"
  using assms
proof (induction g cfg conf visited queue arbitrary: result rule: prop_loop.induct)
  case (2 g cfg conf visited node c depth queue)
  show ?case
  proof (cases "pc_max_depth cfg \<le> depth")
    case True
    have "dom (prop_loop g cfg conf visited queue) = fst ` set (bfs_loop g propagates (pc_max_depth cfg)
        (untagged queue) visited (result @ [(node, depth)]))"
      by (rule "2.IH"(1)[OF True "2.prems"(1)]) (use "2.prems"(2) in auto)
    then show ?thesis using True by simp
  next
    case False
    obtain conf' vis' q' where pv: "prop_visit cfg c depth (outgoing g node) conf visited queue = (conf', vis', q')"
      by (metis prod_cases3)
    note bv = prop_visit_fresh[OF pv]
    let ?F = "fresh propagates (outgoing g node) visited"
    have d: "dom conf' = vis'" using bv(1,4) "2.prems"(1) by (auto simp: set_fresh)
    have v: "vis' = fst ` set ((result @ [(node, depth)]) @ untagged q')"
      unfolding bv(1,2) "2.prems"(2) by (simp add: image_Un image_image Un_ac)
    have "dom (prop_loop g cfg conf' vis' q') = fst ` set (bfs_loop g propagates (pc_max_depth cfg)
        (untagged q') vis' (result @ [(node, depth)]))"
      by (rule "2.IH"(2)[OF False pv[symmetric] refl refl d v])
    then show ?thesis using False pv bv(1,2) by (simp add: bfs_visit_fresh)
  qed
qed simp

section \<open>Confidences stay in the unit interval\<close>

lemma in_unit_clamp: "x \<noteq> NaN \<Longrightarrow> in_unit (clamp_unit x)"
  by (cases x) (auto simp: clamp_unit_def)

definition config_unit :: "PropagationConfig \<Rightarrow> bool" where
  "config_unit cfg \<longleftrightarrow> in_unit (pc_caused_dampening cfg) \<and> in_unit (pc_supports_factor cfg)
     \<and> in_unit (pc_contradicts_factor cfg) \<and> in_unit (pc_supersedes_floor cfg)"

lemma default_config_unit: "config_unit propagation_default"
  by (simp add: config_unit_def propagation_default_def f32_of_unit)

lemma f32_of_neg_unit:
  assumes "- 1 \<le> a" "a \<le> 0"
  shows "\<exists>b. f32_of a = Fin b \<and> - 1 \<le> b \<and> b \<le> 0"
proof -
  have "in_unit (Fin (rnd 24 (-149) (- a)))"
    using assms to_fl_unit[of "- a" 24 "-149" 128] by auto
  then have "- 1 \<le> rnd 24 (-149) a" "rnd 24 (-149) a \<le> 0" by (simp_all add: rnd_minus)
  moreover have "(1::rat) < 2 powi 128" by (simp add: power_int_def)
  ultimately show ?thesis by (simp add: f32_of_def to_fl_def Let_def)
qed

lemma support_term_finite:
  assumes "in_unit c" "in_unit w" "in_unit f"
  shows "fl_mul f32_of (fl_mul f32_of (fl_sub f32_of c (Fin 1)) w) f \<noteq> NaN"
proof -
  obtain r u v where r: "c = Fin r" "0 \<le> r" "r \<le> 1" and u: "w = Fin u" "0 \<le> u" "u \<le> 1"
    and v: "f = Fin v" using assms by (auto simp: in_unit_iff)
  obtain d where d: "f32_of (r - 1) = Fin d" "- 1 \<le> d" "d \<le> 0"
    using f32_of_neg_unit[of "r - 1"] r by auto
  have "- 1 \<le> d * u" using mult_mono[of "- d" 1 u 1] d u by simp
  then obtain e where "f32_of (d * u) = Fin e"
    using f32_of_neg_unit[of "d * u"] d u by (auto simp: mult_le_0_iff)
  then show ?thesis using r u v d by (simp add: fl_sub_def)
qed

lemma edge_confidence_unit:
  assumes cfg: "config_unit cfg" and c: "in_unit c" and w: "in_unit (se_weight e)"
    and conf: "ran conf \<subseteq> Collect in_unit" and v: "edge_confidence cfg conf c n e = Some v"
  shows "in_unit v"
proof -
  let ?cur = "case conf n of None \<Rightarrow> Fin 1 | Some c \<Rightarrow> c"
  have cur: "in_unit ?cur" using conf by (auto simp: ran_def split: option.splits)
  then obtain r where r: "?cur = Fin r" by (auto simp: in_unit_iff)
  have add: "x \<noteq> NaN \<Longrightarrow> fl_add f32_of (Fin r) x \<noteq> NaN" for x by (cases x) auto
  have "fl_mul f32_of (fl_mul f32_of (fl_sub f32_of c (Fin 1)) (se_weight e)) (pc_supports_factor cfg) \<noteq> NaN"
    using support_term_finite cfg c w by (simp add: config_unit_def)
  moreover have "in_unit (fl_mul f32_of (fl_mul f32_of c (se_weight e)) (pc_contradicts_factor cfg))"
    using cfg c w by (intro in_unit_mul_f32) (simp_all add: config_unit_def)
  then have "fl_neg (fl_mul f32_of (fl_mul f32_of c (se_weight e)) (pc_contradicts_factor cfg)) \<noteq> NaN"
    by (auto simp: in_unit_iff)
  moreover have "in_unit (fl_mul f32_of (fl_mul f32_of c (se_weight e)) (pc_caused_dampening cfg))"
      "in_unit (fl_min ?cur (fl_mul f32_of c (pc_supersedes_floor cfg)))"
    using cfg c w cur by (intro in_unit_mul_f32 in_unit_min; simp add: config_unit_def)+
  ultimately show ?thesis
    using v add unfolding edge_confidence_def Let_def r fl_sub_def[of _ "Fin r"]
    by (cases "se_edge_type e") (auto intro: in_unit_clamp)
qed

lemma prop_visit_unit:
  assumes "config_unit cfg" "in_unit c" "\<forall>x \<in> set es. in_unit (se_weight (snd x))"
    "ran conf \<subseteq> Collect in_unit" "\<forall>x \<in> set q. in_unit (fst (snd x))"
    "prop_visit cfg c d es conf vis q = (conf', vis', q')"
  shows "ran conf' \<subseteq> Collect in_unit \<and> (\<forall>x \<in> set q'. in_unit (fst (snd x)))"
  using assms
proof (induction cfg c d es conf vis q rule: prop_visit.induct)
  case (2 cfg c d n e es conf vis q)
  have es: "\<forall>x \<in> set es. in_unit (se_weight (snd x))" using "2.prems"(3) by simp
  show ?case
  proof (cases "edge_confidence cfg conf c n e")
    case None
    then show ?thesis using "2.IH"(1)[OF None "2.prems"(1,2) es "2.prems"(4,5)] "2.prems"(6) by simp
  next
    case (Some v)
    have v: "in_unit v" using edge_confidence_unit[OF "2.prems"(1,2) _ "2.prems"(4) Some] "2.prems"(3) by simp
    then have ran: "ran (conf(n \<mapsto> v)) \<subseteq> Collect in_unit"
      using "2.prems"(4) by (auto simp: ran_def)
    show ?thesis
    proof (cases "n \<in> vis")
      case True
      then show ?thesis
        using "2.IH"(3)[OF Some _ "2.prems"(1,2) es ran "2.prems"(5)] "2.prems"(6) Some
        by (simp del: fun_upd_apply)
    next
      case False
      have "\<forall>x \<in> set (q @ [(n, v, d + 1)]). in_unit (fst (snd x))" using "2.prems"(5) v by simp
      from "2.IH"(2)[OF Some False "2.prems"(1,2) es ran this] show ?thesis
        using "2.prems"(6) Some False by (simp del: fun_upd_apply)
    qed
  qed
qed simp

lemma prop_loop_unit:
  assumes "config_unit cfg" "\<And>s t e. (t, e) \<in> set (outgoing g s) \<Longrightarrow> in_unit (se_weight e)"
    "ran conf \<subseteq> Collect in_unit" "\<forall>x \<in> set q. in_unit (fst (snd x))"
  shows "ran (prop_loop g cfg conf vis q) \<subseteq> Collect in_unit"
  using assms
proof (induction g cfg conf vis q rule: prop_loop.induct)
  case (2 g cfg conf vis node c depth queue)
  obtain conf' vis' q' where pv: "prop_visit cfg c depth (outgoing g node) conf vis queue = (conf', vis', q')"
    by (metis prod_cases3)
  have "ran conf' \<subseteq> Collect in_unit \<and> (\<forall>x \<in> set q'. in_unit (fst (snd x)))"
    by (rule prop_visit_unit[OF _ _ _ _ _ pv]) (use "2.prems" in auto)
  then show ?case
    using "2.IH"(1) "2.IH"(2)[OF _ pv[symmetric] refl refl] "2.prems" pv
    by (cases "pc_max_depth cfg \<le> depth") simp_all
qed simp

section \<open>Properties\<close>

text \<open>C33: Propagation from a registered node reaches exactly the nodes within \<open>max_depth\<close> hops along
  edges that carry belief, the changed node included, and always ends; from an unregistered one it returns
  nothing.\<close>

theorem propagate_affected:
  "dom (propagate_update_with_config g s c cfg)
    = {n. get_idx g s \<noteq> None \<and> (\<exists>k \<le> pc_max_depth cfg. walk g propagates s k n)}"
proof (cases "get_idx g s")
  case None
  then show ?thesis by (simp add: propagate_update_with_config_def)
next
  case (Some i)
  have "dom (prop_loop g cfg [s \<mapsto> c] {s} [(s, c, 0)])
      = fst ` set (bfs_loop g propagates (pc_max_depth cfg) (untagged [(s, c, 0)]) {s} [])"
    by (rule prop_loop_dom) auto
  also have "\<dots> = {n. \<exists>k \<le> pc_max_depth cfg. hops g propagates s n k}"
    using bfs_loop_spec(3)[where g = g and P = propagates and D = "pc_max_depth cfg" and s = s]
    by (force simp del: bfs_loop.simps)
  also have "\<dots> = {n. \<exists>k \<le> pc_max_depth cfg. walk g propagates s k n}"
    by (simp add: within_hops)
  finally show ?thesis using Some by (simp add: propagate_update_with_config_def)
qed

text \<open>C34: With factors, edge weights and the new confidence in the unit interval, every confidence
  that propagation computes in single precision is a number in the unit interval: no rounding, subtraction or
  cancellation leaves it, and none is NaN.\<close>

theorem propagate_confidences_unit:
  assumes "config_unit cfg" "in_unit c"
    and "\<forall>s t e. (t, e) \<in> set (outgoing g s) \<longrightarrow> in_unit (se_weight e)"
    and "propagate_update_with_config g changed c cfg n = Some v"
  shows "in_unit v"
proof -
  have "ran (prop_loop g cfg [changed \<mapsto> c] {changed} [(changed, c, 0)]) \<subseteq> Collect in_unit"
    by (rule prop_loop_unit) (use assms in \<open>auto simp: ran_def\<close>)
  then show ?thesis
    using assms(4) by (auto simp: propagate_update_with_config_def ran_def split: option.splits)
qed

lemma sample_weights:
  "(t, e) \<in> set (outgoing sample_graph s) \<Longrightarrow> in_unit (se_weight e)"
  by (cases "s = MemoryId 1")
    (auto simp: sample_outgoing from_memory_edge_def sample_edge_def, auto simp: sample_simps Let_def split: if_splits)

theorem propagate_confidences_unit_witness:
  "propagate_update_with_config sample_graph (MemoryId 1) (Fin (1/2)) propagation_default (MemoryId 2)
     = Some (Fin (7/8)) \<and> in_unit (Fin (7/8))"
proof -
  have ev: "edge_confidence propagation_default [MemoryId 1 \<mapsto> Fin (1/2)] (Fin (1/2)) (MemoryId 2)
      (from_memory_edge (sample_edge 1 2 Supports)) = Some (Fin (7/8))"
    by code_simp
  have "propagate_update_with_config sample_graph (MemoryId 1) (Fin (1/2)) propagation_default (MemoryId 2)
     = Some (Fin (7/8))"
    by (simp add: propagate_update_with_config_def sample_get_idx sample_outgoing ev)
      (simp add: propagation_default_def sample_outgoing ev[unfolded propagation_default_def])
  then show ?thesis
    using propagate_confidences_unit[OF default_config_unit _ _, of "Fin (1/2)" sample_graph "MemoryId 1"]
      sample_weights by auto
qed

lemma prop_visit_keeps:
  "prop_visit cfg c d es conf vis q = (conf', vis', q') \<Longrightarrow> \<forall>e. (n, e) \<in> set es \<longrightarrow> \<not> propagates e
     \<Longrightarrow> conf' n = conf n"
proof (induction cfg c d es conf vis q rule: prop_visit.induct)
  case (2 cfg c d m e es conf vis q)
  have rest: "\<forall>e. (n, e) \<in> set es \<longrightarrow> \<not> propagates e" using "2.prems"(2) by simp
  show ?case
  proof (cases "edge_confidence cfg conf c m e")
    case None
    then show ?thesis using "2.IH"(1)[OF None _ rest] "2.prems"(1) by simp
  next
    case (Some v)
    then have "propagates e" using edge_confidence_None[of cfg conf c m e] by auto
    then have "(conf(m \<mapsto> v)) n = conf n" using "2.prems"(2) by auto
    then show ?thesis
      using "2.IH"(2)[OF Some _ _ rest] "2.IH"(3)[OF Some _ _ rest] "2.prems"(1) Some
      by (cases "m \<in> vis") (auto simp del: fun_upd_apply)
  qed
qed simp

lemma prop_loop_keeps:
  "\<forall>m e. (n, e) \<in> set (outgoing g m) \<longrightarrow> \<not> propagates e \<Longrightarrow> prop_loop g cfg conf vis q n = conf n"
proof (induction g cfg conf vis q rule: prop_loop.induct)
  case (2 g cfg conf vis node c depth queue)
  obtain conf' vis' q' where pv: "prop_visit cfg c depth (outgoing g node) conf vis queue = (conf', vis', q')"
    by (metis prod_cases3)
  then show ?case
    using "2.IH"(1)[OF _ "2.prems"] "2.IH"(2)[OF _ pv[symmetric] refl refl "2.prems"]
      prop_visit_keeps[OF pv] "2.prems" by (cases "pc_max_depth cfg \<le> depth") auto
qed simp

text \<open>The changed node keeps the new confidence when no edge that carries belief leads
  back to it.\<close>

theorem propagate_start_kept:
  assumes "get_idx g s \<noteq> None" "\<forall>n e. (s, e) \<in> set (outgoing g n) \<longrightarrow> \<not> propagates e"
  shows "propagate_update_with_config g s c cfg s = Some c"
  using assms(1) prop_loop_keeps[OF assms(2)]
  by (auto simp: propagate_update_with_config_def simp del: prop_loop.simps)

theorem propagate_start_kept_witness:
  "propagate_update_with_config sample_graph (MemoryId 1) (Fin 0) propagation_default (MemoryId 1) = Some (Fin 0)"
proof (rule propagate_start_kept)
  show "\<forall>n e. (MemoryId 1, e) \<in> set (outgoing sample_graph n) \<longrightarrow> \<not> propagates e"
    by (auto simp: sample_simps Let_def split: if_splits)
qed (simp add: sample_get_idx)

text \<open>
  A cycle overwrites it: with node 1 supporting node 2 and node 2 causing node 1, setting node 1
  to 0 makes the result name another value for node 1, although the documentation of
  \<open>propagate_update\<close> promises the given one.
\<close>

definition cycle_graph :: CsrGraph where
  "cycle_graph = add_edge sample_graph (sample_edge 2 1 Caused)"

lemma cycle_simps:
  "get_idx cycle_graph (MemoryId 1) = Some 0"
  "outgoing cycle_graph (MemoryId 1) = [(MemoryId 2, from_memory_edge (sample_edge 1 2 Supports))]"
  "outgoing cycle_graph (MemoryId 2) = [(MemoryId 1, from_memory_edge (sample_edge 2 1 Caused))]"
  by (simp_all add: cycle_graph_def sample_simps get_idx_def Let_def)

lemma cycle_confidences:
  "edge_confidence propagation_default [MemoryId 1 \<mapsto> Fin 0] (Fin 0) (MemoryId 2)
     (from_memory_edge (sample_edge 1 2 Supports)) = Some (Fin (3/4))"
  "\<exists>v. edge_confidence propagation_default [MemoryId 1 \<mapsto> Fin 0, MemoryId 2 \<mapsto> Fin (3/4)] (Fin (3/4)) (MemoryId 1)
     (from_memory_edge (sample_edge 2 1 Caused)) = Some v \<and> v \<noteq> Fin 0"
proof -
  show "edge_confidence propagation_default [MemoryId 1 \<mapsto> Fin 0] (Fin 0) (MemoryId 2)
     (from_memory_edge (sample_edge 1 2 Supports)) = Some (Fin (3/4))" by code_simp
  have "(case edge_confidence propagation_default [MemoryId 1 \<mapsto> Fin 0, MemoryId 2 \<mapsto> Fin (3/4)] (Fin (3/4))
     (MemoryId 1) (from_memory_edge (sample_edge 2 1 Caused)) of None \<Rightarrow> False | Some v \<Rightarrow> v \<noteq> Fin 0)"
    by code_simp
  then show "\<exists>v. edge_confidence propagation_default [MemoryId 1 \<mapsto> Fin 0, MemoryId 2 \<mapsto> Fin (3/4)] (Fin (3/4)) (MemoryId 1)
     (from_memory_edge (sample_edge 2 1 Caused)) = Some v \<and> v \<noteq> Fin 0"
    by (auto split: option.splits)
qed

lemma propagate_cycle_overwrites:
  "propagate_update cycle_graph (MemoryId 1) (Fin 0) (MemoryId 1) \<noteq> Some (Fin 0)"
proof -
  obtain v where v: "edge_confidence propagation_default [MemoryId 1 \<mapsto> Fin 0, MemoryId 2 \<mapsto> Fin (3/4)] (Fin (3/4))
     (MemoryId 1) (from_memory_edge (sample_edge 2 1 Caused)) = Some v" "v \<noteq> Fin 0"
    using cycle_confidences(2) by blast
  have depth: "pc_max_depth propagation_default = 5" by (simp add: propagation_default_def)
  show ?thesis
    using v by (simp add: propagate_update_def propagate_update_with_config_def cycle_simps
        cycle_confidences(1) depth del: fun_upd_apply) simp
qed

end
