(* ===== verification/Graph_Contradiction.thy ===== *)
theory Graph_Contradiction
  imports Graph_Traversal
begin

text \<open>
  Contradictions, superseded nodes and cycles: \<open>crates/mentedb-graph/src/contradiction.rs\<close>.
  \<open>find_contradictions\<close> collects into a hash set and returns it in no particular order; the model
  returns the set.
\<close>

section \<open>Contradictions\<close>

text \<open>The loops over the direct \<open>Contradicts\<close> edges fill both sets.\<close>

fun fc_direct :: "(MemoryId \<times> StoredEdge) list \<Rightarrow> MemoryId set \<Rightarrow> MemoryId set \<Rightarrow> MemoryId set \<times> MemoryId set" where
  "fc_direct [] contradictions visited = (contradictions, visited)"
| "fc_direct ((neighbor, e) # es) contradictions visited =
     (if se_edge_type e = Contradicts
      then fc_direct es (insert neighbor contradictions) (insert neighbor visited)
      else fc_direct es contradictions visited)"

fun fc_targets :: "(MemoryId \<Rightarrow> bool) \<Rightarrow> (MemoryId \<times> StoredEdge) list \<Rightarrow> MemoryId set \<Rightarrow> MemoryId set" where
  "fc_targets P [] contradictions = contradictions"
| "fc_targets P ((target, e2) # es) contradictions =
     (if se_edge_type e2 = Contradicts \<and> P target then fc_targets P es (insert target contradictions)
      else fc_targets P es contradictions)"

fun fc_supports :: "CsrGraph \<Rightarrow> (MemoryId \<Rightarrow> bool) \<Rightarrow> (MemoryId \<times> StoredEdge) list \<Rightarrow> MemoryId set
    \<Rightarrow> MemoryId set \<Rightarrow> MemoryId set \<times> MemoryId set" where
  "fc_supports g P [] contradictions visited = (contradictions, visited)"
| "fc_supports g P ((supporter, e) # es) contradictions visited =
     (if se_edge_type e = Supports \<and> supporter \<notin> visited
      then fc_supports g P es (fc_targets P (outgoing g supporter) contradictions) (insert supporter visited)
      else fc_supports g P es contradictions visited)"

fun fc_loop :: "CsrGraph \<Rightarrow> MemoryId \<Rightarrow> MemoryId list \<Rightarrow> MemoryId set \<Rightarrow> MemoryId set \<Rightarrow> MemoryId set" where
  "fc_loop g i [] contradictions visited = contradictions"
| "fc_loop g i (node # queue) contradictions visited =
     (let (c1, v1) = fc_supports g (\<lambda>t. t \<noteq> i) (incoming g node) contradictions visited;
          (c2, v2) = fc_supports g (\<lambda>t. True) (outgoing g node) c1 v1
      in fc_loop g i queue c2 v2)"

definition find_contradictions :: "CsrGraph \<Rightarrow> MemoryId \<Rightarrow> MemoryId set" where
  "find_contradictions g i =
     (let (c1, v1) = fc_direct (outgoing g i) {} {i};
          (c2, v2) = fc_direct (incoming g i) c1 v1
      in fc_loop g i [i] c2 v2)"

text \<open>The neighbours of an edge list along one type.\<close>

definition along :: "EdgeType \<Rightarrow> (MemoryId \<times> StoredEdge) list \<Rightarrow> MemoryId set" where
  "along ty es = {n. \<exists>e. (n, e) \<in> set es \<and> se_edge_type e = ty}"

lemma along_Cons: "along ty ((n, e) # es) = (if se_edge_type e = ty then insert n (along ty es) else along ty es)"
  by (auto simp: along_def)

lemma fc_direct_eq: "fc_direct es c v = (c \<union> along Contradicts es, v \<union> along Contradicts es)"
  by (induction es c v rule: fc_direct.induct) (auto simp: along_Cons, auto simp: along_def)

lemma fc_targets_eq: "fc_targets P es c = c \<union> {t \<in> along Contradicts es. P t}"
  by (induction P es c rule: fc_targets.induct) (auto simp: along_Cons, auto simp: along_def)

lemma fc_supports_eq:
  "fc_supports g P es c v =
     (c \<union> (\<Union>s \<in> along Supports es - v. {t \<in> along Contradicts (outgoing g s). P t}), v \<union> along Supports es)"
proof (induction g P es c v rule: fc_supports.induct)
  case (2 g P s e es c v)
  then show ?case by (auto simp: along_Cons fc_targets_eq)
qed (simp add: along_def)

section \<open>Superseded nodes\<close>

function fs_loop :: "CsrGraph \<Rightarrow> MemoryId list \<Rightarrow> MemoryId set \<Rightarrow> MemoryId list \<Rightarrow> MemoryId list" where
  "fs_loop g [] visited result = result"
| "fs_loop g (node # queue) visited result =
     (let found = fresh (\<lambda>e. se_edge_type e = Supersedes) (outgoing g node) visited
      in fs_loop g (queue @ found) (visited \<union> set found) (result @ found))"
  by pat_completeness auto
termination
proof (relation "measure (\<lambda>(g, q, v, r). 2 * card (set (idx_to_id g) - v) + length q)", goal_cases)
  case (2 g node queue visited result found)
  then show ?case using fresh_measure[of g visited "\<lambda>e. se_edge_type e = Supersedes" node] by simp
qed simp

definition find_superseded :: "CsrGraph \<Rightarrow> MemoryId \<Rightarrow> MemoryId list" where
  "find_superseded g i = fs_loop g [i] {i} []"

definition fs_inv :: "CsrGraph \<Rightarrow> MemoryId \<Rightarrow> MemoryId list \<Rightarrow> MemoryId set \<Rightarrow> MemoryId list \<Rightarrow> bool" where
  "fs_inv g i queue visited result \<longleftrightarrow>
     visited = insert i (set result) \<and> distinct (i # result) \<and> set queue \<subseteq> visited
     \<and> (\<forall>n \<in> visited. \<exists>d. walk g (\<lambda>e. se_edge_type e = Supersedes) i d n)
     \<and> (\<forall>n \<in> visited - set queue. along Supersedes (outgoing g n) \<subseteq> visited)"

lemma fs_invD:
  assumes "fs_inv g i queue visited result"
  shows "visited = insert i (set result)" "distinct (i # result)" "set queue \<subseteq> visited"
    "n \<in> visited \<Longrightarrow> \<exists>d. walk g (\<lambda>e. se_edge_type e = Supersedes) i d n"
    "n \<in> visited \<Longrightarrow> n \<notin> set queue \<Longrightarrow> along Supersedes (outgoing g n) \<subseteq> visited"
  using assms unfolding fs_inv_def by blast+

lemma fs_inv_step:
  assumes inv: "fs_inv g i (node # queue) visited result"
    and F: "F = fresh (\<lambda>e. se_edge_type e = Supersedes) (outgoing g node) visited"
  shows "fs_inv g i (queue @ F) (visited \<union> set F) (result @ F)"
proof -
  have setF: "set F = along Supersedes (outgoing g node) - visited"
    by (auto simp: F set_fresh along_def)
  note D = fs_invD[OF inv]
  obtain d where d: "walk g (\<lambda>e. se_edge_type e = Supersedes) i d node" using D(3) D(4)[of node] by auto
  have "visited \<union> set F = insert i (set (result @ F))" using D(1) by simp
  moreover have "set (queue @ F) \<subseteq> visited \<union> set F" using D(3) by auto
  moreover have "\<exists>d. walk g (\<lambda>e. se_edge_type e = Supersedes) i d n" if "n \<in> visited \<union> set F" for n
    using that D(4)[of n] walk_step[OF d, of n] unfolding setF by (auto simp: along_def)
  moreover have "distinct (i # result @ F)"
    using D(1,2) setF distinct_fresh[of "\<lambda>e. se_edge_type e = Supersedes" "outgoing g node" visited]
    unfolding F by auto
  moreover have "along Supersedes (outgoing g n) \<subseteq> visited \<union> set F"
    if "n \<in> (visited \<union> set F) - set (queue @ F)" for n
    using that D(5)[of n] setF by (cases "n = node") auto
  ultimately show ?thesis unfolding fs_inv_def by blast
qed

lemma fs_loop_inv:
  "fs_inv g i queue visited result \<Longrightarrow> \<exists>v. fs_inv g i [] v (fs_loop g queue visited result)"
proof (induction g queue visited result rule: fs_loop.induct)
  case (2 g node queue visited result)
  then show ?case using fs_inv_step[OF "2.prems" refl] by (simp add: Let_def)
qed auto

section \<open>Cycles\<close>

text \<open>
  The neighbour loop of \<open>detect_cycles\<close>: a neighbour on the current path closes a cycle, whose
  nodes are the path from it on (\<open>path[pos..]\<close>); another new one is pushed with its path. The top of
  the stack is the head of the list.
\<close>

definition same_cycle :: "MemoryId list \<Rightarrow> MemoryId list \<Rightarrow> bool" where
  "same_cycle cycle c \<longleftrightarrow> length c = length cycle \<and> list_all (\<lambda>n. n \<in> set c) cycle"

fun dc_visit :: "EdgeType set \<Rightarrow> MemoryId list \<Rightarrow> (MemoryId \<times> StoredEdge) list \<Rightarrow> MemoryId list list
    \<Rightarrow> MemoryId set \<Rightarrow> (MemoryId \<times> MemoryId list) list
    \<Rightarrow> MemoryId list list \<times> MemoryId set \<times> (MemoryId \<times> MemoryId list) list" where
  "dc_visit flt path [] cycles lvis stack = (cycles, lvis, stack)"
| "dc_visit flt path ((neighbor, e) # es) cycles lvis stack =
     (if se_edge_type e \<notin> flt then dc_visit flt path es cycles lvis stack
      else if neighbor \<in> set path
        then let cycle = dropWhile (\<lambda>n. n \<noteq> neighbor) path
             in if list_ex (same_cycle cycle) cycles then dc_visit flt path es cycles lvis stack
                else dc_visit flt path es (cycles @ [cycle]) lvis stack
      else if neighbor \<notin> lvis
        then dc_visit flt path es cycles (insert neighbor lvis) ((neighbor, path @ [neighbor]) # stack)
      else dc_visit flt path es cycles lvis stack)"

lemma dc_visit_growth:
  assumes "dc_visit flt path es cycles lvis stack = (cycles', lvis', stack')"
    "finite N" "fst ` set es \<subseteq> N"
  shows "lvis \<subseteq> lvis' \<and> length stack' + card (N - lvis') = length stack + card (N - lvis)"
  using assms
proof (induction flt path es cycles lvis stack rule: dc_visit.induct)
  case (2 flt path n e es cycles lvis stack)
  have N: "fst ` set es \<subseteq> N" "n \<in> N" using "2.prems"(3) by auto
  consider "se_edge_type e \<notin> flt" | "se_edge_type e \<in> flt" "n \<in> set path"
    | "se_edge_type e \<in> flt" "n \<notin> set path" "n \<in> lvis"
    | "se_edge_type e \<in> flt" "n \<notin> set path" "n \<notin> lvis" by blast
  then show ?case
  proof cases
    case 4
    have "card (N - lvis) = Suc (card (N - insert n lvis))"
      using card_Suc_Diff1[of "N - lvis" n] "2.prems"(2) N(2) 4
      by (simp add: Diff_insert[symmetric])
    moreover have "dc_visit flt path es cycles (insert n lvis) ((n, path @ [n]) # stack) = (cycles', lvis', stack')"
      using "2.prems"(1) 4 by simp
    ultimately show ?thesis using "2.IH"(4)[OF _ 4(2,3) _ "2.prems"(2) N(1)] 4(1) by simp
  next
    case 2
    then show ?thesis
      using "2.IH"(2)[OF _ 2(2) refl _ _ "2.prems"(2) N(1)] "2.IH"(3)[OF _ 2(2) refl _ _ "2.prems"(2) N(1)]
        "2.prems"(1) by (simp add: Let_def split: if_splits)
  next
    case 1
    then show ?thesis using "2.IH"(1)[OF _ _ "2.prems"(2) N(1)] "2.prems"(1) by simp
  next
    case 3
    then show ?thesis using "2.IH"(5)[OF _ _ _ _ "2.prems"(2) N(1)] "2.prems"(1) by simp
  qed
qed auto

function dc_loop :: "CsrGraph \<Rightarrow> EdgeType set \<Rightarrow> MemoryId list list \<Rightarrow> MemoryId set \<Rightarrow> MemoryId set
    \<Rightarrow> (MemoryId \<times> MemoryId list) list \<Rightarrow> MemoryId list list \<times> MemoryId set" where
  "dc_loop g flt cycles gvis lvis [] = (cycles, gvis)"
| "dc_loop g flt cycles gvis lvis ((node, path) # stack) =
     (let (cycles', lvis', stack') = dc_visit flt path (outgoing g node) cycles lvis stack
      in dc_loop g flt cycles' (insert node gvis) lvis' stack')"
  by pat_completeness auto
termination
proof (relation "measure (\<lambda>(g, f, c, gv, lv, s). length s + card (set (idx_to_id g) - lv))", goal_cases)
  case (2 g flt cycles gvis lvis node path stack r cycles' r' lvis' stack')
  then have "dc_visit flt path (outgoing g node) cycles lvis stack = (cycles', lvis', stack')" by simp
  from dc_visit_growth[OF this, of "set (idx_to_id g)"] show ?case
    using outgoing_registered by fastforce
qed simp

fun dc_starts :: "CsrGraph \<Rightarrow> EdgeType set \<Rightarrow> MemoryId list \<Rightarrow> MemoryId list list \<Rightarrow> MemoryId set
    \<Rightarrow> MemoryId list list" where
  "dc_starts g flt [] cycles gvis = cycles"
| "dc_starts g flt (start_id # rest) cycles gvis =
     (if start_id \<in> gvis then dc_starts g flt rest cycles gvis
      else let (cycles', gvis') = dc_loop g flt cycles gvis {start_id} [(start_id, [start_id])]
           in dc_starts g flt rest cycles' gvis')"

definition detect_cycles :: "CsrGraph \<Rightarrow> EdgeType list \<Rightarrow> MemoryId list list" where
  "detect_cycles g edge_types = dc_starts g (set edge_types) (node_ids g) [] {}"

section \<open>Reported cycles are cycles\<close>

definition joined :: "CsrGraph \<Rightarrow> EdgeType set \<Rightarrow> MemoryId \<Rightarrow> MemoryId \<Rightarrow> bool" where
  "joined g flt a b \<longleftrightarrow> (\<exists>e. (b, e) \<in> set (outgoing g a) \<and> se_edge_type e \<in> flt)"

definition simple_path :: "CsrGraph \<Rightarrow> EdgeType set \<Rightarrow> MemoryId list \<Rightarrow> bool" where
  "simple_path g flt p \<longleftrightarrow> p \<noteq> [] \<and> distinct p \<and> successively (joined g flt) p"

definition is_cycle :: "CsrGraph \<Rightarrow> EdgeType set \<Rightarrow> MemoryId list \<Rightarrow> bool" where
  "is_cycle g flt c \<longleftrightarrow> simple_path g flt c \<and> joined g flt (last c) (hd c)"

lemma simple_path_snoc:
  "simple_path g flt p \<Longrightarrow> n \<notin> set p \<Longrightarrow> joined g flt (last p) n \<Longrightarrow> simple_path g flt (p @ [n])"
  by (auto simp: simple_path_def successively_append_iff)

lemma closing_cycle:
  assumes "simple_path g flt p" "n \<in> set p" "joined g flt (last p) n"
  shows "is_cycle g flt (dropWhile (\<lambda>m. m \<noteq> n) p)"
proof -
  let ?c = "dropWhile (\<lambda>m. m \<noteq> n) p"
  have split: "p = takeWhile (\<lambda>m. m \<noteq> n) p @ ?c" by simp
  have ne: "?c \<noteq> []" using assms(2) by (simp add: dropWhile_eq_Nil_conv)
  then have "hd ?c = n" using hd_dropWhile by blast
  moreover have "last ?c = last p" using split ne by (metis last_appendR)
  moreover have "successively (joined g flt) ?c"
    using assms(1) split unfolding simple_path_def by (metis successively_append_iff)
  moreover have "distinct ?c" using assms(1) unfolding simple_path_def by simp
  ultimately show ?thesis using assms(3) ne by (simp add: is_cycle_def simple_path_def)
qed

definition dc_ok :: "CsrGraph \<Rightarrow> EdgeType set \<Rightarrow> MemoryId list list \<Rightarrow> (MemoryId \<times> MemoryId list) list \<Rightarrow> bool" where
  "dc_ok g flt cycles stack \<longleftrightarrow> (\<forall>c \<in> set cycles. is_cycle g flt c)
     \<and> (\<forall>x \<in> set stack. simple_path g flt (snd x) \<and> last (snd x) = fst x)"

lemma dc_ok_cycle: "dc_ok g flt cycles stack \<Longrightarrow> is_cycle g flt c \<Longrightarrow> dc_ok g flt (cycles @ [c]) stack"
  by (auto simp: dc_ok_def)

lemma dc_ok_push: "dc_ok g flt cycles stack \<Longrightarrow> simple_path g flt (p @ [n])
    \<Longrightarrow> dc_ok g flt cycles ((n, p @ [n]) # stack)"
  by (auto simp: dc_ok_def)

lemma dc_visit_sound:
  assumes "simple_path g flt path" "last path = node" "set es \<subseteq> set (outgoing g node)"
    "dc_ok g flt cycles stack" "dc_visit flt path es cycles lvis stack = (cycles', lvis', stack')"
  shows "dc_ok g flt cycles' stack'"
  using assms
proof (induction flt path es cycles lvis stack rule: dc_visit.induct)
  case (2 flt path n e es cycles lvis stack)
  note P = "2.prems"
  have es: "set es \<subseteq> set (outgoing g node)" using P(3) by simp
  show ?case
  proof (cases "se_edge_type e \<in> flt")
    case True
    then have j: "joined g flt (last path) n" using P(2,3) by (auto simp: joined_def)
    show ?thesis
    proof (cases "n \<in> set path")
      case in_path: True
      note ok = dc_ok_cycle[OF P(4) closing_cycle[OF P(1) in_path j]]
      show ?thesis
        using "2.IH"(2)[OF _ in_path refl _ P(1,2) es P(4)] "2.IH"(3)[OF _ in_path refl _ P(1,2) es ok]
          P(5) True in_path by (simp add: Let_def split: if_splits)
    next
      case new: False
      note ok = dc_ok_push[OF P(4) simple_path_snoc[OF P(1) new j]]
      show ?thesis
        using "2.IH"(4)[OF _ new _ P(1,2) es ok] "2.IH"(5)[OF _ new _ P(1,2) es P(4)] P(5) True new
        by (cases "n \<in> lvis") simp_all
    qed
  next
    case False
    then show ?thesis using "2.IH"(1)[OF False P(1,2) es P(4)] P(5) by simp
  qed
qed simp

lemma dc_loop_sound:
  "dc_ok g flt cycles stack \<Longrightarrow> dc_ok g flt (fst (dc_loop g flt cycles gvis lvis stack)) []"
proof (induction g flt cycles gvis lvis stack rule: dc_loop.induct)
  case (2 g flt cycles gvis lvis node path stack)
  obtain c' v' s' where dv: "dc_visit flt path (outgoing g node) cycles lvis stack = (c', v', s')"
    by (metis prod_cases3)
  have "simple_path g flt path" "last path = node" "dc_ok g flt cycles stack"
    using "2.prems" by (auto simp: dc_ok_def)
  then have "dc_ok g flt c' s'" using dc_visit_sound[OF _ _ order_refl _ dv] by blast
  then show ?case using "2.IH"[OF dv[symmetric] refl refl] dv by simp
qed simp

lemma dc_starts_sound:
  "dc_ok g flt cycles [] \<Longrightarrow> dc_ok g flt (dc_starts g flt ids cycles gvis) []"
proof (induction g flt ids cycles gvis rule: dc_starts.induct)
  case (2 g flt s rest cycles gvis)
  obtain c' v' where dl: "dc_loop g flt cycles gvis {s} [(s, [s])] = (c', v')" by fastforce
  have "dc_ok g flt (fst (dc_loop g flt cycles gvis {s} [(s, [s])])) []"
    by (rule dc_loop_sound) (use "2.prems" in \<open>simp add: dc_ok_def simple_path_def\<close>)
  then have "dc_ok g flt c' []" unfolding dl by simp
  then show ?case
    using "2.IH"(1)[OF _ "2.prems"] "2.IH"(2)[OF _ dl[symmetric] refl] dl
    by (cases "s \<in> gvis") (simp_all del: dc_loop.simps)
qed simp

section \<open>Properties\<close>

text \<open>The contradictions of a node are its direct ones, in either direction, those of the nodes that
  support it (itself apart), and those of the nodes it supports: one step of support, since the queue of
  the search is never extended.\<close>

theorem find_contradictions_spec:
  "find_contradictions g i =
     (let direct = along Contradicts (outgoing g i) \<union> along Contradicts (incoming g i);
          supporters = along Supports (incoming g i) - insert i direct;
          supported = along Supports (outgoing g i) - insert i direct - supporters
      in direct \<union> ((\<Union>s \<in> supporters. along Contradicts (outgoing g s)) - {i})
           \<union> (\<Union>s \<in> supported. along Contradicts (outgoing g s)))"
  by (auto simp: find_contradictions_def fc_direct_eq fc_supports_eq Let_def)

text \<open>\<open>find_superseded\<close> ends and returns each node that a chain of \<open>Supersedes\<close> edges from the given
  node reaches, the node itself apart, exactly once.\<close>

theorem find_superseded_reachable:
  "distinct (find_superseded g i)
   \<and> (n \<in> set (find_superseded g i)
        \<longleftrightarrow> n \<noteq> i \<and> (\<exists>d. walk g (\<lambda>e. se_edge_type e = Supersedes) i d n))"
proof -
  have "fs_inv g i [i] {i} []" by (auto simp: fs_inv_def intro: walk_start)
  then obtain v where inv: "fs_inv g i [] v (find_superseded g i)"
    using fs_loop_inv unfolding find_superseded_def by blast
  note D = fs_invD[OF inv]
  have "walk g (\<lambda>e. se_edge_type e = Supersedes) i d n \<Longrightarrow> n \<in> v" for d
  proof (induction rule: walk.induct)
    case (walk_step d m n e)
    then show ?case using D(5)[of m] by (auto simp: along_def)
  qed (use D(1) in simp)
  then show ?thesis using D(1,2) D(4)[of n] by auto
qed

text \<open>Cycle detection ends, and every cycle it reports is one: its nodes are distinct, each is
  joined to the next by an edge of a requested type, and the last is joined to the first.\<close>

theorem detect_cycles_sound:
  assumes "c \<in> set (detect_cycles g tys)"
  shows "is_cycle g (set tys) c"
  using assms dc_starts_sound[of g "set tys" "[]" "node_ids g" "{}"]
  by (simp add: detect_cycles_def dc_ok_def)


definition pair_graph :: CsrGraph where
  "pair_graph = add_edge (add_edge graph_new (sample_edge 2 3 Caused)) (sample_edge 3 2 Caused)"

lemma pair_outgoing:
  "node_ids pair_graph = [MemoryId 2, MemoryId 3]"
  "outgoing pair_graph (MemoryId 2) = [(MemoryId 3, from_memory_edge (sample_edge 2 3 Caused))]"
  "outgoing pair_graph (MemoryId 3) = [(MemoryId 2, from_memory_edge (sample_edge 3 2 Caused))]"
  by (simp_all add: pair_graph_def sample_simps node_ids_def Let_def)

theorem detect_cycles_sound_witness:
  "detect_cycles pair_graph [Caused] = [[MemoryId 2, MemoryId 3]]
   \<and> is_cycle pair_graph {Caused} [MemoryId 2, MemoryId 3]"
proof -
  have "detect_cycles pair_graph [Caused] = [[MemoryId 2, MemoryId 3]]"
    by (simp add: detect_cycles_def pair_outgoing from_memory_edge_def sample_edge_def Let_def)
  then show ?thesis using detect_cycles_sound[of "[MemoryId 2, MemoryId 3]" pair_graph "[Caused]"] by simp
qed

text \<open>A graph of three nodes: 1 leads to 2 and 3, which lead to each other.\<close>

definition diamond_graph :: CsrGraph where
  "diamond_graph = add_edge (add_edge (add_edge (add_edge graph_new (sample_edge 1 2 Caused))
     (sample_edge 1 3 Caused)) (sample_edge 2 3 Caused)) (sample_edge 3 2 Caused)"

lemma diamond_outgoing:
  "node_ids diamond_graph = [MemoryId 1, MemoryId 2, MemoryId 3]"
  "outgoing diamond_graph (MemoryId 1) = [(MemoryId 2, from_memory_edge (sample_edge 1 2 Caused)),
     (MemoryId 3, from_memory_edge (sample_edge 1 3 Caused))]"
  "outgoing diamond_graph (MemoryId 2) = [(MemoryId 3, from_memory_edge (sample_edge 2 3 Caused))]"
  "outgoing diamond_graph (MemoryId 3) = [(MemoryId 2, from_memory_edge (sample_edge 3 2 Caused))]"
  by (simp_all add: diamond_graph_def sample_simps node_ids_def Let_def)

text \<open>
  Detection is not complete. A node is marked when it is pushed, not when it is on the path, so
  from node 1 the search pushes both 2 and 3 and then sees each from the other as already visited;
  neither is tried as a start afterwards. The cycle between 2 and 3 is not reported.
\<close>

lemma detect_cycles_incomplete:
  "is_cycle diamond_graph {Caused} [MemoryId 2, MemoryId 3] \<and> detect_cycles diamond_graph [Caused] = []"
proof
  show "is_cycle diamond_graph {Caused} [MemoryId 2, MemoryId 3]"
    by (simp add: is_cycle_def simple_path_def joined_def diamond_outgoing from_memory_edge_def sample_edge_def)
  show "detect_cycles diamond_graph [Caused] = []"
    by (simp add: detect_cycles_def diamond_outgoing from_memory_edge_def sample_edge_def)
qed

end
