(* ===== verification/Graph_Manager.thy ===== *)
theory Graph_Manager
  imports Graph_Belief Graph_Contradiction
begin

text \<open>
  \<open>GraphManager\<close> of \<open>crates/mentedb-graph/src/manager.rs\<close>: a graph behind one read-write lock.
  Each method holds the lock for its whole body, so each is one atomic step on the graph; a run of
  the manager is a sequence of these steps. \<open>save\<close> and \<open>load\<close> are file I/O and are left out.
\<close>

record GraphManager =
  gm_graph :: CsrGraph

definition gm_new :: GraphManager where
  "gm_new = \<lparr> gm_graph = graph_new \<rparr>"

definition add_memory :: "GraphManager \<Rightarrow> MemoryId \<Rightarrow> GraphManager" where
  "add_memory m i = m\<lparr>gm_graph := fst (add_node (gm_graph m) i)\<rparr>"

definition remove_memory :: "GraphManager \<Rightarrow> MemoryId \<Rightarrow> GraphManager" where
  "remove_memory m i = m\<lparr>gm_graph := remove_node (gm_graph m) i\<rparr>"

definition add_relationship :: "GraphManager \<Rightarrow> MemoryEdge \<Rightarrow> unit MenteResult \<times> GraphManager" where
  "add_relationship m e =
     (if \<not> contains_node (gm_graph m) (me_source e) then (Err (MemoryNotFound (me_source e)), m)
      else if \<not> contains_node (gm_graph m) (me_target e) then (Err (MemoryNotFound (me_target e)), m)
      else (Ok (), m\<lparr>gm_graph := add_edge (gm_graph m) e\<rparr>))"

definition get_context_subgraph :: "GraphManager \<Rightarrow> MemoryId \<Rightarrow> nat \<Rightarrow> MemoryId list \<times> MemoryEdge list" where
  "get_context_subgraph m center depth = extract_subgraph (gm_graph m) center depth"

definition propagate_belief_change :: "GraphManager \<Rightarrow> MemoryId \<Rightarrow> f32 \<Rightarrow> (MemoryId \<rightharpoonup> f32)" where
  "propagate_belief_change m i new_confidence = propagate_update (gm_graph m) i new_confidence"

definition find_all_contradictions :: "GraphManager \<Rightarrow> MemoryId \<Rightarrow> MemoryId set" where
  "find_all_contradictions m i = find_contradictions (gm_graph m) i"

definition gm_compact :: "GraphManager \<Rightarrow> GraphManager" where
  "gm_compact m = m\<lparr>gm_graph := compact (gm_graph m)\<rparr>"

definition gm_strengthen_edge :: "GraphManager \<Rightarrow> MemoryId \<Rightarrow> MemoryId \<Rightarrow> f32 \<Rightarrow> GraphManager" where
  "gm_strengthen_edge m s t delta = m\<lparr>gm_graph := strengthen_edge (gm_graph m) s t delta\<rparr>"

definition read_graph :: "GraphManager \<Rightarrow> CsrGraph" where
  "read_graph m = gm_graph m"

text \<open>The steps a manager takes, with the two capacity conditions of the 32-bit indices.\<close>

inductive manager_step :: "GraphManager \<Rightarrow> GraphManager \<Rightarrow> bool" where
  step_add: "length (idx_to_id (gm_graph m)) < u32_mod \<Longrightarrow> manager_step m (add_memory m i)"
| step_remove: "manager_step m (remove_memory m i)"
| step_relate: "length (idx_to_id (gm_graph m)) + 1 < u32_mod \<Longrightarrow> manager_step m (snd (add_relationship m e))"
| step_compact: "length (all_edges (gm_graph m)) < u32_mod \<Longrightarrow> manager_step m (gm_compact m)"
| step_strengthen: "manager_step m (gm_strengthen_edge m s t w)"

inductive_cases manager_stepE: "manager_step m m'"

lemma manager_step_reach:
  "manager_step m m' \<Longrightarrow> graph_reach (gm_graph m) \<Longrightarrow> graph_reach (gm_graph m')"
  by (erule manager_stepE) (auto simp: add_memory_def remove_memory_def add_relationship_def gm_compact_def
      gm_strengthen_edge_def intro: graph_reach.intros)

section \<open>Properties\<close>

text \<open>C12: Every sequence of manager operations from a new manager leaves a graph in which the two
  compressed storages agree with each other and with the index tables.\<close>

theorem manager_run_inv:
  assumes "manager_step\<^sup>*\<^sup>* gm_new m"
  shows "graph_inv (read_graph m)"
proof -
  have "graph_reach (gm_graph m)"
    using assms by (induction rule: rtranclp_induct) (auto simp: gm_new_def intro: graph_reach.intros manager_step_reach)
  then show ?thesis by (simp add: read_graph_def graph_reach_inv)
qed

theorem manager_run_inv_witness:
  "graph_inv (read_graph (gm_compact (add_memory gm_new (MemoryId 1))))"
proof (rule manager_run_inv)
  have "manager_step gm_new (add_memory gm_new (MemoryId 1))"
    by (rule step_add) (simp add: gm_new_def graph_new_def)
  moreover have "manager_step (add_memory gm_new (MemoryId 1)) (gm_compact (add_memory gm_new (MemoryId 1)))"
    by (rule step_compact) (simp add: add_memory_def gm_new_def sample_simps Let_def)
  ultimately show "manager_step\<^sup>*\<^sup>* gm_new (gm_compact (add_memory gm_new (MemoryId 1)))" by simp
qed

text \<open>C32: \<open>add_relationship\<close> fails exactly when an end of the edge is not registered, names that end (the
  source first) and changes nothing; otherwise it adds exactly that edge between existing nodes.\<close>

theorem add_relationship_spec:
  assumes "graph_reach (read_graph m)" "length (idx_to_id (read_graph m)) + 1 < u32_mod"
  shows "case add_relationship m e of
      (Ok _, m') \<Rightarrow> {me_source e, me_target e} \<subseteq> graph_nodes (read_graph m)
        \<and> graph_nodes (read_graph m') = graph_nodes (read_graph m)
        \<and> graph_edges (read_graph m')
            = add_mset (me_source e, me_target e, from_memory_edge e) (graph_edges (read_graph m))
    | (Err err, m') \<Rightarrow> m' = m \<and> (\<exists>i. err = MemoryNotFound i \<and> i \<notin> graph_nodes (read_graph m)
        \<and> (i = me_source e \<or> i = me_target e \<and> me_source e \<in> graph_nodes (read_graph m)))
    | (Panic, m') \<Rightarrow> False"
proof -
  have reg: "contains_node (gm_graph m) i \<longleftrightarrow> i \<in> graph_nodes (read_graph m)" for i
    by (auto simp: contains_node_def graph_nodes_def read_graph_def)
  note add = add_edge_refines(2,3)[OF graph_reach_inv[OF assms(1)] assms(2), of e]
  show ?thesis
  proof (cases "me_source e \<in> graph_nodes (read_graph m)")
    case src: True
    then show ?thesis
      using add by (cases "me_target e \<in> graph_nodes (read_graph m)")
        (simp_all add: add_relationship_def reg insert_absorb, simp_all add: read_graph_def)
  qed (simp add: add_relationship_def reg)
qed

theorem add_relationship_spec_witness:
  "fst (add_relationship \<lparr>gm_graph = sample_graph\<rparr> (sample_edge 1 9 Caused)) = Err (MemoryNotFound (MemoryId 9))
   \<and> MemoryId 9 \<notin> graph_nodes sample_graph"
proof -
  have "length (idx_to_id sample_graph) + 1 < u32_mod" by (simp add: sample_simps Let_def)
  moreover have "add_relationship \<lparr>gm_graph = sample_graph\<rparr> (sample_edge 1 9 Caused)
      = (Err (MemoryNotFound (MemoryId 9)), \<lparr>gm_graph = sample_graph\<rparr>)"
    by (simp add: add_relationship_def contains_node_def sample_simps Let_def)
  ultimately show ?thesis
    using add_relationship_spec[of "\<lparr>gm_graph = sample_graph\<rparr>" "sample_edge 1 9 Caused"] sample_reach
    by (simp add: read_graph_def)
qed

text \<open>C31: A removed memory never comes back in a context subgraph, neither as a node nor as an end of
  an edge.\<close>

theorem removed_memory_not_in_context:
  assumes "graph_reach (read_graph m)"
  shows "i \<notin> set (fst (get_context_subgraph (remove_memory m i) center depth))
    \<and> (\<nexists>e. e \<in> set (snd (get_context_subgraph (remove_memory m i) center depth))
          \<and> (me_source e = i \<or> me_target e = i))"
proof -
  let ?g = "remove_node (gm_graph m) i"
  have inv: "graph_inv ?g" using assms by (auto simp: read_graph_def intro: graph_reach_inv graph_reach.intros)
  have gone: "get_idx ?g i = None" by (auto simp: get_idx_def remove_node_def split: option.splits)
  have "i \<notin> set (fst (extract_subgraph ?g center depth))"
    using walk_registered[OF inv, of any_edge center _ i] gone by (fastforce simp: extract_nodes)
  then show ?thesis by (auto simp: get_context_subgraph_def remove_memory_def extract_edges)
qed

theorem removed_memory_not_in_context_witness:
  "MemoryId 2 \<notin> set (fst (get_context_subgraph (remove_memory \<lparr>gm_graph = sample_graph\<rparr> (MemoryId 2)) (MemoryId 1) 3))"
  using removed_memory_not_in_context[of "\<lparr>gm_graph = sample_graph\<rparr>"] sample_reach by (simp add: read_graph_def)

end
