(* ===== verification/Mql_Lexer.thy ===== *)
theory Mql_Lexer
  imports Core_Types
begin

text \<open>
  The MQL lexer, \<open>crates/mentedb-query/src/lexer.rs\<close>. The input is the list of its UTF-8 bytes and
  the position a byte offset, as in the source; every slice of the input is checked for character
  boundaries, since \<open>&input[a..b]\<close> panics off them.
\<close>

datatype TokenKind =
  T_Recall | T_Relate | T_Forget | T_Consolidate | T_Traverse | T_Where | T_And | T_Or | T_Not
    | T_Near | T_Within | T_Limit | T_OrderBy | T_As | T_From | T_To | T_With | T_Agent | T_Space
    | T_Type | T_Tag | T_Salience | T_Confidence | T_Created | T_Accessed | T_Depth | T_Hops
    | T_Memories | T_By | T_EdgeType | T_Eq | T_Neq | T_Gt | T_Lt | T_Gte | T_Lte | T_SimilarTo
    | T_Arrow | T_LParen | T_RParen | T_LBracket | T_RBracket | T_Comma | T_Dot | T_Colon
    | T_Semicolon | T_StringLit | T_IntegerLit | T_FloatLit | T_Identifier | T_UuidLit | T_Eof

record Token =
  tok_kind :: TokenKind
  tok_lexeme :: string
  tok_position :: nat

definition mk_token :: "TokenKind \<Rightarrow> string \<Rightarrow> nat \<Rightarrow> Token" where
  "mk_token k s p = \<lparr> tok_kind = k, tok_lexeme = s, tok_position = p \<rparr>"

lemma mk_token_fields [simp]:
  "tok_kind (mk_token k s p) = k" "tok_lexeme (mk_token k s p) = s" "tok_position (mk_token k s p) = p"
  by (simp_all add: mk_token_def)

section \<open>Character classes\<close>

definition is_ascii_whitespace :: "char \<Rightarrow> bool" where
  "is_ascii_whitespace c = (byte c = 32 \<or> byte c = 9 \<or> byte c = 10 \<or> byte c = 12 \<or> byte c = 13)"

definition is_ascii_digit :: "char \<Rightarrow> bool" where
  "is_ascii_digit c = (48 \<le> byte c \<and> byte c \<le> 57)"

definition is_ascii_alphabetic :: "char \<Rightarrow> bool" where
  "is_ascii_alphabetic c = ((65 \<le> byte c \<and> byte c \<le> 90) \<or> (97 \<le> byte c \<and> byte c \<le> 122))"

definition is_ascii_alphanumeric :: "char \<Rightarrow> bool" where
  "is_ascii_alphanumeric c = (is_ascii_digit c \<or> is_ascii_alphabetic c)"

definition is_ascii_hexdigit :: "char \<Rightarrow> bool" where
  "is_ascii_hexdigit c = (is_ascii_digit c \<or> (65 \<le> byte c \<and> byte c \<le> 70) \<or> (97 \<le> byte c \<and> byte c \<le> 102))"

definition is_word_char :: "char \<Rightarrow> bool" where
  "is_word_char c = (is_ascii_alphanumeric c \<or> c = CHR ''_'' \<or> c = CHR ''-'')"

section \<open>Scanning\<close>

text \<open>The \<open>while pos < len && p(bytes[pos])\<close> loops.\<close>

definition scan_while :: "(char \<Rightarrow> bool) \<Rightarrow> string \<Rightarrow> nat \<Rightarrow> nat" where
  "scan_while p bytes pos = pos + length (takeWhile p (drop pos bytes))"

text \<open>
  The loop over a string literal, from the byte after the opening quote: the number of bytes
  passed. A backslash skips the byte after it, even past the end.
\<close>

fun scan_str :: "string \<Rightarrow> nat" where
  "scan_str [] = 0"
| "scan_str (c # cs) =
     (if c = CHR 0x22 then 0
      else if c = CHR 0x5C then (case cs of [] \<Rightarrow> 2 | _ # ds \<Rightarrow> 2 + scan_str ds)
      else 1 + scan_str cs)"

definition two_char_kind :: "string \<Rightarrow> TokenKind option" where
  "two_char_kind two =
     (if two = ''!='' then Some T_Neq else if two = ''>='' then Some T_Gte
      else if two = ''<='' then Some T_Lte else if two = ''~>'' then Some T_SimilarTo
      else if two = ''->'' then Some T_Arrow else None)"

definition single_char_kind :: "char \<Rightarrow> TokenKind option" where
  "single_char_kind c = map_of
     [(CHR ''='', T_Eq), (CHR ''>'', T_Gt), (CHR ''<'', T_Lt), (CHR ''('', T_LParen), (CHR '')'', T_RParen),
      (CHR ''['', T_LBracket), (CHR '']'', T_RBracket), (CHR '','', T_Comma), (CHR ''.'', T_Dot),
      (CHR '':'', T_Colon), (CHR '';'', T_Semicolon)] c"

definition keyword_kind :: "string \<Rightarrow> TokenKind" where
  "keyword_kind lower = (case map_of
    [(''recall'', T_Recall), (''relate'', T_Relate), (''forget'', T_Forget),
     (''consolidate'', T_Consolidate), (''traverse'', T_Traverse), (''where'', T_Where),
     (''and'', T_And), (''or'', T_Or), (''not'', T_Not),
     (''near'', T_Near), (''within'', T_Within), (''limit'', T_Limit),
     (''order'', T_OrderBy), (''as'', T_As), (''from'', T_From),
     (''to'', T_To), (''with'', T_With), (''agent'', T_Agent),
     (''space'', T_Space), (''type'', T_Type), (''tag'', T_Tag),
     (''salience'', T_Salience), (''confidence'', T_Confidence), (''created'', T_Created),
     (''accessed'', T_Accessed), (''depth'', T_Depth), (''hops'', T_Hops),
     (''memories'', T_Memories), (''by'', T_By), (''edge_type'', T_EdgeType)] lower of
     Some k \<Rightarrow> k | None \<Rightarrow> T_Identifier)"

fun split_on :: "char \<Rightarrow> string \<Rightarrow> string list" where
  "split_on d [] = [[]]"
| "split_on d (c # cs) = (if c = d then [] # split_on d cs
     else case split_on d cs of [] \<Rightarrow> [[c]] | p # ps \<Rightarrow> (c # p) # ps)"

definition is_uuid_like :: "string \<Rightarrow> bool" where
  "is_uuid_like s =
     (length s = 36
      \<and> (let parts = split_on (CHR ''-'') s in length parts = 5
          \<and> list_all (\<lambda>(part, expected). length part = expected \<and> list_all is_ascii_hexdigit part)
               (zip parts [8, 4, 4, 4, 12])))"

text \<open>\<open>bytes[pos] as char\<close> in a format string: the byte read as Latin-1, written in UTF-8.\<close>

definition latin1_utf8 :: "char \<Rightarrow> string" where
  "latin1_utf8 c = (if byte c < 128 then [c]
     else [char_of (192 + byte c div 64), char_of (128 + byte c mod 64)])"

section \<open>One iteration\<close>

text \<open>
  One pass through the body of the \<open>while\<close> loop at a position inside the input: the token it pushes, if
  any, and the next position. The branches are in the source's order; each falls through to the
  next when it does not apply.
\<close>

definition lex_word :: "string \<Rightarrow> nat \<Rightarrow> (MenteError, Token option \<times> nat) outcome" where
  "lex_word input start =
     (if is_ascii_alphanumeric (input ! start) \<or> input ! start = CHR ''_''
      then let pos = scan_while is_word_char input start
           in bindO (slice input start pos) (\<lambda>lexeme.
                Ok (Some (mk_token (keyword_kind (to_ascii_lowercase lexeme)) lexeme start), pos))
      else Err (Query (''unexpected character '' @ [CHR 0x27] @ latin1_utf8 (input ! start) @ [CHR 0x27]
             @ '' at position '' @ show_nat start)))"

definition lex_number :: "string \<Rightarrow> nat \<Rightarrow> (MenteError, Token option \<times> nat) outcome" where
  "lex_number input start =
     (if is_ascii_digit (input ! start)
         \<or> (input ! start = CHR ''-'' \<and> start + 1 < length input \<and> is_ascii_digit (input ! (start + 1)))
      then let p0 = (if input ! start = CHR ''-'' then start + 1 else start);
               p1 = scan_while is_ascii_digit input p0;
               is_float = (p1 < length input \<and> input ! p1 = CHR ''.'' \<and> p1 + 1 < length input
                 \<and> is_ascii_digit (input ! (p1 + 1)));
               p2 = (if is_float then scan_while is_ascii_digit input (p1 + 1) else p1)
           in bindO (slice input start p2) (\<lambda>lexeme.
                Ok (Some (mk_token (if is_float then T_FloatLit else T_IntegerLit) lexeme start), p2))
      else lex_word input start)"

definition lex_uuid :: "string \<Rightarrow> nat \<Rightarrow> (MenteError, Token option \<times> nat) outcome" where
  "lex_uuid input start =
     (if is_ascii_hexdigit (input ! start)
      then let pos = scan_while is_word_char input start
           in bindO (slice input start pos) (\<lambda>candidate.
                if is_uuid_like candidate then Ok (Some (mk_token T_UuidLit candidate start), pos)
                else lex_number input start)
      else lex_number input start)"

definition lex_single :: "string \<Rightarrow> nat \<Rightarrow> (MenteError, Token option \<times> nat) outcome" where
  "lex_single input start =
     (case single_char_kind (input ! start) of
        Some k \<Rightarrow> bindO (slice input start (start + 1)) (\<lambda>lexeme.
          Ok (Some (mk_token k lexeme start), start + 1))
      | None \<Rightarrow> lex_uuid input start)"

definition lex_two :: "string \<Rightarrow> nat \<Rightarrow> (MenteError, Token option \<times> nat) outcome" where
  "lex_two input start =
     (if start + 1 < length input
      then bindO (slice input start (start + 2)) (\<lambda>two.
             case two_char_kind two of
               Some k \<Rightarrow> Ok (Some (mk_token k two start), start + 2)
             | None \<Rightarrow> lex_single input start)
      else lex_single input start)"

definition lex_string :: "string \<Rightarrow> nat \<Rightarrow> (MenteError, Token option \<times> nat) outcome" where
  "lex_string input start =
     (let pos = start + 1 + scan_str (drop (start + 1) input)
      in if pos \<ge> length input then Err (Query ''unterminated string literal'')
         else bindO (slice input start (pos + 1)) (\<lambda>lexeme.
                Ok (Some (mk_token T_StringLit lexeme start), pos + 1)))"

definition lex_step :: "string \<Rightarrow> nat \<Rightarrow> (MenteError, Token option \<times> nat) outcome" where
  "lex_step input pos =
     (if is_ascii_whitespace (input ! pos) then Ok (None, pos + 1)
      else if input ! pos = CHR 0x22 then lex_string input pos
      else lex_two input pos)"

lemmas lex_defs = lex_step_def lex_string_def lex_two_def lex_single_def lex_uuid_def lex_number_def
  lex_word_def


section \<open>The loop\<close>

lemma scan_while_bounds: "pos \<le> length s \<Longrightarrow> pos \<le> scan_while p s pos \<and> scan_while p s pos \<le> length s"
  using length_takeWhile_le[of p "drop pos s"] by (simp add: scan_while_def)

lemma scan_while_progress:
  assumes "pos < length s" "p (s ! pos)"
  shows "pos < scan_while p s pos"
proof -
  have "drop pos s = s ! pos # drop (Suc pos) s" using assms(1) by (simp add: Cons_nth_drop_Suc)
  then show ?thesis using assms(2) by (simp add: scan_while_def)
qed

lemma hexdigit_word: "is_ascii_hexdigit c \<Longrightarrow> is_word_char c"
  by (auto simp: is_ascii_hexdigit_def is_word_char_def is_ascii_alphanumeric_def is_ascii_alphabetic_def)

text \<open>What an iteration that pushes a token guarantees.\<close>

definition token_at :: "string \<Rightarrow> nat \<Rightarrow> Token option \<times> nat \<Rightarrow> bool" where
  "token_at input start r \<longleftrightarrow> start < snd r \<and> snd r \<le> length input \<and>
     (case fst r of None \<Rightarrow> snd r = start + 1 \<and> is_ascii_whitespace (input ! start)
      | Some t \<Rightarrow> tok_position t = start \<and> tok_lexeme t = take (snd r - start) (drop start input)
          \<and> tok_kind t \<noteq> T_Eof)"

lemma keyword_kind_not_Eof [simp]: "keyword_kind s \<noteq> T_Eof"
  by (auto simp: keyword_kind_def dest!: map_of_SomeD split: option.splits)

lemma single_char_kind_not_Eof: "single_char_kind c = Some k \<Longrightarrow> k \<noteq> T_Eof"
  by (auto simp: single_char_kind_def split: if_splits)

lemma two_char_kind_not_Eof: "two_char_kind s = Some k \<Longrightarrow> k \<noteq> T_Eof"
  by (auto simp: two_char_kind_def split: if_splits)

lemma lex_word_token:
  assumes "start < length input" "lex_word input start = Ok r"
  shows "token_at input start r"
proof -
  have "start < scan_while is_word_char input start"
    if "is_ascii_alphanumeric (input ! start) \<or> input ! start = CHR ''_''"
    using that assms(1) by (intro scan_while_progress) (auto simp: is_word_char_def)
  then show ?thesis
    using assms scan_while_bounds[of start input is_word_char]
    by (auto simp: lex_word_def token_at_def Let_def outcome_simps split: if_splits)
qed

lemma number_span:
  fixes input :: string and start :: nat
  defines "p0 \<equiv> (if input ! start = CHR ''-'' then start + 1 else start)"
  defines "p1 \<equiv> scan_while is_ascii_digit input p0"
  assumes len: "start < length input"
    and num: "is_ascii_digit (input ! start)
         \<or> (input ! start = CHR ''-'' \<and> start + 1 < length input \<and> is_ascii_digit (input ! (start + 1)))"
  shows "start < p1" "p1 \<le> length input"
    "p1 < length input \<Longrightarrow> p1 < scan_while is_ascii_digit input (p1 + 1)
       \<and> scan_while is_ascii_digit input (p1 + 1) \<le> length input"
proof -
  have p0: "start \<le> p0" "p0 \<le> length input" using len by (simp_all add: p0_def)
  have "p0 < length input \<and> is_ascii_digit (input ! p0)"
    using num len by (auto simp: p0_def is_ascii_digit_def byte_def)
  then show "start < p1" using scan_while_progress[of p0 input is_ascii_digit] p0(1) by (simp add: p1_def)
  show "p1 \<le> length input" using scan_while_bounds[OF p0(2)] by (simp add: p1_def)
  show "p1 < length input \<Longrightarrow> p1 < scan_while is_ascii_digit input (p1 + 1)
       \<and> scan_while is_ascii_digit input (p1 + 1) \<le> length input"
    using scan_while_bounds[of "p1 + 1" input is_ascii_digit] by simp
qed

lemma lex_number_token:
  assumes "start < length input" "lex_number input start = Ok r"
  shows "token_at input start r"
proof (cases "is_ascii_digit (input ! start)
    \<or> (input ! start = CHR ''-'' \<and> start + 1 < length input \<and> is_ascii_digit (input ! (start + 1)))")
  case True
  note span = number_span[OF assms(1) True]
  show ?thesis
    using assms(2) True span unfolding lex_number_def Let_def token_at_def
    by (simp add: outcome_simps split: if_splits) auto
next
  case False
  then have "lex_word input start = Ok r" using assms(2) unfolding lex_number_def by (simp only: if_False)
  then show ?thesis using lex_word_token[OF assms(1)] by simp
qed

lemma lex_uuid_token:
  assumes "start < length input" "lex_uuid input start = Ok r"
  shows "token_at input start r"
proof -
  have "is_ascii_hexdigit (input ! start) \<Longrightarrow> start < scan_while is_word_char input start"
    using assms(1) by (intro scan_while_progress hexdigit_word)
  then show ?thesis
    using assms scan_while_bounds[of start input is_word_char] lex_number_token[OF assms(1)]
    by (auto simp: lex_uuid_def token_at_def Let_def outcome_simps split: if_splits)
qed

lemma lex_single_token:
  assumes "start < length input" "lex_single input start = Ok r"
  shows "token_at input start r"
  using assms lex_uuid_token[OF assms(1)] single_char_kind_not_Eof
  by (auto simp: lex_single_def token_at_def outcome_simps split: option.splits)

lemma lex_two_token:
  assumes "start < length input" "lex_two input start = Ok r"
  shows "token_at input start r"
  using assms lex_single_token[OF assms(1)] two_char_kind_not_Eof
  by (auto simp: lex_two_def token_at_def outcome_simps split: option.splits if_splits)

lemma lex_step_token:
  assumes "start < length input" "lex_step input start = Ok r"
  shows "token_at input start r"
  using assms lex_two_token[OF assms(1)]
  by (auto simp: lex_step_def lex_string_def token_at_def Let_def outcome_simps split: if_splits)

function tokenize_loop :: "string \<Rightarrow> nat \<Rightarrow> Token list \<Rightarrow> Token list MenteResult" where
  "tokenize_loop input pos tokens =
     (if pos < length input
      then bindO (lex_step input pos) (\<lambda>(t, pos').
             tokenize_loop input pos' (case t of None \<Rightarrow> tokens | Some t \<Rightarrow> tokens @ [t]))
      else Ok (tokens @ [mk_token T_Eof [] pos]))"
  by pat_completeness auto
termination
  by (relation "measure (\<lambda>(input, pos, ts). length input - pos)")
    (auto dest!: lex_step_token simp: token_at_def)

definition tokenize :: "string \<Rightarrow> Token list MenteResult" where
  "tokenize input = tokenize_loop input 0 []"

declare tokenize_loop.simps [simp del]


section \<open>Coverage of the input\<close>

text \<open>
  \<open>placed p gaps ts\<close>: laid out from offset \<open>p\<close> on, every token follows its gap and records the
  offset at which its lexeme starts.
\<close>

fun placed :: "nat \<Rightarrow> string list \<Rightarrow> Token list \<Rightarrow> bool" where
  "placed p [] [] = True"
| "placed p (g # gs) (t # ts) = (tok_position t = p + length g
     \<and> placed (p + length g + length (tok_lexeme t)) gs ts)"
| "placed p _ _ = False"

fun glue :: "string list \<Rightarrow> Token list \<Rightarrow> string" where
  "glue (g # gs) (t # ts) = g @ tok_lexeme t @ glue gs ts"
| "glue _ _ = []"

definition laid_out :: "string \<Rightarrow> nat \<Rightarrow> Token list \<Rightarrow> bool" where
  "laid_out s p ts \<longleftrightarrow> (\<exists>gaps. placed p gaps ts \<and> s = glue gaps ts
     \<and> list_all (list_all is_ascii_whitespace) gaps)
     \<and> (\<exists>front. ts = front @ [mk_token T_Eof [] (p + length s)] \<and> T_Eof \<notin> tok_kind ` set front)"

lemma laid_out_space:
  assumes "laid_out s (Suc p) ts" "is_ascii_whitespace c"
  shows "laid_out (c # s) p ts"
proof -
  obtain gaps front where g: "placed (Suc p) gaps ts" "s = glue gaps ts"
      "list_all (list_all is_ascii_whitespace) gaps"
      "ts = front @ [mk_token T_Eof [] (Suc p + length s)]" "T_Eof \<notin> tok_kind ` set front"
    using assms(1) unfolding laid_out_def by blast
  have "ts \<noteq> []" using g(4) by blast
  then obtain g0 gs t0 ts' where c: "gaps = g0 # gs" "ts = t0 # ts'"
    using g(1) by (cases gaps; cases ts) auto
  have "placed p ((c # g0) # gs) ts \<and> c # s = glue ((c # g0) # gs) ts
      \<and> list_all (list_all is_ascii_whitespace) ((c # g0) # gs)"
    using g(1-3) c assms(2) by simp
  moreover have "ts = front @ [mk_token T_Eof [] (p + length (c # s))]" using g(4) by simp
  ultimately show ?thesis unfolding laid_out_def using g(5) by blast
qed

lemma laid_out_token:
  assumes "laid_out s (p + length (tok_lexeme t)) ts" "tok_position t = p" "tok_kind t \<noteq> T_Eof"
  shows "laid_out (tok_lexeme t @ s) p (t # ts)"
proof -
  obtain gaps front where g: "placed (p + length (tok_lexeme t)) gaps ts" "s = glue gaps ts"
      "list_all (list_all is_ascii_whitespace) gaps"
      "ts = front @ [mk_token T_Eof [] (p + length (tok_lexeme t) + length s)]" "T_Eof \<notin> tok_kind ` set front"
    using assms(1) unfolding laid_out_def by blast
  have "placed p ([] # gaps) (t # ts) \<and> tok_lexeme t @ s = glue ([] # gaps) (t # ts)
      \<and> list_all (list_all is_ascii_whitespace) ([] # gaps)"
    using g(1-3) assms(2) by simp
  moreover have "t # ts = (t # front) @ [mk_token T_Eof [] (p + length (tok_lexeme t @ s))]"
    using g(4) by (simp add: add.assoc)
  moreover have "T_Eof \<notin> tok_kind ` set (t # front)" using g(5) assms(3) by auto
  ultimately show ?thesis unfolding laid_out_def by blast
qed

lemma tokenize_loop_laid_out:
  "pos \<le> length input \<Longrightarrow> tokenize_loop input pos tokens = Ok ts
     \<Longrightarrow> \<exists>new. ts = tokens @ new \<and> laid_out (drop pos input) pos new"
proof (induction input pos tokens rule: tokenize_loop.induct)
  case (1 input pos tokens)
  show ?case
  proof (cases "pos < length input")
    case True
    then obtain r pos' where step: "lex_step input pos = Ok (r, pos')"
        and rest: "tokenize_loop input pos' (case r of None \<Rightarrow> tokens | Some t \<Rightarrow> tokens @ [t]) = Ok ts"
      using "1.prems"(2) by (auto simp: tokenize_loop.simps[of input pos] outcome_simps)
    note tok = lex_step_token[OF True step, unfolded token_at_def]
    have le: "pos' \<le> length input" using tok by simp
    obtain new where new: "ts = (case r of None \<Rightarrow> tokens | Some t \<Rightarrow> tokens @ [t]) @ new"
        "laid_out (drop pos' input) pos' new"
      using "1.IH"[OF True step refl le rest] by blast
    show ?thesis
    proof (cases r)
      case None
      then have "drop pos input = input ! pos # drop pos' input" "pos' = Suc pos"
        using tok True by (simp_all add: Cons_nth_drop_Suc)
      then show ?thesis using laid_out_space[of "drop pos' input" pos new "input ! pos"] new tok None by simp
    next
      case (Some t)
      then have t: "tok_position t = pos" "tok_lexeme t = take (pos' - pos) (drop pos input)"
          "tok_kind t \<noteq> T_Eof" "pos < pos'" using tok by simp_all
      have d: "drop pos input = tok_lexeme t @ drop pos' input" and e: "pos + length (tok_lexeme t) = pos'"
        using t(2,4) le append_take_drop_id[of "pos' - pos" "drop pos input"] by simp_all
      have "laid_out (tok_lexeme t @ drop pos' input) pos (t # new)"
        by (rule laid_out_token) (use new(2) e t(1,3) in simp_all)
      then show ?thesis unfolding d[symmetric] using new(1) Some by simp
    qed
  next
    case False
    then have "ts = tokens @ [mk_token T_Eof [] pos]"
      using "1.prems"(2) by (simp add: tokenize_loop.simps[of input pos])
    moreover have "laid_out [] pos [mk_token T_Eof [] pos]"
      unfolding laid_out_def by (intro conjI exI[of _ "[[]]"] exI[of _ "[]"]) auto
    ultimately show ?thesis using False "1.prems"(1) by simp
  qed
qed

section \<open>ASCII input never panics\<close>

lemma slice_ascii_Panic:
  "is_ascii s \<Longrightarrow> slice s a b = Panic \<longleftrightarrow> \<not> (a \<le> b \<and> b \<le> length s)"
  by (auto simp: slice_def ascii_boundary)

lemma lex_number_ascii:
  assumes "is_ascii input" "start < length input"
  shows "lex_number input start \<noteq> Panic"
proof (cases "is_ascii_digit (input ! start)
    \<or> (input ! start = CHR ''-'' \<and> start + 1 < length input \<and> is_ascii_digit (input ! (start + 1)))")
  case True
  show ?thesis
    using True number_span[OF assms(2) True] unfolding lex_number_def Let_def
    by (simp add: outcome_simps slice_ascii_Panic[OF assms(1)] not_le split: if_splits) (auto dest: less_trans)
next
  case False
  then have "lex_number input start = lex_word input start" unfolding lex_number_def by (simp only: if_False)
  then show ?thesis
    using scan_while_bounds[of start input is_word_char] assms
    by (auto simp: lex_word_def Let_def outcome_simps slice_ascii_Panic)
qed

lemma lex_step_ascii:
  assumes "is_ascii input" "start < length input"
  shows "lex_step input start \<noteq> Panic"
proof -
  have "lex_uuid input start \<noteq> Panic"
    using scan_while_bounds[of start input is_word_char] lex_number_ascii[OF assms] assms
    by (auto simp: lex_uuid_def Let_def outcome_simps slice_ascii_Panic)
  then have "lex_single input start \<noteq> Panic"
    using assms by (auto simp: lex_single_def outcome_simps slice_ascii_Panic split: option.splits)
  then have "lex_two input start \<noteq> Panic"
    using assms by (auto simp: lex_two_def outcome_simps slice_ascii_Panic split: option.splits)
  then show ?thesis
    using assms by (auto simp: lex_step_def lex_string_def Let_def outcome_simps slice_ascii_Panic)
qed

lemma tokenize_loop_ascii:
  "is_ascii input \<Longrightarrow> tokenize_loop input pos tokens \<noteq> Panic"
proof (induction input pos tokens rule: tokenize_loop.induct)
  case (1 input pos tokens)
  then show ?case
    using lex_step_ascii[OF "1.prems"]
    by (auto simp: tokenize_loop.simps[of input pos] outcome_simps)
qed

section \<open>Properties\<close>

text \<open>C16: The lexer loses nothing but whitespace. When it succeeds, the input is the tokens' lexemes with runs of
  whitespace between them, each token records the byte offset at which its lexeme starts, and the
  list ends with the only end-of-input token, placed at the end of the input.\<close>

theorem tokenize_covers_input:
  assumes "tokenize input = Ok ts"
  shows "\<exists>gaps front. placed 0 gaps ts \<and> input = glue gaps ts
    \<and> list_all (list_all is_ascii_whitespace) gaps
    \<and> ts = front @ [mk_token T_Eof [] (length input)] \<and> T_Eof \<notin> tok_kind ` set front"
proof -
  have "laid_out input 0 ts"
    using tokenize_loop_laid_out[of 0 input "[]" ts] assms by (simp add: tokenize_def)
  then show ?thesis by (auto simp: laid_out_def)
qed

text \<open>
  A query with typographic quotes is well-formed text, but its first byte outside a string literal that
  is followed by the middle of a character makes the two-byte slice panic instead of the error the lexer reports
  for an unexpected character.
\<close>

definition smart_quote_query :: string where
  "smart_quote_query = ''FORGET '' @ [CHR 0xE2, CHR 0x80, CHR 0x9C] @ ''a'' @ [CHR 0xE2, CHR 0x80, CHR 0x9D]"

lemma tokenize_smart_quotes_panic: "valid_utf8 smart_quote_query \<and> tokenize smart_quote_query = Panic"
  by code_simp

theorem tokenize_covers_input_witness:
  "\<exists>gaps front. placed 0 gaps [mk_token T_Forget ''FORGET'' 0, mk_token T_StringLit [CHR 0x22, CHR 0x22] 7,
       mk_token T_Eof [] 9]
     \<and> ''FORGET '' @ [CHR 0x22, CHR 0x22] = glue gaps [mk_token T_Forget ''FORGET'' 0,
       mk_token T_StringLit [CHR 0x22, CHR 0x22] 7, mk_token T_Eof [] 9]
     \<and> list_all (list_all is_ascii_whitespace) gaps
     \<and> [mk_token T_Forget ''FORGET'' 0, mk_token T_StringLit [CHR 0x22, CHR 0x22] 7, mk_token T_Eof [] 9]
         = front @ [mk_token T_Eof [] (length (''FORGET '' @ [CHR 0x22, CHR 0x22]))]
     \<and> T_Eof \<notin> tok_kind ` set front"
  by (rule tokenize_covers_input) code_simp

end
