(* ===== verification/Rust_Text.thy ===== *)
theory Rust_Text
  imports Rust_Float
begin

text \<open>
  Numbers in text: the \<open>FromStr\<close> of the standard library for unsigned and signed integers and for
  floats, and the decimal \<open>Display\<close> of a signed integer.
\<close>

definition is_digit :: "char \<Rightarrow> bool" where
  "is_digit c = (48 \<le> byte c \<and> byte c \<le> 57)"

definition digits_value :: "string \<Rightarrow> nat" where
  "digits_value = foldl (\<lambda>acc c. 10 * acc + (byte c - 48)) 0"

definition parse_digits :: "string \<Rightarrow> nat option" where
  "parse_digits s = (if s \<noteq> [] \<and> list_all is_digit s then Some (digits_value s) else None)"

text \<open>\<open>str::parse::<usize>\<close>: a leading plus sign is accepted, overflow is an error.\<close>

definition parse_usize :: "string \<Rightarrow> nat option" where
  "parse_usize s =
     (case parse_digits (case s of [] \<Rightarrow> [] | c # cs \<Rightarrow> if c = CHR ''+'' then cs else s) of
        None \<Rightarrow> None | Some n \<Rightarrow> if n \<le> u64_max then Some n else None)"

definition parse_i64 :: "string \<Rightarrow> int option" where
  "parse_i64 s =
     (let (neg, rest) = (case s of [] \<Rightarrow> (False, [])
        | c # cs \<Rightarrow> if c = CHR ''+'' then (False, cs) else if c = CHR ''-'' then (True, cs) else (False, s))
      in case parse_digits rest of None \<Rightarrow> None
         | Some n \<Rightarrow> let v = (if neg then - int n else int n)
                    in if i64_min \<le> v \<and> v \<le> i64_max then Some v else None)"

text \<open>
  \<open>str::parse::<f32>\<close> and \<open>f64\<close>: an optional sign, then \<open>inf\<close>, \<open>infinity\<close>, \<open>nan\<close> in any case, or
  digits with at most one point and at least one digit, and an optional exponent. The value is the
  decimal, rounded once.
\<close>

definition pow10 :: "int \<Rightarrow> rat" where
  "pow10 k = (if 0 \<le> k then of_int (10 ^ nat k) else Fract 1 (10 ^ nat (- k)))"

definition parse_exponent :: "string \<Rightarrow> int option" where
  "parse_exponent s =
     (case s of [] \<Rightarrow> Some 0
      | c # cs \<Rightarrow> if c = CHR ''e'' \<or> c = CHR ''E''
          then (case cs of [] \<Rightarrow> None
                | d # ds \<Rightarrow> if d = CHR ''-'' then map_option (\<lambda>n. - int n) (parse_digits ds)
                           else map_option int (parse_digits (if d = CHR ''+'' then ds else cs)))
          else None)"

definition parse_decimal :: "string \<Rightarrow> rat option" where
  "parse_decimal s =
     (let ip = takeWhile is_digit s; r1 = dropWhile is_digit s;
          (fp, r2) = (case r1 of [] \<Rightarrow> ([], [])
            | c # cs \<Rightarrow> if c = CHR ''.'' then (takeWhile is_digit cs, dropWhile is_digit cs) else ([], r1))
      in if ip @ fp = [] then None
         else map_option (\<lambda>e. of_nat (digits_value (ip @ fp)) * pow10 (e - int (length fp)))
                (parse_exponent r2))"

definition parse_float :: "(rat \<Rightarrow> fl) \<Rightarrow> string \<Rightarrow> fl option" where
  "parse_float R s =
     (let (neg, rest) = (case s of [] \<Rightarrow> (False, [])
        | c # cs \<Rightarrow> if c = CHR ''+'' then (False, cs) else if c = CHR ''-'' then (True, cs) else (False, s));
          lower = to_ascii_lowercase rest
      in if lower = ''inf'' \<or> lower = ''infinity'' then Some (Inf neg)
         else if lower = ''nan'' then Some NaN
         else map_option (\<lambda>v. R (if neg then - v else v)) (parse_decimal rest))"

definition show_int :: "int \<Rightarrow> string" where
  "show_int i = (if i < 0 then CHR ''-'' # show_nat (nat (- i)) else show_nat (nat i))"

section \<open>Printing and parsing integers\<close>

lemma digit_char_byte: "d < 10 \<Longrightarrow> byte (digit_char d) = 48 + d"
  by (simp add: byte_def digit_char_def of_char_of)

lemma digits_value_snoc: "digits_value (s @ [c]) = 10 * digits_value s + (byte c - 48)"
  by (simp add: digits_value_def)

lemma show_nat_digits:
  "show_nat n \<noteq> [] \<and> list_all is_digit (show_nat n) \<and> digits_value (show_nat n) = n"
proof (induction n rule: show_nat.induct)
  case (1 n)
  show ?case
  proof (cases "n < 10")
    case True
    then show ?thesis
      by (simp add: show_nat.simps[of n] is_digit_def digit_char_byte digits_value_def)
  next
    case False
    then show ?thesis
      using 1 by (simp add: show_nat.simps[of n] is_digit_def digit_char_byte digits_value_snoc)
  qed
qed

lemma parse_digits_show_nat [simp]: "parse_digits (show_nat n) = Some n"
  by (simp add: parse_digits_def show_nat_digits)

lemma show_nat_head:
  obtains c cs where "show_nat n = c # cs" "c \<noteq> CHR ''+''" "c \<noteq> CHR ''-''"
proof -
  obtain c cs where c: "show_nat n = c # cs" using show_nat_digits[of n] by (cases "show_nat n") auto
  then have "is_digit c" using show_nat_digits[of n] by simp
  moreover have "\<not> is_digit (CHR ''+'')" "\<not> is_digit (CHR ''-'')" by (simp_all add: is_digit_def byte_def)
  ultimately show thesis using that[OF c] by metis
qed

lemma parse_usize_show_nat: "n \<le> u64_max \<Longrightarrow> parse_usize (show_nat n) = Some n"
proof -
  assume n: "n \<le> u64_max"
  obtain c cs where c: "show_nat n = c # cs" "c \<noteq> CHR ''+''" by (rule show_nat_head)
  have "parse_digits (c # cs) = Some n" using parse_digits_show_nat[of n] c(1) by simp
  then show ?thesis using n c by (simp add: parse_usize_def)
qed

lemma parse_i64_show_int:
  assumes "i64_min \<le> i" "i \<le> i64_max"
  shows "parse_i64 (show_int i) = Some i"
proof (cases "i < 0")
  case True
  then show ?thesis using assms by (simp add: parse_i64_def show_int_def)
next
  case False
  obtain c cs where c: "show_nat (nat i) = c # cs" "c \<noteq> CHR ''+''" "c \<noteq> CHR ''-''"
    by (rule show_nat_head)
  have "parse_digits (c # cs) = Some (nat i)" using parse_digits_show_nat[of "nat i"] c(1) by simp
  then show ?thesis using False assms c by (simp add: parse_i64_def show_int_def)
qed

text \<open>\<open>{:.k}\<close> of a float: the exact value rounded to \<open>k\<close> decimals, ties to even.\<close>

fun last_digits :: "nat \<Rightarrow> nat \<Rightarrow> string" where
  "last_digits 0 n = []"
| "last_digits (Suc k) n = last_digits k (n div 10) @ [digit_char (n mod 10)]"

fun show_fixed :: "nat \<Rightarrow> fl \<Rightarrow> string" where
  "show_fixed k NaN = ''NaN''"
| "show_fixed k (Inf s) = (if s then ''-inf'' else ''inf'')"
| "show_fixed k (Fin a) =
     (let n = nat (rnd_even (\<bar>a\<bar> * 10 ^ k))
      in (if a < 0 then ''-'' else []) @ show_nat (n div 10 ^ k) @ ''.'' @ last_digits k n)"

end
