(* ===== verification/Mql_Parser.thy ===== *)
theory Mql_Parser
  imports Mql_Lexer Rust_Text
begin

text \<open>
  The MQL syntax tree and the recursive descent parser: \<open>crates/mentedb-query/src/ast.rs\<close> and
  \<open>parser.rs\<close>. A parsing function takes the tokens and the position and returns the value with the new
  position, an error, or a panic. Parsing a UUID is the uuid crate's: it is the argument
  \<open>uuid_parse\<close>. The two \<open>while\<close> loops recurse on fuel, one more than the number of tokens; running out counts
  as a panic, so that the theorems that exclude panics also show that the loops end.
\<close>

section \<open>Syntax tree\<close>

datatype Field = F_Content | F_Type | F_Tag | F_Agent | F_Space | F_Salience | F_Confidence
  | F_Created | F_Accessed

datatype Operator = O_Eq | O_Neq | O_Gt | O_Lt | O_Gte | O_Lte | O_SimilarTo

datatype Value = V_Text string | V_Number f64 | V_Integer int | V_Bool bool | V_Uuid uuid
  | V_Vector "f32 list" | V_MemoryType MemoryType | V_EdgeType EdgeType

record Filter =
  flt_field :: Field
  flt_op :: Operator
  flt_value :: Value

record OrderBy =
  ob_field :: Field
  ob_descending :: bool

record RecallStatement =
  rs_filters :: "Filter list"
  rs_near :: "f32 list option"
  rs_limit :: "nat option"
  rs_order_by :: "OrderBy option"

record RelateStatement =
  rl_source :: MemoryId
  rl_target :: MemoryId
  rl_edge_type :: EdgeType
  rl_weight :: "f32 option"

record ForgetStatement =
  fs_target :: MemoryId

record ConsolidateStatement =
  cn_filters :: "Filter list"

record TraverseStatement =
  tv_start :: MemoryId
  tv_depth :: nat
  tv_edge_filter :: "EdgeType list option"

datatype Statement = S_Recall RecallStatement | S_Relate RelateStatement | S_Forget ForgetStatement
  | S_Consolidate ConsolidateStatement | S_Traverse TraverseStatement

section \<open>The parser's cursor\<close>

type_synonym 'a parsed = "(MenteError, 'a \<times> nat) outcome"

text \<open>The name of a token kind as its derived \<open>Debug\<close> prints it.\<close>

fun kind_name :: "TokenKind \<Rightarrow> string" where
  "kind_name T_Recall = ''Recall''"
| "kind_name T_Relate = ''Relate''"
| "kind_name T_Forget = ''Forget''"
| "kind_name T_Consolidate = ''Consolidate''"
| "kind_name T_Traverse = ''Traverse''"
| "kind_name T_Where = ''Where''"
| "kind_name T_And = ''And''"
| "kind_name T_Or = ''Or''"
| "kind_name T_Not = ''Not''"
| "kind_name T_Near = ''Near''"
| "kind_name T_Within = ''Within''"
| "kind_name T_Limit = ''Limit''"
| "kind_name T_OrderBy = ''OrderBy''"
| "kind_name T_As = ''As''"
| "kind_name T_From = ''From''"
| "kind_name T_To = ''To''"
| "kind_name T_With = ''With''"
| "kind_name T_Agent = ''Agent''"
| "kind_name T_Space = ''Space''"
| "kind_name T_Type = ''Type''"
| "kind_name T_Tag = ''Tag''"
| "kind_name T_Salience = ''Salience''"
| "kind_name T_Confidence = ''Confidence''"
| "kind_name T_Created = ''Created''"
| "kind_name T_Accessed = ''Accessed''"
| "kind_name T_Depth = ''Depth''"
| "kind_name T_Hops = ''Hops''"
| "kind_name T_Memories = ''Memories''"
| "kind_name T_By = ''By''"
| "kind_name T_EdgeType = ''EdgeType''"
| "kind_name T_Eq = ''Eq''"
| "kind_name T_Neq = ''Neq''"
| "kind_name T_Gt = ''Gt''"
| "kind_name T_Lt = ''Lt''"
| "kind_name T_Gte = ''Gte''"
| "kind_name T_Lte = ''Lte''"
| "kind_name T_SimilarTo = ''SimilarTo''"
| "kind_name T_Arrow = ''Arrow''"
| "kind_name T_LParen = ''LParen''"
| "kind_name T_RParen = ''RParen''"
| "kind_name T_LBracket = ''LBracket''"
| "kind_name T_RBracket = ''RBracket''"
| "kind_name T_Comma = ''Comma''"
| "kind_name T_Dot = ''Dot''"
| "kind_name T_Colon = ''Colon''"
| "kind_name T_Semicolon = ''Semicolon''"
| "kind_name T_StringLit = ''StringLit''"
| "kind_name T_IntegerLit = ''IntegerLit''"
| "kind_name T_FloatLit = ''FloatLit''"
| "kind_name T_Identifier = ''Identifier''"
| "kind_name T_UuidLit = ''UuidLit''"
| "kind_name T_Eof = ''Eof''"

definition quoted :: "string \<Rightarrow> string" where
  "quoted s = [CHR 0x27] @ s @ [CHR 0x27]"

text \<open>\<open>tokens.len() - 1\<close> underflows or the index is out of range when there are no tokens.\<close>

definition peek :: "Token list \<Rightarrow> nat \<Rightarrow> (MenteError, Token) outcome" where
  "peek toks pos = (if toks = [] then Panic else Ok (toks ! min pos (length toks - 1)))"

definition advance :: "Token list \<Rightarrow> nat \<Rightarrow> Token parsed" where
  "advance toks pos = bindO (peek toks pos) (\<lambda>tok. Ok (tok, if pos < length toks then pos + 1 else pos))"

definition expect :: "TokenKind \<Rightarrow> Token list \<Rightarrow> nat \<Rightarrow> Token parsed" where
  "expect kind toks pos = bindO (peek toks pos) (\<lambda>tok.
     if tok_kind tok \<noteq> kind
     then Err (Query (''expected '' @ kind_name kind @ '', found '' @ kind_name (tok_kind tok) @ '' (''
            @ quoted (tok_lexeme tok) @ '') at position '' @ show_nat (tok_position tok)))
     else advance toks pos)"

definition at_kind :: "TokenKind \<Rightarrow> Token list \<Rightarrow> nat \<Rightarrow> (MenteError, bool) outcome" where
  "at_kind kind toks pos = bindO (peek toks pos) (\<lambda>tok. Ok (tok_kind tok = kind))"

definition found_error :: "string \<Rightarrow> Token \<Rightarrow> MenteError" where
  "found_error what tok = Query (''expected '' @ what @ '', found '' @ quoted (tok_lexeme tok)
     @ '' at position '' @ show_nat (tok_position tok))"

section \<open>Leaves\<close>

definition eq_ignore_ascii_case :: "string \<Rightarrow> string \<Rightarrow> bool" where
  "eq_ignore_ascii_case a b = (to_ascii_lowercase a = to_ascii_lowercase b)"

definition parse_field :: "Token list \<Rightarrow> nat \<Rightarrow> Field parsed" where
  "parse_field toks pos = bindO (advance toks pos) (\<lambda>(tok, pos).
     case tok_kind tok of
       T_Type \<Rightarrow> Ok (F_Type, pos) | T_Tag \<Rightarrow> Ok (F_Tag, pos) | T_Agent \<Rightarrow> Ok (F_Agent, pos)
     | T_Space \<Rightarrow> Ok (F_Space, pos) | T_Salience \<Rightarrow> Ok (F_Salience, pos)
     | T_Confidence \<Rightarrow> Ok (F_Confidence, pos) | T_Created \<Rightarrow> Ok (F_Created, pos)
     | T_Accessed \<Rightarrow> Ok (F_Accessed, pos)
     | k \<Rightarrow> if k = T_Identifier \<and> eq_ignore_ascii_case (tok_lexeme tok) ''content'' then Ok (F_Content, pos)
           else Err (found_error ''field name'' tok))"

definition parse_operator :: "Token list \<Rightarrow> nat \<Rightarrow> Operator parsed" where
  "parse_operator toks pos = bindO (advance toks pos) (\<lambda>(tok, pos).
     case tok_kind tok of
       T_Eq \<Rightarrow> Ok (O_Eq, pos) | T_Neq \<Rightarrow> Ok (O_Neq, pos) | T_Gt \<Rightarrow> Ok (O_Gt, pos) | T_Lt \<Rightarrow> Ok (O_Lt, pos)
     | T_Gte \<Rightarrow> Ok (O_Gte, pos) | T_Lte \<Rightarrow> Ok (O_Lte, pos) | T_SimilarTo \<Rightarrow> Ok (O_SimilarTo, pos)
     | _ \<Rightarrow> Err (found_error ''operator'' tok))"

text \<open>\<open>tok.lexeme[1..tok.lexeme.len() - 1]\<close>; \<open>len() - 1\<close> underflows on an empty lexeme.\<close>

definition strip_quotes :: "string \<Rightarrow> (MenteError, string) outcome" where
  "strip_quotes s = (if s = [] then Panic else slice s 1 (length s - 1))"

definition parse_name :: "string \<Rightarrow> Token list \<Rightarrow> nat \<Rightarrow> string parsed" where
  "parse_name what toks pos = bindO (advance toks pos) (\<lambda>(tok, pos).
     if tok_kind tok = T_StringLit then bindO (strip_quotes (tok_lexeme tok)) (\<lambda>name. Ok (name, pos))
     else if tok_kind tok = T_Identifier then Ok (tok_lexeme tok, pos)
     else Err (found_error what tok))"

text \<open>
  \<open>to_lowercase\<close> maps no character outside ASCII to a letter that the names below have, so comparing
  the ASCII lower case decides the same match.
\<close>

definition memory_type_of :: "string \<Rightarrow> MemoryType option" where
  "memory_type_of lower = map_of
     [(''episodic'', Episodic), (''semantic'', Semantic), (''procedural'', Procedural),
      (''antipattern'', AntiPattern), (''anti_pattern'', AntiPattern), (''reasoning'', Reasoning),
      (''correction'', Correction)] lower"

definition edge_type_of :: "string \<Rightarrow> EdgeType option" where
  "edge_type_of lower = map_of
     [(''caused'', Caused), (''before'', Before), (''related'', Related), (''contradicts'', Contradicts),
      (''supports'', Supports), (''supersedes'', Supersedes), (''derived'', Derived), (''partof'', PartOf),
      (''part_of'', PartOf)] lower"

definition parse_memory_type_value :: "Token list \<Rightarrow> nat \<Rightarrow> Value parsed" where
  "parse_memory_type_value toks pos = bindO (parse_name ''memory type'' toks pos) (\<lambda>(name, pos).
     case memory_type_of (to_ascii_lowercase name) of
       Some mt \<Rightarrow> Ok (V_MemoryType mt, pos)
     | None \<Rightarrow> Err (Query (''unknown memory type: '' @ name)))"

definition parse_edge_type :: "Token list \<Rightarrow> nat \<Rightarrow> EdgeType parsed" where
  "parse_edge_type toks pos = bindO (parse_name ''edge type'' toks pos) (\<lambda>(name, pos).
     case edge_type_of (to_ascii_lowercase name) of
       Some et \<Rightarrow> Ok (et, pos)
     | None \<Rightarrow> Err (Query (''unknown edge type: '' @ name)))"

definition parse_uuid :: "(string \<Rightarrow> uuid option) \<Rightarrow> Token list \<Rightarrow> nat \<Rightarrow> MemoryId parsed" where
  "parse_uuid uuid_parse toks pos = bindO (advance toks pos) (\<lambda>(tok, pos).
     case tok_kind tok of
       T_UuidLit \<Rightarrow> (case uuid_parse (tok_lexeme tok) of
           Some u \<Rightarrow> Ok (MemoryId u, pos)
         | None \<Rightarrow> Err (Query (''invalid UUID: '' @ tok_lexeme tok)))
     | T_StringLit \<Rightarrow> bindO (strip_quotes (tok_lexeme tok)) (\<lambda>inner.
         case uuid_parse inner of
           Some u \<Rightarrow> Ok (MemoryId u, pos)
         | None \<Rightarrow> Err (Query (''invalid UUID in string: '' @ tok_lexeme tok)))
     | _ \<Rightarrow> Err (found_error ''UUID'' tok))"

section \<open>Vectors and values\<close>

definition parse_element :: "Token list \<Rightarrow> nat \<Rightarrow> f32 parsed" where
  "parse_element toks pos = bindO (advance toks pos) (\<lambda>(tok, pos).
     case parse_float f32_of (tok_lexeme tok) of
       Some v \<Rightarrow> Ok (v, pos)
     | None \<Rightarrow> Err (Query (''invalid float in vector: '' @ tok_lexeme tok)))"

fun parse_elements :: "nat \<Rightarrow> Token list \<Rightarrow> nat \<Rightarrow> f32 list \<Rightarrow> f32 list parsed" where
  "parse_elements 0 toks pos values = Panic"
| "parse_elements (Suc fuel) toks pos values = bindO (at_kind T_Comma toks pos) (\<lambda>comma.
     if comma
     then bindO (advance toks pos) (\<lambda>(_, pos). bindO (parse_element toks pos) (\<lambda>(v, pos).
            parse_elements fuel toks pos (values @ [v])))
     else Ok (values, pos))"

definition parse_vector :: "Token list \<Rightarrow> nat \<Rightarrow> f32 list parsed" where
  "parse_vector toks pos = bindO (expect T_LBracket toks pos) (\<lambda>(_, pos).
     bindO (at_kind T_RBracket toks pos) (\<lambda>empty.
     bindO (if empty then Ok ([], pos)
            else bindO (parse_element toks pos) (\<lambda>(v, pos).
                   parse_elements (length toks + 1) toks pos [v])) (\<lambda>(values, pos).
     bindO (expect T_RBracket toks pos) (\<lambda>(_, pos). Ok (values, pos)))))"

definition parse_value :: "(string \<Rightarrow> uuid option) \<Rightarrow> Field \<Rightarrow> Token list \<Rightarrow> nat \<Rightarrow> Value parsed" where
  "parse_value uuid_parse field toks pos =
     (if field = F_Type then parse_memory_type_value toks pos
      else bindO (advance toks pos) (\<lambda>(tok, pos).
        case tok_kind tok of
          T_StringLit \<Rightarrow> bindO (strip_quotes (tok_lexeme tok)) (\<lambda>inner.
            case uuid_parse inner of
              Some u \<Rightarrow> Ok (V_Uuid u, pos)
            | None \<Rightarrow> Ok (V_Text inner, pos))
        | T_IntegerLit \<Rightarrow> (case parse_i64 (tok_lexeme tok) of
              Some n \<Rightarrow> Ok (V_Integer n, pos)
            | None \<Rightarrow> Err (Query (''invalid integer: '' @ tok_lexeme tok)))
        | T_FloatLit \<Rightarrow> (case parse_float f64_of (tok_lexeme tok) of
              Some n \<Rightarrow> Ok (V_Number n, pos)
            | None \<Rightarrow> Err (Query (''invalid float: '' @ tok_lexeme tok)))
        | T_UuidLit \<Rightarrow> (case uuid_parse (tok_lexeme tok) of
              Some u \<Rightarrow> Ok (V_Uuid u, pos)
            | None \<Rightarrow> Err (Query (''invalid UUID: '' @ tok_lexeme tok)))
        | T_Identifier \<Rightarrow>
            (let lower = to_ascii_lowercase (tok_lexeme tok) in
             if lower = ''true'' then Ok (V_Bool True, pos)
             else if lower = ''false'' then Ok (V_Bool False, pos)
             else Ok (V_Text (tok_lexeme tok), pos))
        | T_LBracket \<Rightarrow> bindO (parse_vector toks (pos - 1)) (\<lambda>(v, pos). Ok (V_Vector v, pos))
        | _ \<Rightarrow> Err (found_error ''value'' tok)))"

section \<open>Filters\<close>

definition parse_filter :: "(string \<Rightarrow> uuid option) \<Rightarrow> Token list \<Rightarrow> nat \<Rightarrow> Filter parsed" where
  "parse_filter uuid_parse toks pos = bindO (parse_field toks pos) (\<lambda>(field, pos).
     bindO (parse_operator toks pos) (\<lambda>(op, pos).
     bindO (parse_value uuid_parse field toks pos) (\<lambda>(value, pos).
       Ok (\<lparr> flt_field = field, flt_op = op, flt_value = value \<rparr>, pos))))"

fun parse_and_filters :: "(string \<Rightarrow> uuid option) \<Rightarrow> nat \<Rightarrow> Token list \<Rightarrow> nat \<Rightarrow> Filter list \<Rightarrow> Filter list parsed" where
  "parse_and_filters uuid_parse 0 toks pos filters = Panic"
| "parse_and_filters uuid_parse (Suc fuel) toks pos filters = bindO (at_kind T_And toks pos) (\<lambda>more.
     if more
     then bindO (advance toks pos) (\<lambda>(_, pos). bindO (parse_filter uuid_parse toks pos) (\<lambda>(f, pos).
            parse_and_filters uuid_parse fuel toks pos (filters @ [f])))
     else Ok (filters, pos))"

definition parse_filters :: "(string \<Rightarrow> uuid option) \<Rightarrow> Token list \<Rightarrow> nat \<Rightarrow> Filter list parsed" where
  "parse_filters uuid_parse toks pos = bindO (parse_filter uuid_parse toks pos) (\<lambda>(f, pos).
     parse_and_filters uuid_parse (length toks + 1) toks pos [f])"

section \<open>Statements\<close>

text \<open>An optional clause \<open>if self.at(kind) { self.advance(); ... }\<close> with the value it has when absent.\<close>

definition opt_clause :: "TokenKind \<Rightarrow> 'a \<Rightarrow> (Token list \<Rightarrow> nat \<Rightarrow> 'a parsed) \<Rightarrow> Token list \<Rightarrow> nat \<Rightarrow> 'a parsed" where
  "opt_clause kind absent p toks pos = bindO (at_kind kind toks pos) (\<lambda>present.
     if present then bindO (advance toks pos) (\<lambda>(_, pos). p toks pos) else Ok (absent, pos))"

definition parse_count :: "string \<Rightarrow> Token list \<Rightarrow> nat \<Rightarrow> nat parsed" where
  "parse_count what toks pos = bindO (advance toks pos) (\<lambda>(tok, pos).
     case parse_usize (tok_lexeme tok) of
       Some n \<Rightarrow> Ok (n, pos)
     | None \<Rightarrow> Err (Query (''invalid '' @ what @ '' value: '' @ tok_lexeme tok)))"

definition some_of :: "'a parsed \<Rightarrow> 'a option parsed" where
  "some_of r = bindO r (\<lambda>(v, pos). Ok (Some v, pos))"

definition parse_recall :: "(string \<Rightarrow> uuid option) \<Rightarrow> Token list \<Rightarrow> nat \<Rightarrow> Statement parsed" where
  "parse_recall uuid_parse toks pos = bindO (advance toks pos) (\<lambda>(_, pos).
     bindO (opt_clause T_Memories () (\<lambda>toks pos. Ok ((), pos)) toks pos) (\<lambda>(_, pos).
     bindO (opt_clause T_Near None (\<lambda>toks pos. some_of (parse_vector toks pos)) toks pos) (\<lambda>(near, pos).
     bindO (opt_clause T_Where [] (parse_filters uuid_parse) toks pos) (\<lambda>(filters, pos).
     bindO (opt_clause T_OrderBy None (\<lambda>toks pos.
         bindO (opt_clause T_By () (\<lambda>toks pos. Ok ((), pos)) toks pos) (\<lambda>(_, pos).
         bindO (parse_field toks pos) (\<lambda>(field, pos).
           Ok (Some \<lparr> ob_field = field, ob_descending = False \<rparr>, pos)))) toks pos) (\<lambda>(order_by, pos).
     bindO (opt_clause T_Limit None (\<lambda>toks pos. some_of (parse_count ''limit'' toks pos)) toks pos) (\<lambda>(limit, pos).
       Ok (S_Recall \<lparr> rs_filters = filters, rs_near = near, rs_limit = limit, rs_order_by = order_by \<rparr>, pos)))))))"

definition parse_weight :: "Token list \<Rightarrow> nat \<Rightarrow> f32 parsed" where
  "parse_weight toks pos = bindO (expect T_Identifier toks pos) (\<lambda>(_, pos).
     bindO (expect T_Eq toks pos) (\<lambda>(_, pos).
     bindO (advance toks pos) (\<lambda>(tok, pos).
       case parse_float f32_of (tok_lexeme tok) of
         Some w \<Rightarrow> Ok (w, pos)
       | None \<Rightarrow> Err (Query (''invalid weight value: '' @ tok_lexeme tok)))))"

definition parse_relate :: "(string \<Rightarrow> uuid option) \<Rightarrow> Token list \<Rightarrow> nat \<Rightarrow> Statement parsed" where
  "parse_relate uuid_parse toks pos = bindO (advance toks pos) (\<lambda>(_, pos).
     bindO (parse_uuid uuid_parse toks pos) (\<lambda>(source, pos).
     bindO (expect T_Arrow toks pos) (\<lambda>(_, pos).
     bindO (parse_uuid uuid_parse toks pos) (\<lambda>(target, pos).
     bindO (expect T_As toks pos) (\<lambda>(_, pos).
     bindO (parse_edge_type toks pos) (\<lambda>(edge_type, pos).
     bindO (opt_clause T_With None (\<lambda>toks pos. some_of (parse_weight toks pos)) toks pos) (\<lambda>(weight, pos).
       Ok (S_Relate \<lparr> rl_source = source, rl_target = target, rl_edge_type = edge_type,
             rl_weight = weight \<rparr>, pos))))))))"

definition parse_forget :: "(string \<Rightarrow> uuid option) \<Rightarrow> Token list \<Rightarrow> nat \<Rightarrow> Statement parsed" where
  "parse_forget uuid_parse toks pos = bindO (advance toks pos) (\<lambda>(_, pos).
     bindO (parse_uuid uuid_parse toks pos) (\<lambda>(target, pos). Ok (S_Forget \<lparr> fs_target = target \<rparr>, pos)))"

definition parse_consolidate :: "(string \<Rightarrow> uuid option) \<Rightarrow> Token list \<Rightarrow> nat \<Rightarrow> Statement parsed" where
  "parse_consolidate uuid_parse toks pos = bindO (advance toks pos) (\<lambda>(_, pos).
     bindO (opt_clause T_Where [] (parse_filters uuid_parse) toks pos) (\<lambda>(filters, pos).
       Ok (S_Consolidate \<lparr> cn_filters = filters \<rparr>, pos)))"

definition parse_edge_filter :: "Token list \<Rightarrow> nat \<Rightarrow> EdgeType list parsed" where
  "parse_edge_filter toks pos = bindO (expect T_EdgeType toks pos) (\<lambda>(_, pos).
     bindO (expect T_Eq toks pos) (\<lambda>(_, pos).
     bindO (parse_edge_type toks pos) (\<lambda>(et, pos). Ok ([et], pos))))"

definition parse_traverse :: "(string \<Rightarrow> uuid option) \<Rightarrow> Token list \<Rightarrow> nat \<Rightarrow> Statement parsed" where
  "parse_traverse uuid_parse toks pos = bindO (advance toks pos) (\<lambda>(_, pos).
     bindO (parse_uuid uuid_parse toks pos) (\<lambda>(start, pos).
     bindO (expect T_Depth toks pos) (\<lambda>(_, pos).
     bindO (parse_count ''depth'' toks pos) (\<lambda>(depth, pos).
     bindO (opt_clause T_Where None (\<lambda>toks pos. some_of (parse_edge_filter toks pos)) toks pos) (\<lambda>(edge_filter, pos).
       Ok (S_Traverse \<lparr> tv_start = start, tv_depth = depth, tv_edge_filter = edge_filter \<rparr>, pos))))))"

definition parse_statement :: "(string \<Rightarrow> uuid option) \<Rightarrow> Token list \<Rightarrow> nat \<Rightarrow> Statement parsed" where
  "parse_statement uuid_parse toks pos = bindO (peek toks pos) (\<lambda>tok.
     case tok_kind tok of
       T_Recall \<Rightarrow> parse_recall uuid_parse toks pos
     | T_Relate \<Rightarrow> parse_relate uuid_parse toks pos
     | T_Forget \<Rightarrow> parse_forget uuid_parse toks pos
     | T_Consolidate \<Rightarrow> parse_consolidate uuid_parse toks pos
     | T_Traverse \<Rightarrow> parse_traverse uuid_parse toks pos
     | k \<Rightarrow> Err (Query (''expected statement keyword, found '' @ kind_name k @ '' at position ''
              @ show_nat (tok_position tok))))"

definition mql_parser_parse :: "(string \<Rightarrow> uuid option) \<Rightarrow> Token list \<Rightarrow> Statement MenteResult" where
  "mql_parser_parse uuid_parse toks = bindO (parse_statement uuid_parse toks 0) (\<lambda>(s, _). Ok s)"

section \<open>The parser ends and never panics\<close>

text \<open>Tokens as the lexer makes them: the last is the end of input, and string literals have their quotes.\<close>

definition wf_tokens :: "Token list \<Rightarrow> bool" where
  "wf_tokens toks \<longleftrightarrow> toks \<noteq> [] \<and> tok_kind (last toks) = T_Eof
     \<and> (\<forall>t \<in> set toks. tok_kind t = T_StringLit \<longrightarrow> strip_quotes (tok_lexeme t) \<noteq> Panic)"

text \<open>A parsing step that returns moves forward within the tokens.\<close>

definition fine :: "Token list \<Rightarrow> nat \<Rightarrow> 'a parsed \<Rightarrow> bool" where
  "fine toks pos r \<longleftrightarrow> r \<noteq> Panic \<and> (\<forall>x p. r = Ok (x, p) \<longrightarrow> pos \<le> p \<and> p \<le> length toks)"

lemma fine_Err [simp, intro]: "fine toks pos (Err e)"
  by (simp add: fine_def)

lemma fine_Ok: "pos \<le> p \<Longrightarrow> p \<le> length toks \<Longrightarrow> fine toks pos (Ok (x, p))"
  by (simp add: fine_def)

lemma fine_mono: "pos \<le> p \<Longrightarrow> fine toks p r \<Longrightarrow> fine toks pos r"
  unfolding fine_def using le_trans by fast

lemma fine_bind:
  assumes "fine toks pos m"
    and "\<And>x p. m = Ok (x, p) \<Longrightarrow> pos \<le> p \<Longrightarrow> p \<le> length toks \<Longrightarrow> fine toks p (f (x, p))"
  shows "fine toks pos (bindO m f)"
proof (cases m)
  case (Ok v)
  then have v: "m = Ok (fst v, snd v)" by simp
  then have "pos \<le> snd v" "snd v \<le> length toks" using assms(1) unfolding fine_def by blast+
  then have "fine toks pos (f (fst v, snd v))" using assms(2)[OF v] fine_mono by blast
  then show ?thesis using Ok by simp
qed (use assms(1) in \<open>simp_all add: fine_def\<close>)

lemma peek_wf: "wf_tokens toks \<Longrightarrow> peek toks pos = Ok (toks ! min pos (length toks - 1))"
  by (simp add: peek_def wf_tokens_def)

lemma peek_in: "peek toks pos = Ok tok \<Longrightarrow> tok \<in> set toks"
proof -
  assume p: "peek toks pos = Ok tok"
  then have "min pos (length toks - 1) < length toks" by (cases toks) (auto simp: peek_def)
  then show ?thesis using p nth_mem by (auto simp: peek_def split: if_splits)
qed

lemma peek_not_Eof:
  assumes "wf_tokens toks" "pos \<le> length toks" "peek toks pos = Ok tok" "tok_kind tok \<noteq> T_Eof"
  shows "pos < length toks - 1"
proof (rule ccontr)
  assume "\<not> pos < length toks - 1"
  then have "min pos (length toks - 1) = length toks - 1" by simp
  then have "tok = last toks" using assms(1,3) by (simp add: peek_def last_conv_nth wf_tokens_def)
  then show False using assms(1,4) by (simp add: wf_tokens_def)
qed

lemma advance_wf:
  assumes "wf_tokens toks"
  shows "advance toks pos = Ok (toks ! min pos (length toks - 1), if pos < length toks then pos + 1 else pos)"
  by (simp add: advance_def peek_wf[OF assms])

lemma advance_in: "advance toks pos = Ok (tok, p) \<Longrightarrow> tok \<in> set toks"
  by (auto simp: advance_def outcome_simps dest: peek_in)

lemma fine_advance: "wf_tokens toks \<Longrightarrow> pos \<le> length toks \<Longrightarrow> fine toks pos (advance toks pos)"
  by (simp add: advance_wf fine_def)

lemma fine_advance_bind:
  assumes "wf_tokens toks" "pos \<le> length toks"
    and "\<And>tok p. advance toks pos = Ok (tok, p) \<Longrightarrow> pos \<le> p \<Longrightarrow> p \<le> length toks \<Longrightarrow> fine toks p (f (tok, p))"
  shows "fine toks pos (bindO (advance toks pos) f)"
  using fine_bind[OF fine_advance[OF assms(1,2)]] assms(3) by blast

lemma fine_expect: "wf_tokens toks \<Longrightarrow> pos \<le> length toks \<Longrightarrow> fine toks pos (expect k toks pos)"
  by (auto simp: expect_def peek_wf fine_advance)

lemma at_kind_wf:
  "wf_tokens toks \<Longrightarrow> at_kind k toks pos = Ok (tok_kind (toks ! min pos (length toks - 1)) = k)"
  by (simp add: at_kind_def peek_wf)

lemma fine_opt_clause:
  assumes "wf_tokens toks" "pos \<le> length toks" "\<And>p. p \<le> length toks \<Longrightarrow> fine toks p (q toks p)"
  shows "fine toks pos (opt_clause k absent q toks pos)"
  using assms by (auto simp: opt_clause_def at_kind_wf intro!: fine_advance_bind fine_Ok)

lemma fine_some_of: "fine toks pos r \<Longrightarrow> fine toks pos (some_of r)"
  unfolding some_of_def by (rule fine_bind) (auto intro: fine_Ok)

lemma fine_field: "wf_tokens toks \<Longrightarrow> pos \<le> length toks \<Longrightarrow> fine toks pos (parse_field toks pos)"
  unfolding parse_field_def
  by (rule fine_advance_bind) (auto intro!: fine_Ok split: TokenKind.splits)

lemma fine_operator: "wf_tokens toks \<Longrightarrow> pos \<le> length toks \<Longrightarrow> fine toks pos (parse_operator toks pos)"
  unfolding parse_operator_def
  by (rule fine_advance_bind) (auto intro!: fine_Ok split: TokenKind.splits)

lemma strip_quotes_wf:
  assumes "wf_tokens toks" "advance toks pos = Ok (tok, p)" "tok_kind tok = T_StringLit"
  shows "\<exists>s. strip_quotes (tok_lexeme tok) = Ok s"
proof -
  have "strip_quotes (tok_lexeme tok) \<noteq> Panic"
    using assms advance_in[OF assms(2)] by (simp add: wf_tokens_def)
  then show ?thesis by (cases "strip_quotes (tok_lexeme tok)") (auto simp: strip_quotes_def split: if_splits)
qed

lemma fine_name: "wf_tokens toks \<Longrightarrow> pos \<le> length toks \<Longrightarrow> fine toks pos (parse_name what toks pos)"
  unfolding parse_name_def
  by (rule fine_advance_bind) (auto intro!: fine_Ok dest!: strip_quotes_wf)

lemma fine_memory_type:
  "wf_tokens toks \<Longrightarrow> pos \<le> length toks \<Longrightarrow> fine toks pos (parse_memory_type_value toks pos)"
  unfolding parse_memory_type_value_def
  by (rule fine_bind[OF fine_name]) (auto intro!: fine_Ok split: option.splits)

lemma fine_edge_type: "wf_tokens toks \<Longrightarrow> pos \<le> length toks \<Longrightarrow> fine toks pos (parse_edge_type toks pos)"
  unfolding parse_edge_type_def
  by (rule fine_bind[OF fine_name]) (auto intro!: fine_Ok split: option.splits)

lemma fine_uuid: "wf_tokens toks \<Longrightarrow> pos \<le> length toks \<Longrightarrow> fine toks pos (parse_uuid up toks pos)"
  unfolding parse_uuid_def
  by (rule fine_advance_bind) (auto intro!: fine_Ok dest!: strip_quotes_wf split: TokenKind.splits option.splits)

lemma fine_element: "wf_tokens toks \<Longrightarrow> pos \<le> length toks \<Longrightarrow> fine toks pos (parse_element toks pos)"
  unfolding parse_element_def by (rule fine_advance_bind) (auto intro!: fine_Ok split: option.splits)

lemma fine_count: "wf_tokens toks \<Longrightarrow> pos \<le> length toks \<Longrightarrow> fine toks pos (parse_count what toks pos)"
  unfolding parse_count_def by (rule fine_advance_bind) (auto intro!: fine_Ok split: option.splits)

text \<open>A step at a token other than the end of input makes progress, which is what the fuel counts.\<close>

lemma at_kind_progress:
  assumes "wf_tokens toks" "pos \<le> length toks" "at_kind k toks pos = Ok True" "k \<noteq> T_Eof"
  shows "pos + 1 < length toks" "\<exists>tok. advance toks pos = Ok (tok, pos + 1)"
proof -
  have "peek toks pos = Ok (toks ! min pos (length toks - 1))" by (rule peek_wf[OF assms(1)])
  moreover have "tok_kind (toks ! min pos (length toks - 1)) = k" using assms(1,3) by (simp add: at_kind_wf)
  ultimately show "pos + 1 < length toks" using peek_not_Eof[OF assms(1,2)] assms(4) by fastforce
  then show "\<exists>tok. advance toks pos = Ok (tok, pos + 1)" by (simp add: advance_wf[OF assms(1)])
qed

lemma fine_elements:
  "wf_tokens toks \<Longrightarrow> pos \<le> length toks \<Longrightarrow> length toks - pos < fuel
     \<Longrightarrow> fine toks pos (parse_elements fuel toks pos acc)"
proof (induction fuel toks pos acc rule: parse_elements.induct)
  case (2 fuel toks pos acc)
  show ?case
  proof (cases "at_kind T_Comma toks pos = Ok True")
    case True
    obtain tok where adv: "advance toks pos = Ok (tok, pos + 1)" and lt: "pos + 1 < length toks"
      using at_kind_progress[OF "2.prems"(1,2) True] by auto
    have "fine toks (pos + 1) (bindO (parse_element toks (pos + 1)) (\<lambda>(v, p).
        parse_elements fuel toks p (acc @ [v])))"
    proof (rule fine_bind[OF fine_element])
      fix v p assume p: "parse_element toks (pos + 1) = Ok (v, p)" "pos + 1 \<le> p" "p \<le> length toks"
      then show "fine toks p (case (v, p) of (v, p) \<Rightarrow> parse_elements fuel toks p (acc @ [v]))"
        using "2.IH"[OF True _ adv refl p(1)] "2.prems" by auto
    qed (use "2.prems" lt in auto)
    then show ?thesis using True adv by (auto simp: fine_def)
  next
    case False
    then show ?thesis using "2.prems" by (auto simp: at_kind_wf intro: fine_Ok)
  qed
qed simp


lemma fine_vector_body:
  assumes wf: "wf_tokens toks" and pos: "pos \<le> length toks"
  shows "fine toks pos (bindO (at_kind T_RBracket toks pos) (\<lambda>empty.
     bindO (if empty then Ok ([], pos)
            else bindO (parse_element toks pos) (\<lambda>(v, pos).
                   parse_elements (length toks + 1) toks pos [v])) (\<lambda>(vs, pos).
     bindO (expect T_RBracket toks pos) (\<lambda>(_, pos). Ok (vs, pos)))))"
proof -
  have "fine toks pos (bindO (parse_element toks pos) (\<lambda>(v, pos).
      parse_elements (length toks + 1) toks pos [v]))"
    using fine_elements[OF wf] by (auto intro!: fine_bind[OF fine_element[OF wf pos]] simp del: parse_elements.simps)
  then have el: "fine toks pos (if b then Ok ([], pos) else bindO (parse_element toks pos) (\<lambda>(v, pos).
      parse_elements (length toks + 1) toks pos [v]))" for b
    using pos by (simp add: fine_Ok)
  show ?thesis
    unfolding at_kind_wf[OF wf] bindO.simps
    by (rule fine_bind[OF el]) (auto intro!: fine_bind[OF fine_expect[OF wf]] fine_Ok)
qed

lemma fine_vector:
  "wf_tokens toks \<Longrightarrow> pos \<le> length toks \<Longrightarrow> fine toks pos (parse_vector toks pos)"
  unfolding parse_vector_def
  by (rule fine_bind[OF fine_expect]) (auto simp del: parse_elements.simps intro: fine_vector_body)

text \<open>The vector case of \<open>parse_value\<close> steps back to the bracket and passes it again.\<close>

lemma fine_vector_again:
  assumes wf: "wf_tokens toks" and pos: "pos \<le> length toks"
    and adv: "advance toks pos = Ok (tok, p)" and k: "tok_kind tok = T_LBracket"
  shows "fine toks p (parse_vector toks (p - 1))"
proof -
  have tok: "tok = toks ! min pos (length toks - 1)" using adv by (simp add: advance_wf[OF wf])
  have lt: "pos < length toks - 1" using peek_not_Eof[OF wf pos peek_wf[OF wf]] k tok by simp
  then have p: "p = pos + 1" using adv by (simp add: advance_wf[OF wf] split: if_splits)
  have e: "expect T_LBracket toks (p - 1) = Ok (tok, p)"
    using adv k tok p by (simp add: expect_def peek_wf[OF wf])
  have "p \<le> length toks" using lt p by simp
  from fine_vector_body[OF wf this] show ?thesis
    unfolding parse_vector_def e bindO.simps prod.case .
qed

lemma fine_value:
  assumes wf: "wf_tokens toks" and pos: "pos \<le> length toks"
  shows "fine toks pos (parse_value up field toks pos)"
proof (cases "field = F_Type")
  case True
  then show ?thesis using fine_memory_type[OF assms] by (simp add: parse_value_def)
next
  case False
  have vec: "fine toks p (bindO (parse_vector toks (p - 1)) (\<lambda>(v, pos). Ok (V_Vector v, pos)))"
    if "advance toks pos = Ok (tok, p)" "tok_kind tok = T_LBracket" for tok p
    by (rule fine_bind[OF fine_vector_again[OF wf pos that]]) (auto intro: fine_Ok)
  show ?thesis
    unfolding parse_value_def if_not_P[OF False]
    by (rule fine_advance_bind[OF assms])
      (auto intro!: fine_Ok vec[unfolded One_nat_def] dest: strip_quotes_wf[OF wf] simp: Let_def
        split: TokenKind.splits option.splits)
qed

lemma fine_filter:
  assumes wf: "wf_tokens toks" and pos: "pos \<le> length toks"
  shows "fine toks pos (parse_filter up toks pos)"
  unfolding parse_filter_def
  by (rule fine_bind[OF fine_field[OF assms]])
    (auto intro!: fine_bind[OF fine_operator[OF wf]] fine_bind[OF fine_value[OF wf]] fine_Ok)

lemma fine_and_filters:
  "wf_tokens toks \<Longrightarrow> pos \<le> length toks \<Longrightarrow> length toks - pos < fuel
     \<Longrightarrow> fine toks pos (parse_and_filters up fuel toks pos acc)"
proof (induction up fuel toks pos acc rule: parse_and_filters.induct)
  case (2 up fuel toks pos acc)
  show ?case
  proof (cases "at_kind T_And toks pos = Ok True")
    case True
    obtain tok where adv: "advance toks pos = Ok (tok, pos + 1)" and lt: "pos + 1 < length toks"
      using at_kind_progress[OF "2.prems"(1,2) True] by auto
    have "fine toks (pos + 1) (bindO (parse_filter up toks (pos + 1)) (\<lambda>(f, p).
        parse_and_filters up fuel toks p (acc @ [f])))"
    proof (rule fine_bind[OF fine_filter])
      fix f p assume p: "parse_filter up toks (pos + 1) = Ok (f, p)" "pos + 1 \<le> p" "p \<le> length toks"
      then show "fine toks p (case (f, p) of (f, p) \<Rightarrow> parse_and_filters up fuel toks p (acc @ [f]))"
        using "2.IH"[OF True _ adv refl p(1)] "2.prems" by auto
    qed (use "2.prems" lt in auto)
    then show ?thesis using True adv by (auto simp: fine_def)
  next
    case False
    then show ?thesis using "2.prems" by (auto simp: at_kind_wf intro: fine_Ok)
  qed
qed simp

lemma fine_filters:
  assumes wf: "wf_tokens toks" and pos: "pos \<le> length toks"
  shows "fine toks pos (parse_filters up toks pos)"
  unfolding parse_filters_def
  by (rule fine_bind[OF fine_filter[OF assms]])
    (auto intro!: fine_and_filters[OF wf] simp del: parse_and_filters.simps)

lemma fine_weight:
  assumes wf: "wf_tokens toks" and pos: "pos \<le> length toks"
  shows "fine toks pos (parse_weight toks pos)"
  unfolding parse_weight_def
  by (rule fine_bind[OF fine_expect[OF assms]])
    (auto intro!: fine_bind[OF fine_expect[OF wf]] fine_advance_bind[OF wf] fine_Ok split: option.splits)

lemma fine_edge_filter:
  assumes wf: "wf_tokens toks" and pos: "pos \<le> length toks"
  shows "fine toks pos (parse_edge_filter toks pos)"
  unfolding parse_edge_filter_def
  by (rule fine_bind[OF fine_expect[OF assms]])
    (auto intro!: fine_bind[OF fine_expect[OF wf]] fine_bind[OF fine_edge_type[OF wf]] fine_Ok)

lemma fine_order_by:
  assumes wf: "wf_tokens toks" and pos: "pos \<le> length toks"
  shows "fine toks pos (bindO (opt_clause T_By () (\<lambda>toks pos. Ok ((), pos)) toks pos) (\<lambda>(_, pos).
     bindO (parse_field toks pos) (\<lambda>(field, pos). Ok (Some \<lparr> ob_field = field, ob_descending = False \<rparr>, pos))))"
  by (rule fine_bind[OF fine_opt_clause[OF assms]])
    (auto intro!: fine_bind[OF fine_field[OF wf]] fine_Ok)

lemma fine_recall:
  assumes wf: "wf_tokens toks" and pos: "pos \<le> length toks"
  shows "fine toks pos (parse_recall up toks pos)"
  unfolding parse_recall_def
  by (rule fine_advance_bind[OF assms])
    (auto intro!: fine_bind[OF fine_opt_clause[OF wf]] fine_some_of fine_vector[OF wf] fine_filters[OF wf]
      fine_order_by[OF wf] fine_count[OF wf] fine_Ok)

lemma fine_relate:
  assumes wf: "wf_tokens toks" and pos: "pos \<le> length toks"
  shows "fine toks pos (parse_relate up toks pos)"
  unfolding parse_relate_def
  by (rule fine_advance_bind[OF assms])
    (auto intro!: fine_bind[OF fine_opt_clause[OF wf]] fine_bind[OF fine_uuid[OF wf]] fine_bind[OF fine_expect[OF wf]]
      fine_bind[OF fine_edge_type[OF wf]] fine_some_of fine_weight[OF wf] fine_Ok)

lemma fine_traverse:
  assumes wf: "wf_tokens toks" and pos: "pos \<le> length toks"
  shows "fine toks pos (parse_traverse up toks pos)"
  unfolding parse_traverse_def
  by (rule fine_advance_bind[OF assms])
    (auto intro!: fine_bind[OF fine_opt_clause[OF wf]] fine_bind[OF fine_uuid[OF wf]] fine_bind[OF fine_expect[OF wf]]
      fine_bind[OF fine_count[OF wf]] fine_some_of fine_edge_filter[OF wf] fine_Ok)

lemma fine_statement:
  assumes wf: "wf_tokens toks"
  shows "fine toks 0 (parse_statement up toks 0)"
proof -
  have "fine toks 0 (parse_forget up toks 0)"
    unfolding parse_forget_def
    by (rule fine_advance_bind[OF wf]) (auto intro!: fine_bind[OF fine_uuid[OF wf]] fine_Ok)
  moreover have "fine toks 0 (parse_consolidate up toks 0)"
    unfolding parse_consolidate_def
    by (rule fine_advance_bind[OF wf])
      (auto intro!: fine_bind[OF fine_opt_clause[OF wf]] fine_filters[OF wf] fine_Ok)
  ultimately show ?thesis
    using fine_recall[OF wf] fine_relate[OF wf] fine_traverse[OF wf]
    by (auto simp: parse_statement_def peek_wf[OF wf] split: TokenKind.splits)
qed

lemma mql_parser_no_panic: "wf_tokens toks \<Longrightarrow> mql_parser_parse up toks \<noteq> Panic"
  using fine_statement[of toks up] by (auto simp: mql_parser_parse_def fine_def outcome_simps)

end
