(* ===== verification/Mql_Print.thy ===== *)
theory Mql_Print
  imports Mql_Parser
begin

text \<open>
  The inverse of the parser: the tokens of a statement, and the theorem that parsing them gives the
  statement back. Floats have no printer in the source, so statements that hold one (a \<open>NEAR\<close>
  vector, a weight, a float or vector value) are outside the printable fragment.
\<close>

section \<open>Tokens of a statement\<close>

definition tk :: "TokenKind \<Rightarrow> string \<Rightarrow> Token" where
  "tk k s = mk_token k s 0"

lemma tk_fields [simp]: "tok_kind (tk k s) = k" "tok_lexeme (tk k s) = s"
  by (simp_all add: tk_def)

fun field_token :: "Field \<Rightarrow> Token" where
  "field_token F_Content = tk T_Identifier ''content''"
| "field_token F_Type = tk T_Type ''type''"
| "field_token F_Tag = tk T_Tag ''tag''"
| "field_token F_Agent = tk T_Agent ''agent''"
| "field_token F_Space = tk T_Space ''space''"
| "field_token F_Salience = tk T_Salience ''salience''"
| "field_token F_Confidence = tk T_Confidence ''confidence''"
| "field_token F_Created = tk T_Created ''created''"
| "field_token F_Accessed = tk T_Accessed ''accessed''"

fun operator_token :: "Operator \<Rightarrow> Token" where
  "operator_token O_Eq = tk T_Eq ''=''"
| "operator_token O_Neq = tk T_Neq ''!=''"
| "operator_token O_Gt = tk T_Gt ''>''"
| "operator_token O_Lt = tk T_Lt ''<''"
| "operator_token O_Gte = tk T_Gte ''>=''"
| "operator_token O_Lte = tk T_Lte ''<=''"
| "operator_token O_SimilarTo = tk T_SimilarTo ''~>''"

fun memory_type_name :: "MemoryType \<Rightarrow> string" where
  "memory_type_name Episodic = ''episodic''"
| "memory_type_name Semantic = ''semantic''"
| "memory_type_name Procedural = ''procedural''"
| "memory_type_name AntiPattern = ''anti_pattern''"
| "memory_type_name Reasoning = ''reasoning''"
| "memory_type_name Correction = ''correction''"

fun edge_type_name :: "EdgeType \<Rightarrow> string" where
  "edge_type_name Caused = ''caused''"
| "edge_type_name Before = ''before''"
| "edge_type_name Related = ''related''"
| "edge_type_name Contradicts = ''contradicts''"
| "edge_type_name Supports = ''supports''"
| "edge_type_name Supersedes = ''supersedes''"
| "edge_type_name Derived = ''derived''"
| "edge_type_name PartOf = ''part_of''"

definition in_quotes :: "string \<Rightarrow> string" where
  "in_quotes s = [CHR 0x22] @ s @ [CHR 0x22]"

fun value_token :: "(uuid \<Rightarrow> string) \<Rightarrow> Value \<Rightarrow> Token" where
  "value_token us (V_Text s) = tk T_StringLit (in_quotes s)"
| "value_token us (V_Integer n) = tk T_IntegerLit (show_int n)"
| "value_token us (V_Bool b) = tk T_Identifier (if b then ''true'' else ''false'')"
| "value_token us (V_Uuid u) = tk T_UuidLit (us u)"
| "value_token us (V_MemoryType mt) = tk T_Identifier (memory_type_name mt)"
| "value_token us _ = tk T_Eof []"

definition filter_tokens :: "(uuid \<Rightarrow> string) \<Rightarrow> Filter \<Rightarrow> Token list" where
  "filter_tokens us f = [field_token (flt_field f), operator_token (flt_op f), value_token us (flt_value f)]"

fun filters_tokens :: "(uuid \<Rightarrow> string) \<Rightarrow> Filter list \<Rightarrow> Token list" where
  "filters_tokens us [] = []"
| "filters_tokens us (f # fs) =
     filter_tokens us f @ concat (map (\<lambda>f. tk T_And ''and'' # filter_tokens us f) fs)"

definition where_tokens :: "(uuid \<Rightarrow> string) \<Rightarrow> Filter list \<Rightarrow> Token list" where
  "where_tokens us fs = (if fs = [] then [] else tk T_Where ''where'' # filters_tokens us fs)"

fun id_token :: "(uuid \<Rightarrow> string) \<Rightarrow> MemoryId \<Rightarrow> Token" where
  "id_token us (MemoryId u) = tk T_UuidLit (us u)"

fun statement_tokens :: "(uuid \<Rightarrow> string) \<Rightarrow> Statement \<Rightarrow> Token list" where
  "statement_tokens us (S_Recall r) = [tk T_Recall ''recall'', tk T_Memories ''memories'']
     @ where_tokens us (rs_filters r)
     @ (case rs_order_by r of None \<Rightarrow> []
        | Some ob \<Rightarrow> [tk T_OrderBy ''order'', tk T_By ''by'', field_token (ob_field ob)])
     @ (case rs_limit r of None \<Rightarrow> [] | Some n \<Rightarrow> [tk T_Limit ''limit'', tk T_IntegerLit (show_nat n)])"
| "statement_tokens us (S_Relate r) = [tk T_Relate ''relate'', id_token us (rl_source r), tk T_Arrow ''->'',
     id_token us (rl_target r), tk T_As ''as'', tk T_Identifier (edge_type_name (rl_edge_type r))]"
| "statement_tokens us (S_Forget f) = [tk T_Forget ''forget'', id_token us (fs_target f)]"
| "statement_tokens us (S_Consolidate c) = tk T_Consolidate ''consolidate'' # where_tokens us (cn_filters c)"
| "statement_tokens us (S_Traverse t) = [tk T_Traverse ''traverse'', id_token us (tv_start t),
     tk T_Depth ''depth'', tk T_IntegerLit (show_nat (tv_depth t))]
     @ (case tv_edge_filter t of None \<Rightarrow> []
        | Some ets \<Rightarrow> [tk T_Where ''where'', tk T_EdgeType ''edge_type'', tk T_Eq ''='',
            tk T_Identifier (edge_type_name (hd ets))])"

text \<open>The printable fragment: what the parser can return, without floats.\<close>

fun value_printable :: "(string \<Rightarrow> uuid option) \<Rightarrow> Value \<Rightarrow> bool" where
  "value_printable up (V_Text s) = (up s = None \<and> (s = [] \<or> \<not> is_continuation (hd s)))"
| "value_printable up (V_Integer n) = (i64_min \<le> n \<and> n \<le> i64_max)"
| "value_printable up (V_Bool b) = True"
| "value_printable up (V_Uuid u) = True"
| "value_printable up _ = False"

definition filter_printable :: "(string \<Rightarrow> uuid option) \<Rightarrow> Filter \<Rightarrow> bool" where
  "filter_printable up f =
     (if flt_field f = F_Type then \<exists>mt. flt_value f = V_MemoryType mt else value_printable up (flt_value f))"

fun statement_printable :: "(string \<Rightarrow> uuid option) \<Rightarrow> Statement \<Rightarrow> bool" where
  "statement_printable up (S_Recall r) = (list_all (filter_printable up) (rs_filters r) \<and> rs_near r = None
     \<and> (case rs_order_by r of None \<Rightarrow> True | Some ob \<Rightarrow> \<not> ob_descending ob)
     \<and> (case rs_limit r of None \<Rightarrow> True | Some n \<Rightarrow> n \<le> u64_max))"
| "statement_printable up (S_Relate r) = (rl_weight r = None)"
| "statement_printable up (S_Forget f) = True"
| "statement_printable up (S_Consolidate c) = list_all (filter_printable up) (cn_filters c)"
| "statement_printable up (S_Traverse t) = (tv_depth t \<le> u64_max
     \<and> (case tv_edge_filter t of None \<Rightarrow> True | Some ets \<Rightarrow> length ets = 1))"

section \<open>Reading known tokens\<close>

lemma drop_Cons:
  assumes "drop pos toks = t # rest"
  shows "pos < length toks" "toks ! pos = t" "drop (Suc pos) toks = rest" "toks \<noteq> []"
proof -
  show lt: "pos < length toks" using assms by (metis drop_all list.distinct(1) not_le)
  show "toks ! pos = t" using assms lt by (metis hd_drop_conv_nth list.sel(1))
  show "drop (Suc pos) toks = rest" using assms by (metis drop_Suc list.sel(3) tl_drop)
  show "toks \<noteq> []" using lt by auto
qed

lemma peek_drop: "drop pos toks = t # rest \<Longrightarrow> peek toks pos = Ok t"
  using drop_Cons[of pos toks t rest] by (simp add: peek_def min_def)

lemma advance_drop: "drop pos toks = t # rest \<Longrightarrow> advance toks pos = Ok (t, Suc pos)"
  using drop_Cons(1)[of pos toks t rest] by (simp add: advance_def peek_drop)

lemma at_kind_drop: "drop pos toks = t # rest \<Longrightarrow> at_kind k toks pos = Ok (tok_kind t = k)"
  by (simp add: at_kind_def peek_drop)

lemma expect_drop: "drop pos toks = t # rest \<Longrightarrow> tok_kind t = k \<Longrightarrow> expect k toks pos = Ok (t, Suc pos)"
  by (simp add: expect_def peek_drop advance_drop)

lemma opt_clause_absent:
  "drop pos toks = t # rest \<Longrightarrow> tok_kind t \<noteq> k \<Longrightarrow> opt_clause k a p toks pos = Ok (a, pos)"
  by (simp add: opt_clause_def at_kind_drop)

lemma opt_clause_present:
  "drop pos toks = t # rest \<Longrightarrow> tok_kind t = k \<Longrightarrow> opt_clause k a p toks pos = p toks (Suc pos)"
  by (simp add: opt_clause_def at_kind_drop advance_drop)

lemmas read_drop = advance_drop at_kind_drop expect_drop peek_drop

lemma field_roundtrip: "drop pos toks = field_token f # rest \<Longrightarrow> parse_field toks pos = Ok (f, Suc pos)"
  by (cases f) (simp_all add: parse_field_def advance_drop eq_ignore_ascii_case_def)

lemma operator_roundtrip: "drop pos toks = operator_token op # rest \<Longrightarrow> parse_operator toks pos = Ok (op, Suc pos)"
  by (cases op) (simp_all add: parse_operator_def advance_drop)

lemma strip_in_quotes:
  assumes "s = [] \<or> \<not> is_continuation (hd s)"
  shows "strip_quotes (in_quotes s) = Ok s"
proof -
  have q: "\<not> is_continuation (CHR 0x22)" by (simp add: is_continuation_def byte_def)
  have "is_char_boundary (in_quotes s) 1" using assms q by (cases s) (auto simp: is_char_boundary_def in_quotes_def)
  moreover have "is_char_boundary (in_quotes s) (length s + 1)"
    using q by (simp add: is_char_boundary_def in_quotes_def nth_append)
  ultimately show ?thesis by (simp add: strip_quotes_def slice_def in_quotes_def)
qed

lemma memory_type_roundtrip:
  "drop pos toks = tk T_Identifier (memory_type_name mt) # rest
     \<Longrightarrow> parse_memory_type_value toks pos = Ok (V_MemoryType mt, Suc pos)"
  by (cases mt) (simp_all add: parse_memory_type_value_def parse_name_def advance_drop memory_type_of_def
      to_ascii_lowercase_def ascii_lower_def)

lemma edge_type_roundtrip:
  "drop pos toks = tk T_Identifier (edge_type_name et) # rest
     \<Longrightarrow> parse_edge_type toks pos = Ok (et, Suc pos)"
  by (cases et) (simp_all add: parse_edge_type_def parse_name_def advance_drop edge_type_of_def
      to_ascii_lowercase_def ascii_lower_def)

lemma count_roundtrip:
  "drop pos toks = tk T_IntegerLit (show_nat n) # rest \<Longrightarrow> n \<le> u64_max
     \<Longrightarrow> parse_count what toks pos = Ok (n, Suc pos)"
  by (simp add: parse_count_def advance_drop parse_usize_show_nat)

lemma uuid_roundtrip:
  "\<forall>u. up (us u) = Some u \<Longrightarrow> drop pos toks = id_token us i # rest
     \<Longrightarrow> parse_uuid up toks pos = Ok (i, Suc pos)"
  by (cases i) (simp add: parse_uuid_def advance_drop)

lemma filter_roundtrip:
  assumes up: "\<forall>u. up (us u) = Some u" and d: "drop pos toks = filter_tokens us f @ rest"
    and pr: "filter_printable up f"
  shows "parse_filter up toks pos = Ok (f, pos + 3)"
proof -
  have d0: "drop pos toks = field_token (flt_field f) # operator_token (flt_op f) # value_token us (flt_value f) # rest"
    using d by (simp add: filter_tokens_def)
  have d1: "drop (Suc pos) toks = operator_token (flt_op f) # value_token us (flt_value f) # rest"
    using drop_Cons(3)[OF d0] .
  have d2: "drop (Suc (Suc pos)) toks = value_token us (flt_value f) # rest" using drop_Cons(3)[OF d1] .
  have v: "parse_value up (flt_field f) toks (Suc (Suc pos)) = Ok (flt_value f, pos + 3)"
  proof (cases "flt_field f = F_Type")
    case True
    then obtain mt where mt: "flt_value f = V_MemoryType mt" using pr by (auto simp: filter_printable_def)
    then show ?thesis using True d2 memory_type_roundtrip[of "Suc (Suc pos)" toks mt rest]
      by (simp add: parse_value_def)
  next
    case False
    then have vp: "value_printable up (flt_value f)" using pr by (simp add: filter_printable_def)
    then show ?thesis
      using False d2 up by (cases "flt_value f")
        (auto simp: parse_value_def advance_drop strip_in_quotes parse_i64_show_int Let_def
          to_ascii_lowercase_def ascii_lower_def)
  qed
  show ?thesis
    by (simp add: parse_filter_def field_roundtrip[OF d0] operator_roundtrip[OF d1] v)
qed

lemma length_filter_tokens [simp]: "length (filter_tokens us f) = 3"
  by (simp add: filter_tokens_def)

lemma and_filters_roundtrip:
  assumes up: "\<forall>u. up (us u) = Some u" and pr: "list_all (filter_printable up) fs"
    and d: "drop pos toks = concat (map (\<lambda>f. tk T_And ''and'' # filter_tokens us f) fs) @ r # rest"
    and r: "tok_kind r \<noteq> T_And" and fuel: "length fs < fuel"
  shows "parse_and_filters up fuel toks pos acc = Ok (acc @ fs, pos + 4 * length fs)"
  using pr d fuel
proof (induction fs arbitrary: pos fuel acc)
  case Nil
  then obtain n where "fuel = Suc n" by (cases fuel) auto
  then show ?case using Nil r by (simp add: at_kind_drop)
next
  case (Cons f fs)
  then obtain n where n: "fuel = Suc n" by (cases fuel) auto
  let ?rest = "concat (map (\<lambda>f. tk T_And ''and'' # filter_tokens us f) fs) @ r # rest"
  have d0: "drop pos toks = tk T_And ''and'' # (filter_tokens us f @ ?rest)" using Cons.prems(2) by simp
  have d1: "drop (Suc pos) toks = filter_tokens us f @ ?rest" using drop_Cons(3)[OF d0] .
  have "drop (Suc pos + length (filter_tokens us f)) toks = ?rest"
    using d1 by (metis append_eq_conv_conj drop_drop add.commute)
  then have d4: "drop (Suc pos + 3) toks = ?rest" by (simp only: length_filter_tokens)
  have f: "parse_filter up toks (Suc pos) = Ok (f, Suc pos + 3)"
    using filter_roundtrip[OF up d1] Cons.prems(1) by simp
  have "parse_and_filters up n toks (Suc pos + 3) (acc @ [f]) = Ok ((acc @ [f]) @ fs, Suc pos + 3 + 4 * length fs)"
    using Cons.IH[OF _ d4] Cons.prems(1,3) n by simp
  then show ?case using n f by (simp add: at_kind_drop[OF d0] advance_drop[OF d0] eval_nat_numeral)
qed

lemma filters_roundtrip:
  assumes up: "\<forall>u. up (us u) = Some u" and pr: "list_all (filter_printable up) fs" and ne: "fs \<noteq> []"
    and d: "drop pos toks = filters_tokens us fs @ r # rest" and r: "tok_kind r \<noteq> T_And"
  shows "parse_filters up toks pos = Ok (fs, pos + length (filters_tokens us fs))"
    "drop (pos + length (filters_tokens us fs)) toks = r # rest"
proof -
  obtain f fs' where fs: "fs = f # fs'" using ne by (cases fs) auto
  let ?rest = "concat (map (\<lambda>f. tk T_And ''and'' # filter_tokens us f) fs') @ r # rest"
  have d0: "drop pos toks = filter_tokens us f @ ?rest" using d fs by simp
  have "drop (pos + length (filter_tokens us f)) toks = ?rest"
    using d0 by (metis append_eq_conv_conj drop_drop add.commute)
  then have d3: "drop (pos + 3) toks = ?rest" by (simp only: length_filter_tokens)
  have len: "length (concat (map (\<lambda>f. tk T_And ''and'' # filter_tokens us f) xs)) = 4 * length xs" for xs
    by (induction xs) (simp_all add: filter_tokens_def)
  have "length (drop (pos + 3) toks) = 4 * length fs' + 1 + length rest" using d3 len[of fs'] by simp
  then have "length fs' < length toks + 1" by simp
  from and_filters_roundtrip[OF up _ d3 r this, of "[f]"] pr
  show "parse_filters up toks pos = Ok (fs, pos + length (filters_tokens us fs))"
    using filter_roundtrip[OF up d0] len[of fs'] by (simp add: parse_filters_def fs filter_tokens_def del: parse_and_filters.simps)
  show "drop (pos + length (filters_tokens us fs)) toks = r # rest"
    using d by (metis append_eq_conv_conj drop_drop add.commute)
qed

lemma where_roundtrip:
  assumes up: "\<forall>u. up (us u) = Some u" and pr: "list_all (filter_printable up) fs"
    and d: "drop pos toks = where_tokens us fs @ r # rest" and r: "tok_kind r \<noteq> T_And" "tok_kind r \<noteq> T_Where"
  shows "opt_clause T_Where [] (parse_filters up) toks pos = Ok (fs, pos + length (where_tokens us fs))"
    "drop (pos + length (where_tokens us fs)) toks = r # rest"
proof -
  show "drop (pos + length (where_tokens us fs)) toks = r # rest"
    using d by (metis append_eq_conv_conj drop_drop add.commute)
  show "opt_clause T_Where [] (parse_filters up) toks pos = Ok (fs, pos + length (where_tokens us fs))"
  proof (cases "fs = []")
    case True
    then have "drop pos toks = r # rest" using d by (simp add: where_tokens_def)
    then show ?thesis using True r(2) by (simp add: where_tokens_def opt_clause_absent)
  next
    case False
    then have d0: "drop pos toks = tk T_Where ''where'' # (filters_tokens us fs @ r # rest)"
      using d by (simp add: where_tokens_def)
    show ?thesis
      using filters_roundtrip(1)[OF up pr False drop_Cons(3)[OF d0] r(1)] False
      by (simp add: where_tokens_def opt_clause_present[OF d0])
  qed
qed

section \<open>Statements\<close>

lemma order_roundtrip:
  assumes "drop pos toks = (case ob of None \<Rightarrow> []
      | Some ob \<Rightarrow> [tk T_OrderBy ''order'', tk T_By ''by'', field_token (ob_field ob)]) @ r # rest"
    and "tok_kind r \<noteq> T_OrderBy" and "case ob of None \<Rightarrow> True | Some ob \<Rightarrow> \<not> ob_descending ob"
  shows "\<exists>p. opt_clause T_OrderBy None (\<lambda>toks pos.
      bindO (opt_clause T_By () (\<lambda>toks pos. Ok ((), pos)) toks pos) (\<lambda>(_, pos).
      bindO (parse_field toks pos) (\<lambda>(field, pos).
        Ok (Some \<lparr> ob_field = field, ob_descending = False \<rparr>, pos)))) toks pos = Ok (ob, p)
    \<and> drop p toks = r # rest"
proof (cases ob)
  case None
  then have "drop pos toks = r # rest" using assms(1) by simp
  then show ?thesis using None assms(2) by (simp add: opt_clause_absent)
next
  case (Some o')
  have d0: "drop pos toks = tk T_OrderBy ''order'' # tk T_By ''by'' # field_token (ob_field o') # r # rest"
    using assms(1) Some by simp
  note d1 = drop_Cons(3)[OF d0] note d2 = drop_Cons(3)[OF d1] note d3 = drop_Cons(3)[OF d2]
  have "o' = \<lparr> ob_field = ob_field o', ob_descending = False \<rparr>" using assms(3) Some by (cases o') simp
  then show ?thesis
    using Some d3 by (simp add: opt_clause_present[OF d0] opt_clause_present[OF d1] field_roundtrip[OF d2])
qed

lemma limit_roundtrip:
  assumes "drop pos toks = (case l of None \<Rightarrow> []
      | Some n \<Rightarrow> [tk T_Limit ''limit'', tk T_IntegerLit (show_nat n)]) @ r # rest"
    and "tok_kind r \<noteq> T_Limit" and "case l of None \<Rightarrow> True | Some n \<Rightarrow> n \<le> u64_max"
  shows "\<exists>p. opt_clause T_Limit None (\<lambda>toks pos. some_of (parse_count w toks pos)) toks pos = Ok (l, p)"
proof (cases l)
  case None
  then have "drop pos toks = r # rest" using assms(1) by simp
  then show ?thesis using None assms(2) by (simp add: opt_clause_absent)
next
  case (Some n)
  have d0: "drop pos toks = tk T_Limit ''limit'' # tk T_IntegerLit (show_nat n) # r # rest"
    using assms(1) Some by simp
  note d1 = drop_Cons(3)[OF d0]
  show ?thesis
    using assms(3) Some by (simp add: opt_clause_present[OF d0] some_of_def count_roundtrip[OF d1])
qed

lemma recall_roundtrip:
  assumes up: "\<forall>u. up (us u) = Some u" and pr: "statement_printable up (S_Recall r)"
    and d: "drop 0 toks = statement_tokens us (S_Recall r) @ [tk T_Eof []]"
  shows "\<exists>p. parse_recall up toks 0 = Ok (S_Recall r, p)"
proof -
  let ?ob = "case rs_order_by r of None \<Rightarrow> []
        | Some ob \<Rightarrow> [tk T_OrderBy ''order'', tk T_By ''by'', field_token (ob_field ob)]"
  let ?lim = "case rs_limit r of None \<Rightarrow> [] | Some n \<Rightarrow> [tk T_Limit ''limit'', tk T_IntegerLit (show_nat n)]"
  obtain h2 t2 where h2: "?lim @ [tk T_Eof []] = h2 # t2" "tok_kind h2 \<notin> {T_And, T_Where, T_OrderBy, T_Near}"
    by (cases "rs_limit r") auto
  obtain h1 t1 where h1: "?ob @ ?lim @ [tk T_Eof []] = h1 # t1" "tok_kind h1 \<notin> {T_And, T_Where, T_Near}"
    using h2 by (cases "rs_order_by r") auto
  have d0: "drop 0 toks = tk T_Recall ''recall'' # tk T_Memories ''memories'' # where_tokens us (rs_filters r) @ h1 # t1"
    using d h1(1) by simp
  note d1 = drop_Cons(3)[OF d0]
  note d2 = drop_Cons(3)[OF d1]
  have near: "opt_clause T_Near None (\<lambda>toks pos. some_of (parse_vector toks pos)) toks (Suc (Suc 0)) = Ok (None, Suc (Suc 0))"
    using d2 h1(2) by (cases "rs_filters r") (auto simp: where_tokens_def intro!: opt_clause_absent)
  have pf: "list_all (filter_printable up) (rs_filters r)" using pr by simp
  have k: "tok_kind h1 \<noteq> T_And" "tok_kind h1 \<noteq> T_Where" using h1(2) by auto
  note w = where_roundtrip[OF up pf d2 k]
  obtain p where p: "opt_clause T_OrderBy None (\<lambda>toks pos.
      bindO (opt_clause T_By () (\<lambda>toks pos. Ok ((), pos)) toks pos) (\<lambda>(_, pos).
      bindO (parse_field toks pos) (\<lambda>(field, pos).
        Ok (Some \<lparr> ob_field = field, ob_descending = False \<rparr>, pos)))) toks
        (Suc (Suc 0) + length (where_tokens us (rs_filters r))) = Ok (rs_order_by r, p)"
      "drop p toks = h2 # t2"
    using order_roundtrip[of "Suc (Suc 0) + length (where_tokens us (rs_filters r))" toks "rs_order_by r" h2 t2]
      w(2) h1(1) h2 pr by auto
  obtain q where q: "opt_clause T_Limit None (\<lambda>toks pos. some_of (parse_count ''limit'' toks pos)) toks p = Ok (rs_limit r, q)"
    using limit_roundtrip[of p toks "rs_limit r" "tk T_Eof []" "[]" "''limit''"] p(2) h2(1) pr by auto
  show ?thesis
    using pr near w(1) p(1) q
    by (simp add: parse_recall_def advance_drop[OF d0] opt_clause_present[OF d1])
qed

lemma consolidate_roundtrip:
  assumes up: "\<forall>u. up (us u) = Some u" and pr: "statement_printable up (S_Consolidate c)"
    and d: "drop 0 toks = statement_tokens us (S_Consolidate c) @ [tk T_Eof []]"
  shows "\<exists>p. parse_consolidate up toks 0 = Ok (S_Consolidate c, p)"
proof -
  have d0: "drop 0 toks = tk T_Consolidate ''consolidate'' # where_tokens us (cn_filters c) @ [tk T_Eof []]"
    using d by simp
  have "list_all (filter_printable up) (cn_filters c)" using pr by simp
  from where_roundtrip(1)[OF up this drop_Cons(3)[OF d0]] show ?thesis
    by (simp add: parse_consolidate_def advance_drop[OF d0])
qed

lemma relate_roundtrip:
  assumes up: "\<forall>u. up (us u) = Some u" and pr: "statement_printable up (S_Relate r)"
    and d: "drop 0 toks = statement_tokens us (S_Relate r) @ [tk T_Eof []]"
  shows "\<exists>p. parse_relate up toks 0 = Ok (S_Relate r, p)"
proof -
  have d0: "drop 0 toks = tk T_Relate ''relate'' # id_token us (rl_source r) # tk T_Arrow ''->''
      # id_token us (rl_target r) # tk T_As ''as'' # tk T_Identifier (edge_type_name (rl_edge_type r)) # [tk T_Eof []]"
    using d by simp
  note d1 = drop_Cons(3)[OF d0] note d2 = drop_Cons(3)[OF d1] note d3 = drop_Cons(3)[OF d2]
  note d4 = drop_Cons(3)[OF d3] note d5 = drop_Cons(3)[OF d4] note d6 = drop_Cons(3)[OF d5]
  show ?thesis
    using pr by (simp add: parse_relate_def advance_drop[OF d0] uuid_roundtrip[OF up d1] expect_drop[OF d2]
        uuid_roundtrip[OF up d3] expect_drop[OF d4] edge_type_roundtrip[OF d5] opt_clause_absent[OF d6])
qed

lemma traverse_roundtrip:
  assumes up: "\<forall>u. up (us u) = Some u" and pr: "statement_printable up (S_Traverse t)"
    and d: "drop 0 toks = statement_tokens us (S_Traverse t) @ [tk T_Eof []]"
  shows "\<exists>p. parse_traverse up toks 0 = Ok (S_Traverse t, p)"
proof -
  let ?w = "(case tv_edge_filter t of None \<Rightarrow> []
        | Some ets \<Rightarrow> [tk T_Where ''where'', tk T_EdgeType ''edge_type'', tk T_Eq ''='',
            tk T_Identifier (edge_type_name (hd ets))]) @ [tk T_Eof []]"
  have d0: "drop 0 toks = tk T_Traverse ''traverse'' # id_token us (tv_start t)
      # tk T_Depth ''depth'' # tk T_IntegerLit (show_nat (tv_depth t)) # ?w" using d by simp
  note d1 = drop_Cons(3)[OF d0] note d2 = drop_Cons(3)[OF d1] note d3 = drop_Cons(3)[OF d2]
  note d4 = drop_Cons(3)[OF d3]
  have n: "tv_depth t \<le> u64_max" using pr by simp
  have w: "\<exists>p. opt_clause T_Where None (\<lambda>toks pos. some_of (parse_edge_filter toks pos)) toks (Suc (Suc (Suc (Suc 0))))
      = Ok (tv_edge_filter t, p)"
  proof (cases "tv_edge_filter t")
    case None
    then have "drop (Suc (Suc (Suc (Suc 0)))) toks = [tk T_Eof []]" using d4 by simp
    then show ?thesis using None by (simp add: opt_clause_absent)
  next
    case (Some ets)
    then have "length ets = 1" using pr by simp
    then have ets: "ets = [hd ets]" by (cases ets) auto
    have w0: "drop (Suc (Suc (Suc (Suc 0)))) toks = tk T_Where ''where'' # tk T_EdgeType ''edge_type''
        # tk T_Eq ''='' # tk T_Identifier (edge_type_name (hd ets)) # [tk T_Eof []]" using d4 Some by simp
    note w1 = drop_Cons(3)[OF w0] note w2 = drop_Cons(3)[OF w1] note w3 = drop_Cons(3)[OF w2]
    show ?thesis
      using Some ets by (simp add: opt_clause_present[OF w0] some_of_def parse_edge_filter_def
          expect_drop[OF w1] expect_drop[OF w2] edge_type_roundtrip[OF w3])
  qed
  then show ?thesis
    by (auto simp: parse_traverse_def advance_drop[OF d0] uuid_roundtrip[OF up d1] expect_drop[OF d2]
        count_roundtrip[OF d3 n])
qed

section \<open>Properties\<close>

text \<open>
  What the parser returns at all: a filter on \<open>type\<close> holds a memory type and no other filter does, none holds an edge type,
  integers, limits and depths are in range, an order is never descending and an edge filter has one type.
\<close>

definition filter_shape :: "Filter \<Rightarrow> bool" where
  "filter_shape f \<longleftrightarrow> (flt_field f = F_Type \<longleftrightarrow> (\<exists>mt. flt_value f = V_MemoryType mt)) \<and> (\<forall>et. flt_value f \<noteq> V_EdgeType et)
     \<and> (\<forall>n. flt_value f = V_Integer n \<longrightarrow> i64_min \<le> n \<and> n \<le> i64_max)"

fun statement_shape :: "Statement \<Rightarrow> bool" where
  "statement_shape (S_Recall r) = (list_all filter_shape (rs_filters r)
     \<and> (case rs_order_by r of None \<Rightarrow> True | Some ob \<Rightarrow> \<not> ob_descending ob)
     \<and> (case rs_limit r of None \<Rightarrow> True | Some n \<Rightarrow> n \<le> u64_max))"
| "statement_shape (S_Relate r) = True"
| "statement_shape (S_Forget f) = True"
| "statement_shape (S_Consolidate c) = list_all filter_shape (cn_filters c)"
| "statement_shape (S_Traverse t) = (tv_depth t \<le> u64_max
     \<and> (case tv_edge_filter t of None \<Rightarrow> True | Some ets \<Rightarrow> length ets = 1))"

text \<open>Statements without floats, whose texts begin at a character and are not the text of a UUID.\<close>

definition filter_plain :: "(string \<Rightarrow> uuid option) \<Rightarrow> Filter \<Rightarrow> bool" where
  "filter_plain up f \<longleftrightarrow> (\<forall>x. flt_value f \<noteq> V_Number x) \<and> (\<forall>v. flt_value f \<noteq> V_Vector v)
     \<and> (\<forall>s. flt_value f = V_Text s \<longrightarrow> up s = None \<and> (s = [] \<or> \<not> is_continuation (hd s)))"

fun statement_plain :: "(string \<Rightarrow> uuid option) \<Rightarrow> Statement \<Rightarrow> bool" where
  "statement_plain up (S_Recall r) = (list_all (filter_plain up) (rs_filters r) \<and> rs_near r = None)"
| "statement_plain up (S_Relate r) = (rl_weight r = None)"
| "statement_plain up (S_Forget f) = True"
| "statement_plain up (S_Consolidate c) = list_all (filter_plain up) (cn_filters c)"
| "statement_plain up (S_Traverse t) = True"

lemma filter_shape_printable: "filter_shape f \<Longrightarrow> filter_plain up f \<Longrightarrow> filter_printable up f"
  by (cases "flt_value f") (auto simp: filter_shape_def filter_plain_def filter_printable_def)

lemma shape_printable: "statement_shape s \<Longrightarrow> statement_plain up s \<Longrightarrow> statement_printable up s"
  using filter_shape_printable by (cases s) (auto simp: list_all_iff)

lemma parse_i64_range: "parse_i64 s = Some n \<Longrightarrow> i64_min \<le> n \<and> n \<le> i64_max"
  by (auto simp: parse_i64_def Let_def split: prod.splits option.splits if_splits)

lemma parse_value_shape:
  assumes "parse_value up field toks pos = Ok (v, p)"
  shows "filter_shape \<lparr> flt_field = field, flt_op = op, flt_value = v \<rparr>"
proof (cases "field = F_Type")
  case True
  then show ?thesis using assms by (auto simp: parse_value_def parse_memory_type_value_def filter_shape_def outcome_simps split: option.splits)
next
  case False
  then obtain tok q where "advance toks pos = Ok (tok, q)" using assms by (cases "advance toks pos") (auto simp: parse_value_def)
  then show ?thesis
    using assms False by (cases "tok_kind tok")
      (auto simp: parse_value_def filter_shape_def outcome_simps Let_def dest: parse_i64_range split: option.splits if_splits)
qed

lemma parse_filter_shape: "parse_filter up toks pos = Ok (f, p) \<Longrightarrow> filter_shape f"
  by (auto simp: parse_filter_def outcome_simps dest: parse_value_shape)

lemma parse_and_filters_shape:
  "parse_and_filters up fuel toks pos acc = Ok (fs, p) \<Longrightarrow> list_all filter_shape acc \<Longrightarrow> list_all filter_shape fs"
proof (induction fuel arbitrary: pos acc)
  case (Suc fuel)
  obtain more where more: "at_kind T_And toks pos = Ok more" using Suc.prems(1) by (cases "at_kind T_And toks pos") simp_all
  show ?case
  proof (cases more)
    case True
    then obtain t q where q: "advance toks pos = Ok (t, q)" using Suc.prems(1) more by (cases "advance toks pos") auto
    then obtain f r where f: "parse_filter up toks q = Ok (f, r)" using Suc.prems(1) more True by (cases "parse_filter up toks q") auto
    then have "parse_and_filters up fuel toks r (acc @ [f]) = Ok (fs, p)" using Suc.prems(1) more True q by simp
    then show ?thesis using Suc.IH Suc.prems(2) parse_filter_shape[OF f] by simp
  next
    case False
    then show ?thesis using Suc.prems more by simp
  qed
qed simp

lemma parse_filters_shape:
  assumes "parse_filters up toks pos = Ok (fs, p)"
  shows "list_all filter_shape fs"
proof -
  obtain f q where f: "parse_filter up toks pos = Ok (f, q)" using assms by (cases "parse_filter up toks pos") (auto simp: parse_filters_def)
  then have "parse_and_filters up (length toks + 1) toks q [f] = Ok (fs, p)" using assms by (simp add: parse_filters_def del: parse_and_filters.simps)
  from parse_and_filters_shape[OF this] show ?thesis using parse_filter_shape[OF f] by simp
qed

lemma parse_count_shape: "parse_count what toks pos = Ok (n, p) \<Longrightarrow> n \<le> u64_max"
  by (auto simp: parse_count_def parse_usize_def outcome_simps split: option.splits if_splits)

lemma opt_clause_cases:
  assumes "opt_clause k a q toks pos = Ok (x, p)"
  shows "x = a \<or> (\<exists>pos'. q toks pos' = Ok (x, p))"
  using assms by (auto simp: opt_clause_def outcome_simps split: if_splits)

lemma where_shape: "opt_clause T_Where [] (parse_filters up) toks q = Ok (fs, p) \<Longrightarrow> list_all filter_shape fs"
  by (drule opt_clause_cases) (auto dest: parse_filters_shape)

lemma limit_shape: "opt_clause T_Limit None (\<lambda>toks pos. some_of (parse_count w toks pos)) toks q = Ok (Some n, p) \<Longrightarrow> n \<le> u64_max"
  by (drule opt_clause_cases) (auto simp: some_of_def outcome_simps dest: parse_count_shape)

lemma order_shape:
  "opt_clause T_OrderBy None (\<lambda>toks pos.
      bindO (opt_clause T_By () (\<lambda>toks pos. Ok ((), pos)) toks pos) (\<lambda>(_, pos).
      bindO (parse_field toks pos) (\<lambda>(field, pos).
        Ok (Some \<lparr> ob_field = field, ob_descending = False \<rparr>, pos)))) toks q = Ok (Some ob, p) \<Longrightarrow> \<not> ob_descending ob"
  by (drule opt_clause_cases) (auto simp: outcome_simps)

lemma edge_filter_shape:
  "opt_clause T_Where None (\<lambda>toks pos. some_of (parse_edge_filter toks pos)) toks q = Ok (Some ets, p) \<Longrightarrow> length ets = 1"
  by (drule opt_clause_cases) (auto simp: some_of_def parse_edge_filter_def outcome_simps)

lemma statement_shapes:
  "parse_recall up toks pos = Ok (s, p) \<Longrightarrow> statement_shape s" "parse_relate up toks pos = Ok (s, p) \<Longrightarrow> statement_shape s"
  "parse_forget up toks pos = Ok (s, p) \<Longrightarrow> statement_shape s" "parse_consolidate up toks pos = Ok (s, p) \<Longrightarrow> statement_shape s"
  "parse_traverse up toks pos = Ok (s, p) \<Longrightarrow> statement_shape s"
  by (auto simp: parse_recall_def parse_relate_def parse_forget_def parse_consolidate_def parse_traverse_def outcome_simps
      dest!: where_shape limit_shape order_shape edge_filter_shape parse_count_shape split: option.splits)

lemma parse_statement_shape:
  assumes "parse_statement up toks pos = Ok (s, p)"
  shows "statement_shape s"
proof -
  obtain tok where "peek toks pos = Ok tok" using assms by (cases "peek toks pos") (simp_all add: parse_statement_def)
  then show ?thesis using assms by (cases "tok_kind tok") (simp_all add: parse_statement_def statement_shapes)
qed

text \<open>C3: The parser reads every statement it can return, floats aside, from the statement's tokens, and returns no other
  statements. The tokens are given by \<open>statement_tokens\<close>, which writes the grammar of the parser down (the program has no
  printer of its own). Parsing the tokens of a statement and an end of input returns exactly that statement, with all filters in
  order, the order clause and the limit, identifiers and edge types, if the statement is plain and of the parser's shape. Plain
  means: no \<open>NEAR\<close> vector, no weight, no float or vector value, and no text value that the uuid crate accepts as a UUID or that
  starts inside a character. The shape is that of everything the parser returns, on any tokens: a memory type stands in the
  filters on \<open>type\<close> and only there, no filter holds an edge type, integers, limits and depths fit 64 bits, an order is never
  descending, and an edge filter has one type. The only fact used of the uuid crate is that it parses what it prints.\<close>

theorem parse_print_roundtrip:
  assumes up: "\<forall>u. uuid_parse (uuid_show u) = Some u"
  shows "(statement_shape s \<and> statement_plain uuid_parse s \<longrightarrow> mql_parser_parse uuid_parse (statement_tokens uuid_show s @ [tk T_Eof []]) = Ok s)
    \<and> (mql_parser_parse uuid_parse toks = Ok s' \<longrightarrow> statement_shape s')"
proof -
  let ?toks = "statement_tokens uuid_show s @ [tk T_Eof []]"
  have d: "drop 0 ?toks = statement_tokens uuid_show s @ [tk T_Eof []]" by simp
  have "\<exists>p. parse_statement uuid_parse ?toks 0 = Ok (s, p)" if "statement_shape s" "statement_plain uuid_parse s"
  proof (cases s)
    case (S_Recall r)
    then show ?thesis using recall_roundtrip[OF up _ d[unfolded S_Recall]] shape_printable[OF that] by (simp add: parse_statement_def peek_def)
  next
    case (S_Relate r)
    then show ?thesis using relate_roundtrip[OF up _ d[unfolded S_Relate]] shape_printable[OF that] by (simp add: parse_statement_def peek_def)
  next
    case (S_Forget f)
    have d0: "drop 0 ?toks = tk T_Forget ''forget'' # id_token uuid_show (fs_target f) # [tk T_Eof []]"
      using S_Forget by simp
    show ?thesis
      using S_Forget uuid_roundtrip[OF up drop_Cons(3)[OF d0]] advance_drop[OF d0]
      by (simp add: parse_statement_def peek_def parse_forget_def)
  next
    case (S_Consolidate c)
    then show ?thesis using consolidate_roundtrip[OF up _ d[unfolded S_Consolidate]] shape_printable[OF that] by (simp add: parse_statement_def peek_def)
  next
    case (S_Traverse t)
    then show ?thesis using traverse_roundtrip[OF up _ d[unfolded S_Traverse]] shape_printable[OF that] by (simp add: parse_statement_def peek_def)
  qed
  then show ?thesis using parse_statement_shape by (auto simp: mql_parser_parse_def outcome_simps)
qed

text \<open>A decimal encoding of identifiers stands in for the uuid crate in the witness.\<close>

definition decimal_show :: "uuid \<Rightarrow> string" where
  "decimal_show u = show_nat (unat u)"

definition decimal_parse :: "string \<Rightarrow> uuid option" where
  "decimal_parse s = map_option of_nat (parse_digits s)"

lemma decimal_roundtrip: "decimal_parse (decimal_show u) = Some u"
  by (simp add: decimal_parse_def decimal_show_def)

theorem parse_print_roundtrip_witness:
  "mql_parser_parse decimal_parse (statement_tokens decimal_show
     (S_Recall \<lparr> rs_filters = [\<lparr> flt_field = F_Tag, flt_op = O_Eq, flt_value = V_Text ''rust'' \<rparr>],
        rs_near = None, rs_limit = Some 5, rs_order_by = Some \<lparr> ob_field = F_Salience, ob_descending = False \<rparr> \<rparr>) @ [tk T_Eof []])
   = Ok (S_Recall \<lparr> rs_filters = [\<lparr> flt_field = F_Tag, flt_op = O_Eq, flt_value = V_Text ''rust'' \<rparr>],
        rs_near = None, rs_limit = Some 5, rs_order_by = Some \<lparr> ob_field = F_Salience, ob_descending = False \<rparr> \<rparr>)"
  (is "_ = Ok ?s")
proof -
  have "\<forall>u. decimal_parse (decimal_show u) = Some u" by (simp add: decimal_roundtrip)
  moreover have "statement_shape ?s" by (simp add: filter_shape_def)
  moreover have "statement_plain decimal_parse ?s"
    by (simp add: filter_plain_def decimal_parse_def parse_digits_def is_digit_def byte_def is_continuation_def)
  ultimately show ?thesis using parse_print_roundtrip by blast
qed

end
