(* ===== verification/Mql_Planner.thy ===== *)
theory Mql_Planner
  imports Mql_Print
begin

text \<open>
  The query planner, \<open>crates/mentedb-query/src/planner.rs\<close>, and the entry point \<open>Mql::parse\<close> of
  \<open>mql.rs\<close> that chains lexer, parser and planner.
\<close>

datatype QueryPlan =
    VectorSearch "f32 list" nat "Filter list"
  | TagScan "string list" "Filter list" "nat option"
  | TemporalScan Timestamp Timestamp "Filter list"
  | GraphTraversal MemoryId nat "EdgeType list"
  | PointLookup MemoryId
  | EdgeInsert MemoryId MemoryId EdgeType f32
  | DeletePlan MemoryId
  | ConsolidatePlan "Filter list"

definition DEFAULT_LIMIT :: nat where
  "DEFAULT_LIMIT = 20"

definition is_time_filter :: "Filter \<Rightarrow> bool" where
  "is_time_filter f = ((flt_field f = F_Created \<or> flt_field f = F_Accessed)
     \<and> flt_op f \<in> {O_Gt, O_Lt, O_Gte, O_Lte})"

fun text_of :: "Value \<Rightarrow> string option" where
  "text_of (V_Text t) = Some t"
| "text_of _ = None"

text \<open>\<open>ts as u64\<close>: a negative number wraps.\<close>

definition i64_as_u64 :: "int \<Rightarrow> nat" where
  "i64_as_u64 ts = nat (ts mod 18446744073709551616)"

fun time_bounds :: "Filter list \<Rightarrow> Timestamp \<Rightarrow> Timestamp \<Rightarrow> Timestamp \<times> Timestamp" where
  "time_bounds [] start stop = (start, stop)"
| "time_bounds (f # fs) start stop =
     (case flt_value f of
        V_Integer ts \<Rightarrow>
          if flt_op f = O_Gt \<or> flt_op f = O_Gte then time_bounds fs (i64_as_u64 ts) stop
          else if flt_op f = O_Lt \<or> flt_op f = O_Lte then time_bounds fs start (i64_as_u64 ts)
          else time_bounds fs start stop
      | _ \<Rightarrow> time_bounds fs start stop)"

definition similar_error :: MenteError where
  "similar_error = Query ''~> operator requires a text value on the right-hand side''"

definition plan_recall :: "RecallStatement \<Rightarrow> QueryPlan MenteResult" where
  "plan_recall recall =
     (let limit = (case rs_limit recall of None \<Rightarrow> DEFAULT_LIMIT | Some n \<Rightarrow> n);
          filters = rs_filters recall
      in case rs_near recall of
           Some vec \<Rightarrow> Ok (VectorSearch vec limit filters)
         | None \<Rightarrow>
           (case List.find (\<lambda>f. flt_op f = O_SimilarTo) filters of
              Some sim \<Rightarrow>
                (case flt_value sim of
                   V_Text _ \<Rightarrow> Ok (VectorSearch [] limit (filter (\<lambda>f. flt_op f \<noteq> O_SimilarTo) filters))
                 | _ \<Rightarrow> Err similar_error)
            | None \<Rightarrow>
                let tag_filters = filter (\<lambda>f. flt_field f = F_Tag) filters
                in if tag_filters \<noteq> [] \<and> list_all (\<lambda>f. flt_field f = F_Tag) filters
                   then Ok (TagScan (List.map_filter (\<lambda>f. text_of (flt_value f)) tag_filters) [] (Some limit))
                   else
                     let time_filters = filter is_time_filter filters
                     in if time_filters \<noteq> []
                        then let (start, stop) = time_bounds time_filters 0 u64_max
                             in Ok (TemporalScan start stop (filter (\<lambda>f. \<not> is_time_filter f) filters))
                        else Ok (TagScan [] filters (Some limit))))"

definition plan_relate :: "RelateStatement \<Rightarrow> QueryPlan MenteResult" where
  "plan_relate r = Ok (EdgeInsert (rl_source r) (rl_target r) (rl_edge_type r)
     (case rl_weight r of None \<Rightarrow> Fin 1 | Some w \<Rightarrow> w))"

definition plan_traverse :: "TraverseStatement \<Rightarrow> QueryPlan MenteResult" where
  "plan_traverse t = Ok (GraphTraversal (tv_start t) (tv_depth t)
     (case tv_edge_filter t of None \<Rightarrow> [] | Some ets \<Rightarrow> ets))"

fun mql_plan :: "Statement \<Rightarrow> QueryPlan MenteResult" where
  "mql_plan (S_Recall r) = plan_recall r"
| "mql_plan (S_Relate r) = plan_relate r"
| "mql_plan (S_Forget f) = Ok (DeletePlan (fs_target f))"
| "mql_plan (S_Consolidate c) = Ok (ConsolidatePlan (cn_filters c))"
| "mql_plan (S_Traverse t) = plan_traverse t"

definition mql_parse :: "(string \<Rightarrow> uuid option) \<Rightarrow> string \<Rightarrow> QueryPlan MenteResult" where
  "mql_parse uuid_parse input = bindO (tokenize input) (\<lambda>tokens.
     bindO (mql_parser_parse uuid_parse tokens) mql_plan)"

section \<open>Lexer output is what the parser expects\<close>

lemma tokenize_loop_all:
  assumes "\<And>p t p'. p < length input \<Longrightarrow> lex_step input p = Ok (Some t, p') \<Longrightarrow> P t"
    and "\<And>p. P (mk_token T_Eof [] p)"
  shows "\<forall>t \<in> set tokens. P t \<Longrightarrow> tokenize_loop input pos tokens = Ok ts \<Longrightarrow> \<forall>t \<in> set ts. P t"
  using assms(1)
proof (induction input pos tokens rule: tokenize_loop.induct)
  case (1 input pos tokens)
  show ?case
  proof (cases "pos < length input")
    case True
    then obtain r pos' where step: "lex_step input pos = Ok (r, pos')"
        and rest: "tokenize_loop input pos' (case r of None \<Rightarrow> tokens | Some t \<Rightarrow> tokens @ [t]) = Ok ts"
      using "1.prems"(2) by (auto simp: tokenize_loop.simps[of input pos] outcome_simps)
    have "\<forall>t \<in> set (case r of None \<Rightarrow> tokens | Some t \<Rightarrow> tokens @ [t]). P t"
      using "1.prems"(1) "1.prems"(3)[OF True] step by (auto split: option.splits)
    then show ?thesis by (rule "1.IH"[OF True step refl _ rest]) (rule "1.prems"(3))
  next
    case False
    then show ?thesis using "1.prems"(1,2) assms(2) by (auto simp: tokenize_loop.simps[of input pos])
  qed
qed

lemma keyword_kind_not_String [simp]: "keyword_kind s \<noteq> T_StringLit"
  by (auto simp: keyword_kind_def dest!: map_of_SomeD split: option.splits)

lemma single_char_kind_not_String: "single_char_kind c = Some k \<Longrightarrow> k \<noteq> T_StringLit"
  by (auto simp: single_char_kind_def split: if_splits)

lemma two_char_kind_not_String: "two_char_kind s = Some k \<Longrightarrow> k \<noteq> T_StringLit"
  by (auto simp: two_char_kind_def split: if_splits)

lemma lex_two_not_String: "lex_two input p = Ok (Some t, p') \<Longrightarrow> tok_kind t \<noteq> T_StringLit"
  by (auto simp: lex_two_def lex_single_def lex_uuid_def lex_number_def lex_word_def Let_def outcome_simps
      dest: single_char_kind_not_String two_char_kind_not_String split: if_splits option.splits)

lemma lex_step_string:
  assumes "is_ascii input" "p < length input" "lex_step input p = Ok (Some t, p')" "tok_kind t = T_StringLit"
  shows "strip_quotes (tok_lexeme t) \<noteq> Panic"
proof -
  have lex: "tok_lexeme t = take (p' - p) (drop p input)" "p' \<le> length input"
    using lex_step_token[OF assms(2,3)] by (simp_all add: token_at_def)
  have "lex_string input p = Ok (Some t, p')"
    using assms(3,4) lex_two_not_String by (auto simp: lex_step_def split: if_splits)
  then have "p + 2 \<le> p'" by (auto simp: lex_string_def Let_def outcome_simps split: if_splits)
  then have len: "2 \<le> length (tok_lexeme t)" using lex by simp
  have "is_ascii (tok_lexeme t)"
    using assms(1) lex(1) by (auto simp: is_ascii_def list_all_iff dest!: in_set_takeD in_set_dropD)
  then have "slice (tok_lexeme t) 1 (length (tok_lexeme t) - 1) \<noteq> Panic"
    using len by (subst slice_ascii) simp_all
  then show ?thesis by (cases "tok_lexeme t") (use len in \<open>simp_all add: strip_quotes_def\<close>)
qed

lemma tokenize_wf:
  assumes "is_ascii input" "tokenize input = Ok ts"
  shows "wf_tokens ts"
proof -
  have "\<forall>t \<in> set ts. tok_kind t = T_StringLit \<longrightarrow> strip_quotes (tok_lexeme t) \<noteq> Panic"
    by (rule tokenize_loop_all[of input _ "[]" 0 ts])
      (use assms lex_step_string in \<open>auto simp: tokenize_def\<close>)
  moreover have "laid_out input 0 ts"
    using tokenize_loop_laid_out[of 0 input "[]" ts] assms(2) by (simp add: tokenize_def)
  ultimately show ?thesis by (auto simp: wf_tokens_def laid_out_def)
qed

section \<open>Planning\<close>

fun plan_filters :: "QueryPlan \<Rightarrow> Filter list" where
  "plan_filters (VectorSearch q k fs) = fs"
| "plan_filters (TagScan tags fs l) = fs"
| "plan_filters (TemporalScan s e fs) = fs"
| "plan_filters (ConsolidatePlan fs) = fs"
| "plan_filters _ = []"

text \<open>C15: On ASCII input the whole of \<open>Mql::parse\<close> returns a plan or an error: no slice leaves the
  text or cuts a character, no token index is out of range, and the parser's loops end, whatever
  the uuid crate answers.\<close>

theorem mql_parse_returns:
  assumes "is_ascii input"
  shows "\<exists>r. mql_parse uuid_parse input = Ok r \<or> (\<exists>e. mql_parse uuid_parse input = Err e)"
proof -
  have "mql_plan s \<noteq> Panic" for s
    by (cases s) (auto simp: plan_recall_def plan_relate_def plan_traverse_def Let_def
        split: option.splits Value.splits prod.splits)
  moreover have "tokenize input \<noteq> Panic" using tokenize_loop_ascii[OF assms] by (simp add: tokenize_def)
  ultimately have "mql_parse uuid_parse input \<noteq> Panic"
    using mql_parser_no_panic[OF tokenize_wf[OF assms]] by (auto simp: mql_parse_def outcome_simps)
  then show ?thesis by (cases "mql_parse uuid_parse input") auto
qed

definition sample_query :: string where
  "sample_query = ''FORGET '' @ in_quotes ''7''"

theorem mql_parse_returns_witness:
  "is_ascii sample_query \<and> mql_parse decimal_parse sample_query = Ok (DeletePlan (MemoryId 7))
   \<and> (\<exists>r. mql_parse decimal_parse sample_query = Ok r \<or> (\<exists>e. mql_parse decimal_parse sample_query = Err e))"
proof (intro conjI)
  show a: "is_ascii sample_query" by code_simp
  show "mql_parse decimal_parse sample_query = Ok (DeletePlan (MemoryId 7))" by code_simp
  show "\<exists>r. mql_parse decimal_parse sample_query = Ok r \<or> (\<exists>e. mql_parse decimal_parse sample_query = Err e)"
    by (rule mql_parse_returns[OF a])
qed

text \<open>A recall plan keeps every filter that is not a tag, a similarity or a time-range filter, for
  the executor to apply.\<close>

theorem plan_recall_keeps_filters:
  assumes "plan_recall r = Ok p" "f \<in> set (rs_filters r)"
    and "flt_field f \<noteq> F_Tag" "flt_op f \<noteq> O_SimilarTo" "\<not> is_time_filter f"
  shows "f \<in> set (plan_filters p)"
  using assms by (auto simp: plan_recall_def Let_def list_all_iff split: option.splits Value.splits if_splits prod.splits)

definition sample_filter :: "Field \<Rightarrow> Operator \<Rightarrow> Value \<Rightarrow> Filter" where
  "sample_filter fld op v = \<lparr> flt_field = fld, flt_op = op, flt_value = v \<rparr>"

definition sample_recall :: "Filter list \<Rightarrow> RecallStatement" where
  "sample_recall fs = \<lparr> rs_filters = fs, rs_near = None, rs_limit = None, rs_order_by = None \<rparr>"

theorem plan_recall_keeps_filters_witness:
  "sample_filter F_Agent O_Eq (V_Text ''a'') \<in> set (plan_filters (TemporalScan 100 u64_max
     [sample_filter F_Agent O_Eq (V_Text ''a'')]))"
  by (rule plan_recall_keeps_filters[of "sample_recall [sample_filter F_Created O_Gt (V_Integer 100),
        sample_filter F_Agent O_Eq (V_Text ''a'')]"])
    (simp_all add: plan_recall_def sample_recall_def sample_filter_def is_time_filter_def i64_as_u64_def)

text \<open>
  Two filters the planner loses. A recall whose filters are all on tags becomes a scan for their
  texts whatever the operators, so \<open>tag != x\<close> plans the same scan as \<open>tag = x\<close>. And of several bounds on
  one side the last wins and all are removed, so \<open>created > 100 AND created > 50\<close> scans from 50.
\<close>

lemma plan_tag_operator_ignored:
  "plan_recall (sample_recall [sample_filter F_Tag O_Neq (V_Text t)])
     = plan_recall (sample_recall [sample_filter F_Tag O_Eq (V_Text t)])"
  by (simp add: plan_recall_def sample_recall_def sample_filter_def List.map_filter_def)

lemma plan_last_time_bound_wins:
  "plan_recall (sample_recall [sample_filter F_Created O_Gt (V_Integer 100), sample_filter F_Created O_Gt (V_Integer 50)])
     = Ok (TemporalScan 50 u64_max [])"
  by (simp add: plan_recall_def sample_recall_def sample_filter_def is_time_filter_def i64_as_u64_def)

end
