(* ===== verification/Rust_Strings.thy ===== *)
theory Rust_Strings
  imports Rust_Text
begin

text \<open>
  The string functions of the standard library that the text components use, on UTF-8 bytes:
  splitting, trimming, searching and replacing. Unicode lower-casing (\<open>str::to_lowercase\<close>) needs the
  Unicode tables; the functions that call it take it as an argument \<open>lower\<close>, and what is used
  of it is the documented behaviour on ASCII text.
\<close>

section \<open>Whitespace\<close>

text \<open>
  \<open>split_whitespace\<close> splits at the characters with the Unicode property White_Space.
  \<open>space_width\<close> is the width in bytes of such a character at the head of a text, 0 when there
  is none: the ASCII ones, U+0085, U+00A0, U+1680, U+2000 to U+200A, U+2028, U+2029, U+202F, U+205F and
  U+3000. Their lead bytes never occur inside a character, so looking at every byte is enough.
\<close>

definition space_width :: "string \<Rightarrow> nat" where
  "space_width s = (case map byte (take 3 s) of
     [] \<Rightarrow> 0
   | b # bs \<Rightarrow>
       if (9 \<le> b \<and> b \<le> 13) \<or> b = 32 then 1
       else if b = 194 \<and> bs \<noteq> [] \<and> (hd bs = 133 \<or> hd bs = 160) then 2
       else if length bs < 2 then 0
       else let c = bs ! 0; d = bs ! 1 in
         if b = 225 \<and> c = 154 \<and> d = 128 then 3
         else if b = 226 \<and> c = 128 \<and> (128 \<le> d \<and> d \<le> 138 \<or> d = 168 \<or> d = 169 \<or> d = 175) then 3
         else if b = 226 \<and> c = 129 \<and> d = 159 then 3
         else if b = 227 \<and> c = 128 \<and> d = 128 then 3
         else 0)"

text \<open>\<open>split_whitespace\<close>: the maximal runs without whitespace; \<open>cur\<close> is the run being read.\<close>

function split_ws :: "string \<Rightarrow> string \<Rightarrow> string list" where
  "split_ws cur [] = (if cur = [] then [] else [cur])"
| "split_ws cur (c # cs) =
     (if space_width (c # cs) > 0
      then (if cur = [] then [] else [cur]) @ split_ws [] (drop (space_width (c # cs) - 1) cs)
      else split_ws (cur @ [c]) cs)"
  by pat_completeness auto
termination by (relation "measure (length \<circ> snd)") auto

abbreviation split_whitespace :: "string \<Rightarrow> string list" where
  "split_whitespace s \<equiv> split_ws [] s"

text \<open>\<open>trim\<close>: whitespace is dropped at the front, and everything after the last other character.\<close>

function trim_start :: "string \<Rightarrow> string" where
  "trim_start [] = []"
| "trim_start (c # cs) =
     (if space_width (c # cs) > 0 then trim_start (drop (space_width (c # cs) - 1) cs) else c # cs)"
  by pat_completeness auto
termination by (relation "measure length") auto

function content_end :: "nat \<Rightarrow> nat \<Rightarrow> string \<Rightarrow> nat" where
  "content_end pos best [] = best"
| "content_end pos best (c # cs) =
     (if space_width (c # cs) > 0
      then content_end (pos + space_width (c # cs)) best (drop (space_width (c # cs) - 1) cs)
      else content_end (pos + 1) (pos + 1) cs)"
  by pat_completeness auto
termination by (relation "measure (length \<circ> snd \<circ> snd)") auto

definition trim :: "string \<Rightarrow> string" where
  "trim s = (let t = trim_start s in take (content_end 0 0 t) t)"

section \<open>Searching and splitting\<close>

fun starts_with :: "string \<Rightarrow> string \<Rightarrow> bool" where
  "starts_with s [] = True"
| "starts_with [] (p # ps) = False"
| "starts_with (c # cs) (p # ps) = (c = p \<and> starts_with cs ps)"

fun str_find :: "string \<Rightarrow> string \<Rightarrow> nat option" where
  "str_find pat [] = (if pat = [] then Some 0 else None)"
| "str_find pat (c # cs) =
     (if starts_with (c # cs) pat then Some 0 else map_option Suc (str_find pat cs))"

definition str_contains :: "string \<Rightarrow> string \<Rightarrow> bool" where
  "str_contains s pat = (str_find pat s \<noteq> None)"

definition ends_with :: "string \<Rightarrow> string \<Rightarrow> bool" where
  "ends_with s pat = starts_with (rev s) (rev pat)"

fun split_char :: "char \<Rightarrow> string \<Rightarrow> string list" where
  "split_char d [] = [[]]"
| "split_char d (c # cs) =
     (if c = d then [] # split_char d cs
      else case split_char d cs of [] \<Rightarrow> [[c]] | w # ws \<Rightarrow> (c # w) # ws)"

text \<open>\<open>split\<close> at a non-empty string, from the left; \<open>cur\<close> is the piece being read.\<close>

function split_str_from :: "string \<Rightarrow> string \<Rightarrow> string \<Rightarrow> string list" where
  "split_str_from pat cur [] = [cur]"
| "split_str_from pat cur (c # cs) =
     (if pat \<noteq> [] \<and> starts_with (c # cs) pat then cur # split_str_from pat [] (drop (length pat - 1) cs)
      else split_str_from pat (cur @ [c]) cs)"
  by pat_completeness auto
termination by (relation "measure (length \<circ> snd \<circ> snd)") auto

definition split_str :: "string \<Rightarrow> string \<Rightarrow> string list" where
  "split_str pat s = split_str_from pat [] s"

text \<open>\<open>replacen(pat, "", 1)\<close> for a non-empty pattern.\<close>

definition remove_first :: "string \<Rightarrow> string \<Rightarrow> string" where
  "remove_first pat s =
     (case str_find pat s of None \<Rightarrow> s | Some i \<Rightarrow> take i s @ drop (i + length pat) s)"

section \<open>Facts\<close>

lemma space_width_le: "space_width s \<le> length s"
proof -
  have "length (map byte (take 3 s)) \<le> length s" by simp
  then show ?thesis
    by (cases "map byte (take 3 s)") (auto simp: space_width_def Let_def length_Suc_conv neq_Nil_conv)
qed

lemma starts_with_iff: "starts_with s pat \<longleftrightarrow> take (length pat) s = pat"
  by (induction s pat rule: starts_with.induct) auto

lemma str_find_SomeD:
  "str_find pat s = Some i \<Longrightarrow> i + length pat \<le> length s \<and> take (length pat) (drop i s) = pat"
proof (induction s arbitrary: i)
  case Nil
  then show ?case by (simp split: if_splits)
next
  case (Cons c cs)
  show ?case
  proof (cases "starts_with (c # cs) pat")
    case True
    then have "length pat = min (length pat) (Suc (length cs))" by (metis starts_with_iff length_Cons length_take min.commute)
    then show ?thesis using True Cons.prems by (simp add: starts_with_iff)
  next
    case False
    then obtain j where "str_find pat cs = Some j" "i = Suc j" using Cons.prems by auto
    then show ?thesis using Cons.IH[of j] by simp
  qed
qed

lemma split_char_no_delim: "w \<in> set (split_char d s) \<Longrightarrow> d \<notin> set w"
  by (induction s arbitrary: w) (force split: if_splits list.splits)+

lemma split_char_not_Nil [simp]: "split_char d s \<noteq> []"
  by (cases s) (auto split: list.splits)

lemma join_split_char: "join [d] (split_char d s) = s"
proof (induction s)
  case (Cons c cs)
  obtain w ws where "split_char d cs = w # ws" by (meson neq_Nil_conv split_char_not_Nil)
  then show ?case using Cons by (cases ws) auto
qed simp

lemma is_ascii_take: "is_ascii s \<Longrightarrow> is_ascii (take n s)"
  by (simp add: is_ascii_def list_all_iff) (meson in_set_takeD)

lemma is_ascii_drop: "is_ascii s \<Longrightarrow> is_ascii (drop n s)"
  by (simp add: is_ascii_def list_all_iff) (meson in_set_dropD)

lemma is_ascii_trim: "is_ascii s \<Longrightarrow> is_ascii (trim s)"
proof -
  have "is_ascii s \<Longrightarrow> is_ascii (trim_start s)" for s
    by (induction s rule: trim_start.induct) (auto simp: is_ascii_drop is_ascii_def list_all_iff dest: in_set_dropD)
  then show "is_ascii s \<Longrightarrow> is_ascii (trim s)" by (simp add: trim_def Let_def is_ascii_take)
qed

lemma is_ascii_split_char: "is_ascii s \<Longrightarrow> w \<in> set (split_char d s) \<Longrightarrow> is_ascii w"
  by (induction s arbitrary: w) (force simp: is_ascii_def split: if_splits list.splits)+

end
