(* ===== verification/Context_Budget.thy ===== *)
theory Context_Budget
  imports Core_Types Rust_Strings
begin

text \<open>
  Token budgets, \<open>crates/mentedb-context/src/budget.rs\<close>: the token estimate of a text, the running
  budget, and the split of a total over the zones.
\<close>

section \<open>Words\<close>

text \<open>\<open>text.split_whitespace().count()\<close>: the number of maximal runs without whitespace.\<close>

function count_words :: "bool \<Rightarrow> string \<Rightarrow> nat" where
  "count_words in_word [] = 0"
| "count_words in_word (c # cs) =
     (if space_width (c # cs) > 0 then count_words False (drop (space_width (c # cs) - 1) cs)
      else (if in_word then 0 else 1) + count_words True cs)"
  by pat_completeness auto
termination by (relation "measure (length \<circ> snd)") auto

definition word_count :: "string \<Rightarrow> nat" where
  "word_count s = count_words False s"

definition estimate_tokens :: "string \<Rightarrow> nat" where
  "estimate_tokens text =
     fl_to_u64 (fl_ceil (fl_mul f64_of (f64_of (of_nat (word_count text))) (f64_of (13/10))))"

section \<open>The running budget\<close>

record TokenBudget =
  max_tokens :: nat
  used_tokens :: nat

definition budget_new :: "nat \<Rightarrow> TokenBudget" where
  "budget_new m = \<lparr> max_tokens = m, used_tokens = 0 \<rparr>"

definition budget_remaining :: "TokenBudget \<Rightarrow> nat" where
  "budget_remaining b = max_tokens b - used_tokens b"

definition can_fit :: "TokenBudget \<Rightarrow> string \<Rightarrow> bool" where
  "can_fit b text = (estimate_tokens text \<le> budget_remaining b)"

definition budget_consume :: "TokenBudget \<Rightarrow> string \<Rightarrow> TokenBudget \<times> nat" where
  "budget_consume b text =
     (let tokens = estimate_tokens text; actual = min tokens (budget_remaining b)
      in (b\<lparr>used_tokens := used_tokens b + actual\<rparr>, actual))"

definition budget_reset :: "TokenBudget \<Rightarrow> TokenBudget" where
  "budget_reset b = b\<lparr>used_tokens := 0\<rparr>"

section \<open>Zones\<close>

record ZoneBudgetConfig =
  system_pct :: f32
  critical_pct :: f32
  primary_pct :: f32
  supporting_pct :: f32
  reference_pct :: f32

definition zone_budget_default :: ZoneBudgetConfig where
  "zone_budget_default = \<lparr> system_pct = f32_of (1/10), critical_pct = Fin (1/4), primary_pct = f32_of (35/100),
     supporting_pct = f32_of (1/5), reference_pct = f32_of (1/10) \<rparr>"

record BudgetAllocation =
  ba_system :: nat
  ba_critical :: nat
  ba_primary :: nat
  ba_supporting :: nat
  ba_reference :: nat

definition zone_share :: "nat \<Rightarrow> f32 \<Rightarrow> nat" where
  "zone_share tot pct = fl_to_u64 (fl_mul f32_of (f32_of (of_nat tot)) pct)"

definition from_total_with_config :: "nat \<Rightarrow> ZoneBudgetConfig \<Rightarrow> BudgetAllocation" where
  "from_total_with_config tot cfg =
     \<lparr> ba_system = zone_share tot (system_pct cfg), ba_critical = zone_share tot (critical_pct cfg),
       ba_primary = zone_share tot (primary_pct cfg), ba_supporting = zone_share tot (supporting_pct cfg),
       ba_reference = zone_share tot (reference_pct cfg) \<rparr>"

definition from_total :: "nat \<Rightarrow> BudgetAllocation" where
  "from_total tot = from_total_with_config tot zone_budget_default"

definition allocation_total :: "BudgetAllocation \<Rightarrow> nat" where
  "allocation_total a = ba_system a + ba_critical a + ba_primary a + ba_supporting a + ba_reference a"

section \<open>The estimate is between one and two tokens per word\<close>

lemma f64_of_nat:
  assumes "n < 2 ^ 53"
  shows "f64_of (of_nat n) = Fin (of_nat n)"
proof -
  have "(of_nat n :: rat) < 2 ^ 53" using assms by (metis of_nat_less_iff of_nat_numeral of_nat_power)
  also have "(2::rat) ^ 53 < 2 powi 1024" using powi_less_iff2[of 53 1024] by (simp add: power_int_def)
  finally show ?thesis
    using rnd_of_nat[of n 53 "-1074"] assms by (simp add: f64_of_def to_fl_def Let_def not_le)
qed

lemma f64_thirteen_tenths: "\<exists>r. f64_of (13/10) = Fin r \<and> 1 \<le> r \<and> r \<le> 3/2"
proof -
  have "case f64_of (13/10) of Fin r \<Rightarrow> 1 \<le> r \<and> r \<le> 3/2 | _ \<Rightarrow> False" by code_simp
  then show ?thesis by (auto split: fl.splits)
qed

lemma f64_of_between:
  assumes "of_nat a \<le> x" "x \<le> of_nat b" "b < 2 ^ 53"
  shows "\<exists>y. f64_of x = Fin y \<and> of_nat a \<le> y \<and> y \<le> of_nat b"
proof -
  have ab: "a \<le> b" using assms(1,2) by (metis of_nat_le_iff order_trans)
  have "rnd 53 (-1074) (of_nat a) \<le> rnd 53 (-1074) x" "rnd 53 (-1074) x \<le> rnd 53 (-1074) (of_nat b)"
    using rnd_mono[OF assms(1)] rnd_mono[OF assms(2)] by simp_all
  then have r: "of_nat a \<le> rnd 53 (-1074) x" "rnd 53 (-1074) x \<le> of_nat b"
    using rnd_of_nat[of a 53 "-1074"] rnd_of_nat[of b 53 "-1074"] assms(3) ab by simp_all
  have "(of_nat b :: rat) < 2 ^ 53" using assms(3) by (metis of_nat_less_iff of_nat_numeral of_nat_power)
  also have "(2::rat) ^ 53 < 2 powi 1024" using powi_less_iff2[of 53 1024] by (simp add: power_int_def)
  finally have "rnd 53 (-1074) x < 2 powi 1024" "- (2 powi 1024) < rnd 53 (-1074) x" using r by simp_all
  then show ?thesis using r by (simp add: f64_of_def to_fl_def Let_def not_le)
qed

lemma estimate_bounds:
  assumes "word_count text < 2 ^ 52"
  shows "word_count text \<le> estimate_tokens text \<and> estimate_tokens text \<le> 2 * word_count text"
proof -
  let ?n = "word_count text"
  obtain r where r: "f64_of (13/10) = Fin r" "1 \<le> r" "r \<le> 3/2" using f64_thirteen_tenths by blast
  have n: "f64_of (of_nat ?n) = Fin (of_nat ?n)" using assms by (intro f64_of_nat) simp
  have lo: "of_nat ?n \<le> of_nat ?n * r" using r(2) by (simp add: mult_left_mono[of 1 r, simplified])
  have "of_nat ?n * r \<le> of_nat ?n * (3/2)" using r(3) by (intro mult_left_mono) auto
  also have "\<dots> \<le> of_nat (2 * ?n)" by simp
  finally obtain y where y: "f64_of (of_nat ?n * r) = Fin y" "of_nat ?n \<le> y" "y \<le> of_nat (2 * ?n)"
    using f64_of_between[OF lo, of "2 * ?n"] assms by auto
  have "int ?n \<le> \<lceil>y\<rceil>" using y(2) by (simp add: le_ceiling_iff)
  moreover have "\<lceil>y\<rceil> \<le> int (2 * ?n)" using y(3) by (simp add: ceiling_le_iff)
  moreover have "estimate_tokens text = nat (min (int u64_max) \<lceil>y\<rceil>)"
    using n r(1) y(1) by (simp add: estimate_tokens_def)
  moreover have "int (2 * ?n) \<le> int u64_max" using assms by simp
  ultimately show ?thesis by linarith
qed

end
