(* ===== verification/Context_Layout.thy ===== *)
theory Context_Layout
  imports Context_Budget
begin

text \<open>
  Attention zones and output formats: \<open>crates/mentedb-context/src/layout.rs\<close> and
  \<open>serializer.rs\<close>. Text is the list of its UTF-8 bytes, so the emoji of the zone labels are written as
  their bytes.
\<close>

section \<open>Zones\<close>

record ScoredMemory =
  sm_memory :: MemoryNode
  sm_score :: f32

datatype AttentionZone = Opening | Critical | Primary | Supporting | Closing

definition all_ordered :: "AttentionZone list" where
  "all_ordered = [Opening, Critical, Primary, Supporting, Closing]"

record ContextBlock =
  cb_zone :: AttentionZone
  cb_memories :: "ScoredMemory list"
  cb_estimated_tokens :: nat

record ZoneThresholds =
  critical_score :: f32
  critical_salience :: f32
  primary_score :: f32
  supporting_score :: f32

definition zone_thresholds_default :: ZoneThresholds where
  "zone_thresholds_default = \<lparr> critical_score = f32_of (8/10), critical_salience = f32_of (7/10),
     primary_score = Fin (1/2), supporting_score = f32_of (2/10) \<rparr>"

definition classify :: "ZoneThresholds \<Rightarrow> ScoredMemory \<Rightarrow> AttentionZone" where
  "classify th sm =
     (let mem = sm_memory sm in
      if mn_memory_type mem = AntiPattern \<or> mn_memory_type mem = Correction then Opening
      else if fl_le (critical_score th) (sm_score sm) \<and> fl_le (critical_salience th) (mn_salience mem) then Critical
      else if fl_le (primary_score th) (sm_score sm) then Primary
      else if fl_le (supporting_score th) (sm_score sm) then Supporting
      else Closing)"

text \<open>
  The comparator of the descending sorts: \<open>b.score.partial_cmp(&a.score)\<close>, equal when a score is
  not a number.
\<close>

definition score_before :: "ScoredMemory \<Rightarrow> ScoredMemory \<Rightarrow> bool" where
  "score_before a b = fl_lt (sm_score b) (sm_score a)"

definition estimate_block_tokens :: "ScoredMemory list \<Rightarrow> nat" where
  "estimate_block_tokens ms = sum_list (map (\<lambda>sm. estimate_tokens (mn_content (sm_memory sm))) ms)"

definition zone_members :: "ZoneThresholds \<Rightarrow> ScoredMemory list \<Rightarrow> AttentionZone \<Rightarrow> ScoredMemory list" where
  "zone_members th memories zone = sort_by score_before (filter (\<lambda>sm. classify th sm = zone) memories)"

definition arrange :: "ZoneThresholds \<Rightarrow> ScoredMemory list \<Rightarrow> ContextBlock list" where
  "arrange th memories = map (\<lambda>zone.
     let ms = zone_members th memories zone
     in \<lparr> cb_zone = zone, cb_memories = ms, cb_estimated_tokens = estimate_block_tokens ms \<rparr>) all_ordered"

section \<open>The comparator's contract\<close>

interpretation by_score: comparator score_before "\<lambda>sm. sm_score sm \<noteq> NaN"
  by unfold_locales (auto simp: score_before_def dest: fl_lt_asym fl_lt_negtrans)

definition score_sorted :: "ScoredMemory list \<Rightarrow> bool" where
  "score_sorted = sorted_wrt (\<lambda>a b. fl_le (sm_score b) (sm_score a))"

lemma sort_by_score_sorted:
  assumes "\<forall>sm \<in> set ms. sm_score sm \<noteq> NaN"
  shows "score_sorted (sort_by score_before ms)"
proof -
  have "sorted_wrt (\<lambda>a b. \<not> score_before b a) (sort_by score_before ms)"
    using by_score.ordered_sort_by[OF assms] by (simp add: by_score.ordered_def)
  then show ?thesis
    unfolding score_sorted_def
    by (rule sorted_wrt_mono_rel[rotated]) (use assms in \<open>auto simp: score_before_def fl_not_lt\<close>)
qed

lemma mset_arrange: "mset (concat (map cb_memories (arrange th memories))) = mset memories"
proof -
  have "filter_mset (\<lambda>sm. classify th sm = Opening) M + filter_mset (\<lambda>sm. classify th sm = Critical) M
      + filter_mset (\<lambda>sm. classify th sm = Primary) M + filter_mset (\<lambda>sm. classify th sm = Supporting) M
      + filter_mset (\<lambda>sm. classify th sm = Closing) M = M" for M
  proof (induction M)
    case (add x M)
    then show ?case by (cases "classify th x") (auto simp: add_mset_commute union_assoc[symmetric])
  qed simp
  from this[of "mset memories"] show ?thesis
    by (simp add: arrange_def all_ordered_def zone_members_def Let_def union_assoc[symmetric])
qed

section \<open>Serialization\<close>

fun memory_type_debug :: "MemoryType \<Rightarrow> string" where
  "memory_type_debug Episodic = ''Episodic''"
| "memory_type_debug Semantic = ''Semantic''"
| "memory_type_debug Procedural = ''Procedural''"
| "memory_type_debug AntiPattern = ''AntiPattern''"
| "memory_type_debug Reasoning = ''Reasoning''"
| "memory_type_debug Correction = ''Correction''"

text \<open>
  \<open>{:.2}\<close> of a float: the exact value rounded to hundredths, ties to even.
\<close>

fun show_fixed2 :: "fl \<Rightarrow> string" where
  "show_fixed2 NaN = ''NaN''"
| "show_fixed2 (Inf s) = (if s then ''-inf'' else ''inf'')"
| "show_fixed2 (Fin a) =
     (let n = nat (rnd_even (\<bar>a\<bar> * 100))
      in (if a < 0 then ''-'' else []) @ show_nat (n div 100) @ ''.''
         @ [digit_char (n div 10 mod 10), digit_char (n mod 10)])"

fun zone_label :: "AttentionZone \<Rightarrow> string" where
  "zone_label Opening = [CHR 0xE2, CHR 0x9A, CHR 0xA0, CHR 0xEF, CHR 0xB8, CHR 0x8F] @ '' Warnings & Corrections''"
| "zone_label Critical = [CHR 0xF0, CHR 0x9F, CHR 0x8E, CHR 0xAF] @ '' Critical Context''"
| "zone_label Primary = [CHR 0xF0, CHR 0x9F, CHR 0x93, CHR 0x8B] @ '' Primary Context''"
| "zone_label Supporting = [CHR 0xF0, CHR 0x9F, CHR 0x93, CHR 0x8E] @ '' Supporting Context''"
| "zone_label Closing = [CHR 0xF0, CHR 0x9F, CHR 0x94, CHR 0x81] @ '' Summary & Reinforcement''"

definition newline :: string where
  "newline = [CHR 0x0A]"

definition compact_line :: "ScoredMemory \<Rightarrow> string" where
  "compact_line sm = (let m = sm_memory sm in
     ''M|'' @ memory_type_debug (mn_memory_type m) @ ''|'' @ show_fixed2 (mn_salience m) @ ''|'' @ mn_content m
     @ (if mn_tags m = [] then [] else ''|tags:'' @ join '','' (mn_tags m)))"

definition compact_serialize :: "ContextBlock list \<Rightarrow> string" where
  "compact_serialize blocks = join newline (concat (map (\<lambda>block.
     if cb_memories block = [] then []
     else (''# '' @ zone_label (cb_zone block)) # map compact_line (cb_memories block)) blocks))"

definition structured_line :: "ScoredMemory \<Rightarrow> string" where
  "structured_line sm = (let m = sm_memory sm in
     ''- **['' @ memory_type_debug (mn_memory_type m) @ '']** (salience: '' @ show_fixed2 (mn_salience m) @ '') ''
     @ mn_content m @ (if mn_tags m = [] then [] else '' ['' @ join '', '' (mn_tags m) @ '']''))"

definition structured_serialize :: "ContextBlock list \<Rightarrow> string" where
  "structured_serialize blocks = join newline (concat (map (\<lambda>block.
     if cb_memories block = [] then []
     else (''## '' @ zone_label (cb_zone block)) # map structured_line (cb_memories block) @ [[]]) blocks))"

definition delta_line :: "ScoredMemory \<Rightarrow> string" where
  "delta_line sm = ''- [NEW] '' @ memory_type_debug (mn_memory_type (sm_memory sm)) @ '' | '' @ mn_content (sm_memory sm)"

definition delta_serialize :: "string \<Rightarrow> ContextBlock list \<Rightarrow> string" where
  "delta_serialize delta_header blocks = join newline ([delta_header, []] @ concat (map (\<lambda>block.
     if cb_memories block = [] then []
     else (''## '' @ zone_label (cb_zone block)) # map delta_line (cb_memories block)) blocks))"

end
