(* ===== verification/Context_Assembler.thy ===== *)
theory Context_Assembler
  imports Context_Layout
begin

text \<open>
  Context assembly: \<open>crates/mentedb-context/src/delta.rs\<close> and \<open>assembler.rs\<close>. Two things come from
  outside the sources and are arguments: \<open>id_show\<close>, the text of an identifier (the uuid crate), whose
  first eight bytes are sliced, and \<open>iter_order\<close>, the order in which a hash set is iterated.
  Scores that are not numbers make the comparators of the sorts inconsistent, for which the standard
  library promises nothing; the theorems on the order exclude them.
\<close>

section \<open>Delta tracking\<close>

record DeltaResult =
  dr_added :: "MemoryId list"
  dr_removed :: "MemoryId list"
  dr_unchanged :: "MemoryId list"

record DeltaTracker =
  last_served :: "MemoryId set"
  last_turn_id :: nat

definition delta_tracker_new :: DeltaTracker where
  "delta_tracker_new = \<lparr> last_served = {}, last_turn_id = 0 \<rparr>"

definition compute_delta :: "(MemoryId set \<Rightarrow> MemoryId list) \<Rightarrow> MemoryId list \<Rightarrow> MemoryId set \<Rightarrow> DeltaResult" where
  "compute_delta iter_order current previous =
     \<lparr> dr_added = filter (\<lambda>i. i \<notin> previous) current,
       dr_removed = filter (\<lambda>i. i \<notin> set current) (iter_order previous),
       dr_unchanged = filter (\<lambda>i. i \<in> previous) current \<rparr>"

definition delta_update :: "DeltaTracker \<Rightarrow> MemoryId list \<Rightarrow> DeltaTracker" where
  "delta_update t served_ids = t\<lparr>last_served := set served_ids, last_turn_id := wrap64 (last_turn_id t + 1)\<rparr>"

definition format_delta_context :: "MemoryNode list \<Rightarrow> string list \<Rightarrow> nat \<Rightarrow> string" where
  "format_delta_context added removed_summaries unchanged_count = join newline (
     map (\<lambda>mem. ''[NEW] '' @ mn_content mem) added
     @ (if removed_summaries = [] then []
        else if length removed_summaries = 1 then [''[REMOVED] '' @ hd removed_summaries]
        else [''[REMOVED] '' @ show_nat (length removed_summaries) @ '' memories no longer relevant''])
     @ (if unchanged_count > 0 then [''[UNCHANGED] '' @ show_nat unchanged_count @ '' memories from previous turn'']
        else []))"

section \<open>The assembler\<close>

datatype OutputFormat = Compact | Structured | Delta

record AssemblyConfig =
  token_budget :: nat
  ac_format :: OutputFormat
  include_edges :: bool
  include_metadata :: bool

definition assembly_default :: AssemblyConfig where
  "assembly_default = \<lparr> token_budget = 4096, ac_format = Structured, include_edges = False, include_metadata = True \<rparr>"

record AssemblyMetadata =
  total_candidates :: nat
  included_count :: nat
  excluded_count :: nat
  edges_included :: nat
  zones_used :: nat

record ContextWindow =
  cw_blocks :: "ContextBlock list"
  cw_total_tokens :: nat
  cw_format :: string
  cw_metadata :: AssemblyMetadata

definition content_of :: "ScoredMemory \<Rightarrow> string" where
  "content_of sm = mn_content (sm_memory sm)"

text \<open>The greedy loop: a memory that fits the remaining budget is taken, another is passed over.\<close>

fun take_fitting :: "ScoredMemory list \<Rightarrow> TokenBudget \<Rightarrow> ScoredMemory list \<Rightarrow> ScoredMemory list \<times> TokenBudget" where
  "take_fitting [] budget included = (included, budget)"
| "take_fitting (sm # sms) budget included =
     (if can_fit budget (content_of sm)
      then take_fitting sms (fst (budget_consume budget (content_of sm))) (included @ [sm])
      else take_fitting sms budget included)"

fun edge_type_debug :: "EdgeType \<Rightarrow> string" where
  "edge_type_debug Caused = ''Caused''"
| "edge_type_debug Before = ''Before''"
| "edge_type_debug Related = ''Related''"
| "edge_type_debug Contradicts = ''Contradicts''"
| "edge_type_debug Supports = ''Supports''"
| "edge_type_debug Supersedes = ''Supersedes''"
| "edge_type_debug Derived = ''Derived''"
| "edge_type_debug PartOf = ''PartOf''"

text \<open>\<open>&id.to_string()[..8]\<close>.\<close>

definition short_id :: "(MemoryId \<Rightarrow> string) \<Rightarrow> MemoryId \<Rightarrow> (MenteError, string) outcome" where
  "short_id id_show i = slice (id_show i) 0 8"

definition edge_line :: "(MemoryId \<Rightarrow> string) \<Rightarrow> MemoryEdge \<Rightarrow> (MenteError, string) outcome" where
  "edge_line id_show e = bindO (short_id id_show (me_source e)) (\<lambda>s.
     bindO (short_id id_show (me_target e)) (\<lambda>t.
       Ok (''- '' @ s @ '' --['' @ edge_type_debug (me_edge_type e) @ '' w='' @ show_fixed2 (me_weight e)
           @ '']--> '' @ t)))"

fun mapO :: "('a \<Rightarrow> ('e, 'b) outcome) \<Rightarrow> 'a list \<Rightarrow> ('e, 'b list) outcome" where
  "mapO f [] = Ok []"
| "mapO f (x # xs) = bindO (f x) (\<lambda>y. bindO (mapO f xs) (\<lambda>ys. Ok (y # ys)))"

definition edge_header :: string where
  "edge_header = newline @ ''## '' @ [CHR 0xF0, CHR 0x9F, CHR 0x94, CHR 0x97] @ '' Relationships''"

definition edge_section :: "(MemoryId \<Rightarrow> string) \<Rightarrow> MemoryEdge list \<Rightarrow> AssemblyConfig \<Rightarrow> (MenteError, string) outcome" where
  "edge_section id_show edges cfg =
     (if include_edges cfg \<and> edges \<noteq> []
      then bindO (mapO (edge_line id_show) edges) (\<lambda>lines. Ok (join newline (edge_header # lines)))
      else Ok [])"

definition serialize_blocks :: "ContextBlock list \<Rightarrow> AssemblyConfig \<Rightarrow> string" where
  "serialize_blocks blocks cfg = (case ac_format cfg of
     Compact \<Rightarrow> compact_serialize blocks
   | Structured \<Rightarrow> structured_serialize blocks
   | Delta \<Rightarrow> structured_serialize blocks)"

definition count_zones :: "ContextBlock list \<Rightarrow> nat" where
  "count_zones blocks = length (filter (\<lambda>b. cb_memories b \<noteq> []) blocks)"

definition assemble :: "(MemoryId \<Rightarrow> string) \<Rightarrow> ScoredMemory list \<Rightarrow> MemoryEdge list \<Rightarrow> AssemblyConfig
    \<Rightarrow> (MenteError, ContextWindow) outcome" where
  "assemble id_show memories edges cfg =
     (let (included, budget) = take_fitting (sort_by score_before memories) (budget_new (token_budget cfg)) [];
          blocks = arrange zone_thresholds_default included
      in bindO (edge_section id_show edges cfg) (\<lambda>section.
         let serialized = serialize_blocks blocks cfg;
             format_output = (if section = [] then serialized else serialized @ newline @ section)
         in Ok \<lparr> cw_blocks = blocks, cw_total_tokens = used_tokens budget, cw_format = format_output,
              cw_metadata = \<lparr> total_candidates = length memories, included_count = length included,
                excluded_count = length memories - length included,
                edges_included = (if include_edges cfg then length edges else 0),
                zones_used = count_zones blocks \<rparr> \<rparr>))"

definition assemble_delta :: "(MemoryId \<Rightarrow> string) \<Rightarrow> (MemoryId set \<Rightarrow> MemoryId list) \<Rightarrow> ScoredMemory list
    \<Rightarrow> MemoryEdge list \<Rightarrow> DeltaTracker \<Rightarrow> AssemblyConfig \<Rightarrow> (MenteError, ContextWindow \<times> DeltaTracker) outcome" where
  "assemble_delta id_show iter_order current_memories edges tracker cfg =
     (let current_ids = map (\<lambda>sm. mn_id (sm_memory sm)) current_memories;
          delta = compute_delta iter_order current_ids (last_served tracker);
          added_memories = filter (\<lambda>sm. mn_id (sm_memory sm) \<in> set (dr_added delta)) current_memories
      in bindO (mapO (\<lambda>i. bindO (short_id id_show i) (\<lambda>s. Ok (''memory '' @ s))) (dr_removed delta)) (\<lambda>removed_summaries.
         let delta_header = format_delta_context (map sm_memory added_memories) removed_summaries
               (length (dr_unchanged delta));
             candidates = length added_memories + length (dr_unchanged delta);
             budget = fst (budget_consume (budget_new (token_budget cfg)) delta_header);
             (included, budget) = take_fitting (sort_by score_before added_memories) budget [];
             blocks = arrange zone_thresholds_default included
         in Ok (\<lparr> cw_blocks = blocks, cw_total_tokens = used_tokens budget,
                  cw_format = delta_serialize delta_header blocks,
                  cw_metadata = \<lparr> total_candidates = candidates, included_count = length included,
                    excluded_count = candidates - length included,
                    edges_included = (if include_edges cfg then length edges else 0),
                    zones_used = count_zones blocks \<rparr> \<rparr>,
                delta_update tracker current_ids)))"

section \<open>The greedy selection\<close>

abbreviation tokens_of :: "ScoredMemory \<Rightarrow> nat" where
  "tokens_of sm \<equiv> estimate_tokens (content_of sm)"

lemma take_fitting_spec:
  assumes "take_fitting sms b acc = (inc, b')" "used_tokens b \<le> max_tokens b"
  shows "\<exists>new out. inc = acc @ new \<and> mset sms = mset new + mset out
    \<and> used_tokens b' = used_tokens b + sum_list (map tokens_of new)
    \<and> max_tokens b' = max_tokens b \<and> used_tokens b' \<le> max_tokens b
    \<and> (\<forall>sm \<in> set out. max_tokens b - used_tokens b' < tokens_of sm)"
  using assms
proof (induction sms b acc rule: take_fitting.induct)
  case (2 sm sms b acc)
  show ?case
  proof (cases "can_fit b (content_of sm)")
    case True
    define b1 where "b1 = fst (budget_consume b (content_of sm))"
    have b1: "used_tokens b1 = used_tokens b + tokens_of sm" "max_tokens b1 = max_tokens b"
        "used_tokens b1 \<le> max_tokens b1"
      using True "2.prems"(2)
      by (simp_all add: b1_def budget_consume_def can_fit_def budget_remaining_def Let_def min_def)
    have "take_fitting sms b1 (acc @ [sm]) = (inc, b')" using True "2.prems"(1) by (simp add: b1_def)
    then obtain new out where "inc = (acc @ [sm]) @ new" "mset sms = mset new + mset out"
        "used_tokens b' = used_tokens b1 + sum_list (map tokens_of new)" "max_tokens b' = max_tokens b1"
        "used_tokens b' \<le> max_tokens b1" "\<forall>sm \<in> set out. max_tokens b1 - used_tokens b' < tokens_of sm"
      using "2.IH"(1)[OF True] b1(3) unfolding b1_def by blast
    then show ?thesis using b1 by (intro exI[of _ "sm # new"] exI[of _ out]) simp
  next
    case False
    then obtain new out where s: "inc = acc @ new" "mset sms = mset new + mset out"
        "used_tokens b' = used_tokens b + sum_list (map tokens_of new)" "max_tokens b' = max_tokens b"
        "used_tokens b' \<le> max_tokens b" "\<forall>sm \<in> set out. max_tokens b - used_tokens b' < tokens_of sm"
      using "2.IH"(2)[OF False _ "2.prems"(2)] "2.prems"(1) by auto
    then have "max_tokens b - used_tokens b' < tokens_of sm"
      using False by (simp add: can_fit_def budget_remaining_def)
    then show ?thesis using s by (intro exI[of _ new] exI[of _ "sm # out"]) simp
  qed
qed auto

definition window_memories :: "ContextWindow \<Rightarrow> ScoredMemory list" where
  "window_memories w = concat (map cb_memories (cw_blocks w))"

lemma sum_tokens_mset: "mset xs = mset ys \<Longrightarrow> sum_list (map tokens_of xs) = sum_list (map tokens_of ys)"
  by (metis mset_map sum_mset_sum_list)

lemma assembled_window:
  assumes "take_fitting (sort_by score_before ms) b [] = (inc, b')" "used_tokens b \<le> max_tokens b"
    "cw_blocks w = arrange th inc" "cw_total_tokens w = used_tokens b'"
  shows "length (window_memories w) = length inc"
    and "cw_total_tokens w = used_tokens b + sum_list (map tokens_of (window_memories w))"
    and "cw_total_tokens w \<le> max_tokens b"
    and "\<exists>out. mset ms = mset (window_memories w) + mset out
      \<and> (\<forall>sm \<in> set out. max_tokens b - cw_total_tokens w < tokens_of sm)"
proof -
  have m: "mset (window_memories w) = mset inc" by (simp add: window_memories_def assms(3) mset_arrange)
  then show "length (window_memories w) = length inc" by (metis size_mset)
  note s = take_fitting_spec[OF assms(1,2)]
  then show "cw_total_tokens w = used_tokens b + sum_list (map tokens_of (window_memories w))"
    using assms(4) sum_tokens_mset[OF m] by auto
  show "cw_total_tokens w \<le> max_tokens b" using s assms(4) by auto
  show "\<exists>out. mset ms = mset (window_memories w) + mset out
      \<and> (\<forall>sm \<in> set out. max_tokens b - cw_total_tokens w < tokens_of sm)"
    using s assms(4) m by auto
qed

lemma mapO_total: "\<forall>x \<in> set xs. \<exists>y. f x = Ok y \<Longrightarrow> \<exists>ys. mapO f xs = Ok ys"
  by (induction xs) force+

definition id_text_ok :: "(MemoryId \<Rightarrow> string) \<Rightarrow> bool" where
  "id_text_ok id_show \<longleftrightarrow> (\<forall>i. is_ascii (id_show i) \<and> 8 \<le> length (id_show i))"

lemma short_id_total: "id_text_ok id_show \<Longrightarrow> \<exists>s. short_id id_show i = Ok s"
  by (simp add: id_text_ok_def short_id_def slice_ascii)

lemma edge_section_total:
  assumes "id_text_ok id_show"
  shows "\<exists>s. edge_section id_show edges cfg = Ok s"
proof -
  have "\<exists>s. edge_line id_show e = Ok s" for e
    using short_id_total[OF assms] by (metis bindO.simps(1) edge_line_def)
  then obtain ls where "mapO (edge_line id_show) edges = Ok ls" using mapO_total by metis
  then show ?thesis by (simp add: edge_section_def)
qed

text \<open>What each zone asks of a memory whose score is a number, under the default thresholds.\<close>

lemma classify_cases:
  assumes "classify zone_thresholds_default sm = z" "sm_score sm \<noteq> NaN"
  shows "z = Opening \<longleftrightarrow> mn_memory_type (sm_memory sm) \<in> {AntiPattern, Correction}"
    and "case z of Opening \<Rightarrow> True
      | Critical \<Rightarrow> fl_le (f32_of (8/10)) (sm_score sm) \<and> fl_le (f32_of (7/10)) (mn_salience (sm_memory sm))
      | Primary \<Rightarrow> fl_le (Fin (1/2)) (sm_score sm)
          \<and> \<not> (fl_le (f32_of (8/10)) (sm_score sm) \<and> fl_le (f32_of (7/10)) (mn_salience (sm_memory sm)))
      | Supporting \<Rightarrow> fl_le (f32_of (2/10)) (sm_score sm) \<and> fl_lt (sm_score sm) (Fin (1/2))
      | Closing \<Rightarrow> fl_lt (sm_score sm) (f32_of (2/10))"
  using assms fl_not_lt[of "sm_score sm" "Fin (1/2)"] fl_not_lt[of "sm_score sm" "f32_of (2/10)"] f32_of_not_NaN
  by (auto simp: classify_def zone_thresholds_default_def Let_def split: if_splits)

section \<open>Properties\<close>

definition sample_memory :: "uuid \<Rightarrow> string \<Rightarrow> f32 \<Rightarrow> ScoredMemory" where
  "sample_memory i content score = \<lparr> sm_memory = memory_node_new (MemoryId i) 0 (AgentId 0) Semantic content [],
     sm_score = score \<rparr>"

definition zero_text :: "MemoryId \<Rightarrow> string" where
  "zero_text i = replicate 36 (CHR ''0'')"

lemma zero_text_ok: "id_text_ok zero_text"
  by (simp add: id_text_ok_def zero_text_def is_ascii_def byte_def list_all_length)

text \<open>C5: When no candidate's score is NaN, assembly returns, respects the token budget and accounts for every candidate: the
  reported tokens are the estimates of the memories in the window and stay within the budget; the window's blocks
  and the left-out memories together are the candidates, each once; and none of the left-out
  memories would still fit. With a NaN score the comparator of the sorts (\<open>partial_cmp\<close>, else equal) is not a total order, and
  \<open>sort_by\<close> may panic. The text of an identifier is assumed to be at least eight ASCII bytes, as that of a UUID is.\<close>

theorem assemble_within_budget:
  assumes "id_text_ok id_show" "\<forall>sm \<in> set memories. sm_score sm \<noteq> NaN"
  shows "\<exists>w. assemble id_show memories edges cfg = Ok w
    \<and> cw_total_tokens w = sum_list (map tokens_of (window_memories w))
    \<and> cw_total_tokens w \<le> token_budget cfg
    \<and> included_count (cw_metadata w) = length (window_memories w)
    \<and> included_count (cw_metadata w) + excluded_count (cw_metadata w) = length memories
    \<and> (\<exists>out. mset memories = mset (window_memories w) + mset out
        \<and> (\<forall>sm \<in> set out. token_budget cfg - cw_total_tokens w < tokens_of sm))"
proof -
  obtain inc b where tf: "take_fitting (sort_by score_before memories) (budget_new (token_budget cfg)) [] = (inc, b)"
    by fastforce
  obtain s where s: "edge_section id_show edges cfg = Ok s" using edge_section_total[OF assms(1)] by blast
  obtain w where w: "assemble id_show memories edges cfg = Ok w" "cw_blocks w = arrange zone_thresholds_default inc"
      "cw_total_tokens w = used_tokens b" "included_count (cw_metadata w) = length inc"
      "excluded_count (cw_metadata w) = length memories - length inc"
    unfolding assemble_def tf s by (simp add: Let_def)
  have b0: "used_tokens (budget_new (token_budget cfg)) \<le> max_tokens (budget_new (token_budget cfg))"
    by (simp add: budget_new_def)
  note aw = assembled_window[OF tf b0 w(2,3), simplified budget_new_def, simplified]
  have "length inc \<le> length memories"
    using aw(1,4) by (metis le_add1 size_mset size_union)
  then show ?thesis using w aw by auto
qed

theorem assemble_within_budget_witness:
  "\<exists>w. assemble zero_text [sample_memory 1 ''one two'' (Fin 1), sample_memory 2 ''three'' (Fin (1/2))] [] assembly_default = Ok w
    \<and> cw_total_tokens w \<le> 4096
    \<and> included_count (cw_metadata w) + excluded_count (cw_metadata w) = 2"
  using assemble_within_budget[OF zero_text_ok, of "[sample_memory 1 ''one two'' (Fin 1),
      sample_memory 2 ''three'' (Fin (1/2))]" "[]" assembly_default]
  by (auto simp: assembly_default_def sample_memory_def)

text \<open>C35: When no candidate's score is NaN, the window follows the attention layout: one block per zone, in the order opening,
  critical, primary, supporting, closing; each block holds candidates only, by descending score. Anti-patterns and corrections
  are in the opening block and nothing else is; of the others, the critical block holds those with a score of at least 0.8 and a
  salience of at least 0.7, the primary block the remaining ones with a score of at least 0.5, the supporting block those with
  a score from 0.2 to below 0.5, and the closing block those below 0.2 (the thresholds are the nearest single-precision
  numbers).\<close>

theorem assemble_layout:
  assumes "assemble id_show memories edges cfg = Ok w" "\<forall>sm \<in> set memories. sm_score sm \<noteq> NaN"
  shows "map cb_zone (cw_blocks w) = [Opening, Critical, Primary, Supporting, Closing]
    \<and> (\<forall>b \<in> set (cw_blocks w). sorted_wrt (\<lambda>x y. fl_le (sm_score y) (sm_score x)) (cb_memories b)
        \<and> (\<forall>sm \<in> set (cb_memories b). sm \<in> set memories
           \<and> (cb_zone b = Opening \<longleftrightarrow> mn_memory_type (sm_memory sm) \<in> {AntiPattern, Correction})
           \<and> (case cb_zone b of Opening \<Rightarrow> True
              | Critical \<Rightarrow> fl_le (f32_of (8/10)) (sm_score sm) \<and> fl_le (f32_of (7/10)) (mn_salience (sm_memory sm))
              | Primary \<Rightarrow> fl_le (Fin (1/2)) (sm_score sm)
                  \<and> \<not> (fl_le (f32_of (8/10)) (sm_score sm) \<and> fl_le (f32_of (7/10)) (mn_salience (sm_memory sm)))
              | Supporting \<Rightarrow> fl_le (f32_of (2/10)) (sm_score sm) \<and> fl_lt (sm_score sm) (Fin (1/2))
              | Closing \<Rightarrow> fl_lt (sm_score sm) (f32_of (2/10)))))"
proof -
  obtain inc b where tf: "take_fitting (sort_by score_before memories) (budget_new (token_budget cfg)) [] = (inc, b)"
    by fastforce
  have blocks: "cw_blocks w = arrange zone_thresholds_default inc"
    using assms(1) unfolding assemble_def tf by (auto simp: Let_def outcome_simps)
  have "\<exists>new out. inc = [] @ new \<and> mset (sort_by score_before memories) = mset new + mset out"
    using take_fitting_spec[OF tf] by (auto simp: budget_new_def)
  then have inc: "set inc \<subseteq> set memories"
    by (metis append_Nil mset_sort_by set_mset_mset set_mset_union Un_upper1)
  have zone: "sorted_wrt (\<lambda>x y. fl_le (sm_score y) (sm_score x)) (zone_members zone_thresholds_default inc z)"
    "sm \<in> set (zone_members zone_thresholds_default inc z) \<Longrightarrow> sm \<in> set memories \<and> sm_score sm \<noteq> NaN
      \<and> classify zone_thresholds_default sm = z" for z sm
    unfolding zone_members_def
    by (rule sort_by_score_sorted[unfolded score_sorted_def], use assms(2) inc in auto)
  have "map cb_zone (cw_blocks w) = [Opening, Critical, Primary, Supporting, Closing]"
    by (simp add: blocks arrange_def all_ordered_def Let_def)
  moreover have "\<exists>z. b = \<lparr>cb_zone = z, cb_memories = zone_members zone_thresholds_default inc z,
      cb_estimated_tokens = estimate_block_tokens (zone_members zone_thresholds_default inc z)\<rparr>" if "b \<in> set (cw_blocks w)" for b
    using that by (auto simp: blocks arrange_def Let_def)
  ultimately show ?thesis using zone(1) classify_cases[OF conjunct2[OF conjunct2[OF zone(2)]] conjunct1[OF conjunct2[OF zone(2)]]] zone(2)
    by (metis (no_types, lifting) ContextBlock.select_convs(1,2))
qed

lemma window_of_fitting:
  assumes "assemble id_show [sm] [] cfg = Ok w" "can_fit (budget_new (token_budget cfg)) (content_of sm)"
  shows "window_memories w = [sm]"
proof -
  obtain b where "take_fitting (sort_by score_before [sm]) (budget_new (token_budget cfg)) [] = ([sm], b)" using assms(2) by simp
  then have "cw_blocks w = arrange zone_thresholds_default [sm]" using assms(1) by (auto simp: assemble_def Let_def bindO_eq_Ok)
  then show ?thesis using mset_arrange[of zone_thresholds_default "[sm]"] by (simp add: window_memories_def)
qed

theorem assemble_layout_witness:
  "\<exists>w. assemble zero_text [sample_memory 1 ''a'' (Fin (1/4))] [] assembly_default = Ok w
     \<and> window_memories w = [sample_memory 1 ''a'' (Fin (1/4))]
     \<and> cb_zone ` {b \<in> set (cw_blocks w). cb_memories b \<noteq> []} = {Supporting}"
proof -
  let ?m = "sample_memory 1 ''a'' (Fin (1/4))"
  obtain w where w: "assemble zero_text [?m] [] assembly_default = Ok w"
    by (simp add: assemble_def edge_section_def assembly_default_def Let_def case_prod_unfold)
  have "word_count ''a'' = 1" by code_simp
  then have "estimate_tokens ''a'' \<le> 4096" using estimate_bounds[of "''a''"] by simp
  then have "can_fit (budget_new (token_budget assembly_default)) (content_of ?m)"
    by (simp add: can_fit_def budget_remaining_def budget_new_def assembly_default_def content_of_def sample_memory_def memory_node_new_def)
  then have m: "window_memories w = [?m]" by (rule window_of_fitting[OF w])
  have lits: "f32_of (8/10) = Fin (13421773/16777216)" "f32_of (2/10) = Fin (13421773/67108864)" by code_simp+
  have "cb_zone b = Supporting" if b: "b \<in> set (cw_blocks w)" "cb_memories b \<noteq> []" for b
  proof -
    obtain sm where "sm \<in> set (cb_memories b)" using b(2) by (cases "cb_memories b") auto
    then show ?thesis using assemble_layout[OF w] b(1) lits
      by (cases "cb_zone b") (fastforce simp: sample_memory_def memory_node_new_def)+
  qed
  moreover have "\<exists>b \<in> set (cw_blocks w). cb_memories b \<noteq> []" using m by (metis concat_eq_Nil_conv imageE list.distinct(1) set_map window_memories_def)
  ultimately have "cb_zone ` {b \<in> set (cw_blocks w). cb_memories b \<noteq> []} = {Supporting}" by auto
  then show ?thesis using w m by blast
qed

text \<open>Delta assembly records every current memory as served, whether or not it fitted the budget. A next
  turn with the same memories therefore finds nothing to add, so a memory left out for lack of budget is
  never sent while it stays current.\<close>

theorem assemble_delta_marks_all_served:
  assumes "assemble_delta id_show iter_order ms edges t cfg = Ok (w, t')"
  shows "last_served t' = (\<lambda>sm. mn_id (sm_memory sm)) ` set ms
    \<and> (assemble_delta id_show iter_order ms edges t' cfg' = Ok (w2, t2) \<longrightarrow> window_memories w2 = [])"
proof -
  have served: "last_served t' = (\<lambda>sm. mn_id (sm_memory sm)) ` set ms"
    using assms by (auto simp: assemble_delta_def Let_def outcome_simps delta_update_def case_prod_unfold)
  moreover have "window_memories w2 = []" if "assemble_delta id_show iter_order ms edges t' cfg' = Ok (w2, t2)"
  proof -
    have "dr_added (compute_delta iter_order (map (\<lambda>sm. mn_id (sm_memory sm)) ms) (last_served t')) = []"
      by (auto simp: compute_delta_def served filter_empty_conv)
    then have "cw_blocks w2 = arrange zone_thresholds_default []"
      using that by (auto simp: assemble_delta_def Let_def outcome_simps case_prod_unfold)
    then show ?thesis
      by (simp add: window_memories_def arrange_def all_ordered_def zone_members_def Let_def)
  qed
  ultimately show ?thesis by blast
qed

theorem assemble_delta_marks_all_served_witness:
  "\<exists>w t'. assemble_delta zero_text (\<lambda>S. []) [sample_memory 1 ''a b c'' (Fin 1)] [] delta_tracker_new
        (assembly_default\<lparr>token_budget := 0\<rparr>) = Ok (w, t')
     \<and> window_memories w = [] \<and> last_served t' = {MemoryId 1}"
proof -
  let ?cfg = "assembly_default\<lparr>token_budget := 0\<rparr>" and ?ms = "[sample_memory 1 ''a b c'' (Fin 1)]"
  have nofit: "\<not> can_fit (fst (budget_consume (budget_new 0) h)) (content_of (sample_memory 1 ''a b c'' (Fin 1)))" for h
  proof -
    have "word_count ''a b c'' = 3" by code_simp
    moreover have "fl_ceil (fl_mul f64_of (f64_of (of_int 3)) (f64_of (13/10))) = Fin 4" by code_simp
    ultimately have "estimate_tokens ''a b c'' = 4" by (simp add: estimate_tokens_def)
    then show ?thesis
      by (simp add: can_fit_def budget_remaining_def budget_consume_def budget_new_def Let_def content_of_def
          sample_memory_def memory_node_new_def)
  qed
  obtain w t' where r: "assemble_delta zero_text (\<lambda>S. []) ?ms [] delta_tracker_new ?cfg = Ok (w, t')"
      "cw_blocks w = arrange zone_thresholds_default []"
    using nofit by (simp add: assemble_delta_def compute_delta_def delta_tracker_new_def Let_def)
  have "last_served t' = {MemoryId 1}"
    using assemble_delta_marks_all_served[OF r(1)] by (simp add: sample_memory_def memory_node_new_def)
  then show ?thesis
    using r by (auto simp: window_memories_def arrange_def all_ordered_def zone_members_def Let_def)
qed

end
