(* ===== verification/Embedding_Cache.thy ===== *)
theory Embedding_Cache
  imports Core_Types "HOL-Library.AList"
begin

text \<open>
  The embedding cache, \<open>crates/mentedb-embedding/src/cache.rs\<close>: a least-recently-used cache of
  vectors under a 64-bit FNV-1a hash of model name and text. The hash map is an association list
  with one entry per key; the recency queue has its oldest key first. The clock is an argument.
\<close>

unbundle bit_operations_syntax

type_synonym u64 = "64 word"

record CachedEmbedding =
  ce_embedding :: Embedding
  ce_created_at :: Timestamp
  ce_hit_count :: nat

record EmbeddingCache =
  ec_max_size :: nat
  ec_cache :: "(u64 \<times> CachedEmbedding) list"
  ec_order :: "u64 list"
  ec_hits :: nat
  ec_misses :: nat
  ec_evictions :: nat

record CacheStats =
  cst_hits :: nat
  cst_misses :: nat
  cst_size :: nat
  cst_max_size :: nat
  cst_evictions :: nat

definition cache_new :: "nat \<Rightarrow> EmbeddingCache" where
  "cache_new max_size = \<lparr> ec_max_size = max_size, ec_cache = [], ec_order = [], ec_hits = 0, ec_misses = 0,
     ec_evictions = 0 \<rparr>"

definition cache_default_size :: EmbeddingCache where
  "cache_default_size = cache_new 10000"

definition fnv_prime :: u64 where
  "fnv_prime = 0x100000001b3"

definition fnv_offset :: u64 where
  "fnv_offset = 0xcbf29ce484222325"

definition fnv_byte :: "u64 \<Rightarrow> nat \<Rightarrow> u64" where
  "fnv_byte hash b = (hash XOR of_nat b) * fnv_prime"

definition fnv_bytes :: "u64 \<Rightarrow> string \<Rightarrow> u64" where
  "fnv_bytes hash s = foldl (\<lambda>h c. fnv_byte h (byte c)) hash s"

definition cache_key :: "string \<Rightarrow> string \<Rightarrow> u64" where
  "cache_key model text = fnv_bytes (fnv_byte (fnv_bytes fnv_offset model) 255) text"

text \<open>Looking a key up, and the effect a hit has: the key becomes the most recent one.\<close>

definition cache_peek :: "EmbeddingCache \<Rightarrow> u64 \<Rightarrow> Embedding option" where
  "cache_peek c key = map_option ce_embedding (map_of (ec_cache c) key)"

definition cache_touch :: "EmbeddingCache \<Rightarrow> u64 \<Rightarrow> EmbeddingCache" where
  "cache_touch c key =
     (case map_of (ec_cache c) key of
        Some entry \<Rightarrow> c\<lparr>ec_hits := wrap64 (ec_hits c + 1),
          ec_order := filter (\<lambda>k. k \<noteq> key) (ec_order c) @ [key],
          ec_cache := AList.update key (entry\<lparr>ce_hit_count := wrap32 (ce_hit_count entry + 1)\<rparr>) (ec_cache c)\<rparr>
      | None \<Rightarrow> c\<lparr>ec_misses := wrap64 (ec_misses c + 1)\<rparr>)"

definition cache_get :: "EmbeddingCache \<Rightarrow> string \<Rightarrow> string \<Rightarrow> Embedding option \<times> EmbeddingCache" where
  "cache_get c text model = (let key = cache_key model text in (cache_peek c key, cache_touch c key))"

text \<open>The eviction loop, over the recency queue.\<close>

fun evict :: "nat \<Rightarrow> u64 list \<Rightarrow> (u64 \<times> CachedEmbedding) list \<Rightarrow> nat
    \<Rightarrow> u64 list \<times> (u64 \<times> CachedEmbedding) list \<times> nat" where
  "evict max_size [] cache evictions = ([], cache, evictions)"
| "evict max_size (evict_key # order) cache evictions =
     (if length cache \<ge> max_size
      then evict max_size order (AList.delete evict_key cache) (wrap64 (evictions + 1))
      else (evict_key # order, cache, evictions))"

definition cache_store :: "EmbeddingCache \<Rightarrow> u64 \<Rightarrow> CachedEmbedding \<Rightarrow> EmbeddingCache" where
  "cache_store c key entry =
     (if map_of (ec_cache c) key \<noteq> None
      then c\<lparr>ec_order := filter (\<lambda>k. k \<noteq> key) (ec_order c) @ [key], ec_cache := AList.update key entry (ec_cache c)\<rparr>
      else let (order, cache, evictions) = evict (ec_max_size c) (ec_order c) (ec_cache c) (ec_evictions c)
           in c\<lparr>ec_order := order @ [key], ec_cache := AList.update key entry cache, ec_evictions := evictions\<rparr>)"

definition cache_put :: "Timestamp \<Rightarrow> EmbeddingCache \<Rightarrow> string \<Rightarrow> string \<Rightarrow> Embedding \<Rightarrow> EmbeddingCache" where
  "cache_put now c text model embedding =
     cache_store c (cache_key model text) \<lparr> ce_embedding = embedding, ce_created_at = now, ce_hit_count = 0 \<rparr>"

definition cache_stats :: "EmbeddingCache \<Rightarrow> CacheStats" where
  "cache_stats c = \<lparr> cst_hits = ec_hits c, cst_misses = ec_misses c, cst_size = length (ec_cache c),
     cst_max_size = ec_max_size c, cst_evictions = ec_evictions c \<rparr>"

definition cache_clear :: "EmbeddingCache \<Rightarrow> EmbeddingCache" where
  "cache_clear c = c\<lparr>ec_cache := [], ec_order := []\<rparr>"

section \<open>The invariant\<close>

text \<open>
  The queue lists the keys of the map, each once. A cache of capacity zero still holds the last
  entry put into it.
\<close>

definition cache_inv :: "EmbeddingCache \<Rightarrow> bool" where
  "cache_inv c \<longleftrightarrow> distinct (map fst (ec_cache c)) \<and> distinct (ec_order c)
     \<and> set (ec_order c) = fst ` set (ec_cache c) \<and> length (ec_cache c) \<le> max 1 (ec_max_size c)"

lemma cache_inv_length: "cache_inv c \<Longrightarrow> length (ec_cache c) = length (ec_order c)"
  unfolding cache_inv_def by (metis distinct_card length_map set_map)

lemma map_of_keys: "map_of xs k \<noteq> None \<longleftrightarrow> k \<in> fst ` set xs"
  by (metis map_of_eq_None_iff)

lemma length_update:
  "distinct (map fst xs) \<Longrightarrow> length (AList.update k v xs) = length xs + (if k \<in> fst ` set xs then 0 else 1)"
  by (induction xs) (auto simp: image_iff)

lemma length_delete:
  assumes "distinct (map fst xs)" "k \<in> fst ` set xs"
  shows "Suc (length (AList.delete k xs)) = length xs"
  using assms
proof (induction xs)
  case (Cons x xs)
  then show ?case
    by (cases "fst x = k") (auto simp: AList.delete_eq filter_id_conv image_iff case_prod_unfold)
qed simp

lemma keys_delete: "fst ` set (AList.delete k xs) = fst ` set xs - {k}"
  by (force simp: AList.delete_eq)

lemma keys_update: "fst ` set (AList.update k v xs) = insert k (fst ` set xs)"
  by (induction xs) auto

lemma evict_spec:
  assumes "evict m order cache n = (order', cache', n')" "distinct (map fst cache)" "distinct order"
    "set order = fst ` set cache"
  shows "order' = drop (Suc (length order) - m) order" "distinct (map fst cache')"
    "set order' = fst ` set cache'" "length cache' = min (length cache) (m - 1)"
    "k \<in> set order' \<Longrightarrow> map_of cache' k = map_of cache k"
proof -
  have "order' = drop (Suc (length order) - m) order \<and> distinct (map fst cache')
    \<and> set order' = fst ` set cache' \<and> length cache' = min (length cache) (m - 1)
    \<and> (\<forall>k \<in> set order'. map_of cache' k = map_of cache k)"
    using assms
  proof (induction m order cache n rule: evict.induct)
    case (1 m cache n)
    then show ?case by simp
  next
    case (2 m e order cache n)
    have len: "length cache = Suc (length order)"
      using "2.prems"(2,3,4) by (metis distinct_card length_Cons length_map set_map)
    show ?case
    proof (cases "m \<le> length cache")
      case True
      have keys: "set order = fst ` set (AList.delete e cache)"
        using "2.prems"(3,4) keys_delete[of e cache] by auto
      have e: "e \<in> fst ` set cache" using "2.prems"(4) by auto
      have IH: "order' = drop (Suc (length order) - m) order \<and> distinct (map fst cache')
          \<and> set order' = fst ` set cache' \<and> length cache' = min (length (AList.delete e cache)) (m - 1)
          \<and> (\<forall>k \<in> set order'. map_of cache' k = map_of (AList.delete e cache) k)"
      proof (rule "2.IH"[OF True])
        show "evict m order (AList.delete e cache) (wrap64 (n + 1)) = (order', cache', n')"
          using "2.prems"(1) True by simp
      qed (use "2.prems" keys in \<open>simp_all add: distinct_delete\<close>)
      have ne: "k \<noteq> e" if "k \<in> set order'" for k
        using that IH "2.prems"(3) by (metis distinct.simps(2) in_set_dropD)
      have "length (AList.delete e cache) = length order"
        using length_delete[OF "2.prems"(2) e] len by simp
      then have "length cache' = min (length cache) (m - 1)" using IH True len by simp
      moreover have "order' = drop (Suc (length (e # order)) - m) (e # order)"
        using IH True len by (simp add: Suc_diff_le)
      moreover have "\<forall>k \<in> set order'. map_of cache' k = map_of cache k"
        using IH ne by (auto simp: delete_conv')
      ultimately show ?thesis using IH by blast
    next
      case False
      then have "order' = e # order" "cache' = cache" using "2.prems"(1) by simp_all
      then show ?thesis using "2.prems" False len by (simp add: min_def)
    qed
  qed
  then show "order' = drop (Suc (length order) - m) order" "distinct (map fst cache')"
    "set order' = fst ` set cache'" "length cache' = min (length cache) (m - 1)"
    "k \<in> set order' \<Longrightarrow> map_of cache' k = map_of cache k" by blast+
qed

section \<open>The least-recently-used specification\<close>

text \<open>
  The abstract cache: entries from the least to the most recently used. A hit moves an entry to the
  end; a new entry drops as many of the oldest as make room.
\<close>

type_synonym lru = "(u64 \<times> Embedding) list"

definition lru_of :: "EmbeddingCache \<Rightarrow> lru" where
  "lru_of c = map (\<lambda>k. (k, the (cache_peek c k))) (ec_order c)"

definition lru_hit :: "lru \<Rightarrow> u64 \<Rightarrow> lru" where
  "lru_hit l k = (case map_of l k of None \<Rightarrow> l | Some v \<Rightarrow> filter (\<lambda>x. fst x \<noteq> k) l @ [(k, v)])"

definition lru_put :: "nat \<Rightarrow> lru \<Rightarrow> u64 \<Rightarrow> Embedding \<Rightarrow> lru" where
  "lru_put m l k v = (if map_of l k \<noteq> None then filter (\<lambda>x. fst x \<noteq> k) l
     else drop (Suc (length l) - m) l) @ [(k, v)]"

lemma map_of_lru: "cache_inv c \<Longrightarrow> map_of (lru_of c) k = cache_peek c k"
proof (cases "k \<in> set (ec_order c)")
  case True
  assume inv: "cache_inv c"
  then have "map_of (ec_cache c) k \<noteq> None" using True by (auto simp: cache_inv_def map_of_keys)
  then show ?thesis using True by (auto simp: lru_of_def map_of_map_keys cache_peek_def map_of_map_restrict)
next
  case False
  assume inv: "cache_inv c"
  then have "map_of (ec_cache c) k = None" using False by (auto simp: cache_inv_def map_of_eq_None_iff)
  then show ?thesis using False by (simp add: lru_of_def cache_peek_def map_of_map_restrict)
qed

lemma cache_touch_inv: "cache_inv c \<Longrightarrow> cache_inv (cache_touch c k)"
proof -
  assume inv: "cache_inv c"
  show ?thesis
  proof (cases "map_of (ec_cache c) k")
    case None
    then show ?thesis using inv by (simp add: cache_touch_def cache_inv_def)
  next
    case (Some e)
    then have "k \<in> fst ` set (ec_cache c)" using map_of_keys[of "ec_cache c" k] by simp
    then show ?thesis
      using inv Some by (auto simp: cache_touch_def cache_inv_def length_update distinct_update keys_update)
  qed
qed

lemma cache_peek_touch: "cache_peek (cache_touch c k) j = cache_peek c j"
  by (auto simp: cache_peek_def cache_touch_def update_conv' split: option.splits)

lemma cache_store_inv: "cache_inv c \<Longrightarrow> cache_inv (cache_store c k e)"
proof -
  assume inv: "cache_inv c"
  show ?thesis
  proof (cases "map_of (ec_cache c) k")
    case (Some e')
    then have "k \<in> fst ` set (ec_cache c)" using map_of_keys[of "ec_cache c" k] by simp
    then show ?thesis
      using inv Some by (auto simp: cache_store_def cache_inv_def length_update distinct_update keys_update)
  next
    case None
    obtain order cache n where ev: "evict (ec_max_size c) (ec_order c) (ec_cache c) (ec_evictions c) = (order, cache, n)"
      by (metis prod_cases3)
    have I: "distinct (map fst (ec_cache c))" "distinct (ec_order c)" "set (ec_order c) = fst ` set (ec_cache c)"
      using inv by (simp_all add: cache_inv_def)
    note E = evict_spec[OF ev I]
    have k: "k \<notin> set order" "k \<notin> fst ` set cache"
      using None E(1,3) I(3) by (auto simp: map_of_eq_None_iff dest: in_set_dropD)
    have "distinct (order @ [k])" using E(1) I(2) k(1) by simp
    moreover have "set (order @ [k]) = fst ` set (AList.update k e cache)" 
      using E(3) by (simp add: keys_update)
    moreover have "length (AList.update k e cache) \<le> max 1 (ec_max_size c)"
      using length_update[OF E(2), of k e] k(2) E(4) by simp
    ultimately show ?thesis
      using None ev E(2) by (simp add: cache_store_def cache_inv_def distinct_update)
  qed
qed

lemma cache_peek_store_same: "cache_peek (cache_store c k e) k = Some (ce_embedding e)"
  by (auto simp: cache_peek_def cache_store_def update_conv' Let_def split: prod.splits)

lemma cache_peek_store_other:
  assumes "cache_inv c" "j \<noteq> k"
  shows "cache_peek (cache_store c k e) j = None \<or> cache_peek (cache_store c k e) j = cache_peek c j"
proof (cases "map_of (ec_cache c) k")
  case (Some e')
  then show ?thesis using assms(2) by (simp add: cache_peek_def cache_store_def update_conv')
next
  case None
  obtain order cache n where ev: "evict (ec_max_size c) (ec_order c) (ec_cache c) (ec_evictions c) = (order, cache, n)"
    by (metis prod_cases3)
  have I: "distinct (map fst (ec_cache c))" "distinct (ec_order c)" "set (ec_order c) = fst ` set (ec_cache c)"
    using assms(1) by (simp_all add: cache_inv_def)
  note E = evict_spec[OF ev I]
  have "map_of cache j = None \<or> map_of cache j = map_of (ec_cache c) j"
    using E(3) E(5)[of j] by (cases "j \<in> set order") (auto simp: map_of_eq_None_iff)
  then show ?thesis using None ev assms(2) by (auto simp: cache_peek_def cache_store_def update_conv')
qed

section \<open>The interface the manager uses\<close>

text \<open>
  A keyed store may forget, but it never invents: what it returns for a key is what was last
  stored under it.
\<close>

locale keyed_cache =
  fixes inv :: "'c \<Rightarrow> bool"
    and look :: "'c \<Rightarrow> 'k \<Rightarrow> 'v option"
    and touch :: "'c \<Rightarrow> 'k \<Rightarrow> 'c"
    and store :: "'c \<Rightarrow> 'k \<Rightarrow> 'v \<Rightarrow> 'c"
  assumes inv_touch: "inv c \<Longrightarrow> inv (touch c k)"
    and inv_store: "inv c \<Longrightarrow> inv (store c k v)"
    and look_touch: "inv c \<Longrightarrow> look (touch c k) j = look c j"
    and look_store_same: "inv c \<Longrightarrow> look (store c k v) k = Some v"
    and look_store_other: "inv c \<Longrightarrow> j \<noteq> k \<Longrightarrow> look (store c k v) j = None \<or> look (store c k v) j = look c j"
begin

definition agrees :: "'c \<Rightarrow> ('k \<Rightarrow> 'v \<Rightarrow> bool) \<Rightarrow> bool" where
  "agrees c P \<longleftrightarrow> (\<forall>k v. look c k = Some v \<longrightarrow> P k v)"

lemma agrees_touch: "inv c \<Longrightarrow> agrees c P \<Longrightarrow> agrees (touch c k) P"
  by (simp add: agrees_def look_touch)

lemma agrees_store:
  assumes "inv c" "agrees c P" "P k v"
  shows "agrees (store c k v) P"
  unfolding agrees_def
proof (intro allI impI)
  fix j w assume w: "look (store c k v) j = Some w"
  show "P j w"
  proof (cases "j = k")
    case True
    then show ?thesis using w assms look_store_same by simp
  next
    case False
    then show ?thesis using w assms(2) look_store_other[OF assms(1) False, of v] by (auto simp: agrees_def)
  qed
qed

end

text \<open>The store of an embedding without its bookkeeping.\<close>

definition cache_store_at :: "Timestamp \<Rightarrow> EmbeddingCache \<Rightarrow> u64 \<Rightarrow> Embedding \<Rightarrow> EmbeddingCache" where
  "cache_store_at now c k v = cache_store c k \<lparr> ce_embedding = v, ce_created_at = now, ce_hit_count = 0 \<rparr>"

interpretation embeddings: keyed_cache cache_inv cache_peek cache_touch "cache_store_at now" for now
  by unfold_locales
    (auto simp: cache_store_at_def cache_touch_inv cache_store_inv cache_peek_touch cache_peek_store_same
      dest: cache_peek_store_other)

section \<open>Properties\<close>

lemma lru_of_touch: "cache_inv c \<Longrightarrow> lru_of (cache_touch c k) = lru_hit (lru_of c) k"
proof -
  assume inv: "cache_inv c"
  show ?thesis
  proof (cases "map_of (ec_cache c) k")
    case None
    then have "map_of (lru_of c) k = None" using inv by (simp add: map_of_lru cache_peek_def)
    moreover have "lru_of (cache_touch c k) = lru_of c"
      using None by (simp add: lru_of_def cache_touch_def cache_peek_def)
    ultimately show ?thesis by (simp add: lru_hit_def)
  next
    case (Some e)
    then have m: "map_of (lru_of c) k = Some (ce_embedding e)" using inv by (simp add: map_of_lru cache_peek_def)
    have "ec_order (cache_touch c k) = filter (\<lambda>j. j \<noteq> k) (ec_order c) @ [k]"
      using Some by (simp add: cache_touch_def)
    then have "lru_of (cache_touch c k)
        = map (\<lambda>j. (j, the (cache_peek c j))) (filter (\<lambda>j. j \<noteq> k) (ec_order c)) @ [(k, the (cache_peek c k))]"
      by (simp add: lru_of_def cache_peek_touch)
    then show ?thesis using m Some by (simp add: lru_hit_def lru_of_def filter_map o_def cache_peek_def)
  qed
qed

lemma lru_of_store:
  assumes inv: "cache_inv c"
  shows "lru_of (cache_store c k e) = lru_put (ec_max_size c) (lru_of c) k (ce_embedding e)"
proof (cases "map_of (ec_cache c) k")
  case (Some e')
  then have m: "map_of (lru_of c) k \<noteq> None" using inv by (simp add: map_of_lru cache_peek_def)
  have "cache_peek (cache_store c k e) j = (if j = k then Some (ce_embedding e) else cache_peek c j)" for j
    using Some by (simp add: cache_peek_def cache_store_def update_conv')
  moreover have "ec_order (cache_store c k e) = filter (\<lambda>j. j \<noteq> k) (ec_order c) @ [k]"
    using Some by (simp add: cache_store_def)
  ultimately show ?thesis using m by (simp add: lru_put_def lru_of_def filter_map o_def)
next
  case None
  obtain order cache n where ev: "evict (ec_max_size c) (ec_order c) (ec_cache c) (ec_evictions c) = (order, cache, n)"
    by (metis prod_cases3)
  have I: "distinct (map fst (ec_cache c))" "distinct (ec_order c)" "set (ec_order c) = fst ` set (ec_cache c)"
    using inv by (simp_all add: cache_inv_def)
  note E = evict_spec[OF ev I]
  have st: "ec_order (cache_store c k e) = order @ [k]" "ec_cache (cache_store c k e) = AList.update k e cache"
    using None ev by (simp_all add: cache_store_def)
  have k: "k \<notin> set order" using None E(1) I(3) by (auto simp: map_of_eq_None_iff dest: in_set_dropD)
  have "map (\<lambda>j. (j, the (cache_peek (cache_store c k e) j))) order = map (\<lambda>j. (j, the (cache_peek c j))) order"
    using k E(5) by (auto simp: cache_peek_def st update_conv')
  moreover have "map_of (lru_of c) k = None" using None inv by (simp add: map_of_lru cache_peek_def)
  ultimately show ?thesis
    by (simp add: lru_put_def lru_of_def st E(1) drop_map cache_peek_store_same)
qed

text \<open>C4: The cache refines a least-recently-used cache: the hash map and the queue stay consistent, a lookup returns what the
  abstract cache holds and makes it the most recent entry, and an insertion replaces or, when full, drops exactly the least
  recently used entries. It keeps at most \<open>max_size\<close> entries when \<open>max_size\<close> is positive; with \<open>max_size\<close> 0 it keeps exactly
  one, the last one put (the eviction loop empties the map before the new entry goes in).\<close>

theorem cache_refines_lru:
  assumes "cache_inv c"
  shows "fst (cache_get c text model) = map_of (lru_of c) (cache_key model text)
    \<and> lru_of (snd (cache_get c text model)) = lru_hit (lru_of c) (cache_key model text)
    \<and> cache_inv (snd (cache_get c text model))
    \<and> lru_of (cache_put now c text model v) = lru_put (ec_max_size c) (lru_of c) (cache_key model text) v
    \<and> cache_inv (cache_put now c text model v)
    \<and> (0 < ec_max_size c \<longrightarrow> cst_size (cache_stats (cache_put now c text model v)) \<le> ec_max_size c)
    \<and> (ec_max_size c = 0 \<longrightarrow> cst_size (cache_stats (cache_put now c text model v)) = 1)"
proof -
  have "ec_max_size (cache_store c k e) = ec_max_size c" for k e
    by (simp add: cache_store_def Let_def case_prod_unfold)
  then have le: "length (ec_cache (cache_store c k e)) \<le> max 1 (ec_max_size c)" for k e
    using cache_store_inv[OF assms, of k e] by (simp add: cache_inv_def)
  have ne: "length (ec_cache (cache_store c k e)) \<noteq> 0" for k e
    using cache_peek_store_same[of c k e] by (auto simp: cache_peek_def)
  have "0 < ec_max_size c \<longrightarrow> length (ec_cache (cache_store c k e)) \<le> ec_max_size c"
    "ec_max_size c = 0 \<longrightarrow> length (ec_cache (cache_store c k e)) = 1" for k e
    using le[of k e] ne[of k e] by (linarith, linarith)
  then show ?thesis
    using assms by (simp add: cache_get_def cache_put_def cache_stats_def Let_def map_of_lru lru_of_touch lru_of_store
        cache_touch_inv cache_store_inv)
qed

theorem cache_refines_lru_witness:
  "cache_inv (cache_new 1) \<and> lru_of (cache_put 5 (cache_new 1) ''t'' ''m'' [Fin 1]) = [(cache_key ''m'' ''t'', [Fin 1])]"
proof -
  have "cache_inv (cache_new 1)" by (simp add: cache_inv_def cache_new_def)
  moreover from cache_refines_lru[OF this, of "''t''" "''m''" 5 "[Fin 1]"] show ?thesis
    using calculation by (simp add: lru_put_def lru_of_def cache_new_def)
qed

text \<open>The documented maximum number of entries does not bound a cache of capacity 0.\<close>

lemma capacity_zero_keeps_one:
  "cst_size (cache_stats (cache_put now (cache_new 0) text model v)) = 1 \<and> cst_max_size (cache_stats (cache_new 0)) = 0"
  by (simp add: cache_put_def cache_store_def cache_new_def cache_stats_def)

end
