(* ===== verification/Embedding_Manager.thy ===== *)
theory Embedding_Manager
  imports Embedding_Cache Rust_Text
begin

text \<open>
  Embedding generation: the provider interface (\<open>crates/mentedb-embedding/src/provider.rs\<close>), the
  caching manager (\<open>manager.rs\<close>) and the deterministic hash provider (\<open>hash_provider.rs\<close>).
\<close>

section \<open>Providers\<close>

text \<open>The trait as the record of its methods; a provider is \<open>&self\<close> only, so its methods are functions.\<close>

record EmbeddingProvider =
  ep_embed :: "string \<Rightarrow> Embedding MenteResult"
  ep_embed_batch :: "string list \<Rightarrow> Embedding list MenteResult"
  ep_dimensions :: nat
  ep_model_name :: string

section \<open>The manager\<close>

record EmbeddingStats =
  es_cache_hits :: nat
  es_cache_misses :: nat
  es_total_embeddings :: nat

record EmbeddingManager =
  em_provider :: EmbeddingProvider
  em_cache :: EmbeddingCache
  em_total :: nat

definition em_new :: "EmbeddingProvider \<Rightarrow> nat \<Rightarrow> EmbeddingManager" where
  "em_new provider cache_size = \<lparr> em_provider = provider, em_cache = cache_new cache_size, em_total = 0 \<rparr>"

definition em_embed :: "Timestamp \<Rightarrow> EmbeddingManager \<Rightarrow> string \<Rightarrow> Embedding MenteResult \<times> EmbeddingManager" where
  "em_embed now m text =
     (let model = ep_model_name (em_provider m);
          (cached, cache) = cache_get (em_cache m) text model;
          m' = m\<lparr>em_cache := cache\<rparr>
      in case cached of
           Some v \<Rightarrow> (Ok v, m')
         | None \<Rightarrow>
           (case ep_embed (em_provider m) text of
              Ok embedding \<Rightarrow> (Ok embedding, m'\<lparr>em_cache := cache_put now cache text model embedding,
                em_total := wrap64 (em_total m + 1)\<rparr>)
            | Err e \<Rightarrow> (Err e, m')
            | Panic \<Rightarrow> (Panic, m')))"

text \<open>The first loop of \<open>embed_batch\<close>: the results found in the cache and the indices still missing.\<close>

fun batch_scan :: "string \<Rightarrow> nat \<Rightarrow> string list \<Rightarrow> EmbeddingCache
    \<Rightarrow> Embedding option list \<times> nat list \<times> string list \<times> EmbeddingCache" where
  "batch_scan model i [] cache = ([], [], [], cache)"
| "batch_scan model i (text # texts) cache =
     (let (cached, cache') = cache_get cache text model;
          (results, indices, missing, cache'') = batch_scan model (i + 1) texts cache'
      in case cached of
           Some v \<Rightarrow> (Some v # results, indices, missing, cache'')
         | None \<Rightarrow> (None # results, i # indices, text # missing, cache''))"

text \<open>The second loop, over the missing indices zipped with the computed vectors.\<close>

fun batch_fill :: "(nat \<Rightarrow> Timestamp) \<Rightarrow> string \<Rightarrow> string list \<Rightarrow> (nat \<times> Embedding) list
    \<Rightarrow> Embedding option list \<Rightarrow> EmbeddingCache \<Rightarrow> nat \<Rightarrow> Embedding option list \<times> EmbeddingCache \<times> nat" where
  "batch_fill clock model texts [] results cache n = (results, cache, n)"
| "batch_fill clock model texts ((idx, embedding) # rest) results cache n =
     batch_fill clock model texts rest (results[idx := Some embedding])
       (cache_put (clock idx) cache (texts ! idx) model embedding) (wrap64 (n + 1))"

fun unwrap_all :: "'a option list \<Rightarrow> ('e, 'a list) outcome" where
  "unwrap_all [] = Ok []"
| "unwrap_all (None # rs) = Panic"
| "unwrap_all (Some v # rs) = bindO (unwrap_all rs) (\<lambda>vs. Ok (v # vs))"

definition em_embed_batch :: "(nat \<Rightarrow> Timestamp) \<Rightarrow> EmbeddingManager \<Rightarrow> string list
    \<Rightarrow> Embedding list MenteResult \<times> EmbeddingManager" where
  "em_embed_batch clock m texts =
     (let model = ep_model_name (em_provider m);
          (results, indices, missing, cache) = batch_scan model 0 texts (em_cache m);
          m' = m\<lparr>em_cache := cache\<rparr>
      in if missing = [] then (unwrap_all results, m')
         else case ep_embed_batch (em_provider m) missing of
             Ok computed \<Rightarrow>
               (let (results', cache', n) = batch_fill clock model texts (zip indices computed) results cache (em_total m)
                in (unwrap_all results', m'\<lparr>em_cache := cache', em_total := n\<rparr>))
           | Err e \<Rightarrow> (Err e, m')
           | Panic \<Rightarrow> (Panic, m'))"

definition em_embed_memory :: "Timestamp \<Rightarrow> EmbeddingManager \<Rightarrow> MemoryNode
    \<Rightarrow> unit MenteResult \<times> EmbeddingManager \<times> MemoryNode" where
  "em_embed_memory now m node =
     (case em_embed now m (mn_content node) of
        (Ok v, m') \<Rightarrow> (Ok (), m', node\<lparr>mn_embedding := v\<rparr>)
      | (Err e, m') \<Rightarrow> (Err e, m', node)
      | (Panic, m') \<Rightarrow> (Panic, m', node))"

definition em_stats :: "EmbeddingManager \<Rightarrow> EmbeddingStats" where
  "em_stats m = (let cs = cache_stats (em_cache m) in
     \<lparr> es_cache_hits = cst_hits cs, es_cache_misses = cst_misses cs, es_total_embeddings = em_total m \<rparr>)"

definition em_clear_cache :: "EmbeddingManager \<Rightarrow> EmbeddingManager" where
  "em_clear_cache m = m\<lparr>em_cache := cache_clear (em_cache m)\<rparr>"

section \<open>The hash provider\<close>

definition hash_model_name :: "nat \<Rightarrow> string" where
  "hash_model_name dimensions = ''hash-embedding-'' @ show_nat dimensions @ ''d''"

text \<open>\<open>dim.to_le_bytes()\<close> of a 64-bit \<open>usize\<close>.\<close>

definition le_bytes :: "nat \<Rightarrow> nat list" where
  "le_bytes n = map (\<lambda>i. n div 256 ^ i mod 256) [0..<8]"

definition hash_bits :: "string \<Rightarrow> nat \<Rightarrow> u64" where
  "hash_bits text d = fnv_bytes (foldl fnv_byte fnv_offset (le_bytes d)) text"

text \<open>\<open>(((hash as f64) / (u64::MAX as f64)) * 2.0 - 1.0) as f32\<close>.\<close>

definition unit_float :: "nat \<Rightarrow> f32" where
  "unit_float h =
     (case fl_sub f64_of (fl_mul f64_of (fl_div f64_of (f64_of (of_nat h)) (f64_of (of_nat u64_max))) (Fin 2)) (Fin 1) of
        Fin a \<Rightarrow> f32_of a | x \<Rightarrow> x)"

definition hash_dimension :: "string \<Rightarrow> nat \<Rightarrow> f32" where
  "hash_dimension text d = unit_float (unat (hash_bits text d))"

definition compute_embedding :: "nat \<Rightarrow> string \<Rightarrow> Embedding" where
  "compute_embedding dimensions text =
     (let e = map (hash_dimension text) [0..<dimensions];
          norm = fl_sqrt 24 (foldl (fl_add f32_of) (Fin 0) (map (\<lambda>x. fl_mul f32_of x x) e))
      in if fl_lt (Fin 0) norm then map (\<lambda>v. fl_div f32_of v norm) e else e)"

definition hash_provider :: "nat \<Rightarrow> EmbeddingProvider" where
  "hash_provider dimensions = \<lparr> ep_embed = (\<lambda>text. Ok (compute_embedding dimensions text)),
     ep_embed_batch = (\<lambda>texts. Ok (map (compute_embedding dimensions) texts)),
     ep_dimensions = dimensions, ep_model_name = hash_model_name dimensions \<rparr>"

section \<open>Transparency of the cache\<close>

text \<open>
  The manager is coherent on a set of texts when whatever the cache holds under the key of one of
  them is the vector its provider computes. The cache compares 64-bit keys only, so the texts
  must have distinct keys.
\<close>

abbreviation em_model :: "EmbeddingManager \<Rightarrow> string" where
  "em_model m \<equiv> ep_model_name (em_provider m)"

definition vector_of :: "EmbeddingProvider \<Rightarrow> string set \<Rightarrow> u64 \<Rightarrow> Embedding \<Rightarrow> bool" where
  "vector_of p T k v \<longleftrightarrow> (\<forall>t \<in> T. cache_key (ep_model_name p) t = k \<longrightarrow> ep_embed p t = Ok v)"

definition em_coherent :: "string set \<Rightarrow> EmbeddingManager \<Rightarrow> bool" where
  "em_coherent T m \<longleftrightarrow> cache_inv (em_cache m)
     \<and> (\<forall>k v. cache_peek (em_cache m) k = Some v \<longrightarrow> vector_of (em_provider m) T k v)"

lemma em_coherent_agrees:
  "em_coherent T m \<longleftrightarrow> cache_inv (em_cache m) \<and> embeddings.agrees (em_cache m) (vector_of (em_provider m) T)"
  by (simp add: em_coherent_def embeddings.agrees_def)

lemma cache_put_agrees:
  assumes "cache_inv c" "embeddings.agrees c (vector_of p T)" "inj_on (cache_key (ep_model_name p)) T" "t \<in> T"
    "ep_embed p t = Ok v"
  shows "cache_inv (cache_put now c t (ep_model_name p) v)"
    and "embeddings.agrees (cache_put now c t (ep_model_name p) v) (vector_of p T)"
proof -
  have put: "cache_put now c t (ep_model_name p) v = cache_store_at now c (cache_key (ep_model_name p) t) v"
    by (simp add: cache_put_def cache_store_at_def)
  have "vector_of p T (cache_key (ep_model_name p) t) v"
    using assms(3,4,5) by (auto simp: vector_of_def dest: inj_onD)
  then show "cache_inv (cache_put now c t (ep_model_name p) v)"
    "embeddings.agrees (cache_put now c t (ep_model_name p) v) (vector_of p T)"
    using embeddings.agrees_store[OF assms(1,2)] embeddings.inv_store[OF assms(1)] by (simp_all add: put)
qed

lemma em_embed_coherent:
  assumes "em_coherent T m" "inj_on (cache_key (em_model m)) T" "t \<in> T"
  shows "fst (em_embed now m t) = ep_embed (em_provider m) t \<and> em_coherent T (snd (em_embed now m t))
    \<and> em_provider (snd (em_embed now m t)) = em_provider m"
proof -
  let ?k = "cache_key (em_model m) t" and ?c = "em_cache m" and ?p = "em_provider m"
  have c: "cache_inv ?c" "embeddings.agrees ?c (vector_of ?p T)" using assms(1) by (simp_all add: em_coherent_agrees)
  note touched = embeddings.inv_touch[OF c(1), of ?k] embeddings.agrees_touch[OF c, of ?k]
  show ?thesis
  proof (cases "cache_peek ?c ?k")
    case (Some v)
    then have "ep_embed ?p t = Ok v" using assms(1,3) by (auto simp: em_coherent_def vector_of_def)
    then show ?thesis using Some touched by (simp add: em_embed_def cache_get_def em_coherent_agrees)
  next
    case None
    then show ?thesis
      using touched cache_put_agrees[OF touched assms(2,3)]
      by (cases "ep_embed ?p t") (simp_all add: em_embed_def cache_get_def em_coherent_agrees Let_def)
  qed
qed

lemma batch_scan_spec:
  assumes "batch_scan model i texts c = (results, indices, missing, c')" "cache_inv c"
  shows "results = map (\<lambda>t. cache_peek c (cache_key model t)) texts
    \<and> indices = map fst (filter (\<lambda>(j, t). cache_peek c (cache_key model t) = None) (List.enumerate i texts))
    \<and> missing = map snd (filter (\<lambda>(j, t). cache_peek c (cache_key model t) = None) (List.enumerate i texts))
    \<and> cache_inv c' \<and> cache_peek c' = cache_peek c"
  using assms
proof (induction texts arbitrary: i c c' results indices missing)
  case (Cons t texts)
  let ?c = "cache_touch c (cache_key model t)"
  obtain rs inds ms d where r: "batch_scan model (i + 1) texts ?c = (rs, inds, ms, d)" by (metis prod_cases4)
  have peek: "cache_peek ?c = cache_peek c" by (simp add: cache_peek_touch fun_eq_iff)
  note IH = Cons.IH[OF r cache_touch_inv[OF Cons.prems(2)], unfolded peek]
  show ?case
    using Cons.prems(1) IH r by (auto simp: cache_get_def Let_def split: option.splits)
qed simp

lemma batch_fill_spec:
  assumes "batch_fill clock (ep_model_name p) texts ps results c n = (results', c', n')"
    "\<forall>(j, v) \<in> set ps. j < length texts \<and> ep_embed p (texts ! j) = Ok v"
    "cache_inv c" "embeddings.agrees c (vector_of p T)" "inj_on (cache_key (ep_model_name p)) T" "set texts \<subseteq> T"
    "length results = length texts"
  shows "length results' = length texts \<and> cache_inv c' \<and> embeddings.agrees c' (vector_of p T)
    \<and> (\<forall>j < length texts. (j \<in> fst ` set ps \<longrightarrow> (\<exists>v. results' ! j = Some v \<and> ep_embed p (texts ! j) = Ok v))
        \<and> (j \<notin> fst ` set ps \<longrightarrow> results' ! j = results ! j))"
  using assms
proof (induction ps arbitrary: results c n)
  case (Cons x ps)
  obtain i v where x: "x = (i, v)" by fastforce
  have i: "i < length texts" "ep_embed p (texts ! i) = Ok v" "texts ! i \<in> T"
    using Cons.prems(2,6) x by auto
  have IH: "length results' = length texts \<and> cache_inv c' \<and> embeddings.agrees c' (vector_of p T)
    \<and> (\<forall>j < length texts. (j \<in> fst ` set ps \<longrightarrow> (\<exists>v. results' ! j = Some v \<and> ep_embed p (texts ! j) = Ok v))
        \<and> (j \<notin> fst ` set ps \<longrightarrow> results' ! j = results[i := Some v] ! j))"
  proof (rule Cons.IH)
    show "batch_fill clock (ep_model_name p) texts ps (results[i := Some v])
        (cache_put (clock i) c (texts ! i) (ep_model_name p) v) (wrap64 (n + 1)) = (results', c', n')"
      using Cons.prems(1) x by simp
  qed (use Cons.prems cache_put_agrees[OF Cons.prems(3-5) i(3,2)] in simp_all)
  then show ?case using x i Cons.prems(7) by (auto simp: nth_list_update)
qed simp

lemma unwrap_all_Some:
  "length rs = length vs \<Longrightarrow> (\<And>j. j < length vs \<Longrightarrow> rs ! j = Some (vs ! j)) \<Longrightarrow> unwrap_all rs = Ok vs"
proof (induction rs vs rule: list_induct2)
  case (Cons r rs v vs)
  have "r = Some v" using Cons.prems[of 0] by simp
  moreover have "rs ! j = Some (vs ! j)" if "j < length vs" for j using Cons.prems[of "Suc j"] that by simp
  ultimately show ?case using Cons.IH by simp
qed simp

text \<open>A provider computes a batch as it computes the single texts.\<close>

definition batch_law :: "EmbeddingProvider \<Rightarrow> (string \<Rightarrow> Embedding) \<Rightarrow> bool" where
  "batch_law p F \<longleftrightarrow> (\<forall>t. ep_embed p t = Ok (F t)) \<and> (\<forall>ts. ep_embed_batch p ts = Ok (map F ts))"

lemma batch_law_hash: "batch_law (hash_provider d) (compute_embedding d)"
  by (simp add: batch_law_def hash_provider_def)

lemma em_embed_batch_coherent:
  assumes "em_coherent T m" "inj_on (cache_key (em_model m)) T" "set texts \<subseteq> T" "batch_law (em_provider m) F"
  shows "fst (em_embed_batch clock m texts) = Ok (map F texts) \<and> em_coherent T (snd (em_embed_batch clock m texts))"
proof -
  let ?p = "em_provider m" and ?c = "em_cache m"
  let ?ps = "filter (\<lambda>(j, t). cache_peek ?c (cache_key (em_model m) t) = None) (List.enumerate 0 texts)"
  have F: "ep_embed ?p t = Ok (F t)" "ep_embed_batch ?p ts = Ok (map F ts)" for t ts
    using assms(4) by (simp_all add: batch_law_def)
  have c: "cache_inv ?c" "embeddings.agrees ?c (vector_of ?p T)" using assms(1) by (simp_all add: em_coherent_agrees)
  obtain results indices missing c' where
    scan: "batch_scan (em_model m) 0 texts ?c = (results, indices, missing, c')" by (metis prod_cases4)
  note S = batch_scan_spec[OF scan c(1)]
  have c': "cache_inv c'" "embeddings.agrees c' (vector_of ?p T)"
    using S c(2) by (simp_all add: embeddings.agrees_def)
  have zip: "zip indices (map F missing) = map (\<lambda>(j, t). (j, F t)) ?ps"
    using S by (simp add: zip_map_map case_prod_unfold zip_map1 zip_map2 zip_same_conv_map comp_def)
  obtain results' c'' n' where fill:
    "batch_fill clock (em_model m) texts (zip indices (map F missing)) results c' (em_total m) = (results', c'', n')"
    by (metis prod_cases3)
  have ps: "\<forall>(j, v) \<in> set (zip indices (map F missing)). j < length texts \<and> ep_embed ?p (texts ! j) = Ok v"
    unfolding zip by (auto simp: in_set_enumerate_eq F)
  note B = batch_fill_spec[OF fill ps c' assms(2,3)]
  have hit: "results ! j = Some (F (texts ! j))" if j: "j < length texts" and miss: "j \<notin> fst ` set ?ps" for j
  proof -
    have "(j, texts ! j) \<in> set (List.enumerate 0 texts)" using j by (simp add: in_set_enumerate_eq)
    then obtain v where v: "cache_peek ?c (cache_key (em_model m) (texts ! j)) = Some v"
      using miss by (force simp: image_iff)
    moreover have "texts ! j \<in> T" using assms(3) j by auto
    ultimately have "ep_embed ?p (texts ! j) = Ok v"
      using assms(1) by (simp add: em_coherent_def vector_of_def)
    then show ?thesis using v j S F by simp
  qed
  have keys: "fst ` set (zip indices (map F missing)) = fst ` set ?ps" unfolding zip by force
  have "results' ! j = Some (map F texts ! j)" if "j < length texts" for j
    using B S that hit[of j] F keys by (cases "j \<in> fst ` set ?ps") auto
  then have filled: "unwrap_all results' = Ok (map F texts)" using B S by (intro unwrap_all_Some) simp_all
  show ?thesis
  proof (cases "missing = []")
    case True
    then have "unwrap_all results = Ok (map F texts)" using S hit by (intro unwrap_all_Some) auto
    then show ?thesis using True scan c' by (simp add: em_embed_batch_def em_coherent_agrees Let_def)
  next
    case False
    then show ?thesis using scan fill filled B S F by (simp add: em_embed_batch_def em_coherent_agrees Let_def)
  qed
qed

section \<open>Range of the hash vectors\<close>

lemma fl_div_f64_unit:
  "0 \<le> a \<Longrightarrow> a \<le> b \<Longrightarrow> 0 < b \<Longrightarrow> in_unit (fl_div f64_of (Fin a) (Fin b))"
  by (simp add: f64_of_unit)

lemma unit_float_bounds:
  assumes "h \<le> u64_max"
  shows "\<exists>r. unit_float h = Fin r \<and> \<bar>r\<bar> \<le> 1"
proof -
  have pos: "0 < rnd 53 (-1074) (of_nat u64_max)"
  proof -
    have "rnd 53 (-1074) 1 \<le> rnd 53 (-1074) (of_nat u64_max)" by (rule rnd_mono) simp_all
    moreover have "rnd 53 (-1074) 1 = 1" using rnd_powi[of 53 "-1074" 0] by simp
    ultimately show ?thesis by simp
  qed
  have fin: "f64_of (of_nat n) = Fin (rnd 53 (-1074) (of_nat n))" if "n \<le> u64_max" for n
    using f64_of_u64[of n] that by simp
  have "in_unit (fl_div f64_of (f64_of (of_nat h)) (f64_of (of_nat u64_max)))"
    using fin[OF assms] fin[OF order_refl] fl_div_f64_unit[OF rnd_nonneg _ pos, of "of_nat h"]
      rnd_mono[of "of_nat h" "of_nat u64_max" 53 "-1074"] assms by simp
  then obtain a where a: "fl_div f64_of (f64_of (of_nat h)) (f64_of (of_nat u64_max)) = Fin a" "0 \<le> a" "a \<le> 1"
    by (auto simp: in_unit_iff)
  obtain b where b: "f64_of (a * 2) = Fin b" "\<bar>b\<bar> \<le> 2" using f64_of_bounded[of "a * 2" 1] a by auto
  have "0 \<le> b"
    using b(1) rnd_nonneg[of "a * 2" 53 "-1074"] a(2) by (auto simp: f64_of_def to_fl_def Let_def split: if_splits)
  then have "\<bar>b - 1\<bar> \<le> 1" using b(2) by simp
  then obtain c where c: "f64_of (b - 1) = Fin c" "\<bar>c\<bar> \<le> 1" using f64_of_bounded[of "b - 1" 0] by auto
  obtain r where "f32_of c = Fin r" "\<bar>r\<bar> \<le> 1" using f32_of_bounded[of c 0] c(2) by auto
  then show ?thesis using a b c by (simp add: unit_float_def fl_sub_def)
qed

section \<open>Properties\<close>

text \<open>Caching is transparent: on texts whose 64-bit keys do not collide, a coherent manager returns exactly what
  its provider returns for the text, errors and panics included, and stays coherent; an embedded memory gets that
  vector and keeps its other fields.\<close>

theorem embed_transparent:
  assumes "em_coherent T m" "inj_on (cache_key (em_model m)) T" "t \<in> T"
  shows "fst (em_embed now m t) = ep_embed (em_provider m) t \<and> em_coherent T (snd (em_embed now m t))
    \<and> em_coherent T (em_clear_cache m)
    \<and> (mn_content node = t \<longrightarrow> (case ep_embed (em_provider m) t of
          Ok v \<Rightarrow> em_embed_memory now m node = (Ok (), snd (em_embed now m t), node\<lparr>mn_embedding := v\<rparr>)
        | Err e \<Rightarrow> em_embed_memory now m node = (Err e, snd (em_embed now m t), node)
        | Panic \<Rightarrow> em_embed_memory now m node = (Panic, snd (em_embed now m t), node)))"
proof -
  have "em_coherent T (em_clear_cache m)"
    by (simp add: em_coherent_def em_clear_cache_def cache_clear_def cache_inv_def cache_peek_def)
  then show ?thesis using em_embed_coherent[OF assms, of now]
    by (cases "em_embed now m t") (auto simp: em_embed_memory_def split: outcome.splits)
qed

theorem embed_transparent_witness:
  "fst (em_embed 7 (em_new (hash_provider 0) 3) ''x'') = Ok []"
proof -
  have "em_coherent {''x''} (em_new (hash_provider 0) 3)"
    by (simp add: em_coherent_def em_new_def cache_new_def cache_inv_def cache_peek_def)
  from embed_transparent[OF this, of "''x''" 7] show ?thesis
    by (simp add: em_new_def hash_provider_def compute_embedding_def)
qed

text \<open>C29: \<open>embed_batch\<close> returns the vectors of all texts in order, hits and misses mixed, and never reaches its \<open>unwrap\<close>, and
  leaves the cache coherent. This holds for a provider that never fails and computes a batch as it computes single texts
  (\<open>batch_law\<close>), on a cache that is coherent on a set of texts including the batch (what it holds under the key of one of them
  is that text's vector: true of a new cache and kept by every \<open>embed\<close> and \<open>embed_batch\<close>), when the 64-bit keys of these texts
  do not collide; the cache compares keys only, so on a collision it would return the other text's vector.\<close>

theorem embed_batch_correct:
  assumes "em_coherent T m" "inj_on (cache_key (em_model m)) T" "set texts \<subseteq> T" "batch_law (em_provider m) F"
  shows "fst (em_embed_batch clock m texts) = Ok (map F texts) \<and> em_coherent T (snd (em_embed_batch clock m texts))"
  using em_embed_batch_coherent[OF assms] .

definition warm_manager :: EmbeddingManager where
  "warm_manager = snd (em_embed 7 (em_new (hash_provider 1) 3) ''x'')"

lemma sample_keys_differ: "cache_key ''hash-embedding-1d'' ''x'' \<noteq> cache_key ''hash-embedding-1d'' ''y''"
  by code_simp

theorem embed_batch_correct_witness:
  "fst (em_embed_batch (\<lambda>_. 7) warm_manager [''y'', ''x'', ''y''])
     = Ok [compute_embedding 1 ''y'', compute_embedding 1 ''x'', compute_embedding 1 ''y'']
   \<and> cache_peek (em_cache warm_manager) (cache_key ''hash-embedding-1d'' ''x'') \<noteq> None
   \<and> cache_peek (em_cache warm_manager) (cache_key ''hash-embedding-1d'' ''y'') = None"
proof -
  have name: "hash_model_name 1 = ''hash-embedding-1d''" by code_simp
  have p: "em_provider warm_manager = hash_provider 1" "em_model warm_manager = ''hash-embedding-1d''"
    by (simp_all add: warm_manager_def em_embed_def em_new_def hash_provider_def Let_def cache_get_def cache_peek_def cache_new_def name[simplified])
  have inj: "inj_on (cache_key (em_model warm_manager)) {''x'', ''y''}" using sample_keys_differ unfolding p(2) by simp
  have "em_coherent {''x'', ''y''} (em_new (hash_provider 1) 3)"
    by (simp add: em_coherent_def em_new_def cache_new_def cache_inv_def cache_peek_def)
  moreover have "inj_on (cache_key (em_model (em_new (hash_provider 1) 3))) {''x'', ''y''}"
    using sample_keys_differ by (simp add: em_new_def hash_provider_def name[simplified])
  ultimately have "em_coherent {''x'', ''y''} warm_manager" unfolding warm_manager_def using em_embed_coherent by blast
  moreover have "batch_law (em_provider warm_manager) (compute_embedding 1)" by (simp add: p batch_law_hash)
  ultimately have "fst (em_embed_batch (\<lambda>_. 7) warm_manager [''y'', ''x'', ''y''])
      = Ok [compute_embedding 1 ''y'', compute_embedding 1 ''x'', compute_embedding 1 ''y'']"
    using embed_batch_correct[OF _ inj, of "[''y'', ''x'', ''y'']"] by simp
  moreover have "ec_cache (em_cache warm_manager)
      = [(cache_key ''hash-embedding-1d'' ''x'', \<lparr>ce_embedding = compute_embedding 1 ''x'', ce_created_at = 7, ce_hit_count = 0\<rparr>)]"
    by (simp add: warm_manager_def em_embed_def em_new_def hash_provider_def Let_def cache_get_def cache_peek_def cache_new_def
        cache_put_def cache_store_def cache_touch_def name[simplified])
  ultimately show ?thesis using sample_keys_differ by (simp add: cache_peek_def)
qed

text \<open>The hash provider returns \<open>dimensions\<close> finite-range numbers: each hashed coordinate lies in \<open>[-1, 1]\<close> and no
  normalised coordinate is NaN.\<close>

theorem hash_embedding_range:
  "(\<exists>r. hash_dimension text d = Fin r \<and> \<bar>r\<bar> \<le> 1)
   \<and> length (compute_embedding dimensions text) = dimensions
   \<and> NaN \<notin> set (compute_embedding dimensions text)"
proof -
  have dims: "\<exists>r. hash_dimension text i = Fin r \<and> \<bar>r\<bar> \<le> 1" for i
  proof -
    have "unat (hash_bits text i) \<le> u64_max"
      using unsigned_less[of "hash_bits text i", where 'a = nat] by simp
    then show ?thesis unfolding hash_dimension_def by (rule unit_float_bounds)
  qed
  have "NaN \<noteq> fl_div f32_of (hash_dimension text i) norm" if "fl_lt (Fin 0) norm" for i norm
    using that dims[of i] f32_of_not_NaN[symmetric] by (cases norm) auto
  moreover have "NaN \<noteq> hash_dimension text i" for i using dims[of i] by auto
  ultimately have "NaN \<notin> set (compute_embedding dimensions text)"
    by (auto simp: compute_embedding_def Let_def image_iff)
  then show ?thesis using dims[of d] by (simp add: compute_embedding_def Let_def)
qed

text \<open>The \<open>unwrap\<close> at the end of \<open>embed_batch\<close> panics when a provider returns fewer vectors than texts.\<close>

lemma embed_batch_short_panics:
  "fst (em_embed_batch (\<lambda>_. 0) (em_new ((hash_provider 1)\<lparr>ep_embed_batch := (\<lambda>_. Ok [])\<rparr>) 3) [''x'']) = Panic"
  by (simp add: em_embed_batch_def em_new_def cache_new_def cache_get_def cache_peek_def hash_provider_def Let_def)

end
