(* ===== verification/Core_Versions.thy ===== *)
theory Core_Versions
  imports Core_Types
begin

text \<open>
  Concurrent writes: the version store (\<open>crates/mentedb-core/src/mvcc.rs\<close>) and the conflict
  resolver (\<open>conflict.rs\<close>). The clock is an argument of the operations that read it.
\<close>

section \<open>Versions\<close>

record Version =
  ver_id :: nat
  ver_memory_id :: MemoryId
  ver_agent_id :: AgentId
  ver_timestamp :: Timestamp
  ver_data_hash :: nat

text \<open>The atomic counter \<open>next_version\<close> wraps around at 64 bits.\<close>

record VersionStore =
  vs_versions :: "MemoryId \<rightharpoonup> Version list"
  vs_next_version :: nat

definition version_store_new :: VersionStore where
  "version_store_new = \<lparr> vs_versions = Map.empty, vs_next_version = 1 \<rparr>"

definition get_history :: "VersionStore \<Rightarrow> MemoryId \<Rightarrow> Version list" where
  "get_history s memory_id = (case vs_versions s memory_id of Some v \<Rightarrow> v | None \<Rightarrow> [])"

definition record_version :: "Timestamp \<Rightarrow> VersionStore \<Rightarrow> MemoryId \<Rightarrow> AgentId \<Rightarrow> nat \<Rightarrow> nat \<times> VersionStore" where
  "record_version now s memory_id agent_id data_hash =
     (let vid = vs_next_version s;
          version = \<lparr> ver_id = vid, ver_memory_id = memory_id, ver_agent_id = agent_id,
            ver_timestamp = now, ver_data_hash = data_hash \<rparr>
      in (vid, s\<lparr>vs_next_version := wrap64 (vs_next_version s + 1),
            vs_versions := (vs_versions s)(memory_id \<mapsto>
              (case vs_versions s memory_id of Some v \<Rightarrow> v | None \<Rightarrow> []) @ [version])\<rparr>))"

definition get_latest :: "VersionStore \<Rightarrow> MemoryId \<Rightarrow> Version option" where
  "get_latest s memory_id =
     (case vs_versions s memory_id of None \<Rightarrow> None
      | Some v \<Rightarrow> (if v = [] then None else Some (last v)))"

definition get_version_at :: "VersionStore \<Rightarrow> MemoryId \<Rightarrow> Timestamp \<Rightarrow> Version option" where
  "get_version_at s memory_id timestamp =
     (case vs_versions s memory_id of None \<Rightarrow> None
      | Some v \<Rightarrow> find (\<lambda>ver. ver_timestamp ver \<le> timestamp) (rev v))"

text \<open>The abstract specification: the log of all writes, numbered from 1.\<close>

type_synonym write_entry = "Timestamp \<times> MemoryId \<times> AgentId \<times> nat"

fun version_of :: "nat \<times> write_entry \<Rightarrow> Version" where
  "version_of (k, t, m, a, h) = \<lparr> ver_id = k, ver_memory_id = m, ver_agent_id = a, ver_timestamp = t, ver_data_hash = h \<rparr>"

definition log_versions :: "write_entry list \<Rightarrow> Version list" where
  "log_versions ws = map version_of (List.enumerate 1 ws)"

fun record_all :: "VersionStore \<Rightarrow> write_entry list \<Rightarrow> VersionStore" where
  "record_all s [] = s"
| "record_all s ((t, m, a, h) # ws) = record_all (snd (record_version t s m a h)) ws"

lemma record_all_append: "record_all s (xs @ ys) = record_all (record_all s xs) ys"
  by (induction s xs rule: record_all.induct) simp_all

lemma record_all_log:
  assumes "length ws < u64_max"
  shows "vs_next_version (record_all version_store_new ws) = Suc (length ws)
    \<and> get_history (record_all version_store_new ws) m = filter (\<lambda>v. ver_memory_id v = m) (log_versions ws)
    \<and> (\<forall>v. vs_versions (record_all version_store_new ws) m = Some v \<longrightarrow> v \<noteq> [])"
  using assms
proof (induction ws rule: rev_induct)
  case Nil
  then show ?case by (simp add: version_store_new_def get_history_def log_versions_def)
next
  case (snoc w ws)
  obtain t n a h where w: "w = (t, n, a, h)" by (metis prod_cases4)
  let ?s = "record_all version_store_new ws"
  have IH: "vs_next_version ?s = Suc (length ws)"
    "get_history ?s m = filter (\<lambda>v. ver_memory_id v = m) (log_versions ws)"
    "\<forall>v. vs_versions ?s m = Some v \<longrightarrow> v \<noteq> []"
    using snoc by simp_all
  then show ?case
    using snoc.prems
    by (auto simp: w record_all_append record_version_def Let_def get_history_def log_versions_def
        enumerate_append_eq split: option.splits)
qed

lemma find_rev_last: "find P (rev xs) = (if filter P xs = [] then None else Some (last (filter P xs)))"
  by (induction xs rule: rev_induct) auto

lemma ver_id_version_of [simp]: "ver_id (version_of p) = fst p"
  by (cases p) auto

lemma ver_ids_log: "map ver_id (log_versions ws) = [1..<Suc (length ws)]"
proof -
  have "map fst (List.enumerate 1 ws) = [1..<1 + length ws]" by (rule map_fst_enumerate)
  then show ?thesis by (simp add: log_versions_def comp_def del: upt_Suc)
qed

section \<open>Conflicts\<close>

record ConflictVersion =
  cv_agent_id :: AgentId
  cv_content :: string
  cv_confidence :: f32
  cv_timestamp :: Timestamp

datatype Resolution = KeepLatest | KeepHighestConfidence | Merge string | Manual string

record Conflict =
  cf_memory_id :: MemoryId
  cf_versions :: "ConflictVersion list"
  cf_resolution :: "Resolution option"

definition CONFLICT_WINDOW_US :: Timestamp where
  "CONFLICT_WINDOW_US = 1000000"

text \<open>The two nested loops that flag the versions in conflict with some other one.\<close>

definition flag_pair :: "ConflictVersion list \<Rightarrow> nat \<Rightarrow> nat \<Rightarrow> bool list \<Rightarrow> bool list" where
  "flag_pair versions i j dominated =
     (let dt = abs_diff (cv_timestamp (versions ! i)) (cv_timestamp (versions ! j))
      in if dt \<le> CONFLICT_WINDOW_US \<and> cv_agent_id (versions ! i) \<noteq> cv_agent_id (versions ! j)
         then dominated[i := True, j := True] else dominated)"

definition flag_row :: "ConflictVersion list \<Rightarrow> nat \<Rightarrow> bool list \<Rightarrow> bool list" where
  "flag_row versions i dominated = fold (flag_pair versions i) [i + 1..<length versions] dominated"

definition flag_all :: "ConflictVersion list \<Rightarrow> bool list" where
  "flag_all versions = fold (flag_row versions) [0..<length versions] (replicate (length versions) False)"

definition detect_conflict :: "MemoryId \<Rightarrow> ConflictVersion list \<Rightarrow> Conflict option" where
  "detect_conflict memory_id versions =
     (if length versions < 2 then None
      else let conflicting = map fst (filter snd (zip versions (flag_all versions)))
           in if length conflicting \<ge> 2
              then Some \<lparr> cf_memory_id = memory_id, cf_versions = conflicting, cf_resolution = None \<rparr>
              else None)"

text \<open>\<open>max_by_key\<close> and \<open>max_by\<close> return the last of the greatest elements, \<open>None\<close> on an empty iterator.\<close>

fun max_by_key :: "('a \<Rightarrow> nat) \<Rightarrow> 'a list \<Rightarrow> 'a option" where
  "max_by_key f [] = None"
| "max_by_key f (x # xs) = Some (foldl (\<lambda>a b. if f b < f a then a else b) x xs)"

definition resolve_keep_latest :: "Conflict \<Rightarrow> (MenteError, ConflictVersion) outcome" where
  "resolve_keep_latest c = (case max_by_key cv_timestamp (cf_versions c) of None \<Rightarrow> Panic | Some v \<Rightarrow> Ok v)"

text \<open>\<open>partial_cmp(..).unwrap()\<close> panics as soon as one side is NaN.\<close>

fun max_confidence :: "ConflictVersion \<Rightarrow> ConflictVersion list \<Rightarrow> (MenteError, ConflictVersion) outcome" where
  "max_confidence a [] = Ok a"
| "max_confidence a (b # bs) =
     (if cv_confidence a = NaN \<or> cv_confidence b = NaN then Panic
      else max_confidence (if fl_lt (cv_confidence b) (cv_confidence a) then a else b) bs)"

definition resolve_keep_highest_confidence :: "Conflict \<Rightarrow> (MenteError, ConflictVersion) outcome" where
  "resolve_keep_highest_confidence c =
     (case cf_versions c of [] \<Rightarrow> Panic | v # vs \<Rightarrow> max_confidence v vs)"

definition max_timestamp :: "Conflict \<Rightarrow> Timestamp" where
  "max_timestamp c = foldl max 0 (map cv_timestamp (cf_versions c))"

definition auto_resolve :: "Conflict \<Rightarrow> Resolution \<Rightarrow> (MenteError, ConflictVersion) outcome" where
  "auto_resolve c strategy =
     (case strategy of
        KeepLatest \<Rightarrow> resolve_keep_latest c
      | KeepHighestConfidence \<Rightarrow> resolve_keep_highest_confidence c
      | Merge merged \<Rightarrow> (case cf_versions c of [] \<Rightarrow> Panic
          | v # _ \<Rightarrow> Ok \<lparr> cv_agent_id = cv_agent_id v, cv_content = merged,
              cv_confidence = foldl fl_max (Fin 0) (map cv_confidence (cf_versions c)),
              cv_timestamp = max_timestamp c \<rparr>)
      | Manual text \<Rightarrow> (case cf_versions c of [] \<Rightarrow> Panic
          | v # _ \<Rightarrow> Ok \<lparr> cv_agent_id = cv_agent_id v, cv_content = text, cv_confidence = Fin 1,
              cv_timestamp = max_timestamp c \<rparr>))"

text \<open>The specification: two versions are concurrent when different agents wrote them within a second.\<close>

definition concurrent_versions :: "ConflictVersion \<Rightarrow> ConflictVersion \<Rightarrow> bool" where
  "concurrent_versions v w \<longleftrightarrow> cv_agent_id v \<noteq> cv_agent_id w
     \<and> abs_diff (cv_timestamp v) (cv_timestamp w) \<le> CONFLICT_WINDOW_US"

lemma concurrent_sym: "concurrent_versions v w \<longleftrightarrow> concurrent_versions w v"
  by (auto simp: concurrent_versions_def abs_diff_commute)

lemma length_flag_pair [simp]: "length (flag_pair vs i j d) = length d"
  by (simp add: flag_pair_def Let_def)

lemma nth_flag_pair:
  assumes "i < length d" "j < length d" "k < length d"
  shows "flag_pair vs i j d ! k \<longleftrightarrow> d ! k \<or> (k = i \<or> k = j) \<and> concurrent_versions (vs ! i) (vs ! j)"
  using assms by (auto simp: flag_pair_def Let_def concurrent_versions_def nth_list_update)

lemma fold_flags:
  assumes "\<And>x d. x \<in> set xs \<Longrightarrow> length d = n \<Longrightarrow> length (f x d) = n"
    "\<And>x d. x \<in> set xs \<Longrightarrow> length d = n \<Longrightarrow> f x d ! k \<longleftrightarrow> d ! k \<or> P x" "length d = n"
  shows "length (fold f xs d) = n \<and> (fold f xs d ! k \<longleftrightarrow> d ! k \<or> (\<exists>x \<in> set xs. P x))"
  using assms by (induction xs arbitrary: d) auto

lemma flag_row:
  assumes "length d = length vs" "i < length vs" "k < length vs"
  shows "length (flag_row vs i d) = length vs \<and> (flag_row vs i d ! k \<longleftrightarrow>
     d ! k \<or> (\<exists>j. i < j \<and> j < length vs \<and> (k = i \<or> k = j) \<and> concurrent_versions (vs ! i) (vs ! j)))"
proof -
  have "length (fold (flag_pair vs i) [i + 1..<length vs] d) = length vs
    \<and> (fold (flag_pair vs i) [i + 1..<length vs] d ! k \<longleftrightarrow> d ! k
        \<or> (\<exists>j \<in> set [i + 1..<length vs]. (k = i \<or> k = j) \<and> concurrent_versions (vs ! i) (vs ! j)))"
    by (rule fold_flags) (use assms in \<open>auto simp: nth_flag_pair\<close>)
  then show ?thesis by (auto simp: flag_row_def)
qed

lemma flag_all:
  assumes "k < length vs"
  shows "length (flag_all vs) = length vs \<and> (flag_all vs ! k \<longleftrightarrow> (\<exists>w \<in> set vs. concurrent_versions (vs ! k) w))"
proof -
  let ?P = "\<lambda>i. \<exists>j. i < j \<and> j < length vs \<and> (k = i \<or> k = j) \<and> concurrent_versions (vs ! i) (vs ! j)"
  have "length (fold (flag_row vs) [0..<length vs] (replicate (length vs) False)) = length vs
    \<and> (fold (flag_row vs) [0..<length vs] (replicate (length vs) False) ! k
        \<longleftrightarrow> replicate (length vs) False ! k \<or> (\<exists>i \<in> set [0..<length vs]. ?P i))"
    by (rule fold_flags) (use assms flag_row in auto)
  moreover have "(\<exists>i \<in> set [0..<length vs]. ?P i) \<longleftrightarrow> (\<exists>j < length vs. concurrent_versions (vs ! k) (vs ! j))"
  proof
    assume "\<exists>j < length vs. concurrent_versions (vs ! k) (vs ! j)"
    then obtain j where j: "j < length vs" "concurrent_versions (vs ! k) (vs ! j)" by blast
    then have "k \<noteq> j" by (auto simp: concurrent_versions_def)
    then consider "k < j" | "j < k" by linarith
    then show "\<exists>i \<in> set [0..<length vs]. ?P i"
      using j assms concurrent_sym[of "vs ! k" "vs ! j"] by cases force+
  next
    assume "\<exists>i \<in> set [0..<length vs]. ?P i"
    then obtain i j where ij: "i < j" "j < length vs" "k = i \<or> k = j" "concurrent_versions (vs ! i) (vs ! j)" by auto
    then show "\<exists>j < length vs. concurrent_versions (vs ! k) (vs ! j)"
      using concurrent_sym[of "vs ! i" "vs ! j"] by (meson order.strict_trans)
  qed
  moreover have "(\<exists>j < length vs. concurrent_versions (vs ! k) (vs ! j)) \<longleftrightarrow> (\<exists>w \<in> set vs. concurrent_versions (vs ! k) w)"
    by (metis in_set_conv_nth)
  ultimately show ?thesis using assms by (simp add: flag_all_def)
qed

lemma length_flag_all: "length (flag_all vs) = length vs"
  using flag_all[of 0 vs] by (cases "vs = []") (auto simp: flag_all_def)

lemma filter_zip_flags:
  "length fs = length xs \<Longrightarrow> (\<And>k. k < length xs \<Longrightarrow> fs ! k \<longleftrightarrow> P (xs ! k)) \<Longrightarrow>
     map fst (filter snd (zip xs fs)) = filter P xs"
proof (induction xs fs rule: list_induct2')
  case (4 x xs f fs)
  have "f \<longleftrightarrow> P x" using 4(3)[of 0] by simp
  moreover have "map fst (filter snd (zip xs fs)) = filter P xs"
    using 4(2) 4(3)[of "Suc k" for k] by (intro 4(1)) auto
  ultimately show ?case by simp
qed simp_all

lemma detect_conflict_eq:
  "detect_conflict memory_id vs =
     (let cs = filter (\<lambda>v. \<exists>w \<in> set vs. concurrent_versions v w) vs
      in if cs = [] then None else Some \<lparr> cf_memory_id = memory_id, cf_versions = cs, cf_resolution = None \<rparr>)"
proof -
  let ?cs = "filter (\<lambda>v. \<exists>w \<in> set vs. concurrent_versions v w) vs"
  have cs: "map fst (filter snd (zip vs (flag_all vs))) = ?cs"
    by (rule filter_zip_flags) (use flag_all in \<open>auto simp: length_flag_all\<close>)
  have two: "2 \<le> length ?cs" if "?cs \<noteq> []"
  proof -
    from that obtain v w where vw: "v \<in> set vs" "w \<in> set vs" "concurrent_versions v w"
      by (auto simp: filter_empty_conv)
    then have "{v, w} \<subseteq> set ?cs" using concurrent_sym[of v w] by auto
    moreover have "v \<noteq> w" using vw(3) by (auto simp: concurrent_versions_def)
    ultimately have "card {v, w} \<le> card (set ?cs)" by (intro card_mono) auto
    with \<open>v \<noteq> w\<close> show ?thesis using card_length[of ?cs] by simp
  qed
  have "length ?cs \<le> length vs" by simp
  then show ?thesis using cs two by (cases "?cs = []") (auto simp: detect_conflict_def Let_def simp del: length_filter_le)
qed

lemma foldl_max_by:
  fixes f :: "'a \<Rightarrow> nat"
  defines "g \<equiv> \<lambda>a b. if f b < f a then a else b"
  shows "foldl g x xs \<in> insert x (set xs) \<and> (\<forall>y \<in> insert x (set xs). f y \<le> f (foldl g x xs))"
proof (induction xs arbitrary: x)
  case (Cons y ys)
  have "f x \<le> f (g x y)" "f y \<le> f (g x y)" "g x y \<in> {x, y}" by (auto simp: g_def)
  then show ?case using Cons[of "g x y"] by fastforce
qed simp

lemma max_confidence_ok:
  assumes "\<forall>v \<in> insert a (set bs). cv_confidence v \<noteq> NaN"
  shows "\<exists>w. max_confidence a bs = Ok w \<and> w \<in> insert a (set bs)
    \<and> (\<forall>v \<in> insert a (set bs). \<not> fl_lt (cv_confidence w) (cv_confidence v))"
  using assms
proof (induction bs arbitrary: a)
  case (Cons b bs)
  define c where "c = (if fl_lt (cv_confidence b) (cv_confidence a) then a else b)"
  have c: "c \<in> {a, b}" "\<not> fl_lt (cv_confidence c) (cv_confidence a)" "\<not> fl_lt (cv_confidence c) (cv_confidence b)"
    by (auto simp: c_def fl_lt_asym)
  have "\<forall>v \<in> insert c (set bs). cv_confidence v \<noteq> NaN" using Cons.prems c(1) by auto
  from Cons.IH[OF this] obtain w where w: "max_confidence c bs = Ok w" "w \<in> insert c (set bs)"
    "\<forall>v \<in> insert c (set bs). \<not> fl_lt (cv_confidence w) (cv_confidence v)" by blast
  have "\<not> fl_lt (cv_confidence w) (cv_confidence v)" if "v \<in> {a, b}" for v
    using fl_lt_negtrans[of "cv_confidence c" "cv_confidence w" "cv_confidence v"] w(3) c(2,3) that c(1) Cons.prems by auto
  then show ?case using w c(1) Cons.prems by (auto simp: c_def)
qed simp

lemma foldl_max_insert: "foldl max x xs = Max (insert x (set xs))" for x :: nat
proof (induction xs arbitrary: x)
  case (Cons y ys)
  have "Max (insert (max x y) (set ys)) = Max (insert x (insert y (set ys)))"
    by (cases "ys = []") (simp_all add: max.assoc)
  then show ?case using Cons by simp
qed simp

lemma foldl_max_Max: "xs \<noteq> [] \<Longrightarrow> foldl max 0 xs = Max (set xs)" for xs :: "nat list"
  by (simp add: foldl_max_insert)

lemma max_timestamp_Max: "cf_versions c \<noteq> [] \<Longrightarrow> max_timestamp c = Max (cv_timestamp ` set (cf_versions c))"
  by (simp add: max_timestamp_def foldl_max_Max)

section \<open>Properties\<close>

text \<open>C28: The version store is the log of the writes: after any sequence of fewer than \<open>2\<^sup>64 - 1\<close> writes the history of a
  memory is exactly its writes in order, the identifiers increase strictly over the whole store, the latest version
  is the last write, and the version at a time is the last write not after it.\<close>

theorem version_store_is_log:
  assumes "length ws < u64_max"
  defines "s \<equiv> record_all version_store_new ws" and "h m \<equiv> filter (\<lambda>v. ver_memory_id v = m) (log_versions ws)"
  shows "get_history s m = h m
    \<and> sorted_wrt (<) (map ver_id (log_versions ws))
    \<and> get_latest s m = (if h m = [] then None else Some (last (h m)))
    \<and> get_version_at s m t = (let past = filter (\<lambda>v. ver_timestamp v \<le> t) (h m) in if past = [] then None else Some (last past))"
proof -
  note L = record_all_log[OF assms(1), of m, folded s_def h_def]
  have "sorted_wrt (<) (map ver_id (log_versions ws))" by (simp only: ver_ids_log sorted_wrt_upt)
  then show ?thesis using L
    by (auto simp: get_latest_def get_version_at_def get_history_def find_rev_last Let_def split: option.splits)
qed

theorem version_store_is_log_witness:
  "get_version_at (record_all version_store_new [(5, MemoryId 1, AgentId 1, 7), (9, MemoryId 1, AgentId 2, 8)]) (MemoryId 1) 6
     = Some \<lparr> ver_id = 1, ver_memory_id = MemoryId 1, ver_agent_id = AgentId 1, ver_timestamp = 5, ver_data_hash = 7 \<rparr>"
  using version_store_is_log[of "[(5, MemoryId 1, AgentId 1, 7), (9, MemoryId 1, AgentId 2, 8)]" "MemoryId 1" 6]
  by (simp add: log_versions_def)

text \<open>A conflict is reported exactly when two agents wrote within a second of each other, and holds exactly the
  versions concurrent with another, in order. Resolving it never panics when no confidence is NaN: keeping the
  latest or the most confident version returns a version of the conflict that none exceeds, and a merged or
  manual text carries the latest timestamp.\<close>

theorem conflict_detect_resolve:
  assumes "\<forall>v \<in> set vs. cv_confidence v \<noteq> NaN"
  shows "(detect_conflict i vs = None \<longleftrightarrow> (\<nexists>v w. v \<in> set vs \<and> w \<in> set vs \<and> concurrent_versions v w))
    \<and> (\<forall>c. detect_conflict i vs = Some c \<longrightarrow>
        cf_versions c = filter (\<lambda>v. \<exists>w \<in> set vs. concurrent_versions v w) vs \<and> cf_memory_id c = i
        \<and> (\<exists>w. auto_resolve c KeepLatest = Ok w \<and> w \<in> set (cf_versions c)
              \<and> (\<forall>v \<in> set (cf_versions c). cv_timestamp v \<le> cv_timestamp w))
        \<and> (\<exists>w. auto_resolve c KeepHighestConfidence = Ok w \<and> w \<in> set (cf_versions c)
              \<and> (\<forall>v \<in> set (cf_versions c). \<not> fl_lt (cv_confidence w) (cv_confidence v)))
        \<and> (\<exists>w. auto_resolve c (Merge text) = Ok w \<and> cv_content w = text
              \<and> cv_timestamp w = Max (cv_timestamp ` set (cf_versions c)))
        \<and> (\<exists>w. auto_resolve c (Manual text) = Ok w \<and> cv_content w = text \<and> cv_confidence w = Fin 1
              \<and> cv_timestamp w = Max (cv_timestamp ` set (cf_versions c))))"
proof (intro conjI allI impI)
  show "detect_conflict i vs = None \<longleftrightarrow> (\<nexists>v w. v \<in> set vs \<and> w \<in> set vs \<and> concurrent_versions v w)"
    by (auto simp: detect_conflict_eq Let_def filter_empty_conv)
  fix c assume d: "detect_conflict i vs = Some c"
  then show cs: "cf_versions c = filter (\<lambda>v. \<exists>w \<in> set vs. concurrent_versions v w) vs" "cf_memory_id c = i"
    by (auto simp: detect_conflict_eq Let_def split: if_splits)
  from d have "cf_versions c \<noteq> []" by (auto simp: detect_conflict_eq Let_def split: if_splits)
  then obtain v us where vu: "cf_versions c = v # us" by (cases "cf_versions c") auto
  show "\<exists>w. auto_resolve c KeepLatest = Ok w \<and> w \<in> set (cf_versions c)
      \<and> (\<forall>v \<in> set (cf_versions c). cv_timestamp v \<le> cv_timestamp w)"
    using foldl_max_by[of cv_timestamp v us] by (simp add: auto_resolve_def resolve_keep_latest_def vu)
  have "\<forall>u \<in> insert v (set us). cv_confidence u \<noteq> NaN" using assms cs(1) vu
    by (metis filter_is_subset list.simps(15) subsetD)
  from max_confidence_ok[OF this] show "\<exists>w. auto_resolve c KeepHighestConfidence = Ok w \<and> w \<in> set (cf_versions c)
      \<and> (\<forall>v \<in> set (cf_versions c). \<not> fl_lt (cv_confidence w) (cv_confidence v))"
    by (simp add: auto_resolve_def resolve_keep_highest_confidence_def vu)
  have "max_timestamp c = Max (cv_timestamp ` set (cf_versions c))"
    using max_timestamp_Max vu by simp
  then show "\<exists>w. auto_resolve c (Merge text) = Ok w \<and> cv_content w = text
      \<and> cv_timestamp w = Max (cv_timestamp ` set (cf_versions c))"
    "\<exists>w. auto_resolve c (Manual text) = Ok w \<and> cv_content w = text \<and> cv_confidence w = Fin 1
      \<and> cv_timestamp w = Max (cv_timestamp ` set (cf_versions c))"
    by (simp_all add: auto_resolve_def vu)
qed

definition sample_version :: "uuid \<Rightarrow> Timestamp \<Rightarrow> ConflictVersion" where
  "sample_version a t = \<lparr> cv_agent_id = AgentId a, cv_content = ''x'', cv_confidence = Fin 1, cv_timestamp = t \<rparr>"

theorem conflict_detect_resolve_witness:
  "detect_conflict (MemoryId 1) [sample_version 1 5, sample_version 2 9] \<noteq> None"
proof -
  let ?vs = "[sample_version 1 5, sample_version 2 9]"
  have "\<forall>v \<in> set ?vs. cv_confidence v \<noteq> NaN" by (simp add: sample_version_def)
  note D = conflict_detect_resolve[OF this, of "MemoryId 1" "''t''", THEN conjunct1]
  have "concurrent_versions (sample_version 1 5) (sample_version 2 9)"
    by (simp add: sample_version_def concurrent_versions_def abs_diff_def CONFLICT_WINDOW_US_def)
  then show ?thesis unfolding D by (meson list.set_intros)
qed

text \<open>A NaN confidence makes the most-confident strategy panic.\<close>

lemma resolve_confidence_nan_panics:
  "resolve_keep_highest_confidence \<lparr> cf_memory_id = m, cf_versions = [(sample_version 1 5)\<lparr>cv_confidence := NaN\<rparr>, v],
     cf_resolution = None \<rparr> = Panic"
  by (simp add: resolve_keep_highest_confidence_def)

end
