(* ===== verification/Core_Access.thy ===== *)
theory Core_Access
  imports Core_Types
begin

text \<open>
  Multi-agent access: memory spaces with their access lists (\<open>crates/mentedb-core/src/space.rs\<close>)
  and the agent registry (\<open>agent.rs\<close>). Fresh identifiers and the clock are arguments.
\<close>

section \<open>Permissions and spaces\<close>

datatype Permission = Read | Write | ReadWrite | Admin

fun satisfies :: "Permission \<Rightarrow> Permission \<Rightarrow> bool" where
  "satisfies Admin _ = True"
| "satisfies ReadWrite Read = True"
| "satisfies ReadWrite Write = True"
| "satisfies ReadWrite ReadWrite = True"
| "satisfies Read Read = True"
| "satisfies Write Write = True"
| "satisfies _ _ = False"

record AccessEntry =
  ae_agent_id :: AgentId
  ae_permission :: Permission

record MemorySpace =
  ms_id :: SpaceId
  ms_name :: string
  ms_owner :: AgentId
  ms_access_list :: "AccessEntry list"
  ms_created_at :: Timestamp
  ms_max_memories :: "nat option"
  ms_current_count :: nat

record SpaceManager =
  spm_spaces :: "SpaceId \<rightharpoonup> MemorySpace"

definition space_manager_new :: SpaceManager where
  "space_manager_new = \<lparr> spm_spaces = Map.empty \<rparr>"

definition create_space :: "SpaceId \<Rightarrow> Timestamp \<Rightarrow> SpaceManager \<Rightarrow> string \<Rightarrow> AgentId \<Rightarrow> MemorySpace \<times> SpaceManager" where
  "create_space fresh now m name owner =
     (let space = \<lparr> ms_id = fresh, ms_name = name, ms_owner = owner,
            ms_access_list = [\<lparr> ae_agent_id = owner, ae_permission = Admin \<rparr>],
            ms_created_at = now, ms_max_memories = None, ms_current_count = 0 \<rparr>
      in (space, m\<lparr>spm_spaces := (spm_spaces m)(ms_id space \<mapsto> space)\<rparr>))"

definition get_space :: "SpaceManager \<Rightarrow> SpaceId \<Rightarrow> MemorySpace option" where
  "get_space m i = spm_spaces m i"

definition delete_space :: "SpaceManager \<Rightarrow> SpaceId \<Rightarrow> SpaceManager" where
  "delete_space m i = m\<lparr>spm_spaces := (spm_spaces m)(i := None)\<rparr>"

text \<open>The first entry of the agent is replaced; without one an entry is appended.\<close>

fun grant_entry :: "AgentId \<Rightarrow> Permission \<Rightarrow> AccessEntry list \<Rightarrow> AccessEntry list" where
  "grant_entry agent perm [] = [\<lparr> ae_agent_id = agent, ae_permission = perm \<rparr>]"
| "grant_entry agent perm (e # es) =
     (if ae_agent_id e = agent then e\<lparr>ae_permission := perm\<rparr> # es else e # grant_entry agent perm es)"

definition grant_access :: "SpaceManager \<Rightarrow> SpaceId \<Rightarrow> AgentId \<Rightarrow> Permission \<Rightarrow> SpaceManager" where
  "grant_access m space agent perm =
     (case spm_spaces m space of None \<Rightarrow> m
      | Some s \<Rightarrow> m\<lparr>spm_spaces := (spm_spaces m)(space \<mapsto> s\<lparr>ms_access_list := grant_entry agent perm (ms_access_list s)\<rparr>)\<rparr>)"

definition revoke_access :: "SpaceManager \<Rightarrow> SpaceId \<Rightarrow> AgentId \<Rightarrow> SpaceManager" where
  "revoke_access m space agent =
     (case spm_spaces m space of None \<Rightarrow> m
      | Some s \<Rightarrow> m\<lparr>spm_spaces := (spm_spaces m)(space \<mapsto>
          s\<lparr>ms_access_list := filter (\<lambda>e. ae_agent_id e \<noteq> agent) (ms_access_list s)\<rparr>)\<rparr>)"

definition check_access :: "SpaceManager \<Rightarrow> SpaceId \<Rightarrow> AgentId \<Rightarrow> Permission \<Rightarrow> bool" where
  "check_access m space agent required =
     (case spm_spaces m space of None \<Rightarrow> False
      | Some s \<Rightarrow> if ms_owner s = agent then True
          else list_ex (\<lambda>e. ae_agent_id e = agent \<and> satisfies (ae_permission e) required) (ms_access_list s))"

text \<open>The hash map's iteration order is the list \<open>order\<close> of its keys.\<close>

definition list_spaces_for_agent :: "SpaceId list \<Rightarrow> SpaceManager \<Rightarrow> AgentId \<Rightarrow> MemorySpace list" where
  "list_spaces_for_agent order m agent =
     filter (\<lambda>s. ms_owner s = agent \<or> list_ex (\<lambda>e. ae_agent_id e = agent) (ms_access_list s))
       (List.map_filter (spm_spaces m) order)"

section \<open>Agents\<close>

record Agent =
  ag_id :: AgentId
  ag_name :: string
  ag_created_at :: Timestamp
  ag_metadata :: "string \<rightharpoonup> string"
  ag_default_space :: SpaceId

record AgentRegistry =
  ar_agents :: "AgentId \<rightharpoonup> Agent"

definition agent_registry_new :: AgentRegistry where
  "agent_registry_new = \<lparr> ar_agents = Map.empty \<rparr>"

definition register :: "AgentId \<Rightarrow> Timestamp \<Rightarrow> AgentRegistry \<Rightarrow> string \<Rightarrow> Agent \<times> AgentRegistry" where
  "register fresh now r name =
     (let agent = \<lparr> ag_id = fresh, ag_name = name, ag_created_at = now, ag_metadata = Map.empty,
            ag_default_space = nil_space \<rparr>
      in (agent, r\<lparr>ar_agents := (ar_agents r)(ag_id agent \<mapsto> agent)\<rparr>))"

definition agent_get :: "AgentRegistry \<Rightarrow> AgentId \<Rightarrow> Agent option" where
  "agent_get r i = ar_agents r i"

definition agent_remove :: "AgentRegistry \<Rightarrow> AgentId \<Rightarrow> AgentRegistry" where
  "agent_remove r i = r\<lparr>ar_agents := (ar_agents r)(i := None)\<rparr>"

definition agent_list :: "AgentId list \<Rightarrow> AgentRegistry \<Rightarrow> Agent list" where
  "agent_list order r = List.map_filter (ar_agents r) order"

definition update_metadata :: "AgentRegistry \<Rightarrow> AgentId \<Rightarrow> string \<Rightarrow> string \<Rightarrow> AgentRegistry" where
  "update_metadata r i key value =
     (case ar_agents r i of None \<Rightarrow> r
      | Some agent \<Rightarrow> r\<lparr>ar_agents := (ar_agents r)(i \<mapsto> agent\<lparr>ag_metadata := (ag_metadata agent)(key \<mapsto> value)\<rparr>)\<rparr>)"

section \<open>The contract of a registry\<close>

text \<open>
  Both stores are registries: an entry is added under a fresh key, changed in place and removed,
  and no operation touches another key.
\<close>

locale registry =
  fixes look :: "'s \<Rightarrow> 'k \<Rightarrow> 'v option"
    and put :: "'s \<Rightarrow> 'k \<Rightarrow> 'v \<Rightarrow> 's"
    and del :: "'s \<Rightarrow> 'k \<Rightarrow> 's"
  assumes look_put: "look (put s k v) j = (if j = k then Some v else look s j)"
    and look_del: "look (del s k) j = (if j = k then None else look s j)"
begin

definition keyed :: "('v \<Rightarrow> 'k) \<Rightarrow> 's \<Rightarrow> bool" where
  "keyed key s \<longleftrightarrow> (\<forall>k v. look s k = Some v \<longrightarrow> key v = k)"

lemma keyed_put: "keyed key s \<Longrightarrow> key v = k \<Longrightarrow> keyed key (put s k v)"
  by (auto simp: keyed_def look_put)

lemma keyed_del: "keyed key s \<Longrightarrow> keyed key (del s k)"
  by (auto simp: keyed_def look_del)

text \<open>Listing a registry along an enumeration of its keys gives every entry once.\<close>

lemma listed_once:
  assumes "distinct order" "keyed key s"
  shows "distinct (List.map_filter (look s) order)"
proof -
  have "inj_on (the \<circ> look s) {k. look s k \<noteq> None}"
    using assms(2) by (intro inj_onI) (auto simp: keyed_def, metis)
  then show ?thesis
    using assms(1) by (auto simp: List.map_filter_def distinct_map intro: inj_on_subset)
qed

lemma listed_all:
  assumes "set order = dom (look s)"
  shows "set (List.map_filter (look s) order) = ran (look s)"
  using assms by (force simp: List.map_filter_def ran_def dom_def)

end

interpretation spaces: registry get_space "\<lambda>m i s. m\<lparr>spm_spaces := (spm_spaces m)(i \<mapsto> s)\<rparr>" delete_space
  by unfold_locales (simp_all add: get_space_def delete_space_def)

interpretation agents: registry agent_get "\<lambda>r i a. r\<lparr>ar_agents := (ar_agents r)(i \<mapsto> a)\<rparr>" agent_remove
  by unfold_locales (simp_all add: agent_get_def agent_remove_def)

section \<open>The access matrix\<close>

text \<open>The abstract state: for each space its owner and each agent's permission.\<close>

type_synonym matrix = "SpaceId \<rightharpoonup> AgentId \<times> (AgentId \<rightharpoonup> Permission)"

definition permissions :: "AccessEntry list \<Rightarrow> AgentId \<rightharpoonup> Permission" where
  "permissions es = map_of (map (\<lambda>e. (ae_agent_id e, ae_permission e)) es)"

definition matrix_of :: "SpaceManager \<Rightarrow> matrix" where
  "matrix_of m i = map_option (\<lambda>s. (ms_owner s, permissions (ms_access_list s))) (spm_spaces m i)"

definition may :: "matrix \<Rightarrow> SpaceId \<Rightarrow> AgentId \<Rightarrow> Permission \<Rightarrow> bool" where
  "may x i a r = (case x i of None \<Rightarrow> False
     | Some (owner, ps) \<Rightarrow> owner = a \<or> (case ps a of None \<Rightarrow> False | Some p \<Rightarrow> satisfies p r))"

definition space_inv :: "SpaceManager \<Rightarrow> bool" where
  "space_inv m \<longleftrightarrow> (\<forall>i s. spm_spaces m i = Some s \<longrightarrow> ms_id s = i \<and> distinct (map ae_agent_id (ms_access_list s)))"

lemma agents_grant_entry: "ae_agent_id ` set (grant_entry a p es) = insert a (ae_agent_id ` set es)"
  by (induction es) auto

lemma distinct_grant_entry:
  "distinct (map ae_agent_id es) \<Longrightarrow> distinct (map ae_agent_id (grant_entry a p es))"
proof (induction es)
  case (Cons e es)
  then show ?case using agents_grant_entry[of a p es] by auto
qed simp

lemma permissions_grant: "permissions (grant_entry a p es) = (permissions es)(a \<mapsto> p)"
  by (induction es) (auto simp: permissions_def fun_eq_iff)

lemma permissions_revoke: "permissions (filter (\<lambda>e. ae_agent_id e \<noteq> a) es) = (permissions es)(a := None)"
  by (induction es) (auto simp: permissions_def fun_eq_iff)

lemma permissions_ex:
  "distinct (map ae_agent_id es) \<Longrightarrow>
     list_ex (\<lambda>e. ae_agent_id e = a \<and> P (ae_permission e)) es \<longleftrightarrow> (\<exists>p. permissions es a = Some p \<and> P p)"
proof (induction es)
  case (Cons e es)
  have "permissions es (ae_agent_id e) = None"
    using Cons.prems by (auto simp: permissions_def map_of_eq_None_iff)
  then show ?case using Cons by (cases "ae_agent_id e = a") (auto simp: permissions_def)
qed (simp add: permissions_def)

lemmas space_ops = create_space_def delete_space_def grant_access_def revoke_access_def

lemma space_inv_ops:
  assumes "space_inv m"
  shows "space_inv (snd (create_space i now m name owner))" "space_inv (delete_space m i)"
    "space_inv (grant_access m i a p)" "space_inv (revoke_access m i a)"
  using assms by (auto simp: space_inv_def space_ops Let_def distinct_grant_entry split: option.splits if_splits
      intro!: distinct_map_filter)

text \<open>A sequence of calls.\<close>

datatype SpaceOp = OpCreate SpaceId Timestamp string AgentId | OpDelete SpaceId
  | OpGrant SpaceId AgentId Permission | OpRevoke SpaceId AgentId

fun space_step :: "SpaceManager \<Rightarrow> SpaceOp \<Rightarrow> SpaceManager" where
  "space_step m (OpCreate i now name owner) = snd (create_space i now m name owner)"
| "space_step m (OpDelete i) = delete_space m i"
| "space_step m (OpGrant i a p) = grant_access m i a p"
| "space_step m (OpRevoke i a) = revoke_access m i a"

fun matrix_step :: "matrix \<Rightarrow> SpaceOp \<Rightarrow> matrix" where
  "matrix_step x (OpCreate i now name owner) = x(i \<mapsto> (owner, [owner \<mapsto> Admin]))"
| "matrix_step x (OpDelete i) = x(i := None)"
| "matrix_step x (OpGrant i a p) = (case x i of None \<Rightarrow> x | Some (owner, ps) \<Rightarrow> x(i \<mapsto> (owner, ps(a \<mapsto> p))))"
| "matrix_step x (OpRevoke i a) = (case x i of None \<Rightarrow> x | Some (owner, ps) \<Rightarrow> x(i \<mapsto> (owner, ps(a := None))))"

lemma space_step_refines:
  assumes "space_inv m"
  shows "space_inv (space_step m op) \<and> matrix_of (space_step m op) = matrix_step (matrix_of m) op"
  using space_inv_ops[OF assms]
  by (cases op) (auto simp: space_ops Let_def matrix_of_def fun_eq_iff permissions_grant permissions_revoke
      permissions_def[of "[_]"] split: option.splits)

lemma check_access_may:
  assumes "space_inv m"
  shows "check_access m i a r = may (matrix_of m) i a r"
proof (cases "spm_spaces m i")
  case (Some s)
  then have "distinct (map ae_agent_id (ms_access_list s))" using assms by (simp add: space_inv_def)
  from permissions_ex[OF this, of a "\<lambda>p. satisfies p r"] show ?thesis
    using Some by (auto simp: check_access_def may_def matrix_of_def split: option.splits)
qed (simp add: check_access_def may_def matrix_of_def)

lemma space_run:
  "space_inv (foldl space_step space_manager_new ops)
   \<and> matrix_of (foldl space_step space_manager_new ops) = foldl matrix_step Map.empty ops"
proof (induction ops rule: rev_induct)
  case Nil
  show ?case by (simp add: space_inv_def space_manager_new_def matrix_of_def)
next
  case (snoc op ops)
  then show ?case using space_step_refines by simp
qed

lemma matrix_run_grants:
  assumes "foldl matrix_step Map.empty ops i = Some (owner, ps)"
  shows "(\<exists>now name. OpCreate i now name owner \<in> set ops)
    \<and> (\<forall>a p. ps a = Some p \<longrightarrow> a = owner \<or> OpGrant i a p \<in> set ops)"
  using assms
proof (induction ops arbitrary: owner ps rule: rev_induct)
  case (snoc op ops)
  let ?x = "foldl matrix_step Map.empty ops"
  show ?case
  proof (cases op)
    case (OpGrant j a p)
    with snoc show ?thesis by (cases "?x j"; cases "i = j") (fastforce split: if_splits)+
  next
    case (OpRevoke j a)
    with snoc show ?thesis by (cases "?x j"; cases "i = j") (fastforce split: if_splits)+
  qed (use snoc in \<open>auto split: if_splits\<close>)
qed simp

section \<open>Properties\<close>

text \<open>C13: The space manager implements an access matrix: through any sequence of calls each access list holds at most one
  entry per agent and every space sits under its own identifier; creating, deleting, granting and
  revoking are the matrix updates; and \<open>check_access\<close> answers from the matrix: the owner always, another agent by
  its permission.\<close>

theorem spaces_refine_matrix:
  "space_inv (foldl space_step space_manager_new ops)
   \<and> matrix_of (foldl space_step space_manager_new ops) = foldl matrix_step Map.empty ops
   \<and> check_access (foldl space_step space_manager_new ops) i a r = may (foldl matrix_step Map.empty ops) i a r"
  using space_run[of ops] check_access_may[of "foldl space_step space_manager_new ops" i a r] by simp

text \<open>No agent has access that it was not given: whoever passes \<open>check_access\<close> after a sequence of calls created the
  space or was granted some permission on it, and a revoked agent passes only as the owner.\<close>

theorem access_needs_grant:
  assumes "check_access (foldl space_step space_manager_new ops) i a r"
  shows "((\<exists>now name. OpCreate i now name a \<in> set ops) \<or> (\<exists>p. OpGrant i a p \<in> set ops \<and> satisfies p r))
    \<and> (check_access (revoke_access (foldl space_step space_manager_new ops) i a) i a r
       \<longleftrightarrow> (\<exists>s. get_space (foldl space_step space_manager_new ops) i = Some s \<and> ms_owner s = a))"
proof (intro conjI)
  let ?m = "foldl space_step space_manager_new ops"
  have inv: "space_inv ?m" and x: "matrix_of ?m = foldl matrix_step Map.empty ops" using space_run by simp_all
  have "may (foldl matrix_step Map.empty ops) i a r" using assms inv x by (simp add: check_access_may)
  then obtain owner ps where o: "foldl matrix_step Map.empty ops i = Some (owner, ps)"
    and "owner = a \<or> (\<exists>p. ps a = Some p \<and> satisfies p r)"
    by (auto simp: may_def split: option.splits)
  then show "(\<exists>now name. OpCreate i now name a \<in> set ops) \<or> (\<exists>p. OpGrant i a p \<in> set ops \<and> satisfies p r)"
    using matrix_run_grants[OF o] by blast
  show "check_access (revoke_access ?m i a) i a r \<longleftrightarrow> (\<exists>s. get_space ?m i = Some s \<and> ms_owner s = a)"
    by (auto simp: check_access_def revoke_access_def get_space_def list_ex_iff split: option.splits if_splits)
qed

theorem access_needs_grant_witness:
  "\<not> check_access (revoke_access (foldl space_step space_manager_new
       [OpCreate (SpaceId 1) 0 ''s'' (AgentId 1), OpGrant (SpaceId 1) (AgentId 2) ReadWrite]) (SpaceId 1) (AgentId 2))
     (SpaceId 1) (AgentId 2) Read"
proof -
  let ?ops = "[OpCreate (SpaceId 1) 0 ''s'' (AgentId 1), OpGrant (SpaceId 1) (AgentId 2) ReadWrite]"
  have "check_access (foldl space_step space_manager_new ?ops) (SpaceId 1) (AgentId 2) Read"
    by (simp add: check_access_def space_ops space_manager_new_def Let_def)
  from access_needs_grant[OF this] show ?thesis
    by (simp add: get_space_def space_ops space_manager_new_def Let_def)
qed

text \<open>The entries of the registries are stored under their own identifiers and listed once each.\<close>

lemma registry_lists:
  assumes "distinct order" "set order = dom (ar_agents r)" "\<forall>i a. ar_agents r i = Some a \<longrightarrow> ag_id a = i"
  shows "distinct (agent_list order r) \<and> set (agent_list order r) = ran (ar_agents r)"
proof -
  have look: "agent_get r = ar_agents r" by (simp add: agent_get_def fun_eq_iff)
  have "agents.keyed ag_id r" using assms(3) by (simp add: agents.keyed_def look)
  from agents.listed_once[OF assms(1) this] agents.listed_all[of order r] show ?thesis
    using assms(2) by (simp add: agent_list_def look)
qed

end
