(* ===== verification/Core_Resources.thy ===== *)
theory Core_Resources
  imports Core_Types Rust_Text
begin

text \<open>
  Shared counters: the resource tracker (\<open>crates/mentedb-core/src/limits.rs\<close>), the metrics
  (\<open>metrics.rs\<close>) and the event bus (\<open>event.rs\<close>). Atomic counters wrap around at 64 bits. The
  tracker's delete is also modelled as its atomic accesses, for threads that interleave.
\<close>

section \<open>Resource limits\<close>

record ResourceLimits =
  rl_max_memories :: "nat option"
  rl_max_memory_bytes :: "nat option"
  rl_max_memories_per_agent :: "nat option"
  rl_max_embedding_dimensions :: nat
  rl_write_rate_limit :: "nat option"

definition resource_limits_default :: ResourceLimits where
  "resource_limits_default = \<lparr> rl_max_memories = None, rl_max_memory_bytes = None,
     rl_max_memories_per_agent = None, rl_max_embedding_dimensions = 4096, rl_write_rate_limit = None \<rparr>"

record ResourceUsage =
  ru_total_memories :: nat
  ru_total_bytes :: nat
  ru_limit_memories :: "nat option"
  ru_limit_bytes :: "nat option"
  ru_utilization_pct :: f32

record ResourceTracker =
  rt_limits :: ResourceLimits
  rt_memory_count :: nat
  rt_bytes :: nat
  rt_agent_counts :: "AgentId \<rightharpoonup> nat"

definition tracker_new :: "ResourceLimits \<Rightarrow> ResourceTracker" where
  "tracker_new limits = \<lparr> rt_limits = limits, rt_memory_count = 0, rt_bytes = 0, rt_agent_counts = Map.empty \<rparr>"

definition agent_count :: "ResourceTracker \<Rightarrow> AgentId \<Rightarrow> nat" where
  "agent_count t a = (case rt_agent_counts t a of None \<Rightarrow> 0 | Some n \<Rightarrow> n)"

text \<open>The three checks in order. The byte sum wraps; \<open>agent_show\<close> is the identifier's \<open>Display\<close>.\<close>

definition check_memories :: "ResourceTracker \<Rightarrow> unit MenteResult" where
  "check_memories t =
     (let count = rt_memory_count t in
      case rl_max_memories (rt_limits t) of None \<Rightarrow> Ok ()
      | Some m \<Rightarrow> if m \<le> count
          then Err (ResourceExhausted (''memory limit reached: '' @ show_nat count @ ''/'' @ show_nat m))
          else Ok ())"

definition check_bytes :: "ResourceTracker \<Rightarrow> nat \<Rightarrow> unit MenteResult" where
  "check_bytes t estimated_bytes =
     (let bytes = rt_bytes t in
      case rl_max_memory_bytes (rt_limits t) of None \<Rightarrow> Ok ()
      | Some max_bytes \<Rightarrow> if max_bytes < wrap64 (bytes + estimated_bytes)
          then Err (ResourceExhausted (''byte limit would be exceeded: '' @ show_nat bytes @ '' + ''
                 @ show_nat estimated_bytes @ '' > '' @ show_nat max_bytes))
          else Ok ())"

definition check_agent :: "(AgentId \<Rightarrow> string) \<Rightarrow> ResourceTracker \<Rightarrow> AgentId \<Rightarrow> unit MenteResult" where
  "check_agent agent_show t agent_id =
     (case rl_max_memories_per_agent (rt_limits t) of None \<Rightarrow> Ok ()
      | Some per_agent \<Rightarrow> if per_agent \<le> agent_count t agent_id
          then Err (ResourceExhausted (''per-agent limit reached for '' @ agent_show agent_id @ '': ''
                 @ show_nat (agent_count t agent_id) @ ''/'' @ show_nat per_agent))
          else Ok ())"

definition check_can_write :: "(AgentId \<Rightarrow> string) \<Rightarrow> ResourceTracker \<Rightarrow> AgentId \<Rightarrow> nat \<Rightarrow> unit MenteResult" where
  "check_can_write agent_show t agent_id estimated_bytes =
     bindO (check_memories t) (\<lambda>_. bindO (check_bytes t estimated_bytes) (\<lambda>_. check_agent agent_show t agent_id))"

definition record_write :: "ResourceTracker \<Rightarrow> AgentId \<Rightarrow> nat \<Rightarrow> ResourceTracker" where
  "record_write t agent_id bytes = t\<lparr>rt_memory_count := wrap64 (rt_memory_count t + 1),
     rt_bytes := wrap64 (rt_bytes t + bytes),
     rt_agent_counts := (rt_agent_counts t)(agent_id \<mapsto> wrap64 (agent_count t agent_id + 1))\<rparr>"

definition record_delete :: "ResourceTracker \<Rightarrow> AgentId \<Rightarrow> nat \<Rightarrow> ResourceTracker" where
  "record_delete t agent_id bytes = t\<lparr>rt_memory_count := rt_memory_count t - min 1 (rt_memory_count t),
     rt_bytes := rt_bytes t - min bytes (rt_bytes t),
     rt_agent_counts := (case rt_agent_counts t agent_id of None \<Rightarrow> rt_agent_counts t
        | Some n \<Rightarrow> (rt_agent_counts t)(agent_id \<mapsto> n - 1))\<rparr>"

definition f32_nat :: "nat \<Rightarrow> f32" where
  "f32_nat n = f32_of (of_nat n)"

definition pct :: "nat \<Rightarrow> nat \<Rightarrow> f32" where
  "pct n m = fl_mul f32_of (fl_div f32_of (f32_nat n) (f32_nat m)) (Fin 100)"

definition usage :: "ResourceTracker \<Rightarrow> ResourceUsage" where
  "usage t =
     \<lparr> ru_total_memories = rt_memory_count t, ru_total_bytes = rt_bytes t,
       ru_limit_memories = rl_max_memories (rt_limits t), ru_limit_bytes = rl_max_memory_bytes (rt_limits t),
       ru_utilization_pct =
         (case (rl_max_memories (rt_limits t), rl_max_memory_bytes (rt_limits t)) of
            (Some max_mem, Some max_bytes) \<Rightarrow> fl_max (pct (rt_memory_count t) max_mem) (pct (rt_bytes t) max_bytes)
          | (Some max_mem, None) \<Rightarrow> pct (rt_memory_count t) max_mem
          | (None, Some max_bytes) \<Rightarrow> pct (rt_bytes t) max_bytes
          | (None, None) \<Rightarrow> Fin 0) \<rparr>"

section \<open>Limits are respected\<close>

text \<open>
  The tracker against the memories that are really stored, as the multiset of their agents and sizes.
  A write happens after its check passed, and a delete is of a stored memory. The totals stay below
  the range of the counters.
\<close>

definition stored_bytes :: "(AgentId \<times> nat) multiset \<Rightarrow> nat" where
  "stored_bytes live = \<Sum>\<^sub># (image_mset snd live)"

definition stored_by :: "AgentId \<Rightarrow> (AgentId \<times> nat) multiset \<Rightarrow> nat" where
  "stored_by a live = size (filter_mset (\<lambda>x. fst x = a) live)"

inductive tracker_run :: "(AgentId \<Rightarrow> string) \<Rightarrow> ResourceLimits \<Rightarrow> ResourceTracker \<Rightarrow> (AgentId \<times> nat) multiset \<Rightarrow> bool"
  for sh and l where
  run_start: "tracker_run sh l (tracker_new l) {#}"
| run_write: "tracker_run sh l t live \<Longrightarrow> check_can_write sh t a b = Ok () \<Longrightarrow> size live + 1 < u64_mod
    \<Longrightarrow> stored_bytes live + b < u64_mod \<Longrightarrow> tracker_run sh l (record_write t a b) (add_mset (a, b) live)"
| run_delete: "tracker_run sh l t live \<Longrightarrow> (a, b) \<in># live \<Longrightarrow> tracker_run sh l (record_delete t a b) (live - {#(a, b)#})"

lemma check_can_write_ok:
  "check_can_write sh t a b = Ok u \<longleftrightarrow>
     (\<forall>m. rl_max_memories (rt_limits t) = Some m \<longrightarrow> rt_memory_count t < m)
     \<and> (\<forall>m. rl_max_memory_bytes (rt_limits t) = Some m \<longrightarrow> wrap64 (rt_bytes t + b) \<le> m)
     \<and> (\<forall>p. rl_max_memories_per_agent (rt_limits t) = Some p \<longrightarrow> agent_count t a < p)"
  by (auto simp: check_can_write_def check_memories_def check_bytes_def check_agent_def outcome_simps Let_def
      split: option.splits if_splits)

definition tracks :: "ResourceLimits \<Rightarrow> ResourceTracker \<Rightarrow> (AgentId \<times> nat) multiset \<Rightarrow> bool" where
  "tracks l t live \<longleftrightarrow> rt_limits t = l \<and> rt_memory_count t = size live \<and> rt_bytes t = stored_bytes live
     \<and> (\<forall>a. agent_count t a = stored_by a live)
     \<and> (\<forall>m. rl_max_memories l = Some m \<longrightarrow> size live \<le> m)
     \<and> (\<forall>m. rl_max_memory_bytes l = Some m \<longrightarrow> stored_bytes live \<le> m)
     \<and> (\<forall>p a. rl_max_memories_per_agent l = Some p \<longrightarrow> stored_by a live \<le> p)"

lemma stored_bytes_add [simp]: "stored_bytes (add_mset (a, b) live) = b + stored_bytes live"
  by (simp add: stored_bytes_def)

lemma stored_by_add [simp]: "stored_by c (add_mset (a, b) live) = (if a = c then Suc else id) (stored_by c live)"
  by (simp add: stored_by_def)

lemma stored_by_le: "stored_by a live \<le> size live"
  by (simp add: stored_by_def size_filter_mset_lesseq)

lemma agent_count_write:
  "agent_count (record_write t a b) c = (if c = a then wrap64 (Suc (agent_count t a)) else agent_count t c)"
  by (simp add: agent_count_def record_write_def)

lemma agent_count_delete:
  "agent_count (record_delete t a b) c = (if c = a then agent_count t a - 1 else agent_count t c)"
  by (auto simp: agent_count_def record_delete_def split: option.splits)

lemma write_fields [simp]:
  "rt_limits (record_write t a b) = rt_limits t"
  "rt_memory_count (record_write t a b) = wrap64 (Suc (rt_memory_count t))"
  "rt_bytes (record_write t a b) = wrap64 (rt_bytes t + b)"
  by (simp_all add: record_write_def)

lemma delete_fields [simp]:
  "rt_limits (record_delete t a b) = rt_limits t"
  "rt_memory_count (record_delete t a b) = rt_memory_count t - 1"
  "rt_bytes (record_delete t a b) = rt_bytes t - b"
  by (simp_all add: record_delete_def min_def)

lemma tracksD:
  assumes "tracks l t live"
  shows "rt_limits t = l" "rt_memory_count t = size live" "rt_bytes t = stored_bytes live"
    "agent_count t a = stored_by a live" "rl_max_memories l = Some m \<Longrightarrow> size live \<le> m"
    "rl_max_memory_bytes l = Some m \<Longrightarrow> stored_bytes live \<le> m"
    "rl_max_memories_per_agent l = Some m \<Longrightarrow> stored_by a live \<le> m"
  using assms by (simp_all add: tracks_def)

lemma tracks_write:
  assumes "tracks l t live" "check_can_write sh t a b = Ok ()" "size live + 1 < u64_mod" "stored_bytes live + b < u64_mod"
  shows "tracks l (record_write t a b) (add_mset (a, b) live)"
proof -
  note D = tracksD[OF assms(1)]
  note C = assms(2)[unfolded check_can_write_ok D]
  have w: "Suc (stored_by a live) < u64_mod" using stored_by_le[of a live] assms(3) by linarith
  show ?thesis unfolding tracks_def
  proof (intro conjI allI impI)
    show "rt_bytes (record_write t a b) = stored_bytes (add_mset (a, b) live)"
      using assms(4) D(3) by (simp add: add.commute)
    show "agent_count (record_write t a b) c = stored_by c (add_mset (a, b) live)" for c
      using wrap64_id[OF w] D(4) by (cases "a = c") (simp_all add: agent_count_write)
    show "size (add_mset (a, b) live) \<le> m" if "rl_max_memories l = Some m" for m using C that by (simp add: Suc_le_eq)
    show "stored_bytes (add_mset (a, b) live) \<le> m" if "rl_max_memory_bytes l = Some m" for m
      using C that assms(4) by (simp add: add.commute)
    show "stored_by c (add_mset (a, b) live) \<le> p" if "rl_max_memories_per_agent l = Some p" for p c
      using C that D(7)[OF that, of c] by (cases "a = c") (simp_all add: Suc_le_eq)
  qed (use assms(3) D in simp_all)
qed

lemma tracks_delete:
  assumes "tracks l t live" "(a, b) \<in># live"
  shows "tracks l (record_delete t a b) (live - {#(a, b)#})"
proof -
  obtain rest where r: "live = add_mset (a, b) rest" using assms(2) by (metis insert_DiffM)
  note D = tracksD[OF assms(1), unfolded r]
  show ?thesis unfolding tracks_def r
  proof (intro conjI allI impI)
    show "agent_count (record_delete t a b) c = stored_by c (add_mset (a, b) rest - {#(a, b)#})" for c
      using D(4) by (simp add: agent_count_delete)
    show "size (add_mset (a, b) rest - {#(a, b)#}) \<le> m" if "rl_max_memories l = Some m" for m using D(5)[OF that] by simp
    show "stored_bytes (add_mset (a, b) rest - {#(a, b)#}) \<le> m" if "rl_max_memory_bytes l = Some m" for m
      using D(6)[OF that] by simp
    show "stored_by c (add_mset (a, b) rest - {#(a, b)#}) \<le> p" if "rl_max_memories_per_agent l = Some p" for p c
      using D(7)[OF that, of c] by (simp split: if_splits)
  qed (use D in simp_all)
qed

section \<open>Deletes by several threads\<close>

text \<open>
  \<open>record_delete\<close> reads the counter and then subtracts \<open>min 1\<close> of what it read: two atomic accesses,
  between which other threads run. A thread is before its load, between the two, or done.
\<close>

datatype delete_pc = NotStarted | Loaded nat | Finished

inductive delete_step :: "nat \<times> delete_pc list \<Rightarrow> nat \<times> delete_pc list \<Rightarrow> bool" where
  load: "i < length pcs \<Longrightarrow> pcs ! i = NotStarted \<Longrightarrow> delete_step (n, pcs) (n, pcs[i := Loaded n])"
| fetch_sub: "i < length pcs \<Longrightarrow> pcs ! i = Loaded v
    \<Longrightarrow> delete_step (n, pcs) (wrap64 (n + u64_mod - min 1 v), pcs[i := Finished])"

inductive_cases delete_stepE: "delete_step (n, pcs) s"

text \<open>The invariant with at least as many memories as threads: what the finished threads took is what is missing.\<close>

definition finished_count :: "delete_pc list \<Rightarrow> nat" where
  "finished_count pcs = length (filter (\<lambda>p. p = Finished) pcs)"

definition delete_inv :: "nat \<Rightarrow> nat \<times> delete_pc list \<Rightarrow> bool" where
  "delete_inv c s \<longleftrightarrow> length (snd s) \<le> c \<and> fst s + finished_count (snd s) = c \<and> Loaded 0 \<notin> set (snd s)"

lemma finished_count_update:
  "i < length pcs \<Longrightarrow> pcs ! i \<noteq> Finished \<Longrightarrow>
     finished_count (pcs[i := p]) = (if p = Finished then Suc else id) (finished_count pcs)
     \<and> finished_count pcs < length pcs"
proof (induction pcs arbitrary: i)
  case (Cons q qs)
  have "finished_count (q # qs) = (if q = Finished then Suc else id) (finished_count qs)" for q qs
    by (simp add: finished_count_def)
  moreover have "finished_count qs \<le> length qs" by (simp add: finished_count_def)
  ultimately show ?case using Cons by (cases i) auto
qed simp

lemma delete_step_inv:
  assumes "delete_step s s'" "delete_inv c s" "c < u64_mod"
  shows "delete_inv c s'"
  using assms
proof (cases rule: delete_step.cases)
  case (load i pcs n)
  have "n \<noteq> 0" using finished_count_update[OF load(3), of "Loaded n"] load assms(2) by (auto simp: delete_inv_def)
  then show ?thesis
    using finished_count_update[OF load(3), of "Loaded n"] load assms(2)
    by (auto simp: delete_inv_def dest: set_update_subset_insert[THEN subsetD])
next
  case (fetch_sub i pcs v n)
  have v: "v \<noteq> 0" using fetch_sub assms(2) by (metis delete_inv_def nth_mem snd_conv)
  have fc: "finished_count (pcs[i := Finished]) = Suc (finished_count pcs)" "finished_count pcs < length pcs"
    using finished_count_update[OF fetch_sub(3), of Finished] fetch_sub(4) by auto
  have n: "n + finished_count pcs = c" "length pcs \<le> c" using assms(2) fetch_sub by (auto simp: delete_inv_def)
  then have "0 < n" using fc by simp
  then have "n + u64_mod - min 1 v = n - 1 + u64_mod" using v by (simp add: min_def)
  then have "wrap64 (n + u64_mod - min 1 v) = n - 1" using n(1) assms(3) by (simp add: wrap64_def)
  then show ?thesis
    using fetch_sub assms(2) fc \<open>0 < n\<close> by (auto simp: delete_inv_def dest: set_update_subset_insert[THEN subsetD])
qed

lemma delete_run_inv:
  assumes "delete_step\<^sup>*\<^sup>* (c, replicate k NotStarted) s" "k \<le> c" "c < u64_mod"
  shows "delete_inv c s"
  using assms(1)
proof (induction rule: rtranclp_induct)
  case base
  then show ?case using assms(2) by (simp add: delete_inv_def finished_count_def)
next
  case (step s s')
  then show ?case using delete_step_inv assms(3) by blast
qed

section \<open>Properties\<close>

text \<open>C26: The tracker counts exactly what is stored and keeps it within the limits: when writes happen only after
  their check, deletes are of stored memories and the totals stay below \<open>2\<^sup>64\<close>, the counters equal the number, the bytes
  and the per-agent numbers of the stored memories, and none of the three limits is exceeded.\<close>

theorem tracker_within_limits:
  assumes "tracker_run sh l t live"
  shows "rt_memory_count t = size live \<and> rt_bytes t = stored_bytes live \<and> agent_count t a = stored_by a live
    \<and> (\<forall>m. rl_max_memories l = Some m \<longrightarrow> size live \<le> m)
    \<and> (\<forall>m. rl_max_memory_bytes l = Some m \<longrightarrow> stored_bytes live \<le> m)
    \<and> (\<forall>p. rl_max_memories_per_agent l = Some p \<longrightarrow> stored_by a live \<le> p)"
proof -
  have "tracks l t live" using assms
  proof induction
    case run_start
    show ?case by (simp add: tracks_def tracker_new_def stored_bytes_def stored_by_def agent_count_def)
  qed (simp_all add: tracks_write tracks_delete)
  then show ?thesis by (simp add: tracks_def)
qed

theorem tracker_within_limits_witness:
  "rt_bytes (record_write (tracker_new resource_limits_default) (AgentId 1) 5) = 5"
proof -
  have "tracker_run (\<lambda>_. []) resource_limits_default
      (record_write (tracker_new resource_limits_default) (AgentId 1) 5) (add_mset (AgentId 1, 5) {#})"
    by (intro run_write run_start) (simp_all add: check_can_write_ok tracker_new_def resource_limits_default_def stored_bytes_def)
  from tracker_within_limits[OF this] show ?thesis by (simp add: stored_bytes_def)
qed

text \<open>C27: Concurrent deletes do not lose updates as long as at least as many memories are counted as threads delete: in
  every interleaving of their atomic accesses, once all are finished the counter has gone down by their number.\<close>

theorem concurrent_deletes_exact:
  assumes "delete_step\<^sup>*\<^sup>* (c, replicate k NotStarted) (n, pcs)" "k \<le> c" "c < u64_mod" "\<forall>p \<in> set pcs. p = Finished"
  shows "n + length pcs = c"
proof -
  have "finished_count pcs = length pcs" using assms(4) by (simp add: finished_count_def filter_id_conv)
  then show ?thesis using delete_run_inv[OF assms(1-3)] by (simp add: delete_inv_def)
qed

theorem concurrent_deletes_exact_witness: "delete_step\<^sup>*\<^sup>* (1, [NotStarted]) (0, [Finished]) \<and> (0::nat) + 1 = 1"
proof -
  have "delete_step (1, [NotStarted]) (1, [Loaded 1])" using load[of 0 "[NotStarted]" 1] by simp
  moreover have "delete_step (1, [Loaded 1]) (0, [Finished])" using fetch_sub[of 0 "[Loaded 1]" 1 1] by (simp add: wrap64_def)
  ultimately have "delete_step\<^sup>*\<^sup>* (1, [NotStarted]) (0, [Finished])" by (meson rtranclp.simps)
  then show ?thesis using concurrent_deletes_exact[of 1 1 0 "[Finished]"] by simp
qed

text \<open>With fewer memories than threads the counter wraps: two deletes of the last memory leave \<open>2\<^sup>64 - 1\<close>.\<close>

lemma concurrent_deletes_wrap: "delete_step\<^sup>*\<^sup>* (1, [NotStarted, NotStarted]) (u64_max, [Finished, Finished])"
proof -
  have "delete_step (1, [NotStarted, NotStarted]) (1, [Loaded 1, NotStarted])"
    using load[of 0 "[NotStarted, NotStarted]" 1] by simp
  moreover have "delete_step (1, [Loaded 1, NotStarted]) (1, [Loaded 1, Loaded 1])"
    using load[of 1 "[Loaded 1, NotStarted]" 1] by simp
  moreover have "delete_step (1, [Loaded 1, Loaded 1]) (0, [Finished, Loaded 1])"
    using fetch_sub[of 0 "[Loaded 1, Loaded 1]" 1 1] by (simp add: wrap64_def)
  moreover have "delete_step (0, [Finished, Loaded 1]) (u64_max, [Finished, Finished])"
    using fetch_sub[of 1 "[Finished, Loaded 1]" 1 0] by (simp add: wrap64_def)
  ultimately show ?thesis by (blast intro: converse_rtranclp_into_rtranclp)
qed

text \<open>The byte check adds in 64 bits: an estimate near \<open>2\<^sup>64\<close> passes any limit.\<close>

lemma byte_check_wraps:
  "check_can_write sh (record_write (tracker_new (resource_limits_default\<lparr>rl_max_memory_bytes := Some 100\<rparr>)) a 50) a
     (u64_mod - 20) = Ok ()"
  by (simp add: check_can_write_ok record_write_def tracker_new_def resource_limits_default_def wrap64_def)

end
