(* ===== verification/Core_Events.thy ===== *)
theory Core_Events
  imports Core_Types Rust_Text
begin

text \<open>
  Observability: the event bus (\<open>crates/mentedb-core/src/event.rs\<close>) and the metrics with their two export
  formats (\<open>metrics.rs\<close>). A callback is the change it makes to the world it runs in; atomic counters
  wrap around at 64 bits.
\<close>

section \<open>The event bus\<close>

type_synonym SubscriberId = nat

datatype MenteEvent =
    MemoryCreated MemoryId AgentId
  | MemoryUpdated MemoryId nat
  | MemoryDeleted MemoryId
  | EdgeCreated MemoryId MemoryId EdgeType
  | BeliefChanged MemoryId f32 f32
  | SpaceCreated SpaceId
  | ContradictionDetected MemoryId MemoryId

type_synonym 'w Subscriber = "MenteEvent \<Rightarrow> 'w \<Rightarrow> 'w"

record 'w Entry =
  en_id :: SubscriberId
  en_callback :: "'w Subscriber"

record 'w EventBus =
  eb_subscribers :: "'w Entry list"
  eb_next_id :: nat

definition event_bus_new :: "'w EventBus" where
  "event_bus_new = \<lparr> eb_subscribers = [], eb_next_id = 0 \<rparr>"

definition subscribe :: "'w EventBus \<Rightarrow> 'w Subscriber \<Rightarrow> SubscriberId \<times> 'w EventBus" where
  "subscribe bus callback =
     (let i = eb_next_id bus
      in (i, bus\<lparr>eb_next_id := wrap64 (i + 1),
            eb_subscribers := eb_subscribers bus @ [\<lparr> en_id = i, en_callback = callback \<rparr>]\<rparr>))"

definition unsubscribe :: "'w EventBus \<Rightarrow> SubscriberId \<Rightarrow> 'w EventBus" where
  "unsubscribe bus i = bus\<lparr>eb_subscribers := filter (\<lambda>e. en_id e \<noteq> i) (eb_subscribers bus)\<rparr>"

definition publish :: "'w EventBus \<Rightarrow> MenteEvent \<Rightarrow> 'w \<Rightarrow> 'w" where
  "publish bus event w = fold (\<lambda>entry. en_callback entry event) (eb_subscribers bus) w"

text \<open>A run of the bus and what it answers: a subscription answers with its handle, giving a handle back with nothing.\<close>

datatype 'w BusOp = Sub "'w Subscriber" | Unsub SubscriberId

fun bus_step :: "'w EventBus \<Rightarrow> 'w BusOp \<Rightarrow> SubscriberId option \<times> 'w EventBus" where
  "bus_step bus (Sub cb) = (case subscribe bus cb of (i, bus) \<Rightarrow> (Some i, bus))"
| "bus_step bus (Unsub i) = (None, unsubscribe bus i)"

fun bus_run :: "'w EventBus \<Rightarrow> 'w BusOp list \<Rightarrow> SubscriberId option list \<times> 'w EventBus" where
  "bus_run bus [] = ([], bus)"
| "bus_run bus (op # ops) = (case bus_step bus op of (a, bus) \<Rightarrow> (case bus_run bus ops of (as, bus) \<Rightarrow> (a # as, bus)))"

text \<open>
  The specification reads the trace of operations and answers only: a subscription is live if the handle it was answered with
  is not given back afterwards.
\<close>

fun gives_back :: "SubscriberId \<Rightarrow> 'w BusOp \<Rightarrow> bool" where
  "gives_back h (Sub cb) = False"
| "gives_back h (Unsub i) = (i = h)"

fun live_subs :: "('w BusOp \<times> SubscriberId option) list \<Rightarrow> (SubscriberId \<times> 'w Subscriber) list" where
  "live_subs [] = []"
| "live_subs ((Sub cb, Some h) # trace) =
     (if list_ex (gives_back h) (map fst trace) then live_subs trace else (h, cb) # live_subs trace)"
| "live_subs (step # trace) = live_subs trace"

definition entry_pair :: "'w Entry \<Rightarrow> SubscriberId \<times> 'w Subscriber" where
  "entry_pair e = (en_id e, en_callback e)"

lemma bus_run_answers:
  assumes "bus_run bus ops = (as, bus')" "eb_next_id bus + length ops < u64_mod"
  shows "list_all2 (\<lambda>op a. a \<noteq> None \<longleftrightarrow> (\<exists>cb. op = Sub cb)) ops as"
    and "List.map_filter id as = [eb_next_id bus..<eb_next_id bus']" and "eb_next_id bus \<le> eb_next_id bus'"
proof -
  have "list_all2 (\<lambda>op a. a \<noteq> None \<longleftrightarrow> (\<exists>cb. op = Sub cb)) ops as \<and> List.map_filter id as = [eb_next_id bus..<eb_next_id bus']
      \<and> eb_next_id bus \<le> eb_next_id bus'"
    using assms
  proof (induction ops arbitrary: bus as)
    case (Cons op ops)
    obtain a b where b: "bus_step bus op = (a, b)" by fastforce
    obtain rest where rest: "bus_run b ops = (rest, bus')" "as = a # rest" using Cons.prems(1) b by (auto split: prod.splits)
    show ?case
    proof (cases op)
      case (Sub cb)
      then have "a = Some (eb_next_id bus)" "eb_next_id b = eb_next_id bus + 1"
        using b Cons.prems(2) by (auto simp: subscribe_def Let_def)
      then show ?thesis using Cons.IH[OF rest(1)] Cons.prems(2) rest(2) Sub by (auto simp: List.map_filter_simps upt_conv_Cons)
    next
      case (Unsub i)
      then show ?thesis using Cons.IH[OF rest(1)] Cons.prems(2) rest(2) b by (auto simp: unsubscribe_def List.map_filter_simps)
    qed
  qed (simp add: List.map_filter_simps)
  then show "list_all2 (\<lambda>op a. a \<noteq> None \<longleftrightarrow> (\<exists>cb. op = Sub cb)) ops as"
    "List.map_filter id as = [eb_next_id bus..<eb_next_id bus']" "eb_next_id bus \<le> eb_next_id bus'" by auto
qed

lemma bus_run_length: "bus_run bus ops = (as, bus') \<Longrightarrow> length ops = length as"
  by (induction ops arbitrary: bus as) (auto split: prod.splits)

lemma bus_run_live:
  assumes "bus_run bus ops = (as, bus')"
  shows "map entry_pair (eb_subscribers bus')
    = filter (\<lambda>s. \<not> list_ex (gives_back (fst s)) ops) (map entry_pair (eb_subscribers bus)) @ live_subs (zip ops as)"
  using assms
proof (induction ops arbitrary: bus as)
  case (Cons op ops)
  obtain a b where b: "bus_step bus op = (a, b)" by fastforce
  obtain rest where rest: "bus_run b ops = (rest, bus')" "as = a # rest" using Cons.prems b by (auto split: prod.splits)
  have len: "map fst (zip ops rest) = ops" using rest(1) bus_run_length by (metis map_fst_zip)
  show ?case
  proof (cases op)
    case (Sub cb)
    then show ?thesis using Cons.IH[OF rest(1)] rest(2) b len by (auto simp: subscribe_def entry_pair_def Let_def)
  next
    case (Unsub i)
    then have "eb_subscribers b = filter (\<lambda>e. i \<noteq> en_id e) (eb_subscribers bus)" using b by (auto simp: unsubscribe_def intro: filter_cong)
    then show ?thesis using Cons.IH[OF rest(1)] rest(2) Unsub by (simp add: filter_map entry_pair_def o_def)
  qed
qed simp

lemma publish_pairs: "publish bus event w = fold (\<lambda>s. snd s event) (map entry_pair (eb_subscribers bus)) w"
proof -
  have "fold (\<lambda>entry. en_callback entry event) es w = fold (\<lambda>s. snd s event) (map entry_pair es) w" for es
    by (induction es arbitrary: w) (simp_all add: entry_pair_def)
  then show ?thesis by (simp add: publish_def)
qed

section \<open>Metrics\<close>

record Metrics =
  mt_writes_total :: nat
  mt_reads_total :: nat
  mt_deletes_total :: nat
  mt_cache_hits :: nat
  mt_cache_misses :: nat
  mt_wal_syncs :: nat
  mt_context_assemblies :: nat
  mt_mql_queries_parsed :: nat
  mt_contradictions_detected :: nat
  mt_beliefs_propagated :: nat
  mt_speculative_hits :: nat
  mt_speculative_misses :: nat
  mt_write_latency_us_sum :: nat
  mt_write_latency_count :: nat
  mt_read_latency_us_sum :: nat
  mt_read_latency_count :: nat

record MetricsSnapshot =
  sn_writes_total :: nat
  sn_reads_total :: nat
  sn_deletes_total :: nat
  sn_cache_hit_rate :: f64
  sn_avg_write_latency_us :: f64
  sn_avg_read_latency_us :: f64
  sn_contradictions_detected :: nat
  sn_speculative_hit_rate :: f64

definition metrics_new :: Metrics where
  "metrics_new = \<lparr> mt_writes_total = 0, mt_reads_total = 0, mt_deletes_total = 0, mt_cache_hits = 0,
     mt_cache_misses = 0, mt_wal_syncs = 0, mt_context_assemblies = 0, mt_mql_queries_parsed = 0,
     mt_contradictions_detected = 0, mt_beliefs_propagated = 0, mt_speculative_hits = 0,
     mt_speculative_misses = 0, mt_write_latency_us_sum = 0, mt_write_latency_count = 0,
     mt_read_latency_us_sum = 0, mt_read_latency_count = 0 \<rparr>"

definition inc_writes :: "Metrics \<Rightarrow> Metrics" where
  "inc_writes m = m\<lparr>mt_writes_total := wrap64 (mt_writes_total m + 1)\<rparr>"

definition inc_reads :: "Metrics \<Rightarrow> Metrics" where
  "inc_reads m = m\<lparr>mt_reads_total := wrap64 (mt_reads_total m + 1)\<rparr>"

definition inc_deletes :: "Metrics \<Rightarrow> Metrics" where
  "inc_deletes m = m\<lparr>mt_deletes_total := wrap64 (mt_deletes_total m + 1)\<rparr>"

definition inc_cache_hits :: "Metrics \<Rightarrow> Metrics" where
  "inc_cache_hits m = m\<lparr>mt_cache_hits := wrap64 (mt_cache_hits m + 1)\<rparr>"

definition inc_cache_misses :: "Metrics \<Rightarrow> Metrics" where
  "inc_cache_misses m = m\<lparr>mt_cache_misses := wrap64 (mt_cache_misses m + 1)\<rparr>"

definition record_write_latency :: "Metrics \<Rightarrow> nat \<Rightarrow> Metrics" where
  "record_write_latency m us = m\<lparr>mt_write_latency_us_sum := wrap64 (mt_write_latency_us_sum m + us),
     mt_write_latency_count := wrap64 (mt_write_latency_count m + 1)\<rparr>"

definition record_read_latency :: "Metrics \<Rightarrow> nat \<Rightarrow> Metrics" where
  "record_read_latency m us = m\<lparr>mt_read_latency_us_sum := wrap64 (mt_read_latency_us_sum m + us),
     mt_read_latency_count := wrap64 (mt_read_latency_count m + 1)\<rparr>"

text \<open>\<open>a as f64 / b as f64\<close>, or 0 without samples; the totals are 64-bit sums.\<close>

definition ratio :: "nat \<Rightarrow> nat \<Rightarrow> f64" where
  "ratio a b = (if b > 0 then fl_div f64_of (f64_of (of_nat a)) (f64_of (of_nat b)) else Fin 0)"

definition snapshot :: "Metrics \<Rightarrow> MetricsSnapshot" where
  "snapshot m =
     (let cache_total = wrap64 (mt_cache_hits m + mt_cache_misses m);
          spec_total = wrap64 (mt_speculative_hits m + mt_speculative_misses m)
      in \<lparr> sn_writes_total = mt_writes_total m, sn_reads_total = mt_reads_total m,
           sn_deletes_total = mt_deletes_total m,
           sn_cache_hit_rate = ratio (mt_cache_hits m) cache_total,
           sn_avg_write_latency_us = ratio (mt_write_latency_us_sum m) (mt_write_latency_count m),
           sn_avg_read_latency_us = ratio (mt_read_latency_us_sum m) (mt_read_latency_count m),
           sn_contradictions_detected = mt_contradictions_detected m,
           sn_speculative_hit_rate = ratio (mt_speculative_hits m) spec_total \<rparr>)"

definition lf :: string where
  "lf = [CHR 0x0A]"

definition counters :: "Metrics \<Rightarrow> (string \<times> string \<times> nat) list" where
  "counters m =
     [(''mentedb_writes_total'', ''Total write operations'', mt_writes_total m),
      (''mentedb_reads_total'', ''Total read operations'', mt_reads_total m),
      (''mentedb_deletes_total'', ''Total delete operations'', mt_deletes_total m),
      (''mentedb_cache_hits_total'', ''Total cache hits'', mt_cache_hits m),
      (''mentedb_cache_misses_total'', ''Total cache misses'', mt_cache_misses m),
      (''mentedb_wal_syncs_total'', ''Total WAL sync operations'', mt_wal_syncs m),
      (''mentedb_context_assemblies_total'', ''Total context assemblies'', mt_context_assemblies m),
      (''mentedb_mql_queries_parsed_total'', ''Total MQL queries parsed'', mt_mql_queries_parsed m),
      (''mentedb_contradictions_detected_total'', ''Total contradictions detected'', mt_contradictions_detected m),
      (''mentedb_beliefs_propagated_total'', ''Total beliefs propagated'', mt_beliefs_propagated m),
      (''mentedb_speculative_hits_total'', ''Speculative cache hits'', mt_speculative_hits m),
      (''mentedb_speculative_misses_total'', ''Speculative cache misses'', mt_speculative_misses m)]"

fun counter_lines :: "string \<times> string \<times> nat \<Rightarrow> string" where
  "counter_lines (name, help, n) =
     ''# HELP '' @ name @ '' '' @ help @ lf @ ''# TYPE '' @ name @ '' counter'' @ lf @ name @ '' '' @ show_nat n @ lf"

definition latency_lines :: "string \<Rightarrow> string \<Rightarrow> nat \<Rightarrow> nat \<Rightarrow> string" where
  "latency_lines name help us n =
     ''# HELP '' @ name @ '' '' @ help @ lf @ ''# TYPE '' @ name @ '' summary'' @ lf
     @ name @ ''_sum '' @ show_nat us @ lf @ name @ ''_count '' @ show_nat n @ lf"

definition export_prometheus :: "Metrics \<Rightarrow> string" where
  "export_prometheus m = concat (map counter_lines (counters m))
     @ latency_lines ''mentedb_write_latency_us'' ''Write latency in microseconds''
         (mt_write_latency_us_sum m) (mt_write_latency_count m)
     @ latency_lines ''mentedb_read_latency_us'' ''Read latency in microseconds''
         (mt_read_latency_us_sum m) (mt_read_latency_count m)"

definition json_member :: "string \<Rightarrow> string \<Rightarrow> string" where
  "json_member key v = [CHR 0x22] @ key @ [CHR 0x22] @ '':'' @ v"

definition export_json :: "Metrics \<Rightarrow> string" where
  "export_json m = (let snap = snapshot m in
     ''{'' @ join '',''
       [json_member ''writes_total'' (show_nat (sn_writes_total snap)),
        json_member ''reads_total'' (show_nat (sn_reads_total snap)),
        json_member ''deletes_total'' (show_nat (sn_deletes_total snap)),
        json_member ''cache_hit_rate'' (show_fixed 4 (sn_cache_hit_rate snap)),
        json_member ''avg_write_latency_us'' (show_fixed 2 (sn_avg_write_latency_us snap)),
        json_member ''avg_read_latency_us'' (show_fixed 2 (sn_avg_read_latency_us snap)),
        json_member ''contradictions_detected'' (show_nat (sn_contradictions_detected snap)),
        json_member ''speculative_hit_rate'' (show_fixed 4 (sn_speculative_hit_rate snap)),
        json_member ''wal_syncs'' (show_nat (mt_wal_syncs m)),
        json_member ''context_assemblies'' (show_nat (mt_context_assemblies m)),
        json_member ''mql_queries_parsed'' (show_nat (mt_mql_queries_parsed m)),
        json_member ''beliefs_propagated'' (show_nat (mt_beliefs_propagated m))]
     @ ''}'')"

lemma ratio_unit:
  assumes "a \<le> b" "b < u64_mod"
  shows "in_unit (ratio a b)"
proof (cases "b = 0")
  case False
  have "rnd 53 (-1074) (1::rat) \<le> rnd 53 (-1074) (of_nat b)" by (rule rnd_mono) (use False in auto)
  then have pos: "0 < rnd 53 (-1074) (of_nat b)" using rnd_powi[of 53 "-1074" 0] by simp
  have "0 \<le> rnd 53 (-1074) (of_nat a)" "rnd 53 (-1074) (of_nat a) \<le> rnd 53 (-1074) (of_nat b)"
    using rnd_nonneg[of "of_nat a"] rnd_mono[of "of_nat a" "of_nat b" 53 "-1074"] assms(1) by simp_all
  then show ?thesis using False pos assms by (simp add: ratio_def f64_of_u64 f64_of_unit)
qed (simp add: ratio_def)

section \<open>Properties\<close>

text \<open>C30: An event reaches exactly the current subscribers. After any sequence of subscriptions and handles given back (fewer
  than \<open>2\<^sup>64\<close> operations), every subscription has answered with a handle, no handle was answered twice, and publishing runs,
  once each and in the order of subscription, the callbacks of those subscriptions whose own answered handle was not given
  back afterwards; giving back any other handle, an unknown one or one not answered yet, takes no subscription away.\<close>

theorem publish_reaches_subscribers:
  assumes "length ops < u64_mod" "bus_run event_bus_new ops = (answers, bus)"
  shows "list_all2 (\<lambda>op a. a \<noteq> None \<longleftrightarrow> (\<exists>cb. op = Sub cb)) ops answers
    \<and> distinct (List.map_filter id answers)
    \<and> publish bus event w = fold (\<lambda>s. snd s event) (live_subs (zip ops answers)) w"
proof -
  have "list_all2 (\<lambda>op a. a \<noteq> None \<longleftrightarrow> (\<exists>cb. op = Sub cb)) ops answers" "distinct (List.map_filter id answers)"
    using bus_run_answers[OF assms(2)] assms(1) by (simp_all add: event_bus_new_def)
  moreover have "map entry_pair (eb_subscribers bus) = live_subs (zip ops answers)"
    using bus_run_live[OF assms(2)] by (simp add: event_bus_new_def)
  ultimately show ?thesis by (simp add: publish_pairs)
qed

theorem publish_reaches_subscribers_witness:
  "case bus_run event_bus_new [Unsub 1, Sub (\<lambda>_ w. w @ [1::nat]), Sub (\<lambda>_ w. w @ [2]), Unsub 0, Sub (\<lambda>_ w. w @ [3])]
     of (answers, bus) \<Rightarrow> answers = [None, Some 0, Some 1, None, Some 2] \<and> publish bus (SpaceCreated nil_space) [] = [2, 3]"
proof -
  let ?ops = "[Unsub 1, Sub (\<lambda>_ w. w @ [1::nat]), Sub (\<lambda>_ w. w @ [2]), Unsub 0, Sub (\<lambda>_ w. w @ [3])]"
  obtain answers bus where run: "bus_run event_bus_new ?ops = (answers, bus)" by fastforce
  moreover have answers: "answers = [None, Some 0, Some 1, None, Some 2]"
    using run by (auto simp: event_bus_new_def subscribe_def unsubscribe_def Let_def split: prod.splits)
  ultimately show ?thesis
    using publish_reaches_subscribers[OF _ run, of "SpaceCreated nil_space" "[]"] by simp
qed

text \<open>The hit rates of a snapshot are numbers in the unit interval, as their comments say, when the counters'
  sums do not wrap; without any sample they are 0.\<close>

theorem snapshot_rates_unit:
  assumes "mt_cache_hits m + mt_cache_misses m < u64_mod" "mt_speculative_hits m + mt_speculative_misses m < u64_mod"
  shows "in_unit (sn_cache_hit_rate (snapshot m)) \<and> in_unit (sn_speculative_hit_rate (snapshot m))"
  using ratio_unit[of "mt_cache_hits m" "mt_cache_hits m + mt_cache_misses m"]
    ratio_unit[of "mt_speculative_hits m" "mt_speculative_hits m + mt_speculative_misses m"] assms
  by (simp add: snapshot_def Let_def)

theorem snapshot_rates_unit_witness: "in_unit (sn_cache_hit_rate (snapshot (inc_cache_hits metrics_new)))"
  using snapshot_rates_unit[of "inc_cache_hits metrics_new"] by (simp add: inc_cache_hits_def metrics_new_def)

end
