(* ===== verification/Consolidation_Cluster.thy ===== *)
theory Consolidation_Cluster
  imports Core_Types Rust_Strings
begin

text \<open>
  Consolidation of similar memories, \<open>crates/mentedb-consolidation/src/consolidation.rs\<close>: cosine
  similarity, the union-find clustering of \<open>find_candidates\<close>, and the merge of a cluster.
\<close>

section \<open>Similarity\<close>

definition cosine_similarity :: "f32 list \<Rightarrow> f32 list \<Rightarrow> f32" where
  "cosine_similarity a b =
     (if length a \<noteq> length b \<or> a = [] then Fin 0
      else let dot = foldl (\<lambda>s (x, y). fl_add f32_of s (fl_mul f32_of x y)) (Fin 0) (zip a b);
               norm_a = foldl (\<lambda>s x. fl_add f32_of s (fl_mul f32_of x x)) (Fin 0) a;
               norm_b = foldl (\<lambda>s y. fl_add f32_of s (fl_mul f32_of y y)) (Fin 0) b;
               denom = fl_mul f32_of (fl_sqrt 24 norm_a) (fl_sqrt 24 norm_b)
           in if fl_eq denom (Fin 0) then Fin 0 else fl_div f32_of dot denom)"

section \<open>Union-find\<close>

text \<open>
  \<open>find\<close> compresses the path it walks. It may run for ever on a cyclic parent array and panics
  outside of it; both are the value \<open>None\<close>.
\<close>

partial_function (option) uf_find :: "nat list \<Rightarrow> nat \<Rightarrow> (nat \<times> nat list) option" where
  "uf_find parent i =
     (if length parent \<le> i then None
      else if parent ! i \<noteq> i
        then Option.bind (uf_find parent (parent ! i)) (\<lambda>(r, parent'). Some (r, parent'[i := r]))
        else Some (i, parent))"

declare uf_find.simps [code]

definition uf_union :: "nat list \<Rightarrow> nat list \<Rightarrow> nat \<Rightarrow> nat \<Rightarrow> (nat list \<times> nat list) option" where
  "uf_union parent rank a b =
     Option.bind (uf_find parent a) (\<lambda>(ra, parent).
     Option.bind (uf_find parent b) (\<lambda>(rb, parent).
       if ra = rb then Some (parent, rank)
       else if rank ! ra < rank ! rb then Some (parent[ra := rb], rank)
       else if rank ! ra > rank ! rb then Some (parent[rb := ra], rank)
       else Some (parent[rb := ra], rank[ra := rank ! ra + 1])))"

text \<open>One pair of the double loop, the inner and the outer loop.\<close>

definition link_pair :: "MemoryNode list \<Rightarrow> f32 \<Rightarrow> nat \<Rightarrow> nat \<Rightarrow> nat list \<times> nat list \<Rightarrow> (nat list \<times> nat list) option" where
  "link_pair memories similarity_threshold i j s =
     (let sim = cosine_similarity (mn_embedding (memories ! i)) (mn_embedding (memories ! j))
      in if fl_lt similarity_threshold sim then uf_union (fst s) (snd s) i j else Some s)"

fun link_pairs :: "MemoryNode list \<Rightarrow> f32 \<Rightarrow> (nat \<times> nat) list \<Rightarrow> nat list \<times> nat list \<Rightarrow> (nat list \<times> nat list) option" where
  "link_pairs memories thr [] s = Some s"
| "link_pairs memories thr ((i, j) # ps) s = Option.bind (link_pair memories thr i j s) (link_pairs memories thr ps)"

definition all_pairs :: "nat \<Rightarrow> (nat \<times> nat) list" where
  "all_pairs n = concat (map (\<lambda>i. map (\<lambda>j. (i, j)) [i + 1..<n]) [0..<n])"

text \<open>The clusters by root, as the hash map holds them.\<close>

fun group_roots :: "nat list \<Rightarrow> nat list \<Rightarrow> (nat \<rightharpoonup> nat list) \<Rightarrow> (nat list \<times> (nat \<rightharpoonup> nat list)) option" where
  "group_roots parent [] clusters = Some (parent, clusters)"
| "group_roots parent (i # is) clusters =
     Option.bind (uf_find parent i) (\<lambda>(root, parent).
       group_roots parent is (clusters(root \<mapsto> (case clusters root of None \<Rightarrow> [] | Some c \<Rightarrow> c) @ [i])))"

record ConsolidationCandidate =
  cc_memories :: "MemoryId list"
  cc_topic :: string
  cc_avg_similarity :: f32

fun pair_sims :: "(nat \<Rightarrow> nat \<Rightarrow> f32) \<Rightarrow> nat list \<Rightarrow> f32 list" where
  "pair_sims sim [] = []"
| "pair_sims sim (i # is) = map (sim i) is @ pair_sims sim is"

definition candidate_of :: "MemoryNode list \<Rightarrow> nat list \<Rightarrow> ConsolidationCandidate" where
  "candidate_of memories indices =
     (let sims = pair_sims (\<lambda>i j. cosine_similarity (mn_embedding (memories ! i)) (mn_embedding (memories ! j))) indices;
          total_sim = foldl (fl_add f32_of) (Fin 0) sims;
          n = wrap32 (length sims)
      in \<lparr> cc_memories = map (\<lambda>i. mn_id (memories ! i)) indices,
           cc_topic = join '' '' (take 5 (split_whitespace (mn_content (memories ! hd indices)))),
           cc_avg_similarity = (if n > 0 then fl_div f32_of total_sim (f32_of (of_nat n)) else Fin 1) \<rparr>)"

text \<open>\<open>order\<close> is the iteration order of the hash map on a given set of keys.\<close>

definition find_candidates :: "(nat set \<Rightarrow> nat list) \<Rightarrow> MemoryNode list \<Rightarrow> nat \<Rightarrow> f32
    \<Rightarrow> ConsolidationCandidate list option" where
  "find_candidates order memories min_cluster_size similarity_threshold =
     (let n = length memories in
      if n = 0 then Some []
      else Option.bind (link_pairs memories similarity_threshold (all_pairs n) ([0..<n], replicate n 0)) (\<lambda>(parent, rank).
           Option.bind (group_roots parent [0..<n] Map.empty) (\<lambda>(_, clusters).
             Some (map (candidate_of memories)
               (filter (\<lambda>c. min_cluster_size \<le> length c)
                  (map (\<lambda>r. the (clusters r)) (order (dom clusters))))))))"

section \<open>Merging a cluster\<close>

record ConsolidatedMemory =
  cm_summary :: string
  cm_source_memories :: "MemoryId list"
  cm_new_type :: MemoryType
  cm_combined_confidence :: f32
  cm_combined_embedding :: Embedding

fun add_new :: "string list \<Rightarrow> string list \<Rightarrow> string list" where
  "add_new seen [] = seen"
| "add_new seen (s # ss) = add_new (if s \<noteq> [] \<and> s \<notin> set seen then seen @ [s] else seen) ss"

definition sentences_of :: "(string \<Rightarrow> string) \<Rightarrow> MemoryNode \<Rightarrow> string list" where
  "sentences_of lower m = map (\<lambda>s. lower (trim s)) (split_char (CHR ''.'') (mn_content m))"

definition mean_embedding :: "MemoryNode list \<Rightarrow> Embedding" where
  "mean_embedding cluster =
     (let d = length (mn_embedding (hd cluster));
          summed = foldl (\<lambda>acc m. if length (mn_embedding m) = d then map2 (fl_add f32_of) acc (mn_embedding m) else acc)
            (replicate d (Fin 0)) cluster;
          mean = map (\<lambda>v. fl_div f32_of v (f32_of (of_nat (length cluster)))) summed;
          norm = fl_sqrt 24 (foldl (fl_add f32_of) (Fin 0) (map (\<lambda>v. fl_mul f32_of v v) mean))
      in if fl_lt (Fin 0) norm then map (\<lambda>v. fl_div f32_of v norm) mean else mean)"

definition consolidate :: "(string \<Rightarrow> string) \<Rightarrow> MemoryNode list \<Rightarrow> ConsolidatedMemory" where
  "consolidate lower cluster =
     (if cluster = []
      then \<lparr> cm_summary = [], cm_source_memories = [], cm_new_type = Semantic,
             cm_combined_confidence = Fin 0, cm_combined_embedding = [] \<rparr>
      else \<lparr> cm_summary = join ''. '' (foldl (\<lambda>seen m. add_new seen (sentences_of lower m)) [] cluster),
             cm_source_memories = map mn_id cluster, cm_new_type = Semantic,
             cm_combined_confidence = foldl fl_max (Fin 0) (map mn_confidence cluster),
             cm_combined_embedding = mean_embedding cluster \<rparr>)"

definition should_consolidate :: "MemoryNode \<Rightarrow> Timestamp \<Rightarrow> bool" where
  "should_consolidate m current_time \<longleftrightarrow> mn_memory_type m = Episodic
     \<and> current_time - mn_created_at m > 86400000000 \<and> mn_access_count m > 2"

section \<open>Roots\<close>

text \<open>The root of an element, as a relation: acyclicity of the array is that every element has one.\<close>

inductive root_of :: "nat list \<Rightarrow> nat \<Rightarrow> nat \<Rightarrow> bool" for p where
  root: "i < length p \<Longrightarrow> p ! i = i \<Longrightarrow> root_of p i i"
| up: "i < length p \<Longrightarrow> p ! i \<noteq> i \<Longrightarrow> root_of p (p ! i) r \<Longrightarrow> root_of p i r"

inductive_cases root_ofE: "root_of p i r"

definition forest :: "nat list \<Rightarrow> bool" where
  "forest p \<longleftrightarrow> (\<forall>i < length p. \<exists>r. root_of p i r)"

lemma root_of_unique: "root_of p i r \<Longrightarrow> root_of p i s \<Longrightarrow> r = s"
proof (induction arbitrary: s rule: root_of.induct)
  case (root i)
  from root(3) show ?case by (rule root_ofE) (use root in simp_all)
next
  case (up i r)
  from up(5) have "root_of p (p ! i) s" by (rule root_ofE) (use up in simp_all)
  then show ?case by (rule up.IH)
qed

lemma root_of_range: "root_of p i r \<Longrightarrow> i < length p \<and> r < length p \<and> p ! r = r"
  by (induction rule: root_of.induct) auto

lemma root_of_root: "root_of p i r \<Longrightarrow> root_of p r r"
  using root_of_range root by blast

text \<open>Two arrays with the same roots.\<close>

definition same_roots :: "nat list \<Rightarrow> nat list \<Rightarrow> bool" where
  "same_roots p q \<longleftrightarrow> length p = length q \<and> (\<forall>i r. root_of p i r \<longleftrightarrow> root_of q i r)"

lemma same_rootsI:
  assumes "length q = length p" "forest p" "\<And>i r. root_of p i r \<Longrightarrow> root_of q i r"
  shows "same_roots p q"
  using assms root_of_unique root_of_range unfolding same_roots_def forest_def by metis

lemma compress_root:
  assumes "root_of p j s" "root_of p i r"
  shows "root_of (p[i := r]) j s"
  using assms
proof (induction rule: root_of.induct)
  case (root j)
  then show ?case
    by (cases "j = i") (auto intro!: root_of.root dest: root_of_unique[OF _ root_of.root] root_of_range)
next
  case (up j s)
  show ?case
  proof (cases "j = i")
    case True
    then have "s = r" using up root_of.up root_of_unique by blast
    have r: "r < length p" "p ! r = r" using root_of_range[OF up.prems] by auto
    have ne: "r \<noteq> i" using r True up(2) by auto
    then have rr: "root_of (p[i := r]) r r" using r by (intro root_of.root) simp_all
    show ?thesis unfolding True \<open>s = r\<close>
      by (rule root_of.up) (use True up(1) ne rr in simp_all)
  next
    case False
    show ?thesis by (rule root_of.up) (use False up in simp_all)
  qed
qed

lemma uf_find_spec:
  assumes "root_of p i r" "forest p"
  shows "\<exists>q. uf_find p i = Some (r, q) \<and> same_roots p q"
  using assms
proof (induction rule: root_of.induct)
  case (root i)
  then show ?case by (subst uf_find.simps) (auto simp: same_roots_def)
next
  case (up i r)
  then obtain q where q: "uf_find p (p ! i) = Some (r, q)" "same_roots p q" by blast
  have "root_of p i r" using up root_of.up by blast
  then have "same_roots p (q[i := r])"
    using q(2) up(5) compress_root by (intro same_rootsI) (auto simp: same_roots_def)
  then show ?case using q(1) up(1,2) by (subst uf_find.simps) auto
qed

lemma link_root:
  assumes "root_of p j s" "root_of p a a" "root_of p b b" "a \<noteq> b"
  shows "root_of (p[a := b]) j (if s = a then b else s)"
  using assms
proof (induction rule: root_of.induct)
  case (root j)
  have b: "root_of (p[a := b]) b b"
    using root_of_range[OF root.prems(2)] root.prems(3) by (intro root_of.root) auto
  show ?case
  proof (cases "j = a")
    case True
    have "root_of (p[a := b]) a b"
      by (rule root_of.up) (use b True root(1) root.prems(3) in simp_all)
    then show ?thesis using True by simp
  next
    case False
    then have "root_of (p[a := b]) j j" using root(1,2) by (intro root_of.root) simp_all
    then show ?thesis using False by simp
  qed
next
  case (up j s)
  have "j \<noteq> a" using up(2,5) root_of_range by blast
  show ?case by (rule root_of.up) (use \<open>j \<noteq> a\<close> up in simp_all)
qed

section \<open>Clusters are connected components\<close>

definition joined :: "nat \<Rightarrow> (nat \<times> nat) set \<Rightarrow> nat \<Rightarrow> nat \<Rightarrow> bool" where
  "joined n E i j \<longleftrightarrow> i < n \<and> j < n \<and> (i, j) \<in> (E \<union> E\<inverse>)\<^sup>*"

definition uf_inv :: "nat \<Rightarrow> (nat \<times> nat) set \<Rightarrow> nat list \<Rightarrow> bool" where
  "uf_inv n E p \<longleftrightarrow> length p = n \<and> forest p
     \<and> (\<forall>i j r s. root_of p i r \<longrightarrow> root_of p j s \<longrightarrow> (r = s \<longleftrightarrow> joined n E i j))"

lemma uf_inv_same_roots: "uf_inv n E p \<Longrightarrow> same_roots p q \<Longrightarrow> uf_inv n E q"
  unfolding uf_inv_def same_roots_def forest_def by metis

lemma joined_sym: "joined n E i j \<Longrightarrow> joined n E j i"
proof -
  have "sym ((E \<union> E\<inverse>)\<^sup>*)" by (intro sym_rtrancl) (auto simp: sym_def)
  then show "joined n E i j \<Longrightarrow> joined n E j i" by (auto simp: joined_def dest: symD)
qed

lemma joined_trans: "joined n E i j \<Longrightarrow> joined n E j k \<Longrightarrow> joined n E i k"
  by (auto simp: joined_def)

lemma joined_mono: "E \<subseteq> F \<Longrightarrow> joined n E i j \<Longrightarrow> joined n F i j"
  unfolding joined_def by (meson Un_mono converse_mono rtrancl_mono subsetD)

text \<open>A new edge joins exactly two components.\<close>

lemma joined_insert:
  assumes "a < n" "b < n"
  shows "joined n (insert (a, b) E) i j \<longleftrightarrow> joined n E i j
    \<or> (joined n E i a \<and> joined n E b j) \<or> (joined n E i b \<and> joined n E a j)"
proof
  assume "joined n (insert (a, b) E) i j"
  then have i: "i < n" and j: "j < n" and path: "(i, j) \<in> (insert (a, b) E \<union> (insert (a, b) E)\<inverse>)\<^sup>*"
    by (auto simp: joined_def)
  have refl: "(x, x) \<in> (E \<union> E\<inverse>)\<^sup>*" for x by simp
  have "(i, j) \<in> (E \<union> E\<inverse>)\<^sup>* \<or> ((i, a) \<in> (E \<union> E\<inverse>)\<^sup>* \<and> (b, j) \<in> (E \<union> E\<inverse>)\<^sup>*)
      \<or> ((i, b) \<in> (E \<union> E\<inverse>)\<^sup>* \<and> (a, j) \<in> (E \<union> E\<inverse>)\<^sup>*)"
    using path
  proof (induction rule: rtrancl_induct)
    case (step y z)
    then consider "(y, z) \<in> E \<union> E\<inverse>" | "y = a" "z = b" | "y = b" "z = a" by auto
    then show ?case
    proof cases
      case 1
      then show ?thesis using step.IH by (meson rtrancl.rtrancl_into_rtrancl)
    next
      case 2
      then show ?thesis using step.IH refl by (metis rtrancl_trans)
    next
      case 3
      then show ?thesis using step.IH refl by (metis rtrancl_trans)
    qed
  qed simp
  then show "joined n E i j \<or> (joined n E i a \<and> joined n E b j) \<or> (joined n E i b \<and> joined n E a j)"
    using i j assms by (auto simp: joined_def)
next
  have ab: "joined n (insert (a, b) E) a b" using assms by (auto simp: joined_def)
  assume "joined n E i j \<or> (joined n E i a \<and> joined n E b j) \<or> (joined n E i b \<and> joined n E a j)"
  then show "joined n (insert (a, b) E) i j"
    using ab joined_sym[OF ab] joined_mono[of E "insert (a, b) E"] joined_trans by (meson subset_insertI)
qed

text \<open>The steps of the algorithm keep the invariant.\<close>

lemma uf_inv_link:
  assumes inv: "uf_inv n E p" and "root_of p a x" "root_of p b y" "x \<noteq> y"
  shows "uf_inv n (insert (a, b) E) (p[x := y])"
proof -
  have len: "length p = n" and fp: "forest p"
    and rel: "\<And>i j r s. root_of p i r \<Longrightarrow> root_of p j s \<Longrightarrow> r = s \<longleftrightarrow> joined n E i j"
    using inv unfolding uf_inv_def by blast+
  have ab: "a < n" "b < n" using root_of_range assms(2,3) len by blast+
  define f where "f r = (if r = x then y else r)" for r
  have new: "root_of (p[x := y]) i (f r)" if "root_of p i r" for i r
    unfolding f_def using link_root[OF that root_of_root[OF assms(2)] root_of_root[OF assms(3)] assms(4)] .
  have "r' = s' \<longleftrightarrow> joined n (insert (a, b) E) i j"
    if r': "root_of (p[x := y]) i r'" and s': "root_of (p[x := y]) j s'" for i j r' s'
  proof -
    have "i < length p" "j < length p" using root_of_range[OF r'] root_of_range[OF s'] by auto
    then obtain r s where rs: "root_of p i r" "root_of p j s" using fp unfolding forest_def by blast
    then have eq: "r' = f r" "s' = f s" using new root_of_unique r' s' by blast+
    have "f r = f s \<longleftrightarrow> r = s \<or> (r = x \<and> s = y) \<or> (r = y \<and> s = x)" by (auto simp: f_def assms(4))
    also have "\<dots> \<longleftrightarrow> joined n E i j \<or> (joined n E i a \<and> joined n E b j) \<or> (joined n E i b \<and> joined n E a j)"
      using rel[OF rs] rel[OF rs(1) assms(2)] rel[OF assms(3) rs(2)] rel[OF rs(1) assms(3)] rel[OF assms(2) rs(2)] by auto
    finally show ?thesis using eq joined_insert[OF ab] by simp
  qed
  moreover have "forest (p[x := y])" using fp new unfolding forest_def by (metis length_list_update)
  ultimately show ?thesis using len by (simp add: uf_inv_def)
qed

lemma uf_inv_redundant:
  assumes "uf_inv n E p" "root_of p a x" "root_of p b x"
  shows "uf_inv n (insert (a, b) E) p"
proof -
  have ab: "joined n E a b" "a < n" "b < n"
    using assms root_of_range[OF assms(2)] root_of_range[OF assms(3)] by (auto simp: uf_inv_def)
  have "joined n (insert (a, b) E) i j \<longleftrightarrow> joined n E i j" for i j
    unfolding joined_insert[OF ab(2,3)] using ab(1) joined_sym joined_trans by meson
  then show ?thesis using assms(1) by (simp add: uf_inv_def)
qed

lemma uf_inv_swap: "uf_inv n (insert (a, b) E) p \<longleftrightarrow> uf_inv n (insert (b, a) E) p"
proof -
  have "insert (a, b) E \<union> (insert (a, b) E)\<inverse> = insert (b, a) E \<union> (insert (b, a) E)\<inverse>" by auto
  then show ?thesis by (simp add: uf_inv_def joined_def)
qed

lemma uf_union_spec:
  assumes inv: "uf_inv n E p" and "a < n" "b < n"
  shows "\<exists>q rk'. uf_union p rk a b = Some (q, rk') \<and> uf_inv n (insert (a, b) E) q"
proof -
  have fp: "forest p" "length p = n" using inv by (simp_all add: uf_inv_def)
  then obtain x y where x: "root_of p a x" and y: "root_of p b y" using assms(2,3) unfolding forest_def by blast
  obtain q where q: "uf_find p a = Some (x, q)" "same_roots p q" using uf_find_spec[OF x fp(1)] by blast
  have invq: "uf_inv n E q" using uf_inv_same_roots[OF inv q(2)] .
  have "root_of q b y" "forest q" using q(2) y invq by (simp_all add: same_roots_def uf_inv_def)
  then obtain q' where q': "uf_find q b = Some (y, q')" "same_roots q q'" using uf_find_spec by blast
  have inv': "uf_inv n E q'" using uf_inv_same_roots[OF invq q'(2)] .
  have xy: "root_of q' a x" "root_of q' b y" using x y q(2) q'(2) by (simp_all add: same_roots_def)
  show ?thesis
  proof (cases "x = y")
    case True
    then show ?thesis using q(1) q'(1) uf_inv_redundant[OF inv'] xy by (simp add: uf_union_def)
  next
    case False
    have "uf_inv n (insert (a, b) E) (q'[x := y])" "uf_inv n (insert (a, b) E) (q'[y := x])"
      using uf_inv_link[OF inv' xy False] uf_inv_link[OF inv' xy(2,1)] False uf_inv_swap by auto
    then show ?thesis using q(1) q'(1) False by (auto simp: uf_union_def)
  qed
qed

definition similar_pairs :: "MemoryNode list \<Rightarrow> f32 \<Rightarrow> (nat \<times> nat) set" where
  "similar_pairs ms thr = {(i, j). i < j \<and> j < length ms
     \<and> fl_lt thr (cosine_similarity (mn_embedding (ms ! i)) (mn_embedding (ms ! j)))}"

lemma link_pairs_spec:
  assumes "uf_inv n E (fst s)" "\<forall>(i, j) \<in> set ps. i < n \<and> j < n"
  shows "\<exists>s'. link_pairs ms thr ps s = Some s' \<and> uf_inv n (E \<union> {(i, j) \<in> set ps.
    fl_lt thr (cosine_similarity (mn_embedding (ms ! i)) (mn_embedding (ms ! j)))}) (fst s')"
  using assms
proof (induction ps arbitrary: s E)
  case (Cons x ps)
  obtain i j where x: "x = (i, j)" by fastforce
  let ?sim = "\<lambda>i j. fl_lt thr (cosine_similarity (mn_embedding (ms ! i)) (mn_embedding (ms ! j)))"
  let ?E = "if ?sim i j then insert (i, j) E else E"
  have ij: "i < n" "j < n" using Cons.prems(2) x by simp_all
  have "\<exists>s1. link_pair ms thr i j s = Some s1 \<and> uf_inv n ?E (fst s1)"
  proof (cases "?sim i j")
    case True
    then show ?thesis using uf_union_spec[OF Cons.prems(1) ij, of "snd s"] by (auto simp: link_pair_def Let_def)
  next
    case False
    then show ?thesis using Cons.prems(1) by (simp add: link_pair_def Let_def)
  qed
  then obtain s1 where s1: "link_pair ms thr i j s = Some s1" "uf_inv n ?E (fst s1)" by blast
  have "?E \<union> {(i, j) \<in> set ps. ?sim i j} = E \<union> {(i, j) \<in> set (x # ps). ?sim i j}" by (auto simp: x)
  then show ?case using Cons.IH[OF s1(2)] s1(1) Cons.prems(2) x by simp
qed simp

lemma set_all_pairs: "set (all_pairs n) = {(i, j). i < j \<and> j < n}"
  by (force simp: all_pairs_def)

lemma uf_inv_start: "uf_inv n {} [0..<n]"
proof -
  have "root_of [0..<n] i i" if "i < n" for i using that by (intro root_of.root) simp_all
  then have r: "root_of [0..<n] i r \<longleftrightarrow> i < n \<and> r = i" for i r
    using root_of_unique root_of_range by (metis length_upt diff_zero)
  show ?thesis by (auto simp: uf_inv_def forest_def r joined_def)
qed

text \<open>The component of an element, in increasing order, is what the grouping collects under its root.\<close>

lemma group_roots_spec:
  assumes "uf_inv n E p" "\<forall>i \<in> set xs. i < n"
  shows "\<exists>q. group_roots p xs cl = Some (q, \<lambda>r. if \<exists>i \<in> set xs. root_of p i r
      then Some ((case cl r of None \<Rightarrow> [] | Some c \<Rightarrow> c) @ filter (\<lambda>i. root_of p i r) xs) else cl r)"
  using assms
proof (induction xs arbitrary: p cl)
  case (Cons i xs)
  have fp: "forest p" "length p = n" using Cons.prems(1) by (simp_all add: uf_inv_def)
  then obtain x where x: "root_of p i x" using Cons.prems(2) unfolding forest_def by (metis list.set_intros(1))
  obtain q where q: "uf_find p i = Some (x, q)" "same_roots p q" using uf_find_spec[OF x fp(1)] by blast
  have ro: "root_of q = root_of p" using q(2) by (simp add: same_roots_def fun_eq_iff)
  let ?cl = "cl(x \<mapsto> (case cl x of None \<Rightarrow> [] | Some c \<Rightarrow> c) @ [i])"
  have IH: "\<exists>q'. group_roots q xs ?cl = Some (q', \<lambda>r. if \<exists>i \<in> set xs. root_of q i r
      then Some ((case ?cl r of None \<Rightarrow> [] | Some c \<Rightarrow> c) @ filter (\<lambda>i. root_of q i r) xs) else ?cl r)"
    using Cons.IH[OF uf_inv_same_roots[OF Cons.prems(1) q(2)]] Cons.prems(2) by simp
  have "root_of p i r \<longleftrightarrow> r = x" for r using x root_of_unique by blast
  then have "(\<lambda>r. if \<exists>i \<in> set xs. root_of q i r
        then Some ((case ?cl r of None \<Rightarrow> [] | Some c \<Rightarrow> c) @ filter (\<lambda>i. root_of q i r) xs) else ?cl r)
    = (\<lambda>r. if \<exists>i \<in> set (i # xs). root_of p i r
        then Some ((case cl r of None \<Rightarrow> [] | Some c \<Rightarrow> c) @ filter (\<lambda>i. root_of p i r) (i # xs)) else cl r)"
    by (auto simp: ro fun_eq_iff filter_empty_conv)
  then show ?case using IH q(1) by simp
qed simp

section \<open>Properties\<close>

definition cluster_of :: "MemoryNode list \<Rightarrow> f32 \<Rightarrow> nat \<Rightarrow> nat list" where
  "cluster_of ms thr i = filter (joined (length ms) (similar_pairs ms thr) i) [0..<length ms]"

lemma clusters_components:
  assumes inv: "uf_inv (length ms) (similar_pairs ms thr) p"
  defines "cl \<equiv> \<lambda>r. if \<exists>i \<in> set [0..<length ms]. root_of p i r then Some (filter (\<lambda>i. root_of p i r) [0..<length ms]) else None"
  shows "cl ` dom cl = Some ` cluster_of ms thr ` {0..<length ms}" "inj_on (\<lambda>r. the (cl r)) (dom cl)"
proof -
  let ?n = "length ms"
  have len: "length p = ?n" and fp: "forest p" using inv by (simp_all add: uf_inv_def)
  have comp: "cl r = Some (cluster_of ms thr i)" if r: "root_of p i r" for i r
  proof -
    have "i < ?n" using root_of_range[OF r] len by simp
    moreover have "root_of p j r \<longleftrightarrow> joined ?n (similar_pairs ms thr) i j" if j: "j < ?n" for j
    proof -
      obtain s where s: "root_of p j s" using fp len j unfolding forest_def by metis
      then show ?thesis using inv r root_of_unique[OF s] unfolding uf_inv_def by blast
    qed
    ultimately show ?thesis using r by (auto simp: cl_def cluster_of_def intro!: filter_cong)
  qed
  have dom: "r \<in> dom cl \<longleftrightarrow> (\<exists>i < ?n. root_of p i r)" for r by (auto simp: cl_def dom_def)
  show "cl ` dom cl = Some ` cluster_of ms thr ` {0..<?n}"
  proof (intro equalityI subsetI)
    fix c assume "c \<in> cl ` dom cl"
    then obtain r i where "c = cl r" "i < ?n" "root_of p i r" using dom by blast
    then show "c \<in> Some ` cluster_of ms thr ` {0..<?n}" using comp by auto
  next
    fix c assume "c \<in> Some ` cluster_of ms thr ` {0..<?n}"
    then obtain i where i: "i < ?n" "c = Some (cluster_of ms thr i)" by auto
    then obtain r where "root_of p i r" using fp len unfolding forest_def by metis
    then show "c \<in> cl ` dom cl" using comp i dom by (intro image_eqI[of _ _ r]) auto
  qed
  show "inj_on (\<lambda>r. the (cl r)) (dom cl)"
  proof (rule inj_onI)
    fix r s assume r: "r \<in> dom cl" and s: "s \<in> dom cl" and eq: "the (cl r) = the (cl s)"
    obtain i where i: "i < ?n" "root_of p i r" using r dom by blast
    then have "i \<in> set (the (cl r))" by (auto simp: cl_def)
    then have "i \<in> set (the (cl s))" using eq by simp
    then have "root_of p i s" using s by (auto simp: cl_def split: if_splits)
    then show "r = s" using i(2) root_of_unique by blast
  qed
qed

lemma link_all_spec:
  "\<exists>s. link_pairs ms thr (all_pairs (length ms)) ([0..<length ms], replicate (length ms) 0) = Some s
     \<and> uf_inv (length ms) (similar_pairs ms thr) (fst s)"
proof -
  let ?n = "length ms"
  have ps: "\<forall>(i, j) \<in> set (all_pairs ?n). i < ?n \<and> j < ?n" by (auto simp: set_all_pairs)
  have start: "uf_inv ?n {} (fst ([0..<?n], replicate ?n 0))" by (simp add: uf_inv_start)
  have "{} \<union> {(i, j) \<in> set (all_pairs ?n). fl_lt thr (cosine_similarity (mn_embedding (ms ! i)) (mn_embedding (ms ! j)))}
    = similar_pairs ms thr" by (auto simp: set_all_pairs similar_pairs_def)
  then show ?thesis using link_pairs_spec[OF start ps, of ms thr] by simp
qed

text \<open>C10: Clustering returns, whatever the iteration order of the hash map, exactly the connected components of the
  similarity graph that have the minimum size, each once and with its members in input order: the union-find loops end on
  every input, and path compression and ranks do not change the result.\<close>

theorem find_candidates_components:
  assumes "\<forall>K. finite K \<longrightarrow> distinct (order K) \<and> set (order K) = K"
  shows "\<exists>cs. find_candidates order ms k thr = Some (map (candidate_of ms) cs) \<and> distinct cs
    \<and> set cs = {cluster_of ms thr i | i. i < length ms \<and> k \<le> length (cluster_of ms thr i)}"
proof (cases "ms = []")
  case True
  then show ?thesis by (intro exI[of _ "[]"]) (simp add: find_candidates_def)
next
  case False
  let ?n = "length ms"
  obtain s where link: "link_pairs ms thr (all_pairs ?n) ([0..<?n], replicate ?n 0) = Some s"
    and inv: "uf_inv ?n (similar_pairs ms thr) (fst s)" using link_all_spec by blast
  define cl where "cl = (\<lambda>r. if \<exists>i \<in> set [0..<?n]. root_of (fst s) i r
    then Some (filter (\<lambda>i. root_of (fst s) i r) [0..<?n]) else None)"
  have "\<forall>i \<in> set [0..<?n]. i < ?n" by simp
  then obtain q where "group_roots (fst s) [0..<?n] Map.empty = Some (q, \<lambda>r. if \<exists>i \<in> set [0..<?n]. root_of (fst s) i r
      then Some ((case None of None \<Rightarrow> [] | Some c \<Rightarrow> c) @ filter (\<lambda>i. root_of (fst s) i r) [0..<?n]) else None)"
    using group_roots_spec[OF inv] by blast
  then have grp: "group_roots (fst s) [0..<?n] Map.empty = Some (q, cl)" by (simp add: cl_def cong: if_cong)
  have "r < ?n" if r: "r \<in> dom cl" for r
  proof -
    obtain i where "root_of (fst s) i r" using r by (auto simp: cl_def dom_def split: if_splits)
    then show ?thesis using root_of_range inv unfolding uf_inv_def by metis
  qed
  then have "finite (dom cl)" by (intro finite_subset[of "dom cl" "{..<?n}"]) auto
  then have ord: "distinct (order (dom cl))" "set (order (dom cl)) = dom cl" using assms by simp_all
  have C: "cl ` dom cl = Some ` cluster_of ms thr ` {0..<?n}" "inj_on (\<lambda>r. the (cl r)) (dom cl)"
    unfolding cl_def by (rule clusters_components[OF inv])+
  let ?cs = "map (\<lambda>r. the (cl r)) (order (dom cl))"
  have "set ?cs = cluster_of ms thr ` {0..<?n}"
  proof -
    have "set ?cs = the ` (cl ` dom cl)" using ord(2) by (simp add: image_image)
    then show ?thesis unfolding C(1) by (simp add: image_image)
  qed
  moreover have "distinct ?cs" using ord C(2) by (simp add: distinct_map)
  ultimately show ?thesis
    using False link grp
    by (intro exI[of _ "filter (\<lambda>c. k \<le> length c) ?cs"])
      (auto simp: find_candidates_def Let_def case_prod_unfold)
qed

definition sample_node :: MemoryNode where
  "sample_node = memory_node_new (MemoryId 1) 0 (AgentId 1) Episodic ''x'' [Fin 1]"

theorem find_candidates_components_witness:
  "find_candidates sorted_list_of_set [sample_node] 1 (Fin 0) = Some [candidate_of [sample_node] [0]]"
proof -
  have comp: "cluster_of [sample_node] (Fin 0) i = [0]" if "i < 1" for i
    using that by (simp add: cluster_of_def joined_def)
  obtain cs where cs: "find_candidates sorted_list_of_set [sample_node] 1 (Fin 0) = Some (map (candidate_of [sample_node]) cs)"
    "distinct cs" "set cs = {cluster_of [sample_node] (Fin 0) i | i. i < length [sample_node] \<and> 1 \<le> length (cluster_of [sample_node] (Fin 0) i)}"
    using find_candidates_components[of sorted_list_of_set "[sample_node]" 1 "Fin 0"] by auto
  have "set cs = {[0]}" using cs(3) comp by auto
  then have "cs = [[0]]" using cs(2) by (metis distinct_singleton list.set(1) list.simps(15) set_eq_iff_mset_eq_distinct
      mset_single_iff_right mset.simps(1,2))
  then show ?thesis using cs(1) by simp
qed

end
