(* ===== verification/Consolidation_Life.thy ===== *)
theory Consolidation_Life
  imports Core_Types Rust_Text
begin

text \<open>
  The life of a memory, \<open>crates/mentedb-consolidation\<close>: salience decay (\<open>src/decay.rs\<close>), archival
  decisions (\<open>src/archival.rs\<close>) and the right to be forgotten (\<open>src/forget.rs\<close>). The platform's
  \<open>exp2\<close> and \<open>ln\<close>, whose precision the language leaves open, are arguments.
\<close>

section \<open>Decay\<close>

record DecayConfig =
  dc_half_life_us :: nat
  dc_min_salience :: f32
  dc_access_boost :: f32
  dc_max_salience :: f32

definition decay_config_default :: DecayConfig where
  "decay_config_default = \<lparr> dc_half_life_us = 7 * 24 * 3600 * 1000000, dc_min_salience = f32_of (1/100),
     dc_access_boost = f32_of (1/10), dc_max_salience = Fin 1 \<rparr>"

text \<open>\<open>as f32\<close> of a double.\<close>

fun as_f32 :: "f64 \<Rightarrow> f32" where
  "as_f32 (Fin a) = f32_of a"
| "as_f32 x = x"

definition compute_decay :: "(f64 \<Rightarrow> f64) \<Rightarrow> (f64 \<Rightarrow> f64) \<Rightarrow> DecayConfig \<Rightarrow> f32 \<Rightarrow> Timestamp \<Rightarrow> Timestamp \<Rightarrow> nat \<Rightarrow> Timestamp
    \<Rightarrow> f32 MenteResult" where
  "compute_decay exp2 logn cfg original_salience created_at accessed_at access_count now =
     (let time_since_access = f64_of (of_nat (now - accessed_at));
          half_life = f64_of (of_nat (dc_half_life_us cfg));
          decay_factor = as_f32 (exp2 (fl_div f64_of (fl_neg time_since_access) half_life));
          access_bonus = fl_mul f32_of (dc_access_boost cfg)
            (as_f32 (logn (fl_add f64_of (Fin 1) (f64_of (of_nat access_count)))));
          result = fl_add f32_of (fl_mul f32_of original_salience decay_factor) access_bonus
      in fl_clamp (dc_min_salience cfg) (dc_max_salience cfg) result)"

fun apply_decay_batch :: "(f64 \<Rightarrow> f64) \<Rightarrow> (f64 \<Rightarrow> f64) \<Rightarrow> DecayConfig \<Rightarrow> MemoryNode list \<Rightarrow> Timestamp
    \<Rightarrow> MemoryNode list MenteResult" where
  "apply_decay_batch exp2 logn cfg [] now = Ok []"
| "apply_decay_batch exp2 logn cfg (m # ms) now =
     bindO (compute_decay exp2 logn cfg (mn_salience m) (mn_created_at m) (mn_accessed_at m) (mn_access_count m) now) (\<lambda>s.
     bindO (apply_decay_batch exp2 logn cfg ms now) (\<lambda>ms'. Ok (m\<lparr>mn_salience := s\<rparr> # ms')))"

definition needs_archival :: "MemoryNode \<Rightarrow> f32 \<Rightarrow> bool" where
  "needs_archival m threshold = fl_lt (mn_salience m) threshold"

section \<open>Archival\<close>

datatype ArchivalDecision = Keep | Archive | Delete | Consolidate "MemoryId list"

record ArchivalConfig =
  ac_min_age_us :: nat
  ac_max_salience :: f32
  ac_min_access_count :: nat

definition archival_config_default :: ArchivalConfig where
  "archival_config_default = \<lparr> ac_min_age_us = 7 * 24 * 3600 * 1000000, ac_max_salience = f32_of (1/10),
     ac_min_access_count = 2 \<rparr>"

definition THIRTY_DAYS_US :: nat where
  "THIRTY_DAYS_US = 30 * 24 * 3600 * 1000000"

definition SEVEN_DAYS_US :: nat where
  "SEVEN_DAYS_US = 7 * 24 * 3600 * 1000000"

text \<open>The pipeline's configuration is an argument of the method that its body never reads.\<close>

definition evaluate :: "ArchivalConfig \<Rightarrow> MemoryNode \<Rightarrow> Timestamp \<Rightarrow> ArchivalDecision" where
  "evaluate cfg memory now =
     (let age = now - mn_created_at memory in
      if fl_lt (mn_salience memory) (f32_of (5/100)) \<and> age > THIRTY_DAYS_US \<and> mn_access_count memory < 2 then Delete
      else if fl_lt (mn_salience memory) (f32_of (1/10)) \<and> age > SEVEN_DAYS_US then Archive
      else Keep)"

definition evaluate_batch :: "ArchivalConfig \<Rightarrow> MemoryNode list \<Rightarrow> Timestamp \<Rightarrow> (MemoryId \<times> ArchivalDecision) list" where
  "evaluate_batch cfg memories now = map (\<lambda>m. (mn_id m, evaluate cfg m now)) memories"

section \<open>Forgetting\<close>

record ForgetRequest =
  fr_agent_id :: "AgentId option"
  fr_space_id :: "SpaceId option"
  fr_memory_ids :: "MemoryId list"
  fr_reason :: string
  fr_requested_at :: Timestamp

record ForgetResult =
  fo_deleted_memories :: nat
  fo_deleted_edges :: nat
  fo_deleted_facts :: nat
  fo_audit_log_entry :: string

text \<open>The set built by the three loops.\<close>

definition insert_where :: "(MemoryNode \<Rightarrow> bool) \<Rightarrow> MemoryNode list \<Rightarrow> MemoryId set \<Rightarrow> MemoryId set" where
  "insert_where P ms S = fold (\<lambda>m S. if P m then insert (mn_id m) S else S) ms S"

definition to_delete :: "ForgetRequest \<Rightarrow> MemoryNode list \<Rightarrow> MemoryId set" where
  "to_delete request all_memories =
     (let S = fold insert (fr_memory_ids request) {};
          S = (case fr_agent_id request of None \<Rightarrow> S
               | Some agent_id \<Rightarrow> insert_where (\<lambda>m. mn_agent_id m = agent_id) all_memories S)
      in case fr_space_id request of None \<Rightarrow> S
         | Some space_id \<Rightarrow> insert_where (\<lambda>m. mn_space_id m = space_id) all_memories S)"

text \<open>\<open>show_agent\<close> and \<open>show_space\<close> are the identifiers' \<open>Display\<close>, of the uuid crate.\<close>

definition nl :: string where
  "nl = [CHR 0x0A]"

definition generate_audit_log :: "(AgentId \<Rightarrow> string) \<Rightarrow> (SpaceId \<Rightarrow> string) \<Rightarrow> ForgetRequest \<Rightarrow> ForgetResult \<Rightarrow> string" where
  "generate_audit_log show_agent show_space request result =
     ''FORGET REQUEST at timestamp '' @ show_nat (fr_requested_at request) @ nl
     @ ''Reason: '' @ fr_reason request @ nl
     @ (case fr_agent_id request of None \<Rightarrow> [] | Some a \<Rightarrow> ''Agent: '' @ show_agent a @ nl)
     @ (case fr_space_id request of None \<Rightarrow> [] | Some s \<Rightarrow> ''Space: '' @ show_space s @ nl)
     @ (if fr_memory_ids request = [] then [] else ''Specific IDs: '' @ show_nat (length (fr_memory_ids request)) @ nl)
     @ ''Result: '' @ show_nat (fo_deleted_memories result) @ '' memories, '' @ show_nat (fo_deleted_edges result)
     @ '' edges, '' @ show_nat (fo_deleted_facts result) @ '' facts deleted'' @ nl"

definition plan_forget :: "(AgentId \<Rightarrow> string) \<Rightarrow> (SpaceId \<Rightarrow> string) \<Rightarrow> ForgetRequest \<Rightarrow> MemoryNode list
    \<Rightarrow> (MemoryId \<times> MemoryId) list \<Rightarrow> ForgetResult" where
  "plan_forget show_agent show_space request all_memories all_edges =
     (let doomed = to_delete request all_memories;
          deleted_edges = length (filter (\<lambda>(src, tgt). src \<in> doomed \<or> tgt \<in> doomed) all_edges);
          r = \<lparr> fo_deleted_memories = card doomed, fo_deleted_edges = deleted_edges,
                fo_deleted_facts = card doomed, fo_audit_log_entry = [] \<rparr>
      in r\<lparr>fo_audit_log_entry := generate_audit_log show_agent show_space request r\<rparr>)"

section \<open>Facts\<close>

lemma insert_where_eq: "insert_where P ms S = S \<union> mn_id ` {m \<in> set ms. P m}"
  unfolding insert_where_def by (induction ms arbitrary: S) auto

lemma to_delete_eq:
  "to_delete r ms = set (fr_memory_ids r)
     \<union> mn_id ` {m \<in> set ms. fr_agent_id r = Some (mn_agent_id m) \<or> fr_space_id r = Some (mn_space_id m)}"
proof -
  have "fold insert xs {} = set xs" for xs :: "MemoryId list" by (simp flip: union_set_fold)
  then show ?thesis by (auto simp: to_delete_def Let_def insert_where_eq split: option.splits)
qed

text \<open>The laws of the mathematical functions that the bounds rest on.\<close>

definition exp2_law :: "(f64 \<Rightarrow> f64) \<Rightarrow> bool" where
  "exp2_law exp2 \<longleftrightarrow> (\<forall>a \<le> 0. in_unit (exp2 (Fin a)))"

definition ln_law :: "(f64 \<Rightarrow> f64) \<Rightarrow> bool" where
  "ln_law logn \<longleftrightarrow> (\<forall>a \<ge> 1. \<exists>r. logn (Fin a) = Fin r \<and> 0 \<le> r \<and> r \<le> a)"

definition decay_ok :: "DecayConfig \<Rightarrow> bool" where
  "decay_ok cfg \<longleftrightarrow> 0 < dc_half_life_us cfg \<and> dc_half_life_us cfg < u64_mod \<and> in_unit (dc_access_boost cfg)
     \<and> in_unit (dc_min_salience cfg) \<and> in_unit (dc_max_salience cfg) \<and> fl_le (dc_min_salience cfg) (dc_max_salience cfg)"

lemma f64_nat_bounds:
  assumes "n < u64_mod"
  shows "\<exists>r. f64_of (of_nat n) = Fin r \<and> 0 \<le> r \<and> r \<le> 2 powi 64 \<and> (0 < n \<longrightarrow> 1 \<le> r)"
proof -
  have "rnd 53 (-1074) 1 = 1" using rnd_powi[of 53 "-1074" 0] by simp
  then have "0 < n \<longrightarrow> 1 \<le> rnd 53 (-1074) (of_nat n)" using rnd_mono[of 1 "of_nat n" 53 "-1074"] by auto
  then show ?thesis using f64_of_u64[OF assms] rnd_nonneg[of "of_nat n" 53 "-1074"] by simp
qed

lemma in_unit_as_f32: "in_unit x \<Longrightarrow> in_unit (as_f32 x)"
  by (cases x) (simp_all add: f32_of_unit)

lemma fl_clamp_between:
  assumes "x \<noteq> NaN" "fl_le lo hi"
  shows "\<exists>v. fl_clamp lo hi x = Ok v \<and> fl_le lo v \<and> fl_le v hi"
proof -
  have n: "lo \<noteq> NaN" "hi \<noteq> NaN" using fl_le_not_NaN[OF assms(2)] by simp_all
  have "fl_le y y" if "y \<noteq> NaN" for y using that by (cases y) (auto simp: fl_le_def)
  then show ?thesis using assms n fl_not_lt[of x lo] fl_not_lt[of hi x] by (auto simp: fl_clamp_def)
qed

lemma decay_bonus:
  assumes "ln_law logn" "in_unit b" "c < u32_mod"
  shows "\<exists>v. fl_mul f32_of b (as_f32 (logn (fl_add f64_of (Fin 1) (f64_of (of_nat c))))) = Fin v"
proof -
  obtain r where r: "f64_of (of_nat c) = Fin r" "0 \<le> r" "r \<le> 2 powi 64" using f64_nat_bounds[of c] assms(3) by auto
  obtain q where q: "f64_of (1 + r) = Fin q" "\<bar>q\<bar> \<le> 2 powi 65" using f64_of_bounded[of "1 + r" 65] r(2,3) by auto
  have "1 \<le> q"
  proof -
    have "rnd 53 (-1074) 1 \<le> rnd 53 (-1074) (1 + r)" using r(2) by (intro rnd_mono) auto
    then show ?thesis using q(1) rnd_powi[of 53 "-1074" 0] by (auto simp: f64_of_def to_fl_def Let_def split: if_splits)
  qed
  then obtain l where l: "logn (Fin q) = Fin l" "0 \<le> l" "l \<le> q" using assms(1) unfolding ln_law_def by blast
  have "\<bar>l\<bar> \<le> 2 powi 65" using l(2,3) q(2) by linarith
  then obtain m where m: "f32_of l = Fin m" "\<bar>m\<bar> \<le> 2 powi 65" using f32_of_bounded[of l 65] by auto
  obtain a where a: "b = Fin a" "0 \<le> a" "a \<le> 1" using assms(2) by (auto simp: in_unit_iff)
  have "\<bar>a * m\<bar> \<le> 2 powi 65" using a m(2) mult_mono[of "\<bar>a\<bar>" 1 "\<bar>m\<bar>" "2 powi 65"] by (simp add: abs_mult)
  then show ?thesis using f32_of_bounded[of "a * m" 65] r q l m a by auto
qed

lemma compute_decay_bounds:
  assumes "exp2_law exp2" "ln_law logn" "decay_ok cfg" "in_unit s" "c < u32_mod" "now < u64_mod"
  shows "\<exists>v. compute_decay exp2 logn cfg s cr ac c now = Ok v \<and> fl_le (dc_min_salience cfg) v \<and> fl_le v (dc_max_salience cfg)"
proof -
  have age: "now - ac < u64_mod" using assms(6) by linarith
  obtain t where t: "f64_of (of_nat (now - ac)) = Fin t" "0 \<le> t" using f64_nat_bounds[OF age] by auto
  obtain h where h: "f64_of (of_nat (dc_half_life_us cfg)) = Fin h" "1 \<le> h"
    using f64_nat_bounds[of "dc_half_life_us cfg"] assms(3) by (auto simp: decay_ok_def)
  let ?q = "fl_div f64_of (fl_neg (Fin t)) (Fin h)"
  have neg: "- t / h \<le> 0" using t(2) h(2) by (simp add: divide_nonpos_pos)
  have "\<exists>a. (?q = Fin a \<and> a \<le> 0)"
  proof -
    have "\<bar>t / h\<bar> \<le> t" using t(2) h(2) by (simp add: divide_le_eq mult_le_cancel_left1)
    moreover have "t \<le> 2 powi 64" using f64_nat_bounds[OF age] t(1) by auto
    ultimately have "\<bar>- t / h\<bar> \<le> 2 powi 64" by simp
    from to_fl_bounded[OF this, of 53 "-1074" 1024] have "f64_of (- t / h) = Fin (rnd 53 (-1074) (- t / h))"
      by (simp add: f64_of_def)
    moreover have "rnd 53 (-1074) (- t / h) \<le> 0" using rnd_nonneg[of "t / h" 53 "-1074"] t(2) h(2) rnd_minus[of 53 "-1074" "t / h"] by simp
    ultimately show ?thesis using h(2) by auto
  qed
  then have d: "in_unit (as_f32 (exp2 ?q))" using assms(1) in_unit_as_f32 by (auto simp: exp2_law_def)
  obtain v where v: "fl_mul f32_of (dc_access_boost cfg) (as_f32 (logn (fl_add f64_of (Fin 1) (f64_of (of_nat c))))) = Fin v"
    using decay_bonus[OF assms(2) _ assms(5)] assms(3) by (auto simp: decay_ok_def)
  obtain w where w: "fl_mul f32_of s (as_f32 (exp2 ?q)) = Fin w" using in_unit_mul_f32[OF assms(4) d] by (auto simp: in_unit_iff)
  have "fl_add f32_of (Fin w) (Fin v) \<noteq> NaN" by simp
  then show ?thesis
    using fl_clamp_between[of "fl_add f32_of (Fin w) (Fin v)" "dc_min_salience cfg" "dc_max_salience cfg"] assms(3) t(1) h(1) v w
    by (simp add: compute_decay_def Let_def decay_ok_def)
qed

section \<open>Properties\<close>

text \<open>Decay keeps saliences in the configured range: with a positive half-life, a configuration and saliences in the
  unit interval, and mathematical functions that are between 0 and 1 for powers with non-positive exponents and
  between 0 and the argument for logarithms, a batch never panics, every new salience lies between the floor and
  the cap (none is NaN), and nothing else of a memory changes.\<close>

theorem decay_batch_bounds:
  assumes "exp2_law exp2" "ln_law logn" "decay_ok cfg" "now < u64_mod"
    and "\<forall>m \<in> set ms. in_unit (mn_salience m) \<and> mn_access_count m < u32_mod"
  shows "\<exists>ss. apply_decay_batch exp2 logn cfg ms now = Ok (map2 (\<lambda>m s. m\<lparr>mn_salience := s\<rparr>) ms ss)
    \<and> length ss = length ms \<and> (\<forall>s \<in> set ss. fl_le (dc_min_salience cfg) s \<and> fl_le s (dc_max_salience cfg))"
  using assms(5)
proof (induction ms)
  case (Cons m ms)
  have m: "in_unit (mn_salience m)" "mn_access_count m < u32_mod" using Cons.prems by simp_all
  obtain v where v: "compute_decay exp2 logn cfg (mn_salience m) (mn_created_at m) (mn_accessed_at m) (mn_access_count m) now = Ok v"
    "fl_le (dc_min_salience cfg) v" "fl_le v (dc_max_salience cfg)"
    using compute_decay_bounds[OF assms(1-3) m assms(4)] by blast
  obtain ss where "apply_decay_batch exp2 logn cfg ms now = Ok (map2 (\<lambda>m s. m\<lparr>mn_salience := s\<rparr>) ms ss)"
    "length ss = length ms" "\<forall>s \<in> set ss. fl_le (dc_min_salience cfg) s \<and> fl_le s (dc_max_salience cfg)"
    using Cons.IH Cons.prems by auto
  then show ?case using v by (intro exI[of _ "v # ss"]) simp
qed simp

definition half_exp2 :: "f64 \<Rightarrow> f64" where
  "half_exp2 x = (case x of Fin a \<Rightarrow> Fin (if a < 0 then 1/2 else 1) | _ \<Rightarrow> Fin 0)"

definition step_ln :: "f64 \<Rightarrow> f64" where
  "step_ln x = (case x of Fin a \<Rightarrow> Fin (if a \<le> 1 then 0 else 1) | y \<Rightarrow> y)"

definition unit_decay :: DecayConfig where
  "unit_decay = \<lparr> dc_half_life_us = 1, dc_min_salience = Fin 0, dc_access_boost = Fin 0, dc_max_salience = Fin 1 \<rparr>"

theorem decay_batch_bounds_witness:
  "\<exists>ss. apply_decay_batch half_exp2 step_ln unit_decay [memory_node_new (MemoryId 1) 0 (AgentId 1) Episodic [] []] 5
      = Ok (map2 (\<lambda>m s. m\<lparr>mn_salience := s\<rparr>) [memory_node_new (MemoryId 1) 0 (AgentId 1) Episodic [] []] ss)
    \<and> (\<forall>s \<in> set ss. fl_le (Fin 0) s \<and> fl_le s (Fin 1))"
proof -
  let ?ms = "[memory_node_new (MemoryId 1) 0 (AgentId 1) Episodic [] []]"
  have "exp2_law half_exp2" "ln_law step_ln" by (simp_all add: exp2_law_def ln_law_def half_exp2_def step_ln_def)
  moreover have "decay_ok unit_decay" by (simp add: decay_ok_def unit_decay_def)
  moreover have "\<forall>m \<in> set ?ms. in_unit (mn_salience m) \<and> mn_access_count m < u32_mod" by (simp add: memory_node_new_def)
  ultimately obtain ss where "apply_decay_batch half_exp2 step_ln unit_decay ?ms 5 = Ok (map2 (\<lambda>m s. m\<lparr>mn_salience := s\<rparr>) ?ms ss)"
    "\<forall>s \<in> set ss. fl_le (dc_min_salience unit_decay) s \<and> fl_le s (dc_max_salience unit_decay)"
    using decay_batch_bounds[of half_exp2 step_ln unit_decay 5 ?ms] by auto
  then show ?thesis by (intro exI[of _ ss]) (simp add: unit_decay_def)
qed

text \<open>With a half-life of 0 a memory accessed now gets a NaN salience, which the clamp keeps.\<close>

lemma zero_half_life_nan:
  assumes "exp2 NaN = NaN" "logn (Fin 1) = Fin 0"
  shows "compute_decay exp2 logn (unit_decay\<lparr>dc_half_life_us := 0\<rparr>) (Fin 1) 0 5 0 5 = Ok NaN"
proof -
  have z: "f64_of 0 = Fin 0" "f64_of 1 = Fin 1" by code_simp+
  have "fl_mul f32_of (Fin 0) (Fin 0) = Fin 0" by code_simp
  then show ?thesis using assms z by (simp add: compute_decay_def unit_decay_def Let_def fl_clamp_def fl_le_def)
qed

text \<open>A forget request selects exactly the listed memories and all memories of the named agent and of the named
  space, and counts exactly the edges with an end among them; a memory is counted once however it was selected.\<close>

theorem forget_plan_exact:
  fixes r :: ForgetRequest and ms :: "MemoryNode list"
  defines "doomed \<equiv> set (fr_memory_ids r)
    \<union> mn_id ` {m \<in> set ms. fr_agent_id r = Some (mn_agent_id m) \<or> fr_space_id r = Some (mn_space_id m)}"
  shows "to_delete r ms = doomed
    \<and> fo_deleted_memories (plan_forget sa ss r ms es) = card doomed
    \<and> fo_deleted_edges (plan_forget sa ss r ms es) = length (filter (\<lambda>e. fst e \<in> doomed \<or> snd e \<in> doomed) es)"
  by (simp add: plan_forget_def Let_def to_delete_eq doomed_def case_prod_unfold)

end
