(* ===== verification/Consolidation_Text.thy ===== *)
theory Consolidation_Text
  imports Context_Budget "HOL-Library.Sublist"
begin

text \<open>
  Text processing of the consolidation crate: compression to key sentences
  (\<open>crates/mentedb-consolidation/src/compression.rs\<close>) and rule-based fact extraction
  (\<open>extraction.rs\<close>). \<open>lower\<close> is \<open>str::to_lowercase\<close>.
\<close>

section \<open>Compression\<close>

record CompressedMemory =
  cpm_original_id :: MemoryId
  cpm_compressed_content :: string
  cpm_compression_ratio :: f32
  cpm_key_facts :: "string list"

definition KEY_WORDS :: "string list" where
  "KEY_WORDS = [''decided'', ''uses'', ''prefers'', ''switched'', ''chose'', ''selected'', ''important'',
     ''critical'', ''must'', ''should'', ''always'', ''never'']"

definition FILLER_WORDS :: "string list" where
  "FILLER_WORDS = [''actually'', ''basically'', ''honestly'', ''really'', ''very'', ''quite'', ''just'', ''simply'',
     ''perhaps'', ''maybe'', ''somewhat'', ''rather'', ''kind of'', ''sort of'', ''you know'', ''i think'', ''i mean'']"

text \<open>One filler: the position found in the lower-cased text is used in the text itself.\<close>

definition drop_filler :: "(string \<Rightarrow> string) \<Rightarrow> string \<Rightarrow> string \<Rightarrow> (MenteError, string) outcome" where
  "drop_filler lower filler result =
     (case str_find filler (lower result) of None \<Rightarrow> Ok result
      | Some pos \<Rightarrow> bindO (slice result pos (pos + length filler)) (\<lambda>actual. Ok (remove_first actual result)))"

fun drop_fillers :: "(string \<Rightarrow> string) \<Rightarrow> string list \<Rightarrow> string \<Rightarrow> (MenteError, string) outcome" where
  "drop_fillers lower [] result = Ok result"
| "drop_fillers lower (f # fs) result = bindO (drop_filler lower f result) (drop_fillers lower fs)"

definition remove_filler :: "(string \<Rightarrow> string) \<Rightarrow> string \<Rightarrow> (MenteError, string) outcome" where
  "remove_filler lower text =
     bindO (drop_fillers lower FILLER_WORDS text) (\<lambda>result. Ok (join '' '' (split_whitespace result)))"

definition push_new :: "string list \<Rightarrow> string \<Rightarrow> string list" where
  "push_new key_sentences cleaned =
     (if cleaned \<noteq> [] \<and> cleaned \<notin> set key_sentences then key_sentences @ [cleaned] else key_sentences)"

definition para_sentences :: "string \<Rightarrow> string list" where
  "para_sentences para = filter (\<lambda>s. s \<noteq> []) (map trim (split_char (CHR ''.'') para))"

fun keyword_sentences :: "(string \<Rightarrow> string) \<Rightarrow> string list \<Rightarrow> string list \<Rightarrow> (MenteError, string list) outcome" where
  "keyword_sentences lower [] acc = Ok acc"
| "keyword_sentences lower (s # ss) acc =
     (if list_ex (\<lambda>kw. str_contains (lower s) kw) KEY_WORDS
      then bindO (remove_filler lower s) (\<lambda>cleaned. keyword_sentences lower ss (push_new acc cleaned))
      else keyword_sentences lower ss acc)"

text \<open>
  A paragraph: its first sentence, then \<open>&sentences[1..]\<close>, which panics when there is no
  sentence at all.
\<close>

definition compress_para :: "(string \<Rightarrow> string) \<Rightarrow> string \<Rightarrow> string list \<Rightarrow> (MenteError, string list) outcome" where
  "compress_para lower para acc =
     (case para_sentences para of
        [] \<Rightarrow> Panic
      | first # rest \<Rightarrow> bindO (remove_filler lower first) (\<lambda>cleaned. keyword_sentences lower rest (push_new acc cleaned)))"

fun compress_paras :: "(string \<Rightarrow> string) \<Rightarrow> string list \<Rightarrow> string list \<Rightarrow> (MenteError, string list) outcome" where
  "compress_paras lower [] acc = Ok acc"
| "compress_paras lower (p # ps) acc = bindO (compress_para lower p acc) (compress_paras lower ps)"

definition blank_line :: string where
  "blank_line = [CHR 0x0A, CHR 0x0A]"

definition compress :: "(string \<Rightarrow> string) \<Rightarrow> MemoryNode \<Rightarrow> (MenteError, CompressedMemory) outcome" where
  "compress lower memory =
     bindO (compress_paras lower (split_str blank_line (mn_content memory)) []) (\<lambda>key_sentences.
       let compressed_content = join ''. '' key_sentences;
           original_len = f32_of (of_nat (max (length (mn_content memory)) 1));
           compressed_len = f32_of (of_nat (length compressed_content))
       in Ok \<lparr> cpm_original_id = mn_id memory, cpm_compressed_content = compressed_content,
               cpm_compression_ratio = fl_div f32_of compressed_len original_len, cpm_key_facts = key_sentences \<rparr>)"

fun compress_batch :: "(string \<Rightarrow> string) \<Rightarrow> MemoryNode list \<Rightarrow> (MenteError, CompressedMemory list) outcome" where
  "compress_batch lower [] = Ok []"
| "compress_batch lower (m # ms) = bindO (compress lower m) (\<lambda>c. bindO (compress_batch lower ms) (\<lambda>cs. Ok (c # cs)))"

text \<open>The compressor has its own copy of the token estimate.\<close>

definition compressor_estimate_tokens :: "string \<Rightarrow> nat" where
  "compressor_estimate_tokens text =
     fl_to_u64 (fl_ceil (fl_mul f64_of (f64_of (of_nat (length (split_whitespace text)))) (f64_of (13/10))))"

section \<open>Facts\<close>

record ExtractedFact =
  ef_subject :: string
  ef_predicate :: string
  ef_object :: string
  ef_confidence :: f32
  ef_source_memory :: MemoryId

definition PATTERNS :: "(string \<times> string) list" where
  "PATTERNS = [('' is '', ''is''), ('' uses '', ''uses''), ('' prefers '', ''prefers''),
     ('' switched to '', ''switched_to''), ('' decided on '', ''decided_on'')]"

definition match_pattern :: "(string \<Rightarrow> string) \<Rightarrow> MemoryNode \<Rightarrow> string \<Rightarrow> string \<Rightarrow> string
    \<Rightarrow> (MenteError, ExtractedFact list) outcome" where
  "match_pattern lower memory sentence pat predicate =
     (case str_find pat (lower sentence) of None \<Rightarrow> Ok []
      | Some pos \<Rightarrow>
          bindO (slice sentence 0 pos) (\<lambda>s.
          bindO (slice sentence (pos + length pat) (length sentence)) (\<lambda>ob.
            let subject = trim s; object = trim ob in
            if subject \<noteq> [] \<and> object \<noteq> []
            then Ok [\<lparr> ef_subject = subject, ef_predicate = predicate, ef_object = object,
                       ef_confidence = mn_confidence memory, ef_source_memory = mn_id memory \<rparr>]
            else Ok [])))"

fun match_patterns :: "(string \<Rightarrow> string) \<Rightarrow> MemoryNode \<Rightarrow> string \<Rightarrow> (string \<times> string) list
    \<Rightarrow> (MenteError, ExtractedFact list) outcome" where
  "match_patterns lower memory sentence [] = Ok []"
| "match_patterns lower memory sentence ((pat, predicate) # ps) =
     bindO (match_pattern lower memory sentence pat predicate) (\<lambda>fs.
     bindO (match_patterns lower memory sentence ps) (\<lambda>gs. Ok (fs @ gs)))"

fun extract_sentences :: "(string \<Rightarrow> string) \<Rightarrow> MemoryNode \<Rightarrow> string list \<Rightarrow> (MenteError, ExtractedFact list) outcome" where
  "extract_sentences lower memory [] = Ok []"
| "extract_sentences lower memory (s # ss) =
     (let sentence = trim s in
      if sentence = [] then extract_sentences lower memory ss
      else bindO (match_patterns lower memory sentence PATTERNS) (\<lambda>fs.
           bindO (extract_sentences lower memory ss) (\<lambda>gs. Ok (fs @ gs))))"

definition extract_facts :: "(string \<Rightarrow> string) \<Rightarrow> MemoryNode \<Rightarrow> (MenteError, ExtractedFact list) outcome" where
  "extract_facts lower memory = extract_sentences lower memory (split_char (CHR ''.'') (mn_content memory))"

definition fact_key :: "(string \<Rightarrow> string) \<Rightarrow> ExtractedFact \<Rightarrow> string \<times> string \<times> string" where
  "fact_key lower f = (lower (ef_subject f), lower (ef_predicate f), lower (ef_object f))"

fun dedup_loop :: "(string \<Rightarrow> string) \<Rightarrow> ExtractedFact list \<Rightarrow> (string \<times> string \<times> string) set \<Rightarrow> ExtractedFact list" where
  "dedup_loop lower [] seen = []"
| "dedup_loop lower (f # fs) seen =
     (if fact_key lower f \<in> seen then dedup_loop lower fs seen
      else f # dedup_loop lower fs (insert (fact_key lower f) seen))"

definition deduplicate_facts :: "(string \<Rightarrow> string) \<Rightarrow> ExtractedFact list \<Rightarrow> ExtractedFact list" where
  "deduplicate_facts lower facts = dedup_loop lower facts {}"

definition find_contradicting_facts :: "(string \<Rightarrow> string) \<Rightarrow> ExtractedFact \<Rightarrow> ExtractedFact list \<Rightarrow> ExtractedFact list" where
  "find_contradicting_facts lower new_fact existing =
     filter (\<lambda>f. lower (ef_subject f) = lower (ef_subject new_fact)
       \<and> lower (ef_predicate f) = lower (ef_predicate new_fact)
       \<and> lower (ef_object f) \<noteq> lower (ef_object new_fact)) existing"

section \<open>ASCII text\<close>

text \<open>The documented behaviour of \<open>to_lowercase\<close> on ASCII text.\<close>

definition lower_law :: "(string \<Rightarrow> string) \<Rightarrow> bool" where
  "lower_law lower \<longleftrightarrow> (\<forall>s. is_ascii s \<longrightarrow> lower s = to_ascii_lowercase s)"

lemma length_lower: "lower_law lower \<Longrightarrow> is_ascii s \<Longrightarrow> length (lower s) = length s"
  by (simp add: lower_law_def to_ascii_lowercase_def)

lemma is_ascii_append [simp]: "is_ascii (s @ t) \<longleftrightarrow> is_ascii s \<and> is_ascii t"
  by (simp add: is_ascii_def)

lemma is_ascii_remove_first: "is_ascii s \<Longrightarrow> is_ascii (remove_first pat s)"
  by (auto simp: remove_first_def is_ascii_take is_ascii_drop split: option.splits)

lemma drop_filler_ascii:
  assumes "lower_law lower" "is_ascii s"
  shows "\<exists>r. drop_filler lower f s = Ok r \<and> is_ascii r"
  using str_find_SomeD[of f "lower s"] length_lower[OF assms] assms(2)
  by (auto simp: drop_filler_def slice_ascii is_ascii_remove_first split: option.splits)

lemma drop_fillers_ascii:
  assumes "lower_law lower"
  shows "is_ascii s \<Longrightarrow> \<exists>r. drop_fillers lower fs s = Ok r \<and> is_ascii r"
proof (induction fs arbitrary: s)
  case (Cons f fs)
  then show ?case using drop_filler_ascii[OF assms, of s f] by force
qed simp

lemma remove_filler_ascii:
  assumes "lower_law lower" "is_ascii s"
  shows "\<exists>r. remove_filler lower s = Ok r"
  using drop_fillers_ascii[OF assms, of FILLER_WORDS] by (auto simp: remove_filler_def)

lemma is_ascii_split_str:
  "is_ascii cur \<Longrightarrow> is_ascii s \<Longrightarrow> w \<in> set (split_str_from pat cur s) \<Longrightarrow> is_ascii w"
proof (induction pat cur s arbitrary: w rule: split_str_from.induct)
  case (2 pat cur c cs)
  have cs: "is_ascii cs" "is_ascii (cur @ [c])" "is_ascii (drop (length pat - 1) cs)" "is_ascii []"
    using "2.prems"(1,2) by (simp_all add: is_ascii_def is_ascii_drop[unfolded is_ascii_def])
  show ?case
  proof (cases "pat \<noteq> [] \<and> starts_with (c # cs) pat")
    case True
    then show ?thesis using "2.IH"(1)[OF True cs(4,3)] "2.prems" by auto
  next
    case False
    then have "w \<in> set (split_str_from pat (cur @ [c]) cs)" using "2.prems"(3) by (auto split: if_splits)
    then show ?thesis using "2.IH"(2)[OF False cs(2,1)] by blast
  qed
qed simp

lemma is_ascii_para_sentences: "is_ascii p \<Longrightarrow> s \<in> set (para_sentences p) \<Longrightarrow> is_ascii s"
  by (auto simp: para_sentences_def intro: is_ascii_trim is_ascii_split_char)

definition clean :: "string list \<Rightarrow> bool" where
  "clean ks \<longleftrightarrow> distinct ks \<and> [] \<notin> set ks"

lemma clean_push_new: "clean ks \<Longrightarrow> clean (push_new ks s)"
  by (auto simp: clean_def push_new_def)

lemma keyword_sentences_ascii:
  assumes "lower_law lower"
  shows "\<forall>s \<in> set ss. is_ascii s \<Longrightarrow> clean acc \<Longrightarrow> \<exists>r. keyword_sentences lower ss acc = Ok r \<and> clean r"
proof (induction ss arbitrary: acc)
  case (Cons s ss)
  obtain c where "remove_filler lower s = Ok c" using remove_filler_ascii[OF assms] Cons.prems(1) by auto
  then show ?case using Cons by (simp add: clean_push_new)
qed simp

lemma compress_para_ascii:
  assumes "lower_law lower" "is_ascii p" "clean acc"
  shows "if para_sentences p = [] then compress_para lower p acc = Panic
    else \<exists>r. compress_para lower p acc = Ok r \<and> clean r"
proof (cases "para_sentences p")
  case (Cons s ss)
  have a: "\<forall>s \<in> set (s # ss). is_ascii s" using is_ascii_para_sentences[OF assms(2)] Cons by metis
  obtain c where "remove_filler lower s = Ok c" using remove_filler_ascii[OF assms(1)] a by auto
  then show ?thesis
    using Cons keyword_sentences_ascii[OF assms(1), of ss "push_new acc c"] a assms(3)
    by (simp add: compress_para_def clean_push_new)
qed (simp add: compress_para_def)

lemma compress_paras_ascii:
  assumes "lower_law lower"
  shows "\<forall>p \<in> set ps. is_ascii p \<Longrightarrow> clean acc \<Longrightarrow>
    if \<exists>p \<in> set ps. para_sentences p = [] then compress_paras lower ps acc = Panic
    else \<exists>r. compress_paras lower ps acc = Ok r \<and> clean r"
proof (induction ps arbitrary: acc)
  case (Cons p ps)
  show ?case
  proof (cases "para_sentences p = []")
    case True
    then show ?thesis using compress_para_ascii[OF assms _ Cons.prems(2), of p] Cons.prems(1) by simp
  next
    case False
    then obtain r where r: "compress_para lower p acc = Ok r" "clean r"
      using compress_para_ascii[OF assms _ Cons.prems(2), of p] Cons.prems(1) by auto
    then show ?thesis using Cons.IH[OF _ r(2)] Cons.prems(1) False by simp
  qed
qed simp

lemma length_split_ws: "length (split_ws cur s) = count_words (cur \<noteq> []) s + (if cur = [] then 0 else 1)"
  by (induction cur s rule: split_ws.induct) auto

text \<open>The two token estimates of the code base agree.\<close>

lemma compressor_estimate_eq: "compressor_estimate_tokens text = estimate_tokens text"
  by (simp add: compressor_estimate_tokens_def estimate_tokens_def word_count_def length_split_ws)

section \<open>Extraction\<close>

definition fact_of :: "(string \<Rightarrow> string) \<Rightarrow> MemoryNode \<Rightarrow> string \<Rightarrow> ExtractedFact \<Rightarrow> bool" where
  "fact_of lower m sentence f \<longleftrightarrow> ef_subject f \<noteq> [] \<and> ef_object f \<noteq> [] \<and> ef_source_memory f = mn_id m
     \<and> ef_confidence f = mn_confidence m
     \<and> (\<exists>pre verb post pat. sentence = pre @ verb @ post \<and> (pat, ef_predicate f) \<in> set PATTERNS
          \<and> to_ascii_lowercase verb = pat \<and> ef_subject f = trim pre \<and> ef_object f = trim post)"

lemma match_pattern_ascii:
  assumes "lower_law lower" "is_ascii s" "(pat, pred) \<in> set PATTERNS"
  shows "\<exists>fs. match_pattern lower m s pat pred = Ok fs \<and> (\<forall>f \<in> set fs. fact_of lower m s f)"
proof (cases "str_find pat (lower s)")
  case None
  then show ?thesis by (simp add: match_pattern_def)
next
  case (Some pos)
  have low: "lower s = map ascii_lower s" using assms(1,2) by (simp add: lower_law_def to_ascii_lowercase_def)
  have p: "pos + length pat \<le> length s" "map ascii_lower (take (length pat) (drop pos s)) = pat"
    using str_find_SomeD[OF Some] low by (simp_all add: take_map drop_map)
  have "s = take pos s @ take (length pat) (drop pos s) @ drop (pos + length pat) s"
    by (metis append_take_drop_id drop_drop add.commute)
  then have "fact_of lower m s \<lparr> ef_subject = trim (take pos s), ef_predicate = pred,
      ef_object = trim (drop (pos + length pat) s), ef_confidence = mn_confidence m, ef_source_memory = mn_id m \<rparr>"
    if "trim (take pos s) \<noteq> []" "trim (drop (pos + length pat) s) \<noteq> []"
    using that p(2) assms(3) unfolding fact_of_def to_ascii_lowercase_def by fastforce
  then show ?thesis
    using Some p(1) assms(2) by (auto simp: match_pattern_def slice_ascii Let_def)
qed

lemma match_patterns_ascii:
  assumes "lower_law lower" "is_ascii s"
  shows "set ps \<subseteq> set PATTERNS \<Longrightarrow> \<exists>fs. match_patterns lower m s ps = Ok fs \<and> (\<forall>f \<in> set fs. fact_of lower m s f)"
proof (induction ps)
  case (Cons p ps)
  obtain pat pred where p: "p = (pat, pred)" by fastforce
  then show ?case using Cons match_pattern_ascii[OF assms, of pat pred m] by force
qed simp

lemma extract_sentences_ascii:
  assumes "lower_law lower"
  shows "\<forall>s \<in> set ss. is_ascii s \<Longrightarrow> \<exists>fs. extract_sentences lower m ss = Ok fs
    \<and> (\<forall>f \<in> set fs. \<exists>s \<in> set ss. fact_of lower m (trim s) f)"
proof (induction ss)
  case (Cons s ss)
  obtain gs where gs: "extract_sentences lower m ss = Ok gs" "\<forall>f \<in> set gs. \<exists>s \<in> set ss. fact_of lower m (trim s) f"
    using Cons by auto
  have "is_ascii (trim s)" using Cons.prems is_ascii_trim by simp
  then obtain fs where "match_patterns lower m (trim s) PATTERNS = Ok fs" "\<forall>f \<in> set fs. fact_of lower m (trim s) f"
    using match_patterns_ascii[OF assms, of "trim s" PATTERNS m] by blast
  then show ?case using gs by (auto simp: Let_def)
qed simp

lemma dedup_loop_spec:
  "subseq (dedup_loop lower fs seen) fs \<and> distinct (map (fact_key lower) (dedup_loop lower fs seen))
   \<and> fact_key lower ` set (dedup_loop lower fs seen) = fact_key lower ` set fs - seen"
  by (induction lower fs seen rule: dedup_loop.induct) auto

section \<open>Properties\<close>

text \<open>On ASCII text compression panics exactly when some paragraph has no sentence (an empty memory is one);
  otherwise it returns, and its key facts are non-empty and free of duplicates.\<close>

theorem compress_ascii:
  assumes "lower_law lower" "is_ascii (mn_content m)"
  shows "if \<exists>p \<in> set (split_str blank_line (mn_content m)). para_sentences p = []
    then compress lower m = Panic
    else \<exists>c. compress lower m = Ok c \<and> distinct (cpm_key_facts c) \<and> [] \<notin> set (cpm_key_facts c)
      \<and> cpm_original_id c = mn_id m \<and> cpm_compressed_content c = join ''. '' (cpm_key_facts c)"
proof -
  have a: "\<forall>p \<in> set (split_str blank_line (mn_content m)). is_ascii p"
    using is_ascii_split_str[of "[]" "mn_content m"] assms(2) by (auto simp: split_str_def is_ascii_def)
  have "clean []" by (simp add: clean_def)
  from compress_paras_ascii[OF assms(1) a this] show ?thesis
    by (auto simp: compress_def Let_def clean_def split: if_splits)
qed

theorem compress_ascii_witness:
  "compress to_ascii_lowercase (memory_node_new (MemoryId 1) 0 (AgentId 1) Episodic [] []) = Panic"
  using compress_ascii[of to_ascii_lowercase "memory_node_new (MemoryId 1) 0 (AgentId 1) Episodic [] []"]
  by (simp add: lower_law_def memory_node_new_def is_ascii_def split_str_def para_sentences_def trim_def)

text \<open>On ASCII text fact extraction always returns, and every fact comes from a sentence of the memory that reads
  subject, verb phrase, object with the predicate of that phrase; deduplication keeps one fact of each case-insensitive
  key, in order.\<close>

theorem extract_facts_sound:
  assumes "lower_law lower" "is_ascii (mn_content m)"
  shows "\<exists>fs. extract_facts lower m = Ok fs
    \<and> (\<forall>f \<in> set fs. \<exists>s \<in> set (split_char (CHR ''.'') (mn_content m)). fact_of lower m (trim s) f)
    \<and> subseq (deduplicate_facts lower fs) fs
    \<and> distinct (map (fact_key lower) (deduplicate_facts lower fs))
    \<and> fact_key lower ` set (deduplicate_facts lower fs) = fact_key lower ` set fs"
proof -
  have "\<forall>s \<in> set (split_char (CHR ''.'') (mn_content m)). is_ascii s" using is_ascii_split_char[OF assms(2)] by blast
  from extract_sentences_ascii[OF assms(1) this, of m] obtain fs where "extract_facts lower m = Ok fs"
    "\<forall>f \<in> set fs. \<exists>s \<in> set (split_char (CHR ''.'') (mn_content m)). fact_of lower m (trim s) f"
    unfolding extract_facts_def by blast
  then show ?thesis using dedup_loop_spec[of lower fs "{}"] by (auto simp: deduplicate_facts_def)
qed

theorem extract_facts_sound_witness:
  "\<exists>fs. extract_facts to_ascii_lowercase (memory_node_new (MemoryId 1) 0 (AgentId 1) Episodic ''a is b'' []) = Ok fs"
  using extract_facts_sound[of to_ascii_lowercase "memory_node_new (MemoryId 1) 0 (AgentId 1) Episodic ''a is b'' []"]
  by (auto simp: lower_law_def memory_node_new_def is_ascii_def byte_def)

text \<open>
  Outside ASCII the offset found in the lower-cased text is applied to the original one. The capital I with a dot
  (two bytes) is lower-cased to three bytes, so the slice can cut a character.
\<close>

lemma extract_facts_unicode_panic:
  assumes "lower [CHR 0xC4, CHR 0xB0, CHR 0x20, CHR 0x69, CHR 0x73, CHR 0x20, CHR 0xC3, CHR 0xA9]
    = [CHR 0x69, CHR 0xCC, CHR 0x87, CHR 0x20, CHR 0x69, CHR 0x73, CHR 0x20, CHR 0xC3, CHR 0xA9]"
  shows "match_pattern lower m [CHR 0xC4, CHR 0xB0, CHR 0x20, CHR 0x69, CHR 0x73, CHR 0x20, CHR 0xC3, CHR 0xA9] '' is '' ''is'' = Panic"
  by (simp add: match_pattern_def assms slice_def is_char_boundary_def is_continuation_def byte_def)

end
