(* ===== verification/Cognitive_Interference.thy ===== *)
theory Cognitive_Interference
  imports Consolidation_Cluster
begin

text \<open>
  Interfering memories, \<open>crates/mentedb-cognitive/src/interference.rs\<close>: similar memories with
  different content, and an order of memories that keeps them apart.
\<close>

section \<open>Detection\<close>

record InterferencePair =
  ip_memory_a :: MemoryId
  ip_memory_b :: MemoryId
  ip_similarity :: f32
  ip_disambiguation :: string

text \<open>The crate's own copy of cosine similarity, by index.\<close>

fun cosine_loop :: "f32 list \<Rightarrow> f32 list \<Rightarrow> nat list \<Rightarrow> f32 \<times> f32 \<times> f32 \<Rightarrow> f32 \<times> f32 \<times> f32" where
  "cosine_loop a b [] acc = acc"
| "cosine_loop a b (i # is) (dot, norm_a, norm_b) =
     cosine_loop a b is (fl_add f32_of dot (fl_mul f32_of (a ! i) (b ! i)),
       fl_add f32_of norm_a (fl_mul f32_of (a ! i) (a ! i)),
       fl_add f32_of norm_b (fl_mul f32_of (b ! i) (b ! i)))"

definition indexed_cosine :: "f32 list \<Rightarrow> f32 list \<Rightarrow> f32" where
  "indexed_cosine a b =
     (if length a \<noteq> length b \<or> a = [] then Fin 0
      else let (dot, norm_a, norm_b) = cosine_loop a b [0..<length a] (Fin 0, Fin 0, Fin 0);
               denom = fl_mul f32_of (fl_sqrt 24 norm_a) (fl_sqrt 24 norm_b)
           in if fl_eq denom (Fin 0) then Fin 0 else fl_div f32_of dot denom)"

definition quote :: string where
  "quote = [CHR 0x22]"

definition generate_disambiguation :: "MemoryNode \<Rightarrow> MemoryNode \<Rightarrow> string" where
  "generate_disambiguation a b =
     ''Note: Memory A: '' @ quote @ mn_content a @ quote @ '' (created '' @ show_nat (mn_created_at a)
     @ ''), Memory B: '' @ quote @ mn_content b @ quote @ '' (created '' @ show_nat (mn_created_at b)
     @ ''). Do not confuse.''"

definition detect_pair :: "f32 \<Rightarrow> MemoryNode \<Rightarrow> MemoryNode \<Rightarrow> InterferencePair list" where
  "detect_pair similarity_threshold a b =
     (let sim = indexed_cosine (mn_embedding a) (mn_embedding b)
      in if fl_lt similarity_threshold sim \<and> mn_content a \<noteq> mn_content b
         then [\<lparr> ip_memory_a = mn_id a, ip_memory_b = mn_id b, ip_similarity = sim,
                 ip_disambiguation = generate_disambiguation a b \<rparr>]
         else [])"

definition detect_interference :: "f32 \<Rightarrow> MemoryNode list \<Rightarrow> InterferencePair list" where
  "detect_interference similarity_threshold memories =
     concat (map (\<lambda>(i, j). detect_pair similarity_threshold (memories ! i) (memories ! j)) (all_pairs (length memories)))"

section \<open>Separation\<close>

definition conflict_set :: "InterferencePair list \<Rightarrow> (MemoryId \<times> MemoryId) set" where
  "conflict_set pairs = set (concat (map (\<lambda>p. [(ip_memory_a p, ip_memory_b p), (ip_memory_b p, ip_memory_a p)]) pairs))"

text \<open>The first remaining memory that does not conflict with \<open>last\<close>, and the others.\<close>

fun take_clear :: "(MemoryId \<times> MemoryId) set \<Rightarrow> MemoryId \<Rightarrow> MemoryId list \<Rightarrow> (MemoryId \<times> MemoryId list) option" where
  "take_clear conflicts l [] = None"
| "take_clear conflicts l (x # xs) =
     (if (l, x) \<notin> conflicts then Some (x, xs)
      else map_option (\<lambda>(y, ys). (y, x # ys)) (take_clear conflicts l xs))"

lemma take_clear_length: "take_clear C l xs = Some (y, ys) \<Longrightarrow> length xs = Suc (length ys)"
  by (induction xs arbitrary: ys) (auto split: if_splits)

function separate :: "(MemoryId \<times> MemoryId) set \<Rightarrow> MemoryId list \<Rightarrow> MemoryId list \<Rightarrow> MemoryId list" where
  "separate conflicts result [] = result"
| "separate conflicts result (first # remaining) =
     (if result = [] then separate conflicts [first] remaining
      else if (last result, first) \<notin> conflicts then separate conflicts (result @ [first]) remaining
      else case take_clear conflicts (last result) remaining of
             Some (item, rest) \<Rightarrow> separate conflicts (result @ [item]) (first # rest)
           | None \<Rightarrow> separate conflicts (result @ [first]) remaining)"
  by pat_completeness auto
termination by (relation "measure (length \<circ> snd \<circ> snd)") (auto dest: take_clear_length)

definition arrange_with_separation :: "MemoryId list \<Rightarrow> InterferencePair list \<Rightarrow> MemoryId list" where
  "arrange_with_separation memories pairs =
     (if memories = [] \<or> pairs = [] then memories else separate (conflict_set pairs) [] memories)"

section \<open>Facts\<close>

lemma cosine_loop_eq:
  assumes "length a = length b" "n \<le> length a"
  shows "cosine_loop a b [length a - n..<length a] (d, x, y)
    = (foldl (\<lambda>s (x, y). fl_add f32_of s (fl_mul f32_of x y)) d (drop (length a - n) (zip a b)),
       foldl (\<lambda>s x. fl_add f32_of s (fl_mul f32_of x x)) x (drop (length a - n) a),
       foldl (\<lambda>s y. fl_add f32_of s (fl_mul f32_of y y)) y (drop (length a - n) b))"
  using assms(2)
proof (induction n arbitrary: d x y)
  case (Suc n)
  let ?i = "length a - Suc n"
  have i: "?i < length a" "Suc ?i = length a - n" using Suc.prems by auto
  have up: "[?i..<length a] = ?i # [length a - n..<length a]" using i upt_conv_Cons[of ?i "length a"] by simp
  have dr: "drop ?i (zip a b) = (a ! ?i, b ! ?i) # drop (length a - n) (zip a b)"
    "drop ?i a = a ! ?i # drop (length a - n) a" "drop ?i b = b ! ?i # drop (length a - n) b"
    using i assms(1) Cons_nth_drop_Suc[of ?i] by (metis length_zip min.idem nth_zip)+
  show ?case unfolding up dr using Suc by simp
qed (use assms(1) in simp)

text \<open>The two copies of cosine similarity in the workspace agree.\<close>

lemma indexed_cosine_eq: "indexed_cosine a b = cosine_similarity a b"
proof (cases "length a = length b \<and> a \<noteq> []")
  case True
  then show ?thesis
    using cosine_loop_eq[of a b "length a" "Fin 0" "Fin 0" "Fin 0"]
    by (simp add: indexed_cosine_def cosine_similarity_def Let_def)
qed (auto simp: indexed_cosine_def cosine_similarity_def)

lemma take_clear_Some:
  "take_clear C l xs = Some (y, ys) \<Longrightarrow> mset xs = add_mset y (mset ys) \<and> (l, y) \<notin> C"
  by (induction xs arbitrary: ys) (auto split: if_splits)

lemma take_clear_None: "take_clear C l xs = None \<Longrightarrow> \<forall>x \<in> set xs. (l, x) \<in> C"
  by (induction xs) (auto split: if_splits)

text \<open>Wherever two neighbours conflict, everything placed after the first of them conflicts with it.\<close>

definition forced :: "(MemoryId \<times> MemoryId) set \<Rightarrow> MemoryId list \<Rightarrow> MemoryId set \<Rightarrow> bool" where
  "forced C rs rest \<longleftrightarrow> (\<forall>k. Suc k < length rs \<longrightarrow> (rs ! k, rs ! Suc k) \<in> C \<longrightarrow>
     (\<forall>j. k < j \<and> j < length rs \<longrightarrow> (rs ! k, rs ! j) \<in> C) \<and> (\<forall>x \<in> rest. (rs ! k, x) \<in> C))"

lemma forced_snoc:
  assumes "forced C rs (insert x rest)" "rs \<noteq> []" "(last rs, x) \<in> C \<Longrightarrow> \<forall>y \<in> rest. (last rs, y) \<in> C"
  shows "forced C (rs @ [x]) rest"
  unfolding forced_def
proof (intro allI impI conjI)
  fix k assume k: "Suc k < length (rs @ [x])" and c: "((rs @ [x]) ! k, (rs @ [x]) ! Suc k) \<in> C"
  show "\<forall>y \<in> rest. ((rs @ [x]) ! k, y) \<in> C"
  proof (cases "Suc k = length rs")
    case True
    then have "k = length rs - 1" by simp
    then show ?thesis using c True assms(2,3) by (simp add: nth_append last_conv_nth)
  next
    case False
    then have "Suc k < length rs" using k by simp
    then have "(rs ! k, rs ! Suc k) \<in> C" "(rs @ [x]) ! k = rs ! k" using c by (simp_all add: nth_append)
    then show ?thesis using assms(1) \<open>Suc k < length rs\<close> unfolding forced_def by (metis insertCI)
  qed
  fix j assume j: "k < j \<and> j < length (rs @ [x])"
  show "((rs @ [x]) ! k, (rs @ [x]) ! j) \<in> C"
  proof (cases "Suc k = length rs")
    case True
    then have "j = Suc k" using j by simp
    then show ?thesis using c by simp
  next
    case False
    then have "Suc k < length rs" using k by simp
    then have kk: "(rs ! k, rs ! Suc k) \<in> C" "(rs @ [x]) ! k = rs ! k" using c by (simp_all add: nth_append)
    have f: "\<forall>j. k < j \<and> j < length rs \<longrightarrow> (rs ! k, rs ! j) \<in> C" "(rs ! k, x) \<in> C"
      using assms(1) \<open>Suc k < length rs\<close> kk(1) unfolding forced_def by blast+
    show ?thesis
    proof (cases "j = length rs")
      case True
      then show ?thesis using f(2) kk(2) by simp
    next
      case False
      then have "j < length rs" using j by simp
      then show ?thesis using f(1) j kk(2) by (simp add: nth_append)
    qed
  qed
qed

lemma separate_spec:
  assumes "forced C rs (set xs)"
  shows "mset (separate C rs xs) = mset rs + mset xs \<and> forced C (separate C rs xs) {}"
  using assms
proof (induction C rs xs rule: separate.induct)
  case (1 C rs)
  then show ?case by simp
next
  case (2 C rs x xs)
  show ?case
  proof (cases "rs = []")
    case True
    then show ?thesis using "2.IH"(1)[OF True] by (simp add: forced_def)
  next
    case ne: False
    show ?thesis
    proof (cases "(last rs, x) \<notin> C")
      case True
      then have "forced C (rs @ [x]) (set xs)" using "2.prems" ne by (intro forced_snoc) simp_all
      then show ?thesis using "2.IH"(2)[OF ne True] ne True by simp
    next
      case False
      show ?thesis
      proof (cases "take_clear C (last rs) xs")
        case None
        then have "forced C (rs @ [x]) (set xs)"
          using "2.prems" ne take_clear_None[OF None] by (intro forced_snoc) simp_all
        then show ?thesis using "2.IH"(3)[OF ne False None] ne False None by simp
      next
        case (Some p)
        obtain y ys where p: "p = (y, ys)" by fastforce
        note T = take_clear_Some[OF Some[unfolded p]]
        have "set xs = insert y (set ys)" using arg_cong[OF T[THEN conjunct1], of set_mset] by simp
        then have "set (x # xs) = insert y (set (x # ys))" by auto
        then have "forced C (rs @ [y]) (set (x # ys))" using "2.prems" ne T by (intro forced_snoc) simp_all
        then show ?thesis using "2.IH"(4)[OF ne False Some p[symmetric]] ne False Some p T by simp
      qed
    qed
  qed
qed

section \<open>Properties\<close>

text \<open>The arrangement is a permutation of the memories, and two memories that interfere are neighbours only where no
  choice was left: then every memory placed after the first of the two interferes with it.\<close>

theorem arrange_separates:
  "mset (arrange_with_separation ms pairs) = mset ms
   \<and> forced (conflict_set pairs) (arrange_with_separation ms pairs) {}"
proof (cases "ms = [] \<or> pairs = []")
  case True
  then show ?thesis by (auto simp: arrange_with_separation_def forced_def conflict_set_def)
next
  case False
  then show ?thesis using separate_spec[of "conflict_set pairs" "[]" ms]
    by (simp add: arrange_with_separation_def forced_def[of _ "[]"])
qed

definition abc_pairs :: "InterferencePair list" where
  "abc_pairs = [\<lparr> ip_memory_a = MemoryId 1, ip_memory_b = MemoryId 2, ip_similarity = Fin 1, ip_disambiguation = [] \<rparr>]"

text \<open>
  The comment promises that interfering memories are never adjacent. The greedy choice places the
  conflicting pair last although an order that separates it exists.
\<close>

lemma arrange_misses_separation:
  "arrange_with_separation [MemoryId 3, MemoryId 1, MemoryId 2] abc_pairs = [MemoryId 3, MemoryId 1, MemoryId 2]
   \<and> (MemoryId 1, MemoryId 2) \<in> conflict_set abc_pairs
   \<and> (MemoryId 1, MemoryId 3) \<notin> conflict_set abc_pairs \<and> (MemoryId 3, MemoryId 2) \<notin> conflict_set abc_pairs"
  by (simp add: arrange_with_separation_def abc_pairs_def conflict_set_def)

end
