(* ===== verification/Cognitive_Stream.thy ===== *)
theory Cognitive_Stream
  imports Core_Types Rust_Strings
begin

text \<open>
  Live monitoring of a conversation, \<open>crates/mentedb-cognitive\<close>: the token stream with its ring
  buffer and alerts (\<open>src/stream.rs\<close>) and the registry of pain signals (\<open>src/pain.rs\<close>). \<open>lower\<close> is
  \<open>str::to_lowercase\<close>; \<open>exp\<close> is the platform's exponential.
\<close>

section \<open>The stream\<close>

datatype TokenEvent = Token string | EndOfTurn | CorrectionEvent MemoryId string | Flush

datatype StreamAlert =
    Contradiction MemoryId string string
  | Forgotten MemoryId string
  | CorrectionAlert MemoryId string string
  | Reinforcement MemoryId

record StreamConfig =
  sc_contradiction_keyword_ratio :: f32
  sc_reinforcement_threshold :: f32
  sc_buffer_size :: nat

definition stream_config_default :: StreamConfig where
  "stream_config_default = \<lparr> sc_contradiction_keyword_ratio = f32_of (1/2),
     sc_reinforcement_threshold = f32_of (8/10), sc_buffer_size = 1000 \<rparr>"

record StreamState =
  ss_buffer :: "string list"
  ss_accumulated :: string
  ss_buffer_size :: nat

record CognitionStream =
  cs_state :: StreamState
  cs_config :: StreamConfig

definition stream_with_config :: "StreamConfig \<Rightarrow> CognitionStream" where
  "stream_with_config config =
     \<lparr> cs_state = \<lparr> ss_buffer = [], ss_accumulated = [], ss_buffer_size = sc_buffer_size config \<rparr>, cs_config = config \<rparr>"

definition stream_new :: "nat \<Rightarrow> CognitionStream" where
  "stream_new buffer_size = stream_with_config (stream_config_default\<lparr>sc_buffer_size := buffer_size\<rparr>)"

definition feed_state :: "StreamState \<Rightarrow> string \<Rightarrow> StreamState" where
  "feed_state st token =
     (let st = (if ss_buffer_size st \<le> length (ss_buffer st)
                then case ss_buffer st of
                       [] \<Rightarrow> st
                     | old # rest \<Rightarrow> st\<lparr>ss_accumulated := ss_accumulated st @ old, ss_buffer := rest\<rparr>
                else st)
      in st\<lparr>ss_buffer := ss_buffer st @ [token]\<rparr>)"

definition feed_token :: "CognitionStream \<Rightarrow> string \<Rightarrow> CognitionStream" where
  "feed_token s token = s\<lparr>cs_state := feed_state (cs_state s) token\<rparr>"

definition full_text :: "StreamState \<Rightarrow> string" where
  "full_text st = foldl (@) (ss_accumulated st) (ss_buffer st)"

definition drain_buffer :: "CognitionStream \<Rightarrow> string \<times> CognitionStream" where
  "drain_buffer s = (full_text (cs_state s), s\<lparr>cs_state := (cs_state s)\<lparr>ss_accumulated := [], ss_buffer := []\<rparr>\<rparr>)"

definition NEGATIONS :: "string list" where
  "NEGATIONS = [''not '', ''never '', ''don'' @ [CHR 0x27] @ ''t '', ''doesn'' @ [CHR 0x27] @ ''t '',
     ''isn'' @ [CHR 0x27] @ ''t '', ''actually '', ''instead '']"

definition has_negation :: "string \<Rightarrow> bool" where
  "has_negation full_lower = list_ex (str_contains full_lower) NEGATIONS"

definition fact_keywords :: "string \<Rightarrow> string list" where
  "fact_keywords fact_lower = filter (\<lambda>w. 3 \<le> length w) (split_whitespace fact_lower)"

definition overlap_ratio :: "string \<Rightarrow> string list \<Rightarrow> f32" where
  "overlap_ratio full_lower keywords =
     fl_div f32_of (f32_of (of_nat (length (filter (str_contains full_lower) keywords)))) (f32_of (of_nat (length keywords)))"

definition check_fact :: "(string \<Rightarrow> string) \<Rightarrow> StreamConfig \<Rightarrow> string \<Rightarrow> MemoryId \<times> string \<Rightarrow> StreamAlert list" where
  "check_fact lower cfg full mf =
     (let (memory_id, fact) = mf; full_lower = lower full; fact_lower = lower fact; keywords = fact_keywords fact_lower
      in if keywords = [] then []
         else let ratio = overlap_ratio full_lower keywords in
           if fl_lt (sc_contradiction_keyword_ratio cfg) ratio \<and> \<not> str_contains full_lower fact_lower
           then if has_negation full_lower then [Contradiction memory_id full fact]
                else if fl_lt (sc_reinforcement_threshold cfg) ratio then [Reinforcement memory_id] else []
           else if fl_lt (sc_reinforcement_threshold cfg) ratio then [Reinforcement memory_id] else [])"

definition check_alerts :: "(string \<Rightarrow> string) \<Rightarrow> CognitionStream \<Rightarrow> (MemoryId \<times> string) list \<Rightarrow> StreamAlert list" where
  "check_alerts lower s known_facts =
     concat (map (check_fact lower (cs_config s) (full_text (cs_state s))) known_facts)"

section \<open>Pain signals\<close>

record PainSignal =
  ps_id :: MemoryId
  ps_memory_id :: MemoryId
  ps_intensity :: f32
  ps_trigger_keywords :: "string list"
  ps_description :: string
  ps_created_at :: Timestamp
  ps_decay_rate :: f32

record PainRegistry =
  pr_signals :: "PainSignal list"
  pr_max_warnings :: nat

definition pain_registry_new :: "nat \<Rightarrow> PainRegistry" where
  "pain_registry_new max_warnings = \<lparr> pr_signals = [], pr_max_warnings = max_warnings \<rparr>"

definition record_pain :: "PainRegistry \<Rightarrow> PainSignal \<Rightarrow> PainRegistry" where
  "record_pain r signal = r\<lparr>pr_signals := pr_signals r @ [signal]\<rparr>"

definition all_signals :: "PainRegistry \<Rightarrow> PainSignal list" where
  "all_signals r = pr_signals r"

definition matched_triggers :: "(string \<Rightarrow> string) \<Rightarrow> string list \<Rightarrow> PainSignal \<Rightarrow> nat" where
  "matched_triggers lower ctx_lower signal =
     length (filter (\<lambda>trigger. list_ex (\<lambda>ctx. str_contains ctx (lower trigger)) ctx_lower) (ps_trigger_keywords signal))"

definition pain_score :: "(string \<Rightarrow> string) \<Rightarrow> string list \<Rightarrow> PainSignal \<Rightarrow> (PainSignal \<times> f32) option" where
  "pain_score lower ctx_lower signal =
     (let matched = matched_triggers lower ctx_lower signal in
      if matched > 0
      then let relevance = fl_div f32_of (f32_of (of_nat matched)) (f32_of (of_nat (max (length (ps_trigger_keywords signal)) 1)))
           in Some (signal, fl_mul f32_of (ps_intensity signal) relevance)
      else None)"

definition pain_before :: "PainSignal \<times> f32 \<Rightarrow> PainSignal \<times> f32 \<Rightarrow> bool" where
  "pain_before a b = fl_lt (snd b) (snd a)"

definition scored_pain :: "(string \<Rightarrow> string) \<Rightarrow> PainRegistry \<Rightarrow> string list \<Rightarrow> (PainSignal \<times> f32) list" where
  "scored_pain lower r context_keywords =
     sort_by pain_before (List.map_filter (pain_score lower (map lower context_keywords)) (pr_signals r))"

definition get_pain_for_context :: "(string \<Rightarrow> string) \<Rightarrow> PainRegistry \<Rightarrow> string list \<Rightarrow> PainSignal list" where
  "get_pain_for_context lower r context_keywords = map fst (scored_pain lower r context_keywords)"

text \<open>The products and the exponential are computed in double precision.\<close>

definition compute_decayed :: "(f64 \<Rightarrow> f64) \<Rightarrow> PainSignal \<Rightarrow> Timestamp \<Rightarrow> f32" where
  "compute_decayed expo signal now =
     (if now \<le> ps_created_at signal then ps_intensity signal
      else let time_delta = f64_of (of_nat (now - ps_created_at signal));
               decayed = fl_mul f64_of (ps_intensity signal)
                 (expo (fl_mul f64_of (fl_neg (ps_decay_rate signal)) time_delta))
           in case decayed of Fin a \<Rightarrow> f32_of a | x \<Rightarrow> x)"

definition decay_all :: "(f64 \<Rightarrow> f64) \<Rightarrow> PainRegistry \<Rightarrow> Timestamp \<Rightarrow> PainRegistry" where
  "decay_all expo r current_time =
     r\<lparr>pr_signals := map (\<lambda>s. s\<lparr>ps_intensity := compute_decayed expo s current_time\<rparr>) (pr_signals r)\<rparr>"

definition current_intensity :: "(f64 \<Rightarrow> f64) \<Rightarrow> PainSignal \<Rightarrow> Timestamp \<Rightarrow> f32" where
  "current_intensity expo signal now = compute_decayed expo signal now"

definition pain_warning :: "PainSignal \<Rightarrow> string" where
  "pain_warning s = ''CAUTION: '' @ ps_description s @ '' (pain: '' @ show_fixed 2 (ps_intensity s)
     @ ''). Triggers: ['' @ join '', '' (ps_trigger_keywords s) @ '']''"

definition format_pain_warnings :: "PainRegistry \<Rightarrow> PainSignal list \<Rightarrow> string" where
  "format_pain_warnings r signals =
     (if signals = [] then [] else join [CHR 0x0A] (map pain_warning (take (pr_max_warnings r) signals)))"

section \<open>Facts\<close>

lemma full_text_eq: "full_text st = ss_accumulated st @ concat (ss_buffer st)"
proof -
  have "foldl (@) xs yss = xs @ concat yss" for xs :: string and yss by (induction yss arbitrary: xs) simp_all
  then show ?thesis by (simp add: full_text_def)
qed

lemma feed_state_spec:
  "full_text (feed_state st t) = full_text st @ t \<and> ss_buffer_size (feed_state st t) = ss_buffer_size st
   \<and> (length (ss_buffer st) \<le> max 1 (ss_buffer_size st) \<longrightarrow> length (ss_buffer (feed_state st t)) \<le> max 1 (ss_buffer_size st))"
  by (cases "ss_buffer st") (auto simp: feed_state_def full_text_eq Let_def)

lemma feed_tokens_spec:
  assumes "length (ss_buffer (cs_state s)) \<le> max 1 (ss_buffer_size (cs_state s))"
  shows "full_text (cs_state (foldl feed_token s ts)) = full_text (cs_state s) @ concat ts
    \<and> ss_buffer_size (cs_state (foldl feed_token s ts)) = ss_buffer_size (cs_state s)
    \<and> length (ss_buffer (cs_state (foldl feed_token s ts))) \<le> max 1 (ss_buffer_size (cs_state s))
    \<and> cs_config (foldl feed_token s ts) = cs_config s"
  using assms
proof (induction ts arbitrary: s)
  case (Cons t ts)
  have f: "full_text (cs_state (feed_token s t)) = full_text (cs_state s) @ t"
    "ss_buffer_size (cs_state (feed_token s t)) = ss_buffer_size (cs_state s)"
    "length (ss_buffer (cs_state (feed_token s t))) \<le> max 1 (ss_buffer_size (cs_state s))"
    "cs_config (feed_token s t) = cs_config s"
    using feed_state_spec[of "cs_state s" t] Cons.prems by (simp_all add: feed_token_def)
  show ?case using Cons.IH[of "feed_token s t"] f by simp
qed simp

interpretation by_pain: comparator pain_before "\<lambda>x. snd x \<noteq> NaN"
  by unfold_locales (auto simp: pain_before_def dest: fl_lt_asym fl_lt_negtrans)

section \<open>Properties\<close>

text \<open>The stream loses no text: whatever the size of the ring buffer, the tokens fed so far are all in the text that
  alerts are checked on and that draining returns, in order; the buffer never holds more than its size (one token at
  least), and draining leaves an empty stream.\<close>

theorem stream_keeps_text:
  "fst (drain_buffer (foldl feed_token (stream_with_config cfg) ts)) = concat ts
   \<and> fst (drain_buffer (snd (drain_buffer (foldl feed_token (stream_with_config cfg) ts)))) = []
   \<and> length (ss_buffer (cs_state (foldl feed_token (stream_with_config cfg) ts))) \<le> max 1 (sc_buffer_size cfg)
   \<and> check_alerts lower (foldl feed_token (stream_with_config cfg) ts) facts
       = concat (map (check_fact lower cfg (concat ts)) facts)"
proof -
  have "length (ss_buffer (cs_state (stream_with_config cfg))) \<le> max 1 (ss_buffer_size (cs_state (stream_with_config cfg)))"
    by (simp add: stream_with_config_def)
  note F = feed_tokens_spec[OF this, of ts]
  have "full_text (cs_state (stream_with_config cfg)) = []" "cs_config (stream_with_config cfg) = cfg"
    "ss_buffer_size (cs_state (stream_with_config cfg)) = sc_buffer_size cfg"
    by (simp_all add: stream_with_config_def full_text_eq)
  then show ?thesis using F by (simp add: drain_buffer_def check_alerts_def full_text_eq[of "_\<lparr>ss_buffer := _\<rparr>"])
qed

text \<open>The pain signals returned for a context are exactly the recorded ones of which some trigger occurs in the
  context, each as often as it was recorded, and by descending score when no score is NaN.\<close>

theorem pain_for_context:
  assumes "\<forall>p \<in> set (scored_pain lower r ctx). snd p \<noteq> NaN"
  shows "mset (get_pain_for_context lower r ctx)
      = mset (filter (\<lambda>s. \<exists>t \<in> set (ps_trigger_keywords s). \<exists>c \<in> set ctx. str_contains (lower c) (lower t)) (pr_signals r))
    \<and> sorted_wrt (\<lambda>a b. \<not> fl_lt (snd a) (snd b)) (scored_pain lower r ctx)"
proof
  let ?P = "\<lambda>s. \<exists>t \<in> set (ps_trigger_keywords s). \<exists>c \<in> set ctx. str_contains (lower c) (lower t)"
  have sc: "pain_score lower (map lower ctx) s \<noteq> None \<longleftrightarrow> ?P s" "pain_score lower (map lower ctx) s = Some x \<Longrightarrow> fst x = s" for s x
    by (auto simp: pain_score_def matched_triggers_def Let_def filter_empty_conv list_ex_iff split: if_splits)
  have f: "map fst (List.map_filter (pain_score lower (map lower ctx)) ss) = filter ?P ss" for ss
  proof (induction ss)
    case (Cons s ss)
    then show ?case using sc[of s] by (cases "pain_score lower (map lower ctx) s") (auto simp: map_filter_simps)
  qed (simp add: map_filter_simps)
  have "mset (get_pain_for_context lower r ctx)
      = mset (map fst (List.map_filter (pain_score lower (map lower ctx)) (pr_signals r)))"
    by (simp add: get_pain_for_context_def scored_pain_def mset_sort_by)
  then show "mset (get_pain_for_context lower r ctx) = mset (filter ?P (pr_signals r))" unfolding f .
  have "by_pain.ordered (scored_pain lower r ctx)"
    using by_pain.ordered_sort_by assms unfolding scored_pain_def by simp
  then show "sorted_wrt (\<lambda>a b. \<not> fl_lt (snd a) (snd b)) (scored_pain lower r ctx)"
    by (simp add: by_pain.ordered_def pain_before_def)
qed

definition sample_signal :: PainSignal where
  "sample_signal = \<lparr> ps_id = MemoryId 1, ps_memory_id = MemoryId 2, ps_intensity = Fin 1, ps_trigger_keywords = [''db''],
     ps_description = ''x'', ps_created_at = 0, ps_decay_rate = Fin 1 \<rparr>"

theorem pain_for_context_witness:
  "mset (get_pain_for_context id (record_pain (pain_registry_new 5) sample_signal) [''the db'']) = {#sample_signal#}"
proof -
  let ?r = "record_pain (pain_registry_new 5) sample_signal"
  have "\<forall>p \<in> set (scored_pain id ?r [''the db'']). snd p \<noteq> NaN"
  proof -
    have "fl_mul f32_of (Fin 1) (fl_div f32_of (f32_of 1) (f32_of 1)) = Fin 1" by code_simp
    then show ?thesis
      by (auto simp: scored_pain_def record_pain_def pain_registry_new_def sample_signal_def pain_score_def Let_def
          map_filter_simps matched_triggers_def str_contains_def split: if_splits)
  qed
  from pain_for_context[OF this] show ?thesis
    by (simp add: record_pain_def pain_registry_new_def sample_signal_def str_contains_def)
qed

text \<open>
  Applying the decay twice at the same time decays twice: the factor is always taken from the creation time and
  stored back. With an exponential that halves, an intensity of 1 goes to 1/2 and then to 1/4.
\<close>

lemma decay_all_not_idempotent:
  defines "r \<equiv> record_pain (pain_registry_new 5) sample_signal" and "ex \<equiv> (\<lambda>_. Fin (1/2))"
  shows "map ps_intensity (pr_signals (decay_all ex r 1)) = [Fin (1/2)]
    \<and> map ps_intensity (pr_signals (decay_all ex (decay_all ex r 1) 1)) = [Fin (1/4)]"
proof -
  have "f64_of (1/2) = Fin (1/2)" "f64_of (1/4) = Fin (1/4)" "f32_of (1/2) = Fin (1/2)" "f32_of (1/4) = Fin (1/4)"
    by code_simp+
  then show ?thesis
    by (simp add: r_def ex_def decay_all_def record_pain_def pain_registry_new_def sample_signal_def compute_decayed_def Let_def)
qed

end
