(* ===== verification/Cognitive_Speculative.thy ===== *)
theory Cognitive_Speculative
  imports Consolidation_Cluster
begin

text \<open>
  The cache of speculatively assembled contexts, \<open>crates/mentedb-cognitive/src/speculative.rs\<close>.
  The clock and the builder closure are arguments; saving and loading are modelled on the
  snapshot, without the file and its JSON text. \<open>lower\<close> is \<open>str::to_lowercase\<close>.
\<close>

section \<open>Entries and scores\<close>

record CacheEntry =
  sp_topic :: string
  sp_topic_embedding :: "Embedding option"
  sp_context_text :: string
  sp_memory_ids :: "MemoryId list"
  sp_created_at :: Timestamp
  sp_hit_count :: nat
  sp_last_accessed :: Timestamp

record SpecStats =
  st_hits :: nat
  st_misses :: nat
  st_evictions :: nat
  st_cache_size :: nat

record SpeculativeCache =
  sc_entries :: "CacheEntry list"
  sc_stats :: SpecStats
  sc_max_size :: nat
  sc_keyword_threshold :: f32
  sc_embedding_threshold :: f32

definition norm_of :: "f32 list \<Rightarrow> f32" where
  "norm_of a = fl_sqrt 24 (foldl (fl_add f32_of) (Fin 0) (map (\<lambda>x. fl_mul f32_of x x) a))"

definition summed_cosine :: "f32 list \<Rightarrow> f32 list \<Rightarrow> f32" where
  "summed_cosine a b =
     (if length a \<noteq> length b \<or> a = [] then Fin 0
      else let dot = foldl (fl_add f32_of) (Fin 0) (map2 (fl_mul f32_of) a b);
               norm_a = norm_of a; norm_b = norm_of b
           in if fl_eq norm_a (Fin 0) \<or> fl_eq norm_b (Fin 0) then Fin 0
              else fl_div f32_of dot (fl_mul f32_of norm_a norm_b))"

definition word_set :: "(string \<Rightarrow> string) \<Rightarrow> string \<Rightarrow> string set" where
  "word_set lower s = set (filter (\<lambda>w. 2 \<le> length w) (split_whitespace (lower s)))"

definition keyword_overlap_score :: "(string \<Rightarrow> string) \<Rightarrow> string \<Rightarrow> string \<Rightarrow> f32" where
  "keyword_overlap_score lower query topic =
     (let query_words = word_set lower query; topic_words = word_set lower topic in
      if query_words = {} \<or> topic_words = {} then Fin 0
      else let intersection = card (query_words \<inter> topic_words); un = card (query_words \<union> topic_words)
           in if un = 0 then Fin 0 else fl_div f32_of (f32_of (of_nat intersection)) (f32_of (of_nat un)))"

section \<open>Operations\<close>

definition spec_new :: "nat \<Rightarrow> f32 \<Rightarrow> f32 \<Rightarrow> SpeculativeCache" where
  "spec_new max_size keyword_threshold embedding_threshold =
     \<lparr> sc_entries = [], sc_stats = \<lparr> st_hits = 0, st_misses = 0, st_evictions = 0, st_cache_size = 0 \<rparr>,
       sc_max_size = max_size, sc_keyword_threshold = keyword_threshold, sc_embedding_threshold = embedding_threshold \<rparr>"

definition spec_default :: SpeculativeCache where
  "spec_default = spec_new 10 (f32_of (1/2)) (f32_of (4/10))"

text \<open>\<open>min_by_key\<close> returns the first of the least elements; here its index.\<close>

fun min_index :: "nat \<Rightarrow> nat \<times> Timestamp \<Rightarrow> CacheEntry list \<Rightarrow> nat" where
  "min_index i (best, key) [] = best"
| "min_index i (best, key) (e # es) =
     min_index (i + 1) (if sp_last_accessed e < key then (i, sp_last_accessed e) else (best, key)) es"

definition lru_index :: "CacheEntry list \<Rightarrow> nat" where
  "lru_index es = (case es of [] \<Rightarrow> 0 | e # es' \<Rightarrow> min_index 1 (0, sp_last_accessed e) es')"

definition remove_at :: "nat \<Rightarrow> 'a list \<Rightarrow> 'a list" where
  "remove_at i xs = take i xs @ drop (Suc i) xs"

definition evict_lru :: "SpeculativeCache \<Rightarrow> SpeculativeCache" where
  "evict_lru c =
     (if sc_entries c = [] then c
      else c\<lparr>sc_entries := remove_at (lru_index (sc_entries c)) (sc_entries c),
             sc_stats := (sc_stats c)\<lparr>st_evictions := wrap64 (st_evictions (sc_stats c) + 1)\<rparr>\<rparr>)"

definition has_topic :: "SpeculativeCache \<Rightarrow> string \<Rightarrow> bool" where
  "has_topic c topic = list_ex (\<lambda>e. sp_topic e = topic) (sc_entries c)"

definition make_room :: "SpeculativeCache \<Rightarrow> SpeculativeCache" where
  "make_room c = (if sc_max_size c \<le> length (sc_entries c) then evict_lru c else c)"

fun pre_assemble :: "Timestamp \<Rightarrow> SpeculativeCache \<Rightarrow> string list
    \<Rightarrow> (string \<Rightarrow> (string \<times> MemoryId list \<times> Embedding option) option) \<Rightarrow> SpeculativeCache" where
  "pre_assemble now c [] builder = c"
| "pre_assemble now c (topic # topics) builder =
     pre_assemble now
       (if has_topic c topic then c
        else case builder topic of None \<Rightarrow> c
          | Some (context_text, memory_ids, embedding) \<Rightarrow>
              (let c = make_room c in
               c\<lparr>sc_entries := sc_entries c @ [\<lparr> sp_topic = topic, sp_topic_embedding = embedding,
                 sp_context_text = context_text, sp_memory_ids = memory_ids, sp_created_at = now, sp_hit_count = 0,
                 sp_last_accessed = now \<rparr>]\<rparr>)) topics builder"

definition entry_score :: "(string \<Rightarrow> string) \<Rightarrow> string \<Rightarrow> Embedding option \<Rightarrow> CacheEntry \<Rightarrow> f32" where
  "entry_score lower query query_embedding entry =
     (case (query_embedding, sp_topic_embedding entry) of
        (Some qe, Some te) \<Rightarrow> summed_cosine qe te
      | _ \<Rightarrow> keyword_overlap_score lower query (sp_topic entry))"

fun best_entry :: "(CacheEntry \<Rightarrow> f32) \<Rightarrow> nat \<Rightarrow> CacheEntry list \<Rightarrow> nat option \<times> f32 \<Rightarrow> nat option \<times> f32" where
  "best_entry score i [] best = best"
| "best_entry score i (e # es) (best_idx, best_score) =
     best_entry score (i + 1) es
       (if fl_lt best_score (score e) then (Some i, score e) else (best_idx, best_score))"

definition uses_embeddings :: "Embedding option \<Rightarrow> CacheEntry list \<Rightarrow> bool" where
  "uses_embeddings query_embedding es = (query_embedding \<noteq> None \<and> list_ex (\<lambda>e. sp_topic_embedding e \<noteq> None) es)"

definition hit_threshold :: "SpeculativeCache \<Rightarrow> Embedding option \<Rightarrow> f32" where
  "hit_threshold c query_embedding =
     (if uses_embeddings query_embedding (sc_entries c) then sc_embedding_threshold c else sc_keyword_threshold c)"

definition try_hit :: "(string \<Rightarrow> string) \<Rightarrow> Timestamp \<Rightarrow> SpeculativeCache \<Rightarrow> string \<Rightarrow> Embedding option
    \<Rightarrow> CacheEntry option \<times> SpeculativeCache" where
  "try_hit lower now c query query_embedding =
     (let (best_idx, best_score) = best_entry (entry_score lower query query_embedding) 0 (sc_entries c) (None, Fin 0);
          threshold = hit_threshold c query_embedding;
          miss = (None, c\<lparr>sc_stats := (sc_stats c)\<lparr>st_misses := wrap64 (st_misses (sc_stats c) + 1)\<rparr>\<rparr>)
      in if fl_lt threshold best_score
         then case best_idx of None \<Rightarrow> miss
           | Some idx \<Rightarrow>
               (let entry = (sc_entries c ! idx)\<lparr>sp_hit_count := wrap32 (sp_hit_count (sc_entries c ! idx) + 1),
                      sp_last_accessed := now\<rparr>
                in (Some entry, c\<lparr>sc_entries := (sc_entries c)[idx := entry],
                      sc_stats := (sc_stats c)\<lparr>st_hits := wrap64 (st_hits (sc_stats c) + 1)\<rparr>\<rparr>))
         else miss)"

text \<open>The age is a 64-bit subtraction, which wraps when an entry was created after \<open>now\<close>.\<close>

definition entry_age :: "Timestamp \<Rightarrow> CacheEntry \<Rightarrow> nat" where
  "entry_age now e = wrap64 (now + u64_mod - sp_created_at e)"

definition evict_stale :: "SpeculativeCache \<Rightarrow> nat \<Rightarrow> Timestamp \<Rightarrow> SpeculativeCache" where
  "evict_stale c max_age_us now =
     (let kept = filter (\<lambda>e. entry_age now e \<le> max_age_us) (sc_entries c);
          evicted = length (sc_entries c) - length kept
      in c\<lparr>sc_entries := kept, sc_stats := (sc_stats c)\<lparr>st_evictions := wrap64 (st_evictions (sc_stats c) + evicted)\<rparr>\<rparr>)"

definition spec_stats :: "SpeculativeCache \<Rightarrow> SpecStats" where
  "spec_stats c = (sc_stats c)\<lparr>st_cache_size := length (sc_entries c)\<rparr>"

section \<open>Snapshots\<close>

record CacheSnapshot =
  sn_version :: nat
  sn_entries :: "CacheEntry list"
  sn_stats :: SpecStats

definition CACHE_SNAPSHOT_VERSION :: nat where
  "CACHE_SNAPSHOT_VERSION = 1"

definition snapshot_of :: "SpeculativeCache \<Rightarrow> nat \<Rightarrow> CacheSnapshot" where
  "snapshot_of c min_hits = \<lparr> sn_version = CACHE_SNAPSHOT_VERSION,
     sn_entries = filter (\<lambda>e. min_hits \<le> sp_hit_count e) (sc_entries c), sn_stats = sc_stats c \<rparr>"

fun merge_entries :: "Timestamp \<Rightarrow> SpeculativeCache \<Rightarrow> CacheEntry list \<Rightarrow> SpeculativeCache" where
  "merge_entries now c [] = c"
| "merge_entries now c (entry # es) =
     (let c = make_room c in
      merge_entries now
        (if has_topic c (sp_topic entry) then c
         else c\<lparr>sc_entries := sc_entries c @ [entry\<lparr>sp_last_accessed := now\<rparr>]\<rparr>) es)"

definition load_snapshot :: "Timestamp \<Rightarrow> SpeculativeCache \<Rightarrow> CacheSnapshot \<Rightarrow> unit MenteResult \<times> SpeculativeCache" where
  "load_snapshot now c snap =
     (if sn_version snap \<noteq> CACHE_SNAPSHOT_VERSION
      then (Err (Io (''unsupported cache snapshot version: '' @ show_nat (sn_version snap)
              @ '' (expected '' @ show_nat CACHE_SNAPSHOT_VERSION @ '')'')), c)
      else let c = merge_entries now c (sn_entries snap);
               s = sc_stats c; t = sn_stats snap
           in (Ok (), c\<lparr>sc_stats := s\<lparr>st_hits := wrap64 (st_hits s + st_hits t),
                 st_misses := wrap64 (st_misses s + st_misses t),
                 st_evictions := wrap64 (st_evictions s + st_evictions t)\<rparr>\<rparr>))"

section \<open>The invariant\<close>

definition spec_inv :: "SpeculativeCache \<Rightarrow> bool" where
  "spec_inv c \<longleftrightarrow> distinct (map sp_topic (sc_entries c)) \<and> length (sc_entries c) \<le> max 1 (sc_max_size c)"

lemma min_index_spec:
  assumes "b < i" "key = sp_last_accessed (es ! b)" "\<forall>j < i. key \<le> sp_last_accessed (es ! j)" "i \<le> length es"
  shows "min_index i (b, key) (drop i es) < length es
    \<and> (\<forall>j < length es. sp_last_accessed (es ! min_index i (b, key) (drop i es)) \<le> sp_last_accessed (es ! j))"
  using assms
proof (induction "length es - i" arbitrary: i b key)
  case 0
  then show ?case by simp
next
  case (Suc n)
  have d: "drop i es = es ! i # drop (Suc i) es" using Suc.hyps(2) by (simp add: Cons_nth_drop_Suc)
  show ?case
  proof (cases "sp_last_accessed (es ! i) < key")
    case True
    have "\<forall>j < Suc i. sp_last_accessed (es ! i) \<le> sp_last_accessed (es ! j)"
      using True Suc.prems(3) by (auto simp: less_Suc_eq intro: order.trans[OF less_imp_le])
    then show ?thesis using True Suc.hyps(1)[of "Suc i" i "sp_last_accessed (es ! i)"] Suc.hyps(2) d by simp
  next
    case False
    then have "\<forall>j < Suc i. key \<le> sp_last_accessed (es ! j)" using Suc.prems(3) by (auto simp: less_Suc_eq)
    then show ?thesis using False Suc.hyps(1)[of "Suc i" b key] Suc.hyps(2) Suc.prems(1,2) d by simp
  qed
qed

lemma lru_index_spec:
  assumes "es \<noteq> []"
  shows "lru_index es < length es \<and> (\<forall>j < length es. sp_last_accessed (es ! lru_index es) \<le> sp_last_accessed (es ! j))"
proof -
  obtain e es' where es: "es = e # es'" using assms by (cases es) auto
  then show ?thesis using min_index_spec[of 0 1 "sp_last_accessed e" es] by (simp add: lru_index_def)
qed

lemma make_room_spec:
  assumes "spec_inv c"
  shows "spec_inv (make_room c) \<and> length (sc_entries (make_room c)) < max 1 (sc_max_size c)
    \<and> sc_max_size (make_room c) = sc_max_size c \<and> set (sc_entries (make_room c)) \<subseteq> set (sc_entries c)"
proof (cases "sc_max_size c \<le> length (sc_entries c) \<and> sc_entries c \<noteq> []")
  case True
  let ?es = "sc_entries c" and ?i = "lru_index (sc_entries c)"
  have i: "?i < length ?es" using lru_index_spec True by blast
  have len: "length (remove_at ?i ?es) < length ?es" using i by (simp add: remove_at_def)
  have "map sp_topic (remove_at ?i ?es) = remove_at ?i (map sp_topic ?es)"
    by (simp add: remove_at_def take_map drop_map)
  moreover have "distinct (remove_at k xs)" if "distinct xs" for k and xs :: "string list"
    using that set_take_disj_set_drop_if_distinct[of xs k "Suc k"] by (simp add: remove_at_def)
  ultimately have "distinct (map sp_topic (remove_at ?i ?es))" using assms by (simp add: spec_inv_def)
  moreover have "set (remove_at ?i ?es) \<subseteq> set ?es" by (auto simp: remove_at_def dest: in_set_takeD in_set_dropD)
  ultimately show ?thesis using True assms len by (auto simp: make_room_def evict_lru_def spec_inv_def)
next
  case False
  then show ?thesis using assms by (auto simp: make_room_def evict_lru_def spec_inv_def)
qed

lemma push_entry_inv:
  assumes "spec_inv c" "\<not> has_topic (make_room c) (sp_topic e)"
  shows "spec_inv ((make_room c)\<lparr>sc_entries := sc_entries (make_room c) @ [e]\<rparr>)"
  using make_room_spec[OF assms(1)] assms(2) by (auto simp: spec_inv_def has_topic_def list_ex_iff)

lemma has_topic_make_room: "spec_inv c \<Longrightarrow> \<not> has_topic c t \<Longrightarrow> \<not> has_topic (make_room c) t"
  using make_room_spec by (fastforce simp: has_topic_def list_ex_iff)

lemma pre_assemble_inv: "spec_inv c \<Longrightarrow> spec_inv (pre_assemble now c topics builder)"
proof (induction topics arbitrary: c)
  case (Cons t topics)
  show ?case
  proof (cases "has_topic c t \<or> builder t = None")
    case True
    then show ?thesis using Cons by auto
  next
    case False
    then obtain x ids em where b: "builder t = Some (x, ids, em)" by (cases "builder t") auto
    have "\<not> has_topic (make_room c) t" using has_topic_make_room Cons.prems False by blast
    then show ?thesis using Cons.IH push_entry_inv[OF Cons.prems] False b by (simp add: Let_def)
  qed
qed simp

lemma merge_entries_inv: "spec_inv c \<Longrightarrow> spec_inv (merge_entries now c es)"
proof (induction es arbitrary: c)
  case (Cons e es)
  have "spec_inv (make_room c)" using make_room_spec Cons.prems by blast
  then show ?case using Cons.IH push_entry_inv[OF Cons.prems, of "e\<lparr>sp_last_accessed := now\<rparr>"] by (simp add: Let_def)
qed simp

lemma best_entry_spec:
  assumes "best_entry score i es (b, s) = (b', s')"
  shows "\<not> fl_lt s' s \<and> (\<forall>e \<in> set es. \<not> fl_lt s' (score e))
      \<and> ((b', s') = (b, s) \<or> (\<exists>k < length es. b' = Some (i + k) \<and> s' = score (es ! k) \<and> fl_lt s s'))"
  using assms
proof (induction es arbitrary: i b s)
  case (Cons e es)
  define b1 s1 where "b1 = (if fl_lt s (score e) then Some i else b)" and "s1 = (if fl_lt s (score e) then score e else s)"
  have "best_entry score (i + 1) es (b1, s1) = (b', s')" using Cons.prems by (auto simp: b1_def s1_def split: if_splits)
  from Cons.IH[OF this] have IH: "\<not> fl_lt s' s1" "\<forall>e \<in> set es. \<not> fl_lt s' (score e)"
    and d: "(b', s') = (b1, s1) \<or> (\<exists>k < length es. b' = Some (i + 1 + k) \<and> s' = score (es ! k) \<and> fl_lt s1 s')" by blast+
  have le: "\<not> fl_lt s' s \<and> \<not> fl_lt s' (score e) \<and> (fl_lt s1 s' \<longrightarrow> fl_lt s s')"
    using IH(1) d by (auto simp: s1_def split: if_splits dest: fl_lt_asym fl_lt_trans)
  have "(b', s') = (b, s) \<or> (\<exists>k < length (e # es). b' = Some (i + k) \<and> s' = score ((e # es) ! k) \<and> fl_lt s s')"
    using d
  proof
    assume "(b', s') = (b1, s1)"
    then show ?thesis by (cases "fl_lt s (score e)") (auto simp: b1_def s1_def intro: exI[of _ 0])
  next
    assume "\<exists>k < length es. b' = Some (i + 1 + k) \<and> s' = score (es ! k) \<and> fl_lt s1 s'"
    then obtain k where "k < length es" "b' = Some (i + 1 + k)" "s' = score (es ! k)" "fl_lt s1 s'" by blast
    then show ?thesis using le by (intro disjI2 exI[of _ "Suc k"]) simp
  qed
  then show ?case using le IH(2) by auto
qed simp

text \<open>What a lookup does when it misses and when it hits.\<close>

definition spec_miss :: "SpeculativeCache \<Rightarrow> SpeculativeCache" where
  "spec_miss c = c\<lparr>sc_stats := (sc_stats c)\<lparr>st_misses := wrap64 (st_misses (sc_stats c) + 1)\<rparr>\<rparr>"

lemma try_hit_cases:
  assumes "try_hit lower now c query qe = (r, c')"
  shows "(r = None \<and> c' = spec_miss c)
    \<or> (\<exists>k < length (sc_entries c). \<exists>e. r = Some e
        \<and> e = (sc_entries c ! k)\<lparr>sp_hit_count := wrap32 (sp_hit_count (sc_entries c ! k) + 1), sp_last_accessed := now\<rparr>
        \<and> c' = c\<lparr>sc_entries := (sc_entries c)[k := e], sc_stats := (sc_stats c)\<lparr>st_hits := wrap64 (st_hits (sc_stats c) + 1)\<rparr>\<rparr>
        \<and> fl_lt (Fin 0) (entry_score lower query qe (sc_entries c ! k))
        \<and> (\<forall>x \<in> set (sc_entries c). \<not> fl_lt (entry_score lower query qe (sc_entries c ! k)) (entry_score lower query qe x))
        \<and> fl_lt (hit_threshold c qe)
             (entry_score lower query qe (sc_entries c ! k)))"
proof -
  obtain b s where b: "best_entry (entry_score lower query qe) 0 (sc_entries c) (None, Fin 0) = (b, s)" by fastforce
  note B = best_entry_spec[OF b]
  show ?thesis
  proof (cases b)
    case None
    then show ?thesis using assms by (auto simp: try_hit_def b Let_def spec_miss_def split: if_splits)
  next
    case (Some k)
    then have "k < length (sc_entries c)" "s = entry_score lower query qe (sc_entries c ! k)" "fl_lt (Fin 0) s"
      using B by auto
    then show ?thesis using assms B Some by (auto simp: try_hit_def b Let_def spec_miss_def split: if_splits)
  qed
qed

lemma try_hit_None:
  assumes "try_hit lower now c query qe = (None, c')" "e \<in> set (sc_entries c)"
    "fl_lt (Fin 0) (entry_score lower query qe e)"
  shows "\<not> fl_lt (hit_threshold c qe)
      (entry_score lower query qe e)"
proof -
  obtain b s where b: "best_entry (entry_score lower query qe) 0 (sc_entries c) (None, Fin 0) = (b, s)" by fastforce
  note B = best_entry_spec[OF b]
  obtain k where k: "b = Some k" "fl_lt (Fin 0) s" using B assms(2,3) by auto
  then have "s \<noteq> NaN" by auto
  have "\<not> fl_lt (hit_threshold c qe) s"
    using assms(1) k by (auto simp: try_hit_def b Let_def split: if_splits)
  then show ?thesis using B assms(2) \<open>s \<noteq> NaN\<close> fl_lt_negtrans by blast
qed

lemma try_hit_inv:
  assumes "spec_inv c"
  shows "spec_inv (snd (try_hit lower now c query qe))"
proof -
  obtain r c' where t: "try_hit lower now c query qe = (r, c')" by fastforce
  have "map sp_topic ((sc_entries c)[k := (sc_entries c ! k)\<lparr>sp_hit_count := h, sp_last_accessed := now\<rparr>])
      = map sp_topic (sc_entries c)" for k h
    by (cases "k < length (sc_entries c)") (auto simp: map_update list_update_same_conv list_update_beyond)
  then show ?thesis using try_hit_cases[OF t] assms t by (auto simp: spec_inv_def spec_miss_def)
qed

section \<open>Reachable caches\<close>

text \<open>The caches a program can produce: a new cache, and every public operation on one of them.\<close>

inductive spec_step :: "(string \<Rightarrow> string) \<Rightarrow> SpeculativeCache \<Rightarrow> SpeculativeCache \<Rightarrow> bool" for lower where
  step_pre: "spec_step lower c (pre_assemble now c topics builder)"
| step_hit: "spec_step lower c (snd (try_hit lower now c query qe))"
| step_stale: "spec_step lower c (evict_stale c max_age now)"
| step_load: "spec_step lower c (snd (load_snapshot now c snap))"

inductive spec_reach :: "(string \<Rightarrow> string) \<Rightarrow> SpeculativeCache \<Rightarrow> bool" for lower where
  reach_new: "spec_reach lower (spec_new n kt et)"
| reach_step: "spec_reach lower c \<Longrightarrow> spec_step lower c c' \<Longrightarrow> spec_reach lower c'"

inductive_cases spec_stepE: "spec_step lower c c'"

lemma evict_stale_inv: "spec_inv c \<Longrightarrow> spec_inv (evict_stale c max_age now)"
  by (auto simp: spec_inv_def evict_stale_def Let_def distinct_map_filter intro: order.trans[OF length_filter_le])

lemma load_snapshot_inv: "spec_inv c \<Longrightarrow> spec_inv (snd (load_snapshot now c snap))"
  using merge_entries_inv[of c now "sn_entries snap"] by (auto simp: load_snapshot_def Let_def spec_inv_def)

lemma spec_step_inv: "spec_step lower c c' \<Longrightarrow> spec_inv c \<Longrightarrow> spec_inv c'"
  by (auto elim!: spec_stepE intro: pre_assemble_inv try_hit_inv evict_stale_inv load_snapshot_inv)

section \<open>Properties\<close>

text \<open>In every cache that the public operations can produce, from a new cache on and in any order, each topic is
  cached at most once and there are at most \<open>max_size\<close> entries (one, where \<open>max_size\<close> is 0: an insertion evicts before it
  pushes).\<close>

theorem speculative_cache_bounded:
  assumes "spec_reach lower c"
  shows "distinct (map sp_topic (sc_entries c)) \<and> length (sc_entries c) \<le> max 1 (sc_max_size c)"
proof -
  have "spec_inv c" using assms
  proof induction
    case (reach_new n kt et)
    show ?case by (simp add: spec_inv_def spec_new_def)
  next
    case (reach_step c c')
    then show ?case by (blast intro: spec_step_inv)
  qed
  then show ?thesis by (simp add: spec_inv_def)
qed

theorem speculative_cache_bounded_witness:
  "length (sc_entries (pre_assemble 7 (spec_new 1 (Fin 0) (Fin 0)) [''a'', ''b''] (\<lambda>t. Some (t, [], None)))) \<le> 1"
proof -
  have "spec_reach id (pre_assemble 7 (spec_new 1 (Fin 0) (Fin 0)) [''a'', ''b''] (\<lambda>t. Some (t, [], None)))"
    by (rule reach_step[OF reach_new step_pre])
  from speculative_cache_bounded[OF this] show ?thesis
    by (simp add: spec_new_def has_topic_def make_room_def evict_lru_def remove_at_def lru_index_def)
qed

text \<open>A lookup returns an entry whose score is positive, above the threshold in force and not below that of any other
  entry, with its hit counted and its access time renewed in the cache and in the returned copy; otherwise it returns
  nothing, which happens only when no entry has a positive score above the threshold, and changes nothing but the
  miss count.\<close>

theorem try_hit_best:
  "(case try_hit lower now c query qe of
      (None, c') \<Rightarrow> c' = spec_miss c
        \<and> (\<forall>e \<in> set (sc_entries c). \<not> (fl_lt (Fin 0) (entry_score lower query qe e) \<and> fl_lt (hit_threshold c qe) (entry_score lower query qe e)))
    | (Some hit, c') \<Rightarrow> \<exists>k < length (sc_entries c).
        let e = sc_entries c ! k; score = entry_score lower query qe in
        hit = e\<lparr>sp_hit_count := wrap32 (sp_hit_count e + 1), sp_last_accessed := now\<rparr>
        \<and> sc_entries c' = (sc_entries c)[k := hit]
        \<and> fl_lt (Fin 0) (score e) \<and> fl_lt (hit_threshold c qe) (score e) \<and> (\<forall>x \<in> set (sc_entries c). \<not> fl_lt (score e) (score x)))"
proof (cases "try_hit lower now c query qe")
  case (Pair r c')
  show ?thesis
  proof (cases r)
    case None
    then show ?thesis using Pair try_hit_cases[OF Pair] try_hit_None[OF Pair[unfolded None]] by auto
  next
    case (Some hit)
    then show ?thesis using Pair try_hit_cases[OF Pair] by (auto simp: Let_def)
  qed
qed

definition sample_entry :: "string \<Rightarrow> Embedding option \<Rightarrow> CacheEntry" where
  "sample_entry t em = \<lparr> sp_topic = t, sp_topic_embedding = em, sp_context_text = t, sp_memory_ids = [], sp_created_at = 7,
     sp_hit_count = 0, sp_last_accessed = 7 \<rparr>"

lemma sample_entries:
  "sc_entries (pre_assemble 7 (spec_new 2 kt et) [''ab'', ''cd''] (\<lambda>t. Some (t, [], f t)))
     = [sample_entry ''ab'' (f ''ab''), sample_entry ''cd'' (f ''cd'')]"
  by (simp add: spec_new_def has_topic_def make_room_def sample_entry_def Let_def)

lemma sample_scores:
  "keyword_overlap_score id ''ab'' ''ab'' = Fin 1" "keyword_overlap_score id ''ab'' ''cd'' = Fin 0"
  "summed_cosine [Fin 1] [Fin 0] = Fin 0"
  by code_simp+

lemma pre_assemble_config:
  "sc_keyword_threshold (pre_assemble now c ts b) = sc_keyword_threshold c
   \<and> sc_embedding_threshold (pre_assemble now c ts b) = sc_embedding_threshold c
   \<and> sc_max_size (pre_assemble now c ts b) = sc_max_size c"
  by (induction now c ts b rule: pre_assemble.induct) (auto simp: Let_def make_room_def evict_lru_def split: option.splits)

definition sample_cache :: "(string \<Rightarrow> Embedding option) \<Rightarrow> SpeculativeCache" where
  "sample_cache f = pre_assemble 7 (spec_new 2 (Fin (1/2)) (Fin 1)) [''ab'', ''cd''] (\<lambda>t. Some (t, [], f t))"

lemma sample_cache_fields [simp]:
  "sc_entries (sample_cache f) = [sample_entry ''ab'' (f ''ab''), sample_entry ''cd'' (f ''cd'')]"
  "sc_keyword_threshold (sample_cache f) = Fin (1/2)" "sc_embedding_threshold (sample_cache f) = Fin 1"
  "sc_max_size (sample_cache f) = 2"
  by (simp_all add: sample_cache_def sample_entries pre_assemble_config del: pre_assemble.simps) (simp_all add: spec_new_def)

theorem try_hit_best_witness:
  "fst (try_hit id 9 (sample_cache (\<lambda>_. None)) ''ab'' None)
     = Some ((sample_entry ''ab'' None)\<lparr>sp_hit_count := 1, sp_last_accessed := 9\<rparr>)"
  using try_hit_best[where lower = id and now = 9 and c = "sample_cache (\<lambda>_. None)" and query = "''ab''" and qe = None]
  by (auto simp: entry_score_def sample_entry_def sample_scores hit_threshold_def uses_embeddings_def Let_def less_Suc_eq
      split: prod.splits option.splits)

text \<open>
  The age of an entry created after \<open>now\<close> wraps to almost \<open>2^64\<close>, so such an entry is evicted as stale.
\<close>

lemma evict_stale_future_entry:
  assumes "sc_entries c = [e]" "now < sp_created_at e" "sp_created_at e < u64_mod" "max_age < u64_mod - (sp_created_at e - now)"
  shows "sc_entries (evict_stale c max_age now) = []"
  using assms by (simp add: evict_stale_def entry_age_def wrap64_def Let_def)

text \<open>
  Loading evicts before it looks whether the topic is cached: on a full cache, a snapshot entry whose topic is already
  cached drops the least recently used entry and adds nothing.
\<close>

lemma load_evicts_for_known_topic:
  "map sp_topic (sc_entries (merge_entries 9 (sample_cache f) [sample_entry ''cd'' None])) = [''cd'']"
  by (simp add: make_room_def evict_lru_def remove_at_def lru_index_def has_topic_def sample_entry_def Let_def)

text \<open>
  A keyword score is compared with the embedding threshold as soon as one entry has an embedding: the same exact keyword
  match hits alone and misses beside such an entry when the embedding threshold is 1.
\<close>

lemma mixed_threshold:
  "fst (try_hit id 9 (sample_cache (\<lambda>_. None)) ''ab'' (Some [Fin 1])) \<noteq> None
    \<and> fst (try_hit id 9 (sample_cache (\<lambda>t. if t = ''cd'' then Some [Fin 0] else None)) ''ab'' (Some [Fin 1])) = None"
  by (simp add: try_hit_def entry_score_def sample_entry_def sample_scores hit_threshold_def uses_embeddings_def Let_def)

end
