(* ===== verification/Cognitive_Llm.thy ===== *)
theory Cognitive_Llm
  imports Core_Types Rust_Strings
begin

text \<open>
  The language-model service, \<open>crates/mentedb-cognitive/src/llm.rs\<close>: the verdicts it returns, the user prompt of
  every request, and how a verdict is dug out of the model's answer. The model itself (\<open>judge\<close>) and the JSON
  library (\<open>from_json\<close>, \<open>pretty\<close>) are arguments. A system prompt is a constant text, here one constructor each.
\<close>

section \<open>Errors, verdicts and requests\<close>

datatype LlmJudgeError = ProviderError string | JParseError string | UnexpectedVerdict string

type_synonym 'a JudgeResult = "(LlmJudgeError, 'a) outcome"

datatype InvalidationVerdict = Keep string | Enrich string | Invalidate string | Update string string

datatype ContradictionVerdict = Compatible string | JContradicts string | JSupersedes string string

record EntityMergeGroup =
  eg_canonical :: string
  eg_aliases :: "string list"
  eg_confidence :: f32

record EntityCandidate =
  cand_name :: string
  cand_context :: "string option"
  cand_memory_id :: "MemoryId option"

datatype ConsolidationDecision =
    KeepAll string
  | Merge string string "string list" "string list" string
  | Deduplicate string "string list" string

record TopicLabel =
  tl_topic :: string
  tl_is_new :: bool

record MemorySummary =
  ms_id :: MemoryId
  ms_content :: string
  ms_memory_type :: MemoryType
  ms_confidence :: f32
  ms_created_at :: nat

record ClusterMember =
  cm_id :: string
  cm_content :: string
  cm_memory_type :: string
  cm_confidence :: f32
  cm_created_at :: nat

datatype Prompt = INVALIDATION_SYSTEM | CONTRADICTION_SYSTEM | ENTITY_RESOLUTION_SYSTEM | CONSOLIDATION_SYSTEM
  | TOPIC_SYSTEM | COMMUNITY_SUMMARY_SYSTEM | USER_PROFILE_SYSTEM

type_synonym Judge = "Prompt \<Rightarrow> string \<Rightarrow> string JudgeResult"

section \<open>Finding the JSON text\<close>

text \<open>\<open>depth += 1\<close> and \<open>depth -= 1\<close> on an \<open>i32\<close> wrap.\<close>

definition wrap_i32 :: "int \<Rightarrow> int" where
  "wrap_i32 n = (n + 2147483648) mod 4294967296 - 2147483648"

text \<open>
  The loop of \<open>rfind_matching_brace\<close>, from the opening brace on. It runs over characters in the source and over bytes
  here: the bytes of a character that is not ASCII match no case, and after a backslash only the first byte of a character
  can match one.
\<close>

fun brace_scan :: "nat \<Rightarrow> int \<Rightarrow> bool \<Rightarrow> bool \<Rightarrow> string \<Rightarrow> nat option" where
  "brace_scan i depth in_string escape_next [] = None"
| "brace_scan i depth in_string escape_next (ch # s) =
     (if escape_next then brace_scan (i + 1) depth in_string False s
      else if ch = CHR 0x5C \<and> in_string then brace_scan (i + 1) depth in_string True s
      else if ch = CHR 0x22 then brace_scan (i + 1) depth (\<not> in_string) False s
      else if ch = CHR ''{'' \<and> \<not> in_string then brace_scan (i + 1) (wrap_i32 (depth + 1)) in_string False s
      else if ch = CHR ''}'' \<and> \<not> in_string then
        (if wrap_i32 (depth - 1) = 0 then Some i else brace_scan (i + 1) (wrap_i32 (depth - 1)) in_string False s)
      else brace_scan (i + 1) depth in_string False s)"

definition rfind_matching_brace :: "string \<Rightarrow> nat \<Rightarrow> nat option" where
  "rfind_matching_brace s start = brace_scan start 0 False False (drop start s)"

definition strip_prefix :: "string \<Rightarrow> string \<Rightarrow> string option" where
  "strip_prefix pat s = (if starts_with s pat then Some (drop (length pat) s) else None)"

definition strip_suffix :: "string \<Rightarrow> string \<Rightarrow> string option" where
  "strip_suffix pat s = (if ends_with s pat then Some (take (length s - length pat) s) else None)"

definition fence :: string where
  "fence = [CHR 0x60, CHR 0x60, CHR 0x60]"

text \<open>The text inside a Markdown code block; a text without the closing fence is left as it is.\<close>

definition unfence :: "string \<Rightarrow> string \<Rightarrow> string" where
  "unfence opening trimmed =
     trim (case strip_prefix opening trimmed of None \<Rightarrow> trimmed
           | Some s \<Rightarrow> (case strip_suffix fence s of None \<Rightarrow> trimmed | Some t \<Rightarrow> t))"

definition json_stripped :: "string \<Rightarrow> string" where
  "json_stripped raw =
     (let trimmed = trim raw in
      if starts_with trimmed (fence @ ''json'') then unfence (fence @ ''json'') trimmed
      else if starts_with trimmed fence then unfence fence trimmed
      else trimmed)"

definition json_candidate :: "string \<Rightarrow> string JudgeResult option" where
  "json_candidate stripped =
     (case str_find ''{'' stripped of None \<Rightarrow> None
      | Some start \<Rightarrow> (case rfind_matching_brace stripped start of None \<Rightarrow> None
          | Some stop \<Rightarrow> Some (slice stripped start (stop + 1))))"

definition parse_json_response :: "(string \<Rightarrow> 'a option) \<Rightarrow> string \<Rightarrow> 'a JudgeResult" where
  "parse_json_response from_json raw =
     (let failed = Err (JParseError (''could not parse LLM response as expected type. Raw response: '' @ raw)) in
      case from_json raw of Some v \<Rightarrow> Ok v
      | None \<Rightarrow> (case from_json (json_stripped raw) of Some v \<Rightarrow> Ok v
          | None \<Rightarrow> (case json_candidate (json_stripped raw) of None \<Rightarrow> failed
              | Some candidate \<Rightarrow> bindO candidate (\<lambda>c. case from_json c of Some v \<Rightarrow> Ok v | None \<Rightarrow> failed))))"

section \<open>Requests\<close>

definition blank :: string where
  "blank = [CHR 0x0A, CHR 0x0A]"

definition eol :: string where
  "eol = [CHR 0x0A]"

definition judge_invalidation :: "Judge \<Rightarrow> (MemorySummary \<Rightarrow> string) \<Rightarrow> (string \<Rightarrow> InvalidationVerdict option)
    \<Rightarrow> MemorySummary \<Rightarrow> MemorySummary \<Rightarrow> InvalidationVerdict JudgeResult" where
  "judge_invalidation judge pretty from_json old new =
     bindO (judge INVALIDATION_SYSTEM (''EXISTING memory:'' @ eol @ pretty old @ blank @ ''NEW memory:'' @ eol @ pretty new))
       (parse_json_response from_json)"

definition detect_contradiction :: "Judge \<Rightarrow> (MemorySummary \<Rightarrow> string) \<Rightarrow> (string \<Rightarrow> ContradictionVerdict option)
    \<Rightarrow> MemorySummary \<Rightarrow> MemorySummary \<Rightarrow> ContradictionVerdict JudgeResult" where
  "detect_contradiction judge pretty from_json a b =
     bindO (judge CONTRADICTION_SYSTEM (''Memory A:'' @ eol @ pretty a @ blank @ ''Memory B:'' @ eol @ pretty b))
       (parse_json_response from_json)"

definition resolve_entities :: "Judge \<Rightarrow> (EntityCandidate list \<Rightarrow> string) \<Rightarrow> (string \<Rightarrow> EntityMergeGroup list option)
    \<Rightarrow> EntityCandidate list \<Rightarrow> EntityMergeGroup list JudgeResult" where
  "resolve_entities judge pretty from_json candidates =
     (if candidates = [] then Ok []
      else bindO (judge ENTITY_RESOLUTION_SYSTEM (''Entity references to resolve:'' @ eol @ pretty candidates))
             (parse_json_response from_json))"

definition llm_consolidate :: "Judge \<Rightarrow> (ClusterMember list \<Rightarrow> string) \<Rightarrow> (string \<Rightarrow> ConsolidationDecision option)
    \<Rightarrow> ClusterMember list \<Rightarrow> ConsolidationDecision JudgeResult" where
  "llm_consolidate judge pretty from_json cluster =
     (if cluster = [] then Ok (KeepAll ''Empty cluster'')
      else bindO (judge CONSOLIDATION_SYSTEM (''Memory cluster to consolidate:'' @ eol @ pretty cluster))
             (parse_json_response from_json))"

text \<open>\<open>debug\<close> is the \<open>Debug\<close> format of a list of strings.\<close>

definition llm_canonicalize_topic :: "Judge \<Rightarrow> (string list \<Rightarrow> string) \<Rightarrow> (string \<Rightarrow> TopicLabel option)
    \<Rightarrow> string \<Rightarrow> string list \<Rightarrow> TopicLabel JudgeResult" where
  "llm_canonicalize_topic judge debug from_json message existing_topics =
     bindO (judge TOPIC_SYSTEM (''User message: '' @ [CHR 0x22] @ message @ [CHR 0x22] @ blank
              @ ''Existing topic labels: '' @ debug existing_topics))
       (parse_json_response from_json)"

definition generate_community_summary :: "Judge \<Rightarrow> (string \<Rightarrow> string option) \<Rightarrow> string \<Rightarrow> (string \<times> string) list
    \<Rightarrow> string JudgeResult" where
  "generate_community_summary judge from_json category entities =
     (let entity_list = join eol (map (\<lambda>(name, ctx). ''- '' @ name @ '' '' @ [CHR 0xE2, CHR 0x80, CHR 0x94] @ '' '' @ ctx) entities)
      in bindO (judge COMMUNITY_SUMMARY_SYSTEM (''Category: '' @ category @ blank @ ''Entities in this cluster:'' @ eol @ entity_list))
           (parse_json_response from_json))"

definition bullets :: "string list \<Rightarrow> string" where
  "bullets xs = join eol (map (\<lambda>x. ''- '' @ x) xs)"

definition generate_user_profile :: "Judge \<Rightarrow> (string \<Rightarrow> string option) \<Rightarrow> string list \<Rightarrow> string list \<Rightarrow> string JudgeResult" where
  "generate_user_profile judge from_json facts community_summaries =
     (let sections = (if facts = [] then [] else [''Known facts about the user:'' @ eol @ bullets facts])
            @ (if community_summaries = [] then [] else [''Community summaries:'' @ eol @ bullets community_summaries]);
          user_prompt = join blank sections
      in if user_prompt = [] then Err (JParseError ''no facts or summaries provided for profile generation'')
         else bindO (judge USER_PROFILE_SYSTEM user_prompt) (parse_json_response from_json))"

section \<open>Balanced objects\<close>

text \<open>
  The inside of a JSON object as far as the scanner is concerned: string literals, nested objects, and other bytes.
  The body of a string literal has no bare quote, and a backslash takes the next byte with it.
\<close>

inductive string_body :: "string \<Rightarrow> bool" where
  sb_nil: "string_body []"
| sb_char: "c \<noteq> CHR 0x22 \<Longrightarrow> c \<noteq> CHR 0x5C \<Longrightarrow> string_body s \<Longrightarrow> string_body (c # s)"
| sb_escape: "string_body s \<Longrightarrow> string_body (CHR 0x5C # c # s)"

inductive object_body :: "nat \<Rightarrow> string \<Rightarrow> bool" where
  ob_nil: "object_body n []"
| ob_char: "c \<noteq> CHR 0x22 \<Longrightarrow> c \<noteq> CHR ''{'' \<Longrightarrow> c \<noteq> CHR ''}'' \<Longrightarrow> object_body n s \<Longrightarrow> object_body n (c # s)"
| ob_string: "string_body t \<Longrightarrow> object_body n s \<Longrightarrow> object_body n (CHR 0x22 # t @ CHR 0x22 # s)"
| ob_nested: "object_body n t \<Longrightarrow> object_body (Suc n) s \<Longrightarrow> object_body (Suc n) (CHR ''{'' # t @ CHR ''}'' # s)"

text \<open>The index bounds the nesting.\<close>

lemma wrap_i32_id [simp]: "- 2147483648 \<le> n \<Longrightarrow> n < 2147483648 \<Longrightarrow> wrap_i32 n = n"
  by (simp add: wrap_i32_def)

lemma brace_scan_string:
  "string_body t \<Longrightarrow> brace_scan i d True False (t @ CHR 0x22 # s) = brace_scan (i + length t + 1) d False False s"
  by (induction t arbitrary: i rule: string_body.induct) simp_all

lemma brace_scan_object:
  "object_body n t \<Longrightarrow> 1 \<le> d \<Longrightarrow> d + int n < 2147483648
   \<Longrightarrow> brace_scan i d False False (t @ s) = brace_scan (i + length t) d False False s"
proof (induction n t arbitrary: i d s rule: object_body.induct)
  case (ob_string t n s')
  then show ?case by (simp add: brace_scan_string add.assoc)
next
  case (ob_nested n t s')
  have "brace_scan (i + 1) (d + 1) False False (t @ CHR ''}'' # s' @ s)
      = brace_scan (i + 1 + length t) (d + 1) False False (CHR ''}'' # s' @ s)"
    using ob_nested.IH(1)[of "d + 1"] ob_nested.prems by simp
  also have "\<dots> = brace_scan (i + 1 + length t + 1) d False False (s' @ s)" using ob_nested.prems by simp
  also have "\<dots> = brace_scan (i + 1 + length t + 1 + length s') d False False s"
    using ob_nested.IH(2) ob_nested.prems by simp
  finally show ?case using ob_nested.prems by (simp add: add.assoc)
qed simp_all

lemma rfind_matching_brace_object:
  assumes "object_body n body" "n < 2147483647" "CHR ''{'' \<notin> set p"
  shows "str_find ''{'' (p @ CHR ''{'' # body @ CHR ''}'' # q) = Some (length p)"
    "rfind_matching_brace (p @ CHR ''{'' # body @ CHR ''}'' # q) (length p) = Some (length p + length body + 1)"
proof -
  show "str_find ''{'' (p @ CHR ''{'' # body @ CHR ''}'' # q) = Some (length p)"
    using assms(3) by (induction p) auto
  show "rfind_matching_brace (p @ CHR ''{'' # body @ CHR ''}'' # q) (length p) = Some (length p + length body + 1)"
    using brace_scan_object[OF assms(1), of 1 "length p + 1" "CHR ''}'' # q"] assms(2)
    by (simp add: rfind_matching_brace_def)
qed

section \<open>No panics, and only parts of the answer\<close>

text \<open>In a text, no continuation byte follows an ASCII byte; this passes to every part of the text.\<close>

definition ascii_closed :: "string \<Rightarrow> bool" where
  "ascii_closed s \<longleftrightarrow> (\<forall>i. Suc i < length s \<longrightarrow> byte (s ! i) < 128 \<longrightarrow> \<not> is_continuation (s ! Suc i))"

lemma valid_utf8_hd: "valid_utf8 (c # cs) \<Longrightarrow> \<not> is_continuation c"
  by (auto simp: utf8_width_def is_continuation_def split: if_splits)

lemma valid_utf8_ascii_closed: "valid_utf8 s \<Longrightarrow> ascii_closed s"
proof (induction s rule: valid_utf8.induct)
  case (2 c cs)
  define w where "w = utf8_width (byte c) - 1"
  have v: "list_all is_continuation (take w cs)" "w \<le> length cs" "valid_utf8 (drop w cs)"
    using "2.prems" by (simp_all add: w_def)
  have IH: "ascii_closed (drop w cs)" using "2.IH" v(3) by (simp add: w_def)
  show ?case unfolding ascii_closed_def
  proof (intro allI impI)
    fix i assume i: "Suc i < length (c # cs)" "byte ((c # cs) ! i) < 128"
    have *: "\<not> byte (cs ! j) < 128" if "j < w" for j
      using v(1,2) that by (auto simp: list_all_length is_continuation_def dest!: spec[of _ j])
    show "\<not> is_continuation ((c # cs) ! Suc i)"
    proof (cases "i \<ge> w")
      case True
      have "\<not> is_continuation (cs ! w)" if "w < length cs"
        using v(3) valid_utf8_hd[of "cs ! w" "drop (Suc w) cs"] that by (simp add: Cons_nth_drop_Suc)
      moreover have "\<not> is_continuation (cs ! i)" if "i > w"
        using IH[unfolded ascii_closed_def, rule_format, of "i - w - 1"] i that by (cases i) auto
      ultimately show ?thesis using True i(1) by (cases "i = w") auto
    next
      case False
      then show ?thesis using i * by (cases i) (auto simp: w_def utf8_width_def)
    qed
  qed
qed (simp add: ascii_closed_def)

lemma ascii_closed_part: "ascii_closed (x @ y @ z) \<Longrightarrow> ascii_closed y"
  unfolding ascii_closed_def
proof (intro allI impI)
  fix i assume a: "\<forall>i. Suc i < length (x @ y @ z) \<longrightarrow> byte ((x @ y @ z) ! i) < 128 \<longrightarrow> \<not> is_continuation ((x @ y @ z) ! Suc i)"
    and i: "Suc i < length y" "byte (y ! i) < 128"
  show "\<not> is_continuation (y ! Suc i)"
    using a[rule_format, of "length x + i"] i by (simp add: nth_append)
qed

definition part_of :: "string \<Rightarrow> string \<Rightarrow> bool" where
  "part_of y s \<longleftrightarrow> (\<exists>x z. s = x @ y @ z)"

lemma part_of_refl [simp]: "part_of s s"
  unfolding part_of_def by (metis append_Nil append_Nil2)

lemma part_of_trans: "part_of a b \<Longrightarrow> part_of b c \<Longrightarrow> part_of a c"
  unfolding part_of_def by (metis append.assoc)

lemma part_of_take_drop: "part_of (take n (drop k s)) s"
  unfolding part_of_def by (metis append_take_drop_id)

lemma part_of_trim: "part_of (trim s) s"
proof -
  have "\<exists>k. trim_start s = drop k s"
  proof (induction s rule: trim_start.induct)
    case (2 c cs)
    then show ?case by (metis drop_0 drop_Suc_Cons drop_drop trim_start.simps(2))
  qed simp
  then show ?thesis using part_of_take_drop by (auto simp: trim_def Let_def)
qed

lemma part_of_stripped: "part_of (json_stripped raw) raw"
proof -
  have "part_of (unfence mark t) t" for mark t
  proof -
    have "part_of (case strip_prefix mark t of None \<Rightarrow> t
        | Some s \<Rightarrow> (case strip_suffix fence s of None \<Rightarrow> t | Some t \<Rightarrow> t)) t"
      using part_of_take_drop[of _ "length mark" t]
      by (auto simp: strip_prefix_def strip_suffix_def split: option.splits)
    then show ?thesis unfolding unfence_def using part_of_trim part_of_trans by blast
  qed
  then have "part_of (unfence mark (trim raw)) raw" for mark using part_of_trim part_of_trans by blast
  then show ?thesis by (simp add: json_stripped_def Let_def part_of_trim)
qed

lemma brace_scan_SomeD: "brace_scan i d q e t = Some k \<Longrightarrow> i \<le> k \<and> k < i + length t \<and> t ! (k - i) = CHR ''}''"
proof (induction t arbitrary: i d q e)
  case (Cons ch t)
  have *: "i \<le> k \<and> k < i + length (ch # t) \<and> (ch # t) ! (k - i) = CHR ''}''"
    if "brace_scan (i + 1) d' q' e' t = Some k" for d' q' e'
    using Cons.IH[OF that] by (auto simp: nth_Cons')
  show ?case
  proof (cases "k = i \<and> ch = CHR ''}''")
    case False
    then have "\<exists>d' q' e'. brace_scan (i + 1) d' q' e' t = Some k" using Cons.prems by (auto split: if_splits)
    then show ?thesis using * by blast
  qed simp
qed simp

lemma json_candidate_cases:
  assumes "ascii_closed s" "json_candidate s = Some r"
  shows "\<exists>c. r = Ok c \<and> part_of c s"
proof -
  obtain a k where a: "str_find ''{'' s = Some a" and k: "rfind_matching_brace s a = Some k" and r: "r = slice s a (k + 1)"
    using assms(2) by (auto simp: json_candidate_def split: option.splits)
  have al: "a + 1 \<le> length s" "take 1 (drop a s) = ''{''" using str_find_SomeD[OF a] by auto
  then have sa: "s ! a = CHR ''{''" by (metis Suc_eq_plus1 Suc_le_lessD hd_drop_conv_nth list.sel(1) hd_take zero_less_one)
  have kk: "a \<le> k" "k < length s" "s ! k = CHR ''}''"
    using brace_scan_SomeD[OF k[unfolded rfind_matching_brace_def]] al(1) by auto
  have "is_char_boundary s a" using sa al(1) by (simp add: is_char_boundary_def is_continuation_def byte_def)
  moreover have "is_char_boundary s (k + 1)"
    using assms(1) kk unfolding ascii_closed_def is_char_boundary_def by (cases "k + 1 = length s") (auto simp: byte_def)
  ultimately have "r = Ok (take (k + 1 - a) (drop a s))" using r kk by (simp add: slice_def)
  then show ?thesis using part_of_take_drop by blast
qed

section \<open>Properties\<close>

text \<open>A verdict is never invented and never costs a panic: whatever text the model answers, the parser returns, and what
  it returns is the JSON library's reading of a contiguous part of the answer; it reports an error only when neither the
  answer, nor its unfenced text, nor the first braced object in it can be read.\<close>

theorem parse_json_response_sound:
  assumes "valid_utf8 raw"
  shows "(\<exists>v part. parse_json_response from_json raw = Ok v \<and> part_of part raw \<and> from_json part = Some v)
    \<or> (\<exists>e. parse_json_response from_json raw = Err (JParseError e) \<and> from_json raw = None
         \<and> from_json (json_stripped raw) = None
         \<and> (\<forall>c. json_candidate (json_stripped raw) = Some (Ok c) \<longrightarrow> from_json c = None))"
proof -
  let ?s = "json_stripped raw"
  have closed: "ascii_closed ?s"
    using valid_utf8_ascii_closed[OF assms] part_of_stripped[of raw] ascii_closed_part unfolding part_of_def by metis
  have cand: "\<exists>c. r = Ok c \<and> part_of c raw" if "json_candidate ?s = Some r" for r
    using json_candidate_cases[OF closed that] part_of_stripped part_of_trans by blast
  show ?thesis
  proof (cases "from_json raw = None \<and> from_json ?s = None \<and> json_candidate ?s \<noteq> None")
    case True
    then obtain c where "json_candidate ?s = Some (Ok c)" "part_of c raw" using cand by blast
    then show ?thesis using True by (auto simp: parse_json_response_def Let_def split: option.splits)
  next
    case False
    then consider (direct) v where "from_json raw = Some v"
      | (stripped) v where "from_json raw = None" "from_json ?s = Some v"
      | (failed) "from_json raw = None" "from_json ?s = None" "json_candidate ?s = None" by (cases "from_json raw") auto
    then show ?thesis
    proof cases
      case direct
      then show ?thesis by (auto simp: parse_json_response_def Let_def intro: exI[of _ raw])
    next
      case stripped
      then show ?thesis using part_of_stripped[of raw] by (auto simp: parse_json_response_def Let_def)
    qed (simp add: parse_json_response_def Let_def)
  qed
qed

text \<open>The witness: an answer with a braced word in prose, read by a reader that accepts one object only.\<close>

theorem parse_json_response_sound_witness:
  "\<exists>part. part_of part ''so {a}'' \<and> (if part = ''{a}'' then Some True else None) = Some True"
proof -
  let ?f = "\<lambda>t. if t = ''{a}'' then Some True else None"
  have "valid_utf8 ''so {a}''" by code_simp
  moreover have "parse_json_response ?f ''so {a}'' = Ok True" by code_simp
  ultimately obtain v part where "part_of part ''so {a}''" "?f part = Some v"
    using parse_json_response_sound[of "''so {a}''" ?f] by (metis outcome.distinct(1))
  then show ?thesis by (auto split: if_splits)
qed

text \<open>The parser finds the object that a model wraps in prose: when the unfenced answer is some text without an
  opening brace, a balanced object (braces inside string literals do not count, escaped quotes do not end a literal), and any
  other text, the object is what the JSON library gets to read.\<close>

theorem parse_json_embedded_object:
  assumes "valid_utf8 raw" "json_stripped raw = p @ CHR ''{'' # body @ CHR ''}'' # q"
    and "object_body n body" "n < 2147483647" "CHR ''{'' \<notin> set p"
    and "from_json raw = None" "from_json (json_stripped raw) = None"
    and "from_json (CHR ''{'' # body @ ''}'') = Some v"
  shows "parse_json_response from_json raw = Ok v"
proof -
  let ?s = "p @ CHR ''{'' # body @ CHR ''}'' # q"
  have closed: "ascii_closed ?s"
    using valid_utf8_ascii_closed[OF assms(1)] part_of_stripped[of raw] ascii_closed_part assms(2) unfolding part_of_def by metis
  have c: "json_candidate ?s = Some (slice ?s (length p) (length p + length body + 2))"
    using rfind_matching_brace_object[OF assms(3,4,5)] by (simp add: json_candidate_def)
  then obtain t where "slice ?s (length p) (length p + length body + 2) = (Ok t :: string JudgeResult)"
    using json_candidate_cases[OF closed c] by blast
  moreover from this have "t = CHR ''{'' # body @ ''}''" by (simp add: slice_eq_Ok)
  ultimately show ?thesis using assms(2,6,7,8) c by (simp add: parse_json_response_def)
qed

theorem parse_json_embedded_object_witness:
  "parse_json_response (\<lambda>t. if t = ''{a}'' then Some True else None) ''so {a} ok'' = Ok True"
proof -
  have s: "json_stripped ''so {a} ok'' = ''so '' @ CHR ''{'' # ''a'' @ CHR ''}'' # '' ok''" by code_simp
  have "valid_utf8 ''so {a} ok''" by code_simp
  then show ?thesis by (rule parse_json_embedded_object[OF _ s, where n = 0]) (simp_all add: s ob_char ob_nil)
qed

end
