(* ===== verification/Cognitive_Inference.thy ===== *)
theory Cognitive_Inference
  imports Cognitive_Interference Cognitive_Llm Core_Versions Rust_Text
begin

text \<open>
  Write inference, \<open>crates/mentedb-cognitive/src/write_inference.rs\<close>: what storing a memory implies for the memories
  similar to it, by thresholds alone or with verdicts of the language-model service. The service's two methods
  (\<open>judge_inv\<close>, \<open>detect\<close>) and the \<open>Display\<close> of identifiers (\<open>id_show\<close>) are arguments. The crate's cosine similarity is the
  same loop as in \<open>interference.rs\<close> (\<open>indexed_cosine\<close>).
\<close>

section \<open>Actions\<close>

datatype InferredAction =
    FlagContradiction MemoryId MemoryId string
  | MarkObsolete MemoryId MemoryId
  | InvalidateMemory MemoryId MemoryId nat
  | UpdateContent MemoryId string string
  | CreateEdge MemoryId MemoryId EdgeType f32
  | UpdateConfidence MemoryId f32
  | PropagateBeliefChange MemoryId f32

record WriteInferenceConfig =
  wc_contradiction_threshold :: f32
  wc_obsolete_threshold :: f32
  wc_related_min :: f32
  wc_related_max :: f32
  wc_correction_threshold :: f32
  wc_confidence_decay_factor :: f32
  wc_confidence_floor :: f32

definition write_inference_config_default :: WriteInferenceConfig where
  "write_inference_config_default =
     \<lparr> wc_contradiction_threshold = f32_of (95/100), wc_obsolete_threshold = f32_of (85/100),
       wc_related_min = f32_of (6/10), wc_related_max = f32_of (85/100), wc_correction_threshold = f32_of (1/2),
       wc_confidence_decay_factor = f32_of (1/2), wc_confidence_floor = f32_of (1/10) \<rparr>"

definition lowered_confidence :: "WriteInferenceConfig \<Rightarrow> f32 \<Rightarrow> f32" where
  "lowered_confidence cfg c = fl_max (fl_mul f32_of c (wc_confidence_decay_factor cfg)) (wc_confidence_floor cfg)"

definition memory_sim :: "MemoryNode \<Rightarrow> MemoryNode \<Rightarrow> f32" where
  "memory_sim new_memory existing = indexed_cosine (mn_embedding new_memory) (mn_embedding existing)"

section \<open>Inference by thresholds\<close>

definition related_action :: "WriteInferenceConfig \<Rightarrow> MemoryNode \<Rightarrow> MemoryNode \<Rightarrow> InferredAction list" where
  "related_action cfg new_memory existing =
     (let sim = memory_sim new_memory existing in
      if fl_lt (wc_related_min cfg) sim \<and> fl_le sim (wc_related_max cfg)
      then [CreateEdge (mn_id new_memory) (mn_id existing) Related sim] else [])"

definition infer_existing :: "WriteInferenceConfig \<Rightarrow> MemoryNode \<Rightarrow> MemoryNode \<Rightarrow> InferredAction list" where
  "infer_existing cfg new_memory existing =
     (if mn_id existing = mn_id new_memory then []
      else let sim = memory_sim new_memory existing in
        (if fl_lt (wc_contradiction_threshold cfg) sim \<and> mn_agent_id existing = mn_agent_id new_memory
            \<and> mn_content existing \<noteq> mn_content new_memory
         then [FlagContradiction (mn_id existing) (mn_id new_memory)
                 (''High embedding similarity ('' @ show_fixed 3 sim @ '') with different content from same agent'')]
         else [])
        @ (if fl_lt (wc_obsolete_threshold cfg) sim \<and> mn_created_at existing < mn_created_at new_memory
           then [MarkObsolete (mn_id existing) (mn_id new_memory),
                 InvalidateMemory (mn_id existing) (mn_id new_memory) (mn_created_at new_memory)]
           else [])
        @ related_action cfg new_memory existing)"

text \<open>\<open>max_by\<close> with \<open>partial_cmp\<close>: the last of the greatest; incomparable similarities count as equal.\<close>

fun max_by_sim :: "(MemoryNode \<Rightarrow> f32) \<Rightarrow> MemoryNode list \<Rightarrow> MemoryNode option" where
  "max_by_sim f [] = None"
| "max_by_sim f (x # xs) = Some (foldl (\<lambda>a b. if fl_lt (f b) (f a) then a else b) x xs)"

definition most_similar :: "MemoryNode \<Rightarrow> MemoryNode list \<Rightarrow> MemoryNode option" where
  "most_similar new_memory existing_memories =
     max_by_sim (memory_sim new_memory) (filter (\<lambda>m. mn_id m \<noteq> mn_id new_memory) existing_memories)"

definition correction_target :: "WriteInferenceConfig \<Rightarrow> MemoryNode \<Rightarrow> MemoryNode list \<Rightarrow> MemoryNode option" where
  "correction_target cfg new_memory existing_memories =
     (if mn_memory_type new_memory = Correction
      then case most_similar new_memory existing_memories of None \<Rightarrow> None
        | Some original \<Rightarrow> if fl_lt (wc_correction_threshold cfg) (memory_sim new_memory original) then Some original else None
      else None)"

definition correction_actions :: "WriteInferenceConfig \<Rightarrow> MemoryNode \<Rightarrow> MemoryNode list \<Rightarrow> InferredAction list" where
  "correction_actions cfg new_memory existing_memories =
     (case correction_target cfg new_memory existing_memories of None \<Rightarrow> []
      | Some original \<Rightarrow>
          [CreateEdge (mn_id new_memory) (mn_id original) Supersedes (Fin 1),
           UpdateConfidence (mn_id original) (lowered_confidence cfg (mn_confidence original))])"

definition infer_on_write :: "WriteInferenceConfig \<Rightarrow> MemoryNode \<Rightarrow> MemoryNode list \<Rightarrow> (MemoryId \<times> MemoryId \<times> EdgeType) list
    \<Rightarrow> InferredAction list" where
  "infer_on_write cfg new_memory existing_memories existing_edges =
     concat (map (infer_existing cfg new_memory) existing_memories) @ correction_actions cfg new_memory existing_memories"

section \<open>Inference with verdicts\<close>

definition memory_to_summary :: "MemoryNode \<Rightarrow> MemorySummary" where
  "memory_to_summary m = \<lparr> ms_id = mn_id m, ms_content = mn_content m, ms_memory_type = mn_memory_type m,
     ms_confidence = mn_confidence m, ms_created_at = mn_created_at m \<rparr>"

definition supersession_actions :: "MemoryId \<Rightarrow> MemoryId \<Rightarrow> nat \<Rightarrow> InferredAction list" where
  "supersession_actions obsolete superseder valid_until =
     [MarkObsolete obsolete superseder, InvalidateMemory obsolete superseder valid_until,
      CreateEdge superseder obsolete Supersedes (Fin 1)]"

definition CUES :: "string list" where
  "CUES = [''now '', ''currently'', ''no longer'', ''switched'', ''migrated'', ''upgraded'', ''replaced'', ''moved'',
     ''relocated'', ''renamed'', ''rewrote'', ''launched version'', ''started at'', ''joined'', ''changed to'', ''instead'']"

definition has_temporal_replacement_cue :: "string \<Rightarrow> bool" where
  "has_temporal_replacement_cue text = list_ex (\<lambda>cue. str_contains (to_ascii_lowercase text) cue) CUES"

definition temporal_supersession_winner :: "MemorySummary \<Rightarrow> MemorySummary \<Rightarrow> MemoryId option" where
  "temporal_supersession_winner a b =
     (if ms_created_at a = ms_created_at b then None
      else let newer = (if ms_created_at b < ms_created_at a then a else b)
           in if has_temporal_replacement_cue (ms_content newer) then Some (ms_id newer) else None)"

text \<open>The two sides of a supersession: the new memory wins, or the existing one does.\<close>

definition supersede_by :: "bool \<Rightarrow> MemoryNode \<Rightarrow> MemoryNode \<Rightarrow> InferredAction list" where
  "supersede_by winner_is_new new_memory existing =
     (if winner_is_new then supersession_actions (mn_id existing) (mn_id new_memory) (mn_created_at new_memory)
      else supersession_actions (mn_id new_memory) (mn_id existing) (mn_created_at new_memory))"

definition contradiction_actions :: "(MemoryId \<Rightarrow> string) \<Rightarrow> MemoryNode \<Rightarrow> MemoryNode \<Rightarrow> ContradictionVerdict
    \<Rightarrow> InferredAction list" where
  "contradiction_actions id_show new_memory existing verdict =
     (case verdict of
        JContradicts reason \<Rightarrow>
          (case temporal_supersession_winner (memory_to_summary existing) (memory_to_summary new_memory) of
             Some winner \<Rightarrow> supersede_by (winner = mn_id new_memory) new_memory existing
           | None \<Rightarrow> [FlagContradiction (mn_id existing) (mn_id new_memory) reason])
      | JSupersedes winner reason \<Rightarrow> supersede_by (winner = id_show (mn_id new_memory)) new_memory existing
      | Compatible reason \<Rightarrow> [])"

type_synonym JudgeInvalidation = "MemorySummary \<Rightarrow> MemorySummary \<Rightarrow> InvalidationVerdict JudgeResult"
type_synonym JudgeContradiction = "MemorySummary \<Rightarrow> MemorySummary \<Rightarrow> ContradictionVerdict JudgeResult"

text \<open>\<open>sim.clamp(0.7, 0.95)\<close>, whose bounds are ordered.\<close>

definition clamp_support :: "f32 \<Rightarrow> f32" where
  "clamp_support sim = (if fl_lt sim (f32_of (7/10)) then f32_of (7/10)
     else if fl_lt (f32_of (95/100)) sim then f32_of (95/100) else sim)"

text \<open>The actions of a verdict that ends the work on one memory; \<open>None\<close> for one that falls through.\<close>

fun invalidation_actions :: "WriteInferenceConfig \<Rightarrow> MemoryNode \<Rightarrow> MemoryNode \<Rightarrow> InvalidationVerdict
    \<Rightarrow> InferredAction list option" where
  "invalidation_actions cfg new_memory existing (Invalidate reason) =
     Some (supersession_actions (mn_id existing) (mn_id new_memory) (mn_created_at new_memory)
           @ [UpdateConfidence (mn_id existing) (lowered_confidence cfg (mn_confidence existing))])"
| "invalidation_actions cfg new_memory existing (Update merged_content reason) =
     Some [UpdateContent (mn_id existing) merged_content reason]"
| "invalidation_actions cfg new_memory existing (Enrich reason) =
     Some [CreateEdge (mn_id new_memory) (mn_id existing) Supports (clamp_support (memory_sim new_memory existing))]"
| "invalidation_actions cfg new_memory existing (Keep reason) = None"

text \<open>The second question, for similar pairs with different content; an error of the service is passed over.\<close>

definition ask_contradiction :: "(MemoryId \<Rightarrow> string) \<Rightarrow> JudgeContradiction \<Rightarrow> MemoryNode \<Rightarrow> MemoryNode
    \<Rightarrow> InferredAction list JudgeResult" where
  "ask_contradiction id_show detect new_memory existing =
     (if fl_lt (f32_of (7/10)) (memory_sim new_memory existing) \<and> mn_content existing \<noteq> mn_content new_memory
      then case detect (memory_to_summary existing) (memory_to_summary new_memory) of
          Ok verdict \<Rightarrow> Ok (contradiction_actions id_show new_memory existing verdict)
        | Err e \<Rightarrow> Ok []
        | Panic \<Rightarrow> Panic
      else Ok [])"

definition infer_existing_with_llm :: "(MemoryId \<Rightarrow> string) \<Rightarrow> JudgeInvalidation \<Rightarrow> JudgeContradiction \<Rightarrow> WriteInferenceConfig
    \<Rightarrow> MemoryNode \<Rightarrow> MemoryNode \<Rightarrow> InferredAction list JudgeResult" where
  "infer_existing_with_llm id_show judge_inv detect cfg new_memory existing =
     (if mn_id existing = mn_id new_memory then Ok []
      else let related = related_action cfg new_memory existing;
               fall_through = bindO (ask_contradiction id_show detect new_memory existing) (\<lambda>acts. Ok (acts @ related))
           in if fl_lt (f32_of (1/2)) (memory_sim new_memory existing) \<and> mn_agent_id existing = mn_agent_id new_memory
              then case judge_inv (memory_to_summary existing) (memory_to_summary new_memory) of
                  Ok verdict \<Rightarrow> (case invalidation_actions cfg new_memory existing verdict of
                      Some acts \<Rightarrow> Ok acts | None \<Rightarrow> fall_through)
                | Err e \<Rightarrow> fall_through
                | Panic \<Rightarrow> Panic
              else Ok related)"

fun infer_all_with_llm :: "(MemoryNode \<Rightarrow> InferredAction list JudgeResult) \<Rightarrow> MemoryNode list \<Rightarrow> InferredAction list JudgeResult" where
  "infer_all_with_llm infer [] = Ok []"
| "infer_all_with_llm infer (e # es) = bindO (infer e) (\<lambda>xs. bindO (infer_all_with_llm infer es) (\<lambda>ys. Ok (xs @ ys)))"

definition correction_actions_with_llm :: "WriteInferenceConfig \<Rightarrow> MemoryNode \<Rightarrow> MemoryNode list \<Rightarrow> InferredAction list" where
  "correction_actions_with_llm cfg new_memory existing_memories =
     (case correction_target cfg new_memory existing_memories of None \<Rightarrow> []
      | Some original \<Rightarrow>
          [CreateEdge (mn_id new_memory) (mn_id original) Supersedes (Fin 1),
           InvalidateMemory (mn_id original) (mn_id new_memory) (mn_created_at new_memory),
           UpdateConfidence (mn_id original) (lowered_confidence cfg (mn_confidence original))])"

definition infer_on_write_with_llm :: "(MemoryId \<Rightarrow> string) \<Rightarrow> JudgeInvalidation \<Rightarrow> JudgeContradiction \<Rightarrow> WriteInferenceConfig
    \<Rightarrow> MemoryNode \<Rightarrow> MemoryNode list \<Rightarrow> InferredAction list JudgeResult" where
  "infer_on_write_with_llm id_show judge_inv detect cfg new_memory existing_memories =
     bindO (infer_all_with_llm (infer_existing_with_llm id_show judge_inv detect cfg new_memory) existing_memories)
       (\<lambda>acts. Ok (acts @ correction_actions_with_llm cfg new_memory existing_memories))"

section \<open>Facts\<close>

lemma clamp_support_is_clamp: "fl_clamp (f32_of (7/10)) (f32_of (95/100)) x = Ok (clamp_support x)"
proof -
  have "fl_le (f32_of (7/10)) (f32_of (95/100))" by code_simp
  then show ?thesis by (simp add: fl_clamp_def clamp_support_def)
qed

lemma max_fold_in: "foldl (\<lambda>a b. if P a b then a else b) x xs \<in> set (x # xs)"
proof (induction xs arbitrary: x)
  case (Cons y ys)
  show ?case using Cons.IH[of x] Cons.IH[of y] by auto
qed simp

lemma most_similar_in:
  assumes "most_similar n es = Some m"
  shows "m \<in> set es \<and> mn_id m \<noteq> mn_id n"
proof -
  obtain x xs where f: "filter (\<lambda>m. mn_id m \<noteq> mn_id n) es = x # xs"
    using assms by (cases "filter (\<lambda>m. mn_id m \<noteq> mn_id n) es") (auto simp: most_similar_def)
  then have "m \<in> set (x # xs)"
    using assms max_fold_in[of "\<lambda>a b. fl_lt (memory_sim n b) (memory_sim n a)" x xs] by (simp add: most_similar_def)
  then show ?thesis unfolding f[symmetric] by simp
qed

lemma correction_target_SomeD:
  "correction_target cfg n es = Some m \<Longrightarrow> mn_memory_type n = Correction \<and> m \<in> set es \<and> mn_id m \<noteq> mn_id n
     \<and> most_similar n es = Some m \<and> fl_lt (wc_correction_threshold cfg) (memory_sim n m)"
  by (auto simp: correction_target_def dest: most_similar_in split: if_splits option.splits)

lemma lowered_confidence_bounds:
  assumes "in_unit c" "in_unit (wc_confidence_decay_factor cfg)" "in_unit (wc_confidence_floor cfg)"
  shows "in_unit (lowered_confidence cfg c) \<and> fl_le (wc_confidence_floor cfg) (lowered_confidence cfg c)"
proof -
  have "in_unit (fl_mul f32_of c (wc_confidence_decay_factor cfg))" using assms in_unit_mul_f32 by blast
  then show ?thesis using assms(3) by (auto simp: lowered_confidence_def in_unit_iff fl_max_def)
qed

lemma max_fold_greatest:
  assumes "\<forall>y \<in> set (x # xs). f y \<noteq> NaN" "y \<in> set (x # xs)"
  shows "\<not> fl_lt (f (foldl (\<lambda>a b. if fl_lt (f b) (f a) then a else b) x xs)) (f y)"
  using assms
proof (induction xs arbitrary: x y)
  case (Cons z zs)
  let ?w = "if fl_lt (f z) (f x) then x else z"
  have w: "\<not> fl_lt (f ?w) (f x)" "\<not> fl_lt (f ?w) (f z)" by (auto dest: fl_lt_asym)
  have nan: "\<forall>y \<in> set (?w # zs). f y \<noteq> NaN" using Cons.prems(1) by auto
  let ?r = "foldl (\<lambda>a b. if fl_lt (f b) (f a) then a else b) ?w zs"
  have r: "\<not> fl_lt (f ?r) (f ?w)" using Cons.IH[OF nan] by simp
  have "f ?w \<noteq> NaN" using nan by simp
  then have "\<not> fl_lt (f ?r) (f y)" if "y = x \<or> y = z" using r w that fl_lt_negtrans by blast
  then show ?case using Cons.IH[OF nan, of y] Cons.prems(2) by auto
qed simp

lemma most_similar_greatest:
  assumes "most_similar n es = Some m" "\<forall>e \<in> set es. memory_sim n e \<noteq> NaN" "e \<in> set es" "mn_id e \<noteq> mn_id n"
  shows "\<not> fl_lt (memory_sim n m) (memory_sim n e)"
proof -
  obtain x xs where f: "filter (\<lambda>m. mn_id m \<noteq> mn_id n) es = x # xs"
    using assms(1) by (cases "filter (\<lambda>m. mn_id m \<noteq> mn_id n) es") (auto simp: most_similar_def)
  have s: "set (x # xs) \<subseteq> set es" by (metis f filter_is_subset)
  have e: "e \<in> set (x # xs)" unfolding f[symmetric] using assms(3,4) by simp
  have m: "m = foldl (\<lambda>a b. if fl_lt (memory_sim n b) (memory_sim n a) then a else b) x xs"
    using assms(1) by (simp add: most_similar_def f)
  have "\<forall>y \<in> set (x # xs). memory_sim n y \<noteq> NaN" using s assms(2) by blast
  from max_fold_greatest[OF this e] show ?thesis by (simp add: m)
qed

definition sample_config :: WriteInferenceConfig where
  "sample_config = \<lparr> wc_contradiction_threshold = Fin (1/2), wc_obsolete_threshold = Fin (1/2), wc_related_min = Fin (1/4),
     wc_related_max = Fin (1/2), wc_correction_threshold = Fin (1/2), wc_confidence_decay_factor = Fin (1/2),
     wc_confidence_floor = Fin (1/8) \<rparr>"

definition sample_memory :: "uuid \<Rightarrow> Timestamp \<Rightarrow> string \<Rightarrow> MemoryNode" where
  "sample_memory i t c = memory_node_new (MemoryId i) t (AgentId 7) Correction c [Fin 1]"

lemma sample_sim [simp]: "memory_sim (sample_memory i t c) (sample_memory i' t' c') = Fin 1"
proof -
  have "indexed_cosine [Fin 1] [Fin 1] = Fin 1" by code_simp
  then show ?thesis by (simp add: memory_sim_def sample_memory_def memory_node_new_def)
qed

lemma sample_fields [simp]:
  "mn_id (sample_memory i t c) = MemoryId i" "mn_created_at (sample_memory i t c) = t"
  "mn_content (sample_memory i t c) = c" "mn_agent_id (sample_memory i t c) = AgentId 7"
  "mn_memory_type (sample_memory i t c) = Correction" "mn_confidence (sample_memory i t c) = Fin 1"
  by (simp_all add: sample_memory_def memory_node_new_def)

section \<open>Properties\<close>

text \<open>What storing a memory may do to others. Every action is about another stored memory that is similar enough:
  a contradiction is flagged between different texts of one agent, a memory is made obsolete only by a newer one and is
  invalidated at the creation time of that one, related memories are linked within their band of similarity, and a superseded
  memory's confidence is lowered but stays in the unit interval and above the floor. Contents are never rewritten.\<close>

theorem infer_on_write_actions:
  assumes "in_unit (wc_confidence_decay_factor cfg)" "in_unit (wc_confidence_floor cfg)" "\<forall>e \<in> set es. in_unit (mn_confidence e)"
    and "act \<in> set (infer_on_write cfg n es edges)"
  shows "\<exists>e \<in> set es. mn_id e \<noteq> mn_id n \<and> (case act of
      FlagContradiction a b r \<Rightarrow> a = mn_id e \<and> b = mn_id n \<and> mn_agent_id e = mn_agent_id n \<and> mn_content e \<noteq> mn_content n
        \<and> fl_lt (wc_contradiction_threshold cfg) (memory_sim n e)
    | MarkObsolete a b \<Rightarrow> a = mn_id e \<and> b = mn_id n \<and> mn_created_at e < mn_created_at n
        \<and> fl_lt (wc_obsolete_threshold cfg) (memory_sim n e)
    | InvalidateMemory a b t \<Rightarrow> a = mn_id e \<and> b = mn_id n \<and> mn_created_at e < t \<and> t = mn_created_at n
        \<and> fl_lt (wc_obsolete_threshold cfg) (memory_sim n e)
    | CreateEdge a b ty w \<Rightarrow> a = mn_id n \<and> b = mn_id e
        \<and> (ty = Related \<and> w = memory_sim n e \<and> fl_lt (wc_related_min cfg) w \<and> fl_le w (wc_related_max cfg)
           \<or> ty = Supersedes \<and> w = Fin 1 \<and> mn_memory_type n = Correction
             \<and> fl_lt (wc_correction_threshold cfg) (memory_sim n e))
    | UpdateConfidence a c \<Rightarrow> a = mn_id e \<and> mn_memory_type n = Correction \<and> in_unit c \<and> fl_le (wc_confidence_floor cfg) c
    | UpdateContent _ _ _ \<Rightarrow> False
    | PropagateBeliefChange _ _ \<Rightarrow> False)"
proof -
  from assms(4) consider e where "e \<in> set es" "act \<in> set (infer_existing cfg n e)"
    | "act \<in> set (correction_actions cfg n es)" by (auto simp: infer_on_write_def)
  then show ?thesis
  proof cases
    case 1
    then show ?thesis
      by (intro bexI[of _ e]) (auto simp: infer_existing_def related_action_def Let_def split: if_splits)
  next
    case 2
    then obtain m where m: "correction_target cfg n es = Some m"
      by (cases "correction_target cfg n es") (auto simp: correction_actions_def)
    note M = correction_target_SomeD[OF m]
    have "in_unit (lowered_confidence cfg (mn_confidence m)) \<and> fl_le (wc_confidence_floor cfg) (lowered_confidence cfg (mn_confidence m))"
      using lowered_confidence_bounds assms(1,2,3) M by blast
    then show ?thesis using 2 M by (intro bexI[of _ m]) (auto simp: correction_actions_def m)
  qed
qed

theorem infer_on_write_actions_witness:
  "MarkObsolete (MemoryId 1) (MemoryId 2) \<in> set (infer_on_write sample_config (sample_memory 2 9 ''b'') [sample_memory 1 5 ''a''] [])
   \<and> mn_created_at (sample_memory 1 5 ''a'') < mn_created_at (sample_memory 2 9 ''b'')"
proof
  show act: "MarkObsolete (MemoryId 1) (MemoryId 2) \<in> set (infer_on_write sample_config (sample_memory 2 9 ''b'') [sample_memory 1 5 ''a''] [])"
    by (simp add: infer_on_write_def infer_existing_def Let_def sample_config_def)
  show "mn_created_at (sample_memory 1 5 ''a'') < mn_created_at (sample_memory 2 9 ''b'')"
    using infer_on_write_actions[OF _ _ _ act] by (simp add: sample_config_def)
qed

text \<open>A correction supersedes the most similar memory: when some other memory is more similar than the threshold and no
  similarity is NaN, exactly one memory is superseded, and none is more similar than it.\<close>

theorem correction_supersedes_most_similar:
  assumes "mn_memory_type n = Correction" "\<forall>e \<in> set es. memory_sim n e \<noteq> NaN"
    and "e \<in> set es" "mn_id e \<noteq> mn_id n" "fl_lt (wc_correction_threshold cfg) (memory_sim n e)"
  shows "\<exists>m \<in> set es. mn_id m \<noteq> mn_id n
    \<and> filter (\<lambda>act. \<exists>a b w. act = CreateEdge a b Supersedes w) (infer_on_write cfg n es edges)
        = [CreateEdge (mn_id n) (mn_id m) Supersedes (Fin 1)]
    \<and> (\<forall>x \<in> set es. mn_id x \<noteq> mn_id n \<longrightarrow> \<not> fl_lt (memory_sim n m) (memory_sim n x))"
proof -
  let ?sup = "\<lambda>act. \<exists>a b w. act = CreateEdge a b Supersedes w"
  obtain m where m: "most_similar n es = Some m"
    using assms(3,4) by (cases "filter (\<lambda>m. mn_id m \<noteq> mn_id n) es") (auto simp: most_similar_def filter_empty_conv)
  have max: "\<not> fl_lt (memory_sim n m) (memory_sim n x)" if "x \<in> set es" "mn_id x \<noteq> mn_id n" for x
    using most_similar_greatest[OF m assms(2)] that by blast
  have in_es: "m \<in> set es" "mn_id m \<noteq> mn_id n" using most_similar_in[OF m] by auto
  have "fl_lt (wc_correction_threshold cfg) (memory_sim n m)"
    using max[OF assms(3,4)] assms(2,5) in_es(1) fl_lt_negtrans by blast
  then have t: "correction_target cfg n es = Some m" by (simp add: correction_target_def assms(1) m)
  have "filter ?sup (infer_existing cfg n x) = []" for x
    by (auto simp: filter_empty_conv infer_existing_def related_action_def Let_def split: if_splits)
  then have "filter ?sup (concat (map (infer_existing cfg n) es)) = []" by (simp add: filter_concat comp_def filter_empty_conv)
  then have "filter ?sup (infer_on_write cfg n es edges) = [CreateEdge (mn_id n) (mn_id m) Supersedes (Fin 1)]"
    by (simp add: infer_on_write_def correction_actions_def t)
  then show ?thesis using max in_es by blast
qed

theorem correction_supersedes_most_similar_witness:
  "\<exists>m \<in> set [sample_memory 1 5 ''a'', sample_memory 2 6 ''b'']. mn_id m \<noteq> MemoryId 3
    \<and> filter (\<lambda>act. \<exists>a b w. act = CreateEdge a b Supersedes w)
        (infer_on_write sample_config (sample_memory 3 9 ''c'') [sample_memory 1 5 ''a'', sample_memory 2 6 ''b''] [])
        = [CreateEdge (MemoryId 3) (mn_id m) Supersedes (Fin 1)]"
  using correction_supersedes_most_similar[of "sample_memory 3 9 ''c''" "[sample_memory 1 5 ''a'', sample_memory 2 6 ''b'']"
      "sample_memory 1 5 ''a''" sample_config "[]"]
  by (auto simp: sample_config_def)

text \<open>
  When the service always fails, the verdict-based inference is the band of related memories and the correction.
\<close>

lemma infer_with_failing_llm:
  assumes "\<And>a b. \<exists>e. judge_inv a b = Err e" "\<And>a b. \<exists>e. detect a b = Err e"
  shows "infer_on_write_with_llm id_show judge_inv detect cfg n es
    = Ok (concat (map (\<lambda>e. if mn_id e = mn_id n then [] else related_action cfg n e) es) @ correction_actions_with_llm cfg n es)"
proof -
  have ask: "ask_contradiction id_show detect n e = Ok []" for e
    using assms(2)[of "memory_to_summary e" "memory_to_summary n"] by (auto simp: ask_contradiction_def)
  have one: "infer_existing_with_llm id_show judge_inv detect cfg n e
      = Ok (if mn_id e = mn_id n then [] else related_action cfg n e)" for e
    using assms(1)[of "memory_to_summary e" "memory_to_summary n"] by (auto simp: infer_existing_with_llm_def ask Let_def)
  have "infer_all_with_llm (infer_existing_with_llm id_show judge_inv detect cfg n) es
      = Ok (concat (map (\<lambda>e. if mn_id e = mn_id n then [] else related_action cfg n e) es))"
    by (induction es) (auto simp: one)
  then show ?thesis by (simp add: infer_on_write_with_llm_def)
qed

text \<open>
  A verdict that names as winner anything but the new memory's identifier, even one that is neither memory, makes the new
  memory obsolete.
\<close>

lemma unknown_winner_obsoletes_new:
  assumes "winner \<noteq> id_show (mn_id n)"
  shows "MarkObsolete (mn_id n) (mn_id e) \<in> set (contradiction_actions id_show n e (JSupersedes winner reason))"
  using assms by (simp add: contradiction_actions_def supersede_by_def supersession_actions_def)

end
