(* ===== verification/Extraction_Pipeline.thy ===== *)
theory Extraction_Pipeline
  imports Cognitive_Inference Embedding_Manager
begin

text \<open>
  The extraction pipeline, \<open>crates/mentedb-extraction\<close>: what a language model extracts from a conversation
  (\<open>src/schema.rs\<close>), its configuration (\<open>src/config.rs\<close>), and the steps from the raw answer to the memories to store
  (\<open>src/pipeline.rs\<close>). The model (\<open>extract\<close>), the JSON library (\<open>to_value\<close>, \<open>of_value\<close>, with the error text on the left),
  \<open>str::to_lowercase\<close> (\<open>lower\<close>), fresh identifiers and the clock are arguments. The two prompts are texts: the system prompt
  and the verification prompt around the facts found so far.
\<close>

section \<open>Schema and configuration\<close>

text \<open>The attributes are listed in the order in which the hash map is iterated.\<close>

record ExtractedEntity =
  ee_name :: string
  ee_entity_type :: string
  ee_attributes :: "(string \<times> string) list"

record ExtractedRelationship =
  er_source :: string
  er_target :: string
  er_relation_type :: string
  er_confidence :: f32
  er_evidence :: string
  er_attributes :: "(string \<times> string) list"

record ExtractedMemory =
  xm_content :: string
  xm_memory_type :: string
  xm_confidence :: f32
  xm_entities :: "string list"
  xm_tags :: "string list"
  xm_context :: "string list"
  xm_reasoning :: string

record ExtractionResult =
  xr_memories :: "ExtractedMemory list"
  xr_entities :: "ExtractedEntity list"
  xr_relationships :: "ExtractedRelationship list"

definition attribute_text :: "(string \<times> string) \<Rightarrow> string" where
  "attribute_text kv = fst kv @ '': '' @ snd kv"

definition category_of :: "ExtractedEntity \<Rightarrow> string option" where
  "category_of e = (case map_of (ee_attributes e) ''category'' of Some cat \<Rightarrow> if cat = [] then None else Some cat | None \<Rightarrow> None)"

definition other_attributes :: "ExtractedEntity \<Rightarrow> (string \<times> string) list" where
  "other_attributes e = filter (\<lambda>kv. fst kv \<noteq> ''category'') (ee_attributes e)"

definition entity_embedding_key :: "ExtractedEntity \<Rightarrow> string" where
  "entity_embedding_key e =
     ee_name e @ '' ('' @ ee_entity_type e @ '')''
     @ (case category_of e of Some cat \<Rightarrow> '' [categories: '' @ cat @ '']'' | None \<Rightarrow> [])
     @ concat (map (\<lambda>kv. '' '' @ attribute_text kv) (other_attributes e))"

definition readable_category :: "string \<Rightarrow> string" where
  "readable_category c = map (\<lambda>ch. if ch = CHR ''_'' then CHR '' '' else ch) c"

definition categories_prefix :: "string \<Rightarrow> string" where
  "categories_prefix cat =
     (let cats = filter (\<lambda>c. c \<noteq> []) (map trim (split_char (CHR '','') cat)) in
      if cats = [] then []
      else join '', '' (map readable_category cats) @ '' '' @ [CHR 0xE2, CHR 0x80, CHR 0x94] @ '' '')"

definition entity_to_content :: "ExtractedEntity \<Rightarrow> string" where
  "entity_to_content e =
     (case category_of e of Some cat \<Rightarrow> categories_prefix cat | None \<Rightarrow> [])
     @ ee_name e @ '' is a '' @ ee_entity_type e
     @ (if other_attributes e = [] then [] else ''. Attributes: '' @ join '', '' (map attribute_text (other_attributes e)))"

definition bracketed :: "string \<Rightarrow> string list \<Rightarrow> string" where
  "bracketed label xs = (if xs = [] then [] else '' ['' @ label @ '': '' @ join '', '' xs @ '']'')"

definition memory_embedding_key :: "ExtractedMemory \<Rightarrow> string" where
  "memory_embedding_key m =
     xm_content m @ bracketed ''entities'' (xm_entities m) @ bracketed ''topics'' (xm_tags m) @ bracketed ''context'' (xm_context m)"

datatype LlmProvider = OpenAI | Anthropic | Ollama | Custom

fun default_url :: "LlmProvider \<Rightarrow> string" where
  "default_url OpenAI = ''https://api.openai.com/v1/chat/completions''"
| "default_url Anthropic = ''https://api.anthropic.com/v1/messages''"
| "default_url Ollama = ''http://localhost:11434/api/chat''"
| "default_url Custom = ''http://localhost:8080/v1/chat/completions''"

fun default_model :: "LlmProvider \<Rightarrow> string" where
  "default_model OpenAI = ''gpt-4o-mini''"
| "default_model Anthropic = ''claude-haiku-4-5''"
| "default_model Ollama = ''llama3''"
| "default_model Custom = ''default''"

fun default_reader_model :: "LlmProvider \<Rightarrow> string" where
  "default_reader_model OpenAI = ''gpt-4o''"
| "default_reader_model Anthropic = ''claude-sonnet-4-20250514''"
| "default_reader_model Ollama = ''llama3''"
| "default_reader_model Custom = ''default''"

record ExtractionConfig =
  xc_provider :: LlmProvider
  xc_api_key :: "string option"
  xc_api_url :: string
  xc_model :: string
  xc_max_extractions :: nat
  xc_quality_threshold :: f32
  xc_deduplication_threshold :: f32
  xc_enable_contradiction_check :: bool
  xc_enable_deduplication :: bool
  xc_extraction_passes :: nat

definition extraction_config_default :: ExtractionConfig where
  "extraction_config_default =
     \<lparr> xc_provider = OpenAI, xc_api_key = None, xc_api_url = default_url OpenAI, xc_model = default_model OpenAI,
       xc_max_extractions = 50, xc_quality_threshold = f32_of (6/10), xc_deduplication_threshold = f32_of (85/100),
       xc_enable_contradiction_check = True, xc_enable_deduplication = True, xc_extraction_passes = 1 \<rparr>"

definition config_for :: "LlmProvider \<Rightarrow> string option \<Rightarrow> ExtractionConfig" where
  "config_for p api_key = extraction_config_default\<lparr>xc_provider := p, xc_api_key := api_key,
     xc_api_url := default_url p, xc_model := default_model p\<rparr>"

definition config_openai :: "string \<Rightarrow> ExtractionConfig" where
  "config_openai api_key = config_for OpenAI (Some api_key)"

definition config_anthropic :: "string \<Rightarrow> ExtractionConfig" where
  "config_anthropic api_key = config_for Anthropic (Some api_key)"

definition config_ollama :: ExtractionConfig where
  "config_ollama = config_for Ollama None"

datatype ExtractionError =
    XProviderError string
  | AuthError string
  | ModelNotFound string
  | XParseError string
  | ConfigError string
  | HttpError string
  | EmbeddingError string
  | RateLimitExceeded nat

type_synonym 'a XResult = "(ExtractionError, 'a) outcome"

section \<open>Reading the answer\<close>

text \<open>\<open>trim_start_matches\<close> and \<open>trim_end_matches\<close>: the pattern, which is not empty, is removed as often as it occurs there.\<close>

function trim_start_matches :: "string \<Rightarrow> string \<Rightarrow> string" where
  "trim_start_matches pat s =
     (if pat \<noteq> [] \<and> starts_with s pat then trim_start_matches pat (drop (length pat) s) else s)"
  by pat_completeness auto
termination
proof (relation "measure (length \<circ> snd)")
  fix pat s :: string
  assume "pat \<noteq> [] \<and> starts_with s pat"
  then have "0 < length pat" "length pat \<le> length s"
    by (simp, metis length_take min.cobounded1 starts_with_iff)
  then show "((pat, drop (length pat) s), pat, s) \<in> measure (length \<circ> snd)" by (simp del: length_greater_0_conv)
qed simp

declare trim_start_matches.simps [simp del]

definition trim_end_matches :: "string \<Rightarrow> string \<Rightarrow> string" where
  "trim_end_matches pat s = rev (trim_start_matches (rev pat) (rev s))"

definition unfence_answer :: "string \<Rightarrow> string" where
  "unfence_answer trimmed =
     (if starts_with trimmed fence
      then trim (trim_end_matches fence (trim_start_matches fence (trim_start_matches (fence @ ''json'') trimmed)))
      else trimmed)"

text \<open>The pipeline's own scanner: the end of the object, one past its closing brace.\<close>

fun object_end :: "nat \<Rightarrow> int \<Rightarrow> bool \<Rightarrow> bool \<Rightarrow> string \<Rightarrow> nat option" where
  "object_end i depth in_string escape_next [] = None"
| "object_end i depth in_string escape_next (ch # s) =
     (if escape_next then object_end (i + 1) depth in_string False s
      else if in_string then
        (if ch = CHR 0x5C then object_end (i + 1) depth in_string True s
         else if ch = CHR 0x22 then object_end (i + 1) depth False False s
         else object_end (i + 1) depth in_string False s)
      else if ch = CHR 0x22 then object_end (i + 1) depth True False s
      else if ch = CHR ''{'' then object_end (i + 1) (wrap_i32 (depth + 1)) False False s
      else if ch = CHR ''}'' then
        (if wrap_i32 (depth - 1) = 0 then Some (i + 1) else object_end (i + 1) (wrap_i32 (depth - 1)) False False s)
      else object_end (i + 1) depth False False s)"

definition outermost_object :: "string \<Rightarrow> string XResult option" where
  "outermost_object stripped =
     (case str_find ''{'' stripped of None \<Rightarrow> None
      | Some start \<Rightarrow> Some (bindO (slice stripped start (length stripped)) (\<lambda>candidate.
          slice candidate 0 (case object_end 0 0 False False candidate of Some e \<Rightarrow> e | None \<Rightarrow> length candidate))))"

definition no_extractions :: ExtractionResult where
  "no_extractions = \<lparr> xr_memories = [], xr_entities = [], xr_relationships = [] \<rparr>"

definition parse_failed :: "string \<Rightarrow> 'a XResult" where
  "parse_failed e = Err (XParseError (''Failed to parse extraction JSON: '' @ e))"

text \<open>The preview of the error log is cut after 200 bytes; it is computed when errors are logged (\<open>log_errors\<close>).\<close>

definition parse_extraction_response :: "bool \<Rightarrow> (string \<Rightarrow> string + 'v) \<Rightarrow> ('v \<Rightarrow> string + ExtractionResult) \<Rightarrow> string
    \<Rightarrow> ExtractionResult XResult" where
  "parse_extraction_response log_errors to_value of_value raw =
     (let trimmed = trim raw in
      if trimmed = [] then Ok no_extractions
      else case outermost_object (unfence_answer trimmed) of None \<Rightarrow> Ok no_extractions
        | Some json \<Rightarrow> bindO json (\<lambda>json_str. case to_value json_str of
              Inl e \<Rightarrow> (if log_errors then bindO (slice json_str 0 (min (length json_str) 200)) (\<lambda>_. parse_failed e)
                        else parse_failed e)
            | Inr value \<Rightarrow> (case of_value value of Inl e \<Rightarrow> parse_failed e | Inr r \<Rightarrow> Ok r)))"

section \<open>Extraction\<close>

datatype ExtractionPrompt = SystemPrompt | VerificationPrompt string

type_synonym Extractor = "string \<Rightarrow> ExtractionPrompt \<Rightarrow> string XResult"

definition append_result :: "ExtractionResult \<Rightarrow> ExtractionResult \<Rightarrow> ExtractionResult" where
  "append_result r v = \<lparr> xr_memories = xr_memories r @ xr_memories v, xr_entities = xr_entities r @ xr_entities v,
     xr_relationships = xr_relationships r @ xr_relationships v \<rparr>"

text \<open>The second pass: errors of the model and of the parser leave the first result.\<close>

definition verification_pass :: "ExtractionConfig \<Rightarrow> (string \<Rightarrow> ExtractionResult XResult) \<Rightarrow> Extractor \<Rightarrow> string \<Rightarrow> ExtractionResult
    \<Rightarrow> ExtractionResult XResult" where
  "verification_pass cfg parse extract conversation result =
     (if 2 \<le> xc_extraction_passes cfg \<and> xr_memories result \<noteq> []
      then case extract conversation (VerificationPrompt (bullets (map xm_content (xr_memories result)))) of
          Ok response \<Rightarrow> (case parse response of Ok v \<Rightarrow> Ok (append_result result v) | Err e \<Rightarrow> Ok result | Panic \<Rightarrow> Panic)
        | Err e \<Rightarrow> Ok result
        | Panic \<Rightarrow> Panic
      else Ok result)"

definition truncate_result :: "ExtractionConfig \<Rightarrow> ExtractionResult \<Rightarrow> ExtractionResult" where
  "truncate_result cfg result =
     (if xc_max_extractions cfg < length (xr_memories result)
      then result\<lparr>xr_memories := take (xc_max_extractions cfg) (xr_memories result)\<rparr> else result)"

definition extract_full :: "ExtractionConfig \<Rightarrow> (string \<Rightarrow> ExtractionResult XResult) \<Rightarrow> Extractor \<Rightarrow> string
    \<Rightarrow> ExtractionResult XResult" where
  "extract_full cfg parse extract conversation =
     bindO (extract conversation SystemPrompt) (\<lambda>raw. bindO (parse raw) (\<lambda>result.
       bindO (verification_pass cfg parse extract conversation result) (\<lambda>result. Ok (truncate_result cfg result))))"

definition extract_from_conversation :: "ExtractionConfig \<Rightarrow> (string \<Rightarrow> ExtractionResult XResult) \<Rightarrow> Extractor \<Rightarrow> string
    \<Rightarrow> ExtractedMemory list XResult" where
  "extract_from_conversation cfg parse extract conversation =
     bindO (extract_full cfg parse extract conversation) (\<lambda>r. Ok (xr_memories r))"

section \<open>Checks\<close>

datatype CognitiveFindingType = F_Contradiction | F_Obsolescence | F_Related | F_ConfidenceUpdate

record CognitiveFinding =
  cf_finding_type :: CognitiveFindingType
  cf_description :: string
  cf_related_memory_id :: "MemoryId option"

definition filter_quality :: "ExtractionConfig \<Rightarrow> ExtractedMemory list \<Rightarrow> ExtractedMemory list" where
  "filter_quality cfg memories = filter (\<lambda>m. fl_le (xc_quality_threshold cfg) (xm_confidence m)) memories"

definition map_extraction_type_to_memory_type :: "(string \<Rightarrow> string) \<Rightarrow> string \<Rightarrow> MemoryType" where
  "map_extraction_type_to_memory_type lower extraction_type =
     (let t = lower extraction_type in
      if t \<in> set [''decision'', ''preference'', ''fact'', ''entity''] then Semantic
      else if t = ''correction'' then Correction
      else if t = ''anti_pattern'' then AntiPattern
      else Episodic)"

definition nil_agent :: AgentId where
  "nil_agent = AgentId 0"

definition finding :: "CognitiveFindingType \<Rightarrow> string \<Rightarrow> MemoryId \<Rightarrow> CognitiveFinding" where
  "finding t d i = \<lparr> cf_finding_type = t, cf_description = d, cf_related_memory_id = Some i \<rparr>"

fun finding_of :: "(MemoryId \<Rightarrow> string) \<Rightarrow> InferredAction \<Rightarrow> CognitiveFinding list" where
  "finding_of id_show (FlagContradiction existing new reason) = [finding F_Contradiction reason existing]"
| "finding_of id_show (MarkObsolete memory superseded_by) =
     [finding F_Obsolescence (''Memory '' @ id_show memory @ '' may be obsolete'') memory]"
| "finding_of id_show (UpdateConfidence memory new_confidence) =
     [finding F_ConfidenceUpdate (''Confidence for '' @ id_show memory @ '' should be updated to ''
        @ show_fixed 2 new_confidence) memory]"
| "finding_of id_show (CreateEdge source target edge_type weight) =
     [finding F_Related (''Related to existing memory '' @ id_show target) target]"
| "finding_of id_show _ = []"

text \<open>The node that stands for a memory not yet stored: a fresh identifier, the nil agent.\<close>

definition temp_node :: "(string \<Rightarrow> string) \<Rightarrow> MemoryId \<times> Timestamp \<Rightarrow> ExtractedMemory \<Rightarrow> Embedding \<Rightarrow> MemoryNode" where
  "temp_node lower stamp new_memory embedding =
     memory_node_new (fst stamp) (snd stamp) nil_agent
       (map_extraction_type_to_memory_type lower (xm_memory_type new_memory)) (xm_content new_memory) embedding"

definition check_contradictions :: "(string \<Rightarrow> string) \<Rightarrow> (MemoryId \<Rightarrow> string) \<Rightarrow> MemoryId \<times> Timestamp \<Rightarrow> ExtractionConfig
    \<Rightarrow> ExtractedMemory \<Rightarrow> MemoryNode list \<Rightarrow> EmbeddingProvider \<Rightarrow> CognitiveFinding list XResult" where
  "check_contradictions lower id_show stamp cfg new_memory existing provider =
     (if \<not> xc_enable_contradiction_check cfg \<or> existing = [] then Ok []
      else case ep_embed provider (xm_content new_memory) of
          Ok embedding \<Rightarrow> Ok (concat (map (finding_of id_show)
            (infer_on_write write_inference_config_default (temp_node lower stamp new_memory embedding) existing [])))
        | Err e \<Rightarrow> Ok []
        | Panic \<Rightarrow> Panic)"

definition check_duplicates :: "ExtractionConfig \<Rightarrow> ExtractedMemory \<Rightarrow> MemoryNode list \<Rightarrow> EmbeddingProvider \<Rightarrow> bool XResult" where
  "check_duplicates cfg new_memory existing provider =
     (if \<not> xc_enable_deduplication cfg \<or> existing = [] then Ok False
      else case ep_embed provider (xm_content new_memory) of
          Ok new_embedding \<Rightarrow>
            Ok (list_ex (\<lambda>mem. fl_le (xc_deduplication_threshold cfg) (indexed_cosine new_embedding (mn_embedding mem))) existing)
        | Err e \<Rightarrow> Ok False
        | Panic \<Rightarrow> Panic)"

section \<open>The whole pipeline\<close>

record ExtractionStats =
  xs_total_extracted :: nat
  xs_accepted :: nat
  xs_rejected_quality :: nat
  xs_rejected_duplicate :: nat
  xs_contradictions_found :: nat

record ProcessedExtractionResult =
  pr_to_store :: "ExtractedMemory list"
  pr_rejected_low_quality :: "ExtractedMemory list"
  pr_rejected_duplicate :: "ExtractedMemory list"
  pr_contradictions :: "(ExtractedMemory \<times> CognitiveFinding list) list"
  pr_entities :: "ExtractedEntity list"
  pr_relationships :: "ExtractedRelationship list"
  pr_stats :: ExtractionStats

type_synonym Sorted = "ExtractedMemory list \<times> ExtractedMemory list \<times> (ExtractedMemory \<times> CognitiveFinding list) list"

text \<open>The loop over the memories of good quality; the stamps are the identifiers and times drawn for the checks.\<close>

fun sort_out :: "(ExtractedMemory \<Rightarrow> bool XResult) \<Rightarrow> (MemoryId \<times> Timestamp \<Rightarrow> ExtractedMemory \<Rightarrow> CognitiveFinding list XResult)
    \<Rightarrow> (nat \<Rightarrow> MemoryId \<times> Timestamp) \<Rightarrow> nat \<Rightarrow> ExtractedMemory list \<Rightarrow> Sorted \<Rightarrow> Sorted XResult" where
  "sort_out dup contra stamps i [] acc = Ok acc"
| "sort_out dup contra stamps i (memory # ms) (to_store, duplicate, contradictions) =
     bindO (dup memory) (\<lambda>is_dup.
       if is_dup then sort_out dup contra stamps (i + 1) ms (to_store, duplicate @ [memory], contradictions)
       else bindO (contra (stamps i) memory) (\<lambda>findings.
         if list_ex (\<lambda>f. cf_finding_type f = F_Contradiction) findings
         then sort_out dup contra stamps (i + 1) ms (to_store, duplicate, contradictions @ [(memory, findings)])
         else sort_out dup contra stamps (i + 1) ms (to_store @ [memory], duplicate, contradictions)))"

definition process_extraction :: "(string \<Rightarrow> string) \<Rightarrow> (MemoryId \<Rightarrow> string) \<Rightarrow> (nat \<Rightarrow> MemoryId \<times> Timestamp) \<Rightarrow> ExtractionConfig
    \<Rightarrow> EmbeddingProvider \<Rightarrow> MemoryNode list \<Rightarrow> ExtractionResult \<Rightarrow> ProcessedExtractionResult XResult" where
  "process_extraction lower id_show stamps cfg provider existing_memories full_result =
     (let all_memories = xr_memories full_result;
          rejected_low_quality = filter (\<lambda>m. fl_lt (xm_confidence m) (xc_quality_threshold cfg)) all_memories
      in bindO (sort_out (\<lambda>m. check_duplicates cfg m existing_memories provider)
             (\<lambda>stamp m. check_contradictions lower id_show stamp cfg m existing_memories provider)
             stamps 0 (filter_quality cfg all_memories) ([], [], []))
           (\<lambda>(to_store, rejected_duplicate, contradictions).
              Ok \<lparr> pr_to_store = to_store, pr_rejected_low_quality = rejected_low_quality,
                pr_rejected_duplicate = rejected_duplicate, pr_contradictions = contradictions,
                pr_entities = xr_entities full_result, pr_relationships = xr_relationships full_result,
                pr_stats = \<lparr> xs_total_extracted = length all_memories, xs_accepted = length to_store,
                  xs_rejected_quality = length rejected_low_quality, xs_rejected_duplicate = length rejected_duplicate,
                  xs_contradictions_found = length contradictions \<rparr> \<rparr>))"

definition process :: "(string \<Rightarrow> string) \<Rightarrow> (MemoryId \<Rightarrow> string) \<Rightarrow> (nat \<Rightarrow> MemoryId \<times> Timestamp) \<Rightarrow> ExtractionConfig
    \<Rightarrow> (string \<Rightarrow> ExtractionResult XResult) \<Rightarrow> Extractor \<Rightarrow> string \<Rightarrow> MemoryNode list \<Rightarrow> EmbeddingProvider
    \<Rightarrow> ProcessedExtractionResult XResult" where
  "process lower id_show stamps cfg parse extract conversation existing_memories provider =
     bindO (extract_full cfg parse extract conversation) (process_extraction lower id_show stamps cfg provider existing_memories)"

section \<open>Facts about the scanner\<close>

lemma object_end_eq: "object_end i d q e s = map_option Suc (brace_scan i d q e s)"
  by (induction s arbitrary: i d q e) auto

lemma brace_scan_shift: "brace_scan (i + j) d q e s = map_option (\<lambda>k. k + j) (brace_scan i d q e s)"
proof (induction s arbitrary: i d q e)
  case (Cons ch s)
  have "brace_scan (Suc (i + j)) d' q' e' s = map_option (\<lambda>k. k + j) (brace_scan (Suc i) d' q' e' s)" for d' q' e'
    using Cons.IH[of "Suc i"] by simp
  then show ?case by simp
qed simp

lemma outermost_object_eq:
  assumes "str_find ''{'' s = Some a" "ascii_closed s"
  shows "outermost_object s = Some (Ok (case rfind_matching_brace s a of
      Some k \<Rightarrow> take (k + 1 - a) (drop a s) | None \<Rightarrow> drop a s))"
proof -
  let ?c = "drop a s"
  have al: "a < length s" "hd ?c = CHR ''{''"
    using str_find_SomeD[OF assms(1)] by (simp, cases "drop a s") auto
  then have "\<not> is_continuation (s ! a)" by (simp add: hd_drop_conv_nth is_continuation_def byte_def)
  then have c: "slice s a (length s) = (Ok ?c :: string XResult)" using al(1) by (simp add: slice_def is_char_boundary_def)
  have r: "rfind_matching_brace s a = map_option (\<lambda>k. k + a) (brace_scan 0 0 False False ?c)"
    using brace_scan_shift[of 0 a] by (simp add: rfind_matching_brace_def)
  have "slice ?c 0 (case object_end 0 0 False False ?c of Some e \<Rightarrow> e | None \<Rightarrow> length ?c)
      = (Ok (case rfind_matching_brace s a of Some k \<Rightarrow> take (k + 1 - a) ?c | None \<Rightarrow> ?c) :: string XResult)"
  proof (cases "brace_scan 0 0 False False ?c")
    case None
    then show ?thesis by (simp add: object_end_eq r slice_def is_char_boundary_def)
  next
    case (Some k)
    have k: "k < length ?c" "?c ! k = CHR ''}''" using brace_scan_SomeD[OF Some] by auto
    have "ascii_closed ?c" using assms(2) ascii_closed_part[of "take a s" ?c "[]"] by simp
    then have "is_char_boundary ?c (Suc k)"
      using k unfolding ascii_closed_def is_char_boundary_def by (cases "Suc k = length ?c") (auto simp: byte_def)
    then show ?thesis using Some k by (simp add: object_end_eq r slice_def is_char_boundary_def)
  qed
  then show ?thesis by (simp add: outermost_object_def assms(1) c)
qed

section \<open>Facts about the sorting\<close>

lemma sort_out_mset:
  "sort_out dup contra stamps i ms (s, d, c) = Ok (s', d', c')
   \<Longrightarrow> mset s' + mset d' + mset (map fst c') = mset s + mset d + mset (map fst c) + mset ms"
proof (induction ms arbitrary: i s d c)
  case (Cons m ms)
  from Cons.prems show ?case
    by (auto simp: bindO_eq_Ok split: if_splits dest!: Cons.IH)
qed simp

text \<open>What holds of every memory sorted into a class holds of the whole class.\<close>

lemma sort_out_classes:
  assumes "sort_out dup contra stamps i ms (s, d, c) = Ok (s', d', c')"
    and "\<forall>m \<in> set s. S m" "\<forall>m \<in> set d. D m" "\<forall>p \<in> set c. C (fst p) (snd p)"
    and "\<forall>m \<in> set ms. dup m = Ok True \<longrightarrow> D m"
    and "\<forall>m \<in> set ms. \<forall>j fs. dup m = Ok False \<and> contra (stamps j) m = Ok fs
      \<longrightarrow> (if list_ex (\<lambda>f. cf_finding_type f = F_Contradiction) fs then C m fs else S m)"
  shows "(\<forall>m \<in> set s'. S m) \<and> (\<forall>m \<in> set d'. D m) \<and> (\<forall>p \<in> set c'. C (fst p) (snd p))"
  using assms
proof (induction ms arbitrary: i s d c)
  case (Cons m ms)
  obtain b where b: "dup m = Ok b" using Cons.prems(1) by (auto simp: bindO_eq_Ok)
  have tl5: "\<forall>m' \<in> set ms. dup m' = Ok True \<longrightarrow> D m'" using Cons.prems(5) by simp
  have tl6: "\<forall>m' \<in> set ms. \<forall>j fs. dup m' = Ok False \<and> contra (stamps j) m' = Ok fs
      \<longrightarrow> (if list_ex (\<lambda>f. cf_finding_type f = F_Contradiction) fs then C m' fs else S m')" using Cons.prems(6) by (meson list.set_intros(2))
  show ?case
  proof (cases b)
    case True
    have "sort_out dup contra stamps (i + 1) ms (s, d @ [m], c) = Ok (s', d', c')" using Cons.prems(1) b True by simp
    moreover have "\<forall>x \<in> set (d @ [m]). D x" using Cons.prems(3,5) b True by simp
    ultimately show ?thesis using Cons.IH[OF _ _ _ _ tl5 tl6, of "i + 1" s "d @ [m]" c] Cons.prems(2,4) by blast
  next
    case False
    then obtain fs where fs: "contra (stamps i) m = Ok fs" using Cons.prems(1) b by (auto simp: bindO_eq_Ok)
    let ?x = "list_ex (\<lambda>f. cf_finding_type f = F_Contradiction) fs"
    have step: "sort_out dup contra stamps (i + 1) ms (if ?x then (s, d, c @ [(m, fs)]) else (s @ [m], d, c)) = Ok (s', d', c')"
      using Cons.prems(1) b False fs by (simp split: if_splits)
    have m: "if ?x then C m fs else S m" using Cons.prems(6)[rule_format, of m i fs] b False fs by simp
    show ?thesis
    proof (cases ?x)
      case True
      then have "\<forall>p \<in> set (c @ [(m, fs)]). C (fst p) (snd p)" using m Cons.prems(4) by simp
      then show ?thesis
        using Cons.IH[OF _ Cons.prems(2,3) _ tl5 tl6, of "i + 1" "c @ [(m, fs)]"] step True by simp
    next
      case False
      then have "\<forall>x \<in> set (s @ [m]). S x" using m Cons.prems(2) by simp
      then show ?thesis
        using Cons.IH[OF _ _ Cons.prems(3,4) tl5 tl6, of "i + 1" "s @ [m]"] step False by simp
    qed
  qed
qed simp

lemma sort_out_returns:
  assumes "\<And>m. dup m \<noteq> Panic \<and> (\<forall>e. dup m \<noteq> Err e)" "\<And>st m. contra st m \<noteq> Panic \<and> (\<forall>e. contra st m \<noteq> Err e)"
  shows "\<exists>r. sort_out dup contra stamps i ms acc = Ok r"
proof (induction ms arbitrary: i acc)
  case Nil
  then show ?case by (cases acc) simp
next
  case (Cons m ms)
  obtain s d c where acc: "acc = (s, d, c)" by (cases acc) auto
  obtain b where "dup m = Ok b" using assms(1)[of m] by (cases "dup m") auto
  moreover obtain fs where "contra (stamps i) m = Ok fs" using assms(2)[of "stamps i" m] by (cases "contra (stamps i) m") auto
  ultimately show ?case using Cons.IH by (auto simp: acc)
qed

text \<open>A similarity above the contradiction threshold is above any lower deduplication threshold.\<close>

lemma finding_contradictionD:
  assumes "f \<in> set (concat (map (finding_of id_show) acts))" "cf_finding_type f = F_Contradiction"
  shows "\<exists>a b r. FlagContradiction a b r \<in> set acts"
proof -
  obtain act where act: "act \<in> set acts" "f \<in> set (finding_of id_show act)" using assms(1) by auto
  then have "\<exists>a b r. act = FlagContradiction a b r" by (insert assms(2), cases act rule: InferredAction.exhaust) (simp_all add: finding_def)
  then show ?thesis using act(1) by blast
qed

lemma infer_flagD:
  assumes "FlagContradiction a b r \<in> set (infer_on_write cfg n es edges)"
  shows "\<exists>e \<in> set es. mn_id e = a \<and> mn_agent_id e = mn_agent_id n \<and> fl_lt (wc_contradiction_threshold cfg) (memory_sim n e)"
  using assms by (auto simp: infer_on_write_def infer_existing_def related_action_def correction_actions_def Let_def
      split: if_splits option.splits)

lemma check_contradiction_similar:
  assumes "check_contradictions lower id_show stamp cfg m existing provider = Ok fs"
    and "list_ex (\<lambda>f. cf_finding_type f = F_Contradiction) fs"
  shows "\<exists>emb. ep_embed provider (xm_content m) = Ok emb \<and> (\<exists>e \<in> set existing. mn_agent_id e = nil_agent
    \<and> fl_lt (wc_contradiction_threshold write_inference_config_default) (indexed_cosine emb (mn_embedding e)))"
proof -
  obtain emb where emb: "ep_embed provider (xm_content m) = Ok emb"
    and fs: "fs = concat (map (finding_of id_show)
      (infer_on_write write_inference_config_default (temp_node lower stamp m emb) existing []))"
    using assms by (auto simp: check_contradictions_def split: if_splits outcome.splits)
  obtain f where "f \<in> set fs" "cf_finding_type f = F_Contradiction" using assms(2) by (auto simp: list_ex_iff)
  then obtain a b r where
    "FlagContradiction a b r \<in> set (infer_on_write write_inference_config_default (temp_node lower stamp m emb) existing [])"
    using finding_contradictionD fs by blast
  from infer_flagD[OF this] show ?thesis using emb by (auto simp: temp_node_def memory_node_new_def memory_sim_def)
qed

lemma quality_split:
  assumes "t \<noteq> NaN" "\<forall>m \<in> set ms. f m \<noteq> NaN"
  shows "mset (filter (\<lambda>m. fl_le t (f m)) ms) + mset (filter (\<lambda>m. fl_lt (f m) t) ms) = mset ms"
  using assms by (induction ms) (auto simp flip: fl_not_lt)

lemma check_duplicates_returns: "\<forall>t. ep_embed provider t \<noteq> Panic \<Longrightarrow> \<exists>b. check_duplicates cfg m existing provider = Ok b"
  by (auto simp: check_duplicates_def split: outcome.splits)

lemma check_contradictions_returns:
  "\<forall>t. ep_embed provider t \<noteq> Panic \<Longrightarrow> \<exists>fs. check_contradictions lower id_show stamp cfg m existing provider = Ok fs"
  by (auto simp: check_contradictions_def split: outcome.splits)

lemma process_run:
  assumes "\<forall>t. ep_embed provider t \<noteq> Panic"
  obtains s du co r where
    "sort_out (\<lambda>m. check_duplicates cfg m existing provider)
      (\<lambda>stamp m. check_contradictions lower id_show stamp cfg m existing provider)
      stamps 0 (filter_quality cfg (xr_memories full)) ([], [], []) = Ok (s, du, co)"
    "process_extraction lower id_show stamps cfg provider existing full = Ok r"
    "pr_to_store r = s" "pr_rejected_duplicate r = du" "pr_contradictions r = co"
    "pr_rejected_low_quality r = filter (\<lambda>m. fl_lt (xm_confidence m) (xc_quality_threshold cfg)) (xr_memories full)"
proof -
  let ?dup = "\<lambda>m. check_duplicates cfg m existing provider"
  let ?contra = "\<lambda>stamp m. check_contradictions lower id_show stamp cfg m existing provider"
  have d: "?dup m \<noteq> Panic \<and> (\<forall>e. ?dup m \<noteq> Err e)" for m
    using check_duplicates_returns[OF assms, of cfg m existing] by auto
  have c: "?contra st m \<noteq> Panic \<and> (\<forall>e. ?contra st m \<noteq> Err e)" for st m
    using check_contradictions_returns[OF assms, of lower id_show st cfg m existing] by auto
  obtain s du co where run: "sort_out ?dup ?contra stamps 0 (filter_quality cfg (xr_memories full)) ([], [], []) = Ok (s, du, co)"
    using sort_out_returns[of ?dup ?contra stamps 0 "filter_quality cfg (xr_memories full)" "([], [], [])"] d c
    by (metis (no_types, lifting) prod_cases3)
  obtain r where r: "process_extraction lower id_show stamps cfg provider existing full = Ok r"
    "pr_to_store r = s" "pr_rejected_duplicate r = du" "pr_contradictions r = co"
    "pr_rejected_low_quality r = filter (\<lambda>m. fl_lt (xm_confidence m) (xc_quality_threshold cfg)) (xr_memories full)"
    by (simp add: process_extraction_def run Let_def)
  show thesis by (rule that[OF run r])
qed

lemma process_returns:
  "\<forall>t. ep_embed provider t \<noteq> Panic \<Longrightarrow> \<exists>r. process_extraction lower id_show stamps cfg provider existing full = Ok r"
  by (rule process_run) blast+

section \<open>Properties\<close>

text \<open>C36: The pipeline loses and invents no memory: when the embedding provider does not panic and no extracted confidence
  is NaN, it returns, and the memories to store, those of low quality, the duplicates and the contradictions are together the
  extracted ones, each as often as it was extracted. What is to be stored has the required confidence and, where the
  provider embeds it, no stored memory reaches the similarity of a duplicate.\<close>

theorem process_extraction_partition:
  assumes "\<forall>t. ep_embed provider t \<noteq> Panic" "xc_quality_threshold cfg \<noteq> NaN"
    and "\<forall>m \<in> set (xr_memories full). xm_confidence m \<noteq> NaN"
  shows "\<exists>r. process_extraction lower id_show stamps cfg provider existing full = Ok r
    \<and> mset (pr_to_store r) + mset (pr_rejected_low_quality r) + mset (pr_rejected_duplicate r)
        + mset (map fst (pr_contradictions r)) = mset (xr_memories full)
    \<and> (\<forall>m \<in> set (pr_to_store r). fl_le (xc_quality_threshold cfg) (xm_confidence m)
        \<and> (\<forall>emb. xc_enable_deduplication cfg \<and> ep_embed provider (xm_content m) = Ok emb
            \<longrightarrow> (\<forall>e \<in> set existing. \<not> fl_le (xc_deduplication_threshold cfg) (indexed_cosine emb (mn_embedding e)))))"
proof -
  let ?dup = "\<lambda>m. check_duplicates cfg m existing provider"
  let ?contra = "\<lambda>stamp m. check_contradictions lower id_show stamp cfg m existing provider"
  let ?good = "filter_quality cfg (xr_memories full)"
  let ?S = "\<lambda>m. fl_le (xc_quality_threshold cfg) (xm_confidence m)
        \<and> (\<forall>emb. xc_enable_deduplication cfg \<and> ep_embed provider (xm_content m) = Ok emb
            \<longrightarrow> (\<forall>e \<in> set existing. \<not> fl_le (xc_deduplication_threshold cfg) (indexed_cosine emb (mn_embedding e))))"
  let ?low = "filter (\<lambda>m. fl_lt (xm_confidence m) (xc_quality_threshold cfg)) (xr_memories full)"
  obtain s du co r where run: "sort_out ?dup ?contra stamps 0 ?good ([], [], []) = Ok (s, du, co)"
    and r: "process_extraction lower id_show stamps cfg provider existing full = Ok r"
      "pr_to_store r = s" "pr_rejected_duplicate r = du" "pr_contradictions r = co" "pr_rejected_low_quality r = ?low"
    using process_run[OF assms(1)] by metis
  have "\<forall>m \<in> set ?good. \<forall>j fs. ?dup m = Ok False \<and> ?contra (stamps j) m = Ok fs
      \<longrightarrow> (if list_ex (\<lambda>f. cf_finding_type f = F_Contradiction) fs then True else ?S m)"
    by (auto simp: filter_quality_def check_duplicates_def list_ex_iff split: if_splits outcome.splits)
  then have S: "\<forall>m \<in> set s. ?S m" using sort_out_classes[OF run, of ?S "\<lambda>_. True" "\<lambda>_ _. True"] by auto
  have "mset ?good + mset ?low = mset (xr_memories full)"
    using quality_split assms(2,3) by (simp add: filter_quality_def)
  moreover have "mset s + mset du + mset (map fst co) = mset ?good" using sort_out_mset[OF run] by simp
  ultimately have "mset s + mset ?low + mset du + mset (map fst co) = mset (xr_memories full)"
    by (metis (no_types, lifting) add.assoc add.commute)
  then show ?thesis using r S by (intro exI[of _ r]) simp
qed

definition sample_extracted :: "string \<Rightarrow> f32 \<Rightarrow> ExtractedMemory" where
  "sample_extracted t c = \<lparr> xm_content = t, xm_memory_type = ''fact'', xm_confidence = c, xm_entities = [], xm_tags = [],
     xm_context = [], xm_reasoning = [] \<rparr>"

definition sample_provider :: EmbeddingProvider where
  "sample_provider = \<lparr> ep_embed = (\<lambda>_. Ok [Fin 1]), ep_embed_batch = (\<lambda>ts. Ok (map (\<lambda>_. [Fin 1]) ts)),
     ep_dimensions = 1, ep_model_name = ''m'' \<rparr>"

definition sample_result :: ExtractionResult where
  "sample_result = \<lparr> xr_memories = [sample_extracted ''a'' (Fin 1), sample_extracted ''b'' (Fin 0)], xr_entities = [],
     xr_relationships = [] \<rparr>"

theorem process_extraction_partition_witness:
  "\<exists>r. process_extraction id (\<lambda>_. []) (\<lambda>_. (MemoryId 9, 9)) extraction_config_default sample_provider [] sample_result = Ok r
     \<and> mset (pr_to_store r) + mset (pr_rejected_low_quality r) + mset (pr_rejected_duplicate r)
         + mset (map fst (pr_contradictions r)) = mset (xr_memories sample_result)"
proof -
  have "\<forall>t. ep_embed sample_provider t \<noteq> Panic" "xc_quality_threshold extraction_config_default \<noteq> NaN"
    "\<forall>m \<in> set (xr_memories sample_result). xm_confidence m \<noteq> NaN"
    by (simp_all add: sample_provider_def extraction_config_default_def sample_result_def sample_extracted_def)
  from process_extraction_partition[OF this, of id "\<lambda>_. []" "\<lambda>_. (MemoryId 9, 9)" "[]"] show ?thesis by blast
qed

text \<open>C38: The contradiction check of the pipeline never reports a contradiction when deduplication is on and its threshold is
  not above 0.95, as by default (0.85): a memory similar enough to contradict is already rejected as a duplicate.\<close>

theorem contradictions_shadowed_by_deduplication:
  assumes "xc_enable_deduplication cfg"
    and "fl_le (xc_deduplication_threshold cfg) (wc_contradiction_threshold write_inference_config_default)"
    and "process_extraction lower id_show stamps cfg provider existing full = Ok r"
  shows "pr_contradictions r = []"
proof -
  let ?dup = "\<lambda>m. check_duplicates cfg m existing provider"
  let ?contra = "\<lambda>stamp m. check_contradictions lower id_show stamp cfg m existing provider"
  let ?good = "filter_quality cfg (xr_memories full)"
  obtain s du co where run: "sort_out ?dup ?contra stamps 0 ?good ([], [], []) = Ok (s, du, co)" and co: "pr_contradictions r = co"
    using assms(3) by (auto simp: process_extraction_def Let_def bindO_eq_Ok)
  have no: "\<not> list_ex (\<lambda>f. cf_finding_type f = F_Contradiction) fs"
    if "?dup m = Ok False" "?contra st m = Ok fs" for m st fs
  proof
    assume "list_ex (\<lambda>f. cf_finding_type f = F_Contradiction) fs"
    from check_contradiction_similar[OF that(2) this] obtain emb e where
      e: "ep_embed provider (xm_content m) = Ok emb" "e \<in> set existing"
        "fl_lt (wc_contradiction_threshold write_inference_config_default) (indexed_cosine emb (mn_embedding e))" by blast
    then have "fl_le (xc_deduplication_threshold cfg) (indexed_cosine emb (mn_embedding e))"
      using assms(2) by (meson fl_le_def fl_le_trans)
    then show False using that(1) e assms(1) by (auto simp: check_duplicates_def list_ex_iff split: if_splits)
  qed
  have "\<forall>m \<in> set ?good. \<forall>j fs. ?dup m = Ok False \<and> ?contra (stamps j) m = Ok fs
      \<longrightarrow> (if list_ex (\<lambda>f. cf_finding_type f = F_Contradiction) fs then False else True)"
  proof (intro ballI allI impI)
    fix m j fs assume "?dup m = Ok False \<and> ?contra (stamps j) m = Ok fs"
    then have "\<not> list_ex (\<lambda>f. cf_finding_type f = F_Contradiction) fs" using no[of m "stamps j" fs] by simp
    then show "if list_ex (\<lambda>f. cf_finding_type f = F_Contradiction) fs then False else True" by simp
  qed
  then have "\<forall>p \<in> set co. False"
    using sort_out_classes[OF run, of "\<lambda>_. True" "\<lambda>_. True" "\<lambda>_ _. False"] by simp
  then show ?thesis using co by (cases co) auto
qed

text \<open>The witness: the default configuration, with a stored memory of the nil agent and the same embedding.\<close>

theorem contradictions_shadowed_by_deduplication_witness:
  "\<exists>r. process_extraction id (\<lambda>_. []) (\<lambda>_. (MemoryId 9, 9)) extraction_config_default sample_provider
       [memory_node_new (MemoryId 1) 5 nil_agent Semantic ''c'' [Fin 1]] sample_result = Ok r \<and> pr_contradictions r = []"
proof -
  let ?ex = "[memory_node_new (MemoryId 1) 5 nil_agent Semantic ''c'' [Fin 1]]"
  have "\<forall>t. ep_embed sample_provider t \<noteq> Panic" "xc_quality_threshold extraction_config_default \<noteq> NaN"
    "\<forall>m \<in> set (xr_memories sample_result). xm_confidence m \<noteq> NaN"
    by (simp_all add: sample_provider_def extraction_config_default_def sample_result_def sample_extracted_def)
  then obtain r where r: "process_extraction id (\<lambda>_. []) (\<lambda>_. (MemoryId 9, 9)) extraction_config_default sample_provider ?ex sample_result = Ok r"
    using process_returns by blast
  have "xc_enable_deduplication extraction_config_default" by (simp add: extraction_config_default_def)
  moreover have "fl_le (xc_deduplication_threshold extraction_config_default) (wc_contradiction_threshold write_inference_config_default)"
    unfolding extraction_config_default_def write_inference_config_default_def by code_simp
  ultimately have "pr_contradictions r = []" using contradictions_shadowed_by_deduplication r by blast
  then show ?thesis using r by blast
qed

text \<open>
  Without deduplication the check still only sees memories of the nil agent, since the node that stands for the new memory has
  the nil agent and a contradiction needs the same agent.
\<close>

lemma contradictions_only_with_nil_agent:
  assumes "\<forall>e \<in> set existing. mn_agent_id e \<noteq> nil_agent"
    and "check_contradictions lower id_show stamp cfg m existing provider = Ok fs"
  shows "\<forall>f \<in> set fs. cf_finding_type f \<noteq> F_Contradiction"
  using check_contradiction_similar[OF assms(2)] assms(1) by (auto simp: list_ex_iff)

text \<open>The two crates find the same object in an answer: where the matching brace exists, the pipeline's scanner and the
  judge's cut out the same text, without a panic; where it does not, the pipeline reads on to the end of the answer.\<close>

theorem scanners_agree:
  assumes "valid_utf8 s" "str_find ''{'' s = Some a"
  shows "(case rfind_matching_brace s a of
      Some k \<Rightarrow> (\<exists>c. json_candidate s = Some (Ok c) \<and> outermost_object s = Some (Ok c) \<and> part_of c s)
    | None \<Rightarrow> json_candidate s = None \<and> outermost_object s = Some (Ok (drop a s)))"
proof (cases "rfind_matching_brace s a")
  case None
  then show ?thesis using outermost_object_eq[OF assms(2) valid_utf8_ascii_closed[OF assms(1)]] assms(2)
    by (simp add: json_candidate_def)
next
  case (Some k)
  have j: "json_candidate s = Some (slice s a (k + 1))" using Some assms(2) by (simp add: json_candidate_def)
  obtain c where c: "slice s a (k + 1) = (Ok c :: string JudgeResult)" "part_of c s"
    using json_candidate_cases[OF valid_utf8_ascii_closed[OF assms(1)] j] by blast
  then have "c = take (k + 1 - a) (drop a s)" by (simp add: slice_eq_Ok)
  then show ?thesis using outermost_object_eq[OF assms(2) valid_utf8_ascii_closed[OF assms(1)]] Some j c by simp
qed

theorem scanners_agree_witness: "outermost_object ''so {a} ok'' = Some (Ok ''{a}'')"
proof -
  have "valid_utf8 ''so {a} ok''" "str_find ''{'' ''so {a} ok'' = Some 3" "rfind_matching_brace ''so {a} ok'' 3 = Some 5"
    "json_candidate ''so {a} ok'' = Some (Ok ''{a}'')" by code_simp+
  then show ?thesis using scanners_agree[of "''so {a} ok''" 3] by simp
qed

text \<open>
  The preview of a failed parse is cut at byte 200, whatever character is there: an answer whose byte 200 continues a
  character makes the pipeline panic instead of returning its parse error.
\<close>

lemma preview_panics:
  assumes "trim raw = raw" "raw \<noteq> []" "\<not> starts_with raw fence" "outermost_object raw = Some (Ok raw)"
    and "200 < length raw" "is_continuation (raw ! 200)" "to_value raw = Inl e"
  shows "parse_extraction_response True to_value of_value raw = Panic"
  using assms by (simp add: parse_extraction_response_def unfence_answer_def slice_def is_char_boundary_def)

text \<open>The number of memories returned is at most the configured maximum.\<close>

lemma extract_full_bounded:
  "extract_full cfg parse extract conversation = Ok r \<Longrightarrow> length (xr_memories r) \<le> xc_max_extractions cfg"
  by (auto simp: extract_full_def truncate_result_def bindO_eq_Ok)

end
