(* ===== verification/Cognitive_Trajectory.thy ===== *)
theory Cognitive_Trajectory
  imports Cognitive_Llm "HOL-Library.AList" "HOL-Library.List_Lexorder" "HOL-Library.Char_ord"
begin

text \<open>
  Conversation trajectories, \<open>crates/mentedb-cognitive/src/trajectory.rs\<close>: the Markov chain of topic transitions with
  its learned topic labels, and the tracker of the last turns. A hash map is an association list with distinct keys; where
  the source iterates over one and the order shows (\<open>predict_from\<close>), \<open>iter\<close> is the order of iteration. \<open>lower\<close> is
  \<open>str::to_lowercase\<close>; saving and loading are modelled on the snapshot, without the file and its JSON text.
\<close>

section \<open>Transitions\<close>

datatype DecisionState = Investigating | NarrowedTo string | Decided string | Interrupted | Completed

record TrajectoryNode =
  tn_turn_id :: nat
  tn_topic_embedding :: Embedding
  tn_topic_summary :: string
  tn_decision_state :: DecisionState
  tn_open_questions :: "string list"
  tn_timestamp :: Timestamp

definition MAX_TURNS_DEFAULT :: nat where
  "MAX_TURNS_DEFAULT = 100"

definition REINFORCEMENT_BONUS :: nat where
  "REINFORCEMENT_BONUS = 2"

definition normalize_topic :: "(string \<Rightarrow> string) \<Rightarrow> string \<Rightarrow> string" where
  "normalize_topic lower raw = join '' '' (map lower (split_whitespace raw))"

type_synonym Targets = "(string \<times> nat) list"

record TransitionMap =
  tm_transitions :: "(string \<times> Targets) list"
  tm_topic_cache :: "(string \<times> string) list"

definition transition_map_default :: TransitionMap where
  "transition_map_default = \<lparr> tm_transitions = [], tm_topic_cache = [] \<rparr>"

definition resolve_topic :: "(string \<Rightarrow> string) \<Rightarrow> TransitionMap \<Rightarrow> string \<Rightarrow> string" where
  "resolve_topic lower m raw =
     (let normalized = normalize_topic lower raw in
      case map_of (tm_topic_cache m) normalized of Some c \<Rightarrow> c | None \<Rightarrow> normalized)"

text \<open>\<open>entry(from).or_default().entry(to).or_insert(0) += n\<close>, wrapping at 32 bits.\<close>

definition targets_of :: "(string \<times> Targets) list \<Rightarrow> string \<Rightarrow> Targets" where
  "targets_of tr from_topic = (case map_of tr from_topic of None \<Rightarrow> [] | Some row \<Rightarrow> row)"

definition or_zero :: "nat option \<Rightarrow> nat" where
  "or_zero x = (case x of None \<Rightarrow> 0 | Some n \<Rightarrow> n)"

definition add_target :: "string \<Rightarrow> nat \<Rightarrow> Targets \<Rightarrow> Targets" where
  "add_target to_topic n row = AList.update to_topic (wrap32 (or_zero (map_of row to_topic) + n)) row"

definition add_count :: "string \<times> string \<Rightarrow> nat \<Rightarrow> (string \<times> Targets) list \<Rightarrow> (string \<times> Targets) list" where
  "add_count k n tr = AList.update (fst k) (add_target (snd k) n (targets_of tr (fst k))) tr"

definition record_transition :: "(string \<Rightarrow> string) \<Rightarrow> TransitionMap \<Rightarrow> string \<Rightarrow> string \<Rightarrow> TransitionMap" where
  "record_transition lower m from_topic to_topic =
     m\<lparr>tm_transitions := add_count (resolve_topic lower m from_topic, resolve_topic lower m to_topic) 1 (tm_transitions m)\<rparr>"

definition reinforce :: "(string \<Rightarrow> string) \<Rightarrow> TransitionMap \<Rightarrow> string \<Rightarrow> string \<Rightarrow> TransitionMap" where
  "reinforce lower m from_topic to_topic =
     m\<lparr>tm_transitions := add_count (resolve_topic lower m from_topic, resolve_topic lower m to_topic) REINFORCEMENT_BONUS
        (tm_transitions m)\<rparr>"

definition decay_target :: "string \<Rightarrow> Targets \<Rightarrow> Targets" where
  "decay_target to_topic row =
     (case map_of row to_topic of None \<Rightarrow> row
      | Some n \<Rightarrow> if n - 1 = 0 then AList.delete to_topic row else AList.update to_topic (n - 1) row)"

definition decay_count :: "string \<times> string \<Rightarrow> (string \<times> Targets) list \<Rightarrow> (string \<times> Targets) list" where
  "decay_count k tr =
     (case map_of tr (fst k) of None \<Rightarrow> tr
      | Some targets \<Rightarrow> (let targets = decay_target (snd k) targets in
          if targets = [] then AList.delete (fst k) tr else AList.update (fst k) targets tr))"

definition decay_transition_count :: "(string \<Rightarrow> string) \<Rightarrow> TransitionMap \<Rightarrow> string \<Rightarrow> string \<Rightarrow> TransitionMap" where
  "decay_transition_count lower m from_topic to_topic =
     m\<lparr>tm_transitions := decay_count (resolve_topic lower m from_topic, resolve_topic lower m to_topic) (tm_transitions m)\<rparr>"

text \<open>\<open>sort_by_key(Reverse(count))\<close> is stable; the ties keep the order of iteration.\<close>

definition count_before :: "string \<times> nat \<Rightarrow> string \<times> nat \<Rightarrow> bool" where
  "count_before a b = (snd b < snd a)"

definition predict_from :: "(string \<Rightarrow> string) \<Rightarrow> (Targets \<Rightarrow> Targets) \<Rightarrow> TransitionMap \<Rightarrow> string \<Rightarrow> nat \<Rightarrow> (string \<times> nat) list" where
  "predict_from lower iter m topic limit =
     (case map_of (tm_transitions m) (resolve_topic lower m topic) of None \<Rightarrow> []
      | Some targets \<Rightarrow> take limit (sort_by count_before (iter targets)))"

definition learn_canonical :: "(string \<Rightarrow> string) \<Rightarrow> TransitionMap \<Rightarrow> string \<Rightarrow> string \<Rightarrow> TransitionMap" where
  "learn_canonical lower m raw canonical =
     (let normalized = normalize_topic lower raw; canonical = normalize_topic lower canonical in
      if normalized \<noteq> canonical then m\<lparr>tm_topic_cache := AList.update normalized canonical (tm_topic_cache m)\<rparr> else m)"

definition get_canonical :: "(string \<Rightarrow> string) \<Rightarrow> TransitionMap \<Rightarrow> string \<Rightarrow> string option" where
  "get_canonical lower m raw = map_of (tm_topic_cache m) (normalize_topic lower raw)"

text \<open>The loops push the topics that are not there yet; sorting and \<open>dedup\<close> make their order irrelevant.\<close>

fun push_unseen :: "string list \<Rightarrow> string list \<Rightarrow> string list" where
  "push_unseen topics [] = topics"
| "push_unseen topics (t # ts) = push_unseen (if t \<in> set topics then topics else topics @ [t]) ts"

definition known_topics :: "TransitionMap \<Rightarrow> string list" where
  "known_topics m =
     remdups_adj (sort (push_unseen (map snd (tm_topic_cache m))
       (concat (map (\<lambda>(key, targets). key # map fst targets) (tm_transitions m)))))"

definition topic_cache_size :: "TransitionMap \<Rightarrow> nat" where
  "topic_cache_size m = length (tm_topic_cache m)"

definition transitions_empty :: "TransitionMap \<Rightarrow> bool" where
  "transitions_empty m = (tm_transitions m = [])"

definition total_transitions :: "TransitionMap \<Rightarrow> nat" where
  "total_transitions m = sum_list (map (length \<circ> snd) (tm_transitions m))"

section \<open>Snapshots\<close>

record TransitionSnapshot =
  ts_version :: nat
  ts_transitions :: "(string \<times> Targets) list"
  ts_topic_cache :: "(string \<times> string) list"

definition TRANSITION_SNAPSHOT_VERSION :: nat where
  "TRANSITION_SNAPSHOT_VERSION = 2"

definition prune :: "nat \<Rightarrow> (string \<times> Targets) list \<Rightarrow> (string \<times> Targets) list" where
  "prune min_count tr =
     List.map_filter (\<lambda>(from_topic, targets).
       let kept = filter (\<lambda>(t, c). min_count \<le> c) targets in if kept = [] then None else Some (from_topic, kept)) tr"

definition transition_snapshot :: "TransitionMap \<Rightarrow> nat \<Rightarrow> TransitionSnapshot" where
  "transition_snapshot m min_count =
     \<lparr> ts_version = TRANSITION_SNAPSHOT_VERSION, ts_transitions = prune min_count (tm_transitions m),
       ts_topic_cache = tm_topic_cache m \<rparr>"

fun merge_row :: "Targets \<Rightarrow> Targets \<Rightarrow> Targets" where
  "merge_row entry [] = entry"
| "merge_row entry ((to_topic, n) # ts) = merge_row (add_target to_topic n entry) ts"

fun merge_rows :: "(string \<times> Targets) list \<Rightarrow> (string \<times> Targets) list \<Rightarrow> (string \<times> Targets) list" where
  "merge_rows tr [] = tr"
| "merge_rows tr ((from_topic, targets) # rows) =
     merge_rows (AList.update from_topic (merge_row (targets_of tr from_topic) targets) tr) rows"

text \<open>\<open>entry(k).or_insert(v)\<close> over the entries of a snapshot: what is there is kept.\<close>

fun or_insert_all :: "('k \<times> 'v) list \<Rightarrow> ('k \<times> 'v) list \<Rightarrow> ('k \<times> 'v) list" where
  "or_insert_all m [] = m"
| "or_insert_all m ((k, v) # es) = or_insert_all (case map_of m k of Some _ \<Rightarrow> m | None \<Rightarrow> AList.update k v m) es"

definition load_transitions :: "TransitionMap \<Rightarrow> TransitionSnapshot \<Rightarrow> unit MenteResult \<times> TransitionMap" where
  "load_transitions m snapshot =
     (if TRANSITION_SNAPSHOT_VERSION < ts_version snapshot
      then (Err (Io (''unsupported transition snapshot version: '' @ show_nat (ts_version snapshot)
              @ '' (expected <= '' @ show_nat TRANSITION_SNAPSHOT_VERSION @ '')'')), m)
      else (Ok (), m\<lparr>tm_transitions := merge_rows (tm_transitions m) (ts_transitions snapshot),
                     tm_topic_cache := or_insert_all (tm_topic_cache m) (ts_topic_cache snapshot)\<rparr>))"

section \<open>The tracker\<close>

record TrajectoryTracker =
  tt_trajectory :: "TrajectoryNode list"
  tt_max_turns :: nat
  tt_transitions :: TransitionMap

definition trajectory_new :: "nat \<Rightarrow> TrajectoryTracker" where
  "trajectory_new max_turns = \<lparr> tt_trajectory = [], tt_max_turns = max_turns, tt_transitions = transition_map_default \<rparr>"

definition trajectory_default :: TrajectoryTracker where
  "trajectory_default = trajectory_new MAX_TURNS_DEFAULT"

text \<open>\<open>remove(0)\<close> panics on an empty vector, which a tracker for no turns has at first.\<close>

definition push_turn :: "TrajectoryTracker \<Rightarrow> TrajectoryNode \<Rightarrow> TrajectoryTracker MenteResult" where
  "push_turn t turn =
     (if tt_max_turns t \<le> length (tt_trajectory t)
      then if tt_trajectory t = [] then Panic else Ok (t\<lparr>tt_trajectory := tl (tt_trajectory t) @ [turn]\<rparr>)
      else Ok (t\<lparr>tt_trajectory := tt_trajectory t @ [turn]\<rparr>))"

definition note_transition :: "(string \<Rightarrow> string) \<Rightarrow> TrajectoryTracker \<Rightarrow> TrajectoryNode \<Rightarrow> TrajectoryTracker" where
  "note_transition lower t turn =
     (if tt_trajectory t = [] then t
      else t\<lparr>tt_transitions := record_transition lower (tt_transitions t) (tn_topic_summary (last (tt_trajectory t)))
               (tn_topic_summary turn)\<rparr>)"

definition record_turn :: "(string \<Rightarrow> string) \<Rightarrow> TrajectoryTracker \<Rightarrow> TrajectoryNode \<Rightarrow> TrajectoryTracker MenteResult" where
  "record_turn lower t turn = push_turn (note_transition lower t turn) turn"

text \<open>The label of a topic: learned before, given by the model, or the normalised text when the model fails.\<close>

definition canonicalize_topic :: "(string \<Rightarrow> string) \<Rightarrow> (string \<Rightarrow> string list \<Rightarrow> TopicLabel JudgeResult) \<Rightarrow> TrajectoryTracker \<Rightarrow> string
    \<Rightarrow> (string \<times> TrajectoryTracker) MenteResult" where
  "canonicalize_topic lower llm t raw =
     (case get_canonical lower (tt_transitions t) raw of
        Some cached \<Rightarrow> Ok (cached, t)
      | None \<Rightarrow> (case llm raw (known_topics (tt_transitions t)) of
            Ok label \<Rightarrow> Ok (normalize_topic lower (tl_topic label),
              t\<lparr>tt_transitions := learn_canonical lower (tt_transitions t) raw (tl_topic label)\<rparr>)
          | Err e \<Rightarrow> Ok (normalize_topic lower raw, t)
          | Panic \<Rightarrow> Panic))"

definition record_turn_with_llm :: "(string \<Rightarrow> string) \<Rightarrow> (string \<Rightarrow> string list \<Rightarrow> TopicLabel JudgeResult) \<Rightarrow> TrajectoryTracker
    \<Rightarrow> TrajectoryNode \<Rightarrow> TrajectoryTracker MenteResult" where
  "record_turn_with_llm lower llm t turn =
     bindO (canonicalize_topic lower llm t (tn_topic_summary turn))
       (\<lambda>(canonical, t). record_turn lower t (turn\<lparr>tn_topic_summary := canonical\<rparr>))"

fun decision_text :: "DecisionState \<Rightarrow> string" where
  "decision_text Investigating = ''Status: Still investigating.''"
| "decision_text (NarrowedTo choice) = ''You narrowed down to: '' @ choice"
| "decision_text (Decided decision) = ''You decided on: '' @ decision"
| "decision_text Interrupted = ''Status: Was interrupted before completion.''"
| "decision_text Completed = ''Status: Completed.''"

definition arrow :: string where
  "arrow = '' '' @ [CHR 0xE2, CHR 0x86, CHR 0x92] @ '' ''"

definition recent_topics :: "TrajectoryNode list \<Rightarrow> string list" where
  "recent_topics tr = map tn_topic_summary (rev (take 3 (drop 1 (rev tr))))"

definition get_resume_context :: "TrajectoryTracker \<Rightarrow> string option" where
  "get_resume_context t =
     (if tt_trajectory t = [] then None
      else let l = last (tt_trajectory t) in
        Some (join '' '' ([''You were working on: '' @ tn_topic_summary l, decision_text (tn_decision_state l)]
          @ (if tn_open_questions l = [] then [] else [''Open questions:'' @ eol @ bullets (tn_open_questions l)])
          @ (if 1 < length (tt_trajectory t)
             then [''Recent trajectory: '' @ join arrow (recent_topics (tt_trajectory t))] else []))))"

text \<open>\<open>if seen.insert(x) { predictions.push(x) }\<close>: the set holds what was pushed.\<close>

definition push_new_prediction :: "string list \<Rightarrow> string \<Rightarrow> string list" where
  "push_new_prediction predictions x = (if x \<in> set predictions then predictions else predictions @ [x])"

fun fill_questions :: "string list \<Rightarrow> string list \<Rightarrow> string list" where
  "fill_questions predictions [] = predictions"
| "fill_questions predictions (q # qs) =
     (if 3 \<le> length predictions then predictions else fill_questions (push_new_prediction predictions q) qs)"

definition predict_next_topics :: "(string \<Rightarrow> string) \<Rightarrow> (Targets \<Rightarrow> Targets) \<Rightarrow> TrajectoryTracker \<Rightarrow> string list" where
  "predict_next_topics lower iter t =
     (if tt_trajectory t = [] then []
      else let l = last (tt_trajectory t);
               learned = predict_from lower iter (tt_transitions t) (tn_topic_summary l) 3;
               p1 = foldl push_new_prediction [] (map fst learned);
               p2 = fill_questions p1 (tn_open_questions l);
               p3 = (if length p2 < 3 then push_new_prediction p2 (tn_topic_summary l @ '' (continued)'') else p2);
               p4 = (if length p3 < 3 \<and> 2 \<le> length (tt_trajectory t)
                     then push_new_prediction p3 (tn_topic_summary (tt_trajectory t ! (length (tt_trajectory t) - 2)) @ '' (revisit)'')
                     else p3)
           in take 3 p4)"

definition reinforce_transition :: "(string \<Rightarrow> string) \<Rightarrow> TrajectoryTracker \<Rightarrow> string \<Rightarrow> TrajectoryTracker" where
  "reinforce_transition lower t hit_topic =
     (if tt_trajectory t = [] then t
      else t\<lparr>tt_transitions := reinforce lower (tt_transitions t) (tn_topic_summary (last (tt_trajectory t))) hit_topic\<rparr>)"

definition decay_transition :: "(string \<Rightarrow> string) \<Rightarrow> TrajectoryTracker \<Rightarrow> string \<Rightarrow> TrajectoryTracker" where
  "decay_transition lower t predicted_topic =
     (if tt_trajectory t = [] then t
      else t\<lparr>tt_transitions :=
               decay_transition_count lower (tt_transitions t) (tn_topic_summary (last (tt_trajectory t))) predicted_topic\<rparr>)"

section \<open>Counting\<close>

text \<open>
  What a store of 32-bit counters promises, and what follows for a sequence of increments: each counter grows by the number of
  times its key occurs.
\<close>

locale tally =
  fixes ok :: "'s \<Rightarrow> bool"
    and get :: "'s \<Rightarrow> 'k \<Rightarrow> nat"
    and add :: "'k \<Rightarrow> nat \<Rightarrow> 's \<Rightarrow> 's"
  assumes ok_add: "ok s \<Longrightarrow> ok (add k n s)"
    and get_bound: "ok s \<Longrightarrow> get s k < u32_mod"
    and get_add: "ok s \<Longrightarrow> get (add k n s) j = (if j = k then wrap32 (get s k + n) else get s j)"
begin

lemma ok_adds: "ok s \<Longrightarrow> ok (fold (\<lambda>(k, n). add k n) kns s)"
  by (induction kns arbitrary: s) (auto simp: ok_add)

lemma get_adds:
  "ok s \<Longrightarrow> get (fold (\<lambda>(k, n). add k n) kns s) j = wrap32 (get s j + sum_list (map snd (filter (\<lambda>(k, n). k = j) kns)))"
proof (induction kns arbitrary: s)
  case Nil
  then show ?case using get_bound by simp
next
  case (Cons kn kns)
  obtain k n where kn: "kn = (k, n)" by fastforce
  have "wrap32 (wrap32 (get s j + n) + m) = wrap32 (get s j + (n + m))" for m
    by (simp add: wrap32_def mod_add_left_eq add.assoc)
  then show ?case using Cons.IH[OF ok_add[OF Cons.prems, of k n]] by (auto simp: kn get_add[OF Cons.prems])
qed

lemma get_occurrences:
  assumes "ok s"
  shows "get (fold (\<lambda>k. add k 1) ks s) j = wrap32 (get s j + count_list ks j)"
proof -
  have "fold (\<lambda>k. add k 1) ks s = fold (\<lambda>(k, n). add k n) (map (\<lambda>k. (k, 1)) ks) s" by (induction ks arbitrary: s) auto
  moreover have "sum_list (map snd (filter (\<lambda>(k, n). k = j) (map (\<lambda>k. (k, 1)) ks))) = count_list ks j"
    by (induction ks) auto
  ultimately show ?thesis by (simp add: get_adds[OF assms])
qed

end

text \<open>The invariant of the transitions: keys are distinct on both levels, no row is empty, counts fit 32 bits.\<close>

definition row_ok :: "Targets \<Rightarrow> bool" where
  "row_ok row \<longleftrightarrow> distinct (map fst row) \<and> (\<forall>c \<in> snd ` set row. c < u32_mod)"

definition transitions_ok :: "(string \<times> Targets) list \<Rightarrow> bool" where
  "transitions_ok tr \<longleftrightarrow> distinct (map fst tr) \<and> (\<forall>row \<in> snd ` set tr. row_ok row \<and> row \<noteq> [])"

definition row_count :: "Targets \<Rightarrow> string \<Rightarrow> nat" where
  "row_count row t = or_zero (map_of row t)"

definition transition_count :: "(string \<times> Targets) list \<Rightarrow> string \<times> string \<Rightarrow> nat" where
  "transition_count tr k = row_count (targets_of tr (fst k)) (snd k)"

lemma or_zero_simps [simp]: "or_zero None = 0" "or_zero (Some n) = n"
  by (simp_all add: or_zero_def)

lemma snd_set_update: "snd ` set (AList.update k v al) \<subseteq> insert v (snd ` set al)"
  by (induction al) auto

lemma all_snd_update: "\<forall>c \<in> snd ` set al. P c \<Longrightarrow> P v \<Longrightarrow> \<forall>c \<in> snd ` set (AList.update k v al). P c"
  using snd_set_update[of k v al] by blast

lemma all_snd_delete: "\<forall>c \<in> snd ` set al. P c \<Longrightarrow> \<forall>c \<in> snd ` set (AList.delete k al). P c"
  by (auto simp: AList.delete_eq)

lemma update_not_Nil [simp]: "AList.update k v al \<noteq> []"
  by (cases al) auto

lemma row_ok_Nil [simp]: "row_ok []"
  by (simp add: row_ok_def)

lemma row_ok_targets: "transitions_ok tr \<Longrightarrow> row_ok (targets_of tr f)"
  by (force simp: transitions_ok_def targets_of_def dest: map_of_SomeD split: option.splits)

lemma row_ok_update: "row_ok row \<Longrightarrow> n < u32_mod \<Longrightarrow> row_ok (AList.update t n row)"
  unfolding row_ok_def by (elim conjE) (intro conjI distinct_update all_snd_update)

lemma row_ok_add: "row_ok row \<Longrightarrow> row_ok (add_target t n row)"
  by (simp add: add_target_def row_ok_update)

lemma row_ok_delete: "row_ok row \<Longrightarrow> row_ok (AList.delete t row)"
  unfolding row_ok_def by (elim conjE) (intro conjI AList.distinct_delete all_snd_delete)

lemma transitions_ok_update:
  "transitions_ok tr \<Longrightarrow> row_ok row \<Longrightarrow> row \<noteq> [] \<Longrightarrow> transitions_ok (AList.update f row tr)"
  unfolding transitions_ok_def by (elim conjE) (intro conjI distinct_update all_snd_update)

lemma transitions_ok_delete: "transitions_ok tr \<Longrightarrow> transitions_ok (AList.delete f tr)"
  unfolding transitions_ok_def by (elim conjE) (intro conjI AList.distinct_delete all_snd_delete)

lemma targets_of_update [simp]:
  "targets_of (AList.update f row tr) g = (if g = f then row else targets_of tr g)"
  by (simp add: targets_of_def update_conv')

lemma targets_of_delete [simp]: "targets_of (AList.delete f tr) g = (if g = f then [] else targets_of tr g)"
  by (simp add: targets_of_def delete_conv')

lemma row_count_add [simp]: "row_count (add_target t n row) u = (if u = t then wrap32 (row_count row t + n) else row_count row u)"
  by (simp add: row_count_def add_target_def update_conv')

lemma row_count_bound: "row_ok row \<Longrightarrow> row_count row t < u32_mod"
  by (force simp: row_count_def row_ok_def or_zero_def dest: map_of_SomeD split: option.splits)

interpretation transitions: tally transitions_ok transition_count add_count
proof
  fix tr :: "(string \<times> Targets) list" and k j n
  assume tr: "transitions_ok tr"
  show "transitions_ok (add_count k n tr)"
    unfolding add_count_def using tr row_ok_targets row_ok_add transitions_ok_update by (simp add: add_target_def)
  show "transition_count tr k < u32_mod" using row_ok_targets[OF tr] row_count_bound by (simp add: transition_count_def)
  show "transition_count (add_count k n tr) j = (if j = k then wrap32 (transition_count tr k + n) else transition_count tr j)"
    by (cases k; cases j) (auto simp: transition_count_def add_count_def)
qed

lemma decay_target_count:
  "row_count (decay_target t row) u = (if u = t then row_count row t - 1 else row_count row u)"
  by (auto simp: decay_target_def row_count_def update_conv' delete_conv' split: option.splits)

lemma decay_count_spec:
  assumes "transitions_ok tr"
  shows "transitions_ok (decay_count k tr)
    \<and> transition_count (decay_count k tr) j = (if j = k then transition_count tr k - 1 else transition_count tr j)"
proof (cases "map_of tr (fst k)")
  case None
  then show ?thesis using assms by (cases j; cases k) (auto simp: decay_count_def transition_count_def targets_of_def row_count_def)
next
  case (Some row)
  have ok: "row_ok row" using Some assms row_ok_targets[OF assms, of "fst k"] by (simp add: targets_of_def)
  have rok: "row_ok (decay_target (snd k) row)"
    using ok row_count_bound[OF ok, of "snd k"]
    by (auto simp: decay_target_def row_count_def intro!: row_ok_delete row_ok_update split: option.splits)
  have t: "targets_of tr (fst k) = row" by (simp add: targets_of_def Some)
  have "targets_of (decay_count k tr) g = (if g = fst k then decay_target (snd k) row else targets_of tr g)" for g
    by (simp add: decay_count_def Some Let_def)
  then have "transition_count (decay_count k tr) j = (if j = k then transition_count tr k - 1 else transition_count tr j)"
    using t by (cases j; cases k) (auto simp: transition_count_def decay_target_count)
  moreover have "transitions_ok (decay_count k tr)"
    using assms rok transitions_ok_delete transitions_ok_update by (simp add: decay_count_def Some Let_def)
  ultimately show ?thesis by blast
qed

section \<open>Merging and pruning\<close>

lemma row_count_Cons [simp]: "row_count ((t, n) # row) u = (if u = t then n else row_count row u)"
  by (simp add: row_count_def)

lemma row_count_Nil [simp]: "row_count [] u = 0"
  by (simp add: row_count_def)

lemma row_count_notin: "t \<notin> fst ` set row \<Longrightarrow> row_count row t = 0"
  by (simp add: row_count_def map_of_eq_None_iff[THEN iffD2])

lemma targets_of_Cons [simp]: "targets_of ((f, row) # tr) g = (if g = f then row else targets_of tr g)"
  by (simp add: targets_of_def)

lemma transition_count_Nil [simp]: "transition_count [] k = 0"
  by (simp add: transition_count_def targets_of_def)

lemma transitions_ok_Nil [simp]: "transitions_ok []"
  by (simp add: transitions_ok_def)

lemma targets_of_notin: "f \<notin> fst ` set tr \<Longrightarrow> targets_of tr f = []"
  by (simp add: targets_of_def map_of_eq_None_iff[THEN iffD2])

lemma merge_row_spec:
  "row_ok row \<Longrightarrow> distinct (map fst ts) \<Longrightarrow> row_ok (merge_row row ts)
     \<and> row_count (merge_row row ts) u = wrap32 (row_count row u + row_count ts u) \<and> (merge_row row ts = [] \<longrightarrow> row = [] \<and> ts = [])"
proof (induction row ts rule: merge_row.induct)
  case (1 row)
  then show ?case using row_count_bound by simp
next
  case (2 row t n ts)
  have "row_ok (add_target t n row)" using "2.prems"(1) by (rule row_ok_add)
  note IH = "2.IH"[OF this]
  have "add_target t n row \<noteq> []" by (simp add: add_target_def)
  then show ?case using IH "2.prems"(2) row_count_notin[of t ts] by (auto simp: wrap32_def mod_add_left_eq)
qed

lemma merge_rows_spec:
  "transitions_ok tr \<Longrightarrow> transitions_ok rows \<Longrightarrow> transitions_ok (merge_rows tr rows)
     \<and> transition_count (merge_rows tr rows) k = wrap32 (transition_count tr k + transition_count rows k)"
proof (induction tr rows rule: merge_rows.induct)
  case (1 tr)
  then show ?case using transitions.get_bound[of tr k] by simp
next
  case (2 tr f ts rows)
  have ts: "row_ok ts" "ts \<noteq> []" and rows: "transitions_ok rows" and f: "f \<notin> fst ` set rows"
    using "2.prems"(2) by (auto simp: transitions_ok_def)
  let ?tr = "AList.update f (merge_row (targets_of tr f) ts) tr"
  have m: "row_ok (merge_row (targets_of tr f) ts)" "merge_row (targets_of tr f) ts \<noteq> []"
    "\<And>u. row_count (merge_row (targets_of tr f) ts) u = wrap32 (row_count (targets_of tr f) u + row_count ts u)"
    using merge_row_spec[of "targets_of tr f" ts] row_ok_targets[OF "2.prems"(1)] ts by (auto simp: row_ok_def)
  have "transitions_ok ?tr" using transitions_ok_update "2.prems"(1) m(1,2) by blast
  note IH = "2.IH"[OF this rows]
  have "transition_count rows k = 0" if "fst k = f" using targets_of_notin[OF f] that by (simp add: transition_count_def)
  then show ?case using IH m(3) by (auto simp: transition_count_def)
qed

lemma prune_spec:
  assumes "transitions_ok tr"
  shows "transitions_ok (prune n tr)
    \<and> transition_count (prune n tr) k = (if n \<le> transition_count tr k then transition_count tr k else 0)"
  using assms
proof (induction tr)
  case Nil
  then show ?case by (simp add: prune_def map_filter_simps)
next
  case (Cons r tr)
  obtain f row where r: "r = (f, row)" by fastforce
  let ?kept = "filter (\<lambda>(t, c). n \<le> c) row"
  have ok: "row_ok row" "transitions_ok tr" "f \<notin> fst ` set tr" using Cons.prems by (auto simp: r transitions_ok_def)
  have kept: "row_ok ?kept" using ok(1) by (auto simp: row_ok_def distinct_map_filter)
  have cnt: "row_count ?kept u = (if n \<le> row_count row u then row_count row u else 0)" for u
    using ok(1) by (induction row) (auto simp: row_ok_def row_count_notin split: if_split_asm)
  have keys: "fst ` set (prune n tr) \<subseteq> fst ` set tr"
    by (force simp: prune_def List.map_filter_def Let_def split: if_splits)
  have step: "prune n (r # tr) = (if ?kept = [] then prune n tr else (f, ?kept) # prune n tr)"
    by (simp add: prune_def map_filter_simps r Let_def)
  have IH: "transitions_ok (prune n tr)"
    "transition_count (prune n tr) k = (if n \<le> transition_count tr k then transition_count tr k else 0)"
    using Cons.IH[OF ok(2)] by auto
  have "transitions_ok (prune n (r # tr))"
    using IH(1) kept keys ok(3) by (auto simp: step transitions_ok_def)
  moreover have "f \<notin> fst ` set (prune n tr)" using keys ok(3) by blast
  then have "transition_count (prune n tr) k = 0" "transition_count tr k = 0" if "fst k = f"
    using that ok(3) by (simp_all add: transition_count_def targets_of_notin)
  moreover have "targets_of (prune n (r # tr)) g
      = (if g = f then (if ?kept = [] then targets_of (prune n tr) f else ?kept) else targets_of (prune n tr) g)" for g
    by (simp add: step)
  ultimately show ?case using IH(2) cnt[of "snd k"] by (cases "fst k = f") (auto simp: r transition_count_def)
qed

lemma map_of_or_insert_all: "distinct (map fst es) \<Longrightarrow> map_of (or_insert_all m es) = map_of es ++ map_of m"
proof (induction m es rule: or_insert_all.induct)
  case (2 m k v es)
  then show ?case by (auto simp: update_conv' map_add_def fun_eq_iff dest: map_of_SomeD split: option.splits)
qed simp

section \<open>Runs of the tracker\<close>

fun record_turns :: "(string \<Rightarrow> string) \<Rightarrow> TrajectoryTracker \<Rightarrow> TrajectoryNode list \<Rightarrow> TrajectoryTracker MenteResult" where
  "record_turns lower t [] = Ok t"
| "record_turns lower t (turn # turns) = bindO (record_turn lower t turn) (\<lambda>t. record_turns lower t turns)"

lemma record_turns_snoc:
  "record_turns lower t (turns @ [x]) = bindO (record_turns lower t turns) (\<lambda>t. record_turn lower t x)"
proof (induction turns arbitrary: t)
  case Nil
  show ?case by (cases "record_turn lower t x") simp_all
next
  case (Cons a turns)
  then show ?case by (cases "record_turn lower t a") simp_all
qed

text \<open>The topic changes of a conversation: each turn's normalised topic with the next one's.\<close>

definition topic_changes :: "(string \<Rightarrow> string) \<Rightarrow> TrajectoryNode list \<Rightarrow> (string \<times> string) list" where
  "topic_changes lower turns = (let ts = map (normalize_topic lower \<circ> tn_topic_summary) turns in zip ts (tl ts))"

lemma zip_tl_snoc: "zip (xs @ [x]) (tl (xs @ [x])) = zip xs (tl xs) @ (if xs = [] then [] else [(last xs, x)])"
proof (induction xs)
  case (Cons y ys)
  then show ?case by (cases ys) simp_all
qed simp

lemma topic_changes_snoc:
  "topic_changes lower (turns @ [x]) = topic_changes lower turns
     @ (if turns = [] then [] else [(normalize_topic lower (tn_topic_summary (last turns)), normalize_topic lower (tn_topic_summary x))])"
  using zip_tl_snoc[of "map (normalize_topic lower \<circ> tn_topic_summary) turns"
      "normalize_topic lower (tn_topic_summary x)"]
  by (simp add: topic_changes_def last_map Let_def)

lemma record_turns_state:
  assumes "0 < n"
  shows "record_turns lower (trajectory_new n) turns = Ok \<lparr> tt_trajectory = drop (length turns - n) turns, tt_max_turns = n,
    tt_transitions = \<lparr> tm_transitions = fold (\<lambda>k. add_count k 1) (topic_changes lower turns) [], tm_topic_cache = [] \<rparr> \<rparr>"
proof (induction turns rule: rev_induct)
  case Nil
  show ?case by (simp add: trajectory_new_def transition_map_default_def topic_changes_def)
next
  case (snoc x turns)
  let ?tr = "drop (length turns - n) turns"
  have ne: "?tr = [] \<longleftrightarrow> turns = []" using assms by (cases turns) auto
  have l: "turns \<noteq> [] \<Longrightarrow> last ?tr = last turns" using assms by simp
  have d: "(if n \<le> length ?tr then tl ?tr @ [x] else ?tr @ [x]) = drop (length (turns @ [x]) - n) (turns @ [x])"
    using assms by (auto simp: Suc_diff_le drop_Suc tl_drop not_le)
  show ?case
    using assms ne l d[symmetric]
    by (auto simp: record_turns_snoc snoc.IH record_turn_def note_transition_def push_turn_def record_transition_def
        resolve_topic_def topic_changes_snoc)
qed

section \<open>Predictions\<close>

interpretation by_count: comparator count_before "\<lambda>_. True"
  by unfold_locales (auto simp: count_before_def)

lemma push_new_distinct: "distinct ps \<Longrightarrow> distinct (push_new_prediction ps x)"
  by (simp add: push_new_prediction_def)

lemma push_new_hd: "ps \<noteq> [] \<Longrightarrow> hd (push_new_prediction ps x) = hd ps" and push_new_not_Nil [simp]: "push_new_prediction ps x \<noteq> []"
  by (auto simp: push_new_prediction_def)

lemma push_all:
  "distinct ps \<Longrightarrow> distinct (foldl push_new_prediction ps xs)
     \<and> (ps \<noteq> [] \<longrightarrow> foldl push_new_prediction ps xs \<noteq> [] \<and> hd (foldl push_new_prediction ps xs) = hd ps)"
proof (induction xs arbitrary: ps)
  case (Cons x xs)
  then show ?case using Cons.IH[of "push_new_prediction ps x"] push_new_distinct push_new_hd by auto
qed simp

lemma fill_questions_spec:
  "distinct ps \<Longrightarrow> distinct (fill_questions ps qs)
     \<and> (ps \<noteq> [] \<longrightarrow> fill_questions ps qs \<noteq> [] \<and> hd (fill_questions ps qs) = hd ps)"
proof (induction ps qs rule: fill_questions.induct)
  case (2 ps q qs)
  then show ?case using push_new_distinct push_new_hd by auto
qed simp

lemma predict_from_top:
  assumes "map_of (tm_transitions m) (resolve_topic lower m topic) = Some row" "row \<noteq> []" "mset (iter row) = mset row"
  shows "predict_from lower iter m topic 3 \<noteq> []
    \<and> hd (predict_from lower iter m topic 3) \<in> set row
    \<and> (\<forall>p \<in> set row. snd p \<le> snd (hd (predict_from lower iter m topic 3)))"
proof -
  let ?s = "sort_by count_before (iter row)"
  have set: "set ?s = set row" using assms(3) by (metis set_mset_mset set_sort_by)
  then obtain x xs where s: "?s = x # xs" using assms(2) by (cases ?s) auto
  have "by_count.ordered ?s" using by_count.ordered_sort_by by simp
  then have "\<forall>p \<in> set (x # xs). snd p \<le> snd x" using s by (auto simp: by_count.ordered_def count_before_def not_less)
  then have "\<forall>p \<in> set row. snd p \<le> snd x" unfolding set[symmetric] s .
  then show ?thesis using set s assms(1) by (auto simp: predict_from_def)
qed

section \<open>Properties\<close>

text \<open>The tracker is a faithful Markov chain of the conversation: after any number of turns it holds the last
  \<open>max_turns\<close> of them in order, and every transition count is the number of times the one topic was followed directly by the
  other (modulo the 32 bits of the counter).\<close>

theorem trajectory_counts:
  assumes "0 < n"
  shows "\<exists>t. record_turns lower (trajectory_new n) turns = Ok t
    \<and> tt_trajectory t = drop (length turns - n) turns
    \<and> (\<forall>a b. transition_count (tm_transitions (tt_transitions t)) (a, b) = wrap32 (count_list (topic_changes lower turns) (a, b)))"
proof -
  have "transition_count (fold (\<lambda>k. add_count k 1) (topic_changes lower turns) []) (a, b)
      = wrap32 (count_list (topic_changes lower turns) (a, b))" for a b
    using transitions.get_occurrences[OF transitions_ok_Nil] by simp
  then show ?thesis using record_turns_state[OF assms] by simp
qed

definition sample_turn :: "string \<Rightarrow> TrajectoryNode" where
  "sample_turn topic = \<lparr> tn_turn_id = 0, tn_topic_embedding = [], tn_topic_summary = topic, tn_decision_state = Investigating,
     tn_open_questions = [], tn_timestamp = 0 \<rparr>"

theorem trajectory_counts_witness:
  "\<exists>t. record_turns id (trajectory_new 2) (map sample_turn [''a'', ''b'', ''a'', ''b'']) = Ok t
     \<and> transition_count (tm_transitions (tt_transitions t)) (''a'', ''b'') = 2"
proof -
  have "count_list (topic_changes id (map sample_turn [''a'', ''b'', ''a'', ''b''])) (''a'', ''b'') = 2"
    unfolding topic_changes_def sample_turn_def by code_simp
  then show ?thesis using trajectory_counts[of 2 id "map sample_turn [''a'', ''b'', ''a'', ''b'']"] by fastforce
qed

text \<open>C39: Saving and loading: the counts of a saved map, less those below the pruning threshold, are added (in 32 bits, with
  wrap-around) to the counts of whatever map \<open>m0\<close> they are loaded into; the learned labels are taken over where \<open>m0\<close> has none
  of its own. In particular a map saved and loaded into a new one has its counts at or above the threshold and its labels back.
  Rows are well formed: distinct topics, no empty row, 32-bit counts. The JSON text of the snapshot is not part of it.\<close>

theorem transitions_roundtrip:
  assumes "transitions_ok (tm_transitions m)" "distinct (map fst (tm_topic_cache m))" "transitions_ok (tm_transitions m0)"
  shows "(case load_transitions m0 (transition_snapshot m min_count) of (r, m') \<Rightarrow>
      r = Ok () \<and> transitions_ok (tm_transitions m') \<and> (\<forall>k. transition_count (tm_transitions m') k
        = (let n = transition_count (tm_transitions m) k in
           wrap32 (transition_count (tm_transitions m0) k + (if min_count \<le> n then n else 0))))
      \<and> (\<forall>raw. map_of (tm_topic_cache m') raw = (case map_of (tm_topic_cache m0) raw of
           Some canonical \<Rightarrow> Some canonical | None \<Rightarrow> map_of (tm_topic_cache m) raw)))
    \<and> (case load_transitions transition_map_default (transition_snapshot m min_count) of (r, m') \<Rightarrow>
      r = Ok () \<and> (\<forall>k. transition_count (tm_transitions m') k
        = (if min_count \<le> transition_count (tm_transitions m) k then transition_count (tm_transitions m) k else 0))
      \<and> map_of (tm_topic_cache m') = map_of (tm_topic_cache m))"
proof -
  let ?p = "prune min_count (tm_transitions m)"
  have p: "transitions_ok ?p" using prune_spec[OF assms(1)] by blast
  have "transition_count (merge_rows [] ?p) k = transition_count ?p k" for k
    using merge_rows_spec[OF transitions_ok_Nil p] transitions.get_bound[OF p, of k] by simp
  moreover note merge_rows_spec[OF assms(3) p]
  moreover have "map_of (or_insert_all (tm_topic_cache m0) (tm_topic_cache m)) raw = (case map_of (tm_topic_cache m0) raw of
      Some canonical \<Rightarrow> Some canonical | None \<Rightarrow> map_of (tm_topic_cache m) raw)" for raw
    using map_of_or_insert_all[OF assms(2), of "tm_topic_cache m0"] by (simp add: map_add_def)
  ultimately show ?thesis using prune_spec[OF assms(1)] map_of_or_insert_all[OF assms(2), of "[]"]
    by (simp add: load_transitions_def transition_snapshot_def transition_map_default_def TRANSITION_SNAPSHOT_VERSION_def Let_def)
qed

theorem transitions_roundtrip_witness:
  "transition_count (tm_transitions (snd (load_transitions \<lparr> tm_transitions = [(''a'', [(''b'', 4)])], tm_topic_cache = [] \<rparr>
     (transition_snapshot \<lparr> tm_transitions = [(''a'', [(''b'', 3), (''c'', 1)])], tm_topic_cache = [] \<rparr> 2)))) (''a'', ''b'') = 7"
proof -
  define m m0 :: TransitionMap where "m = \<lparr> tm_transitions = [(''a'', [(''b'', 3), (''c'', 1)])], tm_topic_cache = [] \<rparr>"
    and "m0 = \<lparr> tm_transitions = [(''a'', [(''b'', 4)])], tm_topic_cache = [] \<rparr>"
  have "transitions_ok (tm_transitions m)" "distinct (map fst (tm_topic_cache m))" "transitions_ok (tm_transitions m0)"
    by (simp_all add: m_def m0_def transitions_ok_def row_ok_def)
  from transitions_roundtrip[OF this, of 2]
  have "transition_count (tm_transitions (snd (load_transitions m0 (transition_snapshot m 2)))) (''a'', ''b'')
      = wrap32 (transition_count (tm_transitions m0) (''a'', ''b'') + 3)"
    by (auto simp: Let_def m_def transition_count_def targets_of_def row_count_def split: prod.splits)
  then show ?thesis by (simp add: m_def m0_def transition_count_def targets_of_def row_count_def wrap32_def)
qed

text \<open>Once a turn is recorded there is always a prediction, there are at most three, all different, and the first is a most
  frequent successor of the current topic as soon as it has one; whatever the order in which the hash map is iterated.\<close>

theorem predict_next_topics_spec:
  assumes "tt_trajectory t \<noteq> []" "transitions_ok (tm_transitions (tt_transitions t))" "\<And>xs. mset (iter xs) = mset xs"
  shows "let ps = predict_next_topics lower iter t; m = tt_transitions t;
             row = targets_of (tm_transitions m) (resolve_topic lower m (tn_topic_summary (last (tt_trajectory t)))) in
    ps \<noteq> [] \<and> length ps \<le> 3 \<and> distinct ps
    \<and> (row \<noteq> [] \<longrightarrow> (\<exists>n. (hd ps, n) \<in> set row \<and> (\<forall>p \<in> set row. snd p \<le> n)))"
proof -
  let ?m = "tt_transitions t" and ?l = "last (tt_trajectory t)"
  let ?learned = "predict_from lower iter ?m (tn_topic_summary ?l) 3"
  define p1 where "p1 = foldl push_new_prediction [] (map fst ?learned)"
  define p2 where "p2 = fill_questions p1 (tn_open_questions ?l)"
  define p3 where "p3 = (if length p2 < 3 then push_new_prediction p2 (tn_topic_summary ?l @ '' (continued)'') else p2)"
  define p4 where "p4 = (if length p3 < 3 \<and> 2 \<le> length (tt_trajectory t)
    then push_new_prediction p3 (tn_topic_summary (tt_trajectory t ! (length (tt_trajectory t) - 2)) @ '' (revisit)'') else p3)"
  have ps: "predict_next_topics lower iter t = take 3 p4"
    using assms(1) by (simp add: predict_next_topics_def p1_def p2_def p3_def p4_def Let_def)
  have p1: "distinct p1" unfolding p1_def using push_all[of "[]"] by simp
  then have p2: "distinct p2" "p1 \<noteq> [] \<Longrightarrow> p2 \<noteq> [] \<and> hd p2 = hd p1" unfolding p2_def using fill_questions_spec by auto
  have p3: "distinct p3" "p3 \<noteq> []" "p2 \<noteq> [] \<Longrightarrow> hd p3 = hd p2"
    unfolding p3_def using p2(1) push_new_distinct push_new_hd by auto
  have p4: "distinct p4" "p4 \<noteq> []" "hd p4 = hd p3" unfolding p4_def using p3 push_new_distinct push_new_hd by auto
  let ?row = "targets_of (tm_transitions ?m) (resolve_topic lower ?m (tn_topic_summary ?l))"
  have "\<exists>n. (hd p4, n) \<in> set ?row \<and> (\<forall>p \<in> set ?row. snd p \<le> n)" if ne: "?row \<noteq> []"
  proof -
    have "map_of (tm_transitions ?m) (resolve_topic lower ?m (tn_topic_summary ?l)) = Some ?row"
      using ne by (auto simp: targets_of_def split: option.splits)
    note top = predict_from_top[of ?m lower "tn_topic_summary ?l" ?row iter, OF this ne assms(3)]
    then obtain x xs where l: "?learned = x # xs" by (cases ?learned) auto
    then have "p1 \<noteq> [] \<and> hd p1 = fst x"
      unfolding p1_def using push_all[of "[fst x]" "map fst xs"] by (simp add: push_new_prediction_def)
    then have "hd p4 = fst x" using p2(2) p3(3) p4(3) by simp
    then show ?thesis using top l by (intro exI[of _ "snd x"]) simp
  qed
  then show ?thesis using ps p4 by (simp add: Let_def distinct_take hd_take)
qed

theorem predict_next_topics_spec_witness:
  "hd (predict_next_topics id id \<lparr> tt_trajectory = [sample_turn ''a''], tt_max_turns = 5,
     tt_transitions = \<lparr> tm_transitions = [(''a'', [(''c'', 1), (''b'', 3)])], tm_topic_cache = [] \<rparr> \<rparr>) = ''b''"
proof -
  let ?t = "\<lparr> tt_trajectory = [sample_turn ''a''], tt_max_turns = 5,
     tt_transitions = \<lparr> tm_transitions = [(''a'', [(''c'', 1), (''b'', 3)])], tm_topic_cache = [] \<rparr> \<rparr>"
  have n: "normalize_topic id ''a'' = ''a''" by code_simp
  have "tt_trajectory ?t \<noteq> []" "transitions_ok (tm_transitions (tt_transitions ?t))" by (simp_all add: transitions_ok_def row_ok_def)
  from predict_next_topics_spec[OF this, of id id] show ?thesis
    by (auto simp: Let_def resolve_topic_def n sample_turn_def)
qed

text \<open>
  Learning a label for a topic hides the transitions recorded under the topic itself: predictions are then looked up under
  the label.
\<close>

lemma learn_canonical_hides:
  assumes "map_of (tm_topic_cache m) (normalize_topic lower a) = None" "normalize_topic lower a \<noteq> normalize_topic lower c"
    and "map_of (tm_transitions m) (normalize_topic lower c) = None"
  shows "predict_from lower iter (learn_canonical lower m a c) a limit = []"
  using assms by (simp add: predict_from_def learn_canonical_def resolve_topic_def Let_def update_conv')

text \<open>A tracker for no turns at all panics at the first turn: it removes from an empty vector.\<close>

lemma zero_turns_panics: "record_turn lower (trajectory_new 0) turn = Panic"
  by (simp add: record_turn_def note_transition_def push_turn_def trajectory_new_def)

end
