(* ===== verification/Cognitive_Entity.thy ===== *)
theory Cognitive_Entity
  imports Cognitive_Trajectory
begin

text \<open>
  Entity resolution, \<open>crates/mentedb-cognitive/src/entity.rs\<close>: the table of learned aliases, matching by words, batches
  resolved with the language-model service, and the pairs known to be different. The hash maps are association lists with
  distinct keys, the hash set of pairs is a set; \<open>lower\<close> is \<open>str::to_lowercase\<close>. Saving and loading are modelled on the
  snapshot, without the file and its JSON text.
\<close>

section \<open>The resolver\<close>

record EntityResolver =
  er_aliases :: "(string \<times> string) list"
  er_confidence :: "(string \<times> f32) list"
  er_negative_pairs :: "(string \<times> string) set"

datatype ResolutionSource = R_Cache | R_RuleBased | R_Llm | R_Identity

record ResolvedEntity =
  re_canonical :: string
  re_confidence :: f32
  re_source :: ResolutionSource

definition WORD_MATCH_CONFIDENCE :: f32 where
  "WORD_MATCH_CONFIDENCE = f32_of (7/10)"

definition resolver_new :: EntityResolver where
  "resolver_new = \<lparr> er_aliases = [], er_confidence = [], er_negative_pairs = {} \<rparr>"

definition normalize_entity :: "(string \<Rightarrow> string) \<Rightarrow> string \<Rightarrow> string" where
  "normalize_entity lower raw = join '' '' (map lower (split_whitespace raw))"

definition known_entities :: "EntityResolver \<Rightarrow> string list" where
  "known_entities r = remdups_adj (sort (map snd (er_aliases r)))"

definition alias_count :: "EntityResolver \<Rightarrow> nat" where
  "alias_count r = length (er_aliases r)"

text \<open>
  \<open>split\<close> at whitespace, hyphens and underscores, without the empty pieces: the words of the text in which the hyphens and
  underscores are blanks.
\<close>

definition entity_words :: "string \<Rightarrow> string set" where
  "entity_words s = set (split_whitespace (map (\<lambda>c. if c = CHR ''-'' \<or> c = CHR ''_'' then CHR '' '' else c) s))"

definition words_match :: "string \<Rightarrow> string \<Rightarrow> bool" where
  "words_match normalized canonical \<longleftrightarrow> canonical \<noteq> normalized
     \<and> (entity_words normalized \<subseteq> entity_words canonical \<or> entity_words canonical \<subseteq> entity_words normalized)"

definition rule_based_match :: "EntityResolver \<Rightarrow> string \<Rightarrow> (string \<times> f32) option" where
  "rule_based_match r normalized =
     (if entity_words normalized = {} then None
      else map_option (\<lambda>canonical. (canonical, WORD_MATCH_CONFIDENCE)) (List.find (words_match normalized) (known_entities r)))"

definition resolve :: "(string \<Rightarrow> string) \<Rightarrow> EntityResolver \<Rightarrow> string \<Rightarrow> ResolvedEntity" where
  "resolve lower r name =
     (let normalized = normalize_entity lower name in
      case map_of (er_aliases r) normalized of
        Some canonical \<Rightarrow> \<lparr> re_canonical = canonical,
          re_confidence = (case map_of (er_confidence r) normalized of Some c \<Rightarrow> c | None \<Rightarrow> Fin 1), re_source = R_Cache \<rparr>
      | None \<Rightarrow> (case rule_based_match r normalized of
            Some (canonical, conf) \<Rightarrow> \<lparr> re_canonical = canonical, re_confidence = conf, re_source = R_RuleBased \<rparr>
          | None \<Rightarrow> \<lparr> re_canonical = normalized, re_confidence = Fin 1, re_source = R_Identity \<rparr>))"

definition insert_alias :: "EntityResolver \<Rightarrow> string \<Rightarrow> string \<Rightarrow> f32 \<Rightarrow> EntityResolver" where
  "insert_alias r alias canonical conf =
     r\<lparr>er_aliases := AList.update alias canonical (er_aliases r), er_confidence := AList.update alias conf (er_confidence r)\<rparr>"

fun learn_aliases :: "(string \<Rightarrow> string) \<Rightarrow> string \<Rightarrow> f32 \<Rightarrow> string list \<Rightarrow> EntityResolver \<Rightarrow> EntityResolver" where
  "learn_aliases lower canonical conf [] r = r"
| "learn_aliases lower canonical conf (alias # as) r =
     learn_aliases lower canonical conf as
       (if normalize_entity lower alias \<noteq> canonical then insert_alias r (normalize_entity lower alias) canonical conf else r)"

definition learn_group :: "(string \<Rightarrow> string) \<Rightarrow> EntityResolver \<Rightarrow> EntityMergeGroup \<Rightarrow> EntityResolver" where
  "learn_group lower r g =
     (let canonical = normalize_entity lower (eg_canonical g) in
      learn_aliases lower canonical (eg_confidence g) (eg_aliases g) (insert_alias r canonical canonical (eg_confidence g)))"

definition add_alias :: "(string \<Rightarrow> string) \<Rightarrow> EntityResolver \<Rightarrow> string \<Rightarrow> string \<Rightarrow> f32 \<Rightarrow> EntityResolver" where
  "add_alias lower r alias canonical conf = insert_alias r (normalize_entity lower alias) (normalize_entity lower canonical) conf"

definition entity_canonical :: "(string \<Rightarrow> string) \<Rightarrow> EntityResolver \<Rightarrow> string \<Rightarrow> string option" where
  "entity_canonical lower r name = map_of (er_aliases r) (normalize_entity lower name)"

section \<open>Batches\<close>

definition batch_candidates :: "string list \<Rightarrow> string option list \<Rightarrow> EntityCandidate list" where
  "batch_candidates names contexts =
     map (\<lambda>i. \<lparr> cand_name = names ! i,
                cand_context = (if i < length contexts then contexts ! i else None), cand_memory_id = None \<rparr>) [0..<length names]"

text \<open>The entries left unresolved are looked up again; a hit in the table now comes from the model.\<close>

definition re_resolve :: "(string \<Rightarrow> string) \<Rightarrow> EntityResolver \<Rightarrow> string \<Rightarrow> ResolvedEntity \<Rightarrow> ResolvedEntity" where
  "re_resolve lower r name old =
     (if re_source old = R_Identity \<and> re_source (resolve lower r name) = R_Cache
      then (resolve lower r name)\<lparr>re_source := R_Llm\<rparr> else old)"

definition resolve_batch_with_llm :: "(string \<Rightarrow> string) \<Rightarrow> (EntityCandidate list \<Rightarrow> EntityMergeGroup list JudgeResult)
    \<Rightarrow> EntityResolver \<Rightarrow> string list \<Rightarrow> string option list \<Rightarrow> (ResolvedEntity list \<times> EntityResolver) JudgeResult" where
  "resolve_batch_with_llm lower llm r names contexts =
     (let results = map (resolve lower r) names in
      if \<forall>x \<in> set results. re_source x \<noteq> R_Identity then Ok (results, r)
      else case llm (batch_candidates names contexts) of
          Ok groups \<Rightarrow> (let r' = foldl (learn_group lower) r groups in Ok (map2 (re_resolve lower r') names results, r'))
        | Err e \<Rightarrow> Ok (results, r)
        | Panic \<Rightarrow> Panic)"

definition unresolved_names :: "(string \<Rightarrow> string) \<Rightarrow> EntityResolver \<Rightarrow> string list \<Rightarrow> string list" where
  "unresolved_names lower r names = filter (\<lambda>name. re_source (resolve lower r name) = R_Identity) names"

section \<open>Pairs known to be different\<close>

definition negative_key :: "(string \<Rightarrow> string) \<Rightarrow> string \<Rightarrow> string \<Rightarrow> string \<times> string" where
  "negative_key lower a b =
     (let na = normalize_entity lower a; nb = normalize_entity lower b in if na \<le> nb then (na, nb) else (nb, na))"

definition is_known_different :: "(string \<Rightarrow> string) \<Rightarrow> EntityResolver \<Rightarrow> string \<Rightarrow> string \<Rightarrow> bool" where
  "is_known_different lower r a b = (negative_key lower a b \<in> er_negative_pairs r)"

definition mark_different :: "(string \<Rightarrow> string) \<Rightarrow> EntityResolver \<Rightarrow> string \<Rightarrow> string \<Rightarrow> EntityResolver" where
  "mark_different lower r a b = r\<lparr>er_negative_pairs := insert (negative_key lower a b) (er_negative_pairs r)\<rparr>"

definition negative_count :: "EntityResolver \<Rightarrow> nat" where
  "negative_count r = card (er_negative_pairs r)"

section \<open>Snapshots\<close>

record EntitySnapshot =
  es_version :: nat
  es_aliases :: "(string \<times> string) list"
  es_confidence :: "(string \<times> f32) list"
  es_negative_pairs :: "(string \<times> string) set"

definition SNAPSHOT_VERSION :: nat where
  "SNAPSHOT_VERSION = 2"

definition entity_snapshot :: "EntityResolver \<Rightarrow> EntitySnapshot" where
  "entity_snapshot r = \<lparr> es_version = SNAPSHOT_VERSION, es_aliases = er_aliases r, es_confidence = er_confidence r,
     es_negative_pairs = er_negative_pairs r \<rparr>"

definition load_entities :: "EntityResolver \<Rightarrow> EntitySnapshot \<Rightarrow> unit MenteResult \<times> EntityResolver" where
  "load_entities r snapshot =
     (if SNAPSHOT_VERSION < es_version snapshot
      then (Err (Io (''unsupported entity snapshot version: '' @ show_nat (es_version snapshot)
              @ '' (expected <= '' @ show_nat SNAPSHOT_VERSION @ '')'')), r)
      else (Ok (), \<lparr> er_aliases = or_insert_all (er_aliases r) (es_aliases snapshot),
              er_confidence = or_insert_all (er_confidence r) (es_confidence snapshot),
              er_negative_pairs = er_negative_pairs r \<union> es_negative_pairs snapshot \<rparr>))"

section \<open>Facts\<close>

lemma insert_alias_simps [simp]:
  "map_of (er_aliases (insert_alias r a c conf)) = (map_of (er_aliases r))(a \<mapsto> c)"
  "map_of (er_confidence (insert_alias r a c conf)) = (map_of (er_confidence r))(a \<mapsto> conf)"
  by (simp_all add: insert_alias_def update_conv')

lemma learn_aliases_map:
  "map_of (er_aliases (learn_aliases lower c conf as r)) x
     = (if x \<in> normalize_entity lower ` set as - {c} then Some c else map_of (er_aliases r) x)
   \<and> map_of (er_confidence (learn_aliases lower c conf as r)) x
     = (if x \<in> normalize_entity lower ` set as - {c} then Some conf else map_of (er_confidence r) x)"
  by (induction lower c conf as r rule: learn_aliases.induct) auto

text \<open>The names of a group, normalised: its label and its aliases.\<close>

definition group_names :: "(string \<Rightarrow> string) \<Rightarrow> EntityMergeGroup \<Rightarrow> string set" where
  "group_names lower g = normalize_entity lower ` insert (eg_canonical g) (set (eg_aliases g))"

lemma learn_group_map:
  "map_of (er_aliases (learn_group lower r g)) x
     = (if x \<in> group_names lower g then Some (normalize_entity lower (eg_canonical g)) else map_of (er_aliases r) x)
   \<and> map_of (er_confidence (learn_group lower r g)) x
     = (if x \<in> group_names lower g then Some (eg_confidence g) else map_of (er_confidence r) x)"
  by (auto simp: learn_group_def Let_def learn_aliases_map group_names_def)

lemma learn_groups_dom:
  "map_of (er_aliases r) x \<noteq> None \<or> (\<exists>g \<in> set gs. x \<in> group_names lower g)
   \<Longrightarrow> map_of (er_aliases (foldl (learn_group lower) r gs)) x \<noteq> None"
proof (induction gs arbitrary: r)
  case (Cons g gs)
  show ?case using Cons.prems Cons.IH[of "learn_group lower r g"] by (auto simp: learn_group_map split: if_splits)
qed simp

lemma or_insert_all_Nil: "distinct (map fst es) \<Longrightarrow> or_insert_all [] es = es"
proof -
  have "distinct (map fst (m @ es)) \<Longrightarrow> or_insert_all m es = m @ es" for m
  proof (induction es arbitrary: m)
    case (Cons e es)
    obtain k v where e: "e = (k, v)" by fastforce
    have k: "k \<notin> fst ` set m" using Cons.prems by (auto simp: e)
    then have "AList.update k v m = m @ [(k, v)]" by (induction m) auto
    then show ?case using Cons k by (simp add: e map_of_eq_None_iff[THEN iffD2])
  qed simp
  from this[of "[]"] show "distinct (map fst es) \<Longrightarrow> or_insert_all [] es = es" by simp
qed

lemma negative_key_eq:
  "negative_key lower a b = negative_key lower x y
   \<longleftrightarrow> {normalize_entity lower a, normalize_entity lower b} = {normalize_entity lower x, normalize_entity lower y}"
  by (auto simp: negative_key_def Let_def doubleton_eq_iff)

section \<open>Properties\<close>

text \<open>What the model teaches is remembered: after learning a group, its label and each of its aliases, in any
  capitalisation and spacing, resolve from the table to the label with the group's confidence; other names keep their
  entry in the table.\<close>

theorem learn_group_resolves:
  "(normalize_entity lower name \<in> group_names lower g \<longrightarrow>
     resolve lower (learn_group lower r g) name
       = \<lparr> re_canonical = normalize_entity lower (eg_canonical g), re_confidence = eg_confidence g, re_source = R_Cache \<rparr>)
   \<and> (normalize_entity lower name \<notin> group_names lower g \<longrightarrow>
     entity_canonical lower (learn_group lower r g) name = entity_canonical lower r name)"
  by (auto simp: resolve_def entity_canonical_def learn_group_map Let_def)

theorem learn_group_resolves_witness:
  "resolve id (learn_group id resolver_new \<lparr> eg_canonical = ''ada l'', eg_aliases = [''ada''], eg_confidence = Fin 1 \<rparr>) '' ada ''
     = \<lparr> re_canonical = ''ada l'', re_confidence = Fin 1, re_source = R_Cache \<rparr>"
proof -
  let ?g = "\<lparr> eg_canonical = ''ada l'', eg_aliases = [''ada''], eg_confidence = Fin 1 \<rparr>"
  have n: "normalize_entity id '' ada '' = ''ada''" "normalize_entity id ''ada'' = ''ada''" "normalize_entity id ''ada l'' = ''ada l''"
    by code_simp+
  then have "normalize_entity id '' ada '' \<in> group_names id ?g" by (simp add: group_names_def)
  then show ?thesis using learn_group_resolves[of id "'' ada ''" ?g resolver_new] n by simp
qed

text \<open>A batch returns one answer per name. What the table or the rules resolved is not changed by the model; a name that a
  returned group holds is resolved afterwards; an error of the model leaves the answers and the table as they were.\<close>

theorem resolve_batch_spec:
  assumes "\<And>cs. llm cs \<noteq> Panic"
  shows "\<exists>results r'. resolve_batch_with_llm lower llm r names contexts = Ok (results, r') \<and> length results = length names
    \<and> (\<forall>i < length names. re_source (resolve lower r (names ! i)) \<noteq> R_Identity \<longrightarrow> results ! i = resolve lower r (names ! i))
    \<and> (\<forall>i < length names. \<forall>groups. llm (batch_candidates names contexts) = Ok groups
         \<and> (\<exists>g \<in> set groups. normalize_entity lower (names ! i) \<in> group_names lower g) \<longrightarrow> re_source (results ! i) \<noteq> R_Identity)
    \<and> (\<forall>e. llm (batch_candidates names contexts) = Err e \<longrightarrow> results = map (resolve lower r) names \<and> r' = r)"
proof -
  let ?old = "map (resolve lower r) names"
  show ?thesis
  proof (cases "\<forall>x \<in> set ?old. re_source x \<noteq> R_Identity")
    case True
    then show ?thesis by (auto simp: resolve_batch_with_llm_def)
  next
    case False
    show ?thesis
    proof (cases "llm (batch_candidates names contexts)")
      case (Ok groups)
      let ?r = "foldl (learn_group lower) r groups"
      have "re_source (re_resolve lower ?r name (resolve lower r name)) \<noteq> R_Identity"
        if "\<exists>g \<in> set groups. normalize_entity lower name \<in> group_names lower g" for name
      proof -
        have "map_of (er_aliases ?r) (normalize_entity lower name) \<noteq> None" using learn_groups_dom that by blast
        then have "re_source (resolve lower ?r name) = R_Cache" by (auto simp: resolve_def Let_def)
        then show ?thesis by (simp add: re_resolve_def)
      qed
      then show ?thesis using False Ok by (auto simp: resolve_batch_with_llm_def Let_def re_resolve_def)
    next
      case (Err e)
      then show ?thesis using False by (auto simp: resolve_batch_with_llm_def Let_def)
    next
      case Panic
      then show ?thesis using assms by blast
    qed
  qed
qed

theorem resolve_batch_spec_witness:
  "\<exists>results r'. resolve_batch_with_llm id (\<lambda>_. Ok []) resolver_new [''ada''] [] = Ok (results, r') \<and> length results = 1"
  using resolve_batch_spec[of "\<lambda>_. Ok []" id resolver_new "[''ada'']" "[]"] by auto

text \<open>The negative cache is a set of unordered pairs of normalised names: after marking a pair as different, exactly the
  pairs marked before and this one, in either order, are known to be different.\<close>

theorem mark_different_unordered:
  "is_known_different lower (mark_different lower r a b) x y
     \<longleftrightarrow> is_known_different lower r x y
       \<or> {normalize_entity lower x, normalize_entity lower y} = {normalize_entity lower a, normalize_entity lower b}"
  by (auto simp: is_known_different_def mark_different_def negative_key_eq)

text \<open>A saved table loaded into a new resolver resolves every name as before.\<close>

lemma entity_roundtrip:
  assumes "distinct (map fst (er_aliases r))" "distinct (map fst (er_confidence r))"
  shows "load_entities resolver_new (entity_snapshot r) = (Ok (), r)"
  using assms by (simp add: load_entities_def entity_snapshot_def resolver_new_def or_insert_all_Nil)

text \<open>
  Merging a label into another group leaves the aliases of the old label behind: they resolve to the old label, which itself
  resolves to the new one.
\<close>

lemma learn_group_stale:
  defines "r \<equiv> learn_group id (learn_group id resolver_new \<lparr> eg_canonical = ''b'', eg_aliases = [''a''], eg_confidence = Fin 1 \<rparr>)
      \<lparr> eg_canonical = ''c'', eg_aliases = [''b''], eg_confidence = Fin 1 \<rparr>"
  shows "re_canonical (resolve id r ''a'') = ''b'' \<and> re_canonical (resolve id r ''b'') = ''c''"
proof -
  have "normalize_entity id ''a'' = ''a''" "normalize_entity id ''b'' = ''b''" "normalize_entity id ''c'' = ''c''" by code_simp+
  then show ?thesis by (simp add: r_def resolve_def learn_group_map group_names_def Let_def resolver_new_def)
qed

end
