(* ===== verification/Cognitive_Phantom.thy ===== *)
theory Cognitive_Phantom
  imports Core_Types Rust_Strings
begin

text \<open>
  Phantom memories, \<open>crates/mentedb-cognitive/src/phantom.rs\<close>: entities that a text refers to and about which nothing is
  stored. The registry is a hash set, here the list of its elements in the order of iteration. Unicode's tables are
  arguments: \<open>lower\<close> is \<open>str::to_lowercase\<close>, \<open>alnum\<close> and \<open>upper\<close> are \<open>char::is_alphanumeric\<close> and
  \<open>char::is_uppercase\<close> on the bytes of one character. Fresh identifiers and the clock are arguments too.
\<close>

section \<open>Characters\<close>

text \<open>The characters of a text, each as its UTF-8 bytes; a byte that starts no character stands alone.\<close>

function chars :: "string \<Rightarrow> string list" where
  "chars [] = []"
| "chars (c # cs) = (c # take (utf8_width (byte c) - 1) cs) # chars (drop (utf8_width (byte c) - 1) cs)"
  by pat_completeness auto
termination by (relation "measure length") auto

definition trim_matches :: "(string \<Rightarrow> bool) \<Rightarrow> string \<Rightarrow> string" where
  "trim_matches f s = concat (rev (dropWhile f (rev (dropWhile f (chars s)))))"

section \<open>Data\<close>

datatype PhantomPriority = P_Low | P_Medium | P_High | P_Critical

fun priority_rank :: "PhantomPriority \<Rightarrow> nat" where
  "priority_rank P_Low = 0"
| "priority_rank P_Medium = 1"
| "priority_rank P_High = 2"
| "priority_rank P_Critical = 3"

record PhantomMemory =
  pm_id :: MemoryId
  pm_gap_description :: string
  pm_source_reference :: string
  pm_source_turn :: nat
  pm_priority :: PhantomPriority
  pm_created_at :: Timestamp
  pm_resolved :: bool

type_synonym EntityRegistry = "string list"

definition registry_register :: "EntityRegistry \<Rightarrow> string \<Rightarrow> EntityRegistry" where
  "registry_register reg entity = (if entity \<in> set reg then reg else reg @ [entity])"

definition registry_register_batch :: "EntityRegistry \<Rightarrow> string list \<Rightarrow> EntityRegistry" where
  "registry_register_batch reg entities = foldl registry_register reg entities"

definition registry_unregister :: "EntityRegistry \<Rightarrow> string \<Rightarrow> EntityRegistry" where
  "registry_unregister reg entity = filter (\<lambda>e. e \<noteq> entity) reg"

definition is_known :: "EntityRegistry \<Rightarrow> string \<Rightarrow> bool" where
  "is_known reg entity = (entity \<in> set reg)"

record PhantomConfig =
  pc_stop_words :: "string set"
  pc_max_warnings :: nat
  pc_min_word_length :: nat
  pc_use_heuristic_detection :: bool

definition STOP_WORDS :: "string list" where
  "STOP_WORDS = [''the'', ''a'', ''an'', ''is'', ''are'', ''was'', ''were'', ''it'', ''this'', ''that'', ''we'', ''you'',
     ''they'', ''he'', ''she'', ''i'', ''my'', ''our'', ''but'', ''and'', ''or'', ''if'', ''then'', ''when'', ''how'',
     ''what'', ''where'', ''who'', ''do'', ''does'', ''did'', ''have'', ''has'', ''had'', ''be'', ''been'',
     ''being'', ''so'', ''also'', ''just'', ''very'', ''too'', ''not'', ''no'', ''yes'', ''can'', ''will'',
     ''should'', ''would'', ''could'', ''may'', ''might'', ''must'', ''shall'', ''note'', ''see'', ''use'',
     ''make'', ''let'', ''new'', ''set'', ''get'']"

definition phantom_config_default :: PhantomConfig where
  "phantom_config_default = \<lparr> pc_stop_words = set STOP_WORDS, pc_max_warnings = 5, pc_min_word_length = 3,
     pc_use_heuristic_detection = True \<rparr>"

record PhantomTracker =
  pt_phantoms :: "PhantomMemory list"
  pt_config :: PhantomConfig
  pt_entity_registry :: EntityRegistry

definition phantom_tracker_new :: "PhantomConfig \<Rightarrow> PhantomTracker" where
  "phantom_tracker_new config = \<lparr> pt_phantoms = [], pt_config = config, pt_entity_registry = [] \<rparr>"

definition register_entity :: "PhantomTracker \<Rightarrow> string \<Rightarrow> PhantomTracker" where
  "register_entity t entity = t\<lparr>pt_entity_registry := registry_register (pt_entity_registry t) entity\<rparr>"

definition register_entities :: "PhantomTracker \<Rightarrow> string list \<Rightarrow> PhantomTracker" where
  "register_entities t entities = t\<lparr>pt_entity_registry := registry_register_batch (pt_entity_registry t) entities\<rparr>"

section \<open>Detection\<close>

text \<open>
  The state of a scan: the lower-cased terms seen and the terms detected. A term is detected when it is neither known
  nor seen, and then it is seen.
\<close>

type_synonym Scan = "string set \<times> string list"

definition detect_term :: "(string \<Rightarrow> string) \<Rightarrow> string list \<Rightarrow> Scan \<Rightarrow> string \<Rightarrow> Scan" where
  "detect_term lower known_lower scan term =
     (case scan of (seen, detected) \<Rightarrow>
        if lower term \<notin> set known_lower \<and> lower term \<notin> seen then (insert (lower term) seen, detected @ [term])
        else (seen, detected))"

definition detect_registered :: "(string \<Rightarrow> string) \<Rightarrow> string list \<Rightarrow> string \<Rightarrow> Scan \<Rightarrow> string \<Rightarrow> Scan" where
  "detect_registered lower known_lower content_lower scan entity =
     (if str_contains content_lower (lower entity) then detect_term lower known_lower scan entity else scan)"

definition registered_priority :: "string \<Rightarrow> PhantomPriority" where
  "registered_priority entity = (if 1 < length (split_whitespace entity) then P_High else P_Medium)"

definition is_quote :: "string \<Rightarrow> bool" where
  "is_quote ch = (ch \<in> {[CHR 0x27], [CHR 0x22], [CHR 0xE2, CHR 0x80, CHR 0x98], [CHR 0xE2, CHR 0x80, CHR 0x99]})"

text \<open>The terms between an opening and the next quote; \<open>cur\<close> is the text since the opening quote.\<close>

fun quoted_terms :: "bool \<Rightarrow> string \<Rightarrow> string list \<Rightarrow> string list" where
  "quoted_terms in_quote cur [] = []"
| "quoted_terms in_quote cur (ch # cs) =
     (if is_quote ch
      then if in_quote then cur # quoted_terms False [] cs else quoted_terms True [] cs
      else quoted_terms in_quote (if in_quote then cur @ ch else cur) cs)"

definition detect_quoted :: "(string \<Rightarrow> string) \<Rightarrow> string list \<Rightarrow> Scan \<Rightarrow> string \<Rightarrow> Scan" where
  "detect_quoted lower known_lower scan term =
     (let trimmed = trim term in
      if trimmed \<noteq> [] \<and> 2 \<le> length trimmed then detect_term lower known_lower scan trimmed else scan)"

definition trim_word :: "(string \<Rightarrow> bool) \<Rightarrow> string \<Rightarrow> string" where
  "trim_word alnum w = trim_matches (\<lambda>c. \<not> alnum c \<and> c \<noteq> ''-'' \<and> c \<noteq> ''_'' \<and> c \<noteq> ''.'') w"

definition starts_upper :: "(string \<Rightarrow> bool) \<Rightarrow> string \<Rightarrow> bool" where
  "starts_upper upper w = (w \<noteq> [] \<and> upper (hd (chars w)))"

definition is_technical :: "(string \<Rightarrow> bool) \<Rightarrow> nat \<Rightarrow> string \<Rightarrow> bool" where
  "is_technical upper min_len w =
     (CHR ''-'' \<in> set w \<or> CHR ''.'' \<in> set w \<or> CHR ''_'' \<in> set w
      \<or> (min_len \<le> length w \<and> list_all (\<lambda>c. upper c \<or> (c \<noteq> [] \<and> 48 \<le> byte (hd c) \<and> byte (hd c) \<le> 57) \<or> c = ''_'') (chars w)))"

text \<open>
  The loop over the words: a capitalised word takes the capitalised words after it with it; another word is detected when it looks
  technical.
\<close>

function scan_words :: "(string \<Rightarrow> bool) \<Rightarrow> (string \<Rightarrow> bool) \<Rightarrow> (string \<Rightarrow> string) \<Rightarrow> PhantomConfig \<Rightarrow> string list \<Rightarrow> string list
    \<Rightarrow> Scan \<Rightarrow> Scan" where
  "scan_words alnum upper lower config known_lower [] scan = scan"
| "scan_words alnum upper lower config known_lower (word # words) scan =
     (let w = trim_word alnum word in
      if starts_upper upper w \<and> 2 \<le> length w
      then let following = takeWhile (\<lambda>v. starts_upper upper (trim_word alnum v)) words;
               entity = join '' '' (w # map (trim_word alnum) following);
               rest = drop (length following) words
           in if length (split_whitespace entity) = 1 \<and> lower entity \<in> pc_stop_words config
              then scan_words alnum upper lower config known_lower rest scan
              else scan_words alnum upper lower config known_lower rest (detect_term lower known_lower scan entity)
      else scan_words alnum upper lower config known_lower words
        (if w \<noteq> [] \<and> pc_min_word_length config \<le> length w \<and> is_technical upper (pc_min_word_length config) w
         then detect_term lower known_lower scan w else scan))"
  by pat_completeness auto
termination by (relation "measure (\<lambda>(alnum, upper, lower, config, known, words, scan). length words)") auto

definition heuristic_detect :: "(string \<Rightarrow> bool) \<Rightarrow> (string \<Rightarrow> bool) \<Rightarrow> (string \<Rightarrow> string) \<Rightarrow> PhantomConfig \<Rightarrow> string \<Rightarrow> string list
    \<Rightarrow> string set \<Rightarrow> Scan" where
  "heuristic_detect alnum upper lower config content known_lower seen =
     scan_words alnum upper lower config known_lower (split_whitespace content)
       (foldl (detect_quoted lower known_lower) (seen, []) (quoted_terms False [] (chars content)))"

definition phantom_for :: "MemoryId \<Rightarrow> Timestamp \<Rightarrow> nat \<Rightarrow> string \<times> PhantomPriority \<Rightarrow> PhantomMemory" where
  "phantom_for i now turn_id ep =
     \<lparr> pm_id = i, pm_gap_description = ''No stored knowledge about '' @ [CHR 0x27] @ fst ep @ [CHR 0x27],
       pm_source_reference = fst ep, pm_source_turn = turn_id, pm_priority = snd ep, pm_created_at = now, pm_resolved = False \<rparr>"

definition new_phantoms :: "(nat \<Rightarrow> MemoryId) \<Rightarrow> Timestamp \<Rightarrow> nat \<Rightarrow> (string \<times> PhantomPriority) list \<Rightarrow> PhantomMemory list" where
  "new_phantoms fresh now turn_id detected = map (\<lambda>i. phantom_for (fresh i) now turn_id (detected ! i)) [0..<length detected]"

definition detected_gaps :: "(string \<Rightarrow> bool) \<Rightarrow> (string \<Rightarrow> bool) \<Rightarrow> (string \<Rightarrow> string) \<Rightarrow> PhantomTracker \<Rightarrow> string \<Rightarrow> string list
    \<Rightarrow> (string \<times> PhantomPriority) list" where
  "detected_gaps alnum upper lower t content known_entities =
     (let known_lower = map lower known_entities;
          (seen, registered) = foldl (detect_registered lower known_lower (lower content)) ({}, []) (pt_entity_registry t)
      in map (\<lambda>e. (e, registered_priority e)) registered
         @ (if pc_use_heuristic_detection (pt_config t)
            then map (\<lambda>e. (e, P_Low)) (snd (heuristic_detect alnum upper lower (pt_config t) content known_lower seen)) else []))"

definition detect_gaps :: "(string \<Rightarrow> bool) \<Rightarrow> (string \<Rightarrow> bool) \<Rightarrow> (string \<Rightarrow> string) \<Rightarrow> (nat \<Rightarrow> MemoryId) \<Rightarrow> Timestamp
    \<Rightarrow> PhantomTracker \<Rightarrow> string \<Rightarrow> string list \<Rightarrow> nat \<Rightarrow> PhantomMemory list \<times> PhantomTracker" where
  "detect_gaps alnum upper lower fresh now t content known_entities turn_id =
     (let ps = new_phantoms fresh now turn_id (detected_gaps alnum upper lower t content known_entities)
      in (ps, t\<lparr>pt_phantoms := pt_phantoms t @ ps\<rparr>))"

definition detect_gaps_explicit :: "(nat \<Rightarrow> MemoryId) \<Rightarrow> Timestamp \<Rightarrow> PhantomTracker \<Rightarrow> string list \<Rightarrow> nat
    \<Rightarrow> PhantomMemory list \<times> PhantomTracker" where
  "detect_gaps_explicit fresh now t mentioned_entities turn_id =
     (let ps = new_phantoms fresh now turn_id
            (map (\<lambda>e. (e, P_Medium)) (filter (\<lambda>e. \<not> is_known (pt_entity_registry t) e) mentioned_entities))
      in (ps, t\<lparr>pt_phantoms := pt_phantoms t @ ps\<rparr>))"

section \<open>Resolution and warnings\<close>

fun resolve_first :: "MemoryId \<Rightarrow> PhantomMemory list \<Rightarrow> PhantomMemory list" where
  "resolve_first i [] = []"
| "resolve_first i (p # ps) = (if pm_id p = i then p\<lparr>pm_resolved := True\<rparr> # ps else p # resolve_first i ps)"

definition resolve_phantom :: "PhantomTracker \<Rightarrow> MemoryId \<Rightarrow> PhantomTracker" where
  "resolve_phantom t i = t\<lparr>pt_phantoms := resolve_first i (pt_phantoms t)\<rparr>"

definition priority_before :: "PhantomMemory \<Rightarrow> PhantomMemory \<Rightarrow> bool" where
  "priority_before a b = (priority_rank (pm_priority b) < priority_rank (pm_priority a))"

definition get_active_phantoms :: "PhantomTracker \<Rightarrow> PhantomMemory list" where
  "get_active_phantoms t = sort_by priority_before (filter (\<lambda>p. \<not> pm_resolved p) (pt_phantoms t))"

definition phantom_warning :: "PhantomMemory \<Rightarrow> string" where
  "phantom_warning p = ''WARNING: User referenced '' @ [CHR 0x27] @ pm_source_reference p @ [CHR 0x27]
     @ '' but no details stored. Consider asking.''"

definition format_phantom_warnings :: "PhantomTracker \<Rightarrow> string" where
  "format_phantom_warnings t =
     (let active = get_active_phantoms t in
      if active = [] then [] else join [CHR 0x0A] (map phantom_warning (take (pc_max_warnings (pt_config t)) active)))"

section \<open>Facts\<close>

text \<open>
  The invariant of a scan that started from \<open>seen0\<close>: what it detected is new, unknown, and seen since then, each term once.
\<close>

definition scan_ok :: "(string \<Rightarrow> string) \<Rightarrow> string list \<Rightarrow> string set \<Rightarrow> Scan \<Rightarrow> bool" where
  "scan_ok lower known_lower seen0 scan \<longleftrightarrow> distinct (map lower (snd scan))
     \<and> (\<forall>e \<in> set (snd scan). lower e \<notin> set known_lower \<and> lower e \<notin> seen0) \<and> fst scan = seen0 \<union> set (map lower (snd scan))"

lemma scan_ok_start [simp]: "scan_ok lower known_lower seen0 (seen0, [])"
  by (simp add: scan_ok_def)

lemma scan_ok_detect: "scan_ok lower known seen0 scan \<Longrightarrow> scan_ok lower known seen0 (detect_term lower known scan e)"
  by (auto simp: scan_ok_def detect_term_def split: prod.splits)

lemma scan_ok_foldl:
  assumes "\<And>scan e. scan_ok lower known seen0 scan \<Longrightarrow> scan_ok lower known seen0 (f scan e)"
  shows "scan_ok lower known seen0 scan \<Longrightarrow> scan_ok lower known seen0 (foldl f scan es)"
  using assms by (induction es arbitrary: scan) auto

lemma scan_ok_words: "scan_ok lower known seen0 scan \<Longrightarrow> scan_ok lower known seen0 (scan_words alnum upper lower config known ws scan)"
  by (induction alnum upper lower config known ws scan rule: scan_words.induct) (auto simp: Let_def scan_ok_detect)

lemma scan_ok_heuristic: "scan_ok lower known seen (heuristic_detect alnum upper lower config content known seen)"
  unfolding heuristic_detect_def
  by (intro scan_ok_words scan_ok_foldl) (auto simp: detect_quoted_def Let_def scan_ok_detect)

lemma scan_ok_registered:
  "scan_ok lower known seen0 scan \<Longrightarrow> scan_ok lower known seen0 (detect_registered lower known content scan e)"
  by (simp add: detect_registered_def scan_ok_detect)

lemma registered_scan:
  "scan_ok lower known {} (foldl (detect_registered lower known content) ({}, []) reg)
   \<and> (\<forall>e \<in> set reg. str_contains content (lower e) \<and> lower e \<notin> set known
        \<longrightarrow> lower e \<in> fst (foldl (detect_registered lower known content) ({}, []) reg))"
proof (induction reg rule: rev_induct)
  case (snoc e reg)
  let ?s = "foldl (detect_registered lower known content) ({}, []) reg"
  have "scan_ok lower known {} (detect_registered lower known content ?s e)"
    using snoc.IH scan_ok_registered by blast
  moreover have "fst ?s \<subseteq> fst (detect_registered lower known content ?s e)"
    "str_contains content (lower e) \<and> lower e \<notin> set known \<longrightarrow> lower e \<in> fst (detect_registered lower known content ?s e)"
    by (auto simp: detect_registered_def detect_term_def split: prod.splits)
  ultimately show ?case using snoc.IH by auto
qed simp

lemma map_disjoint: "\<forall>e \<in> set xs. f e \<notin> B \<Longrightarrow> set (map f xs) \<inter> B = {}"
  by auto

interpretation by_priority: comparator priority_before "\<lambda>_. True"
  by unfold_locales (auto simp: priority_before_def)

lemma new_phantoms_refs: "map pm_source_reference (new_phantoms fresh now turn ds) = map fst ds"
  by (auto simp: new_phantoms_def phantom_for_def intro!: nth_equalityI)

section \<open>Properties\<close>

text \<open>C40: The gaps detected in a text are worth asking about: no two of them are the same up to capitalisation, none is
  among the known entities, and every registered entity that occurs in the text and is not known is among them. The tracker keeps
  them all, unresolved, after the earlier ones.\<close>

theorem detect_gaps_spec:
  "let (ps, t') = detect_gaps alnum upper lower fresh now t content known turn;
       refs = map (lower \<circ> pm_source_reference) ps in
   distinct refs \<and> set refs \<inter> lower ` set known = {}
   \<and> (\<forall>e \<in> set (pt_entity_registry t). str_contains (lower content) (lower e) \<and> lower e \<notin> lower ` set known \<longrightarrow> lower e \<in> set refs)
   \<and> pt_phantoms t' = pt_phantoms t @ ps \<and> (\<forall>p \<in> set ps. \<not> pm_resolved p \<and> pm_source_turn p = turn)"
proof -
  let ?known = "map lower known"
  obtain seen reg where s: "foldl (detect_registered lower ?known (lower content)) ({}, []) (pt_entity_registry t) = (seen, reg)"
    by fastforce
  define h where "h = (if pc_use_heuristic_detection (pt_config t)
    then snd (heuristic_detect alnum upper lower (pt_config t) content ?known seen) else [])"
  let ?ds = "detected_gaps alnum upper lower t content known"
  have fst_ds: "map fst ?ds = reg @ h" by (simp add: detected_gaps_def s comp_def h_def)
  have ok: "scan_ok lower ?known {} (seen, reg)"
    and all: "\<forall>e \<in> set (pt_entity_registry t). str_contains (lower content) (lower e) \<and> lower e \<notin> set ?known \<longrightarrow> lower e \<in> seen"
    using registered_scan[of lower ?known "lower content" "pt_entity_registry t"] by (simp_all add: s)
  have h: "distinct (map lower h)" "\<forall>e \<in> set h. lower e \<notin> set ?known \<and> lower e \<notin> seen"
    using scan_ok_heuristic[of lower ?known seen alnum upper "pt_config t" content] by (auto simp: scan_ok_def h_def)
  have seen: "seen = lower ` set reg" using ok by (simp add: scan_ok_def)
  have "lower e \<notin> lower ` set reg" if "e \<in> set h" for e using h(2) that seen by simp
  then have "lower ` set reg \<inter> lower ` set h = {}" by (simp add: disjoint_iff) blast
  then have d: "distinct (map lower (reg @ h))" using ok h(1) by (simp add: scan_ok_def)
  have u: "set (map lower (reg @ h)) \<inter> lower ` set known = {}"
    by (rule map_disjoint) (use ok h(2) in \<open>simp add: scan_ok_def ball_Un\<close>)
  have c: "\<forall>e \<in> set (pt_entity_registry t). str_contains (lower content) (lower e) \<and> lower e \<notin> lower ` set known
      \<longrightarrow> lower e \<in> set (map lower (reg @ h))" using all seen by simp
  have refs: "map (lower \<circ> pm_source_reference) (new_phantoms fresh now turn ?ds) = map lower (reg @ h)"
    by (metis fst_ds list.map_comp new_phantoms_refs)
  have "\<forall>p \<in> set (new_phantoms fresh now turn ?ds). \<not> pm_resolved p \<and> pm_source_turn p = turn"
    by (auto simp: new_phantoms_def phantom_for_def)
  then show ?thesis unfolding detect_gaps_def Let_def prod.case refs using d u c by simp
qed

theorem detect_gaps_spec_witness:
  "''db'' \<in> set (map pm_source_reference (fst (detect_gaps (\<lambda>_. True) (\<lambda>_. False) id (\<lambda>i. MemoryId (of_nat i)) 0
     (register_entity (phantom_tracker_new phantom_config_default) ''db'') ''the db'' [] 1)))"
proof -
  let ?t = "register_entity (phantom_tracker_new phantom_config_default) ''db''"
  have "pt_entity_registry ?t = [''db'']" "str_contains ''the db'' ''db''"
    by (simp_all add: register_entity_def phantom_tracker_new_def registry_register_def str_contains_def)
  then show ?thesis
    using detect_gaps_spec[of "\<lambda>_. True" "\<lambda>_. False" id "\<lambda>i. MemoryId (of_nat i)" 0 ?t "''the db''" "[]" 1]
    by (simp add: Let_def split: prod.splits)
qed

text \<open>Resolving a phantom takes exactly it out of the active ones, which are returned by descending priority.\<close>

theorem resolve_phantom_active:
  assumes "distinct (map pm_id (pt_phantoms t))"
  shows "mset (get_active_phantoms (resolve_phantom t i)) = filter_mset (\<lambda>p. pm_id p \<noteq> i) (mset (get_active_phantoms t))
    \<and> sorted_wrt (\<lambda>a b. priority_rank (pm_priority b) \<le> priority_rank (pm_priority a)) (get_active_phantoms t)"
proof
  have "filter (\<lambda>p. \<not> pm_resolved p) (resolve_first i ps) = filter (\<lambda>p. pm_id p \<noteq> i) (filter (\<lambda>p. \<not> pm_resolved p) ps)"
    if "distinct (map pm_id ps)" for ps
    using that by (induction ps) (auto intro!: filter_cong simp: image_iff)
  from this[OF assms]
  show "mset (get_active_phantoms (resolve_phantom t i)) = filter_mset (\<lambda>p. pm_id p \<noteq> i) (mset (get_active_phantoms t))"
    by (simp add: get_active_phantoms_def resolve_phantom_def del: filter_filter)
  have "by_priority.ordered (get_active_phantoms t)" unfolding get_active_phantoms_def using by_priority.ordered_sort_by by simp
  then show "sorted_wrt (\<lambda>a b. priority_rank (pm_priority b) \<le> priority_rank (pm_priority a)) (get_active_phantoms t)"
    by (simp add: by_priority.ordered_def priority_before_def not_less)
qed

theorem resolve_phantom_active_witness:
  "get_active_phantoms (resolve_phantom \<lparr> pt_phantoms = [phantom_for (MemoryId 1) 0 0 (''x'', P_Low)],
     pt_config = phantom_config_default, pt_entity_registry = [] \<rparr> (MemoryId 1)) = []"
proof -
  let ?t = "\<lparr> pt_phantoms = [phantom_for (MemoryId 1) 0 0 (''x'', P_Low)], pt_config = phantom_config_default, pt_entity_registry = [] \<rparr>"
  have "distinct (map pm_id (pt_phantoms ?t))" by simp
  from resolve_phantom_active[OF this, of "MemoryId 1"] show ?thesis
    by (simp add: get_active_phantoms_def phantom_for_def)
qed

end
