(* ===== verification/Sqlite_Schema.thy ===== *)
theory Sqlite_Schema
  imports Core_Types Rust_Strings "HOL-Library.List_Lexorder" "HOL-Library.Char_ord"
begin

text \<open>
  The tables of the SQLite store (\<open>mentedb-sqlite/src/lib.rs\<close>): the rows, the statements the store is written with (insert or
  update on a key, delete with the cascades of the foreign keys, select with an order and a limit) and referential integrity.

  A table is the list of its rows in the order of their insertion. A row is the struct that the code binds to the statement;
  only the memory table, whose columns the code converts one by one, has a row of its own. SQLite keeps an unsigned 64-bit
  number as the signed one with the same bits: a column keeps the number, and a statement that compares columns compares their
  signed readings (\<open>as_i64\<close>). The engine's own failures (a full disk, a locked file) are left out; the constraints of the schema
  are not: a null or a dangling reference aborts the statement with the engine's message. Where SQL leaves the order of the
  rows open, the model takes the order of insertion.
\<close>

section \<open>Conversions of columns\<close>

definition as_i64 :: "nat \<Rightarrow> int" where
  "as_i64 n = (if n < 9223372036854775808 then int n else int n - 18446744073709551616)"

definition as_u64 :: "int \<Rightarrow> nat" where
  "as_u64 i = nat (i mod 18446744073709551616)"

definition as_u32 :: "int \<Rightarrow> nat" where
  "as_u32 i = nat (i mod 4294967296)"

fun f64_as_f32 :: "fl \<Rightarrow> f32" where
  "f64_as_f32 (Fin a) = f32_of a"
| "f64_as_f32 x = x"

definition usize_to_i64 :: "nat \<Rightarrow> int MenteResult" where
  "usize_to_i64 n = (if n < 9223372036854775808 then Ok (int n)
     else Err (Storage ''out of range integral type conversion attempted''))"

lemma as_u64_i64 [simp]: "n < u64_mod \<Longrightarrow> as_u64 (as_i64 n) = n"
  by (auto simp: as_u64_def as_i64_def mod_pos_pos_trivial)

lemma as_u32_int [simp]: "n < u32_mod \<Longrightarrow> as_u32 (int n) = n"
  by (simp add: as_u32_def)

section \<open>Rows\<close>

record MemoryRow =
  mr_rowid :: nat
  mr_id :: MemoryId
  mr_agent_id :: AgentId
  mr_space_id :: SpaceId
  mr_memory_type :: string
  mr_content :: string
  mr_embedding :: "Embedding option"
  mr_created_at :: int
  mr_accessed_at :: int
  mr_access_count :: int
  mr_salience :: f64
  mr_confidence :: f64
  mr_attributes :: string
  mr_valid_from :: "int option"
  mr_valid_until :: "int option"

text \<open>The value of a field of an audit record, as the literal of the code has it.\<close>

datatype JsonField = F_Nat nat | F_OptNat "nat option" | F_Str string | F_OptStr "string option" | F_Strs "string list" | F_Real f32
  | F_OptReal "f32 option" | F_OptTime "Timestamp option" | F_Bool bool | F_Agent AgentId | F_Space SpaceId

record MemoryOperation =
  op_operation_id :: string
  op_operation_type :: string
  op_memory_id :: "MemoryId option"
  op_source :: "MemoryId option"
  op_target :: "MemoryId option"
  op_payload :: "(string \<times> JsonField) list"
  op_created_at :: Timestamp

record MemoryLifecycleEvent =
  le_event_id :: string
  le_memory_id :: MemoryId
  le_event_type :: string
  le_reason :: "string option"
  le_policy :: "string option"
  le_payload_json :: string
  le_created_at :: Timestamp

record PolicyRun =
  pr_run_id :: string
  pr_policy_name :: string
  pr_policy_version :: string
  pr_mode :: string
  pr_status :: string
  pr_scope_json :: string
  pr_result_json :: string
  pr_started_at :: Timestamp
  pr_completed_at :: "Timestamp option"

record PolicyAction =
  pa_action_id :: string
  pa_run_id :: string
  pa_action_type :: string
  pa_target_type :: string
  pa_target_id :: "string option"
  pa_before_json :: string
  pa_after_json :: string
  pa_status :: string
  pa_created_at :: Timestamp

record MemorySource =
  ms_source_id :: string
  ms_memory_id :: MemoryId
  ms_source_type :: string
  ms_conversation_id :: "string option"
  ms_turn_id :: "string option"
  ms_actor_id :: "string option"
  ms_observed_at :: "Timestamp option"
  ms_extractor :: "string option"
  ms_extractor_hash :: "string option"
  ms_prompt_hash :: "string option"
  ms_payload_json :: string
  ms_created_at :: Timestamp

record EntityRecord =
  en_entity_id :: string
  en_entity_type :: string
  en_canonical :: string
  en_attributes_json :: string
  en_confidence :: f32
  en_created_at :: Timestamp
  en_updated_at :: Timestamp

record EntityAlias =
  ea_entity_id :: string
  ea_alias :: string
  ea_source :: "string option"
  ea_confidence :: f32

record MemoryEntityLink =
  ml_memory_id :: MemoryId
  ml_entity_id :: string
  ml_role :: "string option"
  ml_confidence :: f32
  ml_evidence :: "string option"

record ConversationRecord =
  cv_conversation_id :: string
  cv_title :: "string option"
  cv_metadata_json :: string
  cv_created_at :: Timestamp
  cv_updated_at :: Timestamp

record ConversationEvent =
  ce_event_id :: string
  ce_conversation_id :: string
  ce_turn_id :: "string option"
  ce_event_type :: string
  ce_actor_id :: "string option"
  ce_content :: "string option"
  ce_payload_json :: string
  ce_observed_at :: Timestamp
  ce_created_at :: Timestamp

record ExtractionRun =
  xr_run_id :: string
  xr_source_memory_id :: "MemoryId option"
  xr_conversation_id :: "string option"
  xr_extractor :: string
  xr_extractor_version :: string
  xr_model :: "string option"
  xr_prompt_hash :: "string option"
  xr_config_hash :: "string option"
  xr_status :: string
  xr_error :: "string option"
  xr_output_json :: string
  xr_started_at :: Timestamp
  xr_completed_at :: "Timestamp option"

record ClaimRecord =
  cl_claim_id :: string
  cl_claim_text :: string
  cl_claim_type :: string
  cl_subject_entity_id :: "string option"
  cl_predicate :: "string option"
  cl_object_entity_id :: "string option"
  cl_confidence :: f32
  cl_status :: string
  cl_valid_from :: "Timestamp option"
  cl_valid_until :: "Timestamp option"
  cl_attributes_json :: string
  cl_source_run_id :: "string option"
  cl_created_at :: Timestamp
  cl_updated_at :: Timestamp

record ClaimEntityLink =
  ck_claim_id :: string
  ck_entity_id :: string
  ck_role :: string
  ck_confidence :: f32

record ClaimEvidence =
  cx_evidence_id :: string
  cx_claim_id :: string
  cx_memory_id :: MemoryId
  cx_source_id :: "string option"
  cx_evidence_text :: "string option"
  cx_span_start :: "int option"
  cx_span_end :: "int option"
  cx_confidence :: f32
  cx_created_at :: Timestamp

record EntityRelationship =
  rl_relationship_id :: string
  rl_source_entity_id :: string
  rl_target_entity_id :: string
  rl_relation_type :: string
  rl_confidence :: f32
  rl_status :: string
  rl_valid_from :: "Timestamp option"
  rl_valid_until :: "Timestamp option"
  rl_attributes_json :: string
  rl_source_run_id :: "string option"
  rl_created_at :: Timestamp
  rl_updated_at :: Timestamp

record RelationshipEvidence =
  rx_evidence_id :: string
  rx_relationship_id :: string
  rx_memory_id :: MemoryId
  rx_source_id :: "string option"
  rx_evidence_text :: "string option"
  rx_span_start :: "int option"
  rx_span_end :: "int option"
  rx_confidence :: f32
  rx_created_at :: Timestamp

record RetrievalConfig =
  rc_fetch_multiplier :: nat
  rc_rrf_k :: f32
  rc_rrf_weight :: f32
  rc_salience_weight :: f32
  rc_recency_weight :: f32
  rc_recency_prior :: f32
  rc_multi_query_rrf_k :: f32
  rc_trace_retention_limit :: nat

definition retrieval_config_default :: RetrievalConfig where
  "retrieval_config_default = \<lparr> rc_fetch_multiplier = 4, rc_rrf_k = Fin 60, rc_rrf_weight = f32_of (7/10),
     rc_salience_weight = f32_of (5/100), rc_recency_weight = f32_of (2/100), rc_recency_prior = Fin (1/2),
     rc_multi_query_rrf_k = Fin 60, rc_trace_retention_limit = 200 \<rparr>"

record RetrievalTrace =
  rt_trace_id :: string
  rt_query_text :: "string option"
  rt_query_embedding_dim :: nat
  rt_k :: nat
  rt_fetch_k :: nat
  rt_tags :: "string list"
  rt_tags_or :: bool
  rt_time_range :: "(Timestamp \<times> Timestamp) option"
  rt_candidate_count :: nat
  rt_result_count :: nat
  rt_config :: RetrievalConfig
  rt_stage :: "(string \<times> JsonField) list"
  rt_created_at :: Timestamp

record RetrievalTraceHit =
  rh_trace_id :: string
  rh_rank :: nat
  rh_memory_id :: MemoryId
  rh_score :: f32
  rh_source :: string
  rh_vector_rank :: "nat option"
  rh_bm25_rank :: "nat option"
  rh_salience :: "f32 option"
  rh_explanation :: "(string \<times> JsonField) list"

section \<open>Tables\<close>

text \<open>The vector table is absent until an embedding dimension is known; it then carries that dimension.\<close>

record Tables =
  t_memories :: "MemoryRow list"
  t_memory_tags :: "(MemoryId \<times> string) list"
  t_memory_vec :: "(nat \<times> (nat \<times> Embedding) list) option"
  t_edges :: "MemoryEdge list"
  t_operations :: "MemoryOperation list"
  t_lifecycle_events :: "MemoryLifecycleEvent list"
  t_policy_runs :: "PolicyRun list"
  t_policy_actions :: "PolicyAction list"
  t_memory_sources :: "MemorySource list"
  t_conversations :: "ConversationRecord list"
  t_conversation_events :: "ConversationEvent list"
  t_extraction_runs :: "ExtractionRun list"
  t_entities :: "EntityRecord list"
  t_entity_aliases :: "EntityAlias list"
  t_memory_entities :: "MemoryEntityLink list"
  t_claims :: "ClaimRecord list"
  t_claim_entities :: "ClaimEntityLink list"
  t_claim_evidence :: "ClaimEvidence list"
  t_relationships :: "EntityRelationship list"
  t_relationship_evidence :: "RelationshipEvidence list"
  t_traces :: "RetrievalTrace list"
  t_trace_hits :: "RetrievalTraceHit list"
  t_stored_dim :: nat

definition init_tables :: "nat \<Rightarrow> Tables" where
  "init_tables hint_dim = \<lparr> t_memories = [], t_memory_tags = [],
     t_memory_vec = (if hint_dim > 0 then Some (hint_dim, []) else None), t_edges = [], t_operations = [],
     t_lifecycle_events = [], t_policy_runs = [], t_policy_actions = [], t_memory_sources = [], t_conversations = [],
     t_conversation_events = [], t_extraction_runs = [], t_entities = [], t_entity_aliases = [], t_memory_entities = [],
     t_claims = [], t_claim_entities = [], t_claim_evidence = [], t_relationships = [], t_relationship_evidence = [],
     t_traces = [], t_trace_hits = [], t_stored_dim = hint_dim \<rparr>"

text \<open>
  What a transaction takes from outside: random identifiers and the clock, read once for every audit record and numbered by
  the records written so far.
\<close>

record Env =
  env_uuid :: "nat \<Rightarrow> string"
  env_clock :: "nat \<Rightarrow> Timestamp"

definition record_operation_on :: "Env \<Rightarrow> string \<Rightarrow> MemoryId option \<Rightarrow> MemoryId option \<Rightarrow> MemoryId option
    \<Rightarrow> (string \<times> JsonField) list \<Rightarrow> Tables \<Rightarrow> Tables" where
  "record_operation_on env operation_type memory_id source target payload t =
     (let n = length (t_operations t) in
      t\<lparr>t_operations := t_operations t @ [\<lparr> op_operation_id = env_uuid env n, op_operation_type = operation_type,
        op_memory_id = memory_id, op_source = source, op_target = target, op_payload = payload,
        op_created_at = env_clock env n \<rparr>]\<rparr>)"

text \<open>Identifiers are compared by their text in SQL: digits of a fixed number, so the order of the numbers.\<close>

instantiation MemoryId :: linorder
begin

definition less_eq_MemoryId :: "MemoryId \<Rightarrow> MemoryId \<Rightarrow> bool" where
  "less_eq_MemoryId a b \<longleftrightarrow> (case (a, b) of (MemoryId x, MemoryId y) \<Rightarrow> x \<le> y)"

definition less_MemoryId :: "MemoryId \<Rightarrow> MemoryId \<Rightarrow> bool" where
  "less_MemoryId a b \<longleftrightarrow> (case (a, b) of (MemoryId x, MemoryId y) \<Rightarrow> x < y)"

instance
  by standard (auto simp: less_eq_MemoryId_def less_MemoryId_def split: MemoryId.splits)

end

section \<open>Statements\<close>

text \<open>\<open>INSERT ... ON CONFLICT(key) DO UPDATE\<close>, the columns to update given by \<open>merge\<close>.\<close>

definition upsert :: "('r \<Rightarrow> 'k) \<Rightarrow> ('r \<Rightarrow> 'r \<Rightarrow> 'r) \<Rightarrow> 'r \<Rightarrow> 'r list \<Rightarrow> 'r list" where
  "upsert key merge r rows = (if \<exists>q \<in> set rows. key q = key r then map (\<lambda>q. if key q = key r then merge q r else q) rows
     else rows @ [r])"

definition row_of :: "('r \<Rightarrow> 'k) \<Rightarrow> 'k \<Rightarrow> 'r list \<Rightarrow> 'r option" where
  "row_of key k rows = List.find (\<lambda>r. key r = k) rows"

definition limit_rows :: "nat \<Rightarrow> 'r list \<Rightarrow> 'r list MenteResult" where
  "limit_rows limit rows = bindO (usize_to_i64 limit) (\<lambda>n. Ok (take (nat n) rows))"

definition newest_first :: "('r \<Rightarrow> Timestamp) \<Rightarrow> 'r \<Rightarrow> 'r \<Rightarrow> bool" where
  "newest_first time a b \<longleftrightarrow> as_i64 (time b) < as_i64 (time a)"

definition foreign_key_failed :: "'a MenteResult" where
  "foreign_key_failed = Err (Storage ''FOREIGN KEY constraint failed'')"

definition not_null_real :: "string \<Rightarrow> fl \<Rightarrow> 'a \<Rightarrow> 'a MenteResult" where
  "not_null_real column x t = (if x = NaN then Err (Storage (''NOT NULL constraint failed: '' @ column)) else Ok t)"

abbreviation ref_ok :: "('r \<Rightarrow> 'k) \<Rightarrow> 'k option \<Rightarrow> 'r list \<Rightarrow> bool" where
  "ref_ok key ref rows \<equiv> (case ref of None \<Rightarrow> True | Some k \<Rightarrow> (\<exists>r \<in> set rows. key r = k))"

definition set_null :: "('k \<Rightarrow> bool) \<Rightarrow> 'k option \<Rightarrow> 'k option" where
  "set_null gone ref = (case ref of Some k \<Rightarrow> if gone k then None else Some k | None \<Rightarrow> None)"

text \<open>Deletion of parent rows, with the actions of the foreign keys that refer to them.\<close>

definition delete_source_rows :: "(MemorySource \<Rightarrow> bool) \<Rightarrow> Tables \<Rightarrow> Tables" where
  "delete_source_rows gone t =
     (let ids = ms_source_id ` {s \<in> set (t_memory_sources t). gone s} in
      t\<lparr>t_memory_sources := filter (\<lambda>s. \<not> gone s) (t_memory_sources t),
        t_claim_evidence := map (\<lambda>e. e\<lparr>cx_source_id := set_null (\<lambda>i. i \<in> ids) (cx_source_id e)\<rparr>) (t_claim_evidence t),
        t_relationship_evidence :=
          map (\<lambda>e. e\<lparr>rx_source_id := set_null (\<lambda>i. i \<in> ids) (rx_source_id e)\<rparr>) (t_relationship_evidence t)\<rparr>)"

definition delete_memory_row :: "MemoryId \<Rightarrow> Tables \<Rightarrow> Tables" where
  "delete_memory_row mid t =
     (let t = delete_source_rows (\<lambda>s. ms_memory_id s = mid) t in
      t\<lparr>t_memories := filter (\<lambda>r. mr_id r \<noteq> mid) (t_memories t),
        t_memory_entities := filter (\<lambda>l. ml_memory_id l \<noteq> mid) (t_memory_entities t),
        t_claim_evidence := filter (\<lambda>e. cx_memory_id e \<noteq> mid) (t_claim_evidence t),
        t_relationship_evidence := filter (\<lambda>e. rx_memory_id e \<noteq> mid) (t_relationship_evidence t),
        t_extraction_runs :=
          map (\<lambda>x. x\<lparr>xr_source_memory_id := set_null (\<lambda>i. i = mid) (xr_source_memory_id x)\<rparr>) (t_extraction_runs t)\<rparr>)"

definition delete_relationship_rows :: "(EntityRelationship \<Rightarrow> bool) \<Rightarrow> Tables \<Rightarrow> Tables" where
  "delete_relationship_rows gone t =
     (let ids = rl_relationship_id ` {r \<in> set (t_relationships t). gone r} in
      t\<lparr>t_relationships := filter (\<lambda>r. \<not> gone r) (t_relationships t),
        t_relationship_evidence := filter (\<lambda>e. rx_relationship_id e \<notin> ids) (t_relationship_evidence t)\<rparr>)"

definition delete_claim_row :: "string \<Rightarrow> Tables \<Rightarrow> Tables" where
  "delete_claim_row claim_id t =
     t\<lparr>t_claims := filter (\<lambda>c. cl_claim_id c \<noteq> claim_id) (t_claims t),
       t_claim_entities := filter (\<lambda>l. ck_claim_id l \<noteq> claim_id) (t_claim_entities t),
       t_claim_evidence := filter (\<lambda>e. cx_claim_id e \<noteq> claim_id) (t_claim_evidence t)\<rparr>"

definition delete_entity_row :: "string \<Rightarrow> Tables \<Rightarrow> Tables" where
  "delete_entity_row entity_id t =
     (let t = delete_relationship_rows (\<lambda>r. rl_source_entity_id r = entity_id \<or> rl_target_entity_id r = entity_id) t in
      t\<lparr>t_entities := filter (\<lambda>e. en_entity_id e \<noteq> entity_id) (t_entities t),
        t_entity_aliases := filter (\<lambda>a. ea_entity_id a \<noteq> entity_id) (t_entity_aliases t),
        t_memory_entities := filter (\<lambda>l. ml_entity_id l \<noteq> entity_id) (t_memory_entities t),
        t_claim_entities := filter (\<lambda>l. ck_entity_id l \<noteq> entity_id) (t_claim_entities t),
        t_claims := map (\<lambda>c. c\<lparr>cl_subject_entity_id := set_null (\<lambda>i. i = entity_id) (cl_subject_entity_id c),
                             cl_object_entity_id := set_null (\<lambda>i. i = entity_id) (cl_object_entity_id c)\<rparr>) (t_claims t)\<rparr>)"

section \<open>Tables with a key\<close>

lemma row_of_None_iff: "row_of key k rows = None \<longleftrightarrow> k \<notin> key ` set rows"
  by (auto simp: row_of_def find_None_iff)

lemma row_of_distinct: "distinct (map key rows) \<Longrightarrow> r \<in> set rows \<Longrightarrow> row_of key (key r) rows = Some r"
  by (induction rows) (auto simp: row_of_def image_iff)

lemma row_of_Some: "row_of key k rows = Some r \<Longrightarrow> r \<in> set rows \<and> key r = k"
  by (auto simp: row_of_def dest: find_SomeD)

text \<open>
  The contract of an insert or update: the update does not change the key. The table then stays without duplicate keys, the
  row of the key is the new one or the merge of the old one with it, and no other row changes.
\<close>

locale keyed_table =
  fixes key :: "'r \<Rightarrow> 'k" and merge :: "'r \<Rightarrow> 'r \<Rightarrow> 'r"
  assumes key_merge: "key q = key r \<Longrightarrow> key (merge q r) = key q"
begin

lemma map_keys: "map key (map (\<lambda>q. if key q = key r then merge q r else q) rows) = map key rows"
  using key_merge by auto

lemma upsert_keys: "key ` set (upsert key merge r rows) = insert (key r) (key ` set rows)"
proof (cases "\<exists>q \<in> set rows. key q = key r")
  case True
  then have "key r \<in> key ` set rows" by (metis imageI)
  moreover have "key ` set (upsert key merge r rows) = key ` set rows"
    using arg_cong[OF map_keys[of r rows], of set] True by (simp add: upsert_def del: map_map)
  ultimately show ?thesis by (simp add: insert_absorb)
qed (auto simp: upsert_def)

lemma upsert_distinct:
  assumes "distinct (map key rows)"
  shows "distinct (map key (upsert key merge r rows))"
  using assms by (auto simp: upsert_def map_keys simp del: map_map)

lemma row_of_map: "row_of key k (map (\<lambda>q. if key q = key r then merge q r else q) rows)
    = (if k = key r then map_option (\<lambda>q. merge q r) (row_of key k rows) else row_of key k rows)"
  using key_merge by (induction rows) (auto simp: row_of_def)

lemma row_of_upsert: "row_of key k (upsert key merge r rows)
    = (if k = key r then Some (case row_of key k rows of None \<Rightarrow> r | Some q \<Rightarrow> merge q r) else row_of key k rows)"
proof (cases "\<exists>q \<in> set rows. key q = key r")
  case True
  then have "row_of key (key r) rows \<noteq> None" by (auto simp: row_of_def find_None_iff)
  then show ?thesis using True by (auto simp: upsert_def row_of_map)
next
  case False
  then have "row_of key (key r) rows = None" by (auto simp: row_of_def find_None_iff)
  then show ?thesis using False by (auto simp: upsert_def row_of_def find_append split: option.splits)
qed

text \<open>The rows after an insert or update: the untouched ones, and the new or merged one.\<close>

lemma set_upsert:
  assumes "distinct (map key rows)"
  shows "set (upsert key merge r rows)
    = {q \<in> set rows. key q \<noteq> key r} \<union> {case row_of key (key r) rows of None \<Rightarrow> r | Some q \<Rightarrow> merge q r}"
proof (cases "row_of key (key r) rows")
  case None
  then have "\<forall>q \<in> set rows. key q \<noteq> key r" by (metis row_of_None_iff imageI)
  then show ?thesis using None by (auto simp: upsert_def)
next
  case (Some q)
  then have q: "q \<in> set rows" "key q = key r" using row_of_Some by fastforce+
  have u: "(if key p = key r then merge p r else p) = (if key p = key r then merge q r else p)" if "p \<in> set rows" for p
    using row_of_distinct[OF assms that] Some by auto
  have "set (upsert key merge r rows) = (\<lambda>p. if key p = key r then merge q r else p) ` set rows"
    using q u by (auto simp: upsert_def intro!: image_cong)
  also have "\<dots> = {p \<in> set rows. key p \<noteq> key r} \<union> {merge q r}" using q by (auto simp: image_iff)
  finally show ?thesis using Some by simp
qed

end

end
