(* ===== verification/Sqlite_Store.thy ===== *)
theory Sqlite_Store
  imports Sqlite_Schema
begin

text \<open>
  The memories, vectors, tags, edges and policy records of the SQLite store (\<open>mentedb-sqlite/src/lib.rs\<close>). A method that opens a
  transaction works on the tables and keeps the old ones when a statement fails. The JSON text of the attributes is written
  and read by a library, whose two functions are arguments.
\<close>

section \<open>The backend\<close>

record Backend =
  bk_tables :: Tables
  bk_dim :: nat
  bk_config :: RetrievalConfig
  bk_tracing :: bool

text \<open>
  Opening a file: the tables are created where they are missing, and a dimension stored before wins over the hint, so that
  the vector table survives.
\<close>

definition open_tables :: "nat \<Rightarrow> Tables option \<Rightarrow> Tables" where
  "open_tables hint_dim stored = (case stored of None \<Rightarrow> init_tables hint_dim
     | Some t \<Rightarrow> let effective = if t_stored_dim t > 0 then t_stored_dim t else hint_dim in
         t\<lparr>t_stored_dim := effective,
           t_memory_vec := (if effective > 0 \<and> t_memory_vec t = None then Some (effective, []) else t_memory_vec t)\<rparr>)"

definition backend_open :: "RetrievalConfig \<Rightarrow> nat \<Rightarrow> Tables option \<Rightarrow> Backend" where
  "backend_open config hint_dim stored = (let t = open_tables hint_dim stored in
     \<lparr> bk_tables = t, bk_dim = t_stored_dim t, bk_config = config, bk_tracing = False \<rparr>)"

definition set_retrieval_config :: "Backend \<Rightarrow> RetrievalConfig \<Rightarrow> Backend" where
  "set_retrieval_config b config = b\<lparr>bk_config := config\<rparr>"

definition set_retrieval_tracing :: "Backend \<Rightarrow> bool \<Rightarrow> Backend" where
  "set_retrieval_tracing b enabled = b\<lparr>bk_tracing := enabled\<rparr>"

text \<open>A transaction commits its tables or leaves the old ones.\<close>

definition transact :: "Backend \<Rightarrow> (Tables \<Rightarrow> ('a \<times> Tables) MenteResult) \<Rightarrow> 'a MenteResult \<times> Backend" where
  "transact b f = (case f (bk_tables b) of Ok (x, t) \<Rightarrow> (Ok x, b\<lparr>bk_tables := t\<rparr>) | Err e \<Rightarrow> (Err e, b) | Panic \<Rightarrow> (Panic, b))"

definition transact_unit :: "Backend \<Rightarrow> (Tables \<Rightarrow> Tables MenteResult) \<Rightarrow> unit MenteResult \<times> Backend" where
  "transact_unit b f = transact b (\<lambda>t. bindO (f t) (\<lambda>t. Ok ((), t)))"

fun for_each :: "('a \<Rightarrow> 't \<Rightarrow> 't MenteResult) \<Rightarrow> 'a list \<Rightarrow> 't \<Rightarrow> 't MenteResult" where
  "for_each f [] t = Ok t"
| "for_each f (x # xs) t = bindO (f x t) (for_each f xs)"

section \<open>Types as text\<close>

fun memory_type_str :: "MemoryType \<Rightarrow> string" where
  "memory_type_str Episodic = ''Episodic''"
| "memory_type_str Semantic = ''Semantic''"
| "memory_type_str Procedural = ''Procedural''"
| "memory_type_str AntiPattern = ''AntiPattern''"
| "memory_type_str Reasoning = ''Reasoning''"
| "memory_type_str Correction = ''Correction''"

definition parse_memory_type :: "string \<Rightarrow> MemoryType" where
  "parse_memory_type s = (if s = ''Semantic'' then Semantic else if s = ''Procedural'' then Procedural
     else if s = ''AntiPattern'' then AntiPattern else if s = ''Reasoning'' then Reasoning
     else if s = ''Correction'' then Correction else Episodic)"

fun edge_type_str :: "EdgeType \<Rightarrow> string" where
  "edge_type_str Caused = ''Caused''"
| "edge_type_str Before = ''Before''"
| "edge_type_str Related = ''Related''"
| "edge_type_str Contradicts = ''Contradicts''"
| "edge_type_str Supports = ''Supports''"
| "edge_type_str Supersedes = ''Supersedes''"
| "edge_type_str Derived = ''Derived''"
| "edge_type_str PartOf = ''PartOf''"

definition edge_type_of_str :: "string \<Rightarrow> EdgeType" where
  "edge_type_of_str s = (if s = ''Caused'' then Caused else if s = ''Before'' then Before
     else if s = ''Related'' then Related else if s = ''Contradicts'' then Contradicts
     else if s = ''Supports'' then Supports else if s = ''Supersedes'' then Supersedes
     else if s = ''Derived'' then Derived else if s = ''PartOf'' then PartOf else Related)"

section \<open>Vectors\<close>

definition sum_f32 :: "f32 list \<Rightarrow> f32" where
  "sum_f32 xs = foldl (fl_add f32_of) (Fin 0) xs"

definition normalize_vec :: "Embedding \<Rightarrow> Embedding" where
  "normalize_vec v = (let norm = fl_sqrt 24 (sum_f32 (map (\<lambda>x. fl_mul f32_of x x) v)) in
     case norm of Fin a \<Rightarrow> if a \<le> 0 then v else map (\<lambda>x. fl_div f32_of x norm) v | _ \<Rightarrow> v)"

definition dot_f32 :: "Embedding \<Rightarrow> Embedding \<Rightarrow> f32" where
  "dot_f32 a b = sum_f32 (map (\<lambda>(x, y). fl_mul f32_of x y) (zip a b))"

definition l2_distance_to_similarity :: "f64 \<Rightarrow> f32" where
  "l2_distance_to_similarity d =
     (let sim = fl_sub f64_of (Fin 1) (fl_div f64_of (fl_mul f64_of d d) (Fin 2)) in
      f64_as_f32 (if fl_lt sim (Fin 0) then Fin 0 else if fl_lt (Fin 1) sim then Fin 1 else sim))"

text \<open>Inserting a vector fails without a vector table or with another dimension than the table's.\<close>

definition dimension_message :: "nat \<Rightarrow> nat \<Rightarrow> string" where
  "dimension_message d n = ''Dimension mismatch for inserted vector for the '' @ [CHR 0x22] @ ''embedding'' @ [CHR 0x22]
     @ '' column. Expected '' @ show_nat d @ '' dimensions but received '' @ show_nat n @ ''.''"

definition insert_vector :: "nat \<Rightarrow> Embedding \<Rightarrow> Tables \<Rightarrow> Tables MenteResult" where
  "insert_vector rowid v t = (case t_memory_vec t of
     None \<Rightarrow> Err (Storage ''no such table: memory_vec'')
   | Some (d, rows) \<Rightarrow>
       if length v \<noteq> d then Err (Storage (dimension_message d (length v)))
       else Ok (t\<lparr>t_memory_vec := Some (d, rows @ [(rowid, v)])\<rparr>))"

definition delete_vector :: "nat \<Rightarrow> Tables \<Rightarrow> Tables" where
  "delete_vector rowid t =
     t\<lparr>t_memory_vec := map_option (\<lambda>(d, rows). (d, filter (\<lambda>r. fst r \<noteq> rowid) rows)) (t_memory_vec t)\<rparr>"

text \<open>\<open>ensure_vector_index\<close>: a new vector table with the vectors of that dimension.\<close>

definition backfill :: "nat \<Rightarrow> MemoryRow list \<Rightarrow> (nat \<times> Embedding) list" where
  "backfill d rows = concat (map (\<lambda>r. case mr_embedding r of
     Some e \<Rightarrow> if length e = d then [(mr_rowid r, normalize_vec e)] else [] | None \<Rightarrow> []) rows)"

definition ensure_vector_index :: "Env \<Rightarrow> Backend \<Rightarrow> nat \<Rightarrow> Backend" where
  "ensure_vector_index env b d =
     (if d = 0 \<or> d = bk_dim b then b
      else let t = bk_tables b; embedded = filter (\<lambda>r. mr_embedding r \<noteq> None) (t_memories t);
               filled = backfill d (t_memories t)
           in b\<lparr>bk_tables := record_operation_on env ''vector_index_rebuild'' None None None
                  [(''embedding_dim'', F_Nat d), (''backfilled'', F_Nat (length filled)),
                   (''skipped_dimension_mismatch'', F_Nat (length embedded - length filled))]
                  (t\<lparr>t_memory_vec := Some (d, filled), t_stored_dim := d\<rparr>),
                bk_dim := d\<rparr>)"

section \<open>Memories\<close>

record AttrCodec =
  attrs_to_json :: "(string \<rightharpoonup> AttributeValue) \<Rightarrow> string"
  attrs_from_json :: "string \<Rightarrow> (string \<rightharpoonup> AttributeValue) option"

definition next_rowid :: "MemoryRow list \<Rightarrow> nat" where
  "next_rowid rows = Suc (foldr max (map mr_rowid rows) 0)"

definition memory_row :: "AttrCodec \<Rightarrow> nat \<Rightarrow> MemoryNode \<Rightarrow> MemoryRow" where
  "memory_row codec rowid m =
     \<lparr> mr_rowid = rowid, mr_id = mn_id m, mr_agent_id = mn_agent_id m, mr_space_id = mn_space_id m,
       mr_memory_type = memory_type_str (mn_memory_type m), mr_content = mn_content m,
       mr_embedding = (if mn_embedding m = [] then None else Some (mn_embedding m)),
       mr_created_at = as_i64 (mn_created_at m), mr_accessed_at = as_i64 (mn_accessed_at m),
       mr_access_count = int (mn_access_count m), mr_salience = mn_salience m, mr_confidence = mn_confidence m,
       mr_attributes = attrs_to_json codec (mn_attributes m), mr_valid_from = map_option as_i64 (mn_valid_from m),
       mr_valid_until = map_option as_i64 (mn_valid_until m) \<rparr>"

text \<open>The update keeps the row number and the time of creation.\<close>

definition merge_memory :: "MemoryRow \<Rightarrow> MemoryRow \<Rightarrow> MemoryRow" where
  "merge_memory q r = r\<lparr>mr_rowid := mr_rowid q, mr_id := mr_id q, mr_created_at := mr_created_at q\<rparr>"

definition replace_tags :: "MemoryId \<Rightarrow> string list \<Rightarrow> Tables \<Rightarrow> Tables" where
  "replace_tags mid tags t =
     t\<lparr>t_memory_tags := filter (\<lambda>p. fst p \<noteq> mid) (t_memory_tags t) @ map (\<lambda>tag. (mid, tag)) (remdups tags)\<rparr>"

definition memory_upsert_payload :: "MemoryNode \<Rightarrow> (string \<times> JsonField) list" where
  "memory_upsert_payload m =
     [(''agent_id'', F_Agent (mn_agent_id m)), (''space_id'', F_Space (mn_space_id m)),
      (''memory_type'', F_Str (memory_type_str (mn_memory_type m))), (''content_len'', F_Nat (length (mn_content m))),
      (''embedding_dim'', F_Nat (length (mn_embedding m))), (''tag_count'', F_Nat (length (mn_tags m))),
      (''valid_from'', F_OptTime (mn_valid_from m)), (''valid_until'', F_OptTime (mn_valid_until m))]"

definition refresh_vector :: "nat \<Rightarrow> nat \<Rightarrow> Embedding \<Rightarrow> Tables \<Rightarrow> Tables MenteResult" where
  "refresh_vector d rowid e t = (let t = delete_vector rowid t in
     if d > 0 \<and> e \<noteq> [] then insert_vector rowid (normalize_vec e) t else Ok t)"

definition upsert_memory_row :: "AttrCodec \<Rightarrow> MemoryNode \<Rightarrow> Tables \<Rightarrow> Tables MenteResult" where
  "upsert_memory_row codec m t =
     bindO (not_null_real ''memories.salience'' (mn_salience m) t) (\<lambda>t.
     bindO (not_null_real ''memories.confidence'' (mn_confidence m) t) (\<lambda>t.
     Ok (t\<lparr>t_memories := upsert mr_id merge_memory (memory_row codec (next_rowid (t_memories t)) m) (t_memories t)\<rparr>)))"

definition store_memory_on :: "Env \<Rightarrow> AttrCodec \<Rightarrow> nat \<Rightarrow> MemoryNode \<Rightarrow> Tables \<Rightarrow> Tables MenteResult" where
  "store_memory_on env codec d m t =
     bindO (upsert_memory_row codec m t) (\<lambda>t.
     case row_of mr_id (mn_id m) (t_memories t) of
       None \<Rightarrow> Err (Storage ''Query returned no rows'')
     | Some row \<Rightarrow>
         bindO (refresh_vector d (mr_rowid row) (mn_embedding m) t) (\<lambda>t.
         Ok (record_operation_on env ''memory_upsert'' (Some (mn_id m)) None None (memory_upsert_payload m)
           (replace_tags (mn_id m) (mn_tags m) t))))"

definition check_dim :: "nat \<Rightarrow> MemoryNode \<Rightarrow> unit MenteResult" where
  "check_dim d m = (if mn_embedding m \<noteq> [] \<and> d > 0 \<and> length (mn_embedding m) \<noteq> d
     then Err (EmbeddingDimensionMismatch (length (mn_embedding m)) d) else Ok ())"

definition store_memory :: "Env \<Rightarrow> AttrCodec \<Rightarrow> Backend \<Rightarrow> MemoryNode \<Rightarrow> unit MenteResult \<times> Backend" where
  "store_memory env codec b m = transact_unit b (\<lambda>t.
     bindO (check_dim (bk_dim b) m) (\<lambda>_. store_memory_on env codec (bk_dim b) m t))"

definition store_memory_batch :: "Env \<Rightarrow> AttrCodec \<Rightarrow> Backend \<Rightarrow> MemoryNode list \<Rightarrow> unit MenteResult \<times> Backend" where
  "store_memory_batch env codec b ms = transact_unit b (\<lambda>t.
     bindO (for_each (\<lambda>m _. check_dim (bk_dim b) m) ms ()) (\<lambda>_. for_each (store_memory_on env codec (bk_dim b)) ms t))"

definition tags_of :: "Tables \<Rightarrow> MemoryId \<Rightarrow> string list" where
  "tags_of t mid = sort (map snd (filter (\<lambda>p. fst p = mid) (t_memory_tags t)))"

definition node_of_row :: "AttrCodec \<Rightarrow> Tables \<Rightarrow> MemoryRow \<Rightarrow> MemoryNode" where
  "node_of_row codec t r =
     \<lparr> mn_id = mr_id r, mn_agent_id = mr_agent_id r, mn_memory_type = parse_memory_type (mr_memory_type r),
       mn_embedding = (case mr_embedding r of Some e \<Rightarrow> e | None \<Rightarrow> []), mn_content = mr_content r,
       mn_created_at = as_u64 (mr_created_at r), mn_accessed_at = as_u64 (mr_accessed_at r),
       mn_access_count = as_u32 (mr_access_count r), mn_salience = f64_as_f32 (mr_salience r), mn_confidence = f64_as_f32 (mr_confidence r),
       mn_space_id = mr_space_id r,
       mn_attributes = (case attrs_from_json codec (mr_attributes r) of Some a \<Rightarrow> a | None \<Rightarrow> Map.empty),
       mn_tags = tags_of t (mr_id r), mn_valid_from = map_option as_u64 (mr_valid_from r),
       mn_valid_until = map_option as_u64 (mr_valid_until r) \<rparr>"

definition get_memory :: "AttrCodec \<Rightarrow> Backend \<Rightarrow> MemoryId \<Rightarrow> MemoryNode option" where
  "get_memory codec b mid = map_option (node_of_row codec (bk_tables b)) (row_of mr_id mid (t_memories (bk_tables b)))"

definition delete_memory_on :: "Env \<Rightarrow> MemoryId \<Rightarrow> Tables \<Rightarrow> bool \<times> Tables" where
  "delete_memory_on env mid t = (case row_of mr_id mid (t_memories t) of
     None \<Rightarrow> (False, t)
   | Some row \<Rightarrow>
       let touching = (\<lambda>e. me_source e = mid \<or> me_target e = mid);
           tag_count = length (filter (\<lambda>p. fst p = mid) (t_memory_tags t));
           edge_count = length (filter touching (t_edges t));
           t = delete_vector (mr_rowid row) t;
           t = t\<lparr>t_memory_tags := filter (\<lambda>p. fst p \<noteq> mid) (t_memory_tags t),
                 t_edges := filter (\<lambda>e. \<not> touching e) (t_edges t)\<rparr>
       in (True, record_operation_on env ''memory_delete'' (Some mid) None None
             [(''rowid'', F_Nat (mr_rowid row)), (''deleted_tags'', F_Nat tag_count), (''deleted_edges'', F_Nat edge_count)]
             (delete_memory_row mid t)))"

definition delete_memory :: "Env \<Rightarrow> Backend \<Rightarrow> MemoryId \<Rightarrow> bool \<times> Backend" where
  "delete_memory env b mid = (case delete_memory_on env mid (bk_tables b) of (d, t) \<Rightarrow> (d, b\<lparr>bk_tables := t\<rparr>))"

definition invalidate_memory_on :: "Env \<Rightarrow> MemoryId \<Rightarrow> Timestamp \<Rightarrow> Tables \<Rightarrow> Tables" where
  "invalidate_memory_on env mid valid_until t =
     (if \<exists>r \<in> set (t_memories t). mr_id r = mid
      then record_operation_on env ''memory_invalidate'' (Some mid) None None [(''valid_until'', F_OptTime (Some valid_until))]
        (t\<lparr>t_memories := map (\<lambda>r. if mr_id r = mid then r\<lparr>mr_valid_until := Some (as_i64 valid_until)\<rparr> else r) (t_memories t)\<rparr>)
      else t)"

definition memory_total :: "Backend \<Rightarrow> nat" where
  "memory_total b = length (t_memories (bk_tables b))"

definition all_memory_ids :: "Backend \<Rightarrow> MemoryId list" where
  "all_memory_ids b = map mr_id (t_memories (bk_tables b))"

definition all_memories :: "AttrCodec \<Rightarrow> Backend \<Rightarrow> MemoryNode list" where
  "all_memories codec b = List.map_filter (get_memory codec b) (all_memory_ids b)"

definition memory_ids_for_tag :: "Backend \<Rightarrow> string \<Rightarrow> MemoryId list" where
  "memory_ids_for_tag b tag =
     sort (map fst (filter (\<lambda>p. snd p = tag) (t_memory_tags (bk_tables b))))"

section \<open>Edges\<close>

datatype Direction = Outgoing | Incoming | Both

definition add_edge_on :: "Env \<Rightarrow> MemoryEdge \<Rightarrow> Tables \<Rightarrow> Tables MenteResult" where
  "add_edge_on env e t = bindO (not_null_real ''edges.weight'' (me_weight e) t) (\<lambda>t.
     Ok (record_operation_on env ''edge_insert'' None (Some (me_source e)) (Some (me_target e))
       [(''edge_type'', F_Str (edge_type_str (me_edge_type e))), (''weight'', F_Real (me_weight e)),
        (''valid_from'', F_OptTime (me_valid_from e)), (''valid_until'', F_OptTime (me_valid_until e)),
        (''label'', F_OptStr (me_label e))]
       (t\<lparr>t_edges := t_edges t @ [e]\<rparr>)))"

definition store_edge :: "Env \<Rightarrow> Backend \<Rightarrow> MemoryEdge \<Rightarrow> unit MenteResult \<times> Backend" where
  "store_edge env b e = transact_unit b (add_edge_on env e)"

text \<open>Reading an edge back converts its columns.\<close>

definition read_edge :: "MemoryEdge \<Rightarrow> MemoryEdge" where
  "read_edge e = e\<lparr>me_edge_type := edge_type_of_str (edge_type_str (me_edge_type e)), me_weight := f64_as_f32 (me_weight e),
     me_created_at := as_u64 (as_i64 (me_created_at e)),
     me_valid_from := map_option (as_u64 \<circ> as_i64) (me_valid_from e),
     me_valid_until := map_option (as_u64 \<circ> as_i64) (me_valid_until e)\<rparr>"

definition stored_edges :: "Backend \<Rightarrow> MemoryEdge list" where
  "stored_edges b = map read_edge (t_edges (bk_tables b))"

fun touches :: "Direction \<Rightarrow> MemoryId \<Rightarrow> MemoryEdge \<Rightarrow> bool" where
  "touches Outgoing mid e = (me_source e = mid)"
| "touches Incoming mid e = (me_target e = mid)"
| "touches Both mid e = (me_source e = mid \<or> me_target e = mid)"

definition edges_for :: "Backend \<Rightarrow> MemoryId \<Rightarrow> Direction \<Rightarrow> MemoryEdge list" where
  "edges_for b mid dir = map read_edge (filter (touches dir mid) (t_edges (bk_tables b)))"

fun push_distinct :: "'a list \<Rightarrow> 'a list \<Rightarrow> 'a list" where
  "push_distinct out [] = out"
| "push_distinct out (x # xs) = push_distinct (if x \<in> set out then out else out @ [x]) xs"

definition edge_type_ok :: "EdgeType list option \<Rightarrow> MemoryEdge \<Rightarrow> bool" where
  "edge_type_ok edge_types e = (case edge_types of None \<Rightarrow> True | Some ts \<Rightarrow> me_edge_type e \<in> set ts)"

definition sql_neighbors :: "Backend \<Rightarrow> MemoryId \<Rightarrow> EdgeType list option \<Rightarrow> Direction \<Rightarrow> MemoryId list" where
  "sql_neighbors b mid edge_types dir = push_distinct []
     (map (\<lambda>e. if me_source e = mid then me_target e else me_source e) (filter (edge_type_ok edge_types) (edges_for b mid dir)))"

text \<open>
  The recursive query of \<open>subgraph\<close>: each row of the queue has a node and its depth, and adds a row for every edge out of the
  node while the depth is below the limit; \<open>UNION ALL\<close> keeps duplicate rows. An empty list of types means no filter.
\<close>

definition sql_edge_type_ok :: "EdgeType list option \<Rightarrow> MemoryEdge \<Rightarrow> bool" where
  "sql_edge_type_ok edge_types e = (case edge_types of Some ts \<Rightarrow> ts = [] \<or> me_edge_type e \<in> set ts | None \<Rightarrow> True)"

fun reach_rows :: "MemoryEdge list \<Rightarrow> nat \<Rightarrow> MemoryId list \<Rightarrow> MemoryId list" where
  "reach_rows edges 0 frontier = frontier"
| "reach_rows edges (Suc depth) frontier = frontier
     @ reach_rows edges depth (concat (map (\<lambda>v. map me_target (filter (\<lambda>e. me_source e = v) edges)) frontier))"

definition sql_subgraph :: "Backend \<Rightarrow> MemoryId list \<Rightarrow> nat \<Rightarrow> EdgeType list option \<Rightarrow> MemoryId set" where
  "sql_subgraph b roots max_depth edge_types = (if roots = [] then {}
     else set (reach_rows (filter (sql_edge_type_ok edge_types) (t_edges (bk_tables b))) (nat (as_i64 max_depth)) roots))"

definition delete_edges_for :: "Env \<Rightarrow> Backend \<Rightarrow> MemoryId \<Rightarrow> Backend" where
  "delete_edges_for env b mid = (let t = bk_tables b in
     b\<lparr>bk_tables := record_operation_on env ''edge_delete_for_memory'' (Some mid) None None
         [(''deleted_edges'', F_Nat (length (filter (touches Both mid) (t_edges t))))]
         (t\<lparr>t_edges := filter (\<lambda>e. \<not> touches Both mid e) (t_edges t)\<rparr>)\<rparr>)"

section \<open>Lifecycle events and policies\<close>

text \<open>Reading a JSON text is the library's: it gives an error message, or whether the value is an object.\<close>

type_synonym JsonCheck = "string \<Rightarrow> string + bool"

definition blank :: "string \<Rightarrow> bool" where
  "blank s \<longleftrightarrow> trim s = []"

definition validate_json_object :: "JsonCheck \<Rightarrow> string \<Rightarrow> string \<Rightarrow> unit MenteResult" where
  "validate_json_object json txt field = (case json txt of
     Inl err \<Rightarrow> Err (InvalidInput (field @ '' must be valid JSON: '' @ err))
   | Inr is_object \<Rightarrow> if is_object then Ok () else Err (InvalidInput (field @ '' must be a JSON object'')))"

definition validate_lifecycle_event :: "JsonCheck \<Rightarrow> MemoryLifecycleEvent \<Rightarrow> unit MenteResult" where
  "validate_lifecycle_event json e =
     (if blank (le_event_id e) then Err (InvalidInput ''lifecycle event_id cannot be empty'')
      else if blank (le_event_type e) then Err (InvalidInput ''lifecycle event_type cannot be empty'')
      else validate_json_object json (le_payload_json e) ''lifecycle payload_json'')"

definition insert_memory_lifecycle_event_on :: "Env \<Rightarrow> JsonCheck \<Rightarrow> MemoryLifecycleEvent \<Rightarrow> Tables \<Rightarrow> Tables MenteResult" where
  "insert_memory_lifecycle_event_on env json e t =
     bindO (validate_lifecycle_event json e) (\<lambda>_.
     if \<exists>q \<in> set (t_lifecycle_events t). le_event_id q = le_event_id e
     then Err (Storage ''UNIQUE constraint failed: memory_lifecycle_events.event_id'')
     else Ok (record_operation_on env ''memory_lifecycle_event_record'' (Some (le_memory_id e)) None None
       [(''event_id'', F_Str (le_event_id e)), (''event_type'', F_Str (le_event_type e)),
        (''reason'', F_OptStr (le_reason e)), (''policy'', F_OptStr (le_policy e))]
       (t\<lparr>t_lifecycle_events := t_lifecycle_events t @ [e]\<rparr>)))"

definition record_lifecycle_event :: "Env \<Rightarrow> JsonCheck \<Rightarrow> Backend \<Rightarrow> MemoryLifecycleEvent \<Rightarrow> unit MenteResult \<times> Backend" where
  "record_lifecycle_event env json b e = transact_unit b (insert_memory_lifecycle_event_on env json e)"

definition validate_policy_run :: "JsonCheck \<Rightarrow> PolicyRun \<Rightarrow> unit MenteResult" where
  "validate_policy_run json r =
     (if blank (pr_run_id r) \<or> blank (pr_policy_name r) \<or> blank (pr_policy_version r) \<or> blank (pr_mode r) \<or> blank (pr_status r)
      then Err (InvalidInput ''policy run identity fields cannot be empty'')
      else bindO (validate_json_object json (pr_scope_json r) ''policy run scope_json'') (\<lambda>_.
        validate_json_object json (pr_result_json r) ''policy run result_json''))"

definition validate_policy_action :: "JsonCheck \<Rightarrow> PolicyAction \<Rightarrow> unit MenteResult" where
  "validate_policy_action json a =
     (if blank (pa_action_id a) \<or> blank (pa_run_id a) \<or> blank (pa_action_type a) \<or> blank (pa_target_type a) \<or> blank (pa_status a)
      then Err (InvalidInput ''policy action identity fields cannot be empty'')
      else bindO (validate_json_object json (pa_before_json a) ''policy action before_json'') (\<lambda>_.
        validate_json_object json (pa_after_json a) ''policy action after_json''))"

definition upsert_policy_run_on :: "Env \<Rightarrow> JsonCheck \<Rightarrow> PolicyRun \<Rightarrow> Tables \<Rightarrow> Tables MenteResult" where
  "upsert_policy_run_on env json r t = bindO (validate_policy_run json r) (\<lambda>_.
     Ok (record_operation_on env ''policy_run_upsert'' None None None
       [(''run_id'', F_Str (pr_run_id r)), (''policy_name'', F_Str (pr_policy_name r)),
        (''policy_version'', F_Str (pr_policy_version r)), (''mode'', F_Str (pr_mode r)), (''status'', F_Str (pr_status r))]
       (t\<lparr>t_policy_runs := upsert pr_run_id (\<lambda>q r. r\<lparr>pr_run_id := pr_run_id q, pr_started_at := pr_started_at q\<rparr>) r
            (t_policy_runs t)\<rparr>)))"

definition insert_policy_action_on :: "JsonCheck \<Rightarrow> PolicyAction \<Rightarrow> Tables \<Rightarrow> Tables MenteResult" where
  "insert_policy_action_on json a t = bindO (validate_policy_action json a) (\<lambda>_.
     if \<not> (\<exists>q \<in> set (t_policy_actions t). pa_action_id q = pa_action_id a) \<and> \<not> (\<exists>r \<in> set (t_policy_runs t). pr_run_id r = pa_run_id a)
     then foreign_key_failed
     else Ok (t\<lparr>t_policy_actions := upsert pa_action_id
       (\<lambda>q a. a\<lparr>pa_action_id := pa_action_id q, pa_run_id := pa_run_id q, pa_created_at := pa_created_at q\<rparr>) a (t_policy_actions t)\<rparr>))"

definition mark_claim_status_on :: "Env \<Rightarrow> string \<Rightarrow> string \<Rightarrow> Timestamp \<Rightarrow> Tables \<Rightarrow> Tables" where
  "mark_claim_status_on env claim_id status valid_until t =
     (if \<exists>c \<in> set (t_claims t). cl_claim_id c = claim_id
      then record_operation_on env ''claim_status_update'' None None None
        [(''claim_id'', F_Str claim_id), (''status'', F_Str status), (''valid_until'', F_OptTime (Some valid_until))]
        (t\<lparr>t_claims := map (\<lambda>c. if cl_claim_id c = claim_id
            then c\<lparr>cl_status := status, cl_valid_until := Some valid_until, cl_updated_at := valid_until\<rparr> else c) (t_claims t)\<rparr>)
      else t)"

definition mark_relationship_status_on :: "Env \<Rightarrow> string \<Rightarrow> string \<Rightarrow> Timestamp \<Rightarrow> Tables \<Rightarrow> Tables" where
  "mark_relationship_status_on env relationship_id status valid_until t =
     (if \<exists>r \<in> set (t_relationships t). rl_relationship_id r = relationship_id
      then record_operation_on env ''relationship_status_update'' None None None
        [(''relationship_id'', F_Str relationship_id), (''status'', F_Str status), (''valid_until'', F_OptTime (Some valid_until))]
        (t\<lparr>t_relationships := map (\<lambda>r. if rl_relationship_id r = relationship_id
            then r\<lparr>rl_status := status, rl_valid_until := Some valid_until, rl_updated_at := valid_until\<rparr> else r) (t_relationships t)\<rparr>)
      else t)"

record CorrectionPolicyMutation =
  cm_run :: PolicyRun
  cm_actions :: "PolicyAction list"
  cm_memory_invalidations :: "(MemoryId \<times> Timestamp) list"
  cm_corrected_claim_ids :: "string list"
  cm_corrected_relationship_ids :: "string list"
  cm_edges :: "MemoryEdge list"
  cm_lifecycle_events :: "MemoryLifecycleEvent list"
  cm_applied_at :: Timestamp

record ForgetPolicyMutation =
  fm_run :: PolicyRun
  fm_actions :: "PolicyAction list"
  fm_memory_ids :: "MemoryId list"
  fm_claim_ids :: "string list"
  fm_relationship_ids :: "string list"
  fm_entity_ids :: "string list"
  fm_lifecycle_events :: "MemoryLifecycleEvent list"
  fm_hard_delete :: bool
  fm_applied_at :: Timestamp

record LifecyclePolicyMutation =
  lm_run :: PolicyRun
  lm_actions :: "PolicyAction list"
  lm_memory_updates :: "MemoryNode list"
  lm_lifecycle_events :: "MemoryLifecycleEvent list"

definition apply_correction_policy :: "Env \<Rightarrow> JsonCheck \<Rightarrow> Backend \<Rightarrow> CorrectionPolicyMutation \<Rightarrow> unit MenteResult \<times> Backend" where
  "apply_correction_policy env json b mu = transact_unit b (\<lambda>t.
     bindO (upsert_policy_run_on env json (cm_run mu) t) (\<lambda>t.
     bindO (for_each (insert_policy_action_on json) (cm_actions mu) t) (\<lambda>t.
     bindO (for_each (add_edge_on env) (cm_edges mu)
       (fold (\<lambda>i. mark_relationship_status_on env i ''corrected'' (cm_applied_at mu)) (cm_corrected_relationship_ids mu)
         (fold (\<lambda>i. mark_claim_status_on env i ''corrected'' (cm_applied_at mu)) (cm_corrected_claim_ids mu)
           (fold (\<lambda>(mid, until). invalidate_memory_on env mid until) (cm_memory_invalidations mu) t))))
     (for_each (insert_memory_lifecycle_event_on env json) (cm_lifecycle_events mu)))))"

definition forget_hard :: "Env \<Rightarrow> ForgetPolicyMutation \<Rightarrow> Tables \<Rightarrow> Tables" where
  "forget_hard env mu t =
     fold delete_entity_row (fm_entity_ids mu)
       (fold (\<lambda>mid t. snd (delete_memory_on env mid t)) (fm_memory_ids mu)
         (fold delete_claim_row (fm_claim_ids mu)
           (fold (\<lambda>i. delete_relationship_rows (\<lambda>r. rl_relationship_id r = i)) (fm_relationship_ids mu) t)))"

definition forget_soft :: "Env \<Rightarrow> ForgetPolicyMutation \<Rightarrow> Tables \<Rightarrow> Tables" where
  "forget_soft env mu t =
     fold (\<lambda>i. mark_relationship_status_on env i ''forgotten'' (fm_applied_at mu)) (fm_relationship_ids mu)
       (fold (\<lambda>i. mark_claim_status_on env i ''forgotten'' (fm_applied_at mu)) (fm_claim_ids mu)
         (fold (\<lambda>mid. invalidate_memory_on env mid (fm_applied_at mu)) (fm_memory_ids mu) t))"

definition apply_forget_policy :: "Env \<Rightarrow> JsonCheck \<Rightarrow> Backend \<Rightarrow> ForgetPolicyMutation \<Rightarrow> unit MenteResult \<times> Backend" where
  "apply_forget_policy env json b mu = transact_unit b (\<lambda>t.
     bindO (upsert_policy_run_on env json (fm_run mu) t) (\<lambda>t.
     bindO (for_each (insert_policy_action_on json) (fm_actions mu) t) (\<lambda>t.
     bindO (for_each (insert_memory_lifecycle_event_on env json) (fm_lifecycle_events mu) t) (\<lambda>t.
     Ok (record_operation_on env ''forget_policy_apply'' None None None
       [(''run_id'', F_Str (pr_run_id (fm_run mu))), (''hard_delete'', F_Bool (fm_hard_delete mu)),
        (''memory_count'', F_Nat (length (fm_memory_ids mu))), (''claim_count'', F_Nat (length (fm_claim_ids mu))),
        (''relationship_count'', F_Nat (length (fm_relationship_ids mu))), (''entity_count'', F_Nat (length (fm_entity_ids mu)))]
       (if fm_hard_delete mu then forget_hard env mu t else forget_soft env mu t))))))"

definition apply_lifecycle_policy :: "Env \<Rightarrow> AttrCodec \<Rightarrow> JsonCheck \<Rightarrow> Backend \<Rightarrow> LifecyclePolicyMutation \<Rightarrow> unit MenteResult \<times> Backend" where
  "apply_lifecycle_policy env codec json b mu = transact_unit b (\<lambda>t.
     bindO (upsert_policy_run_on env json (lm_run mu) t) (\<lambda>t.
     bindO (for_each (insert_policy_action_on json) (lm_actions mu) t) (\<lambda>t.
     bindO (for_each (store_memory_on env codec (bk_dim b)) (lm_memory_updates mu) t)
       (for_each (insert_memory_lifecycle_event_on env json) (lm_lifecycle_events mu)))))"

section \<open>The vector table mirrors the memories\<close>

definition vec_ok :: "nat \<Rightarrow> (nat \<times> (nat \<times> Embedding) list) option \<Rightarrow> MemoryRow list \<Rightarrow> bool" where
  "vec_ok d vec memories \<longleftrightarrow> (case vec of None \<Rightarrow> d = 0
     | Some (k, rows) \<Rightarrow> k = d \<and> 0 < d \<and> distinct (map fst rows) \<and> set rows = set (backfill d memories))"

definition tables_ok :: "nat \<Rightarrow> Tables \<Rightarrow> bool" where
  "tables_ok d t \<longleftrightarrow> distinct (map mr_id (t_memories t)) \<and> distinct (map mr_rowid (t_memories t))
     \<and> distinct (t_memory_tags t) \<and> t_stored_dim t = d \<and> vec_ok d (t_memory_vec t) (t_memories t)"

definition backend_ok :: "Backend \<Rightarrow> bool" where
  "backend_ok b \<longleftrightarrow> tables_ok (bk_dim b) (bk_tables b)"

lemma length_normalize [simp]: "length (normalize_vec v) = length v"
  by (auto simp: normalize_vec_def Let_def split: fl.splits)

definition vec_entries :: "nat \<Rightarrow> MemoryRow \<Rightarrow> (nat \<times> Embedding) set" where
  "vec_entries d r = {(mr_rowid r, normalize_vec e) | e. mr_embedding r = Some e \<and> length e = d}"

lemma vec_entries_fst: "x \<in> vec_entries d r \<Longrightarrow> fst x = mr_rowid r"
  by (auto simp: vec_entries_def)

lemma set_backfill: "set (backfill d rows) = (\<Union>r \<in> set rows. vec_entries d r)"
  by (induction rows) (auto simp: backfill_def vec_entries_def split: option.splits)

lemma backfill_distinct: "distinct (map mr_rowid rows) \<Longrightarrow> distinct (map fst (backfill d rows))"
proof (induction rows)
  case (Cons r rows)
  have "fst ` set (backfill d rows) \<subseteq> mr_rowid ` set rows" by (auto simp: set_backfill dest: vec_entries_fst)
  moreover have "backfill d (r # rows) = (case mr_embedding r of
      Some e \<Rightarrow> if length e = d then [(mr_rowid r, normalize_vec e)] else [] | None \<Rightarrow> []) @ backfill d rows"
    by (simp add: backfill_def)
  ultimately show ?case using Cons by (auto split: option.splits)
qed (simp add: backfill_def)

interpretation memories: keyed_table mr_id merge_memory
  by unfold_locales (simp add: merge_memory_def)

lemma next_rowid_fresh: "r \<in> set rows \<Longrightarrow> mr_rowid r < next_rowid rows"
  by (induction rows) (auto simp: next_rowid_def)

text \<open>The row of a stored memory, and that no other row has its number.\<close>

definition stored_row :: "AttrCodec \<Rightarrow> MemoryNode \<Rightarrow> MemoryRow list \<Rightarrow> MemoryRow" where
  "stored_row codec m rows = (case row_of mr_id (mn_id m) rows of
     None \<Rightarrow> memory_row codec (next_rowid rows) m
   | Some q \<Rightarrow> merge_memory q (memory_row codec (next_rowid rows) m))"

abbreviation stored_rows :: "AttrCodec \<Rightarrow> MemoryNode \<Rightarrow> MemoryRow list \<Rightarrow> MemoryRow list" where
  "stored_rows codec m rows \<equiv> upsert mr_id merge_memory (memory_row codec (next_rowid rows) m) rows"

lemma memory_row_id [simp]: "mr_id (memory_row codec i m) = mn_id m"
  by (simp add: memory_row_def)

lemma stored_row_simps [simp]:
  "mr_id (stored_row codec m rows) = mn_id m"
  "mr_embedding (stored_row codec m rows) = (if mn_embedding m = [] then None else Some (mn_embedding m))"
  by (auto simp: stored_row_def memory_row_def merge_memory_def split: option.splits dest: row_of_Some)

lemma set_stored_rows: "distinct (map mr_id rows) \<Longrightarrow>
    set (stored_rows codec m rows) = insert (stored_row codec m rows) {q \<in> set rows. mr_id q \<noteq> mn_id m}"
  using memories.set_upsert[of rows "memory_row codec (next_rowid rows) m"] by (simp add: stored_row_def)

lemma row_of_stored: "row_of mr_id (mn_id m) (stored_rows codec m rows) = Some (stored_row codec m rows)"
  using memories.row_of_upsert[of "mn_id m" "memory_row codec (next_rowid rows) m" rows] by (simp add: stored_row_def)

lemma stored_rowid_fresh:
  assumes "distinct (map mr_rowid rows)" "q \<in> set rows" "mr_id q \<noteq> mn_id m"
  shows "mr_rowid q \<noteq> mr_rowid (stored_row codec m rows)"
proof (cases "row_of mr_id (mn_id m) rows")
  case None
  then show ?thesis using next_rowid_fresh[OF assms(2)] by (simp add: stored_row_def memory_row_def)
next
  case (Some p)
  then have "p \<in> set rows" "mr_id p = mn_id m" using row_of_Some by fastforce+
  then have "mr_rowid q \<noteq> mr_rowid p" using assms by (auto simp: distinct_map inj_on_def)
  then show ?thesis using Some by (simp add: stored_row_def merge_memory_def)
qed

lemma stored_rows_rowids:
  assumes "distinct (map mr_rowid rows)"
  shows "distinct (map mr_rowid (stored_rows codec m rows))"
proof (cases "\<exists>q \<in> set rows. mr_id q = mn_id m")
  case True
  have "map mr_rowid (map (\<lambda>q. if mr_id q = mn_id m then merge_memory q (memory_row codec (next_rowid rows) m) else q) rows)
      = map mr_rowid rows" by (auto simp: merge_memory_def)
  then show ?thesis using True assms by (simp add: upsert_def del: map_map)
next
  case False
  then show ?thesis using assms next_rowid_fresh[of _ rows] by (fastforce simp: upsert_def memory_row_def)
qed

lemma backfill_stored:
  assumes "distinct (map mr_id rows)" "distinct (map mr_rowid rows)"
  shows "set (backfill d (stored_rows codec m rows)) = {x \<in> set (backfill d rows). fst x \<noteq> mr_rowid (stored_row codec m rows)}
    \<union> (if mn_embedding m \<noteq> [] \<and> length (mn_embedding m) = d then {(mr_rowid (stored_row codec m rows), normalize_vec (mn_embedding m))} else {})"
proof -
  let ?s = "stored_row codec m rows"
  have "q \<in> set rows \<Longrightarrow> mr_id q \<noteq> mn_id m \<longleftrightarrow> mr_rowid q \<noteq> mr_rowid ?s" for q
  proof
    assume q: "q \<in> set rows" and "mr_id q \<noteq> mn_id m"
    then show "mr_rowid q \<noteq> mr_rowid ?s" using stored_rowid_fresh[OF assms(2)] by blast
  next
    assume q: "q \<in> set rows" and n: "mr_rowid q \<noteq> mr_rowid ?s"
    show "mr_id q \<noteq> mn_id m"
    proof
      assume "mr_id q = mn_id m"
      then have "row_of mr_id (mn_id m) rows = Some q" using row_of_distinct[OF assms(1) q] by simp
      then show False using n by (simp add: stored_row_def merge_memory_def)
    qed
  qed
  then have keep: "{x \<in> set (backfill d rows). fst x \<noteq> mr_rowid ?s} = (\<Union>q \<in> {q \<in> set rows. mr_id q \<noteq> mn_id m}. vec_entries d q)"
    unfolding set_backfill using vec_entries_fst by fastforce
  have "vec_entries d ?s = (if mn_embedding m \<noteq> [] \<and> length (mn_embedding m) = d
      then {(mr_rowid ?s, normalize_vec (mn_embedding m))} else {})" by (auto simp: vec_entries_def)
  then show ?thesis unfolding keep by (simp add: set_backfill set_stored_rows[OF assms(1)] Un_commute)
qed

lemma refresh_vector_ok:
  fixes codec :: AttrCodec
  assumes "tables_ok d t" "check_dim d m = Ok ()"
  defines "t1 \<equiv> t\<lparr>t_memories := stored_rows codec m (t_memories t)\<rparr>"
  obtains v where "refresh_vector d (mr_rowid (stored_row codec m (t_memories t))) (mn_embedding m) t1 = Ok (t1\<lparr>t_memory_vec := v\<rparr>)"
    "vec_ok d v (t_memories t1)"
proof (cases "t_memory_vec t")
  case None
  then have "d = 0" using assms(1) by (simp add: tables_ok_def vec_ok_def)
  then show thesis using that[of None] None by (simp add: refresh_vector_def delete_vector_def t1_def vec_ok_def)
next
  case (Some kr)
  let ?i = "mr_rowid (stored_row codec m (t_memories t))"
  obtain rows where v: "t_memory_vec t = Some (d, rows)" "0 < d" "distinct (map fst rows)" "set rows = set (backfill d (t_memories t))"
    and k: "distinct (map mr_id (t_memories t))" "distinct (map mr_rowid (t_memories t))"
    using assms(1) Some by (auto simp: tables_ok_def vec_ok_def)
  define rest where "rest = filter (\<lambda>r. fst r \<noteq> ?i) rows"
  have r: "distinct (map fst rest)" "set rest = {x \<in> set (backfill d (t_memories t)). fst x \<noteq> ?i}" "?i \<notin> fst ` set rest"
    using v(3,4) by (auto simp: rest_def distinct_map_filter)
  have b: "set (backfill d (stored_rows codec m (t_memories t))) = set rest
      \<union> (if mn_embedding m \<noteq> [] \<and> length (mn_embedding m) = d then {(?i, normalize_vec (mn_embedding m))} else {})"
    using backfill_stored[OF k] r(2) by simp
  have e: "mn_embedding m \<noteq> [] \<Longrightarrow> length (mn_embedding m) = d"
    using assms(2) v(2) by (simp add: check_dim_def split: if_splits)
  show thesis
    using that[of "Some (d, if mn_embedding m = [] then rest else rest @ [(?i, normalize_vec (mn_embedding m))])"] v(1,2) r b e
    by (auto simp: refresh_vector_def delete_vector_def insert_vector_def t1_def vec_ok_def rest_def[symmetric])
qed

text \<open>Storing a valid memory commits: the tables it leaves, and that they are well formed.\<close>

lemma distinct_tags_replaced:
  "distinct (t_memory_tags t) \<Longrightarrow> distinct (t_memory_tags (replace_tags mid tags t))"
  by (auto simp: replace_tags_def distinct_map inj_on_def)

lemma store_memory_on_ok:
  assumes "tables_ok d t" "check_dim d m = Ok ()" "mn_salience m \<noteq> NaN" "mn_confidence m \<noteq> NaN"
  obtains v where "store_memory_on env codec d m t = Ok (record_operation_on env ''memory_upsert'' (Some (mn_id m)) None None
        (memory_upsert_payload m) (replace_tags (mn_id m) (mn_tags m)
          (t\<lparr>t_memories := stored_rows codec m (t_memories t), t_memory_vec := v\<rparr>)))"
    "tables_ok d (record_operation_on env ''memory_upsert'' (Some (mn_id m)) None None
        (memory_upsert_payload m) (replace_tags (mn_id m) (mn_tags m)
          (t\<lparr>t_memories := stored_rows codec m (t_memories t), t_memory_vec := v\<rparr>)))"
proof -
  obtain v where v: "refresh_vector d (mr_rowid (stored_row codec m (t_memories t))) (mn_embedding m)
      (t\<lparr>t_memories := stored_rows codec m (t_memories t)\<rparr>) = Ok (t\<lparr>t_memories := stored_rows codec m (t_memories t), t_memory_vec := v\<rparr>)"
    "vec_ok d v (stored_rows codec m (t_memories t))"
    using refresh_vector_ok[OF assms(1,2), of codec] by auto
  have k: "distinct (map mr_id (t_memories t))" "distinct (map mr_rowid (t_memories t))" "distinct (t_memory_tags t)"
    "t_stored_dim t = d" using assms(1) by (simp_all add: tables_ok_def)
  show thesis
  proof (rule that)
    show "store_memory_on env codec d m t = Ok (record_operation_on env ''memory_upsert'' (Some (mn_id m)) None None
        (memory_upsert_payload m) (replace_tags (mn_id m) (mn_tags m)
          (t\<lparr>t_memories := stored_rows codec m (t_memories t), t_memory_vec := v\<rparr>)))"
      using assms(3,4) v(1) row_of_stored[of m codec "t_memories t"]
      by (simp add: store_memory_on_def upsert_memory_row_def not_null_real_def)
    show "tables_ok d (record_operation_on env ''memory_upsert'' (Some (mn_id m)) None None
        (memory_upsert_payload m) (replace_tags (mn_id m) (mn_tags m)
          (t\<lparr>t_memories := stored_rows codec m (t_memories t), t_memory_vec := v\<rparr>)))"
      using v(2) memories.upsert_distinct[OF k(1)] stored_rows_rowids[OF k(2)]
        distinct_tags_replaced[of "t\<lparr>t_memories := stored_rows codec m (t_memories t), t_memory_vec := v\<rparr>" "mn_id m" "mn_tags m"] k(3,4)
      by (simp add: tables_ok_def record_operation_on_def Let_def replace_tags_def)
  qed
qed

section \<open>Every operation keeps the tables well formed\<close>

text \<open>The core of the tables is what the invariant is about; an operation that leaves it alone keeps it.\<close>

definition core :: "Tables \<Rightarrow> MemoryRow list \<times> (MemoryId \<times> string) list \<times> (nat \<times> (nat \<times> Embedding) list) option \<times> nat" where
  "core t = (t_memories t, t_memory_tags t, t_memory_vec t, t_stored_dim t)"

lemma tables_ok_core: "core t = core u \<Longrightarrow> tables_ok d t = tables_ok d u"
  by (simp add: core_def tables_ok_def)

lemma core_record_operation [simp]: "core (record_operation_on env op m s g p t) = core t"
  by (simp add: core_def record_operation_on_def Let_def)

lemma core_frames [simp]:
  "core (mark_claim_status_on env i st u t) = core t" "core (mark_relationship_status_on env i st u t) = core t"
  "core (delete_claim_row i t) = core t" "core (delete_entity_row i t) = core t" "core (delete_relationship_rows P t) = core t"
  by (simp_all add: mark_claim_status_on_def mark_relationship_status_on_def)
    (simp_all add: core_def delete_claim_row_def delete_entity_row_def delete_relationship_rows_def Let_def)

lemma core_outcomes:
  "add_edge_on env e t = Ok u \<Longrightarrow> core u = core t"
  "insert_memory_lifecycle_event_on env json ev t = Ok u \<Longrightarrow> core u = core t"
  "upsert_policy_run_on env json r t = Ok u \<Longrightarrow> core u = core t"
  "insert_policy_action_on json a t = Ok u \<Longrightarrow> core u = core t"
  by (auto simp: add_edge_on_def insert_memory_lifecycle_event_on_def upsert_policy_run_on_def insert_policy_action_on_def
      foreign_key_failed_def not_null_real_def outcome_simps split: if_splits)
    (simp_all add: core_def)

lemma for_each_inv:
  assumes "for_each f xs t = Ok u" "I t" "\<forall>x \<in> set xs. \<forall>s v. I s \<longrightarrow> f x s = Ok v \<longrightarrow> I v"
  shows "I u"
  using assms(1,2,3)
proof (induction xs arbitrary: t)
  case (Cons x xs)
  obtain s where s: "f x t = Ok s" "for_each f xs s = Ok u" using Cons.prems(1) by (cases "f x t") simp_all
  have "I s" using Cons.prems(3)[rule_format, OF list.set_intros(1) Cons.prems(2) s(1)] .
  moreover have "\<forall>y \<in> set xs. \<forall>s v. I s \<longrightarrow> f y s = Ok v \<longrightarrow> I v"
    using Cons.prems(3) unfolding list.set ball_simps(7) by (rule conjunct2)
  ultimately show ?case by (rule Cons.IH[OF s(2)])
qed simp

lemma fold_inv: "I t \<Longrightarrow> (\<And>x s. I s \<Longrightarrow> I (f x s)) \<Longrightarrow> I (fold f xs t)"
  by (induction xs arbitrary: t) auto

lemma for_each_core:
  assumes "for_each f xs t = Ok u" "\<And>x s v. f x s = Ok v \<Longrightarrow> core v = core s"
  shows "core u = core t"
  using for_each_inv[OF assms(1), of "\<lambda>s. core s = core t"] assms(2) by fastforce

lemma backfill_removed:
  assumes "distinct (map mr_id rows)" "distinct (map mr_rowid rows)" "r \<in> set rows"
  shows "set (backfill d (filter (\<lambda>q. mr_id q \<noteq> mr_id r) rows)) = {x \<in> set (backfill d rows). fst x \<noteq> mr_rowid r}"
proof -
  have "q \<in> set rows \<Longrightarrow> mr_id q \<noteq> mr_id r \<longleftrightarrow> mr_rowid q \<noteq> mr_rowid r" for q
    using assms by (auto simp: distinct_map inj_on_def)
  then show ?thesis unfolding set_backfill set_filter using vec_entries_fst by fastforce
qed

lemma delete_memory_on_ok:
  assumes "tables_ok d t"
  shows "tables_ok d (snd (delete_memory_on env mid t))"
proof (cases "row_of mr_id mid (t_memories t)")
  case (Some row)
  then have row: "row \<in> set (t_memories t)" "mr_id row = mid" using row_of_Some by fastforce+
  have k: "distinct (map mr_id (t_memories t))" "distinct (map mr_rowid (t_memories t))" using assms by (simp_all add: tables_ok_def)
  show ?thesis
    using assms Some backfill_removed[OF k row(1), of d] row(2)
    by (auto simp: delete_memory_on_def Let_def tables_ok_def vec_ok_def record_operation_on_def delete_memory_row_def
        delete_source_rows_def delete_vector_def distinct_map_filter split: option.splits)
qed (simp add: delete_memory_on_def assms)

lemma invalidate_memory_on_ok:
  assumes "tables_ok d t"
  shows "tables_ok d (invalidate_memory_on env mid u t)"
proof -
  let ?rows = "map (\<lambda>r. if mr_id r = mid then r\<lparr>mr_valid_until := Some (as_i64 u)\<rparr> else r) (t_memories t)"
  have "backfill d ?rows = backfill d (t_memories t)" 
    unfolding backfill_def map_map comp_def by (intro arg_cong[of _ _ concat] map_cong refl) (auto split: option.splits)
  moreover have "map mr_id ?rows = map mr_id (t_memories t)" "map mr_rowid ?rows = map mr_rowid (t_memories t)" by simp_all
  ultimately have "tables_ok d (t\<lparr>t_memories := ?rows\<rparr>)"
    using assms by (simp add: tables_ok_def vec_ok_def del: map_map cong: option.case_cong)
  then show ?thesis using assms by (simp add: invalidate_memory_on_def tables_ok_core[OF core_record_operation])
qed

text \<open>A store that succeeds had a vector of the right dimension: the vector table refuses any other.\<close>

lemma store_memory_on_inv:
  assumes "store_memory_on env codec d m t = Ok u" "tables_ok d t"
  shows "tables_ok d u"
proof -
  have n: "mn_salience m \<noteq> NaN" "mn_confidence m \<noteq> NaN"
    using assms(1) by (auto simp: store_memory_on_def upsert_memory_row_def not_null_real_def split: if_splits)
  have "check_dim d m = Ok ()"
  proof (rule ccontr)
    assume "check_dim d m \<noteq> Ok ()"
    then have e: "mn_embedding m \<noteq> []" "0 < d" "length (mn_embedding m) \<noteq> d" by (auto simp: check_dim_def split: if_splits)
    moreover obtain rows where "t_memory_vec t = Some (d, rows)"
      using assms(2) e(2) by (auto simp: tables_ok_def vec_ok_def split: option.splits)
    ultimately show False
      using assms(1) n row_of_stored[of m codec "t_memories t"]
      by (simp add: store_memory_on_def upsert_memory_row_def not_null_real_def refresh_vector_def delete_vector_def insert_vector_def)
  qed
  from store_memory_on_ok[OF assms(2) this n, of env codec] show ?thesis using assms(1) by auto
qed

lemma transact_unit_ok:
  assumes "backend_ok b" "\<And>u. f (bk_tables b) = Ok u \<Longrightarrow> tables_ok (bk_dim b) u"
  shows "backend_ok (snd (transact_unit b f))"
  using assms by (cases "f (bk_tables b)") (auto simp: transact_unit_def transact_def backend_ok_def)

lemma store_memory_inv: "backend_ok b \<Longrightarrow> backend_ok (snd (store_memory env codec b m))"
  unfolding store_memory_def
  by (rule transact_unit_ok) (auto simp: backend_ok_def outcome_simps intro: store_memory_on_inv)

lemma store_memory_batch_inv: "backend_ok b \<Longrightarrow> backend_ok (snd (store_memory_batch env codec b ms))"
  unfolding store_memory_batch_def
proof (rule transact_unit_ok)
  fix u
  assume b: "backend_ok b" and "bindO (for_each (\<lambda>m _. check_dim (bk_dim b) m) ms ())
      (\<lambda>_. for_each (store_memory_on env codec (bk_dim b)) ms (bk_tables b)) = Ok u"
  then have f: "for_each (store_memory_on env codec (bk_dim b)) ms (bk_tables b) = Ok u" by (auto simp: outcome_simps)
  show "tables_ok (bk_dim b) u"
    by (rule for_each_inv[OF f, where I = "tables_ok (bk_dim b)"]) (use b in \<open>simp add: backend_ok_def\<close>, blast intro: store_memory_on_inv)
qed

lemma store_edge_inv: "backend_ok b \<Longrightarrow> backend_ok (snd (store_edge env b e))"
  unfolding store_edge_def
  by (rule transact_unit_ok) (auto simp: backend_ok_def dest: core_outcomes(1) tables_ok_core)

lemma delete_memory_inv: "backend_ok b \<Longrightarrow> backend_ok (snd (delete_memory env b mid))"
  using delete_memory_on_ok[of "bk_dim b" "bk_tables b" env mid]
  by (auto simp: delete_memory_def backend_ok_def split: prod.splits)

lemma delete_edges_inv: "backend_ok b \<Longrightarrow> backend_ok (delete_edges_for env b mid)"
  by (simp add: delete_edges_for_def Let_def backend_ok_def tables_ok_core[OF core_record_operation])
    (simp add: tables_ok_def)

lemma ensure_vector_index_inv: "backend_ok b \<Longrightarrow> backend_ok (ensure_vector_index env b d)"
  using backfill_distinct[of "t_memories (bk_tables b)" d]
  by (simp add: ensure_vector_index_def Let_def backend_ok_def tables_ok_core[OF core_record_operation])
    (auto simp: tables_ok_def vec_ok_def)

lemma record_lifecycle_event_inv: "backend_ok b \<Longrightarrow> backend_ok (snd (record_lifecycle_event env json b e))"
  unfolding record_lifecycle_event_def
  by (rule transact_unit_ok) (auto simp: backend_ok_def dest: core_outcomes(2) tables_ok_core)

lemma for_each_keeps_core:
  "for_each (add_edge_on env) es t = Ok u \<Longrightarrow> core u = core t"
  "for_each (insert_memory_lifecycle_event_on env json) evs t = Ok u \<Longrightarrow> core u = core t"
  "for_each (insert_policy_action_on json) acts t = Ok u \<Longrightarrow> core u = core t"
  using core_outcomes by (blast intro: for_each_core)+

lemma fold_keeps_core: "(\<And>x s. core (f x s) = core s) \<Longrightarrow> core (fold f xs t) = core t"
  by (induction xs arbitrary: t) auto

lemma policy_start_ok:
  assumes "backend_ok b" "upsert_policy_run_on env json r (bk_tables b) = Ok t1" "for_each (insert_policy_action_on json) as t1 = Ok t2"
  shows "tables_ok (bk_dim b) t2"
  using assms core_outcomes(3)[OF assms(2)] for_each_keeps_core(3)[OF assms(3)] tables_ok_core unfolding backend_ok_def by metis

lemma apply_correction_policy_inv:
  assumes b: "backend_ok b"
  shows "backend_ok (snd (apply_correction_policy env json b mu))"
  unfolding apply_correction_policy_def
proof (rule transact_unit_ok[OF b])
  fix u
  let ?inv = "fold (\<lambda>(mid, until). invalidate_memory_on env mid until) (cm_memory_invalidations mu)"
  let ?marked = "\<lambda>t. fold (\<lambda>i. mark_relationship_status_on env i ''corrected'' (cm_applied_at mu)) (cm_corrected_relationship_ids mu)
         (fold (\<lambda>i. mark_claim_status_on env i ''corrected'' (cm_applied_at mu)) (cm_corrected_claim_ids mu) (?inv t))"
  assume "bindO (upsert_policy_run_on env json (cm_run mu) (bk_tables b)) (\<lambda>t.
     bindO (for_each (insert_policy_action_on json) (cm_actions mu) t) (\<lambda>t.
     bindO (for_each (add_edge_on env) (cm_edges mu) (?marked t))
     (for_each (insert_memory_lifecycle_event_on env json) (cm_lifecycle_events mu)))) = Ok u"
  then obtain t1 t2 t3 where s: "upsert_policy_run_on env json (cm_run mu) (bk_tables b) = Ok t1"
    "for_each (insert_policy_action_on json) (cm_actions mu) t1 = Ok t2"
    "for_each (add_edge_on env) (cm_edges mu) (?marked t2) = Ok t3"
    "for_each (insert_memory_lifecycle_event_on env json) (cm_lifecycle_events mu) t3 = Ok u"
    unfolding bindO_eq_Ok by blast
  have "tables_ok (bk_dim b) (?inv t2)"
    using policy_start_ok[OF b s(1,2)] by (rule fold_inv) (auto intro: invalidate_memory_on_ok)
  moreover have "core u = core (?inv t2)"
    using for_each_keeps_core(2)[OF s(4)] for_each_keeps_core(1)[OF s(3)] by (simp add: fold_keeps_core)
  ultimately show "tables_ok (bk_dim b) u" using tables_ok_core by blast
qed

lemma apply_forget_policy_inv:
  assumes b: "backend_ok b"
  shows "backend_ok (snd (apply_forget_policy env json b mu))"
  unfolding apply_forget_policy_def
proof (rule transact_unit_ok[OF b])
  fix u
  let ?done = "\<lambda>t. record_operation_on env ''forget_policy_apply'' None None None
       [(''run_id'', F_Str (pr_run_id (fm_run mu))), (''hard_delete'', F_Bool (fm_hard_delete mu)),
        (''memory_count'', F_Nat (length (fm_memory_ids mu))), (''claim_count'', F_Nat (length (fm_claim_ids mu))),
        (''relationship_count'', F_Nat (length (fm_relationship_ids mu))), (''entity_count'', F_Nat (length (fm_entity_ids mu)))]
       (if fm_hard_delete mu then forget_hard env mu t else forget_soft env mu t)"
  assume "bindO (upsert_policy_run_on env json (fm_run mu) (bk_tables b)) (\<lambda>t.
     bindO (for_each (insert_policy_action_on json) (fm_actions mu) t) (\<lambda>t.
     bindO (for_each (insert_memory_lifecycle_event_on env json) (fm_lifecycle_events mu) t) (\<lambda>t. Ok (?done t)))) = Ok u"
  then obtain t1 t2 t3 where s: "upsert_policy_run_on env json (fm_run mu) (bk_tables b) = Ok t1"
    "for_each (insert_policy_action_on json) (fm_actions mu) t1 = Ok t2"
    "for_each (insert_memory_lifecycle_event_on env json) (fm_lifecycle_events mu) t2 = Ok t3" "u = ?done t3"
    unfolding bindO_eq_Ok by blast
  have t3: "tables_ok (bk_dim b) t3"
    using policy_start_ok[OF b s(1,2)] for_each_keeps_core(2)[OF s(3)] tables_ok_core by metis
  have soft: "tables_ok (bk_dim b) (forget_soft env mu t3)"
  proof -
    have "tables_ok (bk_dim b) (fold (\<lambda>mid. invalidate_memory_on env mid (fm_applied_at mu)) (fm_memory_ids mu) t3)"
      using t3 by (rule fold_inv) (rule invalidate_memory_on_ok)
    then show ?thesis by (simp add: forget_soft_def fold_keeps_core tables_ok_core[OF fold_keeps_core])
  qed
  have hard: "tables_ok (bk_dim b) (forget_hard env mu t3)"
  proof -
    have "tables_ok (bk_dim b) (fold delete_claim_row (fm_claim_ids mu)
        (fold (\<lambda>i. delete_relationship_rows (\<lambda>r. rl_relationship_id r = i)) (fm_relationship_ids mu) t3))"
      using t3 by (simp add: tables_ok_core[OF fold_keeps_core])
    then have "tables_ok (bk_dim b) (fold (\<lambda>mid t. snd (delete_memory_on env mid t)) (fm_memory_ids mu) (fold delete_claim_row (fm_claim_ids mu)
        (fold (\<lambda>i. delete_relationship_rows (\<lambda>r. rl_relationship_id r = i)) (fm_relationship_ids mu) t3)))"
      by (rule fold_inv) (rule delete_memory_on_ok)
    then show ?thesis by (simp add: forget_hard_def tables_ok_core[OF fold_keeps_core])
  qed
  show "tables_ok (bk_dim b) u" using soft hard by (simp add: s(4) tables_ok_core[OF core_record_operation])
qed

lemma apply_lifecycle_policy_inv:
  assumes b: "backend_ok b"
  shows "backend_ok (snd (apply_lifecycle_policy env codec json b mu))"
  unfolding apply_lifecycle_policy_def
proof (rule transact_unit_ok[OF b])
  fix u
  assume "bindO (upsert_policy_run_on env json (lm_run mu) (bk_tables b)) (\<lambda>t.
     bindO (for_each (insert_policy_action_on json) (lm_actions mu) t) (\<lambda>t.
     bindO (for_each (store_memory_on env codec (bk_dim b)) (lm_memory_updates mu) t)
       (for_each (insert_memory_lifecycle_event_on env json) (lm_lifecycle_events mu)))) = Ok u"
  then obtain t1 t2 t3 where s: "upsert_policy_run_on env json (lm_run mu) (bk_tables b) = Ok t1"
    "for_each (insert_policy_action_on json) (lm_actions mu) t1 = Ok t2"
    "for_each (store_memory_on env codec (bk_dim b)) (lm_memory_updates mu) t2 = Ok t3"
    "for_each (insert_memory_lifecycle_event_on env json) (lm_lifecycle_events mu) t3 = Ok u"
    unfolding bindO_eq_Ok by blast
  have "tables_ok (bk_dim b) t3"
    by (rule for_each_inv[OF s(3), where I = "tables_ok (bk_dim b)"])
      (rule policy_start_ok[OF b s(1,2)], blast intro: store_memory_on_inv)
  then show "tables_ok (bk_dim b) u" using for_each_keeps_core(2)[OF s(4)] tables_ok_core by metis
qed

lemma backend_open_ok: "backend_ok (backend_open config d None)"
  by (simp add: backend_open_def open_tables_def Let_def backend_ok_def tables_ok_def vec_ok_def init_tables_def backfill_def)

text \<open>Any sequence of operations, those that fail included.\<close>

datatype StoreOp =
  StoreMemory MemoryNode | StoreBatch "MemoryNode list" | DeleteMemory MemoryId | EnsureIndex nat | StoreEdge MemoryEdge
| DeleteEdges MemoryId | LifecycleEvent MemoryLifecycleEvent | CorrectPolicy CorrectionPolicyMutation
| ForgetPolicy ForgetPolicyMutation | LifecyclePolicy LifecyclePolicyMutation

fun store_step :: "Env \<Rightarrow> AttrCodec \<Rightarrow> JsonCheck \<Rightarrow> StoreOp \<Rightarrow> Backend \<Rightarrow> Backend" where
  "store_step env codec json (StoreMemory m) b = snd (store_memory env codec b m)"
| "store_step env codec json (StoreBatch ms) b = snd (store_memory_batch env codec b ms)"
| "store_step env codec json (DeleteMemory mid) b = snd (delete_memory env b mid)"
| "store_step env codec json (EnsureIndex d) b = ensure_vector_index env b d"
| "store_step env codec json (StoreEdge e) b = snd (store_edge env b e)"
| "store_step env codec json (DeleteEdges mid) b = delete_edges_for env b mid"
| "store_step env codec json (LifecycleEvent e) b = snd (record_lifecycle_event env json b e)"
| "store_step env codec json (CorrectPolicy mu) b = snd (apply_correction_policy env json b mu)"
| "store_step env codec json (ForgetPolicy mu) b = snd (apply_forget_policy env json b mu)"
| "store_step env codec json (LifecyclePolicy mu) b = snd (apply_lifecycle_policy env codec json b mu)"

lemma store_step_inv: "backend_ok b \<Longrightarrow> backend_ok (store_step env codec json op b)"
  by (cases op) (simp_all add: store_memory_inv store_memory_batch_inv delete_memory_inv ensure_vector_index_inv store_edge_inv
      delete_edges_inv record_lifecycle_event_inv apply_correction_policy_inv apply_forget_policy_inv apply_lifecycle_policy_inv)

text \<open>C17: after any sequence of stores, batches, deletions, index creations, edge writes, lifecycle events and policy
  mutations on a new database, failed ones included, no two memories share an identifier or a row
  number, and the vector table holds exactly the normalised vectors of the memories that have the dimension of the index,
  one for each, so that a search sees every such memory and no stale vector.
\<close>

theorem vector_index_mirrors_memories:
  "backend_ok (fold (store_step env codec json) ops (backend_open config d None))"
  by (rule fold_inv[where I = backend_ok]) (simp_all add: backend_open_ok store_step_inv)

section \<open>Reading back\<close>

lemma parse_memory_type_str [simp]: "parse_memory_type (memory_type_str x) = x"
  by (cases x) (simp_all add: parse_memory_type_def)

lemma parse_edge_type_str [simp]: "edge_type_of_str (edge_type_str x) = x"
  by (cases x) (simp_all add: edge_type_of_str_def)

lemma tags_of_replaced: "tags_of (replace_tags mid tags t) i = (if i = mid then sort (remdups tags) else tags_of t i)"
  by (auto simp: tags_of_def replace_tags_def filter_map comp_def filter_empty_conv intro!: arg_cong[of _ _ "\<lambda>ps. sort (map snd ps)"] filter_cong)

lemma tags_of_frame: "t_memory_tags u = t_memory_tags t \<Longrightarrow> tags_of u i = tags_of t i"
  by (simp add: tags_of_def)

text \<open>A node whose fields survive the columns: numbers in their ranges, attributes that the JSON text can carry.\<close>

definition storable :: "AttrCodec \<Rightarrow> MemoryNode \<Rightarrow> bool" where
  "storable codec m \<longleftrightarrow> mn_created_at m < u64_mod \<and> mn_accessed_at m < u64_mod \<and> mn_access_count m < u32_mod
     \<and> mn_salience m \<noteq> NaN \<and> f64_as_f32 (mn_salience m) = mn_salience m
     \<and> mn_confidence m \<noteq> NaN \<and> f64_as_f32 (mn_confidence m) = mn_confidence m
     \<and> attrs_from_json codec (attrs_to_json codec (mn_attributes m)) = Some (mn_attributes m)
     \<and> (\<forall>x. mn_valid_from m = Some x \<longrightarrow> x < u64_mod) \<and> (\<forall>x. mn_valid_until m = Some x \<longrightarrow> x < u64_mod)"

lemma node_of_stored_row:
  assumes "storable codec m"
  shows "node_of_row codec t (stored_row codec m rows) = m\<lparr>mn_tags := tags_of t (mn_id m),
    mn_created_at := (case row_of mr_id (mn_id m) rows of None \<Rightarrow> mn_created_at m | Some q \<Rightarrow> as_u64 (mr_created_at q))\<rparr>"
  using assms
  by (cases m, cases "mn_valid_from m"; cases "mn_valid_until m")
    (auto simp: node_of_row_def stored_row_def memory_row_def merge_memory_def storable_def split: option.splits dest: row_of_Some)

text \<open>C19: storing a memory whose vector has the dimension of the index (or any vector while there is none) succeeds, and reading
  it back gives the memory itself with its tags sorted and without duplicates; but the time of creation of a memory stored
  before under the identifier stays. No other memory changes. The memory is \<open>storable\<close>: its salience and confidence are
  single-precision numbers that are not NaN (SQLite binds NaN as NULL, and the column is NOT NULL, so such a store fails), its
  attributes come back from their JSON text, and its counters and times are in the ranges of their Rust types.\<close>

theorem store_get_roundtrip:
  assumes "backend_ok b" "check_dim (bk_dim b) m = Ok ()" "storable codec m" "store_memory env codec b m = (r, b')"
  shows "r = Ok ()
    \<and> get_memory codec b' (mn_id m) = Some (m\<lparr>mn_tags := sort (remdups (mn_tags m)), mn_created_at :=
        (case get_memory codec b (mn_id m) of None \<Rightarrow> mn_created_at m | Some q \<Rightarrow> mn_created_at q)\<rparr>)
    \<and> (\<forall>i. i \<noteq> mn_id m \<longrightarrow> get_memory codec b' i = get_memory codec b i)"
proof -
  let ?t = "bk_tables b"
  obtain v where v: "store_memory_on env codec (bk_dim b) m ?t = Ok (record_operation_on env ''memory_upsert'' (Some (mn_id m)) None None
        (memory_upsert_payload m) (replace_tags (mn_id m) (mn_tags m)
          (?t\<lparr>t_memories := stored_rows codec m (t_memories ?t), t_memory_vec := v\<rparr>)))" (is "_ = Ok ?u")
    using store_memory_on_ok[of "bk_dim b" ?t m env codec thesis] assms(1-3) by (simp add: backend_ok_def storable_def)
  have s: "store_memory env codec b m = (Ok (), b\<lparr>bk_tables := ?u\<rparr>)"
    using v assms(2) by (simp add: store_memory_def transact_unit_def transact_def)
  have b': "r = Ok ()" "b' = b\<lparr>bk_tables := ?u\<rparr>" using assms(4) s by simp_all
  have m: "t_memories ?u = stored_rows codec m (t_memories ?t)" by (simp add: record_operation_on_def Let_def replace_tags_def)
  have tg: "tags_of ?u i = (if i = mn_id m then sort (remdups (mn_tags m)) else tags_of ?t i)" for i
    using tags_of_replaced[of "mn_id m" "mn_tags m" "?t\<lparr>t_memories := stored_rows codec m (t_memories ?t), t_memory_vec := v\<rparr>" i]
    by (simp add: tags_of_def record_operation_on_def Let_def)
  have n: "node_of_row codec ?u q = node_of_row codec ?t q" if "mr_id q \<noteq> mn_id m" for q
    using that by (simp add: node_of_row_def tg)
  have "get_memory codec b' (mn_id m) = Some (node_of_row codec ?u (stored_row codec m (t_memories ?t)))"
    by (simp add: b' get_memory_def m row_of_stored)
  moreover have "(case get_memory codec b (mn_id m) of None \<Rightarrow> mn_created_at m | Some q \<Rightarrow> mn_created_at q)
      = (case row_of mr_id (mn_id m) (t_memories ?t) of None \<Rightarrow> mn_created_at m | Some q \<Rightarrow> as_u64 (mr_created_at q))"
    by (simp add: get_memory_def node_of_row_def split: option.split)
  moreover have "get_memory codec b' i = get_memory codec b i" if "i \<noteq> mn_id m" for i
  proof (cases "row_of mr_id i (t_memories ?t)")
    case None
    then show ?thesis using that by (simp add: b' get_memory_def m memories.row_of_upsert)
  next
    case (Some q)
    then have "mr_id q \<noteq> mn_id m" using that row_of_Some by fastforce
    then show ?thesis using that Some n by (simp add: b' get_memory_def m memories.row_of_upsert)
  qed
  ultimately show ?thesis using b' node_of_stored_row[OF assms(3), of ?u "t_memories ?t"] tg[of "mn_id m"] by simp
qed

definition sample_codec :: AttrCodec where
  "sample_codec = \<lparr> attrs_to_json = (\<lambda>_. ''{}''), attrs_from_json = (\<lambda>_. Some Map.empty) \<rparr>"

definition sample_env :: Env where
  "sample_env = \<lparr> env_uuid = show_nat, env_clock = (\<lambda>n. n) \<rparr>"

definition sample_memory :: MemoryNode where
  "sample_memory = (memory_node_new (MemoryId 1) 5 (AgentId 2) Semantic ''tea'' [Fin 1, Fin 0])\<lparr>mn_tags := [''b'', ''a'', ''b'']\<rparr>"

theorem store_get_roundtrip_witness:
  "get_memory sample_codec (snd (store_memory sample_env sample_codec (backend_open retrieval_config_default 2 None) sample_memory)) (MemoryId 1)
   = Some (sample_memory\<lparr>mn_tags := [''a'', ''b'']\<rparr>)"
proof -
  have f: "f32_of 1 = Fin 1" by code_simp
  have c: "check_dim (bk_dim (backend_open retrieval_config_default 2 None)) sample_memory = Ok ()"
    by (simp add: check_dim_def backend_open_def open_tables_def Let_def init_tables_def sample_memory_def memory_node_new_def)
  have st: "storable sample_codec sample_memory"
    by (simp add: storable_def sample_memory_def sample_codec_def memory_node_new_def f)
  have g: "get_memory sample_codec (backend_open retrieval_config_default 2 None) (MemoryId 1) = None"
    by (simp add: get_memory_def backend_open_def open_tables_def Let_def init_tables_def row_of_def)
  show ?thesis
    using store_get_roundtrip[OF backend_open_ok c st surjective_pairing] g
    by (simp add: sample_memory_def memory_node_new_def insort_key.simps less_eq_list_code)
qed

definition stored_edge_sample :: "MemoryId \<Rightarrow> MemoryId \<Rightarrow> MemoryEdge" where
  "stored_edge_sample s t = \<lparr> me_source = s, me_target = t, me_edge_type = Supports, me_weight = Fin 1, me_created_at = 0,
     me_valid_from = None, me_valid_until = None, me_label = None \<rparr>"

definition sample_linked :: Backend where
  "sample_linked = (backend_open retrieval_config_default 2 None)\<lparr>bk_tables := (init_tables 2)\<lparr>
     t_memories := [memory_row sample_codec 1 sample_memory], t_edges := [stored_edge_sample (MemoryId 1) (MemoryId 2)]\<rparr>\<rparr>"

text \<open>C21: deleting a memory reports whether it was there; afterwards it is gone, if it was there with every edge, source, entity link and
  piece of evidence that refers to it, and every other memory reads as before.
\<close>

theorem delete_memory_complete:
  assumes "delete_memory env b mid = (found, b')"
  shows "found = (get_memory codec b mid \<noteq> None) \<and> get_memory codec b' mid = None
    \<and> (\<forall>i. i \<noteq> mid \<longrightarrow> get_memory codec b' i = get_memory codec b i)
    \<and> (found \<longrightarrow> (\<forall>e \<in> set (t_edges (bk_tables b')). me_source e \<noteq> mid \<and> me_target e \<noteq> mid)
        \<and> mid \<notin> ms_memory_id ` set (t_memory_sources (bk_tables b')) \<and> mid \<notin> ml_memory_id ` set (t_memory_entities (bk_tables b'))
        \<and> mid \<notin> cx_memory_id ` set (t_claim_evidence (bk_tables b')) \<and> mid \<notin> rx_memory_id ` set (t_relationship_evidence (bk_tables b')))"
proof (cases "row_of mr_id mid (t_memories (bk_tables b))")
  case None
  then show ?thesis using assms by (auto simp: delete_memory_def delete_memory_on_def get_memory_def)
next
  case (Some row)
  let ?u = "snd (delete_memory_on env mid (bk_tables b))"
  have b': "found" "b' = b\<lparr>bk_tables := ?u\<rparr>" using assms Some by (simp_all add: delete_memory_def delete_memory_on_def Let_def)
  have m: "t_memories ?u = filter (\<lambda>r. mr_id r \<noteq> mid) (t_memories (bk_tables b))"
    "t_memory_tags ?u = filter (\<lambda>p. fst p \<noteq> mid) (t_memory_tags (bk_tables b))"
    "t_edges ?u = filter (\<lambda>e. \<not> (me_source e = mid \<or> me_target e = mid)) (t_edges (bk_tables b))"
    using Some by (simp_all add: delete_memory_on_def Let_def record_operation_on_def delete_memory_row_def delete_source_rows_def delete_vector_def)
  have r: "row_of mr_id i (filter (\<lambda>r. mr_id r \<noteq> mid) rows) = (if i = mid then None else row_of mr_id i rows)" for i rows
    by (induction rows) (auto simp: row_of_def)
  have "tags_of ?u i = tags_of (bk_tables b) i" if "i \<noteq> mid" for i
    unfolding tags_of_def m(2) filter_filter using that by (intro arg_cong[of _ _ "\<lambda>ps. sort (map snd ps)"] filter_cong) auto
  then have n: "node_of_row codec ?u q = node_of_row codec (bk_tables b) q" if "mr_id q \<noteq> mid" for q
    using that by (simp add: node_of_row_def)
  have o: "get_memory codec b' i = get_memory codec b i" if "i \<noteq> mid" for i
    using that n row_of_Some[of mr_id i "t_memories (bk_tables b)"]
    by (cases "row_of mr_id i (t_memories (bk_tables b))") (auto simp: b' get_memory_def m r)
  have "mid \<notin> ms_memory_id ` set (t_memory_sources ?u)" "mid \<notin> ml_memory_id ` set (t_memory_entities ?u)"
    "mid \<notin> cx_memory_id ` set (t_claim_evidence ?u)" "mid \<notin> rx_memory_id ` set (t_relationship_evidence ?u)"
    using Some by (auto simp: delete_memory_on_def Let_def record_operation_on_def delete_memory_row_def delete_source_rows_def delete_vector_def)
  then show ?thesis using Some o b' m by (auto simp: get_memory_def r)
qed

theorem delete_memory_complete_witness:
  "fst (delete_memory sample_env sample_linked (MemoryId 1))
   \<and> get_memory sample_codec (snd (delete_memory sample_env sample_linked (MemoryId 1))) (MemoryId 1) = None
   \<and> MemoryId 1 \<notin> me_source ` set (t_edges (bk_tables (snd (delete_memory sample_env sample_linked (MemoryId 1)))))
   \<and> t_edges (bk_tables sample_linked) \<noteq> []"
proof -
  have "get_memory sample_codec sample_linked (MemoryId 1) \<noteq> None" "t_edges (bk_tables sample_linked) \<noteq> []"
    by (simp_all add: sample_linked_def get_memory_def row_of_def memory_row_def sample_memory_def memory_node_new_def)
  then show ?thesis
    using delete_memory_complete[OF surjective_pairing, where codec = sample_codec and b = sample_linked and mid = "MemoryId 1" and env = sample_env]
    by auto
qed

section \<open>The recursive query\<close>

definition edge_pairs :: "MemoryEdge list \<Rightarrow> (MemoryId \<times> MemoryId) set" where
  "edge_pairs edges = (\<lambda>e. (me_source e, me_target e)) ` set edges"

lemma reach_rows_hops: "set (reach_rows edges n frontier) = {v. \<exists>u \<in> set frontier. \<exists>k \<le> n. (u, v) \<in> edge_pairs edges ^^ k}"
proof (induction n arbitrary: frontier)
  case (Suc n)
  let ?E = "edge_pairs edges"
  have "set (concat (map (\<lambda>v. map me_target (filter (\<lambda>e. me_source e = v) edges)) frontier)) = ?E `` set frontier"
    by (auto simp: edge_pairs_def Image_iff image_iff)
  then have "set (reach_rows edges (Suc n) frontier) = set frontier \<union> {v. \<exists>u \<in> ?E `` set frontier. \<exists>k \<le> n. (u, v) \<in> ?E ^^ k}"
    using Suc.IH by simp
  also have "\<dots> = {v. \<exists>u \<in> set frontier. \<exists>k \<le> Suc n. (u, v) \<in> ?E ^^ k}" (is "?L = ?R")
  proof (intro set_eqI iffI)
    fix v
    assume "v \<in> ?L"
    then consider "v \<in> set frontier" | u w k where "u \<in> set frontier" "(u, w) \<in> ?E" "k \<le> n" "(w, v) \<in> ?E ^^ k" by blast
    then show "v \<in> ?R"
    proof cases
      case 1
      then show ?thesis by (auto intro!: bexI[of _ v] exI[of _ 0])
    next
      case 2
      then show ?thesis using relpow_Suc_I2[of u w ?E v k] by (auto intro!: bexI[of _ u] exI[of _ "Suc k"])
    qed
  next
    fix v
    assume "v \<in> ?R"
    then obtain u k where k: "u \<in> set frontier" "k \<le> Suc n" "(u, v) \<in> ?E ^^ k" by blast
    show "v \<in> ?L"
    proof (cases k)
      case (Suc j)
      then obtain w where "(u, w) \<in> ?E" "(w, v) \<in> ?E ^^ j" using k(3) relpow_Suc_D2[of u v j ?E] by blast
      then show ?thesis using k Suc by auto
    qed (use k in auto)
  qed
  finally show ?case .
qed auto

text \<open>C23: for fewer than 500 roots, the recursive query over the edges returns exactly the memories that a path of at most
  \<open>max_depth\<close> outgoing edges reaches from a root, along edges of the wanted types, or of all types when no type is given or
  the list of types is empty. This holds for depths below \<open>2\<^sup>63\<close>; a larger depth is bound as a negative number and only the
  roots come back. From 500 roots on the statement has more terms than SQLite allows by default and fails, which is outside
  the model.\<close>

theorem sql_subgraph_hops:
  assumes "length roots < 500" "max_depth < 18446744073709551616"
  shows "sql_subgraph b roots max_depth edge_types =
    (if max_depth < 9223372036854775808
     then {v. \<exists>u \<in> set roots. \<exists>k \<le> max_depth. (u, v) \<in> {(me_source e, me_target e) | e. e \<in> set (t_edges (bk_tables b))
        \<and> (edge_types = None \<or> edge_types = Some [] \<or> (\<exists>ts. edge_types = Some ts \<and> me_edge_type e \<in> set ts))} ^^ k}
     else set roots)"
proof -
  have "edge_pairs (filter (sql_edge_type_ok edge_types) (t_edges (bk_tables b))) = {(me_source e, me_target e) | e. e \<in> set (t_edges (bk_tables b))
      \<and> (edge_types = None \<or> edge_types = Some [] \<or> (\<exists>ts. edge_types = Some ts \<and> me_edge_type e \<in> set ts))}"
    by (auto simp: edge_pairs_def sql_edge_type_ok_def split: option.splits)
  moreover have "nat (as_i64 max_depth) = (if max_depth < 9223372036854775808 then max_depth else 0)"
    using assms(2) by (simp add: as_i64_def)
  ultimately show ?thesis by (simp add: sql_subgraph_def reach_rows_hops)
qed

theorem sql_subgraph_hops_witness:
  "MemoryId 2 \<in> sql_subgraph sample_linked [MemoryId 1] 1 (Some [Supports])"
proof -
  have "(MemoryId 1, MemoryId 2) \<in> {(me_source e, me_target e) | e. e \<in> set (t_edges (bk_tables sample_linked))
      \<and> (Some [Supports] = None \<or> Some [Supports] = Some [] \<or> (\<exists>ts. Some [Supports] = Some ts \<and> me_edge_type e \<in> set ts))} ^^ 1"
    by (simp add: sample_linked_def stored_edge_sample_def)
  then show ?thesis
    using sql_subgraph_hops[of "[MemoryId 1]" 1 sample_linked "Some [Supports]"] by (auto intro!: exI[of _ 1])
qed

text \<open>With the largest depth only the roots are found.\<close>

lemma unbounded_depth_finds_roots: "sql_subgraph b roots 18446744073709551615 edge_types = set roots"
  by (simp add: sql_subgraph_def as_i64_def)

text \<open>The query keeps a row for every path: two edges from a memory to itself double the rows at every level.\<close>

lemma reach_rows_explode:
  "length (reach_rows [e, e] n (replicate k v)) + k = k * 2 ^ Suc n" if "me_source e = v" "me_target e = v" for e v
proof (induction n arbitrary: k)
  case (Suc n)
  have "concat (map (\<lambda>v. map me_target (filter (\<lambda>f. me_source f = v) [e, e])) (replicate k v)) = replicate (2 * k) v"
    using that by (induction k) simp_all
  then show ?case using Suc.IH[of "2 * k"] by (simp add: algebra_simps)
qed simp

text \<open>
  The update of a deferred index: a database without a dimension that is opened again with one gets an empty vector table, and
  the later call that should fill it returns at once because the dimension is already the wanted one.
\<close>

lemma reopen_skips_backfill:
  assumes "t_stored_dim t = 0" "t_memory_vec t = None" "0 < d"
  shows "ensure_vector_index env (backend_open config d (Some t)) d = backend_open config d (Some t)
    \<and> t_memory_vec (bk_tables (backend_open config d (Some t))) = Some (d, [])"
  using assms by (simp add: backend_open_def open_tables_def Let_def ensure_vector_index_def)

end
