(* ===== verification/Sqlite_Search.thy ===== *)
theory Sqlite_Search
  imports Sqlite_Store "HOL-Library.AList"
begin

text \<open>
  Searching the SQLite store (\<open>mentedb-sqlite/src/lib.rs\<close>): the filters by tags and by time, the nearest vectors, and the fusion
  of their ranks with those of the text index. The nearest-neighbour search of the vector extension and the text index are
  arguments of the definitions, as is the order in which a hash map is traversed.
\<close>

section \<open>The engine\<close>

text \<open>
  \<open>eng_knn\<close> returns row numbers with their distances, \<open>eng_fts\<close> row numbers by relevance or nothing on a malformed query, both
  with a limit; \<open>eng_order\<close> is the order of a hash map's entries.
\<close>

record Engine =
  eng_knn :: "(nat \<times> Embedding) list \<Rightarrow> Embedding \<Rightarrow> int \<Rightarrow> (nat \<times> f64) list"
  eng_fts :: "(nat \<times> string) list \<Rightarrow> string \<Rightarrow> int \<Rightarrow> nat list option"
  eng_order :: "(MemoryId \<times> f32) list \<Rightarrow> (MemoryId \<times> f32) list"

definition engine_ok :: "Engine \<Rightarrow> bool" where
  "engine_ok eng \<longleftrightarrow> (\<forall>xs. mset (eng_order eng xs) = mset xs)"

definition knn :: "Engine \<Rightarrow> Backend \<Rightarrow> Embedding \<Rightarrow> nat \<Rightarrow> (MemoryId \<times> f32) list" where
  "knn eng b query k = (if k = 0 \<or> query = [] \<or> bk_dim b = 0 then []
     else case t_memory_vec (bk_tables b) of None \<Rightarrow> []
       | Some (d, rows) \<Rightarrow> List.map_filter (\<lambda>(rowid, dist).
           map_option (\<lambda>r. (mr_id r, l2_distance_to_similarity dist)) (row_of mr_rowid rowid (t_memories (bk_tables b))))
           (eng_knn eng rows (normalize_vec query) (as_i64 k)))"

definition fts_search :: "Engine \<Rightarrow> Backend \<Rightarrow> string \<Rightarrow> nat \<Rightarrow> MemoryId list" where
  "fts_search eng b query_text k =
     (case eng_fts eng (map (\<lambda>r. (mr_rowid r, mr_content r)) (t_memories (bk_tables b))) query_text (as_i64 k) of
        None \<Rightarrow> []
      | Some rowids \<Rightarrow> List.map_filter (\<lambda>rowid. map_option mr_id (row_of mr_rowid rowid (t_memories (bk_tables b)))) rowids)"

definition salience_of :: "Backend \<Rightarrow> MemoryId \<Rightarrow> f32 option" where
  "salience_of b mid = map_option (\<lambda>r. f64_as_f32 (mr_salience r)) (row_of mr_id mid (t_memories (bk_tables b)))"

section \<open>Filters\<close>

text \<open>All tags: the rows of a memory with a wanted tag are grouped, and the group must have as many distinct tags as the query names.\<close>

definition ids_matching_tags :: "Backend \<Rightarrow> string list \<Rightarrow> bool \<Rightarrow> MemoryId set" where
  "ids_matching_tags b tags any =
     (let hits = filter (\<lambda>p. snd p \<in> set tags) (t_memory_tags (bk_tables b)) in
      if tags = [] then {}
      else if any then fst ` set hits
      else {mid \<in> fst ` set hits. length (remdups (map snd (filter (\<lambda>p. fst p = mid) hits))) = length tags})"

definition ids_matching_time :: "Backend \<Rightarrow> Timestamp \<Rightarrow> Timestamp \<Rightarrow> MemoryId set" where
  "ids_matching_time b start stop =
     mr_id ` {r \<in> set (t_memories (bk_tables b)). as_i64 start \<le> mr_created_at r \<and> mr_created_at r \<le> as_i64 stop}"

definition candidate_set :: "Backend \<Rightarrow> string list option \<Rightarrow> bool \<Rightarrow> (Timestamp \<times> Timestamp) option \<Rightarrow> MemoryId set option" where
  "candidate_set b tags any time_range = (case (tags, time_range) of
     (None, None) \<Rightarrow> None
   | (Some ts, None) \<Rightarrow> Some (ids_matching_tags b ts any)
   | (None, Some (start, stop)) \<Rightarrow> Some (ids_matching_time b start stop)
   | (Some ts, Some (start, stop)) \<Rightarrow> Some (ids_matching_tags b ts any \<inter> ids_matching_time b start stop))"

definition hit_before :: "MemoryId \<times> f32 \<Rightarrow> MemoryId \<times> f32 \<Rightarrow> bool" where
  "hit_before a b \<longleftrightarrow> fl_lt (snd b) (snd a)"

definition vector_search_filtered :: "Backend \<Rightarrow> Embedding \<Rightarrow> MemoryId set \<Rightarrow> nat \<Rightarrow> MemoryId list" where
  "vector_search_filtered b query candidates k = (if candidates = {} \<or> k = 0 then []
     else map fst (take k (sort_by hit_before (List.map_filter (\<lambda>r. case mr_embedding r of
       Some e \<Rightarrow> if mr_id r \<in> candidates then Some (mr_id r, dot_f32 (normalize_vec query) (normalize_vec e)) else None
     | None \<Rightarrow> None) (t_memories (bk_tables b))))))"

section \<open>Rank fusion\<close>

definition rank_score :: "RetrievalConfig \<Rightarrow> nat \<Rightarrow> f32" where
  "rank_score config rank = fl_div f32_of (Fin 1) (fl_add f32_of (rc_rrf_k config) (f32_of (of_nat rank)))"

fun fuse :: "RetrievalConfig \<Rightarrow> nat \<Rightarrow> MemoryId list \<Rightarrow> (MemoryId \<times> f32) list \<Rightarrow> (MemoryId \<times> f32) list" where
  "fuse config rank [] rrf = rrf"
| "fuse config rank (mid # ids) rrf = fuse config (Suc rank) ids
     (AList.update mid (fl_add f32_of (case map_of rrf mid of Some s \<Rightarrow> s | None \<Rightarrow> Fin 0) (rank_score config rank)) rrf)"

definition combined_score :: "RetrievalConfig \<Rightarrow> Backend \<Rightarrow> MemoryId \<times> f32 \<Rightarrow> f32" where
  "combined_score config b hit =
     (let salience = (case salience_of b (fst hit) of Some s \<Rightarrow> s | None \<Rightarrow> Fin (1/2)) in
      fl_add f32_of
        (fl_add f32_of (fl_mul f32_of (snd hit) (rc_rrf_weight config)) (fl_mul f32_of salience (rc_salience_weight config)))
        (fl_mul f32_of (rc_recency_prior config) (rc_recency_weight config)))"

definition in_candidates :: "MemoryId set option \<Rightarrow> MemoryId \<Rightarrow> bool" where
  "in_candidates cs mid = (case cs of None \<Rightarrow> True | Some s \<Rightarrow> mid \<in> s)"

definition scored_hits :: "RetrievalConfig \<Rightarrow> Backend \<Rightarrow> MemoryId set option \<Rightarrow> (MemoryId \<times> f32) list \<Rightarrow> (MemoryId \<times> f32) list" where
  "scored_hits config b cs rrf = map (\<lambda>hit. (fst hit, combined_score config b hit)) (filter (\<lambda>hit. in_candidates cs (fst hit)) rrf)"

section \<open>Traces\<close>

definition rank_in :: "MemoryId list \<Rightarrow> MemoryId \<Rightarrow> nat option" where
  "rank_in hits mid = map_of (rev (zip hits [1..<Suc (length hits)])) mid"

definition hit_source :: "nat option \<Rightarrow> nat option \<Rightarrow> string" where
  "hit_source vector_rank bm25_rank = (case (vector_rank, bm25_rank) of
     (Some _, Some _) \<Rightarrow> ''hybrid'' | (Some _, None) \<Rightarrow> ''vector'' | (None, Some _) \<Rightarrow> ''keyword'' | (None, None) \<Rightarrow> ''rerank'')"

definition trace_hit :: "RetrievalConfig \<Rightarrow> Backend \<Rightarrow> string \<Rightarrow> MemoryId list \<Rightarrow> MemoryId list \<Rightarrow> nat \<Rightarrow> MemoryId \<times> f32 \<Rightarrow> RetrievalTraceHit" where
  "trace_hit config b trace_id vector_hits bm25_hits rank hit =
     (let vr = rank_in vector_hits (fst hit); br = rank_in bm25_hits (fst hit); salience = salience_of b (fst hit) in
      \<lparr> rh_trace_id = trace_id, rh_rank = Suc rank, rh_memory_id = fst hit, rh_score = snd hit, rh_source = hit_source vr br,
        rh_vector_rank = vr, rh_bm25_rank = br, rh_salience = salience,
        rh_explanation = [(''signals'', F_Strs ((if vr \<noteq> None then [''vector''] else []) @ (if br \<noteq> None then [''keyword''] else []))),
          (''vector_rank'', F_OptNat vr), (''keyword_rank'', F_OptNat br), (''salience'', F_OptReal salience), (''score'', F_Real (snd hit)),
          (''rrf_weight'', F_Real (rc_rrf_weight config)), (''salience_weight'', F_Real (rc_salience_weight config)),
          (''recency_weight'', F_Real (rc_recency_weight config)), (''recency_prior'', F_Real (rc_recency_prior config))] \<rparr>)"

definition purge_old_traces_on :: "nat \<Rightarrow> Tables \<Rightarrow> Tables MenteResult" where
  "purge_old_traces_on keep t = bindO (usize_to_i64 keep) (\<lambda>n.
     let stale = rt_trace_id ` set (drop (nat n) (sort_by (newest_first rt_created_at) (t_traces t))) in
     Ok (t\<lparr>t_trace_hits := filter (\<lambda>h. rh_trace_id h \<notin> stale) (t_trace_hits t),
           t_traces := filter (\<lambda>r. rt_trace_id r \<notin> stale) (t_traces t)\<rparr>))"

text \<open>A trace that cannot be written is dropped: the search goes on.\<close>

definition trace_row :: "string \<Rightarrow> Timestamp \<Rightarrow> nat \<Rightarrow> string option \<Rightarrow> string list option \<Rightarrow> bool \<Rightarrow> (Timestamp \<times> Timestamp) option
    \<Rightarrow> nat \<Rightarrow> nat \<Rightarrow> nat \<Rightarrow> (MemoryId \<times> f32) list \<Rightarrow> MemoryId list \<Rightarrow> MemoryId list \<Rightarrow> RetrievalConfig \<Rightarrow> RetrievalTrace" where
  "trace_row trace_id now query_dim query_text tags tags_or time_range k fetch_k candidate_count scored vector_hits bm25_hits config =
     \<lparr> rt_trace_id = trace_id, rt_query_text = query_text, rt_query_embedding_dim = query_dim, rt_k = k, rt_fetch_k = fetch_k,
       rt_tags = (case tags of None \<Rightarrow> [] | Some ts \<Rightarrow> ts), rt_tags_or = tags_or, rt_time_range = time_range,
       rt_candidate_count = candidate_count, rt_result_count = length scored, rt_config = config,
       rt_stage = [(''vector_candidates'', F_Nat (length vector_hits)), (''keyword_candidates'', F_Nat (length bm25_hits)),
         (''fused_candidates'', F_Nat candidate_count), (''final_results'', F_Nat (length scored)),
         (''requested_k'', F_Nat k), (''fetch_k'', F_Nat fetch_k)],
       rt_created_at = now \<rparr>"

definition record_retrieval_trace :: "string \<Rightarrow> Timestamp \<Rightarrow> nat \<Rightarrow> string option \<Rightarrow> string list option \<Rightarrow> bool
    \<Rightarrow> (Timestamp \<times> Timestamp) option \<Rightarrow> nat \<Rightarrow> nat \<Rightarrow> nat \<Rightarrow> (MemoryId \<times> f32) list \<Rightarrow> MemoryId list \<Rightarrow> MemoryId list
    \<Rightarrow> RetrievalConfig \<Rightarrow> Backend \<Rightarrow> unit MenteResult \<times> Backend" where
  "record_retrieval_trace trace_id now query_dim query_text tags tags_or time_range k fetch_k candidate_count scored vector_hits bm25_hits config b =
     transact_unit b (\<lambda>t.
       bindO (for_each (\<lambda>n u. bindO (usize_to_i64 n) (\<lambda>_. Ok u)) [query_dim, k, fetch_k, candidate_count, length scored] ()) (\<lambda>_.
       bindO (for_each (\<lambda>hit. not_null_real ''retrieval_trace_hits.score'' (snd hit)) scored ()) (\<lambda>_.
       purge_old_traces_on (rc_trace_retention_limit config)
         (t\<lparr>t_traces := t_traces t @ [trace_row trace_id now query_dim query_text tags tags_or time_range k fetch_k candidate_count scored
              vector_hits bm25_hits config],
            t_trace_hits := t_trace_hits t @ map (\<lambda>(rank, hit). trace_hit config b trace_id vector_hits bm25_hits rank hit) (zip [0..<length scored] scored)\<rparr>))))"

section \<open>Hybrid search\<close>

definition saturating_mul64 :: "nat \<Rightarrow> nat \<Rightarrow> nat" where
  "saturating_mul64 a b = min u64_max (a * b)"

definition fetch_count :: "RetrievalConfig \<Rightarrow> nat \<Rightarrow> nat" where
  "fetch_count config k = max (saturating_mul64 k (max (rc_fetch_multiplier config) 1)) k"

definition vector_hits_of :: "Engine \<Rightarrow> Backend \<Rightarrow> Embedding \<Rightarrow> MemoryId set option \<Rightarrow> nat \<Rightarrow> MemoryId list" where
  "vector_hits_of eng b query cs n = (case cs of
     Some candidates \<Rightarrow> vector_search_filtered b query candidates n | None \<Rightarrow> map fst (knn eng b query n))"

definition bm25_hits_of :: "Engine \<Rightarrow> Backend \<Rightarrow> string option \<Rightarrow> nat \<Rightarrow> MemoryId list" where
  "bm25_hits_of eng b query_text n = (case query_text of
     Some qt \<Rightarrow> if qt = [] then [] else fts_search eng b qt n | None \<Rightarrow> [])"

text \<open>The results, with what a trace records: the number of fused candidates and the two lists of hits.\<close>

definition hybrid_results :: "Engine \<Rightarrow> Backend \<Rightarrow> Embedding \<Rightarrow> string option \<Rightarrow> MemoryId set option \<Rightarrow> nat
    \<Rightarrow> (MemoryId \<times> f32) list \<times> nat \<times> MemoryId list \<times> MemoryId list" where
  "hybrid_results eng b query query_text cs k =
     (let n = fetch_count (bk_config b) k in
      if cs = Some {} then ([], 0, [], [])
      else let vector_hits = vector_hits_of eng b query cs n; bm25_hits = bm25_hits_of eng b query_text n in
        if vector_hits = [] \<and> bm25_hits = [] then ([], 0, vector_hits, bm25_hits)
        else let rrf = fuse (bk_config b) 0 bm25_hits (fuse (bk_config b) 0 vector_hits []) in
          (take k (sort_by hit_before (scored_hits (bk_config b) b cs (eng_order eng rrf))), length rrf, vector_hits, bm25_hits))"

definition hybrid_search_with_query_mode :: "Engine \<Rightarrow> string \<Rightarrow> Timestamp \<Rightarrow> Backend \<Rightarrow> Embedding \<Rightarrow> string option \<Rightarrow> string list option
    \<Rightarrow> bool \<Rightarrow> (Timestamp \<times> Timestamp) option \<Rightarrow> nat \<Rightarrow> (MemoryId \<times> f32) list \<times> Backend" where
  "hybrid_search_with_query_mode eng trace_id now b query query_text tags tags_or time_range k =
     (if k = 0 \<or> query = [] then ([], b)
      else case hybrid_results eng b query query_text (candidate_set b tags tags_or time_range) k of
        (scored, candidate_count, vector_hits, bm25_hits) \<Rightarrow>
          (scored, if bk_tracing b
             then snd (record_retrieval_trace trace_id now (length query) query_text tags tags_or time_range k
               (fetch_count (bk_config b) k) candidate_count scored vector_hits bm25_hits (bk_config b) b)
             else b))"

definition hybrid_search :: "Engine \<Rightarrow> string \<Rightarrow> Timestamp \<Rightarrow> Backend \<Rightarrow> Embedding \<Rightarrow> string list option
    \<Rightarrow> (Timestamp \<times> Timestamp) option \<Rightarrow> nat \<Rightarrow> (MemoryId \<times> f32) list \<times> Backend" where
  "hybrid_search eng trace_id now b query tags time_range k =
     hybrid_search_with_query_mode eng trace_id now b query None tags False time_range k"

section \<open>Ranking\<close>

interpretation by_hit: comparator hit_before "\<lambda>h. snd h \<noteq> NaN"
  by unfold_locales (auto simp: hit_before_def dest: fl_lt_asym fl_lt_negtrans)

lemma fuse_keys: "fst ` set (fuse config rank ids rrf) = set ids \<union> fst ` set rrf"
  by (induction ids arbitrary: rank rrf) (auto simp: dom_update)

lemma fuse_distinct: "distinct (map fst rrf) \<Longrightarrow> distinct (map fst (fuse config rank ids rrf))"
  by (induction ids arbitrary: rank rrf) (auto intro: distinct_update)

lemma engine_order_set: "engine_ok eng \<Longrightarrow> set (eng_order eng xs) = set xs"
  by (metis engine_ok_def set_mset_mset)

lemma engine_order_distinct: "engine_ok eng \<Longrightarrow> distinct (map fst xs) \<Longrightarrow> distinct (map fst (eng_order eng xs))"
  by (metis engine_ok_def mset_map mset_eq_imp_distinct_iff)

lemma scored_hits_fst: "map fst (scored_hits config b cs rrf) = filter (in_candidates cs) (map fst rrf)"
  by (simp add: scored_hits_def filter_map comp_def)

lemma take_ordered:
  assumes "by_hit.ordered xs" "x \<in> set (take k xs)" "y \<in> set (drop k xs)"
  shows "\<not> hit_before y x"
proof -
  have "sorted_wrt (\<lambda>x y. \<not> hit_before y x) (take k xs @ drop k xs)" using assms(1) unfolding by_hit.ordered_def by simp
  then show ?thesis unfolding sorted_wrt_append using assms(2,3) by blast
qed

text \<open>The fused hits of a search, scored: what its results are chosen from.\<close>

definition fused_hits :: "Engine \<Rightarrow> Backend \<Rightarrow> Embedding \<Rightarrow> string option \<Rightarrow> MemoryId set option \<Rightarrow> nat \<Rightarrow> (MemoryId \<times> f32) list" where
  "fused_hits eng b query query_text cs k = (let n = fetch_count (bk_config b) k in
     scored_hits (bk_config b) b cs (eng_order eng
       (fuse (bk_config b) 0 (bm25_hits_of eng b query_text n) (fuse (bk_config b) 0 (vector_hits_of eng b query cs n) []))))"

lemma fused_hits_fst:
  assumes "engine_ok eng"
  shows "fst ` set (fused_hits eng b query query_text cs k) = {mid. in_candidates cs mid \<and>
    (mid \<in> set (vector_hits_of eng b query cs (fetch_count (bk_config b) k)) \<or> mid \<in> set (bm25_hits_of eng b query_text (fetch_count (bk_config b) k)))}"
proof -
  have "fst ` set (fused_hits eng b query query_text cs k) = set (map fst (fused_hits eng b query query_text cs k))" by simp
  then show ?thesis
    unfolding fused_hits_def Let_def scored_hits_fst set_filter set_map engine_order_set[OF assms] fuse_keys by auto
qed

lemma fused_hits_distinct: "engine_ok eng \<Longrightarrow> distinct (map fst (fused_hits eng b query query_text cs k))"
  unfolding fused_hits_def Let_def scored_hits_fst by (intro distinct_filter engine_order_distinct fuse_distinct) simp_all

lemma engine_order_Nil: "engine_ok eng \<Longrightarrow> eng_order eng [] = []"
  by (metis engine_ok_def mset_zero_iff_right mset.simps(1))

lemma hybrid_results_fused:
  assumes "engine_ok eng"
  shows "fst (hybrid_results eng b query query_text cs k) = take k (sort_by hit_before (fused_hits eng b query query_text cs k))"
proof (cases "cs = Some {}")
  case True
  then have "fst ` set (fused_hits eng b query query_text cs k) = {}" by (simp add: fused_hits_fst[OF assms] in_candidates_def)
  then show ?thesis using True by (simp add: hybrid_results_def Let_def)
next
  case False
  then show ?thesis
    by (auto simp: hybrid_results_def fused_hits_def Let_def scored_hits_def engine_order_Nil[OF assms])
qed

section \<open>The filters\<close>

lemma remdups_wanted:
  assumes "distinct (t_memory_tags t)" "distinct tags"
  shows "length (remdups (map snd (filter (\<lambda>p. fst p = mid) (filter (\<lambda>p. snd p \<in> set tags) (t_memory_tags t)))))
    = card (set tags \<inter> set (tags_of t mid))"
proof -
  have "set (map snd (filter (\<lambda>p. fst p = mid) (filter (\<lambda>p. snd p \<in> set tags) (t_memory_tags t)))) = set tags \<inter> set (tags_of t mid)"
    by (auto simp: tags_of_def)
  then show ?thesis by (metis length_remdups_card_conv)
qed

text \<open>The filter by all tags finds the memories that have them, when no tag is repeated.\<close>

lemma all_tags_spec:
  assumes "backend_ok b" "tags \<noteq> []" "distinct tags"
  shows "ids_matching_tags b tags False = {mid. set tags \<subseteq> set (tags_of (bk_tables b) mid)}"
proof -
  have c: "card (set tags \<inter> T) = length tags \<longleftrightarrow> set tags \<subseteq> T" for T
    using assms(3) card_seteq[of "set tags" "set tags \<inter> T"] by (auto simp: distinct_card inf.absorb1)
  have "mid \<in> fst ` set (filter (\<lambda>p. snd p \<in> set tags) (t_memory_tags (bk_tables b)))" if "set tags \<subseteq> set (tags_of (bk_tables b) mid)" for mid
    using that assms(2) by (cases tags) (force simp: tags_of_def)+
  then show ?thesis
    using assms remdups_wanted[of "bk_tables b" tags] c by (auto simp: ids_matching_tags_def Let_def backend_ok_def tables_ok_def)
qed

text \<open>
  What the filters ask of a memory as it is read from the store: one of the tags or all of them, and a time of creation in the
  range, ends included.
\<close>

definition passes_filters :: "string list option \<Rightarrow> bool \<Rightarrow> (Timestamp \<times> Timestamp) option \<Rightarrow> MemoryNode \<Rightarrow> bool" where
  "passes_filters tags any tr m \<longleftrightarrow>
     (case tags of None \<Rightarrow> True
      | Some ts \<Rightarrow> if any then \<exists>t \<in> set ts. t \<in> set (mn_tags m) else ts \<noteq> [] \<and> (\<forall>t \<in> set ts. t \<in> set (mn_tags m)))
     \<and> (case tr of None \<Rightarrow> True | Some (start, stop) \<Rightarrow> start \<le> mn_created_at m \<and> mn_created_at m \<le> stop)"

text \<open>The filters that the code answers as meant: no tag twice when all are wanted, times below \<open>2\<^sup>63\<close>.\<close>

definition filters_plain :: "string list option \<Rightarrow> bool \<Rightarrow> (Timestamp \<times> Timestamp) option \<Rightarrow> bool" where
  "filters_plain tags any tr \<longleftrightarrow> (case tags of None \<Rightarrow> True | Some ts \<Rightarrow> any \<or> distinct ts)
     \<and> (case tr of None \<Rightarrow> True | Some (start, stop) \<Rightarrow> start < 9223372036854775808 \<and> stop < 9223372036854775808)"

definition times_plain :: "Backend \<Rightarrow> bool" where
  "times_plain b \<longleftrightarrow> (\<forall>r \<in> set (t_memories (bk_tables b)). 0 \<le> mr_created_at r \<and> mr_created_at r < 9223372036854775808)"

lemma tags_matching_spec:
  assumes "backend_ok b" "any \<or> distinct ts"
  shows "mid \<in> ids_matching_tags b ts any \<longleftrightarrow> (if any then \<exists>t \<in> set ts. t \<in> set (tags_of (bk_tables b) mid)
    else ts \<noteq> [] \<and> (\<forall>t \<in> set ts. t \<in> set (tags_of (bk_tables b) mid)))"
proof (cases any)
  case True
  then have "mid \<in> ids_matching_tags b ts any \<longleftrightarrow> (\<exists>p \<in> set (t_memory_tags (bk_tables b)). snd p \<in> set ts \<and> fst p = mid)"
    by (force simp: ids_matching_tags_def Let_def)
  then show ?thesis using True by (auto simp: tags_of_def)
next
  case False
  then show ?thesis using assms all_tags_spec[of b ts] by (cases "ts = []") (auto simp: ids_matching_tags_def[of b "[]"])
qed

lemma time_matching_spec:
  assumes "backend_ok b" "times_plain b" "get_memory codec b mid = Some m" "start < 9223372036854775808" "stop < 9223372036854775808"
  shows "mid \<in> ids_matching_time b start stop \<longleftrightarrow> start \<le> mn_created_at m \<and> mn_created_at m \<le> stop"
proof -
  obtain r where r: "row_of mr_id mid (t_memories (bk_tables b)) = Some r" "m = node_of_row codec (bk_tables b) r"
    using assms(3) by (auto simp: get_memory_def)
  have m: "r \<in> set (t_memories (bk_tables b))" "mr_id r = mid" using row_of_Some[OF r(1)] by simp_all
  have eq: "q = r" if "q \<in> set (t_memories (bk_tables b))" "mr_id q = mid" for q
    using that row_of_distinct[of mr_id "t_memories (bk_tables b)" q] assms(1) r(1) by (simp add: backend_ok_def tables_ok_def)
  have "mid \<in> ids_matching_time b start stop \<longleftrightarrow>
      (\<exists>q \<in> set (t_memories (bk_tables b)). mr_id q = mid \<and> as_i64 start \<le> mr_created_at q \<and> mr_created_at q \<le> as_i64 stop)"
    by (auto simp: ids_matching_time_def)
  then have "mid \<in> ids_matching_time b start stop \<longleftrightarrow> as_i64 start \<le> mr_created_at r \<and> mr_created_at r \<le> as_i64 stop"
    using m eq by blast
  moreover have c: "0 \<le> mr_created_at r" "mr_created_at r < 9223372036854775808" using assms(2) m(1) by (simp_all add: times_plain_def)
  moreover have "mn_created_at m = nat (mr_created_at r)" using c by (simp add: r(2) node_of_row_def as_u64_def)
  moreover have "as_i64 start = int start" "as_i64 stop = int stop" using assms(4,5) by (simp_all add: as_i64_def)
  ultimately show ?thesis by (simp add: nat_le_iff le_nat_iff)
qed

lemma candidate_set_spec:
  assumes "backend_ok b" "times_plain b" "filters_plain tags any tr" "get_memory codec b mid = Some m"
  shows "in_candidates (candidate_set b tags any tr) mid \<longleftrightarrow> passes_filters tags any tr m"
proof -
  have "mn_tags m = tags_of (bk_tables b) mid"
    using assms(4) by (auto simp: get_memory_def node_of_row_def dest!: row_of_Some)
  then show ?thesis
    using assms tags_matching_spec[OF assms(1)] time_matching_spec[OF assms(1,2,4)]
    by (auto simp: candidate_set_def in_candidates_def passes_filters_def filters_plain_def split: option.splits)
qed

text \<open>
  The score of a memory as the configuration documents it: the reciprocal ranks in the lists of the vector and the text index,
  counted from 0, then the weights of rank, salience and recency; every operation rounds to single precision.
\<close>

definition rank_of :: "MemoryId list \<Rightarrow> MemoryId \<Rightarrow> nat" where
  "rank_of ids mid = length (takeWhile (\<lambda>i. i \<noteq> mid) ids)"

definition add_rank :: "f32 \<Rightarrow> MemoryId list \<Rightarrow> MemoryId \<Rightarrow> f32 \<Rightarrow> f32" where
  "add_rank rrf_k ids mid x = (if mid \<in> set ids
     then fl_add f32_of x (fl_div f32_of (Fin 1) (fl_add f32_of rrf_k (f32_of (of_nat (rank_of ids mid))))) else x)"

definition search_score :: "RetrievalConfig \<Rightarrow> MemoryId list \<Rightarrow> MemoryId list \<Rightarrow> MemoryNode \<Rightarrow> f32" where
  "search_score c vector_ids text_ids m = fl_add f32_of
     (fl_add f32_of
       (fl_mul f32_of (add_rank (rc_rrf_k c) text_ids (mn_id m) (add_rank (rc_rrf_k c) vector_ids (mn_id m) (Fin 0))) (rc_rrf_weight c))
       (fl_mul f32_of (mn_salience m) (rc_salience_weight c)))
     (fl_mul f32_of (rc_recency_prior c) (rc_recency_weight c))"

lemma map_of_fuse:
  assumes "distinct ids"
  shows "map_of (fuse c n ids rrf) mid = (if mid \<in> set ids
    then Some (fl_add f32_of (case map_of rrf mid of Some x \<Rightarrow> x | None \<Rightarrow> Fin 0) (rank_score c (n + rank_of ids mid))) else map_of rrf mid)"
  using assms by (induction ids arbitrary: n rrf) (auto simp: update_conv' rank_of_def)

lemma map_of_fused:
  assumes "distinct V" "distinct T"
  shows "map_of (fuse c 0 T (fuse c 0 V [])) mid = (if mid \<in> set V \<or> mid \<in> set T
    then Some (add_rank (rc_rrf_k c) T mid (add_rank (rc_rrf_k c) V mid (Fin 0))) else None)"
  using assms by (simp add: map_of_fuse add_rank_def rank_score_def)

lemma combined_score_spec:
  assumes "get_memory codec b mid = Some m"
  shows "combined_score c b (mid, add_rank (rc_rrf_k c) T mid (add_rank (rc_rrf_k c) V mid (Fin 0))) = search_score c V T m"
proof -
  have "salience_of b mid = Some (mn_salience m)" "mn_id m = mid"
    using assms by (auto simp: get_memory_def salience_of_def node_of_row_def dest: row_of_Some)
  then show ?thesis by (simp add: combined_score_def search_score_def)
qed

text \<open>The filtered vector search looks at the stored memories only, so it may as well be given those that pass the filters.\<close>

lemma vector_search_filtered_all:
  "vector_search_filtered b query C n = (if n = 0 then [] else map fst (take n (sort_by hit_before (List.map_filter (\<lambda>r. case mr_embedding r of
     Some e \<Rightarrow> if mr_id r \<in> C then Some (mr_id r, dot_f32 (normalize_vec query) (normalize_vec e)) else None
   | None \<Rightarrow> None) (t_memories (bk_tables b))))))"
proof (cases "C = {}")
  case True
  have "List.map_filter (\<lambda>r. case mr_embedding r of
      Some e \<Rightarrow> if mr_id r \<in> C then Some (mr_id r, dot_f32 (normalize_vec query) (normalize_vec e)) else None
    | None \<Rightarrow> None) (t_memories (bk_tables b)) = []"
    using True by (intro map_filter_none) (simp split: option.splits)
  then show ?thesis using True by (simp add: vector_search_filtered_def)
qed (simp add: vector_search_filtered_def)

lemma vector_search_filtered_cong:
  assumes "\<forall>r \<in> set (t_memories (bk_tables b)). mr_id r \<in> C \<longleftrightarrow> mr_id r \<in> D"
  shows "vector_search_filtered b query C n = vector_search_filtered b query D n"
proof -
  have "List.map_filter (\<lambda>r. case mr_embedding r of Some e \<Rightarrow> if mr_id r \<in> C then Some (mr_id r, f e) else None | None \<Rightarrow> None) rows
      = List.map_filter (\<lambda>r. case mr_embedding r of Some e \<Rightarrow> if mr_id r \<in> D then Some (mr_id r, f e) else None | None \<Rightarrow> None) rows"
    if "set rows \<subseteq> set (t_memories (bk_tables b))" for rows and f :: "Embedding \<Rightarrow> f32"
    using that assms by (induction rows) (auto simp: List.map_filter_simps split: option.splits)
  note eq = this[OF order_refl]
  show ?thesis by (simp only: vector_search_filtered_all eq)
qed

lemma filtered_hits:
  assumes "backend_ok b" "times_plain b" "filters_plain tags any tr"
  shows "vector_hits_of eng b query (candidate_set b tags any tr) n = (if tags = None \<and> tr = None then map fst (knn eng b query n)
    else vector_search_filtered b query {mid. \<exists>m. get_memory codec b mid = Some m \<and> passes_filters tags any tr m} n)"
proof (cases "candidate_set b tags any tr")
  case None
  then show ?thesis by (auto simp: candidate_set_def vector_hits_of_def split: option.splits prod.splits)
next
  case (Some C)
  have "mr_id r \<in> C \<longleftrightarrow> (\<exists>m. get_memory codec b (mr_id r) = Some m \<and> passes_filters tags any tr m)" if r: "r \<in> set (t_memories (bk_tables b))" for r
  proof -
    obtain m where m: "get_memory codec b (mr_id r) = Some m"
      using r row_of_distinct[of mr_id "t_memories (bk_tables b)" r] assms(1) by (auto simp: get_memory_def backend_ok_def tables_ok_def)
    then show ?thesis using candidate_set_spec[OF assms m] Some by (simp add: in_candidates_def)
  qed
  then show ?thesis using Some vector_search_filtered_cong[of b C]
    by (auto simp: candidate_set_def vector_hits_of_def split: option.splits prod.splits)
qed

lemma found_stored:
  assumes "mid \<in> set (vector_hits_of eng b query cs n) \<or> mid \<in> set (bm25_hits_of eng b query_text n)"
  shows "\<exists>m. get_memory codec b mid = Some m"
proof -
  have "mid \<in> mr_id ` set (t_memories (bk_tables b))"
    using assms by (auto simp: vector_hits_of_def bm25_hits_of_def knn_def fts_search_def vector_search_filtered_def set_map_filter
        dest!: set_take_subset[THEN subsetD] row_of_Some split: option.splits if_splits) (metis imageI)
  then show ?thesis using row_of_None_iff[of mr_id mid "t_memories (bk_tables b)"] by (cases "row_of mr_id mid (t_memories (bk_tables b))") (auto simp: get_memory_def)
qed

lemma fused_hits_spec:
  assumes "engine_ok eng" "backend_ok b" "times_plain b" "filters_plain tags any tr"
    "V = vector_hits_of eng b query (candidate_set b tags any tr) (fetch_count (bk_config b) k)"
    "T = bm25_hits_of eng b query_text (fetch_count (bk_config b) k)" "distinct V" "distinct T"
  shows "set (fused_hits eng b query query_text (candidate_set b tags any tr) k)
    = {(mid, search_score (bk_config b) V T m) | mid m. mid \<in> set V \<union> set T \<and> get_memory codec b mid = Some m \<and> passes_filters tags any tr m}"
    (is "?F = ?S")
proof -
  let ?cs = "candidate_set b tags any tr" and ?c = "bk_config b"
  define rrf where "rrf = fuse ?c 0 T (fuse ?c 0 V [])"
  have d: "distinct (map fst rrf)" unfolding rrf_def by (intro fuse_distinct) simp
  have "?F = (\<lambda>hit. (fst hit, combined_score ?c b hit)) ` {hit \<in> set rrf. in_candidates ?cs (fst hit)}"
    by (simp add: fused_hits_def Let_def scored_hits_def engine_order_set[OF assms(1)] assms(5,6) rrf_def)
  then have F: "(mid, s) \<in> ?F \<longleftrightarrow> in_candidates ?cs mid \<and> (\<exists>x. map_of rrf mid = Some x \<and> s = combined_score ?c b (mid, x))" for mid s
    using map_of_eq_Some_iff[OF d] by (auto simp: image_iff)
  have "(mid, s) \<in> ?F \<longleftrightarrow> (mid, s) \<in> ?S" for mid s
  proof (cases "mid \<in> set V \<or> mid \<in> set T")
    case True
    then obtain m where m: "get_memory codec b mid = Some m" using found_stored assms(5,6) by metis
    then show ?thesis using True F candidate_set_spec[OF assms(2-4) m] map_of_fused[OF assms(7,8)] combined_score_spec[OF m] by (auto simp: rrf_def)
  next
    case False
    then show ?thesis using F map_of_fused[OF assms(7,8)] by (auto simp: rrf_def)
  qed
  then show ?thesis by (auto simp del: mem_Collect_eq)
qed

lemma top_k_hits:
  assumes "engine_ok eng" "query \<noteq> []" "0 < k"
    "\<forall>h \<in> set (fused_hits eng b query query_text (candidate_set b tags tags_or time_range) k). snd h \<noteq> NaN"
    "hybrid_search_with_query_mode eng trace_id now b query query_text tags tags_or time_range k = (hits, b')"
  shows "length hits \<le> k" "distinct (map fst hits)"
    "set hits \<subseteq> set (fused_hits eng b query query_text (candidate_set b tags tags_or time_range) k)"
    "sorted_wrt (\<lambda>x y. \<not> fl_lt (snd x) (snd y)) hits"
    "y \<in> set (fused_hits eng b query query_text (candidate_set b tags tags_or time_range) k) - set hits \<Longrightarrow>
      length hits = k \<and> (\<forall>x \<in> set hits. \<not> fl_lt (snd x) (snd y))"
proof -
  let ?f = "fused_hits eng b query query_text (candidate_set b tags tags_or time_range) k"
  let ?s = "sort_by hit_before ?f"
  have h: "hits = take k ?s"
    using assms(2,3,5) hybrid_results_fused[OF assms(1), of b query query_text "candidate_set b tags tags_or time_range" k]
    by (auto simp: hybrid_search_with_query_mode_def split: prod.splits)
  have o: "by_hit.ordered ?s" using assms(4) by (intro by_hit.ordered_sort_by) auto
  have "distinct (map fst ?s)"
    using fused_hits_distinct[OF assms(1)] by (metis mset_map mset_sort_by mset_eq_imp_distinct_iff)
  then show "distinct (map fst hits)" unfolding h take_map[symmetric] by (rule distinct_take)
  show "length hits \<le> k" by (simp add: h)
  show "set hits \<subseteq> set ?f" using set_take_subset[of k ?s] by (simp add: h)
  show "sorted_wrt (\<lambda>x y. \<not> fl_lt (snd x) (snd y)) hits"
    using o sorted_wrt_take unfolding h by_hit.ordered_def hit_before_def by blast
  assume "y \<in> set ?f - set hits"
  then have y: "y \<in> set (drop k ?s)" using set_append[of "take k ?s" "drop k ?s"] by (auto simp: h)
  then have "k \<le> length ?s" by (cases "k \<le> length ?s") auto
  moreover have "\<not> fl_lt (snd x) (snd y)" if "x \<in> set hits" for x
    using take_ordered[OF o _ y, of x] that by (simp add: hit_before_def h)
  ultimately show "length hits = k \<and> (\<forall>x \<in> set hits. \<not> fl_lt (snd x) (snd y))" by (simp add: h)
qed

text \<open>C20: a search with a vector for \<open>k > 0\<close> memories returns at most \<open>k\<close> hits on distinct memories, best first. Let \<open>V\<close> be what
  the vector search returns (with filters: over the memories that pass them) and \<open>T\<close> what the text index returns, both with the
  limit \<open>k\<close> times the fetch multiplier. Each hit is on a stored memory of \<open>V\<close> or \<open>T\<close> that passes the filters by tags and time, as
  \<open>passes_filters\<close> spells them out, and its score is \<open>search_score\<close>: \<open>1 / (rrf_k + rank)\<close> added up over the two lists, times
  the rank weight, plus salience and recency with their weights, in single precision. A memory of \<open>V\<close> or \<open>T\<close> that passes and
  is left out scores no better than any hit, and then \<open>k\<close> hits were returned. Assumed: the store satisfies its invariant, no
  score is NaN, the lists repeat no memory, the fetch limit fits 64 bits, no tag is named twice when all are wanted, and times are
  below \<open>2\<^sup>63\<close>.\<close>

theorem hybrid_search_top_k:
  assumes "engine_ok eng" "backend_ok b" "times_plain b" "filters_plain tags tags_or time_range" "query \<noteq> []" "0 < k"
    and n: "n = k * max 1 (rc_fetch_multiplier (bk_config b))" "n \<le> u64_max"
    and V: "V = (if tags = None \<and> time_range = None then map fst (knn eng b query n)
        else vector_search_filtered b query {mid. \<exists>m. get_memory codec b mid = Some m \<and> passes_filters tags tags_or time_range m} n)"
      "distinct V"
    and T: "T = (case query_text of Some qt \<Rightarrow> if qt = [] then [] else fts_search eng b qt n | None \<Rightarrow> [])" "distinct T"
    and nan: "\<And>mid m. mid \<in> set V \<union> set T \<Longrightarrow> get_memory codec b mid = Some m \<Longrightarrow> search_score (bk_config b) V T m \<noteq> NaN"
    and run: "hybrid_search_with_query_mode eng trace_id now b query query_text tags tags_or time_range k = (hits, b')"
  shows "length hits \<le> k \<and> distinct (map fst hits) \<and> sorted_wrt (\<lambda>x y. \<not> fl_lt (snd x) (snd y)) hits
    \<and> (\<forall>(mid, score) \<in> set hits. mid \<in> set V \<union> set T \<and> (\<exists>m. get_memory codec b mid = Some m
        \<and> passes_filters tags tags_or time_range m \<and> score = search_score (bk_config b) V T m))
    \<and> (\<forall>mid m. mid \<in> set V \<union> set T \<and> get_memory codec b mid = Some m \<and> passes_filters tags tags_or time_range m
        \<and> mid \<notin> fst ` set hits \<longrightarrow> length hits = k \<and> (\<forall>h \<in> set hits. \<not> fl_lt (snd h) (search_score (bk_config b) V T m)))"
proof -
  let ?cs = "candidate_set b tags tags_or time_range"
  have f: "fetch_count (bk_config b) k = n" using n assms(6) by (simp add: fetch_count_def saturating_mul64_def max.commute max_def)
  have V': "V = vector_hits_of eng b query ?cs (fetch_count (bk_config b) k)"
    using V(1) filtered_hits[OF assms(2-4)] by (simp add: f)
  have T': "T = bm25_hits_of eng b query_text (fetch_count (bk_config b) k)" using T(1) by (simp add: f bm25_hits_of_def)
  note F = fused_hits_spec[OF assms(1-4) V' T' V(2) T(2), where codec = codec]
  have nn: "\<forall>h \<in> set (fused_hits eng b query query_text ?cs k). snd h \<noteq> NaN" unfolding F using nan by auto
  note top = top_k_hits[OF assms(1,5,6) nn run, unfolded F]
  have "length hits = k \<and> (\<forall>h \<in> set hits. \<not> fl_lt (snd h) (search_score (bk_config b) V T m))"
    if "mid \<in> set V \<union> set T" "get_memory codec b mid = Some m" "passes_filters tags tags_or time_range m" "mid \<notin> fst ` set hits" for mid m
    using top(5)[of "(mid, search_score (bk_config b) V T m)"] that by force
  then show ?thesis using top(1-4) by (fastforce simp: subset_iff)
qed

definition sample_engine :: Engine where
  "sample_engine = \<lparr> eng_knn = (\<lambda>rows query k. map (\<lambda>r. (fst r, Fin 0)) rows), eng_fts = (\<lambda>rows query k. None), eng_order = (\<lambda>xs. xs) \<rparr>"

definition sample_store :: Backend where
  "sample_store = (backend_open retrieval_config_default 2 None)\<lparr>bk_tables := (init_tables 2)\<lparr>
     t_memories := [memory_row sample_codec 1 sample_memory], t_memory_vec := Some (2, [(1, [Fin 1, Fin 0])])\<rparr>\<rparr>"

lemma sample_engine_ok: "engine_ok sample_engine"
  by (simp add: engine_ok_def sample_engine_def)

lemma sample_vector_hits: "vector_hits_of sample_engine sample_store query None n = (if n = 0 \<or> query = [] then [] else [MemoryId 1])"
  by (simp add: vector_hits_of_def knn_def sample_engine_def sample_store_def backend_open_def open_tables_def init_tables_def
      map_filter_def row_of_def memory_row_def sample_memory_def memory_node_new_def)

lemma sample_score: "combined_score retrieval_config_default sample_store (MemoryId 1, fl_add f32_of (Fin 0) (rank_score retrieval_config_default 0)) \<noteq> NaN"
proof -
  have "salience_of sample_store (MemoryId 1) = Some (f64_as_f32 (Fin 1))"
    by (simp add: salience_of_def sample_store_def row_of_def memory_row_def sample_memory_def memory_node_new_def)
  moreover have "fl_add f32_of (fl_add f32_of (fl_mul f32_of (fl_add f32_of (Fin 0) (rank_score retrieval_config_default 0))
      (rc_rrf_weight retrieval_config_default)) (fl_mul f32_of (f64_as_f32 (Fin 1)) (rc_salience_weight retrieval_config_default)))
      (fl_mul f32_of (rc_recency_prior retrieval_config_default) (rc_recency_weight retrieval_config_default)) \<noteq> NaN"
    by code_simp
  ultimately show ?thesis by (simp add: combined_score_def)
qed

lemma sample_store_ok: "backend_ok sample_store"
proof -
  have "normalize_vec [Fin 1, Fin 0] = [Fin 1, Fin 0]" by code_simp
  then show ?thesis
    by (simp add: backend_ok_def tables_ok_def vec_ok_def backfill_def List.map_filter_simps sample_store_def backend_open_def open_tables_def init_tables_def Let_def
        memory_row_def sample_memory_def memory_node_new_def)
qed

theorem hybrid_search_top_k_witness:
  "\<exists>score m. fst (hybrid_search_with_query_mode sample_engine [] 0 sample_store [Fin 1, Fin 0] None None False None 3) = [(MemoryId 1, score)]
     \<and> get_memory sample_codec sample_store (MemoryId 1) = Some m \<and> score = search_score retrieval_config_default [MemoryId 1] [] m"
proof -
  have c: "bk_config sample_store = retrieval_config_default" by (simp add: sample_store_def backend_open_def open_tables_def Let_def)
  have t: "times_plain sample_store"
    by (simp add: times_plain_def sample_store_def memory_row_def sample_memory_def memory_node_new_def as_i64_def)
  have n: "(12::nat) = 3 * max 1 (rc_fetch_multiplier (bk_config sample_store))" by (simp add: c retrieval_config_default_def)
  have V: "[MemoryId 1] = (if (None :: string list option) = None \<and> (None :: (Timestamp \<times> Timestamp) option) = None
      then map fst (knn sample_engine sample_store [Fin 1, Fin 0] 12)
      else vector_search_filtered sample_store [Fin 1, Fin 0] {mid. \<exists>m. get_memory sample_codec sample_store mid = Some m \<and> passes_filters None False None m} 12)"
    using sample_vector_hits[of "[Fin 1, Fin 0]" 12] by (simp add: vector_hits_of_def)
  have T: "[] = (case (None :: string option) of Some qt \<Rightarrow> if qt = [] then [] else fts_search sample_engine sample_store qt 12 | None \<Rightarrow> [])" by simp
  obtain m where m: "get_memory sample_codec sample_store (MemoryId 1) = Some m" "mn_id m = MemoryId 1" "mn_salience m = f64_as_f32 (Fin 1)"
    by (simp add: get_memory_def row_of_def sample_store_def memory_row_def sample_memory_def memory_node_new_def node_of_row_def)
  have nan: "search_score retrieval_config_default [MemoryId 1] [] m \<noteq> NaN"
    using sample_score m combined_score_spec[OF m(1), of retrieval_config_default "[]" "[MemoryId 1]"]
    by (simp add: add_rank_def rank_of_def rank_score_def)
  then have nan': "search_score (bk_config sample_store) [MemoryId 1] [] x \<noteq> NaN"
    if "mid \<in> set [MemoryId 1] \<union> set []" "get_memory sample_codec sample_store mid = Some x" for mid x using that m(1) c by simp
  obtain hits b' where run: "hybrid_search_with_query_mode sample_engine [] 0 sample_store [Fin 1, Fin 0] None None False None 3 = (hits, b')"
    by fastforce
  have "filters_plain None False None" by (simp add: filters_plain_def)
  note top = hybrid_search_top_k[OF sample_engine_ok sample_store_ok t this _ _ n _ V _ T _ nan' run]
  have hits: "\<forall>h \<in> set hits. h = (MemoryId 1, search_score retrieval_config_default [MemoryId 1] [] m)"
    using top m(1) c by fastforce
  moreover have "distinct (map fst hits)" "hits \<noteq> []" using top[of "\<lambda>_ _. MemoryId 1"] m(1) by (auto simp: passes_filters_def)
  ultimately have "hits = [(MemoryId 1, search_score retrieval_config_default [MemoryId 1] [] m)]"
    by (cases hits; cases "tl hits") auto
  then show ?thesis using run m by auto
qed

section \<open>Limits of the filters\<close>

text \<open>A tag named twice can never be matched twice: the filter for all tags finds nothing.\<close>

lemma repeated_tag_matches_nothing:
  assumes "\<not> distinct tags"
  shows "ids_matching_tags b tags False = {}"
proof -
  have n: "length (remdups (map snd xs)) \<noteq> length tags" if "snd ` set xs \<subseteq> set tags" for xs :: "(MemoryId \<times> string) list"
  proof -
    have "length (remdups (map snd xs)) \<le> card (set tags)" unfolding length_remdups_card_conv using that by (intro card_mono) auto
    also have "\<dots> < length tags" using assms card_length[of tags] card_distinct[of tags] by linarith
    finally show ?thesis by simp
  qed
  have "length (remdups (map snd (filter (\<lambda>p. fst p = mid) (filter (\<lambda>p. snd p \<in> set tags) ps)))) \<noteq> length tags" for mid and ps :: "(MemoryId \<times> string) list"
    by (rule n) auto
  then show ?thesis unfolding ids_matching_tags_def Let_def by (simp only: if_False simp_thms Collect_empty_eq split: if_splits)
qed

text \<open>The end of a range is compared as a signed number: an open range, which ends at the greatest number, is empty.\<close>

lemma open_time_range_matches_nothing:
  assumes "\<forall>r \<in> set (t_memories (bk_tables b)). 0 \<le> mr_created_at r"
  shows "ids_matching_time b start 18446744073709551615 = {}"
  using assms by (force simp: ids_matching_time_def as_i64_def)

text \<open>A search without a vector finds nothing, whatever its filters.\<close>

lemma search_without_vector: "hybrid_search eng trace_id now b [] tags time_range k = ([], b)"
  by (simp add: hybrid_search_def hybrid_search_with_query_mode_def)

section \<open>Traces\<close>

lemma newest_first_comparator: "comparator (newest_first time) (\<lambda>_. True)"
  by unfold_locales (auto simp: newest_first_def)

lemma distinct_filter_notin:
  assumes "distinct (map f xs)" "mset ys = mset xs"
  shows "length (filter (\<lambda>x. f x \<notin> f ` set (drop n ys)) xs) \<le> n"
proof -
  have d: "distinct (map f ys)" using assms by (metis mset_map mset_eq_imp_distinct_iff)
  have "length (filter (\<lambda>x. f x \<notin> f ` set (drop n ys)) xs) = length (filter (\<lambda>x. f x \<notin> f ` set (drop n ys)) ys)"
    using assms(2) by (metis mset_filter size_mset)
  also have "filter (\<lambda>x. f x \<notin> f ` set (drop n ys)) ys = filter (\<lambda>x. f x \<notin> f ` set (drop n ys)) (take n ys)"
    by (subst append_take_drop_id[of n ys, symmetric], subst filter_append) (simp add: filter_empty_conv)
  also have "length \<dots> \<le> n" by (rule order_trans[OF length_filter_le]) simp
  finally show ?thesis .
qed

lemma purge_bound:
  assumes "distinct (map rt_trace_id (t_traces t))" "purge_old_traces_on keep t = Ok u"
  shows "length (t_traces u) \<le> keep \<and> (\<forall>h \<in> set (t_trace_hits u). h \<in> set (t_trace_hits t))"
  using assms distinct_filter_notin[OF assms(1), of "sort_by (newest_first rt_created_at) (t_traces t)" keep]
  by (auto simp: purge_old_traces_on_def usize_to_i64_def Let_def split: if_splits)

lemma append_purge_bound:
  assumes "distinct (map rt_trace_id (t_traces t))" "rt_trace_id r \<notin> rt_trace_id ` set (t_traces t)"
    "purge_old_traces_on keep (t\<lparr>t_traces := t_traces t @ [r], t_trace_hits := hs\<rparr>) = Ok u"
  shows "length (t_traces u) \<le> keep"
  using purge_bound[OF _ assms(3)] assms(1,2) by simp

lemma record_trace_bound:
  assumes "distinct (map rt_trace_id (t_traces (bk_tables b)))" "trace_id \<notin> rt_trace_id ` set (t_traces (bk_tables b))"
    "length (t_traces (bk_tables b)) \<le> rc_trace_retention_limit config"
  shows "length (t_traces (bk_tables (snd (record_retrieval_trace trace_id now qd qt tags tags_or tr k fk cc sc vh bh config b))))
    \<le> rc_trace_retention_limit config"
proof (cases "fst (record_retrieval_trace trace_id now qd qt tags tags_or tr k fk cc sc vh bh config b)")
  case (Ok x)
  let ?t = "bk_tables b" and ?r = "trace_row trace_id now qd qt tags tags_or tr k fk cc sc vh bh config"
  obtain u where "purge_old_traces_on (rc_trace_retention_limit config) (?t\<lparr>t_traces := t_traces ?t @ [?r], t_trace_hits := t_trace_hits ?t
        @ map (\<lambda>(rank, hit). trace_hit config b trace_id vh bh rank hit) (zip [0..<length sc] sc)\<rparr>) = Ok u"
      "snd (record_retrieval_trace trace_id now qd qt tags tags_or tr k fk cc sc vh bh config b) = b\<lparr>bk_tables := u\<rparr>"
    using Ok unfolding record_retrieval_trace_def transact_unit_def transact_def
    by (auto simp: outcome_simps split: outcome.splits)
  then show ?thesis using append_purge_bound[of ?t ?r] assms(1,2) by (simp add: trace_row_def)
qed (use assms(3) in \<open>auto simp: record_retrieval_trace_def transact_unit_def transact_def split: outcome.splits\<close>)

text \<open>
  A search leaves at most as many traces as the configuration keeps, if that many were kept before.
\<close>

theorem traces_bounded:
  assumes "distinct (map rt_trace_id (t_traces (bk_tables b)))" "trace_id \<notin> rt_trace_id ` set (t_traces (bk_tables b))"
    "length (t_traces (bk_tables b)) \<le> rc_trace_retention_limit (bk_config b)"
  shows "length (t_traces (bk_tables (snd (hybrid_search_with_query_mode eng trace_id now b query query_text tags tags_or time_range k))))
    \<le> rc_trace_retention_limit (bk_config b)"
  using record_trace_bound[OF assms] assms(3) by (simp add: hybrid_search_with_query_mode_def split: prod.splits)

theorem traces_bounded_witness:
  "length (t_traces (bk_tables (snd (hybrid_search_with_query_mode sample_engine ''t'' 0 (set_retrieval_tracing sample_store True)
     [Fin 1, Fin 0] None None False None 3)))) \<le> rc_trace_retention_limit (bk_config (set_retrieval_tracing sample_store True))"
  by (rule traces_bounded) (simp_all add: set_retrieval_tracing_def sample_store_def init_tables_def)

end
