(* ===== verification/Sqlite_Knowledge.thy ===== *)
theory Sqlite_Knowledge
  imports Sqlite_Search
begin

text \<open>
  What the SQLite store knows besides the memories (\<open>mentedb-sqlite/src/lib.rs\<close>): their sources, conversations, extraction runs,
  entities with their aliases, claims and relationships with their evidence. The writers and the readers, and that no foreign
  key of the schema ever dangles.
\<close>

section \<open>New records\<close>

text \<open>The constructors of the records: the identifier and the clock are arguments.\<close>

definition lifecycle_event_new :: "string \<Rightarrow> Timestamp \<Rightarrow> MemoryId \<Rightarrow> string \<Rightarrow> MemoryLifecycleEvent" where
  "lifecycle_event_new uuid now mid event_type = \<lparr> le_event_id = uuid, le_memory_id = mid, le_event_type = event_type,
     le_reason = None, le_policy = None, le_payload_json = ''{}'', le_created_at = now \<rparr>"

definition policy_run_new :: "string \<Rightarrow> Timestamp \<Rightarrow> string \<Rightarrow> string \<Rightarrow> PolicyRun" where
  "policy_run_new uuid now policy_name mode = \<lparr> pr_run_id = uuid, pr_policy_name = policy_name, pr_policy_version = ''v1'',
     pr_mode = mode, pr_status = ''planned'', pr_scope_json = ''{}'', pr_result_json = ''{}'', pr_started_at = now, pr_completed_at = None \<rparr>"

definition policy_action_new :: "string \<Rightarrow> Timestamp \<Rightarrow> string \<Rightarrow> string \<Rightarrow> string \<Rightarrow> string option \<Rightarrow> PolicyAction" where
  "policy_action_new uuid now run_id action_type target_type target_id = \<lparr> pa_action_id = uuid, pa_run_id = run_id,
     pa_action_type = action_type, pa_target_type = target_type, pa_target_id = target_id, pa_before_json = ''{}'',
     pa_after_json = ''{}'', pa_status = ''planned'', pa_created_at = now \<rparr>"

definition memory_source_new :: "string \<Rightarrow> Timestamp \<Rightarrow> MemoryId \<Rightarrow> string \<Rightarrow> MemorySource" where
  "memory_source_new uuid now mid source_type = \<lparr> ms_source_id = uuid, ms_memory_id = mid, ms_source_type = source_type,
     ms_conversation_id = None, ms_turn_id = None, ms_actor_id = None, ms_observed_at = None, ms_extractor = None,
     ms_extractor_hash = None, ms_prompt_hash = None, ms_payload_json = ''{}'', ms_created_at = now \<rparr>"

definition entity_record_new :: "string \<Rightarrow> Timestamp \<Rightarrow> string \<Rightarrow> string \<Rightarrow> EntityRecord" where
  "entity_record_new uuid now entity_type canonical = \<lparr> en_entity_id = uuid, en_entity_type = entity_type,
     en_canonical = canonical, en_attributes_json = ''{}'', en_confidence = Fin 1, en_created_at = now, en_updated_at = now \<rparr>"

definition conversation_record_new :: "Timestamp \<Rightarrow> string \<Rightarrow> ConversationRecord" where
  "conversation_record_new now conversation_id = \<lparr> cv_conversation_id = conversation_id, cv_title = None,
     cv_metadata_json = ''{}'', cv_created_at = now, cv_updated_at = now \<rparr>"

definition conversation_event_new :: "string \<Rightarrow> Timestamp \<Rightarrow> string \<Rightarrow> string \<Rightarrow> ConversationEvent" where
  "conversation_event_new uuid now conversation_id event_type = \<lparr> ce_event_id = uuid, ce_conversation_id = conversation_id,
     ce_turn_id = None, ce_event_type = event_type, ce_actor_id = None, ce_content = None, ce_payload_json = ''{}'',
     ce_observed_at = now, ce_created_at = now \<rparr>"

definition extraction_run_new :: "string \<Rightarrow> Timestamp \<Rightarrow> string \<Rightarrow> string \<Rightarrow> ExtractionRun" where
  "extraction_run_new uuid now extractor extractor_version = \<lparr> xr_run_id = uuid, xr_source_memory_id = None,
     xr_conversation_id = None, xr_extractor = extractor, xr_extractor_version = extractor_version, xr_model = None,
     xr_prompt_hash = None, xr_config_hash = None, xr_status = ''pending'', xr_error = None, xr_output_json = ''{}'',
     xr_started_at = now, xr_completed_at = None \<rparr>"

definition claim_record_new :: "string \<Rightarrow> Timestamp \<Rightarrow> string \<Rightarrow> string \<Rightarrow> ClaimRecord" where
  "claim_record_new uuid now claim_text claim_type = \<lparr> cl_claim_id = uuid, cl_claim_text = claim_text, cl_claim_type = claim_type,
     cl_subject_entity_id = None, cl_predicate = None, cl_object_entity_id = None, cl_confidence = Fin 1, cl_status = ''active'',
     cl_valid_from = None, cl_valid_until = None, cl_attributes_json = ''{}'', cl_source_run_id = None, cl_created_at = now,
     cl_updated_at = now \<rparr>"

definition claim_evidence_new :: "string \<Rightarrow> Timestamp \<Rightarrow> string \<Rightarrow> MemoryId \<Rightarrow> ClaimEvidence" where
  "claim_evidence_new uuid now claim_id mid = \<lparr> cx_evidence_id = uuid, cx_claim_id = claim_id, cx_memory_id = mid,
     cx_source_id = None, cx_evidence_text = None, cx_span_start = None, cx_span_end = None, cx_confidence = Fin 1,
     cx_created_at = now \<rparr>"

definition entity_relationship_new :: "string \<Rightarrow> Timestamp \<Rightarrow> string \<Rightarrow> string \<Rightarrow> string \<Rightarrow> EntityRelationship" where
  "entity_relationship_new uuid now source_entity target_entity relation_type = \<lparr> rl_relationship_id = uuid,
     rl_source_entity_id = source_entity, rl_target_entity_id = target_entity, rl_relation_type = relation_type,
     rl_confidence = Fin 1, rl_status = ''active'', rl_valid_from = None, rl_valid_until = None, rl_attributes_json = ''{}'',
     rl_source_run_id = None, rl_created_at = now, rl_updated_at = now \<rparr>"

definition relationship_evidence_new :: "string \<Rightarrow> Timestamp \<Rightarrow> string \<Rightarrow> MemoryId \<Rightarrow> RelationshipEvidence" where
  "relationship_evidence_new uuid now relationship_id mid = \<lparr> rx_evidence_id = uuid, rx_relationship_id = relationship_id,
     rx_memory_id = mid, rx_source_id = None, rx_evidence_text = None, rx_span_start = None, rx_span_end = None,
     rx_confidence = Fin 1, rx_created_at = now \<rparr>"

section \<open>Writers\<close>

text \<open>
  Each writes one row with \<open>INSERT ... ON CONFLICT DO UPDATE\<close> and an audit record. A NaN is bound as \<open>NULL\<close> and violates
  \<open>NOT NULL\<close>; a reference to a missing row violates a foreign key.
\<close>

definition fk_check :: "bool \<Rightarrow> unit MenteResult" where
  "fk_check holds = (if holds then Ok () else foreign_key_failed)"

definition insert_memory_source_on :: "Env \<Rightarrow> MemorySource \<Rightarrow> Tables \<Rightarrow> Tables MenteResult" where
  "insert_memory_source_on env s t =
     bindO (fk_check (ref_ok mr_id (Some (ms_memory_id s)) (t_memories t))) (\<lambda>_.
     Ok (record_operation_on env ''memory_source_upsert'' (Some (ms_memory_id s)) None None
       [(''source_id'', F_Str (ms_source_id s)), (''source_type'', F_Str (ms_source_type s)),
        (''conversation_id'', F_OptStr (ms_conversation_id s)), (''turn_id'', F_OptStr (ms_turn_id s)),
        (''actor_id'', F_OptStr (ms_actor_id s)), (''observed_at'', F_OptTime (ms_observed_at s)),
        (''extractor'', F_OptStr (ms_extractor s)), (''extractor_hash'', F_OptStr (ms_extractor_hash s)),
        (''prompt_hash'', F_OptStr (ms_prompt_hash s))]
       (t\<lparr>t_memory_sources := upsert ms_source_id (\<lambda>q r. r) s (t_memory_sources t)\<rparr>)))"

definition upsert_entity_on :: "Env \<Rightarrow> EntityRecord \<Rightarrow> Tables \<Rightarrow> Tables MenteResult" where
  "upsert_entity_on env e t =
     bindO (not_null_real ''entities.confidence'' (en_confidence e) ()) (\<lambda>_.
     Ok (record_operation_on env ''entity_upsert'' None None None
       [(''entity_id'', F_Str (en_entity_id e)), (''entity_type'', F_Str (en_entity_type e)),
        (''canonical'', F_Str (en_canonical e)), (''confidence'', F_Real (en_confidence e))]
       (t\<lparr>t_entities := upsert en_entity_id (\<lambda>q r. r\<lparr>en_created_at := en_created_at q\<rparr>) e (t_entities t)\<rparr>)))"

definition add_entity_alias_on :: "Env \<Rightarrow> EntityAlias \<Rightarrow> Tables \<Rightarrow> Tables MenteResult" where
  "add_entity_alias_on env a t =
     bindO (not_null_real ''entity_aliases.confidence'' (ea_confidence a) ()) (\<lambda>_.
     bindO (fk_check (ref_ok en_entity_id (Some (ea_entity_id a)) (t_entities t))) (\<lambda>_.
     Ok (record_operation_on env ''entity_alias_upsert'' None None None
       [(''entity_id'', F_Str (ea_entity_id a)), (''alias'', F_Str (ea_alias a)), (''source'', F_OptStr (ea_source a)),
        (''confidence'', F_Real (ea_confidence a))]
       (t\<lparr>t_entity_aliases := upsert (\<lambda>a. (ea_entity_id a, ea_alias a)) (\<lambda>q r. r) a (t_entity_aliases t)\<rparr>))))"

text \<open>The role of a link is a column without \<open>NULL\<close>: no role is the empty string.\<close>

definition role_column :: "string option \<Rightarrow> string option" where
  "role_column role = Some (case role of None \<Rightarrow> [] | Some r \<Rightarrow> r)"

definition link_memory_entity_on :: "Env \<Rightarrow> MemoryEntityLink \<Rightarrow> Tables \<Rightarrow> Tables MenteResult" where
  "link_memory_entity_on env l t =
     bindO (not_null_real ''memory_entities.confidence'' (ml_confidence l) ()) (\<lambda>_.
     bindO (fk_check (ref_ok mr_id (Some (ml_memory_id l)) (t_memories t)
       \<and> ref_ok en_entity_id (Some (ml_entity_id l)) (t_entities t))) (\<lambda>_.
     Ok (record_operation_on env ''memory_entity_link_upsert'' (Some (ml_memory_id l)) None None
       [(''entity_id'', F_Str (ml_entity_id l)), (''role'', F_OptStr (ml_role l)), (''confidence'', F_Real (ml_confidence l)),
        (''evidence'', F_OptStr (ml_evidence l))]
       (t\<lparr>t_memory_entities := upsert (\<lambda>l. (ml_memory_id l, ml_entity_id l, ml_role l)) (\<lambda>q r. r)
            (l\<lparr>ml_role := role_column (ml_role l)\<rparr>) (t_memory_entities t)\<rparr>))))"

definition upsert_conversation_on :: "Env \<Rightarrow> ConversationRecord \<Rightarrow> Tables \<Rightarrow> Tables MenteResult" where
  "upsert_conversation_on env c t =
     Ok (record_operation_on env ''conversation_upsert'' None None None
       [(''conversation_id'', F_Str (cv_conversation_id c)), (''title'', F_OptStr (cv_title c))]
       (t\<lparr>t_conversations := upsert cv_conversation_id (\<lambda>q r. r\<lparr>cv_created_at := cv_created_at q\<rparr>) c (t_conversations t)\<rparr>))"

definition insert_conversation_event_on :: "Env \<Rightarrow> ConversationEvent \<Rightarrow> Tables \<Rightarrow> Tables MenteResult" where
  "insert_conversation_event_on env e t =
     bindO (fk_check (ref_ok cv_conversation_id (Some (ce_conversation_id e)) (t_conversations t))) (\<lambda>_.
     Ok (record_operation_on env ''conversation_event_upsert'' None None None
       [(''event_id'', F_Str (ce_event_id e)), (''conversation_id'', F_Str (ce_conversation_id e)),
        (''turn_id'', F_OptStr (ce_turn_id e)), (''event_type'', F_Str (ce_event_type e)), (''actor_id'', F_OptStr (ce_actor_id e)),
        (''observed_at'', F_Nat (ce_observed_at e))]
       (t\<lparr>t_conversation_events := upsert ce_event_id (\<lambda>q r. r\<lparr>ce_created_at := ce_created_at q\<rparr>) e (t_conversation_events t)\<rparr>)))"

definition upsert_extraction_run_on :: "Env \<Rightarrow> ExtractionRun \<Rightarrow> Tables \<Rightarrow> Tables MenteResult" where
  "upsert_extraction_run_on env x t =
     bindO (fk_check (ref_ok mr_id (xr_source_memory_id x) (t_memories t)
       \<and> ref_ok cv_conversation_id (xr_conversation_id x) (t_conversations t))) (\<lambda>_.
     Ok (record_operation_on env ''extraction_run_upsert'' (xr_source_memory_id x) None None
       [(''run_id'', F_Str (xr_run_id x)), (''conversation_id'', F_OptStr (xr_conversation_id x)),
        (''extractor'', F_Str (xr_extractor x)), (''extractor_version'', F_Str (xr_extractor_version x)),
        (''model'', F_OptStr (xr_model x)), (''prompt_hash'', F_OptStr (xr_prompt_hash x)),
        (''config_hash'', F_OptStr (xr_config_hash x)), (''status'', F_Str (xr_status x))]
       (t\<lparr>t_extraction_runs := upsert xr_run_id (\<lambda>q r. r\<lparr>xr_started_at := xr_started_at q\<rparr>) x (t_extraction_runs t)\<rparr>)))"

definition upsert_claim_on :: "Env \<Rightarrow> ClaimRecord \<Rightarrow> Tables \<Rightarrow> Tables MenteResult" where
  "upsert_claim_on env c t =
     bindO (not_null_real ''claims.confidence'' (cl_confidence c) ()) (\<lambda>_.
     bindO (fk_check (ref_ok en_entity_id (cl_subject_entity_id c) (t_entities t)
       \<and> ref_ok en_entity_id (cl_object_entity_id c) (t_entities t)
       \<and> ref_ok xr_run_id (cl_source_run_id c) (t_extraction_runs t))) (\<lambda>_.
     Ok (record_operation_on env ''claim_upsert'' None None None
       [(''claim_id'', F_Str (cl_claim_id c)), (''claim_type'', F_Str (cl_claim_type c)),
        (''subject_entity_id'', F_OptStr (cl_subject_entity_id c)), (''predicate'', F_OptStr (cl_predicate c)),
        (''object_entity_id'', F_OptStr (cl_object_entity_id c)), (''confidence'', F_Real (cl_confidence c)),
        (''status'', F_Str (cl_status c)), (''source_run_id'', F_OptStr (cl_source_run_id c))]
       (t\<lparr>t_claims := upsert cl_claim_id (\<lambda>q r. r\<lparr>cl_created_at := cl_created_at q\<rparr>) c (t_claims t)\<rparr>))))"

definition link_claim_entity_on :: "Env \<Rightarrow> ClaimEntityLink \<Rightarrow> Tables \<Rightarrow> Tables MenteResult" where
  "link_claim_entity_on env l t =
     bindO (not_null_real ''claim_entities.confidence'' (ck_confidence l) ()) (\<lambda>_.
     bindO (fk_check (ref_ok cl_claim_id (Some (ck_claim_id l)) (t_claims t)
       \<and> ref_ok en_entity_id (Some (ck_entity_id l)) (t_entities t))) (\<lambda>_.
     Ok (record_operation_on env ''claim_entity_link_upsert'' None None None
       [(''claim_id'', F_Str (ck_claim_id l)), (''entity_id'', F_Str (ck_entity_id l)), (''role'', F_Str (ck_role l)),
        (''confidence'', F_Real (ck_confidence l))]
       (t\<lparr>t_claim_entities := upsert (\<lambda>l. (ck_claim_id l, ck_entity_id l, ck_role l)) (\<lambda>q r. r) l (t_claim_entities t)\<rparr>))))"

definition add_claim_evidence_on :: "Env \<Rightarrow> ClaimEvidence \<Rightarrow> Tables \<Rightarrow> Tables MenteResult" where
  "add_claim_evidence_on env e t =
     bindO (not_null_real ''claim_evidence.confidence'' (cx_confidence e) ()) (\<lambda>_.
     bindO (fk_check (ref_ok cl_claim_id (Some (cx_claim_id e)) (t_claims t) \<and> ref_ok mr_id (Some (cx_memory_id e)) (t_memories t)
       \<and> ref_ok ms_source_id (cx_source_id e) (t_memory_sources t))) (\<lambda>_.
     Ok (record_operation_on env ''claim_evidence_upsert'' (Some (cx_memory_id e)) None None
       [(''evidence_id'', F_Str (cx_evidence_id e)), (''claim_id'', F_Str (cx_claim_id e)),
        (''source_id'', F_OptStr (cx_source_id e)), (''confidence'', F_Real (cx_confidence e))]
       (t\<lparr>t_claim_evidence := upsert cx_evidence_id (\<lambda>q r. r\<lparr>cx_created_at := cx_created_at q\<rparr>) e (t_claim_evidence t)\<rparr>))))"

definition upsert_entity_relationship_on :: "Env \<Rightarrow> EntityRelationship \<Rightarrow> Tables \<Rightarrow> Tables MenteResult" where
  "upsert_entity_relationship_on env r t =
     bindO (not_null_real ''entity_relationships.confidence'' (rl_confidence r) ()) (\<lambda>_.
     bindO (fk_check (ref_ok en_entity_id (Some (rl_source_entity_id r)) (t_entities t)
       \<and> ref_ok en_entity_id (Some (rl_target_entity_id r)) (t_entities t)
       \<and> ref_ok xr_run_id (rl_source_run_id r) (t_extraction_runs t))) (\<lambda>_.
     Ok (record_operation_on env ''entity_relationship_upsert'' None None None
       [(''relationship_id'', F_Str (rl_relationship_id r)), (''source_entity_id'', F_Str (rl_source_entity_id r)),
        (''target_entity_id'', F_Str (rl_target_entity_id r)), (''relation_type'', F_Str (rl_relation_type r)),
        (''confidence'', F_Real (rl_confidence r)), (''status'', F_Str (rl_status r)),
        (''source_run_id'', F_OptStr (rl_source_run_id r))]
       (t\<lparr>t_relationships := upsert rl_relationship_id (\<lambda>q r. r\<lparr>rl_created_at := rl_created_at q\<rparr>) r (t_relationships t)\<rparr>))))"

definition add_relationship_evidence_on :: "Env \<Rightarrow> RelationshipEvidence \<Rightarrow> Tables \<Rightarrow> Tables MenteResult" where
  "add_relationship_evidence_on env e t =
     bindO (not_null_real ''relationship_evidence.confidence'' (rx_confidence e) ()) (\<lambda>_.
     bindO (fk_check (ref_ok rl_relationship_id (Some (rx_relationship_id e)) (t_relationships t)
       \<and> ref_ok mr_id (Some (rx_memory_id e)) (t_memories t) \<and> ref_ok ms_source_id (rx_source_id e) (t_memory_sources t))) (\<lambda>_.
     Ok (record_operation_on env ''relationship_evidence_upsert'' (Some (rx_memory_id e)) None None
       [(''evidence_id'', F_Str (rx_evidence_id e)), (''relationship_id'', F_Str (rx_relationship_id e)),
        (''source_id'', F_OptStr (rx_source_id e)), (''confidence'', F_Real (rx_confidence e))]
       (t\<lparr>t_relationship_evidence := upsert rx_evidence_id (\<lambda>q r. r\<lparr>rx_created_at := rx_created_at q\<rparr>) e
            (t_relationship_evidence t)\<rparr>))))"

section \<open>Transactions\<close>

text \<open>The message of a source that points at another memory is an argument: it prints random identifiers.\<close>

definition store_memory_with_source :: "Env \<Rightarrow> AttrCodec \<Rightarrow> (MemorySource \<Rightarrow> MemoryNode \<Rightarrow> string) \<Rightarrow> Backend \<Rightarrow> MemoryNode \<Rightarrow> MemorySource
    \<Rightarrow> unit MenteResult \<times> Backend" where
  "store_memory_with_source env codec message b m s =
     (if ms_memory_id s \<noteq> mn_id m then (Err (Storage (message s m)), b)
      else case check_dim (bk_dim b) m of
        Ok _ \<Rightarrow> transact_unit b (\<lambda>t. bindO (store_memory_on env codec (bk_dim b) m t) (insert_memory_source_on env s))
      | Err e \<Rightarrow> (Err e, b) | Panic \<Rightarrow> (Panic, b))"

definition touch_conversation :: "ConversationEvent \<Rightarrow> ConversationRecord list \<Rightarrow> ConversationRecord list" where
  "touch_conversation e rows =
     map (\<lambda>c. if cv_conversation_id c = ce_conversation_id e
              then c\<lparr>cv_updated_at := as_u64 (max (as_i64 (cv_updated_at c)) (as_i64 (ce_observed_at e)))\<rparr> else c)
       (upsert cv_conversation_id (\<lambda>q r. q) \<lparr> cv_conversation_id = ce_conversation_id e, cv_title = None, cv_metadata_json = ''{}'',
          cv_created_at = ce_created_at e, cv_updated_at = ce_created_at e \<rparr> rows)"

definition add_conversation_event :: "Env \<Rightarrow> Backend \<Rightarrow> ConversationEvent \<Rightarrow> unit MenteResult \<times> Backend" where
  "add_conversation_event env b e = transact_unit b (\<lambda>t.
     insert_conversation_event_on env e (t\<lparr>t_conversations := touch_conversation e (t_conversations t)\<rparr>))"

definition add_memory_source :: "Env \<Rightarrow> Backend \<Rightarrow> MemorySource \<Rightarrow> unit MenteResult \<times> Backend" where
  "add_memory_source env b s = transact_unit b (insert_memory_source_on env s)"

definition upsert_conversation :: "Env \<Rightarrow> Backend \<Rightarrow> ConversationRecord \<Rightarrow> unit MenteResult \<times> Backend" where
  "upsert_conversation env b c = transact_unit b (upsert_conversation_on env c)"

definition upsert_extraction_run :: "Env \<Rightarrow> Backend \<Rightarrow> ExtractionRun \<Rightarrow> unit MenteResult \<times> Backend" where
  "upsert_extraction_run env b x = transact_unit b (upsert_extraction_run_on env x)"

definition upsert_entity :: "Env \<Rightarrow> Backend \<Rightarrow> EntityRecord \<Rightarrow> unit MenteResult \<times> Backend" where
  "upsert_entity env b e = transact_unit b (upsert_entity_on env e)"

definition add_entity_alias :: "Env \<Rightarrow> Backend \<Rightarrow> EntityAlias \<Rightarrow> unit MenteResult \<times> Backend" where
  "add_entity_alias env b a = transact_unit b (add_entity_alias_on env a)"

definition link_memory_entity :: "Env \<Rightarrow> Backend \<Rightarrow> MemoryEntityLink \<Rightarrow> unit MenteResult \<times> Backend" where
  "link_memory_entity env b l = transact_unit b (link_memory_entity_on env l)"

definition entity_bundle_on :: "Env \<Rightarrow> EntityRecord list \<Rightarrow> EntityAlias list \<Rightarrow> MemoryEntityLink list \<Rightarrow> Tables \<Rightarrow> Tables MenteResult" where
  "entity_bundle_on env entities aliases links t =
     bindO (for_each (upsert_entity_on env) entities t) (\<lambda>t.
     bindO (for_each (add_entity_alias_on env) aliases t) (\<lambda>t.
     for_each (link_memory_entity_on env) links t))"

definition upsert_entity_bundle :: "Env \<Rightarrow> Backend \<Rightarrow> EntityRecord list \<Rightarrow> EntityAlias list \<Rightarrow> MemoryEntityLink list
    \<Rightarrow> unit MenteResult \<times> Backend" where
  "upsert_entity_bundle env b entities aliases links = transact_unit b (entity_bundle_on env entities aliases links)"

definition replace_memory_entity_bundle :: "Env \<Rightarrow> Backend \<Rightarrow> MemoryId \<Rightarrow> EntityRecord list \<Rightarrow> EntityAlias list \<Rightarrow> MemoryEntityLink list
    \<Rightarrow> unit MenteResult \<times> Backend" where
  "replace_memory_entity_bundle env b mid entities aliases links = transact_unit b (\<lambda>t.
     bindO (entity_bundle_on env entities aliases links
       (t\<lparr>t_memory_entities := filter (\<lambda>l. ml_memory_id l \<noteq> mid) (t_memory_entities t)\<rparr>)) (\<lambda>t.
     Ok (record_operation_on env ''memory_entity_links_replace'' (Some mid) None None
       [(''entity_count'', F_Nat (length entities)), (''alias_count'', F_Nat (length aliases)), (''link_count'', F_Nat (length links))] t)))"

definition upsert_claim :: "Env \<Rightarrow> Backend \<Rightarrow> ClaimRecord \<Rightarrow> unit MenteResult \<times> Backend" where
  "upsert_claim env b c = transact_unit b (upsert_claim_on env c)"

definition link_claim_entity :: "Env \<Rightarrow> Backend \<Rightarrow> ClaimEntityLink \<Rightarrow> unit MenteResult \<times> Backend" where
  "link_claim_entity env b l = transact_unit b (link_claim_entity_on env l)"

definition add_claim_evidence :: "Env \<Rightarrow> Backend \<Rightarrow> ClaimEvidence \<Rightarrow> unit MenteResult \<times> Backend" where
  "add_claim_evidence env b e = transact_unit b (add_claim_evidence_on env e)"

definition upsert_claim_bundle :: "Env \<Rightarrow> Backend \<Rightarrow> ClaimRecord \<Rightarrow> ClaimEntityLink list \<Rightarrow> ClaimEvidence list \<Rightarrow> unit MenteResult \<times> Backend" where
  "upsert_claim_bundle env b c links evidence = transact_unit b (\<lambda>t.
     bindO (upsert_claim_on env c t) (\<lambda>t. bindO (for_each (link_claim_entity_on env) links t) (\<lambda>t.
     for_each (add_claim_evidence_on env) evidence t)))"

definition upsert_entity_relationship :: "Env \<Rightarrow> Backend \<Rightarrow> EntityRelationship \<Rightarrow> unit MenteResult \<times> Backend" where
  "upsert_entity_relationship env b r = transact_unit b (upsert_entity_relationship_on env r)"

definition add_relationship_evidence :: "Env \<Rightarrow> Backend \<Rightarrow> RelationshipEvidence \<Rightarrow> unit MenteResult \<times> Backend" where
  "add_relationship_evidence env b e = transact_unit b (add_relationship_evidence_on env e)"

definition upsert_relationship_bundle :: "Env \<Rightarrow> Backend \<Rightarrow> EntityRelationship \<Rightarrow> RelationshipEvidence list \<Rightarrow> unit MenteResult \<times> Backend" where
  "upsert_relationship_bundle env b r evidence = transact_unit b (\<lambda>t.
     bindO (upsert_entity_relationship_on env r t) (\<lambda>t. for_each (add_relationship_evidence_on env) evidence t))"

record ExtractionArtifacts =
  xa_run :: ExtractionRun
  xa_entities :: "EntityRecord list"
  xa_entity_aliases :: "EntityAlias list"
  xa_memory_entities :: "MemoryEntityLink list"
  xa_claims :: "ClaimRecord list"
  xa_claim_entities :: "ClaimEntityLink list"
  xa_claim_evidence :: "ClaimEvidence list"
  xa_relationships :: "EntityRelationship list"
  xa_relationship_evidence :: "RelationshipEvidence list"

definition artifact_counts :: "ExtractionArtifacts \<Rightarrow> (string \<times> JsonField) list" where
  "artifact_counts a = [(''run_id'', F_Str (xr_run_id (xa_run a))), (''entity_count'', F_Nat (length (xa_entities a))),
     (''entity_alias_count'', F_Nat (length (xa_entity_aliases a))), (''memory_entity_count'', F_Nat (length (xa_memory_entities a))),
     (''claim_count'', F_Nat (length (xa_claims a))), (''claim_entity_count'', F_Nat (length (xa_claim_entities a))),
     (''claim_evidence_count'', F_Nat (length (xa_claim_evidence a))), (''relationship_count'', F_Nat (length (xa_relationships a))),
     (''relationship_evidence_count'', F_Nat (length (xa_relationship_evidence a)))]"

definition persist_extraction_artifacts :: "Env \<Rightarrow> Backend \<Rightarrow> ExtractionArtifacts \<Rightarrow> unit MenteResult \<times> Backend" where
  "persist_extraction_artifacts env b a = transact_unit b (\<lambda>t.
     bindO (upsert_extraction_run_on env (xa_run a) t) (\<lambda>t.
     bindO (entity_bundle_on env (xa_entities a) (xa_entity_aliases a) (xa_memory_entities a) t) (\<lambda>t.
     bindO (for_each (upsert_claim_on env) (xa_claims a) t) (\<lambda>t.
     bindO (for_each (link_claim_entity_on env) (xa_claim_entities a) t) (\<lambda>t.
     bindO (for_each (add_claim_evidence_on env) (xa_claim_evidence a) t) (\<lambda>t.
     bindO (for_each (upsert_entity_relationship_on env) (xa_relationships a) t) (\<lambda>t.
     bindO (for_each (add_relationship_evidence_on env) (xa_relationship_evidence a) t) (\<lambda>t.
     Ok (record_operation_on env ''extraction_artifacts_persist'' (xr_source_memory_id (xa_run a)) None None (artifact_counts a) t)))))))))"

section \<open>Readers\<close>

text \<open>
  A reader selects rows, orders them and converts their columns back: a time went through \<open>i64\<close>, a confidence through a
  double. Rows that the order does not separate come in the order of the table.
\<close>

definition read_time :: "Timestamp \<Rightarrow> Timestamp" where
  "read_time x = as_u64 (as_i64 x)"

definition more_confident :: "('r \<Rightarrow> f32) \<Rightarrow> ('r \<Rightarrow> 'r \<Rightarrow> bool) \<Rightarrow> 'r \<Rightarrow> 'r \<Rightarrow> bool" where
  "more_confident conf tie a b \<longleftrightarrow> fl_lt (conf b) (conf a) \<or> \<not> fl_lt (conf a) (conf b) \<and> tie a b"

definition oldest_first :: "('r \<Rightarrow> Timestamp) \<Rightarrow> 'r \<Rightarrow> 'r \<Rightarrow> bool" where
  "oldest_first time a b \<longleftrightarrow> as_i64 (time a) < as_i64 (time b)"

definition read_source :: "MemorySource \<Rightarrow> MemorySource" where
  "read_source s = s\<lparr>ms_observed_at := map_option read_time (ms_observed_at s), ms_created_at := read_time (ms_created_at s)\<rparr>"

definition memory_sources :: "Backend \<Rightarrow> MemoryId \<Rightarrow> MemorySource list" where
  "memory_sources b mid = map read_source (sort_by (newest_first ms_created_at)
     (filter (\<lambda>s. ms_memory_id s = mid) (t_memory_sources (bk_tables b))))"

definition read_event :: "ConversationEvent \<Rightarrow> ConversationEvent" where
  "read_event e = e\<lparr>ce_observed_at := read_time (ce_observed_at e), ce_created_at := read_time (ce_created_at e)\<rparr>"

definition event_before :: "ConversationEvent \<Rightarrow> ConversationEvent \<Rightarrow> bool" where
  "event_before a b \<longleftrightarrow> as_i64 (ce_observed_at a) < as_i64 (ce_observed_at b)
     \<or> as_i64 (ce_observed_at a) = as_i64 (ce_observed_at b) \<and> as_i64 (ce_created_at a) < as_i64 (ce_created_at b)"

definition conversation_events :: "Backend \<Rightarrow> string \<Rightarrow> nat \<Rightarrow> ConversationEvent list MenteResult" where
  "conversation_events b conversation_id limit = bindO (limit_rows limit (sort_by event_before
     (filter (\<lambda>e. ce_conversation_id e = conversation_id) (t_conversation_events (bk_tables b))))) (\<lambda>rows. Ok (map read_event rows))"

definition read_run :: "ExtractionRun \<Rightarrow> ExtractionRun" where
  "read_run x = x\<lparr>xr_started_at := read_time (xr_started_at x), xr_completed_at := map_option read_time (xr_completed_at x)\<rparr>"

definition recent_extraction_runs :: "Backend \<Rightarrow> nat \<Rightarrow> ExtractionRun list MenteResult" where
  "recent_extraction_runs b limit = bindO (limit_rows limit (sort_by (newest_first xr_started_at) (t_extraction_runs (bk_tables b))))
     (\<lambda>rows. Ok (map read_run rows))"

definition extraction_runs_for_memory :: "Backend \<Rightarrow> MemoryId \<Rightarrow> ExtractionRun list" where
  "extraction_runs_for_memory b mid = map read_run (sort_by (newest_first xr_started_at)
     (filter (\<lambda>x. xr_source_memory_id x = Some mid) (t_extraction_runs (bk_tables b))))"

definition read_entity :: "EntityRecord \<Rightarrow> EntityRecord" where
  "read_entity e = e\<lparr>en_confidence := f64_as_f32 (en_confidence e), en_created_at := read_time (en_created_at e),
     en_updated_at := read_time (en_updated_at e)\<rparr>"

definition get_entity :: "Backend \<Rightarrow> string \<Rightarrow> EntityRecord option" where
  "get_entity b entity_id = map_option read_entity (row_of en_entity_id entity_id (t_entities (bk_tables b)))"

definition entity_by_canonical :: "Backend \<Rightarrow> string \<Rightarrow> string \<Rightarrow> EntityRecord option" where
  "entity_by_canonical b entity_type canonical =
     (case sort_by (newest_first en_updated_at) (filter (\<lambda>e. en_entity_type e = entity_type \<and> en_canonical e = canonical)
        (t_entities (bk_tables b))) of [] \<Rightarrow> None | e # _ \<Rightarrow> Some (read_entity e))"

definition list_entities :: "Backend \<Rightarrow> nat \<Rightarrow> EntityRecord list MenteResult" where
  "list_entities b limit = bindO (limit_rows limit (sort_by (newest_first en_updated_at) (t_entities (bk_tables b))))
     (\<lambda>rows. Ok (map read_entity rows))"

definition read_alias :: "EntityAlias \<Rightarrow> EntityAlias" where
  "read_alias a = a\<lparr>ea_confidence := f64_as_f32 (ea_confidence a)\<rparr>"

definition entity_aliases :: "Backend \<Rightarrow> string \<Rightarrow> EntityAlias list" where
  "entity_aliases b entity_id = map read_alias (sort_by (\<lambda>x y. ea_alias x < ea_alias y)
     (filter (\<lambda>a. ea_entity_id a = entity_id) (t_entity_aliases (bk_tables b))))"

definition entities_by_alias :: "Backend \<Rightarrow> string \<Rightarrow> EntityRecord list" where
  "entities_by_alias b alias = map (read_entity \<circ> snd)
     (sort_by (more_confident (\<lambda>p. ea_confidence (fst p)) (newest_first (\<lambda>p. en_updated_at (snd p))))
       (concat (map (\<lambda>a. map (Pair a) (filter (\<lambda>e. en_entity_id e = ea_entity_id a) (t_entities (bk_tables b))))
         (filter (\<lambda>a. ea_alias a = alias) (t_entity_aliases (bk_tables b))))))"

definition read_link :: "MemoryEntityLink \<Rightarrow> MemoryEntityLink" where
  "read_link l = l\<lparr>ml_role := (case ml_role l of Some r \<Rightarrow> if r = [] then None else Some r | None \<Rightarrow> None),
     ml_confidence := f64_as_f32 (ml_confidence l)\<rparr>"

definition memory_entity_links :: "Backend \<Rightarrow> MemoryId \<Rightarrow> MemoryEntityLink list" where
  "memory_entity_links b mid = map read_link (sort_by (more_confident ml_confidence (\<lambda>x y. ml_entity_id x < ml_entity_id y))
     (filter (\<lambda>l. ml_memory_id l = mid) (t_memory_entities (bk_tables b))))"

definition memories_for_entity :: "Backend \<Rightarrow> string \<Rightarrow> MemoryEntityLink list" where
  "memories_for_entity b entity_id = map read_link (sort_by (more_confident ml_confidence (\<lambda>x y. ml_memory_id x < ml_memory_id y))
     (filter (\<lambda>l. ml_entity_id l = entity_id) (t_memory_entities (bk_tables b))))"

definition read_claim :: "ClaimRecord \<Rightarrow> ClaimRecord" where
  "read_claim c = c\<lparr>cl_confidence := f64_as_f32 (cl_confidence c), cl_valid_from := map_option read_time (cl_valid_from c),
     cl_valid_until := map_option read_time (cl_valid_until c), cl_created_at := read_time (cl_created_at c),
     cl_updated_at := read_time (cl_updated_at c)\<rparr>"

definition claims_for_entity :: "Backend \<Rightarrow> string \<Rightarrow> ClaimRecord list" where
  "claims_for_entity b entity_id = map read_claim (sort_by (newest_first cl_updated_at)
     (concat (map (\<lambda>c. replicate (length (filter (\<lambda>l. ck_claim_id l = cl_claim_id c \<and> ck_entity_id l = entity_id)
       (t_claim_entities (bk_tables b)))) c) (t_claims (bk_tables b)))))"

definition claims_for_memory :: "Backend \<Rightarrow> MemoryId \<Rightarrow> ClaimRecord list" where
  "claims_for_memory b mid = map read_claim (sort_by (newest_first cl_updated_at)
     (filter (\<lambda>c. \<exists>e \<in> set (t_claim_evidence (bk_tables b)). cx_claim_id e = cl_claim_id c \<and> cx_memory_id e = mid)
       (t_claims (bk_tables b))))"

definition read_claim_evidence :: "ClaimEvidence \<Rightarrow> ClaimEvidence" where
  "read_claim_evidence e = e\<lparr>cx_confidence := f64_as_f32 (cx_confidence e), cx_created_at := read_time (cx_created_at e)\<rparr>"

definition claim_evidence :: "Backend \<Rightarrow> string \<Rightarrow> ClaimEvidence list" where
  "claim_evidence b claim_id = map read_claim_evidence (sort_by (more_confident cx_confidence (oldest_first cx_created_at))
     (filter (\<lambda>e. cx_claim_id e = claim_id) (t_claim_evidence (bk_tables b))))"

definition read_relationship :: "EntityRelationship \<Rightarrow> EntityRelationship" where
  "read_relationship r = r\<lparr>rl_confidence := f64_as_f32 (rl_confidence r), rl_valid_from := map_option read_time (rl_valid_from r),
     rl_valid_until := map_option read_time (rl_valid_until r), rl_created_at := read_time (rl_created_at r),
     rl_updated_at := read_time (rl_updated_at r)\<rparr>"

definition relationships_for_entity :: "Backend \<Rightarrow> string \<Rightarrow> EntityRelationship list" where
  "relationships_for_entity b entity_id = map read_relationship (sort_by (newest_first rl_updated_at)
     (filter (\<lambda>r. rl_source_entity_id r = entity_id \<or> rl_target_entity_id r = entity_id) (t_relationships (bk_tables b))))"

definition read_relationship_evidence :: "RelationshipEvidence \<Rightarrow> RelationshipEvidence" where
  "read_relationship_evidence e = e\<lparr>rx_confidence := f64_as_f32 (rx_confidence e), rx_created_at := read_time (rx_created_at e)\<rparr>"

definition relationship_evidence :: "Backend \<Rightarrow> string \<Rightarrow> RelationshipEvidence list" where
  "relationship_evidence b relationship_id = map read_relationship_evidence
     (sort_by (more_confident rx_confidence (oldest_first rx_created_at))
       (filter (\<lambda>e. rx_relationship_id e = relationship_id) (t_relationship_evidence (bk_tables b))))"

definition relationships_for_memory :: "Backend \<Rightarrow> MemoryId \<Rightarrow> EntityRelationship list" where
  "relationships_for_memory b mid = map read_relationship (sort_by (newest_first rl_updated_at)
     (filter (\<lambda>r. \<exists>e \<in> set (t_relationship_evidence (bk_tables b)). rx_relationship_id e = rl_relationship_id r \<and> rx_memory_id e = mid)
       (t_relationships (bk_tables b))))"

text \<open>A \<open>UNION\<close> removes duplicates and orders by the text of the identifiers, which is the order of their numbers.\<close>

definition memory_ids_for_conversation :: "Backend \<Rightarrow> string \<Rightarrow> MemoryId list" where
  "memory_ids_for_conversation b conversation_id = sort (remdups
     (map ms_memory_id (filter (\<lambda>s. ms_conversation_id s = Some conversation_id) (t_memory_sources (bk_tables b)))
      @ List.map_filter (\<lambda>x. if xr_conversation_id x = Some conversation_id then xr_source_memory_id x else None)
          (t_extraction_runs (bk_tables b))))"

definition read_policy_run :: "PolicyRun \<Rightarrow> PolicyRun" where
  "read_policy_run r = r\<lparr>pr_started_at := read_time (pr_started_at r), pr_completed_at := map_option read_time (pr_completed_at r)\<rparr>"

definition recent_policy_runs :: "Backend \<Rightarrow> nat \<Rightarrow> PolicyRun list MenteResult" where
  "recent_policy_runs b limit = bindO (limit_rows limit (sort_by (newest_first pr_started_at) (t_policy_runs (bk_tables b))))
     (\<lambda>rows. Ok (map read_policy_run rows))"

definition policy_actions_for_run :: "Backend \<Rightarrow> string \<Rightarrow> PolicyAction list" where
  "policy_actions_for_run b run_id = map (\<lambda>a. a\<lparr>pa_created_at := read_time (pa_created_at a)\<rparr>)
     (sort_by (oldest_first pa_created_at) (filter (\<lambda>a. pa_run_id a = run_id) (t_policy_actions (bk_tables b))))"

definition read_lifecycle_event :: "MemoryLifecycleEvent \<Rightarrow> MemoryLifecycleEvent" where
  "read_lifecycle_event e = e\<lparr>le_created_at := read_time (le_created_at e)\<rparr>"

definition lifecycle_events_for_memory :: "Backend \<Rightarrow> MemoryId \<Rightarrow> nat \<Rightarrow> MemoryLifecycleEvent list MenteResult" where
  "lifecycle_events_for_memory b mid limit = bindO (limit_rows limit (sort_by (newest_first le_created_at)
     (filter (\<lambda>e. le_memory_id e = mid) (t_lifecycle_events (bk_tables b))))) (\<lambda>rows. Ok (map read_lifecycle_event rows))"

definition recent_lifecycle_events :: "Backend \<Rightarrow> nat \<Rightarrow> MemoryLifecycleEvent list MenteResult" where
  "recent_lifecycle_events b limit = bindO (limit_rows limit (sort_by (newest_first le_created_at) (t_lifecycle_events (bk_tables b))))
     (\<lambda>rows. Ok (map read_lifecycle_event rows))"

definition read_operation :: "MemoryOperation \<Rightarrow> MemoryOperation" where
  "read_operation x = x\<lparr>op_created_at := read_time (op_created_at x)\<rparr>"

definition recent_operations :: "Backend \<Rightarrow> nat \<Rightarrow> MemoryOperation list MenteResult" where
  "recent_operations b limit = bindO (limit_rows limit (sort_by (newest_first op_created_at) (t_operations (bk_tables b))))
     (\<lambda>rows. Ok (map read_operation rows))"

definition operations_for_memory :: "Backend \<Rightarrow> MemoryId \<Rightarrow> nat \<Rightarrow> MemoryOperation list MenteResult" where
  "operations_for_memory b mid limit = bindO (limit_rows limit (sort_by (newest_first op_created_at)
     (filter (\<lambda>x. op_memory_id x = Some mid \<or> op_source x = Some mid \<or> op_target x = Some mid) (t_operations (bk_tables b)))))
     (\<lambda>rows. Ok (map read_operation rows))"

definition read_trace :: "RetrievalTrace \<Rightarrow> RetrievalTrace" where
  "read_trace r = r\<lparr>rt_time_range := map_option (map_prod read_time read_time) (rt_time_range r),
     rt_created_at := read_time (rt_created_at r)\<rparr>"

definition recent_retrieval_traces :: "Backend \<Rightarrow> nat \<Rightarrow> RetrievalTrace list MenteResult" where
  "recent_retrieval_traces b limit = bindO (limit_rows limit (sort_by (newest_first rt_created_at) (t_traces (bk_tables b))))
     (\<lambda>rows. Ok (map read_trace rows))"

definition retrieval_trace_hits :: "Backend \<Rightarrow> string \<Rightarrow> RetrievalTraceHit list" where
  "retrieval_trace_hits b trace_id = map (\<lambda>h. h\<lparr>rh_score := f64_as_f32 (rh_score h), rh_salience := map_option f64_as_f32 (rh_salience h)\<rparr>)
     (sort_by (\<lambda>x y. rh_rank x < rh_rank y) (filter (\<lambda>h. rh_trace_id h = trace_id) (t_trace_hits (bk_tables b))))"

section \<open>Referential integrity\<close>

text \<open>Every reference of a row to a table is to one of the table's keys.\<close>

definition refs_in :: "'k set \<Rightarrow> ('r \<Rightarrow> 'k option) \<Rightarrow> 'r list \<Rightarrow> bool" where
  "refs_in keys ref rows \<longleftrightarrow> (\<forall>r \<in> set rows. \<forall>k. ref r = Some k \<longrightarrow> k \<in> keys)"

definition memory_keys :: "Tables \<Rightarrow> MemoryId set" where
  "memory_keys t = mr_id ` set (t_memories t)"

definition source_refs :: "Tables \<Rightarrow> bool" where
  "source_refs t \<longleftrightarrow> refs_in (memory_keys t) (\<lambda>s. Some (ms_memory_id s)) (t_memory_sources t)
     \<and> refs_in (cv_conversation_id ` set (t_conversations t)) (\<lambda>e. Some (ce_conversation_id e)) (t_conversation_events t)
     \<and> refs_in (memory_keys t) xr_source_memory_id (t_extraction_runs t)
     \<and> refs_in (cv_conversation_id ` set (t_conversations t)) xr_conversation_id (t_extraction_runs t)"

definition entity_refs :: "Tables \<Rightarrow> bool" where
  "entity_refs t \<longleftrightarrow> (let es = en_entity_id ` set (t_entities t) in
     refs_in es (\<lambda>a. Some (ea_entity_id a)) (t_entity_aliases t)
     \<and> refs_in (memory_keys t) (\<lambda>l. Some (ml_memory_id l)) (t_memory_entities t)
     \<and> refs_in es (\<lambda>l. Some (ml_entity_id l)) (t_memory_entities t))"

definition claim_refs :: "Tables \<Rightarrow> bool" where
  "claim_refs t \<longleftrightarrow> (let es = en_entity_id ` set (t_entities t); cs = cl_claim_id ` set (t_claims t) in
     refs_in es cl_subject_entity_id (t_claims t) \<and> refs_in es cl_object_entity_id (t_claims t)
     \<and> refs_in (xr_run_id ` set (t_extraction_runs t)) cl_source_run_id (t_claims t)
     \<and> refs_in cs (\<lambda>l. Some (ck_claim_id l)) (t_claim_entities t) \<and> refs_in es (\<lambda>l. Some (ck_entity_id l)) (t_claim_entities t)
     \<and> refs_in cs (\<lambda>e. Some (cx_claim_id e)) (t_claim_evidence t)
     \<and> refs_in (memory_keys t) (\<lambda>e. Some (cx_memory_id e)) (t_claim_evidence t)
     \<and> refs_in (ms_source_id ` set (t_memory_sources t)) cx_source_id (t_claim_evidence t))"

definition relationship_refs :: "Tables \<Rightarrow> bool" where
  "relationship_refs t \<longleftrightarrow> (let es = en_entity_id ` set (t_entities t) in
     refs_in es (\<lambda>r. Some (rl_source_entity_id r)) (t_relationships t) \<and> refs_in es (\<lambda>r. Some (rl_target_entity_id r)) (t_relationships t)
     \<and> refs_in (xr_run_id ` set (t_extraction_runs t)) rl_source_run_id (t_relationships t)
     \<and> refs_in (rl_relationship_id ` set (t_relationships t)) (\<lambda>e. Some (rx_relationship_id e)) (t_relationship_evidence t)
     \<and> refs_in (memory_keys t) (\<lambda>e. Some (rx_memory_id e)) (t_relationship_evidence t)
     \<and> refs_in (ms_source_id ` set (t_memory_sources t)) rx_source_id (t_relationship_evidence t))"

definition log_refs :: "Tables \<Rightarrow> bool" where
  "log_refs t \<longleftrightarrow> refs_in (pr_run_id ` set (t_policy_runs t)) (\<lambda>a. Some (pa_run_id a)) (t_policy_actions t)
     \<and> refs_in (rt_trace_id ` set (t_traces t)) (\<lambda>h. Some (rh_trace_id h)) (t_trace_hits t)"

definition integrity :: "Tables \<Rightarrow> bool" where
  "integrity t \<longleftrightarrow> source_refs t \<and> entity_refs t \<and> claim_refs t \<and> relationship_refs t \<and> log_refs t"

lemmas refs_defs = integrity_def source_refs_def entity_refs_def claim_refs_def relationship_refs_def log_refs_def Let_def memory_keys_def

lemma refs_in_upsert:
  assumes "refs_in keys ref rows" "\<forall>k. ref r = Some k \<longrightarrow> k \<in> keys" "\<And>q. ref (merge q r) = ref r \<or> ref (merge q r) = ref q"
  shows "refs_in keys ref (upsert key merge r rows)"
  using assms unfolding refs_in_def upsert_def by (auto split: if_splits) metis

lemma refs_in_mono: "refs_in keys ref rows \<Longrightarrow> keys \<subseteq> keys' \<Longrightarrow> refs_in keys' ref rows"
  unfolding refs_in_def by blast

lemma refs_in_filter: "refs_in keys ref rows \<Longrightarrow> refs_in keys ref (filter P rows)"
  unfolding refs_in_def by auto

lemma map_same_keys: "(\<And>r. key (f r) = key r) \<Longrightarrow> key ` set (map f rows) = key ` set rows"
  by (simp add: image_image)

lemma refs_in_map: "refs_in keys ref rows \<Longrightarrow> (\<And>r. ref (f r) = ref r \<or> ref (f r) = None) \<Longrightarrow> refs_in keys ref (map f rows)"
  unfolding refs_in_def by (auto) (metis option.distinct(1))

lemma record_operation_tables [simp]:
  "t_memories (record_operation_on env w m s g p t) = t_memories t"
  "t_memory_tags (record_operation_on env w m s g p t) = t_memory_tags t"
  "t_memory_vec (record_operation_on env w m s g p t) = t_memory_vec t"
  "t_edges (record_operation_on env w m s g p t) = t_edges t"
  "t_lifecycle_events (record_operation_on env w m s g p t) = t_lifecycle_events t"
  "t_policy_runs (record_operation_on env w m s g p t) = t_policy_runs t"
  "t_policy_actions (record_operation_on env w m s g p t) = t_policy_actions t"
  "t_memory_sources (record_operation_on env w m s g p t) = t_memory_sources t"
  "t_conversations (record_operation_on env w m s g p t) = t_conversations t"
  "t_conversation_events (record_operation_on env w m s g p t) = t_conversation_events t"
  "t_extraction_runs (record_operation_on env w m s g p t) = t_extraction_runs t"
  "t_entities (record_operation_on env w m s g p t) = t_entities t"
  "t_entity_aliases (record_operation_on env w m s g p t) = t_entity_aliases t"
  "t_memory_entities (record_operation_on env w m s g p t) = t_memory_entities t"
  "t_claims (record_operation_on env w m s g p t) = t_claims t"
  "t_claim_entities (record_operation_on env w m s g p t) = t_claim_entities t"
  "t_claim_evidence (record_operation_on env w m s g p t) = t_claim_evidence t"
  "t_relationships (record_operation_on env w m s g p t) = t_relationships t"
  "t_relationship_evidence (record_operation_on env w m s g p t) = t_relationship_evidence t"
  "t_traces (record_operation_on env w m s g p t) = t_traces t"
  "t_trace_hits (record_operation_on env w m s g p t) = t_trace_hits t"
  "t_stored_dim (record_operation_on env w m s g p t) = t_stored_dim t"
  by (simp_all add: record_operation_on_def Let_def)

lemma integrity_operation [simp]: "integrity (record_operation_on env x m s g p t) = integrity t"
  by (simp add: refs_defs)

lemma ref_ok_key: "ref_ok key ref rows \<longleftrightarrow> (\<forall>k. ref = Some k \<longrightarrow> k \<in> key ` set rows)"
  by (auto split: option.splits)

lemma bex_key: "(\<exists>r \<in> set rows. key r = k) \<longleftrightarrow> k \<in> key ` set rows"
  by auto

lemma fk_check_Ok [simp]: "fk_check P = Ok x \<longleftrightarrow> P"
  by (simp add: fk_check_def foreign_key_failed_def)

lemma not_null_real_Ok [simp]: "not_null_real c x t = Ok u \<longleftrightarrow> x \<noteq> NaN \<and> u = t"
  by (auto simp: not_null_real_def)

text \<open>The tables that others refer to, as keyed tables: a write adds a key or leaves the keys.\<close>

interpretation sources: keyed_table ms_source_id "\<lambda>q r. r"
  by unfold_locales simp

interpretation conversations: keyed_table cv_conversation_id "\<lambda>q r. r\<lparr>cv_created_at := cv_created_at q\<rparr>"
  by unfold_locales simp

interpretation conversation_touch: keyed_table cv_conversation_id "\<lambda>q r. q"
  by unfold_locales simp

interpretation runs: keyed_table xr_run_id "\<lambda>q r. r\<lparr>xr_started_at := xr_started_at q\<rparr>"
  by unfold_locales simp

interpretation entities: keyed_table en_entity_id "\<lambda>q r. r\<lparr>en_created_at := en_created_at q\<rparr>"
  by unfold_locales simp

interpretation claims: keyed_table cl_claim_id "\<lambda>q r. r\<lparr>cl_created_at := cl_created_at q\<rparr>"
  by unfold_locales simp

interpretation relationships: keyed_table rl_relationship_id "\<lambda>q r. r\<lparr>rl_created_at := rl_created_at q\<rparr>"
  by unfold_locales simp

interpretation policy_runs: keyed_table pr_run_id "\<lambda>q r. r\<lparr>pr_run_id := pr_run_id q, pr_started_at := pr_started_at q\<rparr>"
  by unfold_locales simp

lemmas key_sets = sources.upsert_keys conversations.upsert_keys conversation_touch.upsert_keys runs.upsert_keys entities.upsert_keys
  claims.upsert_keys relationships.upsert_keys policy_runs.upsert_keys

lemma integrityD:
  assumes "integrity t"
  shows "refs_in (mr_id ` set (t_memories t)) (\<lambda>s. Some (ms_memory_id s)) (t_memory_sources t)"
    "refs_in (cv_conversation_id ` set (t_conversations t)) (\<lambda>e. Some (ce_conversation_id e)) (t_conversation_events t)"
    "refs_in (mr_id ` set (t_memories t)) xr_source_memory_id (t_extraction_runs t)"
    "refs_in (cv_conversation_id ` set (t_conversations t)) xr_conversation_id (t_extraction_runs t)"
    "refs_in (en_entity_id ` set (t_entities t)) (\<lambda>a. Some (ea_entity_id a)) (t_entity_aliases t)"
    "refs_in (mr_id ` set (t_memories t)) (\<lambda>l. Some (ml_memory_id l)) (t_memory_entities t)"
    "refs_in (en_entity_id ` set (t_entities t)) (\<lambda>l. Some (ml_entity_id l)) (t_memory_entities t)"
    "refs_in (en_entity_id ` set (t_entities t)) cl_subject_entity_id (t_claims t)"
    "refs_in (en_entity_id ` set (t_entities t)) cl_object_entity_id (t_claims t)"
    "refs_in (xr_run_id ` set (t_extraction_runs t)) cl_source_run_id (t_claims t)"
    "refs_in (cl_claim_id ` set (t_claims t)) (\<lambda>l. Some (ck_claim_id l)) (t_claim_entities t)"
    "refs_in (en_entity_id ` set (t_entities t)) (\<lambda>l. Some (ck_entity_id l)) (t_claim_entities t)"
    "refs_in (cl_claim_id ` set (t_claims t)) (\<lambda>e. Some (cx_claim_id e)) (t_claim_evidence t)"
    "refs_in (mr_id ` set (t_memories t)) (\<lambda>e. Some (cx_memory_id e)) (t_claim_evidence t)"
    "refs_in (ms_source_id ` set (t_memory_sources t)) cx_source_id (t_claim_evidence t)"
    "refs_in (en_entity_id ` set (t_entities t)) (\<lambda>r. Some (rl_source_entity_id r)) (t_relationships t)"
    "refs_in (en_entity_id ` set (t_entities t)) (\<lambda>r. Some (rl_target_entity_id r)) (t_relationships t)"
    "refs_in (xr_run_id ` set (t_extraction_runs t)) rl_source_run_id (t_relationships t)"
    "refs_in (rl_relationship_id ` set (t_relationships t)) (\<lambda>e. Some (rx_relationship_id e)) (t_relationship_evidence t)"
    "refs_in (mr_id ` set (t_memories t)) (\<lambda>e. Some (rx_memory_id e)) (t_relationship_evidence t)"
    "refs_in (ms_source_id ` set (t_memory_sources t)) rx_source_id (t_relationship_evidence t)"
  using assms by (simp_all add: refs_defs)

text \<open>Replacing a table: its rows must refer to keys, and no key may be lost.\<close>

lemma integrity_memory_sources:
  assumes "integrity t" "refs_in (mr_id ` set (t_memories t)) (\<lambda>s. Some (ms_memory_id s)) rows"
    "ms_source_id ` set (t_memory_sources t) \<subseteq> ms_source_id ` set rows"
  shows "integrity (t\<lparr>t_memory_sources := rows\<rparr>)"
  using assms by (auto simp: refs_defs elim!: refs_in_mono)

lemma integrity_conversations:
  assumes "integrity t" "cv_conversation_id ` set (t_conversations t) \<subseteq> cv_conversation_id ` set rows"
  shows "integrity (t\<lparr>t_conversations := rows\<rparr>)"
  using assms by (auto simp: refs_defs elim!: refs_in_mono)

lemma integrity_conversation_events:
  assumes "integrity t" "refs_in (cv_conversation_id ` set (t_conversations t)) (\<lambda>e. Some (ce_conversation_id e)) rows"
  shows "integrity (t\<lparr>t_conversation_events := rows\<rparr>)"
  using assms by (auto simp: refs_defs elim!: refs_in_mono)

lemma integrity_extraction_runs:
  assumes "integrity t" "refs_in (mr_id ` set (t_memories t)) xr_source_memory_id rows"
    "refs_in (cv_conversation_id ` set (t_conversations t)) xr_conversation_id rows"
    "xr_run_id ` set (t_extraction_runs t) \<subseteq> xr_run_id ` set rows"
  shows "integrity (t\<lparr>t_extraction_runs := rows\<rparr>)"
  using assms by (auto simp: refs_defs elim!: refs_in_mono)

lemma integrity_entities:
  assumes "integrity t" "en_entity_id ` set (t_entities t) \<subseteq> en_entity_id ` set rows"
  shows "integrity (t\<lparr>t_entities := rows\<rparr>)"
  using assms by (auto simp: refs_defs elim!: refs_in_mono)

lemma integrity_entity_aliases:
  assumes "integrity t" "refs_in (en_entity_id ` set (t_entities t)) (\<lambda>a. Some (ea_entity_id a)) rows"
  shows "integrity (t\<lparr>t_entity_aliases := rows\<rparr>)"
  using assms by (auto simp: refs_defs elim!: refs_in_mono)

lemma integrity_memory_entities:
  assumes "integrity t" "refs_in (mr_id ` set (t_memories t)) (\<lambda>l. Some (ml_memory_id l)) rows"
    "refs_in (en_entity_id ` set (t_entities t)) (\<lambda>l. Some (ml_entity_id l)) rows"
  shows "integrity (t\<lparr>t_memory_entities := rows\<rparr>)"
  using assms by (auto simp: refs_defs elim!: refs_in_mono)

lemma integrity_claims:
  assumes "integrity t" "refs_in (en_entity_id ` set (t_entities t)) cl_subject_entity_id rows"
    "refs_in (en_entity_id ` set (t_entities t)) cl_object_entity_id rows"
    "refs_in (xr_run_id ` set (t_extraction_runs t)) cl_source_run_id rows"
    "cl_claim_id ` set (t_claims t) \<subseteq> cl_claim_id ` set rows"
  shows "integrity (t\<lparr>t_claims := rows\<rparr>)"
  using assms by (auto simp: refs_defs elim!: refs_in_mono)

lemma integrity_claim_entities:
  assumes "integrity t" "refs_in (cl_claim_id ` set (t_claims t)) (\<lambda>l. Some (ck_claim_id l)) rows"
    "refs_in (en_entity_id ` set (t_entities t)) (\<lambda>l. Some (ck_entity_id l)) rows"
  shows "integrity (t\<lparr>t_claim_entities := rows\<rparr>)"
  using assms by (auto simp: refs_defs elim!: refs_in_mono)

lemma integrity_claim_evidence:
  assumes "integrity t" "refs_in (cl_claim_id ` set (t_claims t)) (\<lambda>e. Some (cx_claim_id e)) rows"
    "refs_in (mr_id ` set (t_memories t)) (\<lambda>e. Some (cx_memory_id e)) rows"
    "refs_in (ms_source_id ` set (t_memory_sources t)) cx_source_id rows"
  shows "integrity (t\<lparr>t_claim_evidence := rows\<rparr>)"
  using assms by (auto simp: refs_defs elim!: refs_in_mono)

lemma integrity_relationships:
  assumes "integrity t" "refs_in (en_entity_id ` set (t_entities t)) (\<lambda>r. Some (rl_source_entity_id r)) rows"
    "refs_in (en_entity_id ` set (t_entities t)) (\<lambda>r. Some (rl_target_entity_id r)) rows"
    "refs_in (xr_run_id ` set (t_extraction_runs t)) rl_source_run_id rows"
    "rl_relationship_id ` set (t_relationships t) \<subseteq> rl_relationship_id ` set rows"
  shows "integrity (t\<lparr>t_relationships := rows\<rparr>)"
  using assms by (auto simp: refs_defs elim!: refs_in_mono)

lemma integrity_relationship_evidence:
  assumes "integrity t" "refs_in (rl_relationship_id ` set (t_relationships t)) (\<lambda>e. Some (rx_relationship_id e)) rows"
    "refs_in (mr_id ` set (t_memories t)) (\<lambda>e. Some (rx_memory_id e)) rows"
    "refs_in (ms_source_id ` set (t_memory_sources t)) rx_source_id rows"
  shows "integrity (t\<lparr>t_relationship_evidence := rows\<rparr>)"
  using assms by (auto simp: refs_defs elim!: refs_in_mono)

lemma insert_memory_source_integrity:
  assumes "insert_memory_source_on env s t = Ok u" "integrity t" shows "integrity u"
  using assms by (auto simp: insert_memory_source_on_def key_sets ref_ok_key bex_key outcome_simps
      intro!: integrity_memory_sources refs_in_upsert intro: integrityD)

lemma upsert_entity_integrity:
  assumes "upsert_entity_on env e t = Ok u" "integrity t" shows "integrity u"
  using assms by (auto simp: upsert_entity_on_def key_sets ref_ok_key bex_key outcome_simps
      intro!: integrity_entities refs_in_upsert intro: integrityD)

lemma add_entity_alias_integrity:
  assumes "add_entity_alias_on env a t = Ok u" "integrity t" shows "integrity u"
  using assms by (auto simp: add_entity_alias_on_def key_sets ref_ok_key bex_key outcome_simps
      intro!: integrity_entity_aliases refs_in_upsert intro: integrityD)

lemma link_memory_entity_integrity:
  assumes "link_memory_entity_on env l t = Ok u" "integrity t" shows "integrity u"
  using assms by (auto simp: link_memory_entity_on_def key_sets ref_ok_key bex_key outcome_simps
      intro!: integrity_memory_entities refs_in_upsert intro: integrityD)

lemma upsert_conversation_integrity:
  assumes "upsert_conversation_on env c t = Ok u" "integrity t" shows "integrity u"
  using assms by (auto simp: upsert_conversation_on_def key_sets ref_ok_key bex_key outcome_simps
      intro!: integrity_conversations refs_in_upsert intro: integrityD)

lemma insert_conversation_event_integrity:
  assumes "insert_conversation_event_on env e t = Ok u" "integrity t" shows "integrity u"
  using assms by (auto simp: insert_conversation_event_on_def key_sets ref_ok_key bex_key outcome_simps
      intro!: integrity_conversation_events refs_in_upsert intro: integrityD)

lemma upsert_extraction_run_integrity:
  assumes "upsert_extraction_run_on env x t = Ok u" "integrity t" shows "integrity u"
  using assms by (auto simp: upsert_extraction_run_on_def key_sets ref_ok_key bex_key outcome_simps
      intro!: integrity_extraction_runs refs_in_upsert intro: integrityD)

lemma upsert_claim_integrity:
  assumes "upsert_claim_on env c t = Ok u" "integrity t" shows "integrity u"
  using assms by (auto simp: upsert_claim_on_def key_sets ref_ok_key bex_key outcome_simps
      intro!: integrity_claims refs_in_upsert intro: integrityD)

lemma link_claim_entity_integrity:
  assumes "link_claim_entity_on env l t = Ok u" "integrity t" shows "integrity u"
  using assms by (auto simp: link_claim_entity_on_def key_sets ref_ok_key bex_key outcome_simps
      intro!: integrity_claim_entities refs_in_upsert intro: integrityD)

lemma add_claim_evidence_integrity:
  assumes "add_claim_evidence_on env e t = Ok u" "integrity t" shows "integrity u"
  using assms by (auto simp: add_claim_evidence_on_def key_sets ref_ok_key bex_key outcome_simps
      intro!: integrity_claim_evidence refs_in_upsert intro: integrityD)

lemma upsert_entity_relationship_integrity:
  assumes "upsert_entity_relationship_on env r t = Ok u" "integrity t" shows "integrity u"
  using assms by (auto simp: upsert_entity_relationship_on_def key_sets ref_ok_key bex_key outcome_simps
      intro!: integrity_relationships refs_in_upsert intro: integrityD)

lemma add_relationship_evidence_integrity:
  assumes "add_relationship_evidence_on env e t = Ok u" "integrity t" shows "integrity u"
  using assms by (auto simp: add_relationship_evidence_on_def key_sets ref_ok_key bex_key outcome_simps
      intro!: integrity_relationship_evidence refs_in_upsert intro: integrityD)

text \<open>Deleting a row applies the actions of the keys that refer to it.\<close>

lemma refs_in_delete:
  assumes "refs_in (key ` set parents) ref rows"
  shows "refs_in (key ` {p \<in> set parents. key p \<noteq> k}) ref (filter (\<lambda>r. ref r \<noteq> Some k) rows)"
  using assms unfolding refs_in_def by fastforce

lemma refs_in_set_null:
  assumes "refs_in (key ` set parents) ref rows"
    "\<And>r. ref (f r) = set_null (\<lambda>k. k \<in> key ` {p \<in> set parents. gone p}) (ref r)"
  shows "refs_in (key ` {p \<in> set parents. \<not> gone p}) ref (map f rows)"
  using assms unfolding refs_in_def by (force simp: set_null_def split: option.splits if_splits)

lemma refs_in_null_key:
  assumes "refs_in (key ` set parents) ref rows" "\<And>r. ref (f r) = set_null (\<lambda>i. i = k) (ref r)"
  shows "refs_in (key ` {p \<in> set parents. key p \<noteq> k}) ref (map f rows)"
  using assms unfolding refs_in_def by (fastforce simp: set_null_def split: option.splits if_splits)

lemma refs_in_gone:
  assumes "refs_in (key ` set parents) (\<lambda>r. Some (ref r)) rows"
  shows "refs_in (key ` {p \<in> set parents. \<not> gone p}) (\<lambda>r. Some (ref r)) (filter (\<lambda>r. ref r \<notin> key ` {p \<in> set parents. gone p}) rows)"
  using assms unfolding refs_in_def by fastforce

lemma delete_source_rows_integrity:
  assumes "integrity t" shows "integrity (delete_source_rows gone t)"
  using assms unfolding refs_defs delete_source_rows_def
  by (auto intro: refs_in_filter refs_in_map intro!: refs_in_set_null)

lemma delete_relationship_rows_integrity:
  assumes "integrity t" shows "integrity (delete_relationship_rows gone t)"
  using assms unfolding refs_defs delete_relationship_rows_def
  by (auto intro: refs_in_filter refs_in_gone)

lemma delete_claim_row_integrity:
  assumes "integrity t" shows "integrity (delete_claim_row i t)"
  using assms refs_in_delete[of cl_claim_id "t_claims t" "\<lambda>l. Some (ck_claim_id l)" "t_claim_entities t" i]
    refs_in_delete[of cl_claim_id "t_claims t" "\<lambda>e. Some (cx_claim_id e)" "t_claim_evidence t" i]
  unfolding refs_defs delete_claim_row_def by (auto intro: refs_in_filter)

lemma refs_in_avoid:
  assumes "refs_in (key ` set parents) ref rows" "\<forall>r \<in> set rows. ref r \<noteq> Some k"
  shows "refs_in (key ` {p \<in> set parents. key p \<noteq> k}) ref rows"
  using assms unfolding refs_in_def by fastforce

lemma delete_rows_gone [simp]:
  "t_memory_sources (delete_source_rows gone t) = filter (\<lambda>s. \<not> gone s) (t_memory_sources t)"
  "t_relationships (delete_relationship_rows g t) = filter (\<lambda>r. \<not> g r) (t_relationships t)"
  by (simp_all add: delete_source_rows_def delete_relationship_rows_def Let_def)

lemma delete_entity_row_integrity:
  assumes "integrity t" shows "integrity (delete_entity_row i t)"
proof -
  let ?u = "delete_relationship_rows (\<lambda>r. rl_source_entity_id r = i \<or> rl_target_entity_id r = i) t"
  have u: "integrity ?u" by (rule delete_relationship_rows_integrity[OF assms])
  have "refs_in (en_entity_id ` {p \<in> set (t_entities ?u). en_entity_id p \<noteq> i}) (\<lambda>r. Some (rl_source_entity_id r)) (t_relationships ?u)"
    "refs_in (en_entity_id ` {p \<in> set (t_entities ?u). en_entity_id p \<noteq> i}) (\<lambda>r. Some (rl_target_entity_id r)) (t_relationships ?u)"
    using u by (auto simp: refs_defs intro!: refs_in_avoid)
  then show ?thesis using u refs_in_delete[of en_entity_id "t_entities ?u" "\<lambda>a. Some (ea_entity_id a)" "t_entity_aliases ?u" i]
      refs_in_delete[of en_entity_id "t_entities ?u" "\<lambda>l. Some (ml_entity_id l)" "t_memory_entities ?u" i]
      refs_in_delete[of en_entity_id "t_entities ?u" "\<lambda>l. Some (ck_entity_id l)" "t_claim_entities ?u" i]
    unfolding refs_defs delete_entity_row_def
    by (auto simp: image_comp comp_def intro: refs_in_filter refs_in_map intro!: refs_in_null_key)
qed

lemma delete_memory_row_integrity:
  assumes "integrity t" shows "integrity (delete_memory_row i t)"
proof -
  let ?u = "delete_source_rows (\<lambda>s. ms_memory_id s = i) t"
  have u: "integrity ?u" by (rule delete_source_rows_integrity[OF assms])
  have "refs_in (mr_id ` {p \<in> set (t_memories ?u). mr_id p \<noteq> i}) (\<lambda>s. Some (ms_memory_id s)) (t_memory_sources ?u)"
    using u by (auto simp: refs_defs intro!: refs_in_avoid)
  then show ?thesis using u refs_in_delete[of mr_id "t_memories ?u" "\<lambda>l. Some (ml_memory_id l)" "t_memory_entities ?u" i]
      refs_in_delete[of mr_id "t_memories ?u" "\<lambda>e. Some (cx_memory_id e)" "t_claim_evidence ?u" i]
      refs_in_delete[of mr_id "t_memories ?u" "\<lambda>e. Some (rx_memory_id e)" "t_relationship_evidence ?u" i]
    unfolding refs_defs delete_memory_row_def
    by (auto simp: image_comp comp_def intro: refs_in_filter refs_in_map intro!: refs_in_null_key)
qed

lemma integrity_frames [simp]:
  "integrity (delete_vector i t) = integrity t" "integrity (replace_tags m tags t) = integrity t"
  "integrity (t\<lparr>t_edges := es\<rparr>) = integrity t" "integrity (t\<lparr>t_memory_tags := ts\<rparr>) = integrity t"
  "integrity (t\<lparr>t_memory_vec := v\<rparr>) = integrity t" "integrity (t\<lparr>t_stored_dim := d\<rparr>) = integrity t"
  "integrity (t\<lparr>t_lifecycle_events := ls\<rparr>) = integrity t"
  by (simp_all add: refs_defs delete_vector_def replace_tags_def)

lemma integrity_memories: "integrity t \<Longrightarrow> mr_id ` set (t_memories t) \<subseteq> mr_id ` set rows \<Longrightarrow> integrity (t\<lparr>t_memories := rows\<rparr>)"
  by (auto simp: refs_defs elim!: refs_in_mono)

lemma delete_memory_on_integrity: "integrity t \<Longrightarrow> integrity (snd (delete_memory_on env mid t))"
  by (auto simp: delete_memory_on_def Let_def intro!: delete_memory_row_integrity split: option.splits)

lemma store_memory_on_integrity:
  assumes "store_memory_on env codec d m t = Ok u" "integrity t" shows "integrity u"
  using assms by (auto simp: store_memory_on_def upsert_memory_row_def refresh_vector_def insert_vector_def Let_def memories.upsert_keys
      outcome_simps intro!: integrity_memories split: option.splits if_splits)

lemma invalidate_memory_integrity: "integrity t \<Longrightarrow> integrity (invalidate_memory_on env mid until t)"
  unfolding invalidate_memory_on_def by (auto simp del: set_map simp: map_same_keys intro!: integrity_memories)

lemma integrity_map_claims:
  assumes "integrity t" "\<And>c. cl_claim_id (f c) = cl_claim_id c" "\<And>c. cl_subject_entity_id (f c) = cl_subject_entity_id c"
    "\<And>c. cl_object_entity_id (f c) = cl_object_entity_id c" "\<And>c. cl_source_run_id (f c) = cl_source_run_id c"
  shows "integrity (t\<lparr>t_claims := map f (t_claims t)\<rparr>)"
  using assms by (auto simp: refs_defs image_image intro!: refs_in_map)

lemma integrity_map_relationships:
  assumes "integrity t" "\<And>c. rl_relationship_id (f c) = rl_relationship_id c" "\<And>c. rl_source_entity_id (f c) = rl_source_entity_id c"
    "\<And>c. rl_target_entity_id (f c) = rl_target_entity_id c" "\<And>c. rl_source_run_id (f c) = rl_source_run_id c"
  shows "integrity (t\<lparr>t_relationships := map f (t_relationships t)\<rparr>)"
  using assms by (auto simp: refs_defs image_image intro!: refs_in_map)

lemma mark_status_integrity:
  "integrity t \<Longrightarrow> integrity (mark_claim_status_on env i s until t)"
  "integrity t \<Longrightarrow> integrity (mark_relationship_status_on env i s until t)"
  by (auto simp: mark_claim_status_on_def mark_relationship_status_on_def intro!: integrity_map_claims integrity_map_relationships)

lemma policy_writes_integrity:
  "upsert_policy_run_on env json r t = Ok u \<Longrightarrow> integrity t \<Longrightarrow> integrity u"
  "add_edge_on env e t = Ok u \<Longrightarrow> integrity t \<Longrightarrow> integrity u"
  "insert_memory_lifecycle_event_on env json ev t = Ok u \<Longrightarrow> integrity t \<Longrightarrow> integrity u"
  by (auto simp: upsert_policy_run_on_def add_edge_on_def insert_memory_lifecycle_event_on_def outcome_simps split: if_splits)
    (auto simp: refs_defs key_sets elim!: refs_in_mono)

lemma integrity_actions:
  "integrity t \<Longrightarrow> refs_in (pr_run_id ` set (t_policy_runs t)) (\<lambda>a. Some (pa_run_id a)) rows \<Longrightarrow> integrity (t\<lparr>t_policy_actions := rows\<rparr>)"
  by (simp add: refs_defs)

lemma insert_policy_action_integrity:
  assumes "insert_policy_action_on json a t = Ok u" "integrity t" shows "integrity u"
proof -
  let ?f = "\<lambda>q a. a\<lparr>pa_action_id := pa_action_id q, pa_run_id := pa_run_id q, pa_created_at := pa_created_at q\<rparr>"
  have u: "u = t\<lparr>t_policy_actions := upsert pa_action_id ?f a (t_policy_actions t)\<rparr>"
    and run: "\<not> (\<exists>q \<in> set (t_policy_actions t). pa_action_id q = pa_action_id a) \<longrightarrow> pa_run_id a \<in> pr_run_id ` set (t_policy_runs t)"
    using assms(1) by (auto simp: insert_policy_action_on_def foreign_key_failed_def outcome_simps bex_key split: if_splits)
  have "refs_in (pr_run_id ` set (t_policy_runs t)) (\<lambda>a. Some (pa_run_id a)) (t_policy_actions t)"
    using assms(2) by (simp add: integrity_def log_refs_def)
  then have "refs_in (pr_run_id ` set (t_policy_runs t)) (\<lambda>a. Some (pa_run_id a)) (upsert pa_action_id ?f a (t_policy_actions t))"
    using run by (cases "\<exists>q \<in> set (t_policy_actions t). pa_action_id q = pa_action_id a") (auto simp: upsert_def refs_in_def)
  then show ?thesis unfolding u by (rule integrity_actions[OF assms(2)])
qed

text \<open>Loops and transactions.\<close>

lemmas writes_integrity = insert_memory_source_integrity upsert_entity_integrity add_entity_alias_integrity link_memory_entity_integrity
  upsert_conversation_integrity insert_conversation_event_integrity upsert_extraction_run_integrity upsert_claim_integrity
  link_claim_entity_integrity add_claim_evidence_integrity upsert_entity_relationship_integrity add_relationship_evidence_integrity
  store_memory_on_integrity policy_writes_integrity insert_policy_action_integrity

lemma touch_conversation_keys:
  "cv_conversation_id ` set (touch_conversation e rows) = insert (ce_conversation_id e) (cv_conversation_id ` set rows)"
  unfolding touch_conversation_def by (subst map_same_keys) (auto simp: conversation_touch.upsert_keys)

lemma touch_conversation_integrity: "integrity t \<Longrightarrow> integrity (t\<lparr>t_conversations := touch_conversation e (t_conversations t)\<rparr>)"
  by (rule integrity_conversations) (auto simp: touch_conversation_keys)

lemma fold_integrity: "integrity t \<Longrightarrow> (\<And>x s. integrity s \<Longrightarrow> integrity (f x s)) \<Longrightarrow> integrity (fold f xs t)"
  by (rule fold_inv[where I = integrity])

lemma forget_integrity: "integrity t \<Longrightarrow> integrity (forget_hard env mu t)" "integrity t \<Longrightarrow> integrity (forget_soft env mu t)"
  unfolding forget_hard_def forget_soft_def
  by (intro fold_integrity delete_entity_row_integrity delete_memory_on_integrity delete_claim_row_integrity
      delete_relationship_rows_integrity mark_status_integrity invalidate_memory_integrity; assumption)+

text \<open>A piece of a transaction that keeps the references intact, and how such pieces compose.\<close>

definition keeps :: "(Tables \<Rightarrow> Tables MenteResult) \<Rightarrow> bool" where
  "keeps f \<longleftrightarrow> (\<forall>t u. integrity t \<longrightarrow> f t = Ok u \<longrightarrow> integrity u)"

lemma keepsI: "(\<And>t u. f t = Ok u \<Longrightarrow> integrity t \<Longrightarrow> integrity u) \<Longrightarrow> keeps f"
  unfolding keeps_def by blast

lemma keeps_bind: "keeps f \<Longrightarrow> keeps g \<Longrightarrow> keeps (\<lambda>t. bindO (f t) g)"
  unfolding keeps_def bindO_eq_Ok by blast

lemma keeps_guard: "keeps f \<Longrightarrow> keeps (\<lambda>t. bindO (r :: 'x MenteResult) (\<lambda>_. f t))"
  unfolding keeps_def bindO_eq_Ok by blast

lemma keeps_for_each: "(\<And>x. keeps (f x)) \<Longrightarrow> keeps (for_each f xs)"
  unfolding keeps_def using for_each_inv[of f xs _ _ integrity] by blast

lemma keeps_pure: "(\<And>t. integrity t \<Longrightarrow> integrity (h t)) \<Longrightarrow> keeps (\<lambda>t. Ok (h t))"
  unfolding keeps_def by simp

lemma keeps_after: "keeps f \<Longrightarrow> (\<And>t. integrity t \<Longrightarrow> integrity (h t)) \<Longrightarrow> keeps (\<lambda>t. f (h t))"
  unfolding keeps_def by blast

lemma keeps_writes:
  "keeps (insert_memory_source_on env s)"
  "keeps (upsert_entity_on env e)"
  "keeps (add_entity_alias_on env a)"
  "keeps (link_memory_entity_on env l)"
  "keeps (upsert_conversation_on env c)"
  "keeps (insert_conversation_event_on env ev)"
  "keeps (upsert_extraction_run_on env x)"
  "keeps (upsert_claim_on env cl)"
  "keeps (link_claim_entity_on env k)"
  "keeps (add_claim_evidence_on env ce)"
  "keeps (upsert_entity_relationship_on env r)"
  "keeps (add_relationship_evidence_on env re)"
  "keeps (store_memory_on env codec d m)"
  "keeps (upsert_policy_run_on env json pr)"
  "keeps (add_edge_on env ed)"
  "keeps (insert_memory_lifecycle_event_on env json le)"
  "keeps (insert_policy_action_on json pa)"
  by (rule keepsI, erule (1) writes_integrity)+

lemma keeps_transact: "keeps f \<Longrightarrow> integrity (bk_tables b) \<Longrightarrow> integrity (bk_tables (snd (transact_unit b f)))"
  unfolding keeps_def by (cases "f (bk_tables b)") (auto simp: transact_unit_def transact_def)

lemmas keeps_intros = keeps_bind keeps_for_each keeps_writes

lemma entity_bundle_keeps: "keeps (entity_bundle_on env es als ls)"
  unfolding entity_bundle_on_def by (intro keeps_intros)

lemma persist_integrity:
  assumes "integrity (bk_tables b)"
  shows "integrity (bk_tables (snd (persist_extraction_artifacts env b a)))"
    "integrity (bk_tables (snd (upsert_entity_bundle env b es als ls)))"
    "integrity (bk_tables (snd (replace_memory_entity_bundle env b mid es als ls)))"
    "integrity (bk_tables (snd (upsert_claim_bundle env b c ks evs)))"
    "integrity (bk_tables (snd (upsert_relationship_bundle env b r res)))"
    "integrity (bk_tables (snd (add_conversation_event env b ev)))"
proof -
  have links: "integrity t \<Longrightarrow> integrity (t\<lparr>t_memory_entities := filter P (t_memory_entities t)\<rparr>)" for t P
    by (rule integrity_memory_entities) (auto intro: refs_in_filter integrityD)
  have r: "keeps (\<lambda>t. bindO (entity_bundle_on env es als ls (t\<lparr>t_memory_entities := filter P (t_memory_entities t)\<rparr>))
      (\<lambda>t. Ok (record_operation_on env w m so ta p t)))" for P w m so ta p
    by (rule keeps_bind) (auto intro: keeps_after entity_bundle_keeps links keeps_pure)
  show "integrity (bk_tables (snd (persist_extraction_artifacts env b a)))"
    unfolding persist_extraction_artifacts_def by (rule keeps_transact[OF _ assms]) (intro keeps_intros entity_bundle_keeps keeps_pure; simp)
  show "integrity (bk_tables (snd (upsert_entity_bundle env b es als ls)))"
    unfolding upsert_entity_bundle_def by (rule keeps_transact[OF entity_bundle_keeps assms])
  show "integrity (bk_tables (snd (replace_memory_entity_bundle env b mid es als ls)))"
    unfolding replace_memory_entity_bundle_def by (rule keeps_transact[OF r assms])
  show "integrity (bk_tables (snd (upsert_claim_bundle env b c ks evs)))"
    unfolding upsert_claim_bundle_def by (rule keeps_transact[OF _ assms]) (intro keeps_intros)
  show "integrity (bk_tables (snd (upsert_relationship_bundle env b r res)))"
    unfolding upsert_relationship_bundle_def by (rule keeps_transact[OF _ assms]) (intro keeps_intros)
  show "integrity (bk_tables (snd (add_conversation_event env b ev)))"
    unfolding add_conversation_event_def
    by (rule keeps_transact[OF keeps_after assms]) (auto intro: keeps_writes touch_conversation_integrity)
qed

lemma policies_integrity:
  assumes "integrity (bk_tables b)"
  shows "integrity (bk_tables (snd (apply_correction_policy env json b cm)))"
    "integrity (bk_tables (snd (apply_forget_policy env json b fm)))"
    "integrity (bk_tables (snd (apply_lifecycle_policy env codec json b lm)))"
proof -
  have marks: "integrity t \<Longrightarrow> integrity (fold (\<lambda>i. mark_relationship_status_on env i s until) rs
      (fold (\<lambda>i. mark_claim_status_on env i s until) cs (fold (\<lambda>(mid, until). invalidate_memory_on env mid until) ms t)))" for t s until rs cs ms
    by (intro fold_integrity) (auto intro: mark_status_integrity invalidate_memory_integrity)
  show "integrity (bk_tables (snd (apply_correction_policy env json b cm)))"
    unfolding apply_correction_policy_def
    by (rule keeps_transact[OF _ assms]) (intro keeps_intros keeps_after[OF keeps_for_each marks])
  show "integrity (bk_tables (snd (apply_forget_policy env json b fm)))"
    unfolding apply_forget_policy_def
    by (rule keeps_transact[OF _ assms]) (intro keeps_intros keeps_pure; simp add: forget_integrity)
  show "integrity (bk_tables (snd (apply_lifecycle_policy env codec json b lm)))"
    unfolding apply_lifecycle_policy_def by (rule keeps_transact[OF _ assms]) (intro keeps_intros)
qed

lemma store_step_integrity: "integrity (bk_tables b) \<Longrightarrow> integrity (bk_tables (store_step env codec json w b))"
proof (cases w)
  case (StoreMemory m)
  then show "integrity (bk_tables b) \<Longrightarrow> integrity (bk_tables (store_step env codec json w b))"
    by (auto simp: store_memory_def intro!: keeps_transact keeps_guard keeps_writes)
next
  case (StoreBatch ms)
  then show "integrity (bk_tables b) \<Longrightarrow> integrity (bk_tables (store_step env codec json w b))"
    by (auto simp: store_memory_batch_def intro!: keeps_transact keeps_guard keeps_for_each keeps_writes)
next
  case (DeleteMemory mid)
  then show "integrity (bk_tables b) \<Longrightarrow> integrity (bk_tables (store_step env codec json w b))"
    using delete_memory_on_integrity[of "bk_tables b" env mid] by (cases "delete_memory_on env mid (bk_tables b)") (simp add: delete_memory_def)
qed (auto simp: ensure_vector_index_def store_edge_def delete_edges_for_def record_lifecycle_event_def Let_def
    intro!: keeps_transact keeps_writes policies_integrity)

section \<open>All operations\<close>

text \<open>A search writes a trace: it refers to itself.\<close>

lemma integrity_log:
  assumes "integrity t" "refs_in (rt_trace_id ` set rs) (\<lambda>h. Some (rh_trace_id h)) hs"
  shows "integrity (t\<lparr>t_trace_hits := hs, t_traces := rs\<rparr>)" "integrity (t\<lparr>t_traces := rs, t_trace_hits := hs\<rparr>)"
  using assms by (simp_all add: refs_defs)

lemma integrity_logD: "integrity t \<Longrightarrow> refs_in (rt_trace_id ` set (t_traces t)) (\<lambda>h. Some (rh_trace_id h)) (t_trace_hits t)"
  by (simp add: integrity_def log_refs_def)

lemma refs_in_stale:
  assumes "refs_in (key ` set rows) (\<lambda>h. Some (ref h)) hs"
  shows "refs_in (key ` set (filter (\<lambda>r. key r \<notin> stale) rows)) (\<lambda>h. Some (ref h)) (filter (\<lambda>h. ref h \<notin> stale) hs)"
  using assms unfolding refs_in_def by fastforce

lemma keeps_purge: "keeps (purge_old_traces_on keep)"
  by (rule keepsI) (auto simp: purge_old_traces_on_def Let_def bindO_eq_Ok simp del: set_filter intro!: integrity_log refs_in_stale integrity_logD)

lemma refs_in_append: "refs_in K ref (xs @ ys) \<longleftrightarrow> refs_in K ref xs \<and> refs_in K ref ys"
  unfolding refs_in_def by auto

lemma record_trace_integrity:
  "integrity (bk_tables b) \<Longrightarrow> integrity (bk_tables (snd (record_retrieval_trace i now d q ts any tr k f c sc vh bh cfg b)))"
  unfolding record_retrieval_trace_def
proof (rule keeps_transact[OF keeps_guard[OF keeps_guard[OF keeps_after[OF keeps_purge]]]])
  fix t
  let ?row = "trace_row i now d q ts any tr k f c sc vh bh cfg"
  let ?hits = "map (\<lambda>(rank, hit). trace_hit cfg b i vh bh rank hit) (zip [0..<length sc] sc)"
  assume t: "integrity t"
  have "refs_in (rt_trace_id ` set (t_traces t @ [?row])) (\<lambda>h. Some (rh_trace_id h)) (t_trace_hits t)"
    by (rule refs_in_mono[OF integrity_logD[OF t]]) auto
  moreover have "refs_in (rt_trace_id ` set (t_traces t @ [?row])) (\<lambda>h. Some (rh_trace_id h)) ?hits"
    by (auto simp: refs_in_def trace_hit_def trace_row_def Let_def)
  ultimately show "integrity (t\<lparr>t_traces := t_traces t @ [?row], t_trace_hits := t_trace_hits t @ ?hits\<rparr>)"
    by (intro integrity_log t) (simp only: refs_in_append)
qed

lemma search_integrity:
  "integrity (bk_tables b) \<Longrightarrow> integrity (bk_tables (snd (hybrid_search_with_query_mode eng i now b q qt ts any tr k)))"
  by (auto simp: hybrid_search_with_query_mode_def record_trace_integrity split: prod.splits)

text \<open>Any sequence of operations on the store.\<close>

datatype KnowledgeOp =
  Basic StoreOp | StoreWithSource MemoryNode MemorySource | AddSource MemorySource | UpsertConversation ConversationRecord
| AddConversationEvent ConversationEvent | UpsertRun ExtractionRun | UpsertEntity EntityRecord | AddAlias EntityAlias
| LinkMemory MemoryEntityLink | EntityBundle "EntityRecord list" "EntityAlias list" "MemoryEntityLink list"
| ReplaceEntityBundle MemoryId "EntityRecord list" "EntityAlias list" "MemoryEntityLink list"
| UpsertClaim ClaimRecord | LinkClaim ClaimEntityLink | AddClaimEvidence ClaimEvidence
| ClaimBundle ClaimRecord "ClaimEntityLink list" "ClaimEvidence list" | UpsertRelationship EntityRelationship
| AddRelationshipEvidence RelationshipEvidence | RelationshipBundle EntityRelationship "RelationshipEvidence list"
| PersistArtifacts ExtractionArtifacts
| Search string Timestamp Embedding "string option" "string list option" bool "(Timestamp \<times> Timestamp) option" nat
| SetTracing bool | SetConfig RetrievalConfig | Reopen RetrievalConfig nat

fun knowledge_step :: "Engine \<Rightarrow> Env \<Rightarrow> AttrCodec \<Rightarrow> JsonCheck \<Rightarrow> (MemorySource \<Rightarrow> MemoryNode \<Rightarrow> string) \<Rightarrow> KnowledgeOp \<Rightarrow> Backend \<Rightarrow> Backend" where
  "knowledge_step eng env codec json msg (Basic w) b = store_step env codec json w b"
| "knowledge_step eng env codec json msg (StoreWithSource m s) b = snd (store_memory_with_source env codec msg b m s)"
| "knowledge_step eng env codec json msg (AddSource s) b = snd (add_memory_source env b s)"
| "knowledge_step eng env codec json msg (UpsertConversation c) b = snd (upsert_conversation env b c)"
| "knowledge_step eng env codec json msg (AddConversationEvent e) b = snd (add_conversation_event env b e)"
| "knowledge_step eng env codec json msg (UpsertRun x) b = snd (upsert_extraction_run env b x)"
| "knowledge_step eng env codec json msg (UpsertEntity e) b = snd (upsert_entity env b e)"
| "knowledge_step eng env codec json msg (AddAlias a) b = snd (add_entity_alias env b a)"
| "knowledge_step eng env codec json msg (LinkMemory l) b = snd (link_memory_entity env b l)"
| "knowledge_step eng env codec json msg (EntityBundle es als ls) b = snd (upsert_entity_bundle env b es als ls)"
| "knowledge_step eng env codec json msg (ReplaceEntityBundle mid es als ls) b = snd (replace_memory_entity_bundle env b mid es als ls)"
| "knowledge_step eng env codec json msg (UpsertClaim c) b = snd (upsert_claim env b c)"
| "knowledge_step eng env codec json msg (LinkClaim l) b = snd (link_claim_entity env b l)"
| "knowledge_step eng env codec json msg (AddClaimEvidence e) b = snd (add_claim_evidence env b e)"
| "knowledge_step eng env codec json msg (ClaimBundle c ls es) b = snd (upsert_claim_bundle env b c ls es)"
| "knowledge_step eng env codec json msg (UpsertRelationship r) b = snd (upsert_entity_relationship env b r)"
| "knowledge_step eng env codec json msg (AddRelationshipEvidence e) b = snd (add_relationship_evidence env b e)"
| "knowledge_step eng env codec json msg (RelationshipBundle r es) b = snd (upsert_relationship_bundle env b r es)"
| "knowledge_step eng env codec json msg (PersistArtifacts a) b = snd (persist_extraction_artifacts env b a)"
| "knowledge_step eng env codec json msg (Search i now q qt ts any tr k) b = snd (hybrid_search_with_query_mode eng i now b q qt ts any tr k)"
| "knowledge_step eng env codec json msg (SetTracing enabled) b = set_retrieval_tracing b enabled"
| "knowledge_step eng env codec json msg (SetConfig config) b = set_retrieval_config b config"
| "knowledge_step eng env codec json msg (Reopen config d) b = backend_open config d (Some (bk_tables b))"

lemma single_writes_integrity:
  assumes "integrity (bk_tables b)"
  shows "integrity (bk_tables (snd (add_memory_source env b s)))" "integrity (bk_tables (snd (upsert_conversation env b c)))"
    "integrity (bk_tables (snd (upsert_extraction_run env b x)))" "integrity (bk_tables (snd (upsert_entity env b e)))"
    "integrity (bk_tables (snd (add_entity_alias env b a)))" "integrity (bk_tables (snd (link_memory_entity env b l)))"
    "integrity (bk_tables (snd (upsert_claim env b cl)))" "integrity (bk_tables (snd (link_claim_entity env b k)))"
    "integrity (bk_tables (snd (add_claim_evidence env b ce)))" "integrity (bk_tables (snd (upsert_entity_relationship env b r)))"
    "integrity (bk_tables (snd (add_relationship_evidence env b re)))"
  unfolding add_memory_source_def upsert_conversation_def upsert_extraction_run_def upsert_entity_def add_entity_alias_def
    link_memory_entity_def upsert_claim_def link_claim_entity_def add_claim_evidence_def upsert_entity_relationship_def
    add_relationship_evidence_def
  by (intro keeps_transact keeps_writes assms)+

lemma store_with_source_integrity:
  assumes "integrity (bk_tables b)"
  shows "integrity (bk_tables (snd (store_memory_with_source env codec msg b m s)))"
  using keeps_transact[OF keeps_bind[OF keeps_writes(13) keeps_writes(1)] assms] assms
  by (auto simp: store_memory_with_source_def split: outcome.splits)

lemma settings_integrity:
  assumes "integrity (bk_tables b)"
  shows "integrity (bk_tables (set_retrieval_tracing b enabled))" "integrity (bk_tables (set_retrieval_config b config))"
    "integrity (bk_tables (backend_open config d (Some (bk_tables b))))"
  using assms by (simp_all add: set_retrieval_tracing_def set_retrieval_config_def backend_open_def open_tables_def Let_def refs_defs)

lemma knowledge_step_integrity:
  "integrity (bk_tables b) \<Longrightarrow> integrity (bk_tables (knowledge_step eng env codec json msg w b))"
  by (cases w) (simp_all only: knowledge_step.simps store_step_integrity store_with_source_integrity single_writes_integrity persist_integrity
      search_integrity settings_integrity)

lemma open_integrity: "integrity (bk_tables (backend_open config d None))"
  by (simp add: backend_open_def open_tables_def init_tables_def Let_def refs_defs refs_in_def)

text \<open>C18: whatever is written to a new database, deleted from it or searched in it, with the recording of retrieval traces
  switched on and off at any point and the database closed and opened again, and whichever of these operations fail, no
  declared foreign key dangles: every source, entity link, alias, claim link, piece of evidence, extraction run, event and
  policy action, and the trace of every trace hit, refers to rows that exist. Columns without a declared foreign key are not
  part of it: the two ends of an edge, the memory of a lifecycle event and the memory of a trace hit may outlive their memory.\<close>

theorem referential_integrity:
  "integrity (bk_tables (fold (knowledge_step eng env codec json msg) ops (backend_open config d None)))"
  by (rule fold_inv[where I = "\<lambda>b. integrity (bk_tables b)"])
    (simp_all add: knowledge_step_integrity open_integrity)

section \<open>Replacing the links of a memory\<close>

lemma upsert_fresh: "key r \<notin> key ` set rows \<Longrightarrow> upsert key merge r rows = rows @ [r]"
  by (auto simp: upsert_def) (metis imageI)

definition link_row :: "MemoryEntityLink \<Rightarrow> MemoryEntityLink" where
  "link_row l = l\<lparr>ml_role := role_column (ml_role l)\<rparr>"

definition link_key :: "MemoryEntityLink \<Rightarrow> MemoryId \<times> string \<times> string option" where
  "link_key l = (ml_memory_id l, ml_entity_id l, ml_role l)"

lemma link_rows_appended:
  assumes "for_each (link_memory_entity_on env) ls t = Ok u"
    "distinct (map (link_key \<circ> link_row) ls)" "link_key ` set (t_memory_entities t) \<inter> (link_key \<circ> link_row) ` set ls = {}"
  shows "t_memory_entities u = t_memory_entities t @ map link_row ls"
  using assms
proof (induction ls arbitrary: t)
  case (Cons l ls)
  obtain s where s: "link_memory_entity_on env l t = Ok s" "for_each (link_memory_entity_on env) ls s = Ok u"
    using Cons.prems(1) by (auto simp: bindO_eq_Ok)
  have "link_key (link_row l) \<notin> link_key ` set (t_memory_entities t)" using Cons.prems(3) by auto
  then have e: "t_memory_entities s = t_memory_entities t @ [link_row l]"
    using s(1) upsert_fresh[of link_key "link_row l" "t_memory_entities t"]
    by (auto simp: link_memory_entity_on_def outcome_simps link_key_def[abs_def] link_row_def)
  then show ?case using Cons.IH[OF s(2)] Cons.prems(2,3) by auto
qed simp

lemma entity_writes_links:
  "for_each (upsert_entity_on env) es t = Ok u \<Longrightarrow> t_memory_entities u = t_memory_entities t"
  "for_each (add_entity_alias_on env) as t = Ok u \<Longrightarrow> t_memory_entities u = t_memory_entities t"
proof -
  show "for_each (upsert_entity_on env) es t = Ok u \<Longrightarrow> t_memory_entities u = t_memory_entities t"
    by (erule for_each_inv[where I = "\<lambda>s. t_memory_entities s = t_memory_entities t"]) (auto simp: upsert_entity_on_def outcome_simps)
  show "for_each (add_entity_alias_on env) as t = Ok u \<Longrightarrow> t_memory_entities u = t_memory_entities t"
    by (erule for_each_inv[where I = "\<lambda>s. t_memory_entities s = t_memory_entities t"]) (auto simp: add_entity_alias_on_def outcome_simps)
qed

text \<open>C22: when the links of a memory are replaced, the memory has exactly the new links afterwards, and the links of every other
  memory are as before; when it fails, nothing changes.
\<close>

theorem replace_links_exact:
  assumes "replace_memory_entity_bundle env b mid entities aliases links = (res, b')"
    "\<forall>l \<in> set links. ml_memory_id l = mid" "distinct (map (\<lambda>l. (ml_entity_id l, role_column (ml_role l))) links)"
  shows "(if res = Ok ()
          then mset (memory_entity_links b' mid) = mset (map (\<lambda>l. read_link (l\<lparr>ml_role := role_column (ml_role l)\<rparr>)) links)
            \<and> (\<forall>m. m \<noteq> mid \<longrightarrow> memory_entity_links b' m = memory_entity_links b m)
          else b' = b)"
proof (cases "res = Ok ()")
  case True
  let ?t = "bk_tables b"
  let ?old = "filter (\<lambda>l. ml_memory_id l \<noteq> mid) (t_memory_entities ?t)"
  obtain t1 t2 t3 where t: "for_each (upsert_entity_on env) entities (?t\<lparr>t_memory_entities := ?old\<rparr>) = Ok t1"
      "for_each (add_entity_alias_on env) aliases t1 = Ok t2" "for_each (link_memory_entity_on env) links t2 = Ok t3"
      "t_memory_entities (bk_tables b') = t_memory_entities t3"
    using assms(1) True unfolding replace_memory_entity_bundle_def entity_bundle_on_def transact_unit_def transact_def
    by (auto simp: bindO_eq_Ok split: outcome.splits)
  have old: "t_memory_entities t2 = ?old" using entity_writes_links(1)[OF t(1)] entity_writes_links(2)[OF t(2)] by simp
  have "distinct (map (link_key \<circ> link_row) links)"
    using assms(3) by (auto simp: distinct_map inj_on_def link_key_def link_row_def)
  then have "t_memory_entities (bk_tables b') = ?old @ map link_row links"
    using link_rows_appended[OF t(3)] assms(2) by (force simp: old t(4) link_key_def link_row_def)
  moreover have "filter (\<lambda>l. ml_memory_id l = m) (map link_row links) = (if m = mid then map link_row links else [])" for m
    using assms(2) by (auto simp: filter_empty_conv link_row_def intro!: filter_True)
  ultimately have "filter (\<lambda>l. ml_memory_id l = m) (t_memory_entities (bk_tables b'))
      = (if m = mid then map link_row links else filter (\<lambda>l. ml_memory_id l = m) (t_memory_entities ?t))" for m
    by (auto simp: filter_empty_conv intro!: filter_cong)
  then show ?thesis using True by (simp add: memory_entity_links_def link_row_def image_mset.compositionality comp_def)
next
  case False
  then show ?thesis using assms(1) unfolding replace_memory_entity_bundle_def transact_unit_def transact_def
    by (auto split: outcome.splits simp: bindO_eq_Ok)
qed

definition sample_knowledge :: Backend where
  "sample_knowledge = \<lparr> bk_tables = (init_tables 0)\<lparr>t_memories := [memory_row sample_codec 1 sample_memory]\<rparr>, bk_dim = 0,
     bk_config = retrieval_config_default, bk_tracing = False \<rparr>"

definition sample_link :: MemoryEntityLink where
  "sample_link = \<lparr> ml_memory_id = mn_id sample_memory, ml_entity_id = ''e1'', ml_role = None, ml_confidence = Fin 1, ml_evidence = None \<rparr>"

lemma replace_links_exact_witness:
  "fst (replace_memory_entity_bundle sample_env sample_knowledge (mn_id sample_memory) [entity_record_new ''e1'' 0 ''person'' ''ann''] [] [sample_link])
     = Ok ()
   \<and> mset (memory_entity_links (snd (replace_memory_entity_bundle sample_env sample_knowledge (mn_id sample_memory)
       [entity_record_new ''e1'' 0 ''person'' ''ann''] [] [sample_link])) (mn_id sample_memory))
     = {# read_link (sample_link\<lparr>ml_role := Some []\<rparr>) #}"
proof -
  let ?r = "replace_memory_entity_bundle sample_env sample_knowledge (mn_id sample_memory) [entity_record_new ''e1'' 0 ''person'' ''ann''] [] [sample_link]"
  have ok: "fst ?r = Ok ()"
    by (simp add: replace_memory_entity_bundle_def entity_bundle_on_def transact_unit_def transact_def upsert_entity_on_def
        link_memory_entity_on_def sample_knowledge_def sample_link_def entity_record_new_def not_null_real_def fk_check_def upsert_def
        init_tables_def memory_row_def)
  have l: "ml_memory_id sample_link = mn_id sample_memory" "ml_role sample_link = None" by (simp_all add: sample_link_def)
  have "if fst ?r = Ok () then mset (memory_entity_links (snd ?r) (mn_id sample_memory))
        = mset (map (\<lambda>l. read_link (l\<lparr>ml_role := role_column (ml_role l)\<rparr>)) [sample_link])
      \<and> (\<forall>m. m \<noteq> mn_id sample_memory \<longrightarrow> memory_entity_links (snd ?r) m = memory_entity_links sample_knowledge m)
      else snd ?r = sample_knowledge"
    by (rule replace_links_exact[OF surjective_pairing]) (simp_all add: l)
  then show ?thesis using ok by (simp add: l role_column_def)
qed

text \<open>A claim that an entity takes part in twice, in two roles, is listed twice.\<close>

lemma claims_for_entity_repeats:
  assumes "t_claims (bk_tables b) = [c]" "cl_claim_id c = i"
    "t_claim_entities (bk_tables b) = [\<lparr> ck_claim_id = i, ck_entity_id = e, ck_role = ''subject'', ck_confidence = Fin 1 \<rparr>,
       \<lparr> ck_claim_id = i, ck_entity_id = e, ck_role = ''object'', ck_confidence = Fin 1 \<rparr>]"
  shows "claims_for_entity b e = [read_claim c, read_claim c]"
  using assms by (simp add: claims_for_entity_def numeral_2_eq_2)

end
