(* ===== verification/Facade_Linker.thy ===== *)
theory Facade_Linker
  imports Sqlite_Search
begin

text \<open>
  Linking memories to entities without a model (\<open>mentedb/src/entity_extraction.rs\<close>): the entities that tags and structured
  lines such as \<open>Name: Ann\<close> name explicitly. Unicode lower-casing (\<open>lower\<close>) and the order in which a hash map gives its
  values (\<open>order\<close>) are arguments.
\<close>

section \<open>Text\<close>

definition strip_prefix :: "string \<Rightarrow> string \<Rightarrow> string option" where
  "strip_prefix pat s = (if starts_with s pat then Some (drop (length pat) s) else None)"

definition split_once :: "string \<Rightarrow> string \<Rightarrow> (string \<times> string) option" where
  "split_once pat s = map_option (\<lambda>i. (take i s, drop (i + length pat) s)) (str_find pat s)"

text \<open>\<open>str::lines\<close>: a final line feed ends the last line, and a carriage return before a line feed is part of the ending.\<close>

definition text_lines :: "string \<Rightarrow> string list" where
  "text_lines s = (let ls = split_char (CHR 0x0A) s; body = butlast ls; cr = (\<lambda>l. if l \<noteq> [] \<and> last l = CHR 0x0D then butlast l else l) in
     map cr body @ (if last ls = [] then [] else [last ls]))"

definition trim_end_char :: "char \<Rightarrow> string \<Rightarrow> string" where
  "trim_end_char c s = rev (dropWhile (\<lambda>x. x = c) (rev s))"

definition trim_chars :: "char list \<Rightarrow> string \<Rightarrow> string" where
  "trim_chars cs s = rev (dropWhile (\<lambda>x. x \<in> set cs) (rev (dropWhile (\<lambda>x. x \<in> set cs) s)))"

text \<open>\<open>trim_start_matches\<close> removes a non-empty prefix as often as it occurs.\<close>

function trim_start_str :: "string \<Rightarrow> string \<Rightarrow> string" where
  "trim_start_str pat s = (if pat \<noteq> [] \<and> starts_with s pat then trim_start_str pat (drop (length pat) s) else s)"
  by pat_completeness auto
termination
proof (relation "measure (length \<circ> snd)")
  fix pat s :: string
  assume "pat \<noteq> [] \<and> starts_with s pat"
  then have "pat \<noteq> []" "take (length pat) s = pat" by (simp_all add: starts_with_iff)
  then have "s \<noteq> []" by auto
  then show "((pat, drop (length pat) s), pat, s) \<in> measure (length \<circ> snd)" using \<open>pat \<noteq> []\<close> by simp
qed simp

declare trim_start_str.simps [simp del]

definition replace_str :: "string \<Rightarrow> string \<Rightarrow> string \<Rightarrow> string" where
  "replace_str pat new s = join new (split_str pat s)"

definition is_ascii_upper :: "char \<Rightarrow> bool" where
  "is_ascii_upper c \<longleftrightarrow> 65 \<le> byte c \<and> byte c \<le> 90"

definition is_ascii_alpha :: "char \<Rightarrow> bool" where
  "is_ascii_alpha c \<longleftrightarrow> is_ascii_upper c \<or> 97 \<le> byte c \<and> byte c \<le> 122"

definition ascii_upper :: "char \<Rightarrow> char" where
  "ascii_upper c = (if 97 \<le> byte c \<and> byte c \<le> 122 then char_of (byte c - 32) else c)"

definition eq_ignore_ascii_case :: "string \<Rightarrow> string \<Rightarrow> bool" where
  "eq_ignore_ascii_case a b \<longleftrightarrow> to_ascii_lowercase a = to_ascii_lowercase b"

section \<open>Configuration and results\<close>

record EntityExtractionConfig =
  ec_enabled :: bool
  ec_recall_enabled :: bool
  ec_max_entities_per_memory :: nat
  ec_max_aliases_per_entity :: nat
  ec_min_phrase_chars :: nat
  ec_max_phrase_chars :: nat
  ec_max_alias_words :: nat
  ec_tag_confidence :: f32
  ec_structured_confidence :: f32
  ec_min_confidence :: f32
  ec_recall_boost :: f32
  ec_recall_fetch_limit :: nat

definition entity_extraction_config_default :: EntityExtractionConfig where
  "entity_extraction_config_default = \<lparr> ec_enabled = True, ec_recall_enabled = True, ec_max_entities_per_memory = 16,
     ec_max_aliases_per_entity = 8, ec_min_phrase_chars = 2, ec_max_phrase_chars = 80, ec_max_alias_words = 5,
     ec_tag_confidence = f32_of (98/100), ec_structured_confidence = f32_of (95/100), ec_min_confidence = f32_of (55/100),
     ec_recall_boost = Fin 1, ec_recall_fetch_limit = 32 \<rparr>"

record ExtractedMention =
  xe_canonical :: string
  xe_entity_type :: string
  xe_aliases :: "string list"
  xe_role :: "string option"
  xe_confidence :: f32
  xe_evidence :: "string option"

section \<open>Reading lines\<close>

definition field_value :: "string \<Rightarrow> string \<Rightarrow> string option" where
  "field_value line field = (case split_once '':'' line of
     Some (head, v) \<Rightarrow> if eq_ignore_ascii_case (trim head) field then Some (trim v) else None
   | None \<Rightarrow> None)"

definition first_structured_value :: "string \<Rightarrow> string" where
  "first_structured_value v = trim (trim_end_char (CHR ''.'') (case split_once ''. '' v of Some (head, _) \<Rightarrow> head | None \<Rightarrow> v))"

definition split_structured_list :: "string \<Rightarrow> string list" where
  "split_structured_list v =
     (let normalized = replace_str '' plus '' '','' (replace_str '' and '' '','' (replace_str '' with '' '','' v)) in
      filter (\<lambda>w. w \<noteq> []) (map (\<lambda>part. trim (trim_end_char (CHR ''.'') (trim_start_str ''with '' (trim_start_str ''and '' (trim part)))))
        (split_char (CHR '','') normalized)))"

definition take_until_boundary :: "string \<Rightarrow> string" where
  "take_until_boundary raw = (case split_once '' is '' raw of Some (h, _) \<Rightarrow> h
     | None \<Rightarrow> (case split_once '' uses '' raw of Some (h, _) \<Rightarrow> h
     | None \<Rightarrow> (case split_once '' includes '' raw of Some (h, _) \<Rightarrow> h | None \<Rightarrow> raw)))"

definition trim_section_prefix :: "string \<Rightarrow> string" where
  "trim_section_prefix line = (let trimmed = trim line in
     case strip_prefix ''['' trimmed of
       Some rest \<Rightarrow> (case split_once '']'' rest of Some (_, after) \<Rightarrow> trim after | None \<Rightarrow> trimmed)
     | None \<Rightarrow> trimmed)"

definition trim_context_prefix :: "string \<Rightarrow> string" where
  "trim_context_prefix line = (let s = trim_section_prefix line in
     case strip_prefix ''User:'' s of Some rest \<Rightarrow> trim rest
     | None \<Rightarrow> (case strip_prefix ''Assistant:'' s of Some rest \<Rightarrow> trim rest
     | None \<Rightarrow> (case strip_prefix ''System:'' s of Some rest \<Rightarrow> trim rest | None \<Rightarrow> s)))"

definition canonicalize_phrase :: "string \<Rightarrow> string option" where
  "canonicalize_phrase raw =
     (let cleaned = join '' '' (split_whitespace (trim_end_char (CHR ''.'')
            (trim_chars ('','' @ '';:'' @ [CHR 0x22, CHR 0x27] @ ''()[]'') (trim raw))));
          cleaned = (case strip_prefix ''Project '' cleaned of Some r \<Rightarrow> r
            | None \<Rightarrow> (case strip_prefix ''Name '' cleaned of Some r \<Rightarrow> r | None \<Rightarrow> cleaned))
      in if cleaned = [] \<or> \<not> list_ex is_ascii_alpha cleaned then None
         else if list_ex is_ascii_upper cleaned then Some cleaned
         else Some (join '' '' (map (\<lambda>w. case w of [] \<Rightarrow> [] | c # cs \<Rightarrow> ascii_upper c # cs) (split_whitespace cleaned))))"

fun push_aliases :: "nat \<Rightarrow> string list \<Rightarrow> string list \<Rightarrow> string list" where
  "push_aliases m out [] = out"
| "push_aliases m out (a # as) = (if m \<le> length out then out
     else push_aliases m (if a \<noteq> [] \<and> a \<notin> set out then out @ [a] else out) as)"

definition aliases_for :: "(string \<Rightarrow> string) \<Rightarrow> string \<Rightarrow> string \<Rightarrow> nat \<Rightarrow> string list" where
  "aliases_for lower raw canonical max_aliases =
     push_aliases max_aliases [] [trim_end_char (CHR ''.'') (trim raw), canonical, lower canonical]"

definition normalize_type :: "(string \<Rightarrow> string) \<Rightarrow> string \<Rightarrow> string" where
  "normalize_type lower raw = replace_str '' '' ''_'' (lower (trim raw))"

section \<open>Accumulating\<close>

type_synonym Accumulator = "(string \<times> ExtractedMention) list"

fun merge_aliases :: "nat \<Rightarrow> string list \<Rightarrow> string list \<Rightarrow> string list" where
  "merge_aliases m out [] = out"
| "merge_aliases m out (a # as) = merge_aliases m (if length out < m \<and> a \<notin> set out then out @ [a] else out) as"

definition merge_mention :: "EntityExtractionConfig \<Rightarrow> ExtractedMention \<Rightarrow> ExtractedMention \<Rightarrow> ExtractedMention" where
  "merge_mention cfg old e =
     (let old = (if fl_lt (xe_confidence old) (xe_confidence e)
        then old\<lparr>xe_confidence := xe_confidence e, xe_role := (case xe_role e of Some r \<Rightarrow> Some r | None \<Rightarrow> xe_role old),
                 xe_evidence := (case xe_evidence old of None \<Rightarrow> xe_evidence e | Some v \<Rightarrow> Some v)\<rparr>
        else old)
      in old\<lparr>xe_aliases := merge_aliases (ec_max_aliases_per_entity cfg) (xe_aliases old) (xe_aliases e)\<rparr>)"

definition mention_key :: "(string \<Rightarrow> string) \<Rightarrow> ExtractedMention \<Rightarrow> string" where
  "mention_key lower e = lower (xe_entity_type e) @ '':'' @ lower (xe_canonical e)"

definition acc_add :: "(string \<Rightarrow> string) \<Rightarrow> EntityExtractionConfig \<Rightarrow> ExtractedMention \<Rightarrow> Accumulator \<Rightarrow> Accumulator" where
  "acc_add lower cfg e acc =
     (if fl_lt (xe_confidence e) (ec_min_confidence cfg) then acc
      else if length (xe_canonical e) < ec_min_phrase_chars cfg \<or> ec_max_phrase_chars cfg < length (xe_canonical e) then acc
      else case map_of acc (mention_key lower e) of
        Some old \<Rightarrow> AList.update (mention_key lower e) (merge_mention cfg old e) acc
      | None \<Rightarrow> if length acc < ec_max_entities_per_memory cfg then acc @ [(mention_key lower e, e)] else acc)"

definition mention_before :: "ExtractedMention \<Rightarrow> ExtractedMention \<Rightarrow> bool" where
  "mention_before a b \<longleftrightarrow> fl_lt (xe_confidence b) (xe_confidence a)
     \<or> \<not> fl_lt (xe_confidence a) (xe_confidence b) \<and> xe_canonical a < xe_canonical b"

definition acc_finish :: "(ExtractedMention list \<Rightarrow> ExtractedMention list) \<Rightarrow> EntityExtractionConfig \<Rightarrow> Accumulator \<Rightarrow> ExtractedMention list" where
  "acc_finish order cfg acc = take (ec_max_entities_per_memory cfg) (sort_by mention_before (order (map snd acc)))"

definition add_explicit :: "(string \<Rightarrow> string) \<Rightarrow> EntityExtractionConfig \<Rightarrow> string \<Rightarrow> string \<Rightarrow> string option \<Rightarrow> f32 \<Rightarrow> string option
    \<Rightarrow> Accumulator \<Rightarrow> Accumulator" where
  "add_explicit lower cfg raw entity_type role confidence evidence acc = (case canonicalize_phrase raw of
     None \<Rightarrow> acc
   | Some canonical \<Rightarrow> acc_add lower cfg \<lparr> xe_canonical = canonical, xe_entity_type = normalize_type lower entity_type,
       xe_aliases = aliases_for lower raw canonical (ec_max_aliases_per_entity cfg), xe_role = role, xe_confidence = confidence,
       xe_evidence = evidence \<rparr> acc)"

section \<open>Extraction\<close>

definition tagged_type :: "(string \<Rightarrow> string) \<Rightarrow> string list \<Rightarrow> string" where
  "tagged_type lower tags = (case List.map_filter (strip_prefix ''entity_type:'') tags of
     [] \<Rightarrow> ''concept'' | t # _ \<Rightarrow> normalize_type lower t)"

definition extract_tag_entities :: "(string \<Rightarrow> string) \<Rightarrow> EntityExtractionConfig \<Rightarrow> string list \<Rightarrow> Accumulator \<Rightarrow> Accumulator" where
  "extract_tag_entities lower cfg tags acc =
     fold (\<lambda>raw. add_explicit lower cfg raw (tagged_type lower tags) (Some ''mentioned'') (ec_tag_confidence cfg) (Some (trim raw)))
       (List.map_filter (strip_prefix ''entity:'') tags) acc"

definition add_parts :: "(string \<Rightarrow> string) \<Rightarrow> EntityExtractionConfig \<Rightarrow> (string \<Rightarrow> bool) \<Rightarrow> string \<Rightarrow> string \<Rightarrow> string \<Rightarrow> string list \<Rightarrow> Accumulator \<Rightarrow> Accumulator" where
  "add_parts lower cfg skip clean entity_type role keys acc =
     fold (\<lambda>key acc. case field_value clean key of
       None \<Rightarrow> acc
     | Some v \<Rightarrow> fold (\<lambda>part acc. if skip part then acc
         else add_explicit lower cfg part entity_type (Some role) (ec_structured_confidence cfg) (Some part) acc)
         (split_structured_list v) acc) keys acc"

definition extract_name :: "(string \<Rightarrow> string) \<Rightarrow> EntityExtractionConfig \<Rightarrow> string \<Rightarrow> Accumulator \<Rightarrow> Accumulator" where
  "extract_name lower cfg clean acc = (case field_value clean ''Name'' of
     None \<Rightarrow> acc
   | Some v \<Rightarrow> let v = first_structured_value v in
       add_explicit lower cfg v ''person'' (Some ''subject'') (ec_structured_confidence cfg)
         (Some (trim_end_char (CHR ''.'') (trim v))) acc)"

definition extract_project :: "(string \<Rightarrow> string) \<Rightarrow> EntityExtractionConfig \<Rightarrow> string \<Rightarrow> Accumulator \<Rightarrow> Accumulator" where
  "extract_project lower cfg clean acc = (case map_option take_until_boundary (strip_prefix ''Project '' clean) of
     None \<Rightarrow> acc
   | Some project \<Rightarrow> if trim project = [] then acc
       else add_explicit lower cfg project ''project'' (Some ''subject'') (ec_structured_confidence cfg) (Some (trim project)) acc)"

definition extract_line :: "(string \<Rightarrow> string) \<Rightarrow> EntityExtractionConfig \<Rightarrow> string \<Rightarrow> Accumulator \<Rightarrow> Accumulator" where
  "extract_line lower cfg line acc =
     (let clean = trim (trim_context_prefix line) in
      add_parts lower cfg (\<lambda>_. False) clean ''technology'' ''tool'' [''Technology'', ''Technologies'', ''Stack'', ''Core stack'']
        (add_parts lower cfg (\<lambda>_. False) clean ''organization'' ''affiliation'' [''Organization'', ''Company'', ''Employer'']
          (add_parts lower cfg (\<lambda>part. starts_with (lower part) ''near '') clean ''place'' ''location'' [''Location'', ''Base location'']
            (extract_project lower cfg clean (extract_name lower cfg clean acc)))))"

definition extract_structured_fields :: "(string \<Rightarrow> string) \<Rightarrow> EntityExtractionConfig \<Rightarrow> string \<Rightarrow> Accumulator \<Rightarrow> Accumulator" where
  "extract_structured_fields lower cfg s acc = fold (extract_line lower cfg) (text_lines s) acc"

definition extract_text :: "(string \<Rightarrow> string) \<Rightarrow> (ExtractedMention list \<Rightarrow> ExtractedMention list) \<Rightarrow> EntityExtractionConfig \<Rightarrow> string \<Rightarrow> string list
    \<Rightarrow> ExtractedMention list" where
  "extract_text lower order cfg s tags = (if \<not> ec_enabled cfg then []
     else acc_finish order cfg (extract_structured_fields lower cfg s (extract_tag_entities lower cfg tags [])))"

definition extract_memory :: "(string \<Rightarrow> string) \<Rightarrow> (ExtractedMention list \<Rightarrow> ExtractedMention list) \<Rightarrow> EntityExtractionConfig \<Rightarrow> MemoryNode
    \<Rightarrow> ExtractedMention list" where
  "extract_memory lower order cfg m = extract_text lower order cfg (mn_content m) (mn_tags m)"

definition extract_query :: "string \<Rightarrow> ExtractedMention list" where
  "extract_query query = []"

section \<open>What is accumulated\<close>

definition mention_ok :: "EntityExtractionConfig \<Rightarrow> ExtractedMention \<Rightarrow> bool" where
  "mention_ok cfg e \<longleftrightarrow> \<not> fl_lt (xe_confidence e) (ec_min_confidence cfg)
     \<and> ec_min_phrase_chars cfg \<le> length (xe_canonical e) \<and> length (xe_canonical e) \<le> ec_max_phrase_chars cfg
     \<and> length (xe_aliases e) \<le> ec_max_aliases_per_entity cfg \<and> distinct (xe_aliases e)"

definition acc_ok :: "(string \<Rightarrow> string) \<Rightarrow> EntityExtractionConfig \<Rightarrow> Accumulator \<Rightarrow> bool" where
  "acc_ok lower cfg acc \<longleftrightarrow> distinct (map fst acc) \<and> length acc \<le> ec_max_entities_per_memory cfg
     \<and> (\<forall>(k, e) \<in> set acc. mention_ok cfg e \<and> k = mention_key lower e)"

lemma push_aliases_ok:
  "length out \<le> m \<Longrightarrow> distinct out \<Longrightarrow> length (push_aliases m out as) \<le> m \<and> distinct (push_aliases m out as)"
  by (induction m out as rule: push_aliases.induct) auto

lemma merge_aliases_ok:
  "length out \<le> m \<Longrightarrow> distinct out \<Longrightarrow> length (merge_aliases m out as) \<le> m \<and> distinct (merge_aliases m out as)"
  by (induction m out as rule: merge_aliases.induct) auto

lemma merge_mention_ok: "mention_ok cfg old \<Longrightarrow> mention_ok cfg e \<Longrightarrow> mention_ok cfg (merge_mention cfg old e)"
  using merge_aliases_ok[of "xe_aliases old" "ec_max_aliases_per_entity cfg" "xe_aliases e"]
  by (auto simp: mention_ok_def merge_mention_def Let_def)

lemma merge_mention_key [simp]: "mention_key lower (merge_mention cfg old e) = mention_key lower old"
  by (simp add: mention_key_def merge_mention_def Let_def)

lemma update_elem: "x \<in> set (AList.update k v al) \<Longrightarrow> x = (k, v) \<or> x \<in> set al"
  by (induction al) (auto split: if_splits)

lemma length_update_present: "k \<in> fst ` set al \<Longrightarrow> length (AList.update k v al) = length al"
  by (induction al) auto

lemma acc_add_ok:
  assumes "acc_ok lower cfg acc" "length (xe_aliases e) \<le> ec_max_aliases_per_entity cfg" "distinct (xe_aliases e)"
  shows "acc_ok lower cfg (acc_add lower cfg e acc)"
proof (cases "fl_lt (xe_confidence e) (ec_min_confidence cfg) \<or> length (xe_canonical e) < ec_min_phrase_chars cfg
    \<or> ec_max_phrase_chars cfg < length (xe_canonical e)")
  case False
  then have e: "mention_ok cfg e" using assms by (auto simp: mention_ok_def)
  show ?thesis
  proof (cases "map_of acc (mention_key lower e)")
    case None
    then have "mention_key lower e \<notin> fst ` set acc" by (simp add: map_of_eq_None_iff)
    then show ?thesis using None False e assms(1) by (auto simp: acc_add_def acc_ok_def)
  next
    case (Some old)
    then have old: "mention_ok cfg old" "mention_key lower old = mention_key lower e"
      using assms(1) map_of_SomeD[OF Some] by (fastforce simp: acc_ok_def)+
    let ?acc = "AList.update (mention_key lower e) (merge_mention cfg old e) acc"
    have present: "mention_key lower e \<in> fst ` set acc" using Some by (metis map_of_eq_None_iff option.distinct(1))
    have "\<forall>(k, x) \<in> set ?acc. mention_ok cfg x \<and> k = mention_key lower x"
      using update_elem[of _ "mention_key lower e" "merge_mention cfg old e" acc] assms(1) merge_mention_ok[OF old(1) e] old(2)
      by (fastforce simp: acc_ok_def)
    then show ?thesis using Some False assms(1) present
      by (simp add: acc_add_def acc_ok_def distinct_update length_update_present)
  qed
qed (use assms in \<open>auto simp: acc_add_def\<close>)

lemma add_explicit_ok: "acc_ok lower cfg acc \<Longrightarrow> acc_ok lower cfg (add_explicit lower cfg raw ty role c ev acc)"
  by (auto simp: add_explicit_def aliases_for_def push_aliases_ok intro!: acc_add_ok split: option.split)

lemma fold_ok: "(\<And>x acc. acc_ok lower cfg acc \<Longrightarrow> acc_ok lower cfg (f x acc)) \<Longrightarrow> acc_ok lower cfg acc \<Longrightarrow> acc_ok lower cfg (fold f xs acc)"
  by (induction xs arbitrary: acc) auto

lemma add_parts_ok: "acc_ok lower cfg acc \<Longrightarrow> acc_ok lower cfg (add_parts lower cfg skip clean ty role keys acc)"
  unfolding add_parts_def by (rule fold_ok) (auto intro!: fold_ok add_explicit_ok split: option.split)

lemma extract_line_ok: "acc_ok lower cfg acc \<Longrightarrow> acc_ok lower cfg (extract_line lower cfg l acc)"
  unfolding extract_line_def Let_def extract_name_def extract_project_def
  by (intro add_parts_ok) (auto intro: add_explicit_ok split: option.split)

lemma extraction_ok: "acc_ok lower cfg (extract_structured_fields lower cfg s (extract_tag_entities lower cfg tags []))"
  unfolding extract_structured_fields_def extract_tag_entities_def
  by (intro fold_ok extract_line_ok add_explicit_ok) (simp_all add: acc_ok_def)

lemma acc_ok_keys: "acc_ok lower cfg acc \<Longrightarrow> distinct (map (mention_key lower) (map snd acc))"
proof -
  assume ok: "acc_ok lower cfg acc"
  then have "map (mention_key lower) (map snd acc) = map fst acc" by (auto simp: acc_ok_def)
  then show ?thesis using ok by (simp only: acc_ok_def)
qed

text \<open>C37: The linker stays within its configuration whatever the text and the tags are: a memory gives at most
  \<open>max_entities_per_memory\<close> mentions, no two of them of the same type and name up to case, each with a confidence not under the
  minimum, a name whose length is in range and at most \<open>max_aliases_per_entity\<close> aliases without repetition, whatever order
  the hash map gives its values in.\<close>

theorem linker_bounds:
  assumes "\<And>xs. mset (order xs) = mset xs"
  shows "length (extract_text lower order cfg s tags) \<le> ec_max_entities_per_memory cfg
    \<and> distinct (map (mention_key lower) (extract_text lower order cfg s tags))
    \<and> (\<forall>e \<in> set (extract_text lower order cfg s tags).
        \<not> fl_lt (xe_confidence e) (ec_min_confidence cfg)
        \<and> ec_min_phrase_chars cfg \<le> length (xe_canonical e) \<and> length (xe_canonical e) \<le> ec_max_phrase_chars cfg
        \<and> length (xe_aliases e) \<le> ec_max_aliases_per_entity cfg \<and> distinct (xe_aliases e))"
proof (cases "ec_enabled cfg")
  case True
  define acc where "acc = extract_structured_fields lower cfg s (extract_tag_entities lower cfg tags [])"
  have ok: "acc_ok lower cfg acc" by (simp add: acc_def extraction_ok)
  have result: "extract_text lower order cfg s tags
      = take (ec_max_entities_per_memory cfg) (sort_by mention_before (order (map snd acc)))"
    using True by (simp add: extract_text_def acc_finish_def acc_def)
  have "mset (map (mention_key lower) (sort_by mention_before (order (map snd acc)))) = mset (map (mention_key lower) (map snd acc))"
    using assms by (simp add: multiset.map_comp)
  then have "distinct (map (mention_key lower) (sort_by mention_before (order (map snd acc))))"
    using acc_ok_keys[OF ok] mset_eq_imp_distinct_iff by blast
  moreover have "set (order (map snd acc)) = snd ` set acc" using assms by (metis set_mset_mset set_map)
  then have "\<forall>e \<in> set (order (map snd acc)). mention_ok cfg e" using ok by (auto simp: acc_ok_def)
  ultimately show ?thesis unfolding result mention_ok_def
    by (auto simp: take_map[symmetric] dest!: in_set_takeD)
qed (simp add: extract_text_def)

theorem linker_bounds_witness:
  "map xe_canonical (extract_text to_ascii_lowercase rev entity_extraction_config_default ''Name: Ann Lee'' [''entity:ann lee'', ''entity_type:Person''])
      = [''Ann Lee'']
    \<and> length (extract_text to_ascii_lowercase rev entity_extraction_config_default ''Name: Ann Lee'' [''entity:ann lee'', ''entity_type:Person'']) \<le> 16"
proof (rule conjI)
  show "length (extract_text to_ascii_lowercase rev entity_extraction_config_default ''Name: Ann Lee'' [''entity:ann lee'', ''entity_type:Person'']) \<le> 16"
    using linker_bounds[where order = rev and cfg = entity_extraction_config_default, OF mset_rev]
    by (simp add: entity_extraction_config_default_def)
qed code_simp

end
