(* ===== verification/Facade_State.thy ===== *)
theory Facade_State
  imports Sqlite_Knowledge Facade_Linker Graph_Manager Consolidation_Life Cognitive_Inference Cognitive_Stream Cognitive_Speculative
    Cognitive_Entity Cognitive_Phantom Embedding_Manager
begin

text \<open>
  The state of the database facade \<open>MenteDb\<close> (\<open>mentedb/src/lib.rs\<close>): the SQLite store, the graph kept in memory beside it and
  the cognitive engines. Its methods take \<open>&self\<close> and lock what they need; a method is a step on this state.
\<close>

section \<open>What comes from outside\<close>

text \<open>
  The JSON of a payload is rendered by a library: a leaf is a field of an audit record or an object of such fields.
\<close>

datatype Json = J JsonField | J_Object "(string \<times> JsonField) list"

type_synonym Payload = "(string \<times> Json) list"

text \<open>
  The clock, random identifiers, the character classes of Unicode and the iteration orders of hash maps. Each reading of the clock or of the random source takes
  the next number, counted in the state.
\<close>

record Ports =
  po_env :: Env
  po_codec :: AttrCodec
  po_json :: JsonCheck
  po_engine :: Engine
  po_lower :: "string \<Rightarrow> string"
  po_mention_order :: "ExtractedMention list \<Rightarrow> ExtractedMention list"
  po_alias_order :: "(string \<times> f32) list \<Rightarrow> (string \<times> f32) list"
  po_belief_order :: "(MemoryId \<rightharpoonup> f32) \<Rightarrow> (MemoryId \<times> f32) list"
  po_root_order :: "nat set \<Rightarrow> nat list"
  po_clock :: "nat \<Rightarrow> Timestamp"
  po_uuid :: "nat \<Rightarrow> string"
  po_fresh :: "nat \<Rightarrow> MemoryId"
  po_render :: "Payload \<Rightarrow> string"
  po_show :: "MemoryId \<Rightarrow> string"
  po_source_error :: "MemorySource \<Rightarrow> MemoryNode \<Rightarrow> string"
  po_exp2 :: "f64 \<Rightarrow> f64"
  po_expo :: "f64 \<Rightarrow> f64"
  po_logn :: "f64 \<Rightarrow> f64"
  po_uuid_parse :: "string \<Rightarrow> uuid option"
  po_merge_json :: "string \<Rightarrow> (string \<times> string) list \<Rightarrow> string MenteResult"
  po_agent :: "nat \<Rightarrow> AgentId"
  po_key_order :: "nat \<Rightarrow> string list \<Rightarrow> string list"
  po_targets_order :: "Targets \<Rightarrow> Targets"
  po_delta_order :: "MemoryId set \<Rightarrow> MemoryId list"
  po_alnum :: "string \<Rightarrow> bool"
  po_upper :: "string \<Rightarrow> bool"

section \<open>Configuration\<close>

record EnrichmentConfig =
  nc_enabled :: bool
  nc_trigger_interval :: nat
  nc_min_confidence :: f32
  nc_max_enrichment_confidence :: f32
  nc_enable_user_model :: bool
  nc_entity_merge_threshold :: f32
  nc_entity_separate_threshold :: f32

definition enrichment_config_default :: EnrichmentConfig where
  "enrichment_config_default = \<lparr> nc_enabled = False, nc_trigger_interval = 50, nc_min_confidence = f32_of (6/10),
     nc_max_enrichment_confidence = f32_of (7/10), nc_enable_user_model = False, nc_entity_merge_threshold = f32_of (7/10),
     nc_entity_separate_threshold = f32_of (4/10) \<rparr>"

record CognitiveConfig =
  cf_write_inference :: bool
  cf_decay_on_recall :: bool
  cf_pain_tracking :: bool
  cf_interference_detection :: bool
  cf_phantom_tracking :: bool
  cf_speculative_cache :: bool
  cf_archival_evaluation :: bool
  cf_inference_config :: WriteInferenceConfig
  cf_decay_config :: DecayConfig
  cf_phantom_config :: PhantomConfig
  cf_archival_config :: ArchivalConfig
  cf_stream_config :: StreamConfig
  cf_enrichment_config :: EnrichmentConfig
  cf_entity_extraction_config :: EntityExtractionConfig
  cf_interference_threshold :: f32
  cf_trajectory_max_turns :: nat
  cf_speculative_cache_size :: nat
  cf_pain_max_warnings :: nat

definition cognitive_config_default :: CognitiveConfig where
  "cognitive_config_default = \<lparr> cf_write_inference = True, cf_decay_on_recall = True, cf_pain_tracking = True,
     cf_interference_detection = True, cf_phantom_tracking = True, cf_speculative_cache = True, cf_archival_evaluation = True,
     cf_inference_config = write_inference_config_default, cf_decay_config = decay_config_default,
     cf_phantom_config = phantom_config_default, cf_archival_config = archival_config_default,
     cf_stream_config = stream_config_default, cf_enrichment_config = enrichment_config_default,
     cf_entity_extraction_config = entity_extraction_config_default, cf_interference_threshold = f32_of (8/10),
     cf_trajectory_max_turns = 100, cf_speculative_cache_size = 10, cf_pain_max_warnings = 5 \<rparr>"

section \<open>State\<close>

record MenteDb =
  md_db :: Backend
  md_graph :: GraphManager
  md_embedding_dim :: nat
  md_embedder :: "EmbeddingProvider option"
  md_config :: CognitiveConfig
  md_pain :: PainRegistry
  md_trajectory :: TrajectoryTracker
  md_stream :: CognitionStream
  md_phantom :: PhantomTracker
  md_speculative :: SpeculativeCache
  md_resolver :: EntityResolver
  md_last_enrichment_turn :: nat
  md_enrichment_pending :: bool
  md_draws :: nat

section \<open>Fallible steps\<close>

text \<open>
  A method changes the state and returns, fails or panics; \<open>then_do\<close> is the \<open>?\<close> operator, \<open>attempt\<close> a call whose error is
  only logged.
\<close>

type_synonym 'a Db = "MenteDb \<Rightarrow> 'a MenteResult \<times> MenteDb"

definition give :: "'a \<Rightarrow> 'a Db" where
  "give x s = (Ok x, s)"

definition refuse :: "MenteError \<Rightarrow> 'a Db" where
  "refuse e s = (Err e, s)"

definition then_do :: "'a Db \<Rightarrow> ('a \<Rightarrow> 'b Db) \<Rightarrow> 'b Db" where
  "then_do m f s = (case m s of (Ok x, s') \<Rightarrow> f x s' | (Err e, s') \<Rightarrow> (Err e, s') | (Panic, s') \<Rightarrow> (Panic, s'))"

definition attempt :: "'a Db \<Rightarrow> unit Db" where
  "attempt m s = (case m s of (Panic, s') \<Rightarrow> (Panic, s') | (_, s') \<Rightarrow> (Ok (), s'))"

definition lift :: "'a MenteResult \<Rightarrow> 'a Db" where
  "lift r s = (r, s)"

definition draw :: "nat Db" where
  "draw s = (Ok (md_draws s), s\<lparr>md_draws := Suc (md_draws s)\<rparr>)"

definition current_time_us :: "Ports \<Rightarrow> Timestamp Db" where
  "current_time_us P = then_do draw (\<lambda>n. give (po_clock P n))"

definition on_db :: "(Backend \<Rightarrow> 'a MenteResult \<times> Backend) \<Rightarrow> 'a Db" where
  "on_db f s = (case f (md_db s) of (r, b) \<Rightarrow> (r, s\<lparr>md_db := b\<rparr>))"

definition on_graph :: "(GraphManager \<Rightarrow> 'a MenteResult \<times> GraphManager) \<Rightarrow> 'a Db" where
  "on_graph f s = (case f (md_graph s) of (r, g) \<Rightarrow> (r, s\<lparr>md_graph := g\<rparr>))"

definition read_db :: "(Backend \<Rightarrow> 'a) \<Rightarrow> 'a Db" where
  "read_db f s = (Ok (f (md_db s)), s)"

definition read_config :: "(CognitiveConfig \<Rightarrow> 'a) \<Rightarrow> 'a Db" where
  "read_config f s = (Ok (f (md_config s)), s)"

fun each :: "('a \<Rightarrow> unit Db) \<Rightarrow> 'a list \<Rightarrow> unit Db" where
  "each f [] = give ()"
| "each f (x # xs) = then_do (f x) (\<lambda>_. each f xs)"

lemmas db_defs = give_def refuse_def then_do_def attempt_def lift_def draw_def current_time_us_def on_db_def on_graph_def read_db_def
  read_config_def

section \<open>Opening\<close>

text \<open>The graph is filled from the store: every memory is a node, and an edge between two of them is mirrored.\<close>

definition hydrate :: "Backend \<Rightarrow> GraphManager" where
  "hydrate b = fold (\<lambda>e g. snd (add_relationship g e)) (stored_edges b)
     (fold (\<lambda>i g. add_memory g i) (all_memory_ids b) gm_new)"

text \<open>
  The files of the cognitive directory, as far as they exist and can be read: the snapshots are arguments. A snapshot that
  cannot be loaded leaves the fresh engine.
\<close>

record Saved =
  sv_transitions :: "TransitionSnapshot option"
  sv_speculative :: "CacheSnapshot option"
  sv_entities :: "EntitySnapshot option"

definition load_saved :: "('s \<Rightarrow> 'f \<Rightarrow> unit MenteResult \<times> 's) \<Rightarrow> 's \<Rightarrow> 'f option \<Rightarrow> 's" where
  "load_saved load s saved = (case saved of None \<Rightarrow> s | Some f \<Rightarrow> snd (load s f))"

definition open_with_config :: "Ports \<Rightarrow> CognitiveConfig \<Rightarrow> Tables option \<Rightarrow> Saved \<Rightarrow> MenteDb" where
  "open_with_config P config stored saved =
     (let b = backend_open retrieval_config_default 0 stored; trajectory = trajectory_new (cf_trajectory_max_turns config) in
      \<lparr> md_db = b, md_graph = hydrate b, md_embedding_dim = 0, md_embedder = None, md_config = config,
        md_pain = pain_registry_new (cf_pain_max_warnings config),
        md_trajectory = trajectory\<lparr>tt_transitions := load_saved load_transitions (tt_transitions trajectory) (sv_transitions saved)\<rparr>,
        md_stream = stream_with_config (cf_stream_config config), md_phantom = phantom_tracker_new (cf_phantom_config config),
        md_speculative = load_saved (load_snapshot (po_clock P 0))
          (spec_new (cf_speculative_cache_size config) (f32_of (1/2)) (f32_of (4/10))) (sv_speculative saved),
        md_resolver = load_saved load_entities resolver_new (sv_entities saved), md_last_enrichment_turn = 0,
        md_enrichment_pending = False, md_draws = 1 \<rparr>)"

definition mentedb_open :: "Ports \<Rightarrow> Tables option \<Rightarrow> Saved \<Rightarrow> MenteDb" where
  "mentedb_open P stored saved = open_with_config P cognitive_config_default stored saved"

definition set_embedder :: "Ports \<Rightarrow> EmbeddingProvider \<Rightarrow> MenteDb \<Rightarrow> MenteDb" where
  "set_embedder P e s = s\<lparr>md_embedding_dim := ep_dimensions e, md_embedder := Some e,
     md_db := ensure_vector_index (po_env P) (md_db s) (ep_dimensions e)\<rparr>"

definition open_with_embedder :: "Ports \<Rightarrow> EmbeddingProvider \<Rightarrow> Tables option \<Rightarrow> Saved \<Rightarrow> MenteDb" where
  "open_with_embedder P e stored saved = (let s = mentedb_open P stored saved in
     s\<lparr>md_embedding_dim := ep_dimensions e, md_db := ensure_vector_index (po_env P) (md_db s) (ep_dimensions e), md_embedder := Some e\<rparr>)"

definition open_with_embedder_and_config :: "Ports \<Rightarrow> EmbeddingProvider \<Rightarrow> CognitiveConfig \<Rightarrow> Tables option \<Rightarrow> Saved \<Rightarrow> MenteDb" where
  "open_with_embedder_and_config P e config stored saved = set_embedder P e (open_with_config P config stored saved)"

definition embed_text :: "string \<Rightarrow> Embedding option Db" where
  "embed_text txt s = (case md_embedder s of
     Some e \<Rightarrow> (bindO (ep_embed e txt) (\<lambda>v. Ok (Some v)), s) | None \<Rightarrow> (Ok None, s))"

section \<open>Simple queries\<close>

definition mentedb_get_memory :: "Ports \<Rightarrow> MemoryId \<Rightarrow> MemoryNode Db" where
  "mentedb_get_memory P i s = (case get_memory (po_codec P) (md_db s) i of Some m \<Rightarrow> (Ok m, s) | None \<Rightarrow> (Err (MemoryNotFound i), s))"

definition memory_ids :: "MenteDb \<Rightarrow> MemoryId list" where
  "memory_ids s = all_memory_ids (md_db s)"

definition memory_count :: "MenteDb \<Rightarrow> nat" where
  "memory_count s = memory_total (md_db s)"

definition rebuild_indexes :: "Ports \<Rightarrow> nat Db" where
  "rebuild_indexes P s =
     (let dim = (if md_embedding_dim s > 0 then md_embedding_dim s else bk_dim (md_db s)) in
      (Ok (memory_total (md_db s)), if dim > 0 then s\<lparr>md_db := ensure_vector_index (po_env P) (md_db s) dim\<rparr> else s))"

section \<open>The graph after opening\<close>

lemma nodes_add_memory [simp]: "graph_nodes (gm_graph (add_memory g i)) = insert i (graph_nodes (gm_graph g))"
  by (auto simp: add_memory_def graph_nodes_def add_node_def Let_def split: option.splits)

lemma nodes_remove_memory [simp]: "graph_nodes (gm_graph (remove_memory g i)) = graph_nodes (gm_graph g) - {i}"
  by (auto simp: remove_memory_def graph_nodes_def remove_node_def Let_def split: option.splits if_splits)

lemma nodes_add_relationship [simp]: "graph_nodes (gm_graph (snd (add_relationship g e))) = graph_nodes (gm_graph g)"
  by (auto simp: add_relationship_def contains_node_def graph_nodes_def add_edge_def add_node_def push_delta_def Let_def
      split: option.splits prod.splits)

lemma nodes_fold_add_memory: "graph_nodes (gm_graph (fold (\<lambda>i g. add_memory g i) ids g)) = graph_nodes (gm_graph g) \<union> set ids"
  by (induction ids arbitrary: g) auto

lemma nodes_fold_add_relationship:
  "graph_nodes (gm_graph (fold (\<lambda>e g. snd (add_relationship g e)) es g)) = graph_nodes (gm_graph g)"
  by (induction es arbitrary: g) auto

lemma nodes_hydrate: "graph_nodes (gm_graph (hydrate b)) = set (all_memory_ids b)"
proof -
  have "graph_nodes (gm_graph gm_new) = {}" by (simp add: gm_new_def graph_new_def graph_nodes_def)
  then show ?thesis by (simp add: hydrate_def nodes_fold_add_memory nodes_fold_add_relationship)
qed

end
