(* ===== verification/Facade_Recall.thy ===== *)
theory Facade_Recall
  imports Facade_State
begin

text \<open>
  Recall (\<open>mentedb/src/lib.rs\<close>): hybrid search in the store, memories of the entities that the query names, and the filters by
  supersession, by time and by archival state.
\<close>

section \<open>Filters\<close>

definition memory_is_archived :: "MemoryNode \<Rightarrow> bool" where
  "memory_is_archived m \<longleftrightarrow> ''archived'' \<in> set (mn_tags m)"

definition memory_matches_tags :: "MemoryNode \<Rightarrow> string list option \<Rightarrow> bool \<Rightarrow> bool" where
  "memory_matches_tags m tags tags_or = (case tags of None \<Rightarrow> True
     | Some ts \<Rightarrow> if ts = [] then False
         else if tags_or then list_ex (\<lambda>tag. tag \<in> set (mn_tags m)) ts else list_all (\<lambda>tag. tag \<in> set (mn_tags m)) ts)"

definition archived_requested :: "string list option \<Rightarrow> bool" where
  "archived_requested tags = (case tags of None \<Rightarrow> False | Some ts \<Rightarrow> ''archived'' \<in> set ts)"

definition memory_matches_time_range :: "MemoryNode \<Rightarrow> (Timestamp \<times> Timestamp) option \<Rightarrow> bool" where
  "memory_matches_time_range m time_range = (case time_range of
     Some (start, stop) \<Rightarrow> start \<le> mn_created_at m \<and> mn_created_at m \<le> stop | None \<Rightarrow> True)"

definition derived_artifact_valid :: "string \<Rightarrow> Timestamp option \<Rightarrow> Timestamp option \<Rightarrow> Timestamp \<Rightarrow> bool" where
  "derived_artifact_valid status valid_from valid_until now \<longleftrightarrow> status = ''active''
     \<and> (case valid_from of Some f \<Rightarrow> f \<le> now | None \<Rightarrow> True) \<and> (case valid_until of Some u \<Rightarrow> now < u | None \<Rightarrow> True)"

section \<open>Aliases in a query\<close>

definition query_tokens :: "(string \<Rightarrow> string) \<Rightarrow> EntityExtractionConfig \<Rightarrow> string \<Rightarrow> string list" where
  "query_tokens lower cfg query =
     filter (\<lambda>token. ec_min_phrase_chars cfg \<le> length token \<and> list_ex is_ascii_alpha token)
       (map (\<lambda>raw. lower (trim_end_char (CHR ''.'') (trim_chars ('','' @ '';:'' @ [CHR 0x22, CHR 0x27] @ ''()[]{}?!'') raw)))
         (split_whitespace query))"

definition query_spans :: "nat \<Rightarrow> nat \<Rightarrow> (nat \<times> nat) list" where
  "query_spans n max_words =
     concat (map (\<lambda>start. map (Pair start) [start + 1..<Suc (min (wrap64 (start + max_words)) n)]) [0..<n])"

definition query_aliases :: "(string \<Rightarrow> string) \<Rightarrow> EntityExtractionConfig \<Rightarrow> string \<Rightarrow> string list" where
  "query_aliases lower cfg query = (let tokens = query_tokens lower cfg query in
     foldl (\<lambda>aliases (start, stop). let alias = join '' '' (take (stop - start) (drop start tokens)) in
         if length alias \<le> ec_max_phrase_chars cfg \<and> alias \<notin> set aliases then aliases @ [alias] else aliases)
       [] (query_spans (length tokens) (ec_max_alias_words cfg)))"

section \<open>Memories of the entities a query names\<close>

fun fl_is_finite :: "fl \<Rightarrow> bool" where
  "fl_is_finite (Fin _) = True"
| "fl_is_finite _ = False"

type_synonym Scores = "(MemoryId \<times> f32) list"

definition add_recall_candidate :: "AttrCodec \<Rightarrow> Backend \<Rightarrow> string list option \<Rightarrow> bool \<Rightarrow> (Timestamp \<times> Timestamp) option
    \<Rightarrow> MemoryId \<Rightarrow> f32 \<Rightarrow> Scores \<Rightarrow> Scores" where
  "add_recall_candidate codec b tags tags_or time_range mid boost scored =
     (if fl_le boost (Fin 0) \<or> \<not> fl_is_finite boost then scored
      else case get_memory codec b mid of None \<Rightarrow> scored
        | Some m \<Rightarrow> if \<not> memory_matches_tags m tags tags_or \<or> \<not> memory_matches_time_range m time_range
              \<or> memory_is_archived m \<and> \<not> archived_requested tags
            then scored
            else AList.update mid (case map_of scored mid of Some score \<Rightarrow> fl_max score boost | None \<Rightarrow> boost) scored)"

definition link_candidates :: "(MemoryId \<Rightarrow> f32 \<Rightarrow> Scores \<Rightarrow> Scores) \<Rightarrow> nat \<Rightarrow> (f32 \<Rightarrow> f32) \<Rightarrow> Backend \<Rightarrow> string \<Rightarrow> Scores \<Rightarrow> Scores" where
  "link_candidates add limit boost b entity_id scored =
     fold (\<lambda>link. add (ml_memory_id link) (boost (fl_max (ml_confidence link) (Fin 0)))) (take limit (memories_for_entity b entity_id)) scored"

definition claim_candidates :: "(MemoryId \<Rightarrow> f32 \<Rightarrow> Scores \<Rightarrow> Scores) \<Rightarrow> nat \<Rightarrow> f32 \<Rightarrow> Timestamp \<Rightarrow> Backend \<Rightarrow> string \<Rightarrow> Scores \<Rightarrow> Scores" where
  "claim_candidates add limit base now b entity_id scored =
     fold (\<lambda>claim scored. if \<not> derived_artifact_valid (cl_status claim) (cl_valid_from claim) (cl_valid_until claim) now then scored
         else let claim_boost = fl_mul f32_of (fl_mul f32_of base (fl_max (cl_confidence claim) (Fin 0))) (f32_of (9/10)) in
           fold (\<lambda>e. add (cx_memory_id e) (fl_mul f32_of claim_boost (fl_max (cx_confidence e) (Fin 0))))
             (take limit (claim_evidence b (cl_claim_id claim))) scored)
       (take limit (claims_for_entity b entity_id)) scored"

definition related_entity :: "string \<Rightarrow> EntityRelationship \<Rightarrow> string option" where
  "related_entity entity_id r = (if rl_source_entity_id r = entity_id then Some (rl_target_entity_id r)
     else if rl_target_entity_id r = entity_id then Some (rl_source_entity_id r) else None)"

definition relationship_candidates :: "(MemoryId \<Rightarrow> f32 \<Rightarrow> Scores \<Rightarrow> Scores) \<Rightarrow> nat \<Rightarrow> f32 \<Rightarrow> Timestamp \<Rightarrow> Backend \<Rightarrow> string \<Rightarrow> Scores \<Rightarrow> Scores" where
  "relationship_candidates add limit base now b entity_id scored =
     fold (\<lambda>r scored. if \<not> derived_artifact_valid (rl_status r) (rl_valid_from r) (rl_valid_until r) now then scored
         else let boost = fl_mul f32_of base (fl_max (rl_confidence r) (Fin 0));
                  scored = fold (\<lambda>e. add (rx_memory_id e) (fl_mul f32_of boost (fl_max (rx_confidence e) (Fin 0))))
                    (take limit (relationship_evidence b (rl_relationship_id r))) scored
              in case related_entity entity_id r of None \<Rightarrow> scored
                | Some related \<Rightarrow> link_candidates add limit (\<lambda>c. fl_mul f32_of (fl_mul f32_of boost c) (f32_of (6/10))) b related scored)
       (take limit (relationships_for_entity b entity_id)) scored"

definition lookup_aliases :: "(string \<Rightarrow> string) \<Rightarrow> EntityExtractionConfig \<Rightarrow> string \<Rightarrow> (string \<times> f32) list" where
  "lookup_aliases lower cfg query =
     fold (\<lambda>mention table. fold (\<lambda>alias table. AList.update alias
           (case map_of table alias of Some c \<Rightarrow> fl_max c (xe_confidence mention) | None \<Rightarrow> xe_confidence mention) table)
         (xe_aliases mention @ [xe_canonical mention, lower (xe_canonical mention)]) table)
       (extract_query query) (fold (\<lambda>alias. AList.update alias (Fin 1)) (query_aliases lower cfg query) [])"

definition entity_candidates :: "(MemoryId \<Rightarrow> f32 \<Rightarrow> Scores \<Rightarrow> Scores) \<Rightarrow> EntityExtractionConfig \<Rightarrow> Timestamp \<Rightarrow> Backend
    \<Rightarrow> string \<times> f32 \<Rightarrow> Scores \<Rightarrow> Scores" where
  "entity_candidates add cfg now b alias scored =
     (let limit = ec_recall_fetch_limit cfg; base = fl_mul f32_of (ec_recall_boost cfg) (snd alias) in
      fold (\<lambda>entity scored. relationship_candidates add limit base now b (en_entity_id entity)
          (claim_candidates add limit base now b (en_entity_id entity)
            (link_candidates add limit (fl_mul f32_of base) b (en_entity_id entity) scored)))
        (entities_by_alias b (fst alias)) scored)"

definition entity_recall_candidates :: "Ports \<Rightarrow> EntityExtractionConfig \<Rightarrow> Backend \<Rightarrow> string option \<Rightarrow> Timestamp \<Rightarrow> string list option
    \<Rightarrow> bool \<Rightarrow> (Timestamp \<times> Timestamp) option \<Rightarrow> Scores" where
  "entity_recall_candidates P cfg b query_text now tags tags_or time_range = (case query_text of None \<Rightarrow> []
     | Some query \<Rightarrow> if \<not> ec_enabled cfg \<or> \<not> ec_recall_enabled cfg \<or> trim query = [] then []
         else eng_order (po_engine P)
           (fold (entity_candidates (add_recall_candidate (po_codec P) b tags tags_or time_range) cfg now b)
             (po_alias_order P (lookup_aliases (po_lower P) cfg query)) []))"

section \<open>Hybrid recall\<close>

definition boost_scores :: "Scores \<Rightarrow> Scores \<Rightarrow> Scores" where
  "boost_scores boosts scored = fold (\<lambda>(i, boost) scored.
     AList.update i (case map_of scored i of Some score \<Rightarrow> fl_add f32_of score boost | None \<Rightarrow> boost) scored) boosts scored"

definition has_active_supersede :: "GraphManager \<Rightarrow> Timestamp \<Rightarrow> MemoryId \<Rightarrow> bool" where
  "has_active_supersede g now i = list_ex (\<lambda>(_, e). (se_edge_type e = Supersedes \<or> se_edge_type e = Contradicts)
     \<and> stored_is_valid_at e now) (incoming (read_graph g) i)"

definition recallable :: "AttrCodec \<Rightarrow> Backend \<Rightarrow> string list option \<Rightarrow> Timestamp \<Rightarrow> MemoryId \<Rightarrow> bool" where
  "recallable codec b tags now i = (case get_memory codec b i of
     Some m \<Rightarrow> node_is_valid_at m now \<and> (\<not> memory_is_archived m \<or> archived_requested tags) | None \<Rightarrow> True)"

definition recall_hybrid_at_mode :: "Ports \<Rightarrow> Embedding \<Rightarrow> string option \<Rightarrow> nat \<Rightarrow> Timestamp \<Rightarrow> string list option \<Rightarrow> bool
    \<Rightarrow> (Timestamp \<times> Timestamp) option \<Rightarrow> MenteDb \<Rightarrow> Scores \<times> MenteDb" where
  "recall_hybrid_at_mode P embedding query_text k now tags tags_or time_range s =
     (case hybrid_search_with_query_mode (po_engine P) (po_uuid P (md_draws s)) (po_clock P (md_draws s)) (md_db s) embedding query_text
        tags tags_or time_range (wrap64 (k * 3)) of
      (results, b) \<Rightarrow>
        let scored = boost_scores
              (entity_recall_candidates P (cf_entity_extraction_config (md_config s)) b query_text now tags tags_or time_range)
              (fold (\<lambda>(i, score). AList.update i score) results []);
            sorted = sort_by hit_before (eng_order (po_engine P) scored)
        in (take k (filter (\<lambda>(i, _). recallable (po_codec P) b tags now i)
              (filter (\<lambda>(i, _). \<not> has_active_supersede (md_graph s) now i) sorted)),
            s\<lparr>md_db := b, md_draws := Suc (md_draws s)\<rparr>))"

definition recall_hybrid_at :: "Ports \<Rightarrow> Embedding \<Rightarrow> string option \<Rightarrow> nat \<Rightarrow> Timestamp \<Rightarrow> string list option
    \<Rightarrow> (Timestamp \<times> Timestamp) option \<Rightarrow> MenteDb \<Rightarrow> Scores \<times> MenteDb" where
  "recall_hybrid_at P embedding query_text k now tags time_range = recall_hybrid_at_mode P embedding query_text k now tags False time_range"

definition recall_similar_filtered_at :: "Ports \<Rightarrow> Embedding \<Rightarrow> nat \<Rightarrow> Timestamp \<Rightarrow> string list option
    \<Rightarrow> (Timestamp \<times> Timestamp) option \<Rightarrow> MenteDb \<Rightarrow> Scores \<times> MenteDb" where
  "recall_similar_filtered_at P embedding k now tags time_range = recall_hybrid_at P embedding None k now tags time_range"

definition recall_similar_at :: "Ports \<Rightarrow> Embedding \<Rightarrow> nat \<Rightarrow> Timestamp \<Rightarrow> MenteDb \<Rightarrow> Scores \<times> MenteDb" where
  "recall_similar_at P embedding k now = recall_similar_filtered_at P embedding k now None None"

definition recall_similar_filtered :: "Ports \<Rightarrow> Embedding \<Rightarrow> nat \<Rightarrow> string list option \<Rightarrow> (Timestamp \<times> Timestamp) option
    \<Rightarrow> MenteDb \<Rightarrow> Scores \<times> MenteDb" where
  "recall_similar_filtered P embedding k tags time_range s =
     recall_similar_filtered_at P embedding k (po_clock P (md_draws s)) tags time_range (s\<lparr>md_draws := Suc (md_draws s)\<rparr>)"

definition recall_similar :: "Ports \<Rightarrow> Embedding \<Rightarrow> nat \<Rightarrow> MenteDb \<Rightarrow> Scores \<times> MenteDb" where
  "recall_similar P embedding k = recall_similar_filtered P embedding k None None"

text \<open>Several queries: the reciprocal ranks of a memory in the single results are summed.\<close>

definition add_ranks :: "f32 \<Rightarrow> Scores \<Rightarrow> Scores \<Rightarrow> Scores" where
  "add_ranks rrf_k results rrf = fold (\<lambda>(rank, i, _) rrf. AList.update i (fl_add f32_of
       (case map_of rrf i of Some score \<Rightarrow> score | None \<Rightarrow> Fin 0)
       (fl_div f32_of (Fin 1) (fl_add f32_of rrf_k (f32_of (of_nat rank))))) rrf) (zip [0..<length results] results) rrf"

fun multi_queries :: "Ports \<Rightarrow> string list option \<Rightarrow> nat \<Rightarrow> Timestamp \<Rightarrow> string list option \<Rightarrow> bool \<Rightarrow> (Timestamp \<times> Timestamp) option
    \<Rightarrow> f32 \<Rightarrow> (nat \<times> Embedding) list \<Rightarrow> Scores \<Rightarrow> MenteDb \<Rightarrow> Scores \<times> MenteDb" where
  "multi_queries P query_texts k now tags tags_or time_range rrf_k [] rrf s = (rrf, s)"
| "multi_queries P query_texts k now tags tags_or time_range rrf_k ((i, e) # es) rrf s =
     (case recall_hybrid_at_mode P e
        (case query_texts of Some txts \<Rightarrow> if i < length txts then Some (txts ! i) else None | None \<Rightarrow> None) k now tags tags_or time_range s of
      (results, s') \<Rightarrow> multi_queries P query_texts k now tags tags_or time_range rrf_k es (add_ranks rrf_k results rrf) s')"

definition recall_hybrid_multi_mode :: "Ports \<Rightarrow> Embedding list \<Rightarrow> string list option \<Rightarrow> nat \<Rightarrow> string list option \<Rightarrow> bool
    \<Rightarrow> (Timestamp \<times> Timestamp) option \<Rightarrow> MenteDb \<Rightarrow> Scores \<times> MenteDb" where
  "recall_hybrid_multi_mode P embeddings query_texts k tags tags_or time_range s =
     (case multi_queries P query_texts k (po_clock P (md_draws s)) tags tags_or time_range (rc_multi_query_rrf_k (bk_config (md_db s)))
        (zip [0..<length embeddings] embeddings) [] (s\<lparr>md_draws := Suc (md_draws s)\<rparr>) of
      (rrf, s') \<Rightarrow> (take k (sort_by hit_before (eng_order (po_engine P) rrf)), s'))"

definition recall_hybrid_multi :: "Ports \<Rightarrow> Embedding list \<Rightarrow> string list option \<Rightarrow> nat \<Rightarrow> string list option
    \<Rightarrow> (Timestamp \<times> Timestamp) option \<Rightarrow> MenteDb \<Rightarrow> Scores \<times> MenteDb" where
  "recall_hybrid_multi P embeddings query_texts k tags time_range = recall_hybrid_multi_mode P embeddings query_texts k tags False time_range"

definition recall_similar_multi :: "Ports \<Rightarrow> Embedding list \<Rightarrow> nat \<Rightarrow> string list option \<Rightarrow> (Timestamp \<times> Timestamp) option
    \<Rightarrow> MenteDb \<Rightarrow> Scores \<times> MenteDb" where
  "recall_similar_multi P embeddings k tags time_range = recall_hybrid_multi P embeddings None k tags time_range"

section \<open>Only stored memories are candidates\<close>

lemma vector_hits_stored: "set (vector_hits_of eng b query cs n) \<subseteq> set (all_memory_ids b)"
proof (cases cs)
  case None
  then show ?thesis
    by (auto simp: vector_hits_of_def knn_def all_memory_ids_def dest!: map_filterD row_of_Some split: option.splits if_splits)
next
  case (Some c)
  then show ?thesis
    by (auto simp: vector_hits_of_def vector_search_filtered_def all_memory_ids_def dest!: in_set_takeD map_filterD
        split: option.splits if_splits)
qed

lemma bm25_hits_stored: "set (bm25_hits_of eng b query_text n) \<subseteq> set (all_memory_ids b)"
  by (auto simp: bm25_hits_of_def fts_search_def all_memory_ids_def dest!: map_filterD row_of_Some split: option.splits if_splits)

lemma eng_order_set: "engine_ok eng \<Longrightarrow> set (eng_order eng xs) = set xs"
  unfolding engine_ok_def by (metis set_mset_mset)

lemma hybrid_results_stored:
  assumes "engine_ok eng"
  shows "fst ` set (fst (hybrid_results eng b query query_text cs k)) \<subseteq> set (all_memory_ids b)"
proof -
  let ?v = "vector_hits_of eng b query cs (fetch_count (bk_config b) k)" and ?t = "bm25_hits_of eng b query_text (fetch_count (bk_config b) k)"
  have "fst ` set (scored_hits (bk_config b) b cs (eng_order eng (fuse (bk_config b) 0 ?t (fuse (bk_config b) 0 ?v []))))
      \<subseteq> fst ` set (fuse (bk_config b) 0 ?t (fuse (bk_config b) 0 ?v []))"
    by (auto simp: scored_hits_def eng_order_set[OF assms] image_image)
  also have "\<dots> \<subseteq> set (all_memory_ids b)" using vector_hits_stored bm25_hits_stored by (auto simp: fuse_keys)
  finally show ?thesis by (auto simp: hybrid_results_def Let_def image_subset_iff dest!: in_set_takeD)
qed

lemma purge_memories:
  "purge_old_traces_on keep t = Ok t' \<Longrightarrow> t_memories t' = t_memories t \<and> t_memory_tags t' = t_memory_tags t"
  by (auto simp: purge_old_traces_on_def bindO_eq_Ok Let_def)

lemma record_trace_memories:
  "t_memories (bk_tables (snd (record_retrieval_trace tid now d q tags any tr k n c sc v h cfg b))) = t_memories (bk_tables b)"
  "t_memory_tags (bk_tables (snd (record_retrieval_trace tid now d q tags any tr k n c sc v h cfg b))) = t_memory_tags (bk_tables b)"
  by (auto simp: record_retrieval_trace_def transact_unit_def transact_def bindO_eq_Ok dest!: purge_memories split: outcome.splits)

lemma search_memories:
  "t_memories (bk_tables (snd (hybrid_search_with_query_mode eng tid now b q qt tags any tr k))) = t_memories (bk_tables b)"
  "t_memory_tags (bk_tables (snd (hybrid_search_with_query_mode eng tid now b q qt tags any tr k))) = t_memory_tags (bk_tables b)"
  by (auto simp: hybrid_search_with_query_mode_def record_trace_memories split: prod.splits)

lemma search_stored:
  "engine_ok eng \<Longrightarrow> fst ` set (fst (hybrid_search_with_query_mode eng tid now b q qt tags any tr k)) \<subseteq> set (all_memory_ids b)"
  using hybrid_results_stored[of eng b q qt "candidate_set b tags any tr" k]
  by (auto simp: hybrid_search_with_query_mode_def image_subset_iff split: prod.splits)

lemma get_memory_known: "(\<exists>m. get_memory codec b i = Some m) \<longleftrightarrow> i \<in> set (all_memory_ids b)"
  using row_of_None_iff[of mr_id i "t_memories (bk_tables b)"]
  by (cases "row_of mr_id i (t_memories (bk_tables b))") (auto simp: get_memory_def all_memory_ids_def)

lemma get_memory_cong:
  "t_memories (bk_tables b') = t_memories (bk_tables b) \<Longrightarrow> t_memory_tags (bk_tables b') = t_memory_tags (bk_tables b)
    \<Longrightarrow> get_memory codec b' i = get_memory codec b i"
  by (auto simp: get_memory_def node_of_row_def tags_of_def map_option_case split: option.split)

section \<open>Score tables\<close>

text \<open>A table of scores has a key for each memory at most once, and all its memories are stored.\<close>

definition scores_ok :: "Backend \<Rightarrow> Scores \<Rightarrow> bool" where
  "scores_ok b sc \<longleftrightarrow> distinct (map fst sc) \<and> fst ` set sc \<subseteq> set (all_memory_ids b)"

lemma scores_ok_nil: "scores_ok b []"
  by (simp add: scores_ok_def)

lemma scores_okD: "scores_ok b sc \<Longrightarrow> (i, v) \<in> set sc \<Longrightarrow> i \<in> set (all_memory_ids b)"
  by (auto simp: scores_ok_def)

lemma scores_ok_update: "scores_ok b sc \<Longrightarrow> i \<in> set (all_memory_ids b) \<Longrightarrow> scores_ok b (AList.update i v sc)"
  by (auto simp: scores_ok_def distinct_update dom_update)

lemma scores_ok_fold: "(\<And>x sc. x \<in> set xs \<Longrightarrow> scores_ok b sc \<Longrightarrow> scores_ok b (f x sc)) \<Longrightarrow> scores_ok b sc \<Longrightarrow> scores_ok b (fold f xs sc)"
  by (induction xs arbitrary: sc) auto

lemma add_candidate_ok: "scores_ok b sc \<Longrightarrow> scores_ok b (add_recall_candidate codec b tags any tr i boost sc)"
  using get_memory_known[of codec b i] by (auto simp: add_recall_candidate_def intro: scores_ok_update split: option.splits)

lemma entity_candidates_ok:
  assumes "\<And>i v sc. scores_ok b sc \<Longrightarrow> scores_ok b (add i v sc)" "scores_ok b sc"
  shows "scores_ok b (entity_candidates add cfg now b' alias sc)"
proof -
  have links: "scores_ok b sc \<Longrightarrow> scores_ok b (link_candidates add limit boost b' eid sc)" for limit boost eid sc
    unfolding link_candidates_def by (intro scores_ok_fold assms(1))
  have claims: "scores_ok b sc \<Longrightarrow> scores_ok b (claim_candidates add limit base now b' eid sc)" for limit base eid sc
    unfolding claim_candidates_def Let_def by (rule scores_ok_fold) (auto intro!: scores_ok_fold assms(1))
  have "scores_ok b sc \<Longrightarrow> scores_ok b (relationship_candidates add limit base now b' eid sc)" for limit base eid sc
    unfolding relationship_candidates_def Let_def
    by (rule scores_ok_fold) (auto intro!: scores_ok_fold assms(1) links split: option.split)
  then show ?thesis unfolding entity_candidates_def Let_def using links claims assms(2) by (intro scores_ok_fold) blast+
qed

lemma eng_order_ok: "engine_ok eng \<Longrightarrow> scores_ok b sc \<Longrightarrow> scores_ok b (eng_order eng sc)"
  unfolding scores_ok_def using eng_order_set[of eng sc]
  by (metis (no_types, lifting) engine_ok_def mset_eq_imp_distinct_iff mset_map)

lemma entity_recall_ok: "engine_ok (po_engine P) \<Longrightarrow> scores_ok b (entity_recall_candidates P cfg b query_text now tags any tr)"
  unfolding entity_recall_candidates_def
  by (auto intro!: scores_ok_nil eng_order_ok scores_ok_fold entity_candidates_ok add_candidate_ok split: option.split)

lemma boost_scores_ok: "scores_ok b boosts \<Longrightarrow> scores_ok b sc \<Longrightarrow> scores_ok b (boost_scores boosts sc)"
  unfolding boost_scores_def by (rule scores_ok_fold) (auto intro: scores_ok_update dest: scores_okD)

lemma collect_scores_ok:
  "fst ` set results \<subseteq> set (all_memory_ids b) \<Longrightarrow> scores_ok b (fold (\<lambda>(i, score). AList.update i score) results [])"
  by (rule scores_ok_fold) (auto simp: scores_ok_nil intro!: scores_ok_update)

section \<open>What recall returns\<close>

lemma recall_results:
  assumes "engine_ok (po_engine P)"
    and "recall_hybrid_at_mode P embedding query_text k now tags tags_or time_range s = (results, s')"
  obtains ranked b where "distinct (map fst ranked)" "fst ` set ranked \<subseteq> set (all_memory_ids (md_db s))"
    "\<And>i. get_memory (po_codec P) b i = get_memory (po_codec P) (md_db s) i"
    "results = take k (filter (\<lambda>(i, _). recallable (po_codec P) b tags now i)
      (filter (\<lambda>(i, _). \<not> has_active_supersede (md_graph s) now i) ranked))"
proof -
  let ?search = "hybrid_search_with_query_mode (po_engine P) (po_uuid P (md_draws s)) (po_clock P (md_draws s)) (md_db s) embedding query_text
    tags tags_or time_range (wrap64 (k * 3))"
  let ?b = "snd ?search"
  define scored where "scored = boost_scores
    (entity_recall_candidates P (cf_entity_extraction_config (md_config s)) ?b query_text now tags tags_or time_range)
    (fold (\<lambda>(i, score). AList.update i score) (fst ?search) [])"
  define ranked where "ranked = sort_by hit_before (eng_order (po_engine P) scored)"
  have same: "all_memory_ids ?b = all_memory_ids (md_db s)" by (simp add: all_memory_ids_def search_memories)
  have "scores_ok ?b scored" unfolding scored_def
    by (intro boost_scores_ok entity_recall_ok collect_scores_ok) (use assms(1) same search_stored in \<open>auto\<close>)
  then have "scores_ok ?b ranked" unfolding ranked_def using eng_order_ok[OF assms(1), of ?b scored]
    by (simp add: scores_ok_def) (metis mset_eq_imp_distinct_iff mset_map mset_sort_by)
  then have "distinct (map fst ranked)" "fst ` set ranked \<subseteq> set (all_memory_ids (md_db s))" by (simp_all add: scores_ok_def same)
  moreover have "get_memory (po_codec P) ?b i = get_memory (po_codec P) (md_db s) i" for i
    by (rule get_memory_cong) (simp_all add: search_memories)
  moreover have "results = take k (filter (\<lambda>(i, _). recallable (po_codec P) ?b tags now i)
      (filter (\<lambda>(i, _). \<not> has_active_supersede (md_graph s) now i) ranked))"
    using assms(2) by (cases ?search) (simp add: recall_hybrid_at_mode_def Let_def ranked_def scored_def)
  ultimately show ?thesis using that by blast
qed

text \<open>C7: Recall is safe: it returns at most the number of memories asked for, each once, and every one of them is stored, valid
  at the time of the query, not the target of a supersession or contradiction that is in force then, and archived only when the
  query asks for archived memories. This holds for the memories found by vectors, by text and through the entities of the query.\<close>

theorem recall_safe:
  assumes "engine_ok (po_engine P)"
    and "recall_hybrid_at_mode P embedding query_text k now tags tags_or time_range s = (results, s')"
  shows "length results \<le> k \<and> distinct (map fst results)
    \<and> (\<forall>i \<in> fst ` set results.
        (\<exists>m. get_memory (po_codec P) (md_db s) i = Some m \<and> node_is_valid_at m now \<and> (memory_is_archived m \<longrightarrow> archived_requested tags))
        \<and> (\<forall>(_, e) \<in> set (incoming (read_graph (md_graph s)) i).
            se_edge_type e = Supersedes \<or> se_edge_type e = Contradicts \<longrightarrow> \<not> stored_is_valid_at e now))"
proof -
  obtain ranked b where ok: "distinct (map fst ranked)" "fst ` set ranked \<subseteq> set (all_memory_ids (md_db s))"
    and same: "\<And>i. get_memory (po_codec P) b i = get_memory (po_codec P) (md_db s) i"
    and r: "results = take k (filter (\<lambda>(i, _). recallable (po_codec P) b tags now i)
      (filter (\<lambda>(i, _). \<not> has_active_supersede (md_graph s) now i) ranked))"
    using recall_results[OF assms] by blast
  have "distinct (map fst results)" unfolding r
    by (simp only: take_map[symmetric] distinct_take distinct_map_filter ok(1))
  moreover have "\<exists>m. get_memory (po_codec P) (md_db s) i = Some m \<and> node_is_valid_at m now \<and> (memory_is_archived m \<longrightarrow> archived_requested tags)"
    and "\<not> has_active_supersede (md_graph s) now i" if "(i, v) \<in> set results" for i v
  proof -
    have ranked: "(i, v) \<in> set ranked" "recallable (po_codec P) b tags now i" "\<not> has_active_supersede (md_graph s) now i"
      using in_set_takeD[OF that[unfolded r]] by auto
    moreover obtain m where "get_memory (po_codec P) (md_db s) i = Some m"
      using ranked(1) ok(2) get_memory_known[of "po_codec P" "md_db s" i] by force
    ultimately show "\<exists>m. get_memory (po_codec P) (md_db s) i = Some m \<and> node_is_valid_at m now
        \<and> (memory_is_archived m \<longrightarrow> archived_requested tags)" by (auto simp: recallable_def same)
    show "\<not> has_active_supersede (md_graph s) now i" by (rule ranked(3))
  qed
  moreover have "length results \<le> k" by (simp add: r)
  ultimately show ?thesis by (fastforce simp: has_active_supersede_def list_ex_iff)
qed

text \<open>A store with one memory, and a facade over it whose clock always shows five.\<close>

definition sample_ports :: Ports where
  "sample_ports = \<lparr> po_env = sample_env, po_codec = sample_codec, po_json = (\<lambda>_. Inr True), po_engine = sample_engine,
     po_lower = to_ascii_lowercase, po_mention_order = (\<lambda>xs. xs), po_alias_order = (\<lambda>xs. xs), po_belief_order = (\<lambda>_. []),
     po_root_order = (\<lambda>_. []), po_clock = (\<lambda>_. 5), po_uuid = (\<lambda>n. replicate (Suc n) (CHR ''x'')), po_fresh = (\<lambda>n. MemoryId (of_nat n + 7)),
     po_render = (\<lambda>_. ''{}''), po_show = (\<lambda>_. ''id''), po_source_error = (\<lambda>_ _. ''mismatch''), po_exp2 = (\<lambda>x. x), po_expo = (\<lambda>x. x), po_logn = (\<lambda>x. x),
     po_uuid_parse = (\<lambda>_. None), po_merge_json = (\<lambda>x _. Ok x), po_agent = (\<lambda>_. AgentId 0), po_key_order = (\<lambda>_ xs. xs), po_targets_order = (\<lambda>xs. xs),
     po_delta_order = (\<lambda>_. []), po_alnum = (\<lambda>_. True), po_upper = (\<lambda>_. False) \<rparr>"

definition sample_facade :: MenteDb where
  "sample_facade = (open_with_config sample_ports cognitive_config_default None \<lparr> sv_transitions = None, sv_speculative = None, sv_entities = None \<rparr>)
     \<lparr>md_db := sample_store, md_graph := add_memory gm_new (MemoryId 1)\<rparr>"

lemma sample_search:
  "\<exists>score. hybrid_search_with_query_mode sample_engine trace_id now sample_store [Fin 1, Fin 0] None None False None 3 = ([(MemoryId 1, score)], sample_store)"
proof -
  have "bk_config sample_store = retrieval_config_default" "\<not> bk_tracing sample_store"
    by (simp_all add: sample_store_def backend_open_def open_tables_def Let_def)
  moreover have "fetch_count retrieval_config_default 3 = 12"
    by (simp add: fetch_count_def saturating_mul64_def retrieval_config_default_def)
  ultimately show ?thesis
    by (simp add: hybrid_search_with_query_mode_def hybrid_results_def Let_def candidate_set_def sample_vector_hits bm25_hits_of_def
        scored_hits_def in_candidates_def) (simp add: sample_engine_def)
qed

theorem recall_safe_witness:
  "map fst (fst (recall_hybrid_at_mode sample_ports [Fin 1, Fin 0] None 1 5 None False None sample_facade)) = [MemoryId 1]
   \<and> (\<exists>m. get_memory sample_codec sample_store (MemoryId 1) = Some m \<and> node_is_valid_at m 5)"
proof -
  let ?r = "recall_hybrid_at_mode sample_ports [Fin 1, Fin 0] None 1 5 None False None sample_facade"
  have parts: "po_engine sample_ports = sample_engine" "po_codec sample_ports = sample_codec" "md_db sample_facade = sample_store"
    "md_graph sample_facade = add_memory gm_new (MemoryId 1)"
    by (simp_all add: sample_ports_def sample_facade_def)
  have "\<not> has_active_supersede (add_memory gm_new (MemoryId 1)) 5 (MemoryId 1)"
    by (simp add: has_active_supersede_def incoming_def read_graph_def add_memory_def gm_new_def graph_new_def add_node_def incoming_by_idx_def
        Let_def neighbors_def cs_default_def edge_data_for_def)
  moreover have "recallable sample_codec sample_store None 5 (MemoryId 1)"
    by (simp add: recallable_def get_memory_def row_of_def sample_store_def init_tables_def memory_row_def Sqlite_Store.sample_memory_def
        memory_node_new_def node_of_row_def node_is_valid_at_def memory_is_archived_def tags_of_def)
  moreover obtain score where "hybrid_search_with_query_mode sample_engine (po_uuid sample_ports (md_draws sample_facade))
      (po_clock sample_ports (md_draws sample_facade)) sample_store [Fin 1, Fin 0] None None False None 3 = ([(MemoryId 1, score)], sample_store)"
    using sample_search by blast
  ultimately have r: "map fst (fst ?r) = [MemoryId 1]"
    by (simp add: recall_hybrid_at_mode_def parts entity_recall_candidates_def boost_scores_def Let_def) (simp add: sample_engine_def)
  then have "MemoryId 1 \<in> fst ` set (fst ?r)" by (metis list.set_intros(1) set_map)
  then show ?thesis using recall_safe[OF _ surjective_pairing, of sample_ports "[Fin 1, Fin 0]" None 1 5 None False None sample_facade] r
    by (auto simp: parts sample_engine_ok)
qed

end
