(* ===== verification/Facade_Write.thy ===== *)
theory Facade_Write
  imports Facade_Recall
begin

text \<open>
  Writing through the facade (\<open>mentedb/src/lib.rs\<close>): storing a memory links its entities and infers edges and corrections from
  the memories most similar to it; consolidation merges a cluster into a new memory.
\<close>

section \<open>Edges, invalidation and lifecycle events\<close>

definition emit_lifecycle_event :: "Ports \<Rightarrow> MemoryId \<Rightarrow> string \<Rightarrow> string option \<Rightarrow> string option \<Rightarrow> Payload \<Rightarrow> unit Db" where
  "emit_lifecycle_event P mid event_type reason policy payload = then_do draw (\<lambda>n.
     on_db (\<lambda>b. record_lifecycle_event (po_env P) (po_json P) b
       ((lifecycle_event_new (po_uuid P n) (po_clock P n) mid event_type)
         \<lparr>le_reason := reason, le_policy := policy, le_payload_json := po_render P payload\<rparr>)))"

definition relate :: "Ports \<Rightarrow> MemoryEdge \<Rightarrow> unit Db" where
  "relate P e = then_do (on_db (\<lambda>b. store_edge (po_env P) b e)) (\<lambda>_. on_graph (\<lambda>g. add_relationship g e))"

definition plain_edge :: "MemoryId \<Rightarrow> MemoryId \<Rightarrow> EdgeType \<Rightarrow> f32 \<Rightarrow> Timestamp \<Rightarrow> string option \<Rightarrow> MemoryEdge" where
  "plain_edge source target edge_type weight now label = \<lparr> me_source = source, me_target = target, me_edge_type = edge_type,
     me_weight = weight, me_created_at = now, me_valid_from = None, me_valid_until = None, me_label = label \<rparr>"

definition put_memory :: "Ports \<Rightarrow> MemoryNode \<Rightarrow> unit Db" where
  "put_memory P m = on_db (\<lambda>b. store_memory (po_env P) (po_codec P) b m)"

definition invalidate_memory :: "Ports \<Rightarrow> MemoryId \<Rightarrow> Timestamp \<Rightarrow> unit Db" where
  "invalidate_memory P i at_time = then_do (mentedb_get_memory P i) (\<lambda>m.
     then_do (put_memory P (node_invalidate m at_time)) (\<lambda>_.
     emit_lifecycle_event P i ''invalidated'' (Some ''valid_until_set'') (Some ''temporal_invalidation'')
       [(''valid_until'', J (F_Nat at_time)), (''previous_valid_until'', J (F_OptTime (mn_valid_until m)))]))"

section \<open>Inferred actions\<close>

text \<open>A branch that starts with \<open>if let Ok(node) = self.get_memory(id)\<close>: an unknown memory is passed over.\<close>

definition if_known :: "Ports \<Rightarrow> MemoryId \<Rightarrow> (MemoryNode \<Rightarrow> unit Db) \<Rightarrow> unit Db" where
  "if_known P i f s = (case get_memory (po_codec P) (md_db s) i of Some m \<Rightarrow> f m s | None \<Rightarrow> (Ok (), s))"

definition supersede :: "Ports \<Rightarrow> MemoryId \<Rightarrow> MemoryId \<Rightarrow> Timestamp \<Rightarrow> unit Db" where
  "supersede P memory superseded_by now = relate P (plain_edge superseded_by memory Supersedes (Fin 1) now None)"

definition belief_update :: "Ports \<Rightarrow> MemoryId \<Rightarrow> f32 \<Rightarrow> MemoryId \<times> f32 \<Rightarrow> unit Db" where
  "belief_update P origin delta affected = if_known P (fst affected) (\<lambda>m.
     then_do (put_memory P (m\<lparr>mn_confidence := snd affected\<rparr>)) (\<lambda>_.
     emit_lifecycle_event P (fst affected) ''confidence_updated'' (Some ''belief_change_propagated'') (Some ''write_inference'')
       [(''root'', J (F_Str (po_show P origin))), (''delta'', J (F_Real delta)),
        (''previous_confidence'', J (F_Real (mn_confidence m))), (''new_confidence'', J (F_Real (snd affected)))]))"

fun apply_inferred_action :: "Ports \<Rightarrow> InferredAction \<Rightarrow> unit Db" where
  "apply_inferred_action P (CreateEdge source target edge_type weight) =
     then_do (current_time_us P) (\<lambda>now. relate P (plain_edge source target edge_type weight now None))"
| "apply_inferred_action P (InvalidateMemory memory superseded_by valid_until) =
     then_do (invalidate_memory P memory valid_until) (\<lambda>_.
     then_do (current_time_us P) (\<lambda>now.
     then_do (supersede P memory superseded_by now) (\<lambda>_.
     emit_lifecycle_event P memory ''corrected'' (Some ''superseded_by_new_memory'') (Some ''write_inference'')
       [(''superseded_by'', J (F_Str (po_show P superseded_by))), (''valid_until'', J (F_Nat valid_until))])))"
| "apply_inferred_action P (MarkObsolete memory superseded_by) =
     then_do (current_time_us P) (\<lambda>now.
     then_do (invalidate_memory P memory now) (\<lambda>_.
     then_do (supersede P memory superseded_by now) (\<lambda>_.
     emit_lifecycle_event P memory ''deduplicated'' (Some ''marked_obsolete_by_similar_memory'') (Some ''write_inference'')
       [(''superseded_by'', J (F_Str (po_show P superseded_by))), (''valid_until'', J (F_Nat now))])))"
| "apply_inferred_action P (FlagContradiction existing new reason) =
     then_do (current_time_us P) (\<lambda>now.
     then_do (relate P (plain_edge new existing Contradicts (Fin 1) now (Some reason))) (\<lambda>_.
     emit_lifecycle_event P existing ''contradicted'' (Some ''contradiction_edge_created'') (Some ''write_inference'')
       [(''contradicted_by'', J (F_Str (po_show P new))), (''reason'', J (F_Str reason))]))"
| "apply_inferred_action P (UpdateConfidence memory new_confidence) = if_known P memory (\<lambda>m.
     then_do (put_memory P (m\<lparr>mn_confidence := new_confidence\<rparr>)) (\<lambda>_.
     emit_lifecycle_event P memory ''confidence_updated'' (Some ''write_inference_confidence_update'') (Some ''write_inference'')
       [(''previous_confidence'', J (F_Real (mn_confidence m))), (''new_confidence'', J (F_Real new_confidence))]))"
| "apply_inferred_action P (PropagateBeliefChange origin delta) = if_known P origin (\<lambda>m.
     then_do (lift (fl_clamp (Fin 0) (Fin 1) (fl_add f32_of (mn_confidence m) delta))) (\<lambda>new_confidence s.
     each (belief_update P origin delta) (po_belief_order P (propagate_belief_change (md_graph s) origin new_confidence)) s))"
| "apply_inferred_action P (UpdateContent memory new_content reason) = if_known P memory (\<lambda>m.
     then_do (put_memory P (m\<lparr>mn_content := new_content\<rparr>)) (\<lambda>_.
     emit_lifecycle_event P memory ''corrected'' (Some reason) (Some ''write_inference'')
       [(''previous_content'', J (F_Str (mn_content m))), (''new_content'', J (F_Str new_content))]))"

definition run_write_inference :: "Ports \<Rightarrow> MemoryNode \<Rightarrow> unit Db" where
  "run_write_inference P new_memory = (if mn_embedding new_memory = [] then give ()
     else then_do (current_time_us P) (\<lambda>now s.
       case recall_hybrid_at P (mn_embedding new_memory) None 20 now None None s of
         (candidates, s) \<Rightarrow>
           let existing = List.map_filter (\<lambda>(i, _). get_memory (po_codec P) (md_db s) i)
                 (filter (\<lambda>(i, _). i \<noteq> mn_id new_memory) candidates)
           in if existing = [] then (Ok (), s)
              else each (\<lambda>action. attempt (apply_inferred_action P action))
                (infer_on_write (cf_inference_config (md_config s)) new_memory existing []) s))"

section \<open>Entities of a memory\<close>

definition mention_entity :: "Ports \<Rightarrow> Backend \<Rightarrow> Timestamp \<Rightarrow> nat \<Rightarrow> ExtractedMention \<Rightarrow> EntityRecord" where
  "mention_entity P b now n m = (case entity_by_canonical b (xe_entity_type m) (xe_canonical m) of
       Some e \<Rightarrow> e\<lparr>en_confidence := fl_max (en_confidence e) (xe_confidence m), en_updated_at := now\<rparr>
     | None \<Rightarrow> (entity_record_new (po_uuid P n) (po_clock P n) (xe_entity_type m) (xe_canonical m))\<lparr>en_confidence := xe_confidence m\<rparr>)
     \<lparr>en_attributes_json := ''{}''\<rparr>"

definition mention_aliases :: "ExtractedMention \<Rightarrow> EntityRecord \<Rightarrow> EntityAlias list" where
  "mention_aliases m e = map (\<lambda>alias. \<lparr> ea_entity_id = en_entity_id e, ea_alias = alias, ea_source = Some ''surface_linker'',
     ea_confidence = xe_confidence m \<rparr>) (xe_aliases m)"

definition mention_link :: "MemoryId \<Rightarrow> ExtractedMention \<Rightarrow> EntityRecord \<Rightarrow> MemoryEntityLink" where
  "mention_link mid m e = \<lparr> ml_memory_id = mid, ml_entity_id = en_entity_id e,
     ml_role = (case xe_role m of Some r \<Rightarrow> Some r | None \<Rightarrow> Some ''mentioned''), ml_confidence = xe_confidence m,
     ml_evidence = xe_evidence m \<rparr>"

definition persist_extracted_entities :: "Ports \<Rightarrow> MemoryId \<Rightarrow> ExtractedMention list \<Rightarrow> unit Db" where
  "persist_extracted_entities P mid extracted =
     (if extracted = [] then on_db (\<lambda>b. replace_memory_entity_bundle (po_env P) b mid [] [] [])
      else then_do (current_time_us P) (\<lambda>now s.
        let n = md_draws s; records = map (\<lambda>(i, m). mention_entity P (md_db s) now i m) (zip [n..<n + length extracted] extracted);
            aliases = concat (map2 mention_aliases extracted records); links = map2 (mention_link mid) extracted records
        in then_do (on_db (\<lambda>b. replace_memory_entity_bundle (po_env P) b mid records aliases links)) (\<lambda>_ s.
             (Ok (), s\<lparr>md_phantom := fold (\<lambda>r t. register_entity t (en_canonical r)) records (md_phantom s)\<rparr>))
           (s\<lparr>md_draws := n + length extracted\<rparr>)))"

definition index_memory_entities :: "Ports \<Rightarrow> MemoryNode \<Rightarrow> unit Db" where
  "index_memory_entities P m = then_do (read_config cf_entity_extraction_config) (\<lambda>cfg.
     if \<not> ec_enabled cfg then give ()
     else persist_extracted_entities P (mn_id m) (extract_memory (po_lower P) (po_mention_order P) cfg m))"

section \<open>Storing\<close>

definition provision :: "Ports \<Rightarrow> nat \<Rightarrow> unit Db" where
  "provision P d = on_db (\<lambda>b. (Ok (), if d \<noteq> 0 \<and> bk_dim b = 0 then ensure_vector_index (po_env P) b d else b))"

definition register_memory :: "MemoryId \<Rightarrow> unit Db" where
  "register_memory i = on_graph (\<lambda>g. (Ok (), add_memory g i))"

definition infer_if_enabled :: "Ports \<Rightarrow> MemoryNode \<Rightarrow> unit Db" where
  "infer_if_enabled P m = then_do (read_config cf_write_inference) (\<lambda>on. if on then run_write_inference P m else give ())"

definition mentedb_store :: "Ports \<Rightarrow> MemoryNode \<Rightarrow> unit Db" where
  "mentedb_store P m =
     then_do (provision P (length (mn_embedding m))) (\<lambda>_.
     then_do (read_db bk_dim) (\<lambda>d.
     then_do (lift (check_dim d m)) (\<lambda>_.
     then_do (put_memory P m) (\<lambda>_.
     then_do (register_memory (mn_id m)) (\<lambda>_.
     then_do (attempt (index_memory_entities P m)) (\<lambda>_.
     infer_if_enabled P m))))))"

definition store_with_source :: "Ports \<Rightarrow> MemoryNode \<Rightarrow> MemorySource \<Rightarrow> unit Db" where
  "store_with_source P m source =
     then_do (provision P (length (mn_embedding m))) (\<lambda>_.
     then_do (read_db bk_dim) (\<lambda>d.
     then_do (lift (check_dim d m)) (\<lambda>_.
     then_do (on_db (\<lambda>b. store_memory_with_source (po_env P) (po_codec P) (po_source_error P) b m source)) (\<lambda>_.
     then_do (register_memory (mn_id m)) (\<lambda>_.
     then_do (attempt (index_memory_entities P m)) (\<lambda>_.
     infer_if_enabled P m))))))"

definition first_dim :: "MemoryNode list \<Rightarrow> nat" where
  "first_dim ms = (case filter (\<lambda>m. mn_embedding m \<noteq> []) ms of [] \<Rightarrow> 0 | m # _ \<Rightarrow> length (mn_embedding m))"

definition store_batch :: "Ports \<Rightarrow> MemoryNode list \<Rightarrow> MemoryId list Db" where
  "store_batch P ms =
     then_do (provision P (first_dim ms)) (\<lambda>_.
     then_do (read_db bk_dim) (\<lambda>d.
     then_do (each (\<lambda>m. lift (check_dim d m)) ms) (\<lambda>_.
     then_do (on_db (\<lambda>b. store_memory_batch (po_env P) (po_codec P) b ms)) (\<lambda>_.
     then_do (each (\<lambda>m. then_do (register_memory (mn_id m)) (\<lambda>_. attempt (index_memory_entities P m))) ms) (\<lambda>_.
     give (map mn_id ms))))))"

section \<open>Consolidation\<close>

definition find_consolidation_candidates :: "Ports \<Rightarrow> nat \<Rightarrow> f32 \<Rightarrow> MenteDb \<Rightarrow> ConsolidationCandidate list option" where
  "find_consolidation_candidates P min_cluster_size similarity_threshold s =
     (let eligible = filter (\<lambda>m. should_consolidate m (po_clock P (md_draws s))) (all_memories (po_codec P) (md_db s)) in
      if eligible = [] then Some [] else find_candidates (po_root_order P) eligible min_cluster_size similarity_threshold)"

definition absorb_source :: "Ports \<Rightarrow> MemoryId \<Rightarrow> Timestamp \<Rightarrow> MemoryId \<Rightarrow> unit Db" where
  "absorb_source P consolidated_id now source_id =
     then_do (attempt (invalidate_memory P source_id now)) (\<lambda>_.
     then_do (attempt (relate P (plain_edge consolidated_id source_id Derived (Fin 1) now None))) (\<lambda>_.
     attempt (emit_lifecycle_event P source_id ''consolidated'' (Some ''merged_into_consolidated_memory'') (Some ''consolidation'')
       [(''consolidated_memory'', J (F_Str (po_show P consolidated_id))), (''valid_until'', J (F_Nat now))])))"

definition consolidate_cluster :: "Ports \<Rightarrow> MemoryId list \<Rightarrow> MemoryId Db" where
  "consolidate_cluster P ids =
     then_do (read_db (\<lambda>b. List.map_filter (get_memory (po_codec P) b) ids)) (\<lambda>cluster.
     if length cluster < 2 then refuse (Query ''consolidation requires at least 2 memories'')
     else let result = consolidate (po_lower P) cluster in
       then_do draw (\<lambda>n.
       let consolidated = (memory_node_new (po_fresh P n) (po_clock P n) (mn_agent_id (hd cluster)) (cm_new_type result) (cm_summary result)
             (cm_combined_embedding result))\<lparr>mn_confidence := cm_combined_confidence result\<rparr>
       in then_do (mentedb_store P consolidated) (\<lambda>_.
          then_do (emit_lifecycle_event P (mn_id consolidated) ''consolidated'' (Some ''consolidated_memory_created'') (Some ''consolidation'')
            [(''source_memories'', J (F_Strs (map (po_show P) (cm_source_memories result)))),
             (''source_count'', J (F_Nat (length (cm_source_memories result))))]) (\<lambda>_.
          then_do (current_time_us P) (\<lambda>now.
          then_do (each (absorb_source P (mn_id consolidated) now) (cm_source_memories result)) (\<lambda>_.
          give (mn_id consolidated)))))))"

section \<open>An edge to an unknown memory\<close>

text \<open>
  \<open>relate\<close> writes the edge to the store before the graph checks its ends: an edge with an unknown end is refused, and stays
  stored.
\<close>

lemma refused_edge_is_stored:
  assumes "me_source e \<notin> graph_nodes (read_graph (md_graph s))" "me_weight e \<noteq> NaN"
  shows "fst (relate P e s) = Err (MemoryNotFound (me_source e)) \<and> e \<in> set (t_edges (bk_tables (md_db (snd (relate P e s)))))"
  using assms
  by (auto simp: relate_def then_do_def on_db_def on_graph_def store_edge_def transact_unit_def transact_def add_edge_on_def not_null_real_def
      add_relationship_def contains_node_def graph_nodes_def read_graph_def record_operation_tables)

end
