(* ===== verification/Facade_Policies.thy ===== *)
theory Facade_Policies
  imports Facade_Write
begin

text \<open>
  The policies of the facade (\<open>mentedb/src/policies.rs\<close>): correction, enrichment, forgetting, decay and archival. A policy builds
  a plan from what the store knows, applies it in one transaction and mirrors it into the graph.
\<close>

section \<open>Requests, plans and reports\<close>

datatype ForgetMode = Soft | Hard

fun forget_mode_str :: "ForgetMode \<Rightarrow> string" where
  "forget_mode_str Soft = ''soft''"
| "forget_mode_str Hard = ''hard''"

datatype ForgetScope = ScopeMemory MemoryId | ScopeEntity string | ScopeAlias string | ScopeConversation string | ScopeTag string

fun scope_to_json :: "(MemoryId \<Rightarrow> string) \<Rightarrow> ForgetScope \<Rightarrow> (string \<times> JsonField) list" where
  "scope_to_json id_show (ScopeMemory i) = [(''type'', F_Str ''memory''), (''memory_id'', F_Str (id_show i))]"
| "scope_to_json id_show (ScopeEntity i) = [(''type'', F_Str ''entity''), (''entity_id'', F_Str i)]"
| "scope_to_json id_show (ScopeAlias a) = [(''type'', F_Str ''alias''), (''alias'', F_Str a)]"
| "scope_to_json id_show (ScopeConversation i) = [(''type'', F_Str ''conversation''), (''conversation_id'', F_Str i)]"
| "scope_to_json id_show (ScopeTag t) = [(''type'', F_Str ''tag''), (''tag'', F_Str t)]"

record CorrectionRequest =
  cq_new_memory_id :: MemoryId
  cq_old_memory_id :: "MemoryId option"
  cq_claim_ids :: "string list"
  cq_relationship_ids :: "string list"
  cq_reason :: "string option"

definition correction_request_new :: "MemoryId \<Rightarrow> CorrectionRequest" where
  "correction_request_new i = \<lparr> cq_new_memory_id = i, cq_old_memory_id = None, cq_claim_ids = [], cq_relationship_ids = [], cq_reason = None \<rparr>"

record EnrichmentRequest =
  eq_source_memory_id :: MemoryId
  eq_target_memory_id :: MemoryId
  eq_reason :: "string option"
  eq_weight :: f32

definition enrichment_request_new :: "MemoryId \<Rightarrow> MemoryId \<Rightarrow> EnrichmentRequest" where
  "enrichment_request_new source target = \<lparr> eq_source_memory_id = source, eq_target_memory_id = target, eq_reason = None,
     eq_weight = f32_of (85/100) \<rparr>"

record PolicyAffected =
  af_memory_ids :: "MemoryId list"
  af_claim_ids :: "string list"
  af_relationship_ids :: "string list"
  af_entity_ids :: "string list"

definition affected_none :: PolicyAffected where
  "affected_none = \<lparr> af_memory_ids = [], af_claim_ids = [], af_relationship_ids = [], af_entity_ids = [] \<rparr>"

definition affected_to_json :: "(MemoryId \<Rightarrow> string) \<Rightarrow> PolicyAffected \<Rightarrow> Payload" where
  "affected_to_json id_show a = [(''memory_ids'', J (F_Strs (map id_show (af_memory_ids a)))), (''claim_ids'', J (F_Strs (af_claim_ids a))),
     (''relationship_ids'', J (F_Strs (af_relationship_ids a))), (''entity_ids'', J (F_Strs (af_entity_ids a)))]"

record PolicyPlan =
  pp_run :: PolicyRun
  pp_actions :: "PolicyAction list"
  pp_affected :: PolicyAffected

record PolicyReport =
  rp_run_id :: string
  rp_actions :: nat
  rp_affected :: PolicyAffected

definition report_of :: "PolicyPlan \<Rightarrow> PolicyReport" where
  "report_of plan = \<lparr> rp_run_id = pr_run_id (pp_run plan), rp_actions = length (pp_actions plan), rp_affected = pp_affected plan \<rparr>"

section \<open>Events and actions\<close>

definition lifecycle_event :: "Ports \<Rightarrow> nat \<Rightarrow> MemoryId \<Rightarrow> string \<Rightarrow> string option \<Rightarrow> string option \<Rightarrow> Payload \<Rightarrow> MemoryLifecycleEvent" where
  "lifecycle_event P n mid event_type reason policy payload =
     (lifecycle_event_new (po_uuid P n) (po_clock P n) mid event_type)
       \<lparr>le_reason := reason, le_policy := policy, le_payload_json := po_render P payload\<rparr>"

text \<open>What an action says before its identifier is drawn: its type, the type and the name of its target, and its two texts.\<close>

record ActionText =
  at_action_type :: string
  at_target_type :: string
  at_target_id :: "string option"
  at_before :: Payload
  at_after :: Payload

definition policy_action :: "Ports \<Rightarrow> string \<Rightarrow> bool \<Rightarrow> nat \<Rightarrow> ActionText \<Rightarrow> PolicyAction" where
  "policy_action P run_id applied n a =
     (policy_action_new (po_uuid P n) (po_clock P n) run_id (at_action_type a) (at_target_type a) (at_target_id a))
       \<lparr>pa_before_json := po_render P (at_before a), pa_after_json := po_render P (at_after a),
        pa_status := (if applied then ''applied'' else ''planned'')\<rparr>"

definition action_text :: "string \<Rightarrow> string \<Rightarrow> string \<Rightarrow> Payload \<Rightarrow> Payload \<Rightarrow> ActionText" where
  "action_text action_type target_type target_id before after =
     \<lparr> at_action_type = action_type, at_target_type = target_type, at_target_id = Some target_id, at_before = before, at_after = after \<rparr>"

definition draws :: "(nat \<Rightarrow> 'a \<Rightarrow> 'b) \<Rightarrow> 'a list \<Rightarrow> 'b list Db" where
  "draws f xs s = (let n = md_draws s in
     (Ok (map (\<lambda>(i, x). f i x) (zip [n..<n + length xs] xs)), s\<lparr>md_draws := n + length xs\<rparr>))"

definition new_run :: "Ports \<Rightarrow> string \<Rightarrow> string \<Rightarrow> bool \<Rightarrow> PolicyRun Db" where
  "new_run P policy_name mode applied = then_do draw (\<lambda>n.
     give ((policy_run_new (po_uuid P n) (po_clock P n) policy_name mode)\<lparr>pr_status := (if applied then ''applied'' else ''planned'')\<rparr>))"

section \<open>Correction\<close>

definition without_evidence :: "MemoryId \<Rightarrow> ('e \<Rightarrow> MemoryId) \<Rightarrow> 'e list \<Rightarrow> bool" where
  "without_evidence mid memory_of evidence = (\<not> list_ex (\<lambda>e. memory_of e = mid) evidence)"

definition collect_correction_candidates :: "Backend \<Rightarrow> MemoryId \<Rightarrow> string set \<times> string set \<Rightarrow> string set \<times> string set" where
  "collect_correction_candidates b new_memory_id found = fold (\<lambda>link found.
     let claims = filter (\<lambda>c. cl_status c = ''active'' \<and> without_evidence new_memory_id cx_memory_id (claim_evidence b (cl_claim_id c)))
           (claims_for_entity b (ml_entity_id link));
         relationships = filter (\<lambda>r. rl_status r = ''active''
             \<and> without_evidence new_memory_id rx_memory_id (relationship_evidence b (rl_relationship_id r)))
           (relationships_for_entity b (ml_entity_id link))
     in (fst found \<union> set (map cl_claim_id claims), snd found \<union> set (map rl_relationship_id relationships)))
     (memory_entity_links b new_memory_id) found"

definition correction_ids :: "Backend \<Rightarrow> CorrectionRequest \<Rightarrow> string set \<times> string set" where
  "correction_ids b q =
     (let claims = set (cq_claim_ids q); relationships = set (cq_relationship_ids q);
          found = (case cq_old_memory_id q of None \<Rightarrow> (claims, relationships)
            | Some old \<Rightarrow> (claims \<union> set (map cl_claim_id (filter (\<lambda>c. cl_status c = ''active'') (claims_for_memory b old))),
                relationships \<union> set (map rl_relationship_id (filter (\<lambda>r. rl_status r = ''active'') (relationships_for_memory b old)))))
      in if found = ({}, {}) then collect_correction_candidates b (cq_new_memory_id q) found else found)"

definition correction_affected :: "Backend \<Rightarrow> CorrectionRequest \<Rightarrow> PolicyAffected" where
  "correction_affected b q = affected_none\<lparr>af_memory_ids := (case cq_old_memory_id q of None \<Rightarrow> [] | Some old \<Rightarrow> [old]),
     af_claim_ids := sorted_list_of_set (fst (correction_ids b q)), af_relationship_ids := sorted_list_of_set (snd (correction_ids b q))\<rparr>"

definition correction_actions_for :: "(MemoryId \<Rightarrow> string) \<Rightarrow> bool \<Rightarrow> Timestamp \<Rightarrow> MemoryId \<Rightarrow> PolicyAffected \<Rightarrow> ActionText list" where
  "correction_actions_for id_show apply_it now new_memory_id a =
     (let prefix = (if apply_it then '''' else ''would_'');
          corrected = [(''status'', J (F_Str ''corrected'')), (''valid_until'', J (F_Nat now))];
          texts = map (\<lambda>i. action_text (prefix @ ''invalidate_memory'') ''memory'' (id_show i) [] [(''valid_until'', J (F_Nat now))]) (af_memory_ids a)
            @ map (\<lambda>i. action_text (prefix @ ''correct_claim'') ''claim'' i [(''status'', J (F_Str ''active''))] corrected) (af_claim_ids a)
            @ map (\<lambda>i. action_text (prefix @ ''correct_relationship'') ''relationship'' i [(''status'', J (F_Str ''active''))] corrected)
                (af_relationship_ids a)
      in if texts = [] then [action_text ''no_correction_candidates'' ''memory'' (id_show new_memory_id) [] []] else texts)"

definition build_correction_plan :: "Ports \<Rightarrow> CorrectionRequest \<Rightarrow> bool \<Rightarrow> PolicyPlan Db" where
  "build_correction_plan P q apply_it =
     then_do (mentedb_get_memory P (cq_new_memory_id q)) (\<lambda>new_memory.
     then_do (read_db (\<lambda>b. correction_affected b q)) (\<lambda>affected.
     then_do (current_time_us P) (\<lambda>now.
     then_do (new_run P ''correction'' (if apply_it then ''apply'' else ''preview'') apply_it) (\<lambda>run.
     let run = run\<lparr>pr_scope_json := po_render P [(''new_memory_id'', J (F_Str (po_show P (cq_new_memory_id q)))),
             (''old_memory_id'', J (F_OptStr (map_option (po_show P) (cq_old_memory_id q)))), (''reason'', J (F_OptStr (cq_reason q)))],
           pr_result_json := po_render P (affected_to_json (po_show P) affected),
           pr_completed_at := (if apply_it then Some now else pr_completed_at run)\<rparr>
     in then_do (draws (policy_action P (pr_run_id run) apply_it)
          (correction_actions_for (po_show P) apply_it now (mn_id new_memory) affected)) (\<lambda>actions.
        give \<lparr> pp_run = run, pp_actions = actions, pp_affected = affected \<rparr>)))))"

definition preview_correction_policy :: "Ports \<Rightarrow> CorrectionRequest \<Rightarrow> PolicyPlan Db" where
  "preview_correction_policy P q = build_correction_plan P q False"

definition completion_time :: "Ports \<Rightarrow> PolicyPlan \<Rightarrow> Timestamp Db" where
  "completion_time P plan = (case pr_completed_at (pp_run plan) of Some t \<Rightarrow> give t | None \<Rightarrow> current_time_us P)"

definition correction_lifecycle_events :: "Ports \<Rightarrow> PolicyPlan \<Rightarrow> MemoryId \<Rightarrow> Timestamp \<Rightarrow> MemoryLifecycleEvent list Db" where
  "correction_lifecycle_events P plan new_memory_id now =
     (let run_id = (''run_id'', J (F_Str (pr_run_id (pp_run plan)))); a = pp_affected plan in
      draws (\<lambda>n (mid, event_type, payload). lifecycle_event P n mid event_type (Some ''correction_policy_applied'') (Some ''correction'') payload)
        (map (\<lambda>mid. (mid, ''corrected'', [run_id, (''corrected_by'', J (F_Str (po_show P new_memory_id))), (''valid_until'', J (F_Nat now))]))
           (af_memory_ids a)
         @ [(new_memory_id, ''correction_applied'', [run_id, (''corrected_memory_count'', J (F_Nat (length (af_memory_ids a)))),
              (''corrected_claim_count'', J (F_Nat (length (af_claim_ids a)))),
              (''corrected_relationship_count'', J (F_Nat (length (af_relationship_ids a))))])]))"

definition mirror_edges :: "MemoryEdge list \<Rightarrow> unit Db" where
  "mirror_edges es = each (\<lambda>e. attempt (on_graph (\<lambda>g. add_relationship g e))) es"

definition correction_policy :: "Ports \<Rightarrow> CorrectionRequest \<Rightarrow> PolicyReport Db" where
  "correction_policy P q =
     then_do (build_correction_plan P q True) (\<lambda>plan.
     then_do (completion_time P plan) (\<lambda>now.
     let edges = (case cq_old_memory_id q of None \<Rightarrow> []
           | Some old \<Rightarrow> [plain_edge (cq_new_memory_id q) old Supersedes (Fin 1) now (cq_reason q)])
     in then_do (correction_lifecycle_events P plan (cq_new_memory_id q) now) (\<lambda>events.
        then_do (on_db (\<lambda>b. apply_correction_policy (po_env P) (po_json P) b \<lparr> cm_run = pp_run plan, cm_actions = pp_actions plan,
            cm_memory_invalidations = map (\<lambda>i. (i, now)) (af_memory_ids (pp_affected plan)),
            cm_corrected_claim_ids = af_claim_ids (pp_affected plan), cm_corrected_relationship_ids = af_relationship_ids (pp_affected plan),
            cm_edges = edges, cm_lifecycle_events = events, cm_applied_at = now \<rparr>)) (\<lambda>_.
        then_do (mirror_edges edges) (\<lambda>_.
        give (report_of plan))))))"

section \<open>Enrichment\<close>

definition normalized_weight :: "f32 \<Rightarrow> f32 MenteResult" where
  "normalized_weight w = (if fl_is_finite w then fl_clamp (Fin 0) (Fin 1) w else Ok (f32_of (85/100)))"

definition enrichment_edge :: "EnrichmentRequest \<Rightarrow> Timestamp \<Rightarrow> MemoryEdge MenteResult" where
  "enrichment_edge q now = bindO (normalized_weight (eq_weight q)) (\<lambda>w.
     Ok (plain_edge (eq_source_memory_id q) (eq_target_memory_id q) Supports w now (eq_reason q)))"

definition build_enrichment_plan :: "Ports \<Rightarrow> EnrichmentRequest \<Rightarrow> bool \<Rightarrow> PolicyPlan Db" where
  "build_enrichment_plan P q apply_it =
     (let source = po_show P (eq_source_memory_id q); target = po_show P (eq_target_memory_id q);
          ends = [(''source_memory_id'', J (F_Str source)), (''target_memory_id'', J (F_Str target)), (''edge_type'', J (F_Str ''Supports''))];
          affected = affected_none\<lparr>af_memory_ids := [eq_source_memory_id q, eq_target_memory_id q]\<rparr>
      in then_do (mentedb_get_memory P (eq_source_memory_id q)) (\<lambda>_.
         then_do (mentedb_get_memory P (eq_target_memory_id q)) (\<lambda>_.
         then_do (current_time_us P) (\<lambda>now.
         then_do (new_run P ''enrichment'' (if apply_it then ''apply'' else ''preview'') apply_it) (\<lambda>run.
         let run = run\<lparr>pr_scope_json := po_render P (ends @ [(''reason'', J (F_OptStr (eq_reason q)))]),
               pr_result_json := po_render P (affected_to_json (po_show P) affected),
               pr_completed_at := (if apply_it then Some now else pr_completed_at run)\<rparr>
         in then_do (lift (normalized_weight (eq_weight q))) (\<lambda>w.
            then_do (draws (policy_action P (pr_run_id run) apply_it)
              [action_text (if apply_it then ''link_enrichment'' else ''would_link_enrichment'') ''memory_edge'' (source @ ''->'' @ target) []
                (ends @ [(''weight'', J (F_Real w))])]) (\<lambda>actions.
            give \<lparr> pp_run = run, pp_actions = actions, pp_affected = affected \<rparr>)))))))"

definition preview_enrichment_policy :: "Ports \<Rightarrow> EnrichmentRequest \<Rightarrow> PolicyPlan Db" where
  "preview_enrichment_policy P q = build_enrichment_plan P q False"

definition enrichment_lifecycle_events :: "Ports \<Rightarrow> PolicyPlan \<Rightarrow> EnrichmentRequest \<Rightarrow> Timestamp \<Rightarrow> MemoryLifecycleEvent list Db" where
  "enrichment_lifecycle_events P plan q now =
     draws (\<lambda>n (mid, event_type, key, other). lifecycle_event P n mid event_type (Some ''enrichment_policy_applied'') (Some ''enrichment'')
         [(''run_id'', J (F_Str (pr_run_id (pp_run plan)))), (key, J (F_Str (po_show P other))), (''applied_at'', J (F_Nat now))])
       [(eq_source_memory_id q, ''enriched'', ''supports'', eq_target_memory_id q),
        (eq_target_memory_id q, ''enriched_by'', ''supported_by'', eq_source_memory_id q)]"

definition enrichment_policy :: "Ports \<Rightarrow> EnrichmentRequest \<Rightarrow> PolicyReport Db" where
  "enrichment_policy P q =
     then_do (build_enrichment_plan P q True) (\<lambda>plan.
     then_do (completion_time P plan) (\<lambda>now.
     then_do (lift (enrichment_edge q now)) (\<lambda>edge.
     then_do (enrichment_lifecycle_events P plan q now) (\<lambda>events.
     then_do (on_db (\<lambda>b. apply_correction_policy (po_env P) (po_json P) b \<lparr> cm_run = pp_run plan, cm_actions = pp_actions plan,
         cm_memory_invalidations = [], cm_corrected_claim_ids = [], cm_corrected_relationship_ids = [], cm_edges = [edge],
         cm_lifecycle_events = events, cm_applied_at = now \<rparr>)) (\<lambda>_.
     then_do (mirror_edges [edge]) (\<lambda>_.
     give (report_of plan)))))))"

section \<open>Forgetting\<close>

definition collect_memory_forget_closure :: "Backend \<Rightarrow> MemoryId \<Rightarrow> PolicyAffected \<Rightarrow> PolicyAffected" where
  "collect_memory_forget_closure b mid a = a\<lparr>af_memory_ids := af_memory_ids a @ [mid],
     af_claim_ids := af_claim_ids a @ map cl_claim_id (claims_for_memory b mid),
     af_relationship_ids := af_relationship_ids a @ map rl_relationship_id (relationships_for_memory b mid)\<rparr>"

definition collect_entity_forget_closure :: "Backend \<Rightarrow> string \<Rightarrow> PolicyAffected \<Rightarrow> PolicyAffected" where
  "collect_entity_forget_closure b entity_id a =
     fold (\<lambda>r a. a\<lparr>af_relationship_ids := af_relationship_ids a @ [rl_relationship_id r],
         af_memory_ids := af_memory_ids a @ map rx_memory_id (relationship_evidence b (rl_relationship_id r))\<rparr>)
       (relationships_for_entity b entity_id)
       (fold (\<lambda>c a. a\<lparr>af_claim_ids := af_claim_ids a @ [cl_claim_id c],
           af_memory_ids := af_memory_ids a @ map cx_memory_id (claim_evidence b (cl_claim_id c))\<rparr>)
         (claims_for_entity b entity_id)
         (fold (\<lambda>l. collect_memory_forget_closure b (ml_memory_id l)) (memories_for_entity b entity_id) a))"

definition add_entity_closure :: "Backend \<Rightarrow> string \<Rightarrow> PolicyAffected \<Rightarrow> PolicyAffected" where
  "add_entity_closure b entity_id a = collect_entity_forget_closure b entity_id (a\<lparr>af_entity_ids := af_entity_ids a @ [entity_id]\<rparr>)"

fun resolve_forget_scope :: "Backend \<Rightarrow> ForgetScope \<Rightarrow> PolicyAffected \<Rightarrow> PolicyAffected" where
  "resolve_forget_scope b (ScopeMemory i) a = collect_memory_forget_closure b i a"
| "resolve_forget_scope b (ScopeEntity i) a = add_entity_closure b i a"
| "resolve_forget_scope b (ScopeAlias alias) a = fold (\<lambda>e. add_entity_closure b (en_entity_id e)) (entities_by_alias b alias) a"
| "resolve_forget_scope b (ScopeConversation i) a = fold (collect_memory_forget_closure b) (memory_ids_for_conversation b i) a"
| "resolve_forget_scope b (ScopeTag tag) a = fold (collect_memory_forget_closure b) (memory_ids_for_tag b tag) a"

text \<open>\<open>sort\<close> and \<open>dedup\<close>: every identifier once, in order.\<close>

definition sort_dedup :: "'a::linorder list \<Rightarrow> 'a list" where
  "sort_dedup xs = remdups_adj (sort xs)"

definition normalize_affected :: "PolicyAffected \<Rightarrow> PolicyAffected" where
  "normalize_affected a = \<lparr> af_memory_ids = sort_dedup (af_memory_ids a), af_claim_ids = sort_dedup (af_claim_ids a),
     af_relationship_ids = sort_dedup (af_relationship_ids a), af_entity_ids = sort_dedup (af_entity_ids a) \<rparr>"

definition forget_actions_for :: "(MemoryId \<Rightarrow> string) \<Rightarrow> bool \<Rightarrow> ForgetMode \<Rightarrow> PolicyAffected \<Rightarrow> ActionText list" where
  "forget_actions_for id_show apply_it mode a =
     (let prefix = (if apply_it then ''forget'' else ''would_forget'');
          text_for = (\<lambda>kind i. action_text (prefix @ ''_'' @ kind) kind i [] [(''mode'', J (F_Str (forget_mode_str mode)))])
      in map (text_for ''memory'' \<circ> id_show) (af_memory_ids a) @ map (text_for ''claim'') (af_claim_ids a)
         @ map (text_for ''relationship'') (af_relationship_ids a) @ map (text_for ''entity'') (af_entity_ids a))"

definition build_forget_plan :: "Ports \<Rightarrow> ForgetScope \<Rightarrow> ForgetMode \<Rightarrow> bool \<Rightarrow> PolicyPlan Db" where
  "build_forget_plan P scope mode apply_it =
     then_do (read_db (\<lambda>b. normalize_affected (resolve_forget_scope b scope affected_none))) (\<lambda>affected.
     then_do (new_run P ''forget'' (if apply_it then forget_mode_str mode else ''preview'') apply_it) (\<lambda>run.
     then_do (if apply_it then then_do (current_time_us P) (\<lambda>t. give (Some t)) else give (pr_completed_at run)) (\<lambda>completed.
     let run = run\<lparr>pr_scope_json := po_render P [(''scope'', J_Object (scope_to_json (po_show P) scope)), (''mode'', J (F_Str (forget_mode_str mode)))],
           pr_result_json := po_render P (affected_to_json (po_show P) affected), pr_completed_at := completed\<rparr>
     in then_do (draws (policy_action P (pr_run_id run) apply_it) (forget_actions_for (po_show P) apply_it mode affected)) (\<lambda>actions.
        give \<lparr> pp_run = run, pp_actions = actions, pp_affected = affected \<rparr>))))"

definition preview_forget_policy :: "Ports \<Rightarrow> ForgetScope \<Rightarrow> ForgetMode \<Rightarrow> PolicyPlan Db" where
  "preview_forget_policy P scope mode = build_forget_plan P scope mode False"

definition forget_lifecycle_events :: "Ports \<Rightarrow> PolicyPlan \<Rightarrow> ForgetMode \<Rightarrow> Timestamp \<Rightarrow> MemoryLifecycleEvent list Db" where
  "forget_lifecycle_events P plan mode now =
     draws (\<lambda>n mid. lifecycle_event P n mid ''forgotten'' (Some ''forget_policy_applied'') (Some ''forget'')
         [(''run_id'', J (F_Str (pr_run_id (pp_run plan)))), (''mode'', J (F_Str (forget_mode_str mode))), (''applied_at'', J (F_Nat now))])
       (af_memory_ids (pp_affected plan))"

definition forget_policy :: "Ports \<Rightarrow> ForgetScope \<Rightarrow> ForgetMode \<Rightarrow> PolicyReport Db" where
  "forget_policy P scope mode =
     then_do (build_forget_plan P scope mode True) (\<lambda>plan.
     then_do (completion_time P plan) (\<lambda>now.
     then_do (forget_lifecycle_events P plan mode now) (\<lambda>events.
     then_do (on_db (\<lambda>b. apply_forget_policy (po_env P) (po_json P) b \<lparr> fm_run = pp_run plan, fm_actions = pp_actions plan,
         fm_memory_ids = af_memory_ids (pp_affected plan), fm_claim_ids = af_claim_ids (pp_affected plan),
         fm_relationship_ids = af_relationship_ids (pp_affected plan), fm_entity_ids = af_entity_ids (pp_affected plan),
         fm_lifecycle_events = events, fm_hard_delete = (mode = Hard), fm_applied_at = now \<rparr>)) (\<lambda>_.
     then_do (if mode = Hard
         then each (\<lambda>i. on_graph (\<lambda>g. (Ok (), remove_memory g i))) (af_memory_ids (pp_affected plan)) else give ()) (\<lambda>_.
     give (report_of plan))))))"

definition mentedb_forget :: "Ports \<Rightarrow> MemoryId \<Rightarrow> unit Db" where
  "mentedb_forget P i = then_do (forget_policy P (ScopeMemory i) Hard) (\<lambda>_. give ())"

section \<open>Decay and archival\<close>

text \<open>A global policy looks at every memory: a change is the new memory, its action and the payload of its event.\<close>

fun fl_abs :: "fl \<Rightarrow> fl" where
  "fl_abs NaN = NaN"
| "fl_abs (Inf s) = Inf False"
| "fl_abs (Fin a) = Fin \<bar>a\<bar>"

type_synonym Change = "MemoryNode \<times> ActionText \<times> Payload"

definition decay_change :: "Ports \<Rightarrow> DecayConfig \<Rightarrow> Timestamp \<Rightarrow> MemoryNode \<Rightarrow> Change option MenteResult" where
  "decay_change P cfg now m =
     bindO (compute_decay (po_exp2 P) (po_logn P) cfg (mn_salience m) (mn_created_at m) (mn_accessed_at m) (mn_access_count m) now) (\<lambda>new_salience.
     Ok (if fl_le (fl_abs (fl_sub f32_of new_salience (mn_salience m))) (f32_of (1/1000)) then None
       else Some (m\<lparr>mn_salience := new_salience\<rparr>,
         action_text ''decay_memory'' ''memory'' (po_show P (mn_id m)) [(''salience'', J (F_Real (mn_salience m)))] [(''salience'', J (F_Real new_salience))],
         [(''previous_salience'', J (F_Real (mn_salience m))), (''new_salience'', J (F_Real new_salience)), (''applied_at'', J (F_Nat now))])))"

definition archive_change :: "Ports \<Rightarrow> ArchivalConfig \<Rightarrow> Timestamp \<Rightarrow> MemoryNode \<Rightarrow> Change option MenteResult" where
  "archive_change P cfg now m = Ok (if memory_is_archived m then None
     else case evaluate cfg m now of
       ArchivalDecision.Keep \<Rightarrow> None | Consolidate _ \<Rightarrow> None
     | _ \<Rightarrow> let m' = m\<lparr>mn_tags := mn_tags m @ [''archived''], mn_salience := fl_min (mn_salience m) (f32_of (2/100))\<rparr> in
         Some (m', action_text ''archive_memory'' ''memory'' (po_show P (mn_id m))
             [(''tags'', J (F_Strs (mn_tags m))), (''salience'', J (F_Real (mn_salience m)))]
             [(''tags'', J (F_Strs (mn_tags m'))), (''salience'', J (F_Real (mn_salience m')))],
           [(''applied_at'', J (F_Nat now))]))"

fun gather :: "('a \<Rightarrow> 'b option MenteResult) \<Rightarrow> 'a list \<Rightarrow> 'b list MenteResult" where
  "gather f [] = Ok []"
| "gather f (x # xs) = bindO (f x) (\<lambda>y. bindO (gather f xs) (\<lambda>ys. Ok (case y of Some z \<Rightarrow> z # ys | None \<Rightarrow> ys)))"

definition global_policy :: "Ports \<Rightarrow> string \<Rightarrow> string \<Rightarrow> string \<Rightarrow> (Timestamp \<Rightarrow> MemoryNode \<Rightarrow> Change option MenteResult) \<Rightarrow> PolicyReport Db" where
  "global_policy P name event_type reason change =
     then_do (current_time_us P) (\<lambda>now.
     then_do (new_run P name ''apply'' True) (\<lambda>run.
     then_do (read_db (all_memories (po_codec P))) (\<lambda>memories.
     then_do (lift (gather (change now) memories)) (\<lambda>changes.
     then_do (draws (\<lambda>n (m, a, payload). policy_action P (pr_run_id run) True n a) changes) (\<lambda>actions.
     then_do (draws (\<lambda>n (m, a, payload). lifecycle_event P n (mn_id m) event_type (Some reason) (Some name) payload) changes) (\<lambda>events.
     let run = run\<lparr>pr_completed_at := Some now, pr_scope_json := po_render P [(''type'', J (F_Str ''global''))],
           pr_result_json := po_render P [(''memory_count'', J (F_Nat (length changes)))]\<rparr>
     in then_do (on_db (\<lambda>b. apply_lifecycle_policy (po_env P) (po_codec P) (po_json P) b \<lparr> lm_run = run, lm_actions = actions,
            lm_memory_updates = map fst changes, lm_lifecycle_events = events \<rparr>)) (\<lambda>_.
        give \<lparr> rp_run_id = pr_run_id run, rp_actions = length actions,
               rp_affected = affected_none\<lparr>af_memory_ids := map (mn_id \<circ> fst) changes\<rparr> \<rparr>)))))))"

definition apply_decay_policy_global :: "Ports \<Rightarrow> PolicyReport Db" where
  "apply_decay_policy_global P = then_do (read_config cf_decay_config) (\<lambda>cfg.
     global_policy P ''decay'' ''decayed'' ''salience_decay_applied'' (decay_change P cfg))"

definition apply_archive_policy_global :: "Ports \<Rightarrow> PolicyReport Db" where
  "apply_archive_policy_global P = then_do (read_config cf_archival_config) (\<lambda>cfg.
     global_policy P ''archive'' ''archived'' ''archival_policy_applied'' (archive_change P cfg))"

definition apply_decay_global :: "Ports \<Rightarrow> nat Db" where
  "apply_decay_global P = then_do (apply_decay_policy_global P) (\<lambda>r. give (length (af_memory_ids (rp_affected r))))"

end
