(* ===== verification/Facade_Mirror.thy ===== *)
theory Facade_Mirror
  imports Facade_Policies
begin

text \<open>
  What ties the two halves of the facade together: the graph in memory has exactly the stored memories as nodes, the vector table
  mirrors the memories and no foreign key dangles, after every sequence of writes, recalls and policies, those that fail included.
\<close>

section \<open>The store under the facade\<close>

text \<open>A well-formed store with a given set of memories, and what each transaction does to the set.\<close>

definition id_set :: "Tables \<Rightarrow> MemoryId set" where
  "id_set t = mr_id ` set (t_memories t)"

definition steady :: "MemoryId set \<Rightarrow> Backend \<Rightarrow> bool" where
  "steady S b \<longleftrightarrow> id_set (bk_tables b) = S \<and> backend_ok b \<and> integrity (bk_tables b)"

lemma id_set_core: "core t = core u \<Longrightarrow> id_set t = id_set u"
  by (simp add: core_def id_set_def)

lemma all_ids_set: "set (all_memory_ids b) = id_set (bk_tables b)"
  by (simp add: all_memory_ids_def id_set_def)

lemma steadyI: "id_set (bk_tables b) = S \<Longrightarrow> backend_ok b \<Longrightarrow> integrity (bk_tables b) \<Longrightarrow> steady S b"
  by (simp add: steady_def)

lemma transact_ids:
  assumes "\<And>u. f (bk_tables b) = Ok u \<Longrightarrow> id_set u = S"
  shows "id_set (bk_tables (snd (transact_unit b f))) = (if fst (transact_unit b f) = Ok () then S else id_set (bk_tables b))"
  using assms by (cases "f (bk_tables b)") (auto simp: transact_unit_def transact_def)

lemma transact_same:
  assumes "\<And>u. f (bk_tables b) = Ok u \<Longrightarrow> id_set u = id_set (bk_tables b)"
  shows "id_set (bk_tables (snd (transact_unit b f))) = id_set (bk_tables b)"
  using transact_ids[OF assms] by simp

lemma store_memory_on_ids: "store_memory_on env codec d m t = Ok u \<Longrightarrow> id_set u = insert (mn_id m) (id_set t)"
proof -
  assume "store_memory_on env codec d m t = Ok u"
  then have "t_memories u = stored_rows codec m (t_memories t)"
    by (auto simp: store_memory_on_def upsert_memory_row_def refresh_vector_def insert_vector_def delete_vector_def replace_tags_def
        bindO_eq_Ok Let_def split: option.splits if_splits prod.splits)
  then show ?thesis by (simp add: id_set_def memories.upsert_keys)
qed

lemma for_each_store_ids:
  "for_each (store_memory_on env codec d) ms t = Ok u \<Longrightarrow> id_set u = id_set t \<union> mn_id ` set ms"
  by (induction ms arbitrary: t) (auto simp: bindO_eq_Ok dest!: store_memory_on_ids)

lemma core_knowledge:
  "insert_memory_source_on env s t = Ok u \<Longrightarrow> core u = core t"
  "upsert_entity_on env e t = Ok u \<Longrightarrow> core u = core t"
  "add_entity_alias_on env a t = Ok u \<Longrightarrow> core u = core t"
  "link_memory_entity_on env l t = Ok u \<Longrightarrow> core u = core t"
  by (auto simp: insert_memory_source_on_def upsert_entity_on_def add_entity_alias_on_def link_memory_entity_on_def bindO_eq_Ok Let_def)
    (simp_all add: core_def)

lemma core_entity_bundle: "entity_bundle_on env es als ls t = Ok u \<Longrightarrow> core u = core t"
  unfolding entity_bundle_on_def bindO_eq_Ok using for_each_core core_knowledge by metis

lemma invalidate_ids [simp]: "id_set (invalidate_memory_on env mid u t) = id_set t"
proof -
  have "mr_id ` set (map (\<lambda>r. if mr_id r = mid then r\<lparr>mr_valid_until := Some (as_i64 u)\<rparr> else r) (t_memories t)) = mr_id ` set (t_memories t)"
    by (rule map_same_keys) simp
  then show ?thesis unfolding invalidate_memory_on_def id_set_def by (simp only: record_operation_tables if_distrib[of t_memories] Tables.simps split: if_split) simp
qed

lemma delete_ids [simp]: "id_set (snd (delete_memory_on env mid t)) = id_set t - {mid}"
proof (cases "row_of mr_id mid (t_memories t)")
  case None
  then have "mid \<notin> id_set t" by (simp add: id_set_def row_of_None_iff)
  then show ?thesis using None by (simp add: delete_memory_on_def)
next
  case (Some row)
  then show ?thesis
    by (auto simp: delete_memory_on_def Let_def id_set_def delete_memory_row_def delete_source_rows_def delete_vector_def)
qed

lemma fold_invalidate_ids: "id_set (fold (\<lambda>(mid, until). invalidate_memory_on env mid until) ms t) = id_set t"
  by (induction ms arbitrary: t) auto

lemma fold_invalidate_all_ids: "id_set (fold (\<lambda>mid. invalidate_memory_on env mid until) ms t) = id_set t"
  by (induction ms arbitrary: t) auto

lemma fold_delete_ids: "id_set (fold (\<lambda>mid t. snd (delete_memory_on env mid t)) ms t) = id_set t - set ms"
  by (induction ms arbitrary: t) auto

lemma forget_ids:
  "id_set (forget_hard env mu t) = id_set t - set (fm_memory_ids mu)"
  "id_set (forget_soft env mu t) = id_set t"
  unfolding forget_hard_def forget_soft_def
  by (simp_all add: id_set_core[OF fold_keeps_core] fold_delete_ids fold_invalidate_all_ids)

section \<open>Transactions keep the store steady\<close>

lemma steady_step:
  assumes "steady S b" "id_set (bk_tables (store_step env codec json w b)) = T"
  shows "steady T (store_step env codec json w b)"
  using assms store_step_inv store_step_integrity by (simp add: steady_def)

lemma policy_ids:
  assumes "upsert_policy_run_on env json r t = Ok t1" "for_each (insert_policy_action_on json) as t1 = Ok t2"
  shows "id_set t2 = id_set t"
  using core_outcomes(3)[OF assms(1)] for_each_keeps_core(3)[OF assms(2)] id_set_core by metis

lemma lifecycle_event_ids: "id_set (bk_tables (snd (record_lifecycle_event env json b e))) = id_set (bk_tables b)"
  unfolding record_lifecycle_event_def by (rule transact_same) (erule core_outcomes(2)[THEN id_set_core])

lemma store_edge_ids: "id_set (bk_tables (snd (store_edge env b e))) = id_set (bk_tables b)"
  unfolding store_edge_def by (rule transact_same) (erule core_outcomes(1)[THEN id_set_core])

lemma correction_ids_same: "id_set (bk_tables (snd (apply_correction_policy env json b mu))) = id_set (bk_tables b)"
  unfolding apply_correction_policy_def
  by (rule transact_same)
    (auto simp: bindO_eq_Ok id_set_core[OF fold_keeps_core] fold_invalidate_ids
      dest!: for_each_keeps_core[THEN id_set_core] core_outcomes(3)[THEN id_set_core])

lemma lifecycle_policy_ids:
  assumes "mn_id ` set (lm_memory_updates mu) \<subseteq> id_set (bk_tables b)"
  shows "id_set (bk_tables (snd (apply_lifecycle_policy env codec json b mu))) = id_set (bk_tables b)"
  unfolding apply_lifecycle_policy_def using assms
  by (intro transact_same)
    (auto simp: bindO_eq_Ok image_subset_iff dest!: for_each_keeps_core[THEN id_set_core] core_outcomes(3)[THEN id_set_core] for_each_store_ids)

lemma forget_policy_ids:
  "id_set (bk_tables (snd (apply_forget_policy env json b mu)))
    = (if fst (apply_forget_policy env json b mu) = Ok () \<and> fm_hard_delete mu
       then id_set (bk_tables b) - set (fm_memory_ids mu) else id_set (bk_tables b))"
  unfolding apply_forget_policy_def
  by (subst transact_ids[where S = "if fm_hard_delete mu then id_set (bk_tables b) - set (fm_memory_ids mu) else id_set (bk_tables b)"])
    (auto simp: bindO_eq_Ok id_set_core[OF core_record_operation] forget_ids
      dest!: for_each_keeps_core[THEN id_set_core] core_outcomes(3)[THEN id_set_core])

lemma store_memory_ids:
  "id_set (bk_tables (snd (store_memory env codec b m)))
    = (if fst (store_memory env codec b m) = Ok () then insert (mn_id m) (id_set (bk_tables b)) else id_set (bk_tables b))"
  unfolding store_memory_def by (rule transact_ids) (auto simp: bindO_eq_Ok dest: store_memory_on_ids)

lemma store_batch_ids:
  "id_set (bk_tables (snd (store_memory_batch env codec b ms)))
    = (if fst (store_memory_batch env codec b ms) = Ok () then id_set (bk_tables b) \<union> mn_id ` set ms else id_set (bk_tables b))"
  unfolding store_memory_batch_def by (rule transact_ids) (auto simp: bindO_eq_Ok dest: for_each_store_ids)

lemma ensure_index_ids: "id_set (bk_tables (ensure_vector_index env b d)) = id_set (bk_tables b)"
  by (simp add: ensure_vector_index_def Let_def id_set_def)

lemmas steady_steps =
  steady_step[where w = "LifecycleEvent e", simplified] steady_step[where w = "StoreEdge e", simplified]
  steady_step[where w = "CorrectPolicy mu", simplified] steady_step[where w = "ForgetPolicy mu", simplified]
  steady_step[where w = "LifecyclePolicy mu", simplified] steady_step[where w = "StoreMemory m", simplified]
  steady_step[where w = "StoreBatch ms", simplified] steady_step[where w = "EnsureIndex d", simplified]
  for e mu m ms d

lemma steady_cong:
  assumes "steady S b" "core (bk_tables b') = core (bk_tables b)" "bk_dim b' = bk_dim b" "integrity (bk_tables b')"
  shows "steady S b'"
  using assms id_set_core[OF assms(2)] tables_ok_core[OF assms(2)] by (simp add: steady_def backend_ok_def)

lemma transact_core:
  assumes "\<And>u. f (bk_tables b) = Ok u \<Longrightarrow> core u = core (bk_tables b)"
  shows "core (bk_tables (snd (transact_unit b f))) = core (bk_tables b)" "bk_dim (snd (transact_unit b f)) = bk_dim b"
proof -
  have "core (bk_tables (snd (transact_unit b f))) = core (bk_tables b) \<and> bk_dim (snd (transact_unit b f)) = bk_dim b"
    using assms by (cases "f (bk_tables b)") (simp_all add: transact_unit_def transact_def)
  then show "core (bk_tables (snd (transact_unit b f))) = core (bk_tables b)" "bk_dim (snd (transact_unit b f)) = bk_dim b" by simp_all
qed

lemma steady_entity_bundle:
  assumes "steady S b"
  shows "steady S (snd (replace_memory_entity_bundle env b mid es als ls))"
proof (rule steady_cong[OF assms])
  have "core u = core (bk_tables b)" if "bindO (entity_bundle_on env es als ls ((bk_tables b)\<lparr>t_memory_entities := rows\<rparr>))
      (\<lambda>t. Ok (record_operation_on env w m so ta p t)) = Ok u" for rows w m so ta p u
    using that by (auto simp: bindO_eq_Ok dest!: core_entity_bundle) (simp add: core_def)
  then show "core (bk_tables (snd (replace_memory_entity_bundle env b mid es als ls))) = core (bk_tables b)"
    "bk_dim (snd (replace_memory_entity_bundle env b mid es als ls)) = bk_dim b"
    unfolding replace_memory_entity_bundle_def by (intro transact_core; blast)+
  show "integrity (bk_tables (snd (replace_memory_entity_bundle env b mid es als ls)))"
    using assms by (intro persist_integrity) (simp add: steady_def)
qed

lemma core_purge: "purge_old_traces_on keep t = Ok u \<Longrightarrow> core u = core t"
  by (auto simp: purge_old_traces_on_def bindO_eq_Ok Let_def core_def)

lemma core_trace:
  "core (bk_tables (snd (record_retrieval_trace i now d q ts any tr k f c sc vh bh cfg b))) = core (bk_tables b)"
  "bk_dim (snd (record_retrieval_trace i now d q ts any tr k f c sc vh bh cfg b)) = bk_dim b"
proof -
  have "core u = core (bk_tables b)" if "purge_old_traces_on n ((bk_tables b)\<lparr>t_traces := x, t_trace_hits := y\<rparr>) = Ok u" for n x y u
    using core_purge[OF that] by (simp add: core_def)
  then show "core (bk_tables (snd (record_retrieval_trace i now d q ts any tr k f c sc vh bh cfg b))) = core (bk_tables b)"
    "bk_dim (snd (record_retrieval_trace i now d q ts any tr k f c sc vh bh cfg b)) = bk_dim b"
    unfolding record_retrieval_trace_def by (intro transact_core; auto simp: bindO_eq_Ok)+
qed

lemma steady_search:
  assumes "steady S b"
  shows "steady S (snd (hybrid_search_with_query_mode eng i now b q qt ts any tr k))"
proof (rule steady_cong[OF assms])
  show "integrity (bk_tables (snd (hybrid_search_with_query_mode eng i now b q qt ts any tr k)))"
    using assms by (intro search_integrity) (simp add: steady_def)
qed (auto simp: hybrid_search_with_query_mode_def core_trace split: prod.splits)

lemma store_with_source_cases:
  assumes "steady S b"
  shows "steady (if fst (store_memory_with_source env codec msg b m src) = Ok () then insert (mn_id m) S else S)
    (snd (store_memory_with_source env codec msg b m src))"
proof -
  let ?f = "\<lambda>t. bindO (store_memory_on env codec (bk_dim b) m t) (insert_memory_source_on env src)"
  have "steady (if fst (transact_unit b ?f) = Ok () then insert (mn_id m) S else S) (snd (transact_unit b ?f))"
  proof (rule steadyI)
    have S: "id_set (bk_tables b) = S" using assms by (simp add: steady_def)
    have "id_set u = insert (mn_id m) S" if "?f (bk_tables b) = Ok u" for u
      using that by (auto simp: bindO_eq_Ok S[symmetric] dest!: store_memory_on_ids core_knowledge(1)[THEN id_set_core])
    from transact_ids[of ?f b, OF this] show "id_set (bk_tables (snd (transact_unit b ?f)))
        = (if fst (transact_unit b ?f) = Ok () then insert (mn_id m) S else S)" by (simp add: S)
    show "backend_ok (snd (transact_unit b ?f))"
      using assms by (intro transact_unit_ok)
        (auto simp: steady_def backend_ok_def bindO_eq_Ok dest!: core_knowledge(1)[THEN tables_ok_core] intro: store_memory_on_inv)
    show "integrity (bk_tables (snd (transact_unit b ?f)))"
      using assms by (intro keeps_transact keeps_intros) (simp add: steady_def)
  qed
  then show ?thesis using assms by (auto simp: store_memory_with_source_def split: outcome.splits)
qed

section \<open>Facade steps\<close>

text \<open>
  The graph has the nodes \<open>N\<close> and the store the memories \<open>S\<close>. A triple says that a step keeps this, whatever its result, and
  what a successful result satisfies.
\<close>

definition good :: "MemoryId set \<Rightarrow> MemoryId set \<Rightarrow> MenteDb \<Rightarrow> bool" where
  "good N S s \<longleftrightarrow> graph_nodes (read_graph (md_graph s)) = N \<and> steady S (md_db s)"

definition triple :: "MemoryId set \<Rightarrow> MemoryId set \<Rightarrow> 'a Db \<Rightarrow> ('a \<Rightarrow> bool) \<Rightarrow> bool" where
  "triple N S m R \<longleftrightarrow> (\<forall>s. good N S s \<longrightarrow> good N S (snd (m s)) \<and> (\<forall>x. fst (m s) = Ok x \<longrightarrow> R x))"

abbreviation any_result :: "'a \<Rightarrow> bool" where
  "any_result \<equiv> \<lambda>_. True"

lemma tripleD: "triple N S m R \<Longrightarrow> good N S s \<Longrightarrow> good N S (snd (m s))"
  by (simp add: triple_def)

lemma triple_result: "triple N S m R \<Longrightarrow> good N S s \<Longrightarrow> fst (m s) = Ok x \<Longrightarrow> R x"
  by (simp add: triple_def)

lemma triple_weaken: "triple N S m R \<Longrightarrow> (\<And>x. R x \<Longrightarrow> Q x) \<Longrightarrow> triple N S m Q"
  by (simp add: triple_def)

lemma triple_bind:
  assumes m: "triple N S m R" and f: "\<And>x. R x \<Longrightarrow> triple N S (f x) Q"
  shows "triple N S (then_do m f) Q"
  unfolding triple_def
proof (intro allI impI)
  fix s
  assume s: "good N S s"
  obtain r t where r: "m s = (r, t)" by (cases "m s")
  then have t: "good N S t" using tripleD[OF m s] by simp
  show "good N S (snd (then_do m f s)) \<and> (\<forall>x. fst (then_do m f s) = Ok x \<longrightarrow> Q x)"
  proof (cases r)
    case (Ok x)
    then have "triple N S (f x) Q" using f triple_result[OF m s] r by simp
    then show ?thesis using t r Ok by (simp add: triple_def then_do_def)
  qed (use r t in \<open>auto simp: then_do_def\<close>)
qed

lemma triple_seq: "triple N S m any_result \<Longrightarrow> (\<And>x. triple N S (f x) Q) \<Longrightarrow> triple N S (then_do m f) Q"
  by (rule triple_bind)

lemma triple_give: "R x \<Longrightarrow> triple N S (give x) R"
  by (simp add: triple_def give_def)

lemma triple_refuse: "triple N S (refuse e) R"
  by (simp add: triple_def refuse_def)

lemma triple_lift: "(\<And>x. r = Ok x \<Longrightarrow> R x) \<Longrightarrow> triple N S (lift r) R"
  by (simp add: triple_def lift_def)

lemma triple_attempt: "triple N S m R \<Longrightarrow> triple N S (attempt m) any_result"
  by (auto simp: triple_def attempt_def split: prod.splits outcome.splits)

lemma good_draws [simp]: "good N S (s\<lparr>md_draws := n\<rparr>) = good N S s" "good N S (s\<lparr>md_phantom := t\<rparr>) = good N S s"
  by (simp_all add: good_def)

lemma triple_draw: "triple N S draw any_result"
  by (simp add: triple_def draw_def)

lemma triple_time: "triple N S (current_time_us P) any_result"
  unfolding current_time_us_def by (intro triple_seq triple_draw triple_give) simp

lemma triple_draws: "triple N S (draws f xs) any_result"
  by (simp add: triple_def draws_def Let_def)

lemma triple_read_db: "(\<And>b. steady S b \<Longrightarrow> R (f b)) \<Longrightarrow> triple N S (read_db f) R"
  by (auto simp: triple_def read_db_def good_def)

lemma triple_read_config: "(\<And>c. R (f c)) \<Longrightarrow> triple N S (read_config f) R"
  by (simp add: triple_def read_config_def)

lemma triple_on_db: "(\<And>b. steady S b \<Longrightarrow> steady S (snd (f b))) \<Longrightarrow> triple N S (on_db f) any_result"
  by (auto simp: triple_def on_db_def good_def split: prod.splits) (metis snd_conv)

lemma triple_relationship: "triple N S (on_graph (\<lambda>g. add_relationship g e)) any_result"
proof -
  have "graph_nodes (read_graph g') = graph_nodes (read_graph g)" if "add_relationship g e = (r, g')" for g r g'
    using nodes_add_relationship[of g e] that by (simp add: read_graph_def)
  then show ?thesis by (auto simp: triple_def on_graph_def good_def split: prod.splits)
qed

lemma triple_each: "(\<And>x. x \<in> set xs \<Longrightarrow> triple N S (f x) any_result) \<Longrightarrow> triple N S (each f xs) any_result"
  by (induction xs) (auto intro!: triple_give triple_bind[where R = any_result])

lemma triple_state: "(\<And>s. triple N S (m s) R) \<Longrightarrow> triple N S (\<lambda>s. m s s) R"
  by (simp add: triple_def)

lemma steady_known: "steady S b \<Longrightarrow> get_memory codec b i = Some m \<Longrightarrow> i \<in> S \<and> mn_id m = i"
  by (auto simp: steady_def id_set_def get_memory_def node_of_row_def dest!: row_of_Some)

lemma triple_if_known: "(\<And>m. mn_id m = i \<Longrightarrow> i \<in> S \<Longrightarrow> triple N S (f m) any_result) \<Longrightarrow> triple N S (if_known P i f) any_result"
  using steady_known by (auto simp: triple_def if_known_def good_def split: option.splits)

lemma triple_get_memory: "triple N S (mentedb_get_memory P i) (\<lambda>m. mn_id m = i \<and> i \<in> S)"
  using steady_known by (fastforce simp: triple_def mentedb_get_memory_def good_def split: option.splits)

lemmas triple_intros = triple_seq triple_give triple_refuse triple_attempt triple_draw triple_time triple_draws triple_relationship
  triple_if_known TrueI

section \<open>Operations that keep the memories\<close>

lemma steadyD: "steady S b \<Longrightarrow> id_set (bk_tables b) = S"
  by (simp add: steady_def)

lemma triple_emit: "triple N S (emit_lifecycle_event P mid ty reason policy payload) any_result"
  unfolding emit_lifecycle_event_def
  by (intro triple_seq triple_draw triple_on_db steady_steps(1)) (simp_all add: lifecycle_event_ids steadyD)

lemma triple_relate: "triple N S (relate P e) any_result"
  unfolding relate_def
  by (intro triple_seq triple_relationship triple_on_db steady_steps(2)) (simp_all add: store_edge_ids steadyD)

lemma triple_put: "mn_id m \<in> S \<Longrightarrow> triple N S (put_memory P m) any_result"
  unfolding put_memory_def
  by (intro triple_on_db steady_steps(6)) (auto simp: store_memory_ids insert_absorb dest: steadyD)

lemma triple_invalidate: "triple N S (invalidate_memory P i t) any_result"
  unfolding invalidate_memory_def
  by (rule triple_bind[OF triple_get_memory], rule triple_seq) (auto simp: node_invalidate_def intro: triple_put triple_emit)

lemma triple_action: "triple N S (apply_inferred_action P a) any_result"
proof (cases a)
  case (PropagateBeliefChange r d)
  have "triple N S (belief_update P r d x) any_result" for x
    unfolding belief_update_def by (intro triple_if_known triple_seq triple_put triple_emit) simp
  then have "triple N S (\<lambda>s. each (belief_update P r d) (f s) s) any_result" for f
    by (rule triple_state[OF triple_each])
  then show ?thesis unfolding PropagateBeliefChange apply_inferred_action.simps
    by (intro triple_if_known triple_seq triple_lift) simp_all
qed (simp_all add: supersede_def triple_seq triple_if_known triple_time triple_relate triple_invalidate triple_emit triple_put)

lemma triple_persist: "triple N S (persist_extracted_entities P mid xs) any_result"
proof -
  have "triple N S (\<lambda>s. let n = md_draws s; records = rs s n; aliases = as s n; links = ls s n in
      then_do (on_db (\<lambda>b. replace_memory_entity_bundle (po_env P) b mid records aliases links))
        (\<lambda>_ s. (Ok (), s\<lparr>md_phantom := ph records s\<rparr>)) (s\<lparr>md_draws := dr n\<rparr>)) any_result" for rs as ls ph dr
    by (auto simp: triple_def good_def then_do_def on_db_def Let_def split: prod.splits outcome.splits)
      (metis steady_entity_bundle snd_conv)+
  then show ?thesis unfolding persist_extracted_entities_def Let_def
    by (auto intro!: triple_seq triple_time triple_on_db steady_entity_bundle simp: Let_def)
qed

lemma triple_index: "triple N S (index_memory_entities P m) any_result"
  unfolding index_memory_entities_def
  by (rule triple_bind[where R = any_result]) (auto intro: triple_read_config triple_give triple_persist)

lemma recall_good: "good N S s \<Longrightarrow> good N S (snd (recall_hybrid_at_mode P e qt k now tags any tr s))"
  by (auto simp: recall_hybrid_at_mode_def good_def Let_def split: prod.splits) (metis steady_search snd_conv)

lemma triple_inference: "triple N S (run_write_inference P m) any_result"
proof -
  have "triple N S (\<lambda>s. case recall_hybrid_at P e qt k now tags tr s of (cs, s) \<Rightarrow>
      if f cs s = [] then (Ok (), s) else each (\<lambda>a. attempt (apply_inferred_action P a)) (g cs s) s) any_result" for e qt k now tags tr f g
    unfolding triple_def
  proof (intro allI impI conjI TrueI)
    fix s
    assume "good N S s"
    then have "good N S (snd (recall_hybrid_at P e qt k now tags tr s))" unfolding recall_hybrid_at_def by (rule recall_good)
    moreover have "triple N S (each (\<lambda>a. attempt (apply_inferred_action P a)) xs) any_result" for xs
      by (intro triple_each triple_attempt[OF triple_action])
    ultimately show "good N S (snd (case recall_hybrid_at P e qt k now tags tr s of (cs, s) \<Rightarrow>
        if f cs s = [] then (Ok (), s) else each (\<lambda>a. attempt (apply_inferred_action P a)) (g cs s) s))"
      by (auto simp: split_beta intro: tripleD)
  qed
  note inferred = this
  show ?thesis unfolding run_write_inference_def Let_def
    by (cases "mn_embedding m = []") (simp_all add: triple_give triple_seq[OF triple_time inferred])
qed

lemma triple_infer: "triple N S (infer_if_enabled P m) any_result"
  unfolding infer_if_enabled_def
  by (rule triple_bind[where R = any_result]) (auto intro: triple_read_config triple_give triple_inference)

lemma steady_provision: "steady S b \<Longrightarrow> steady S (snd ((Ok () :: unit MenteResult), if P then ensure_vector_index env b d else b))"
  using steady_steps(8)[of S b env d S] ensure_index_ids[of env b d] by (auto simp: steadyD)

lemma triple_provision: "triple N S (provision P d) any_result"
  unfolding provision_def by (intro triple_on_db steady_provision)

section \<open>Operations that add memories\<close>

text \<open>A step that adds the memories \<open>I\<close> when it succeeds, and none or all of them otherwise.\<close>

definition grows :: "MemoryId set \<Rightarrow> MemoryId set \<Rightarrow> 'a Db \<Rightarrow> bool" where
  "grows S I m \<longleftrightarrow> (\<forall>s. good S S s \<longrightarrow> (\<exists>T. good T T (snd (m s)) \<and> (T = S \<or> T = S \<union> I) \<and> (\<forall>x. fst (m s) = Ok x \<longrightarrow> T = S \<union> I)))"

lemma grows_after:
  assumes m: "triple S S m R" and f: "\<And>x. R x \<Longrightarrow> grows S I (f x)"
  shows "grows S I (then_do m f)"
  unfolding grows_def
proof (intro allI impI)
  fix s
  assume s: "good S S s"
  obtain r t where r: "m s = (r, t)" by (cases "m s")
  then have t: "good S S t" using tripleD[OF m s] by simp
  show "\<exists>T. good T T (snd (then_do m f s)) \<and> (T = S \<or> T = S \<union> I) \<and> (\<forall>x. fst (then_do m f s) = Ok x \<longrightarrow> T = S \<union> I)"
  proof (cases r)
    case (Ok x)
    then have "grows S I (f x)" using f triple_result[OF m s] r by simp
    then show ?thesis using t r Ok unfolding grows_def by (simp add: then_do_def)
  qed (use r t in \<open>auto simp: then_do_def\<close>)
qed

lemma grows_then:
  assumes m: "grows S I m" and f: "\<And>x. triple (S \<union> I) (S \<union> I) (f x) R"
  shows "grows S I (then_do m f)"
  unfolding grows_def
proof (intro allI impI)
  fix s
  assume "good S S s"
  then obtain T where T: "good T T (snd (m s))" "T = S \<or> T = S \<union> I" "\<And>x. fst (m s) = Ok x \<Longrightarrow> T = S \<union> I"
    using m unfolding grows_def by blast
  show "\<exists>T. good T T (snd (then_do m f s)) \<and> (T = S \<or> T = S \<union> I) \<and> (\<forall>x. fst (then_do m f s) = Ok x \<longrightarrow> T = S \<union> I)"
  proof (cases "fst (m s)")
    case (Ok x)
    then have "good (S \<union> I) (S \<union> I) (snd (f x (snd (m s))))" using T(1) T(3)[OF Ok] tripleD[OF f[of x]] by simp
    then show ?thesis using Ok by (auto simp: then_do_def split_beta)
  qed (use T in \<open>auto simp: then_do_def split_beta\<close>)
qed

text \<open>The store first, then the graph: the two agree again once the nodes are registered.\<close>

lemma grows_store:
  assumes f: "\<And>b. steady S b \<Longrightarrow> steady (if fst (f b) = Ok () then S \<union> I else S) (snd (f b))"
    and k: "\<And>s. good S (S \<union> I) s \<Longrightarrow> good (S \<union> I) (S \<union> I) (snd (k s))"
  shows "grows S I (then_do (on_db f) (\<lambda>_ :: unit. k))"
  unfolding grows_def
proof (intro allI impI)
  fix s
  assume s: "good S S s"
  obtain r b where r: "f (md_db s) = (r, b)" by (cases "f (md_db s)")
  have b: "steady (if r = Ok () then S \<union> I else S) b" using f[of "md_db s"] s r by (simp add: good_def)
  show "\<exists>T. good T T (snd (then_do (on_db f) (\<lambda>_. k) s)) \<and> (T = S \<or> T = S \<union> I)
      \<and> (\<forall>x. fst (then_do (on_db f) (\<lambda>_. k) s) = Ok x \<longrightarrow> T = S \<union> I)"
  proof (cases r)
    case (Ok u)
    then have "good S (S \<union> I) (s\<lparr>md_db := b\<rparr>)" using b s by (simp add: good_def)
    then show ?thesis using k[of "s\<lparr>md_db := b\<rparr>"] Ok r by (intro exI[of _ "S \<union> I"]) (simp add: then_do_def on_db_def)
  qed (use b s r in \<open>auto simp: then_do_def on_db_def good_def\<close>)
qed

lemma register_then:
  assumes "good N T s" "triple (insert i N) T k R"
  shows "good (insert i N) T (snd (then_do (register_memory i) (\<lambda>_. k) s))"
proof -
  have "good (insert i N) T (s\<lparr>md_graph := add_memory (md_graph s) i\<rparr>)" using assms(1) by (simp add: good_def read_graph_def)
  from tripleD[OF assms(2) this] show ?thesis by (simp add: then_do_def register_memory_def on_graph_def)
qed

lemma grows_store_one:
  assumes "\<And>b. steady S b \<Longrightarrow> steady (if fst (f b) = Ok () then insert i S else S) (snd (f b))"
    and "triple (insert i S) (insert i S) k R"
  shows "grows S {i} (then_do (on_db f) (\<lambda>_ :: unit. then_do (register_memory i) (\<lambda>_. k)))"
proof (rule grows_store)
  show "steady S b \<Longrightarrow> steady (if fst (f b) = Ok () then S \<union> {i} else S) (snd (f b))" for b
    using assms(1)[of b] by (simp split: if_splits)
  show "good S (S \<union> {i}) s \<Longrightarrow> good (S \<union> {i}) (S \<union> {i}) (snd (then_do (register_memory i) (\<lambda>_. k) s))" for s
    using register_then[of S "insert i S" s i k R] assms(2) by simp
qed

lemma grows_checked:
  "grows S I k \<Longrightarrow> grows S I (then_do (provision P n) (\<lambda>_. then_do (read_db bk_dim) (\<lambda>d. then_do (lift (check_dim d m)) (\<lambda>_. k))))"
  by (intro grows_after[where R = any_result] triple_provision triple_read_db triple_lift TrueI)

lemma store_memory_cases:
  assumes "steady S b"
  shows "steady (if fst (store_memory env codec b m) = Ok () then insert (mn_id m) S else S) (snd (store_memory env codec b m))"
proof -
  have "id_set (bk_tables (snd (store_memory env codec b m))) = (if fst (store_memory env codec b m) = Ok () then insert (mn_id m) S else S)"
    unfolding store_memory_ids steadyD[OF assms] by simp
  with steady_steps(6)[OF assms, of env codec m] show ?thesis by simp
qed

lemma triple_indexed: "triple N S (then_do (attempt (index_memory_entities P m)) (\<lambda>_. infer_if_enabled P m)) any_result"
  by (intro triple_seq triple_attempt[OF triple_index] triple_infer)

lemma grows_mentedb_store: "grows S {mn_id m} (mentedb_store P m)"
  unfolding mentedb_store_def put_memory_def
  by (intro grows_checked grows_store_one[OF _ triple_indexed] store_memory_cases)

lemma grows_store_with_source: "grows S {mn_id m} (store_with_source P m src)"
  unfolding store_with_source_def by (intro grows_checked grows_store_one[OF _ triple_indexed] store_with_source_cases)

text \<open>Linking entities never panics, so that a batch registers every node.\<close>

lemma for_each_no_panic: "(\<And>x t. f x t \<noteq> Panic) \<Longrightarrow> for_each f xs t \<noteq> Panic"
  by (induction xs arbitrary: t) (auto simp: bindO_eq_Panic)

lemma entity_bundle_no_panic: "entity_bundle_on env es als ls t \<noteq> Panic"
proof -
  have "upsert_entity_on env e t \<noteq> Panic" "add_entity_alias_on env a t \<noteq> Panic" "link_memory_entity_on env l t \<noteq> Panic" for e a l t
    by (auto simp: upsert_entity_on_def add_entity_alias_on_def link_memory_entity_on_def bindO_eq_Panic fk_check_def foreign_key_failed_def
        not_null_real_def Let_def)
  then show ?thesis unfolding entity_bundle_on_def by (auto simp: bindO_eq_Panic for_each_no_panic)
qed

lemma index_no_panic: "fst (index_memory_entities P m s) \<noteq> Panic"
proof -
  have "fst (replace_memory_entity_bundle env b mid es als ls) \<noteq> Panic" for env b es als ls mid
    using entity_bundle_no_panic[of env es als ls]
    by (auto simp: replace_memory_entity_bundle_def transact_unit_def transact_def bindO_eq_Panic split: outcome.splits)
  then have "fst (replace_memory_entity_bundle env b mid es als ls) = Panic \<longleftrightarrow> False" for env b es als ls mid by simp
  then show ?thesis
    by (auto simp: index_memory_entities_def persist_extracted_entities_def db_defs Let_def split: outcome.splits prod.splits)
      (metis fst_conv)+
qed

lemma register_each:
  "good N T s \<Longrightarrow> fst (each (\<lambda>m. then_do (register_memory (mn_id m)) (\<lambda>_. attempt (index_memory_entities P m))) ms s) = Ok ()
    \<and> good (N \<union> mn_id ` set ms) T (snd (each (\<lambda>m. then_do (register_memory (mn_id m)) (\<lambda>_. attempt (index_memory_entities P m))) ms s))"
proof (induction ms arbitrary: N s)
  case (Cons m ms)
  let ?f = "\<lambda>m. then_do (register_memory (mn_id m)) (\<lambda>_. attempt (index_memory_entities P m))"
  have "good (insert (mn_id m) N) T (snd (?f m s))"
    by (rule register_then[OF Cons.prems triple_attempt[OF triple_index]])
  moreover have "fst (?f m s) = Ok ()"
    using index_no_panic[of P m]
    by (auto simp: then_do_def attempt_def register_memory_def on_graph_def split: prod.splits outcome.splits) (metis fst_conv)
  ultimately show ?case using Cons.IH[of "insert (mn_id m) N" "snd (?f m s)"]
    by (cases "?f m s") (simp add: then_do_def[of "?f m"])
qed (simp add: give_def)

lemma grows_store_batch: "grows S (mn_id ` set ms) (store_batch P ms)"
proof -
  have "steady (if fst (store_memory_batch env codec b ms) = Ok () then S \<union> mn_id ` set ms else S) (snd (store_memory_batch env codec b ms))"
    if "steady S b" for env codec b
  proof -
    have "id_set (bk_tables (snd (store_memory_batch env codec b ms)))
        = (if fst (store_memory_batch env codec b ms) = Ok () then S \<union> mn_id ` set ms else S)"
      unfolding store_batch_ids steadyD[OF that] by simp
    with steady_steps(7)[OF that, of env codec ms] show ?thesis by simp
  qed
  then show ?thesis unfolding store_batch_def
    by (intro grows_after[where R = any_result] triple_provision triple_read_db triple_each triple_lift TrueI grows_store)
      (use register_each in \<open>auto simp: then_do_def give_def split_beta\<close>)
qed

section \<open>Any operation\<close>

definition mirrors :: "'a Db \<Rightarrow> bool" where
  "mirrors m \<longleftrightarrow> (\<forall>S s. good S S s \<longrightarrow> (\<exists>T. good T T (snd (m s))))"

lemma mirrors_triple: "(\<And>S. triple S S m R) \<Longrightarrow> mirrors m"
  unfolding mirrors_def triple_def by blast

lemma mirrors_grows: "(\<And>S. grows S I m) \<Longrightarrow> mirrors m"
  unfolding mirrors_def grows_def by blast

lemma mirrors_bind: "mirrors m \<Longrightarrow> (\<And>x. mirrors (f x)) \<Longrightarrow> mirrors (then_do m f)"
  unfolding mirrors_def then_do_def
  by (auto split: prod.splits outcome.splits) (metis snd_conv)+

lemma mirrors_consolidate: "mirrors (consolidate_cluster P ids)"
proof -
  have "triple S S (absorb_source P c now src) any_result" for S c now src
    unfolding absorb_source_def by (intro triple_seq triple_attempt[OF triple_invalidate] triple_attempt[OF triple_relate] triple_attempt[OF triple_emit])
  then have "mirrors (each (absorb_source P c now) xs)" for c now xs by (intro mirrors_triple[where R = any_result] triple_each)
  then show ?thesis unfolding consolidate_cluster_def Let_def
    by (auto intro!: mirrors_bind mirrors_triple[OF triple_read_db] mirrors_triple[OF triple_refuse] mirrors_triple[OF triple_draw]
        mirrors_grows[OF grows_mentedb_store] mirrors_triple[OF triple_emit] mirrors_triple[OF triple_time] mirrors_triple[OF triple_give])
qed

lemma triple_correction_plan: "triple N S (build_correction_plan P q ap) any_result"
  unfolding build_correction_plan_def new_run_def Let_def
  by (intro triple_bind[where R = any_result, OF triple_weaken[OF triple_get_memory]] triple_seq triple_read_db triple_time triple_draw
      triple_draws triple_give TrueI)

lemma triple_completion: "triple N S (completion_time P plan) any_result"
  by (auto simp: completion_time_def intro: triple_give triple_time split: option.split)

lemma triple_mirror_edges: "triple N S (mirror_edges es) any_result"
  unfolding mirror_edges_def by (intro triple_each triple_attempt[OF triple_relationship])

lemma triple_apply_correction: "triple N S (on_db (\<lambda>b. apply_correction_policy env json b mu)) any_result"
  by (intro triple_on_db steady_steps(3)) (auto simp: correction_ids_same dest: steadyD)

lemma triple_correction: "triple N S (correction_policy P q) any_result"
  unfolding correction_policy_def correction_lifecycle_events_def Let_def
  by (intro triple_seq triple_correction_plan triple_completion triple_draws triple_apply_correction triple_mirror_edges triple_give TrueI)

lemma triple_enrichment: "triple N S (enrichment_policy P q) any_result"
proof -
  have "triple N S (build_enrichment_plan P q ap) any_result" for ap
    unfolding build_enrichment_plan_def new_run_def Let_def
    by (intro triple_bind[where R = any_result, OF triple_weaken[OF triple_get_memory]] triple_seq triple_time triple_draw triple_lift
        triple_draws triple_give TrueI)
  then show ?thesis unfolding enrichment_policy_def enrichment_lifecycle_events_def
    by (intro triple_seq triple_completion triple_lift triple_draws triple_apply_correction triple_mirror_edges triple_give TrueI)
qed

lemma gather_elem: "gather f xs = Ok ys \<Longrightarrow> y \<in> set ys \<Longrightarrow> \<exists>x \<in> set xs. f x = Ok (Some y)"
  by (induction xs arbitrary: ys) (auto simp: bindO_eq_Ok split: option.splits)

lemma triple_global:
  assumes "\<And>now m m' a p. change now m = Ok (Some (m', a, p)) \<Longrightarrow> mn_id m' = mn_id m"
  shows "triple N S (global_policy P name ty reason change) any_result"
proof -
  have all: "triple N S (read_db (all_memories codec)) (\<lambda>ms. \<forall>m \<in> set ms. mn_id m \<in> S)" for codec
    by (rule triple_read_db) (auto simp: all_memories_def dest!: map_filterD dest: steady_known)
  have changes: "triple N S (lift (gather (change now) ms)) (\<lambda>cs. \<forall>c \<in> set cs. mn_id (fst c) \<in> S)" if "\<forall>m \<in> set ms. mn_id m \<in> S" for now ms
    using that by (intro triple_lift) (auto dest!: gather_elem assms)
  have written: "triple N S (on_db (\<lambda>b. apply_lifecycle_policy env codec json b
      \<lparr>lm_run = r, lm_actions = as, lm_memory_updates = map fst cs, lm_lifecycle_events = es\<rparr>)) any_result"
    if "\<forall>c \<in> set cs. mn_id (fst c) \<in> S" for env codec json r as cs es
  proof (intro triple_on_db steady_steps(5))
    fix b
    assume b: "steady S b"
    let ?mu = "\<lparr>lm_run = r, lm_actions = as, lm_memory_updates = map fst cs, lm_lifecycle_events = es\<rparr>"
    have "mn_id ` set (lm_memory_updates ?mu) \<subseteq> id_set (bk_tables b)" using that steadyD[OF b] by auto
    from lifecycle_policy_ids[OF this] show "id_set (bk_tables (snd (apply_lifecycle_policy env codec json b ?mu))) = S"
      by (simp add: steadyD[OF b])
  qed
  have run: "triple N S (new_run P nm md ap) any_result" for nm md ap
    unfolding new_run_def by (intro triple_seq triple_draw triple_give TrueI)
  show ?thesis unfolding global_policy_def Let_def
    apply (rule triple_seq[OF triple_time])
    apply (rule triple_seq[OF run])
    apply (rule triple_bind[OF all])
    apply (rule triple_bind[OF changes], assumption)
    apply (rule triple_seq[OF triple_draws])
    apply (rule triple_seq[OF triple_draws])
    apply (rule triple_seq[OF written], assumption)
    apply (simp add: triple_give)
    done
qed

lemma triple_decay: "triple N S (apply_decay_policy_global P) any_result"
  unfolding apply_decay_policy_global_def
  by (rule triple_seq[OF triple_read_config]) (auto intro!: triple_global simp: decay_change_def bindO_eq_Ok split: if_splits)

lemma triple_archive: "triple N S (apply_archive_policy_global P) any_result"
  unfolding apply_archive_policy_global_def
  by (rule triple_seq[OF triple_read_config])
    (auto intro!: triple_global simp: archive_change_def Let_def split: if_splits ArchivalDecision.splits)

lemma remove_each:
  "good N T s \<Longrightarrow> fst (each (\<lambda>i. on_graph (\<lambda>g. (Ok (), remove_memory g i))) ids s) = Ok ()
    \<and> good (N - set ids) T (snd (each (\<lambda>i. on_graph (\<lambda>g. (Ok (), remove_memory g i))) ids s))"
proof (induction ids arbitrary: N s)
  case (Cons i ids)
  then have "good (N - {i}) T (s\<lparr>md_graph := remove_memory (md_graph s) i\<rparr>)" by (simp add: good_def read_graph_def)
  from Cons.IH[OF this] show ?case by (simp add: then_do_def on_graph_def) (metis Diff_insert Diff_insert2)
qed (simp add: give_def)

lemma triple_forget_plan: "triple N S (build_forget_plan P scope mode ap) any_result"
  unfolding build_forget_plan_def new_run_def Let_def
  by (cases ap) (auto intro!: triple_seq triple_read_db triple_time triple_draw triple_draws triple_give)

lemma forget_cases:
  assumes "steady S b"
  shows "steady (if fst (apply_forget_policy env json b mu) = Ok () \<and> fm_hard_delete mu then S - set (fm_memory_ids mu) else S)
    (snd (apply_forget_policy env json b mu))"
proof -
  have "id_set (bk_tables (snd (apply_forget_policy env json b mu)))
      = (if fst (apply_forget_policy env json b mu) = Ok () \<and> fm_hard_delete mu then S - set (fm_memory_ids mu) else S)"
    unfolding forget_policy_ids steadyD[OF assms] by simp
  with steady_steps(4)[OF assms, of env json mu] show ?thesis by simp
qed

lemma mirrors_forget_apply:
  "mirrors (then_do (on_db (\<lambda>b. apply_forget_policy env json b mu)) (\<lambda>_.
     then_do (if fm_hard_delete mu then each (\<lambda>i. on_graph (\<lambda>g. (Ok (), remove_memory g i))) (fm_memory_ids mu) else give ()) (\<lambda>_. give r)))"
  unfolding mirrors_def
proof (intro allI impI)
  fix S s
  assume s: "good S S s"
  let ?apply = "apply_forget_policy env json (md_db s) mu" and ?s = "s\<lparr>md_db := snd (apply_forget_policy env json (md_db s) mu)\<rparr>"
  let ?T = "if fst ?apply = Ok () \<and> fm_hard_delete mu then S - set (fm_memory_ids mu) else S"
  have "steady ?T (snd ?apply)" using s by (intro forget_cases) (simp add: good_def)
  then have g: "good S ?T ?s" using s by (simp add: good_def)
  show "\<exists>T. good T T (snd (then_do (on_db (\<lambda>b. apply_forget_policy env json b mu)) (\<lambda>_.
     then_do (if fm_hard_delete mu then each (\<lambda>i. on_graph (\<lambda>g. (Ok (), remove_memory g i))) (fm_memory_ids mu) else give ()) (\<lambda>_. give r)) s))"
  proof (cases "fst ?apply = Ok () \<and> fm_hard_delete mu")
    case True
    then show ?thesis using remove_each[OF g, of "fm_memory_ids mu"] by (auto simp: then_do_def on_db_def give_def split_beta)
  next
    case False
    then show ?thesis using g by (cases "fst ?apply") (auto simp: then_do_def on_db_def give_def split_beta)
  qed
qed

lemma mirrors_forget: "mirrors (forget_policy P scope mode)"
proof -
  have events: "mirrors (forget_lifecycle_events P plan mode now)" for plan now
    unfolding forget_lifecycle_events_def by (rule mirrors_triple[OF triple_draws])
  note parts = mirrors_triple[OF triple_forget_plan] mirrors_triple[OF triple_completion] events
  have applied: "mirrors (then_do (on_db (\<lambda>b. apply_forget_policy (po_env P) (po_json P) b \<lparr> fm_run = pp_run plan, fm_actions = pp_actions plan,
         fm_memory_ids = af_memory_ids (pp_affected plan), fm_claim_ids = af_claim_ids (pp_affected plan),
         fm_relationship_ids = af_relationship_ids (pp_affected plan), fm_entity_ids = af_entity_ids (pp_affected plan),
         fm_lifecycle_events = events, fm_hard_delete = (mode = Hard), fm_applied_at = now \<rparr>)) (\<lambda>_.
     then_do (if mode = Hard
         then each (\<lambda>i. on_graph (\<lambda>g. (Ok (), remove_memory g i))) (af_memory_ids (pp_affected plan)) else give ()) (\<lambda>_.
     give (report_of plan))))" (is "mirrors (then_do (on_db (\<lambda>b. apply_forget_policy _ _ b ?mu)) _)") for plan events now
    using mirrors_forget_apply[of "po_env P" "po_json P" ?mu "report_of plan"]
    unfolding ForgetPolicyMutation.select_convs .
  show ?thesis unfolding forget_policy_def
    by (rule mirrors_bind[OF parts(1)], rule mirrors_bind[OF parts(2)], rule mirrors_bind[OF parts(3)], rule applied)
qed

section \<open>Opening\<close>

lemma backend_open_again: "backend_ok b \<Longrightarrow> backend_ok (backend_open cfg 0 (Some (bk_tables b)))"
  by (auto simp: backend_ok_def backend_open_def open_tables_def Let_def tables_ok_def vec_ok_def split: option.splits)

lemma integrity_init: "integrity (init_tables d)"
  by (simp add: init_tables_def refs_defs refs_in_def)

lemma integrity_open: "integrity t \<Longrightarrow> integrity (open_tables d (Some t))"
  by (simp add: open_tables_def Let_def refs_defs)

lemma good_open:
  assumes "\<forall>t. stored = Some t \<longrightarrow> backend_ok (backend_open retrieval_config_default 0 (Some t)) \<and> integrity t"
  shows "\<exists>T. good T T (open_with_config P cfg stored saved)"
proof -
  let ?b = "backend_open retrieval_config_default 0 stored"
  have "backend_ok ?b \<and> integrity (bk_tables ?b)"
    using assms backend_open_ok integrity_init integrity_open by (cases stored) (auto simp: backend_open_def Let_def open_tables_def)
  then have "good (id_set (bk_tables ?b)) (id_set (bk_tables ?b)) (open_with_config P cfg stored saved)"
    using nodes_hydrate[of ?b] by (simp add: good_def steady_def open_with_config_def Let_def read_graph_def all_ids_set)
  then show ?thesis by blast
qed

section \<open>Any sequence of operations\<close>

text \<open>The operations of the facade that write to the store or to the graph, recalls with their traces, and closing and opening again.\<close>

datatype FacadeOp =
  Do_Store MemoryNode | Do_StoreWithSource MemoryNode MemorySource | Do_StoreBatch "MemoryNode list" | Do_Relate MemoryEdge
| Do_Invalidate MemoryId Timestamp | Do_Consolidate "MemoryId list" | Do_Correct CorrectionRequest | Do_Enrich EnrichmentRequest
| Do_Forget ForgetScope ForgetMode | Do_Decay | Do_Archive
| Do_Recall Embedding "string option" nat Timestamp "string list option" bool "(Timestamp \<times> Timestamp) option"
| Do_SetEmbedder EmbeddingProvider | Do_Reopen CognitiveConfig Saved

fun facade_step :: "Ports \<Rightarrow> FacadeOp \<Rightarrow> MenteDb \<Rightarrow> MenteDb" where
  "facade_step P (Do_Store m) s = snd (mentedb_store P m s)"
| "facade_step P (Do_StoreWithSource m src) s = snd (store_with_source P m src s)"
| "facade_step P (Do_StoreBatch ms) s = snd (store_batch P ms s)"
| "facade_step P (Do_Relate e) s = snd (relate P e s)"
| "facade_step P (Do_Invalidate i t) s = snd (invalidate_memory P i t s)"
| "facade_step P (Do_Consolidate ids) s = snd (consolidate_cluster P ids s)"
| "facade_step P (Do_Correct q) s = snd (correction_policy P q s)"
| "facade_step P (Do_Enrich q) s = snd (enrichment_policy P q s)"
| "facade_step P (Do_Forget scope mode) s = snd (forget_policy P scope mode s)"
| "facade_step P Do_Decay s = snd (apply_decay_policy_global P s)"
| "facade_step P Do_Archive s = snd (apply_archive_policy_global P s)"
| "facade_step P (Do_Recall e qt k now tags any_tag tr) s = snd (recall_hybrid_at_mode P e qt k now tags any_tag tr s)"
| "facade_step P (Do_SetEmbedder e) s = set_embedder P e s"
| "facade_step P (Do_Reopen cfg saved) s = open_with_config P cfg (Some (bk_tables (md_db s))) saved"

lemma mirrors_step: "mirrors m \<Longrightarrow> good S S s \<Longrightarrow> \<exists>T. good T T (snd (m s))"
  unfolding mirrors_def by blast

lemma facade_step_good:
  assumes "good S S s"
  shows "\<exists>T. good T T (facade_step P w s)"
proof (cases w)
  case (Do_SetEmbedder e)
  have "good S S (set_embedder P e s)"
    using assms steady_steps(8)[of S "md_db s" "po_env P" "ep_dimensions e"] ensure_index_ids[of "po_env P" "md_db s" "ep_dimensions e"]
    by (auto simp: good_def set_embedder_def dest: steadyD)
  then show ?thesis using Do_SetEmbedder by auto
next
  case (Do_Reopen cfg saved)
  then show ?thesis using assms backend_open_again good_open by (auto simp: good_def steady_def)
next
  case (Do_Recall e qt k now tags any_tag tr)
  then show ?thesis using recall_good[OF assms, of P e qt k now tags any_tag tr] by auto
qed (use assms mirrors_step[OF mirrors_grows[OF grows_mentedb_store]] mirrors_step[OF mirrors_grows[OF grows_store_with_source]]
    mirrors_step[OF mirrors_grows[OF grows_store_batch]] mirrors_step[OF mirrors_triple[OF triple_relate]]
    mirrors_step[OF mirrors_triple[OF triple_invalidate]] mirrors_step[OF mirrors_consolidate] mirrors_step[OF mirrors_triple[OF triple_correction]]
    mirrors_step[OF mirrors_triple[OF triple_enrichment]] mirrors_step[OF mirrors_forget] mirrors_step[OF mirrors_triple[OF triple_decay]]
    mirrors_step[OF mirrors_triple[OF triple_archive]] in \<open>auto\<close>)

text \<open>C6: The two halves of the database agree: after any sequence of facade operations on a new database, failed ones included, and
  after closing and opening it again, the nodes of the graph in memory are exactly the stored memories, the vector table holds
  exactly the vectors of the memories that have the dimension of the index, and no foreign key of the schema dangles.\<close>

theorem facade_mirrors_store:
  "let s = fold (facade_step P) ops (open_with_config P cfg None saved) in
    graph_nodes (read_graph (md_graph s)) = set (memory_ids s) \<and> backend_ok (md_db s) \<and> integrity (bk_tables (md_db s))"
proof -
  have "\<exists>T. good T T s \<Longrightarrow> \<exists>T. good T T (fold (facade_step P) ops s)" for s
    by (induction ops arbitrary: s) (use facade_step_good in auto)
  then obtain T where "good T T (fold (facade_step P) ops (open_with_config P cfg None saved))"
    using good_open[of None P cfg saved] by auto
  then show ?thesis by (simp add: good_def steady_def memory_ids_def all_ids_set Let_def)
qed

section \<open>Forgetting a memory\<close>

lemma delete_claim_edges [simp]: "t_edges (delete_claim_row i t) = t_edges t" "t_edges (delete_entity_row j t) = t_edges t"
  "t_edges (delete_relationship_rows P t) = t_edges t"
  by (simp_all add: delete_claim_row_def delete_entity_row_def delete_relationship_rows_def Let_def)

lemma fold_edges: "(\<And>x t. t_edges (f x t) = t_edges t) \<Longrightarrow> t_edges (fold f xs t) = t_edges t"
  by (induction xs arbitrary: t) auto

lemma delete_memory_edges:
  "mid \<in> id_set t \<Longrightarrow> t_edges (snd (delete_memory_on env mid t)) = filter (\<lambda>e. me_source e \<noteq> mid \<and> me_target e \<noteq> mid) (t_edges t)"
  by (cases "row_of mr_id mid (t_memories t)")
    (auto simp: id_set_def row_of_None_iff delete_memory_on_def Let_def delete_memory_row_def delete_source_rows_def delete_vector_def)

lemma then_do_Ok: "then_do m f s = (Ok y, s') \<longleftrightarrow> (\<exists>x t. m s = (Ok x, t) \<and> f x t = (Ok y, s'))"
  by (auto simp: then_do_def split: prod.splits outcome.splits)

text \<open>Steps that only take from the clock and the random source.\<close>

definition frames :: "'a Db \<Rightarrow> bool" where
  "frames m \<longleftrightarrow> (\<forall>s. md_db (snd (m s)) = md_db s \<and> md_graph (snd (m s)) = md_graph s)"

lemma framesD: "frames m \<Longrightarrow> m s = (r, t) \<Longrightarrow> md_db t = md_db s \<and> md_graph t = md_graph s"
  unfolding frames_def by (metis snd_conv)

lemma frames_steps:
  "frames (give x)" "frames draw" "frames (current_time_us P)" "frames (draws g xs)" "frames (completion_time P plan)"
  "frames (forget_lifecycle_events P plan mode now)"
  by (auto simp: frames_def draws_def completion_time_def forget_lifecycle_events_def db_defs Let_def split: option.split)

lemma forget_plan_memory:
  assumes "build_forget_plan P (ScopeMemory i) Hard True s = (Ok plan, s')"
  shows "af_memory_ids (pp_affected plan) = [i] \<and> md_db s' = md_db s \<and> md_graph s' = md_graph s"
  using assms by (auto simp: build_forget_plan_def new_run_def draws_def db_defs Let_def normalize_affected_def sort_dedup_def
      collect_memory_forget_closure_def affected_none_def)

lemma forget_reaches_store:
  assumes "mentedb_forget P i s = (Ok (), s')"
  obtains mu where "fm_memory_ids mu = [i]" "fm_hard_delete mu" "fst (apply_forget_policy (po_env P) (po_json P) (md_db s) mu) = Ok ()"
    "md_db s' = snd (apply_forget_policy (po_env P) (po_json P) (md_db s) mu)" "md_graph s' = remove_memory (md_graph s) i"
proof -
  from assms obtain plan now events s1 s2 s3 s4 where steps: "build_forget_plan P (ScopeMemory i) Hard True s = (Ok plan, s1)"
    "completion_time P plan s1 = (Ok now, s2)" "forget_lifecycle_events P plan Hard now s2 = (Ok events, s3)"
    and written: "on_db (\<lambda>b. apply_forget_policy (po_env P) (po_json P) b \<lparr> fm_run = pp_run plan, fm_actions = pp_actions plan,
         fm_memory_ids = af_memory_ids (pp_affected plan), fm_claim_ids = af_claim_ids (pp_affected plan),
         fm_relationship_ids = af_relationship_ids (pp_affected plan), fm_entity_ids = af_entity_ids (pp_affected plan),
         fm_lifecycle_events = events, fm_hard_delete = True, fm_applied_at = now \<rparr>) s3 = (Ok (), s4)"
    and removed: "each (\<lambda>i. on_graph (\<lambda>g. (Ok (), remove_memory g i))) (af_memory_ids (pp_affected plan)) s4 = (Ok (), s')"
    unfolding mentedb_forget_def forget_policy_def by (auto simp: then_do_Ok give_def)
  note p = forget_plan_memory[OF steps(1)] framesD[OF frames_steps(5) steps(2)] framesD[OF frames_steps(6) steps(3)]
  show ?thesis
    by (rule that[where mu = "\<lparr> fm_run = pp_run plan, fm_actions = pp_actions plan,
         fm_memory_ids = af_memory_ids (pp_affected plan), fm_claim_ids = af_claim_ids (pp_affected plan),
         fm_relationship_ids = af_relationship_ids (pp_affected plan), fm_entity_ids = af_entity_ids (pp_affected plan),
         fm_lifecycle_events = events, fm_hard_delete = True, fm_applied_at = now \<rparr>"])
      (use p written removed in \<open>auto simp: on_db_def on_graph_def then_do_def give_def split: prod.splits\<close>)
qed

lemma forgotten_edges:
  assumes "fm_memory_ids mu = [i]" "fm_hard_delete mu" "fst (apply_forget_policy env json (md_db s) mu) = Ok ()" "i \<in> set (memory_ids s)"
  shows "\<forall>e \<in> set (t_edges (bk_tables (snd (apply_forget_policy env json (md_db s) mu)))). me_source e \<noteq> i \<and> me_target e \<noteq> i"
proof -
  obtain t where t: "id_set t = id_set (bk_tables (md_db s))"
    "t_edges (bk_tables (snd (apply_forget_policy env json (md_db s) mu))) = t_edges (forget_hard env mu t)"
    using assms(2,3) unfolding apply_forget_policy_def transact_unit_def transact_def
    by (auto simp: bindO_eq_Ok split: outcome.splits dest!: for_each_keeps_core[THEN id_set_core] core_outcomes(3)[THEN id_set_core])
  let ?t = "fold delete_claim_row (fm_claim_ids mu) (fold (\<lambda>j. delete_relationship_rows (\<lambda>r. rl_relationship_id r = j)) (fm_relationship_ids mu) t)"
  have "i \<in> id_set ?t" using assms(4) t(1) by (simp add: memory_ids_def all_ids_set id_set_core[OF fold_keeps_core])
  from delete_memory_edges[OF this, of env] show ?thesis unfolding t(2) by (simp add: forget_hard_def assms(1) fold_edges)
qed

lemma recall_stored:
  assumes "engine_ok (po_engine P)" "get_memory (po_codec P) (md_db s) i = None"
  shows "i \<notin> fst ` set (fst (recall_hybrid_at_mode P embedding query_text k now tags tags_or time_range s))"
proof -
  obtain ranked b where "fst ` set ranked \<subseteq> set (all_memory_ids (md_db s))"
    "fst (recall_hybrid_at_mode P embedding query_text k now tags tags_or time_range s)
      = take k (filter (\<lambda>(i, _). recallable (po_codec P) b tags now i) (filter (\<lambda>(i, _). \<not> has_active_supersede (md_graph s) now i) ranked))"
    using recall_results[OF assms(1) surjective_pairing] by metis
  moreover have "i \<notin> set (all_memory_ids (md_db s))" using get_memory_known[of "po_codec P" "md_db s" i] assms(2) by simp
  ultimately show ?thesis by (auto simp: image_subset_iff dest!: in_set_takeD)
qed

text \<open>C8: Forgetting is complete: when \<open>forget\<close> of a stored memory succeeds, the memory cannot be read, the graph has no node for it, no stored edge
  starts or ends at it, every other memory is still there, and no recall, whatever its query, returns it.\<close>

theorem forget_erases:
  assumes "engine_ok (po_engine P)" "i \<in> set (memory_ids s)" "mentedb_forget P i s = (Ok (), s')"
  shows "get_memory (po_codec P) (md_db s') i = None \<and> i \<notin> graph_nodes (read_graph (md_graph s'))
    \<and> (\<forall>e \<in> set (t_edges (bk_tables (md_db s'))). me_source e \<noteq> i \<and> me_target e \<noteq> i)
    \<and> set (memory_ids s') = set (memory_ids s) - {i}
    \<and> (\<forall>embedding query_text k now tags tags_or time_range.
        i \<notin> fst ` set (fst (recall_hybrid_at_mode P embedding query_text k now tags tags_or time_range s')))"
proof -
  obtain mu where mu: "fm_memory_ids mu = [i]" "fm_hard_delete mu" "fst (apply_forget_policy (po_env P) (po_json P) (md_db s) mu) = Ok ()"
    "md_db s' = snd (apply_forget_policy (po_env P) (po_json P) (md_db s) mu)" "md_graph s' = remove_memory (md_graph s) i"
    using forget_reaches_store[OF assms(3)] by blast
  have ids: "id_set (bk_tables (md_db s')) = id_set (bk_tables (md_db s)) - {i}"
    using forget_policy_ids[of "po_env P" "po_json P" "md_db s" mu] mu by simp
  then have none: "get_memory (po_codec P) (md_db s') i = None"
    using get_memory_known[of "po_codec P" "md_db s'" i] by (cases "get_memory (po_codec P) (md_db s') i") (auto simp: all_ids_set)
  moreover have "\<forall>e \<in> set (t_edges (bk_tables (md_db s'))). me_source e \<noteq> i \<and> me_target e \<noteq> i"
    using mu(1,2,3) assms(2) unfolding mu(4) by (rule forgotten_edges)
  moreover have "i \<notin> fst ` set (fst (recall_hybrid_at_mode P embedding query_text k now tags tags_or time_range s'))"
    for embedding query_text k now tags tags_or time_range
    using recall_stored[OF assms(1) none] .
  ultimately show ?thesis using ids mu(5) by (simp add: memory_ids_def all_ids_set read_graph_def)
qed

lemma sample_tables:
  "claims_for_memory sample_store i = []" "relationships_for_memory sample_store i = []"
  "t_lifecycle_events (bk_tables sample_store) = []" "t_policy_runs (bk_tables sample_store) = []" "t_policy_actions (bk_tables sample_store) = []"
  by (simp_all add: claims_for_memory_def relationships_for_memory_def sample_store_def init_tables_def)

lemma sample_parts: "md_db sample_facade = sample_store" "md_draws sample_facade = 1"
  by (simp_all add: sample_facade_def open_with_config_def Let_def)

lemma sample_not_blank:
  "\<not> Sqlite_Store.blank ''xx''" "\<not> Sqlite_Store.blank ''xxxx''" "\<not> Sqlite_Store.blank ''xxxxx''" "\<not> Sqlite_Store.blank ''memory''"
  "\<not> Sqlite_Store.blank ''forget''" "\<not> Sqlite_Store.blank ''v1''" "\<not> Sqlite_Store.blank ''hard''" "\<not> Sqlite_Store.blank ''applied''"
  "\<not> Sqlite_Store.blank ''forget_memory''" "\<not> Sqlite_Store.blank ''forgotten''"
  by code_simp+

lemma sample_forget: "fst (mentedb_forget sample_ports (MemoryId 1) sample_facade) = Ok ()"
  by (simp add: mentedb_forget_def forget_policy_def build_forget_plan_def completion_time_def forget_lifecycle_events_def new_run_def draws_def db_defs
      normalize_affected_def sort_dedup_def collect_memory_forget_closure_def affected_none_def sample_tables sample_parts forget_actions_for_def
      sample_ports_def Let_def policy_run_new_def policy_action_def policy_action_new_def action_text_def lifecycle_event_def lifecycle_event_new_def
      apply_forget_policy_def transact_unit_def transact_def upsert_policy_run_on_def validate_policy_run_def insert_policy_action_on_def
      validate_policy_action_def insert_memory_lifecycle_event_on_def validate_lifecycle_event_def validate_json_object_def sample_not_blank
      numeral_eq_Suc upsert_def)

theorem forget_erases_witness:
  "get_memory sample_codec sample_store (MemoryId 1) \<noteq> None
   \<and> get_memory sample_codec (md_db (snd (mentedb_forget sample_ports (MemoryId 1) sample_facade))) (MemoryId 1) = None"
proof -
  have known: "MemoryId 1 \<in> set (memory_ids sample_facade)"
    by (simp add: memory_ids_def sample_parts all_memory_ids_def sample_store_def memory_row_def Sqlite_Store.sample_memory_def memory_node_new_def)
  moreover have "mentedb_forget sample_ports (MemoryId 1) sample_facade = (Ok (), snd (mentedb_forget sample_ports (MemoryId 1) sample_facade))"
    using sample_forget by (metis prod.collapse)
  moreover have "engine_ok (po_engine sample_ports)" "po_codec sample_ports = sample_codec" by (simp_all add: sample_ports_def sample_engine_ok)
  moreover have "get_memory sample_codec sample_store (MemoryId 1) \<noteq> None"
    using known get_memory_known[of sample_codec sample_store "MemoryId 1"] by (auto simp: memory_ids_def sample_parts)
  ultimately show ?thesis using forget_erases[of sample_ports "MemoryId 1" sample_facade] by simp
qed

end
