(* ===== verification/Facade_Query.thy ===== *)
theory Facade_Query
  imports Facade_Mirror Mql_Planner Context_Assembler
begin

text \<open>
  Queries in MQL through the facade (\<open>recall\<close>, \<open>execute_plan\<close> and \<open>load_scored_memories\<close> of \<open>mentedb/src/lib.rs\<close>): the text is
  parsed into a plan, the plan is executed on the store and the graph, and the memories found are packed into a context window.
\<close>

definition blended_score :: "Ports \<Rightarrow> CognitiveConfig \<Rightarrow> Timestamp \<Rightarrow> MemoryNode \<Rightarrow> f32 \<Rightarrow> f32 MenteResult" where
  "blended_score P cfg now m score = (if cf_decay_on_recall cfg
     then bindO (compute_decay (po_exp2 P) (po_logn P) (cf_decay_config cfg) (mn_salience m) (mn_created_at m) (mn_accessed_at m)
         (mn_access_count m) now) (\<lambda>decayed.
       Ok (fl_add f32_of (fl_mul f32_of score (f32_of (7/10))) (fl_mul f32_of decayed (f32_of (3/10)))))
     else Ok score)"

definition scored_before :: "ScoredMemory \<Rightarrow> ScoredMemory \<Rightarrow> bool" where
  "scored_before a b \<longleftrightarrow> fl_lt (sm_score b) (sm_score a)"

definition if_decay_now :: "Ports \<Rightarrow> Timestamp Db" where
  "if_decay_now P = then_do (read_config cf_decay_on_recall) (\<lambda>decay. if decay then current_time_us P else give 0)"

text \<open>
  A hit whose memory is gone is passed over. The blended scores are sorted by an unstable sort: memories of equal scores may
  come in any order, here in the order of the hits.
\<close>

definition load_scored_memories :: "Ports \<Rightarrow> (MemoryId \<times> f32) list \<Rightarrow> ScoredMemory list Db" where
  "load_scored_memories P hits = then_do (if_decay_now P) (\<lambda>now s.
     (bindO (gather (\<lambda>(i, score). case get_memory (po_codec P) (md_db s) i of
          None \<Rightarrow> Ok None
        | Some m \<Rightarrow> bindO (blended_score P (md_config s) now m score) (\<lambda>final. Ok (Some \<lparr> sm_memory = m, sm_score = final \<rparr>))) hits) (\<lambda>scored.
      Ok (if cf_decay_on_recall (md_config s) then sort_by scored_before scored else scored)), s))"

definition plan_search :: "Ports \<Rightarrow> Embedding \<Rightarrow> string list option \<Rightarrow> (Timestamp \<times> Timestamp) option \<Rightarrow> nat \<Rightarrow> ScoredMemory list Db" where
  "plan_search P query tags time_range k = then_do draw (\<lambda>n.
     then_do (on_db (\<lambda>b. case hybrid_search (po_engine P) (po_uuid P n) (po_clock P n) b query tags time_range k of (hits, b) \<Rightarrow> (Ok hits, b)))
       (load_scored_memories P))"

fun execute_plan :: "Ports \<Rightarrow> QueryPlan \<Rightarrow> ScoredMemory list Db" where
  "execute_plan P (VectorSearch query k _) = plan_search P query None None k"
| "execute_plan P (TagScan tags _ limit) = plan_search P [] (Some tags) None (case limit of Some k \<Rightarrow> k | None \<Rightarrow> 10)"
| "execute_plan P (TemporalScan start stop _) = plan_search P [] None (Some (start, stop)) 100"
| "execute_plan P (GraphTraversal start depth _) = (\<lambda>s.
     (Ok (List.map_filter (\<lambda>i. map_option (\<lambda>m. \<lparr> sm_memory = m, sm_score = Fin 1 \<rparr>) (get_memory (po_codec P) (md_db s) i))
       (fst (get_context_subgraph (md_graph s) start depth))), s))"
| "execute_plan P (PointLookup i) = then_do (mentedb_get_memory P i) (\<lambda>m. give [\<lparr> sm_memory = m, sm_score = Fin 1 \<rparr>])"
| "execute_plan P _ = give []"

definition mentedb_recall :: "Ports \<Rightarrow> string \<Rightarrow> ContextWindow Db" where
  "mentedb_recall P query =
     then_do (lift (mql_parse (po_uuid_parse P) query)) (\<lambda>plan.
     then_do (execute_plan P plan) (\<lambda>scored.
     lift (assemble (po_show P) scored [] assembly_default)))"

section \<open>What a query returns\<close>

lemma assemble_selects:
  assumes "assemble id_show memories edges cfg = Ok w"
  shows "set (window_memories w) \<subseteq> set memories" "cw_total_tokens w \<le> token_budget cfg"
proof -
  obtain inc b where tf: "take_fitting (sort_by score_before memories) (budget_new (token_budget cfg)) [] = (inc, b)"
    by fastforce
  have w: "cw_blocks w = arrange zone_thresholds_default inc" "cw_total_tokens w = used_tokens b"
    using assms unfolding assemble_def tf by (auto simp: Let_def bindO_eq_Ok)
  have b0: "used_tokens (budget_new (token_budget cfg)) \<le> max_tokens (budget_new (token_budget cfg))"
    by (simp add: budget_new_def)
  note aw = assembled_window[OF tf b0 w, simplified budget_new_def, simplified]
  show "set (window_memories w) \<subseteq> set memories" using aw(4) by (metis Un_upper1 set_mset_mset set_mset_union)
  show "cw_total_tokens w \<le> token_budget cfg" by (rule aw(3))
qed

definition all_stored :: "Ports \<Rightarrow> Backend \<Rightarrow> ScoredMemory list \<Rightarrow> bool" where
  "all_stored P b sms \<longleftrightarrow> (\<forall>sm \<in> set sms. get_memory (po_codec P) b (mn_id (sm_memory sm)) = Some (sm_memory sm))"

lemma get_memory_id: "get_memory codec b i = Some m \<Longrightarrow> mn_id m = i"
  by (auto simp: get_memory_def node_of_row_def dest!: row_of_Some)

lemma load_stored:
  assumes "load_scored_memories P hits s = (Ok scored, s')"
  shows "all_stored P (md_db s) scored"
proof -
  obtain xs cfg now where "set scored = set xs" "gather (\<lambda>(i, score). case get_memory (po_codec P) (md_db s) i of
          None \<Rightarrow> Ok None
        | Some m \<Rightarrow> bindO (blended_score P cfg now m score) (\<lambda>final. Ok (Some \<lparr> sm_memory = m, sm_score = final \<rparr>))) hits = Ok xs"
    using assms by (auto simp: load_scored_memories_def if_decay_now_def then_do_Ok db_defs bindO_eq_Ok split: if_splits)
  then show ?thesis unfolding all_stored_def
    by (auto dest!: gather_elem simp: bindO_eq_Ok get_memory_id split: option.splits)
qed

lemma search_get_memory:
  "get_memory codec (snd (hybrid_search_with_query_mode eng tid now b q qt tags any tr k)) i = get_memory codec b i"
  by (rule get_memory_cong) (simp_all add: search_memories)

lemma plan_search_stored:
  assumes "plan_search P query tags time_range k s = (Ok scored, s')"
  shows "all_stored P (md_db s) scored"
proof -
  obtain n hits b where "hybrid_search (po_engine P) (po_uuid P n) (po_clock P n) (md_db s) query tags time_range k = (hits, b)"
    "load_scored_memories P hits (s\<lparr>md_draws := Suc (md_draws s), md_db := b\<rparr>) = (Ok scored, s')"
    using assms by (auto simp: plan_search_def then_do_Ok on_db_def draw_def split: prod.splits)
  then have "all_stored P b scored" "\<And>i. get_memory (po_codec P) b i = get_memory (po_codec P) (md_db s) i"
    using load_stored[of P hits "s\<lparr>md_draws := Suc (md_draws s), md_db := b\<rparr>"] search_get_memory[of "po_codec P" "po_engine P" "po_uuid P n" "po_clock P n" "md_db s" query None tags False time_range k]
    by (auto simp: hybrid_search_def)
  then show ?thesis by (simp add: all_stored_def)
qed

lemma execute_plan_stored: "execute_plan P plan s = (Ok scored, s') \<Longrightarrow> all_stored P (md_db s) scored"
proof (cases plan)
  case (GraphTraversal start depth types)
  then show "execute_plan P plan s = (Ok scored, s') \<Longrightarrow> all_stored P (md_db s) scored"
    by (auto simp: all_stored_def get_memory_id dest!: map_filterD)
next
  case (PointLookup i)
  then show "execute_plan P plan s = (Ok scored, s') \<Longrightarrow> all_stored P (md_db s) scored"
    by (auto simp: all_stored_def then_do_Ok mentedb_get_memory_def give_def get_memory_id split: option.splits)
qed (auto simp: all_stored_def[of P _ "[]"] give_def intro: plan_search_stored)

text \<open>C9: A query in MQL never invents a memory: whatever its text, when recall returns a window, every memory in it is stored exactly
  as the window shows it, and the window stays within the budget of 4096 tokens.\<close>

theorem mql_recall_sound:
  assumes "mentedb_recall P query s = (Ok w, s')"
  shows "(\<forall>sm \<in> set (window_memories w). get_memory (po_codec P) (md_db s) (mn_id (sm_memory sm)) = Some (sm_memory sm))
    \<and> cw_total_tokens w \<le> 4096"
proof -
  obtain plan scored t where "execute_plan P plan s = (Ok scored, t)" "assemble (po_show P) scored [] assembly_default = Ok w"
    using assms by (auto simp: mentedb_recall_def then_do_Ok lift_def)
  then show ?thesis using execute_plan_stored assemble_selects[of "po_show P" scored "[]" assembly_default w]
    by (auto simp: all_stored_def assembly_default_def)
qed

text \<open>
  A query by tags or by time never finds anything: its search passes an empty embedding, for which the store returns nothing.
\<close>

lemma load_nothing: "\<exists>s'. load_scored_memories P [] s = (Ok [], s')"
proof (cases "cf_decay_on_recall (md_config s)")
  case True
  then show ?thesis by (simp add: load_scored_memories_def if_decay_now_def db_defs)
next
  case False
  then show ?thesis by (simp add: load_scored_memories_def if_decay_now_def db_defs)
qed

lemma tag_and_time_queries_empty:
  assumes "plan = TagScan tags filters limit \<or> plan = TemporalScan start stop filters"
  shows "\<exists>s'. execute_plan P plan s = (Ok [], s')"
proof -
  have "plan_search P [] tags' range' k s = load_scored_memories P [] (s\<lparr>md_draws := Suc (md_draws s)\<rparr>)" for tags' range' k
    by (simp add: plan_search_def then_do_def draw_def on_db_def search_without_vector)
  then have "\<exists>s'. plan_search P [] tags' range' k s = (Ok [], s')" for tags' range' k by (simp only: load_nothing)
  then show ?thesis using assms by (elim disjE) simp_all
qed

definition traverse_query :: string where
  "traverse_query = ''TRAVERSE '' @ in_quotes ''1'' @ '' DEPTH 1''"

lemma traverse_query_plan: "mql_parse decimal_parse traverse_query = Ok (GraphTraversal (MemoryId 1) 1 [])"
proof -
  have "parse_digits ''1'' = Some 1" by code_simp
  then have u: "parse_usize ''1'' = Some 1" by (simp add: parse_usize_def)
  have q: "strip_quotes (in_quotes ''1'') = Ok ''1''" "decimal_parse ''1'' = Some 1" by code_simp+
  have "tokenize traverse_query = Ok [mk_token T_Traverse ''TRAVERSE'' 0, mk_token T_StringLit (in_quotes ''1'') 9,
      mk_token T_Depth ''DEPTH'' 13, mk_token T_IntegerLit ''1'' 19, mk_token T_Eof [] 20]" by code_simp
  then show ?thesis
    by (simp add: mql_parse_def mql_parser_parse_def parse_statement_def peek_def mk_token_def parse_traverse_def advance_def
        parse_uuid_def q u expect_def parse_count_def opt_clause_def at_kind_def plan_traverse_def)
qed

lemma sample_traversal: "fst (get_context_subgraph (add_memory gm_new (MemoryId 1)) (MemoryId 1) 1) = [MemoryId 1]"
  by (simp add: get_context_subgraph_def extract_subgraph_def bfs_def get_idx_def add_memory_def gm_new_def add_node_def graph_new_def
      Let_def outgoing_def outgoing_by_idx_def neighbors_def edge_data_for_def cs_default_def)

theorem mql_recall_sound_witness:
  "\<exists>w sm. fst (mentedb_recall (sample_ports\<lparr>po_uuid_parse := decimal_parse\<rparr>) traverse_query sample_facade) = Ok w
     \<and> window_memories w = [sm] \<and> get_memory sample_codec sample_store (MemoryId 1) = Some (sm_memory sm)"
proof -
  let ?P = "sample_ports\<lparr>po_uuid_parse := decimal_parse\<rparr>"
  obtain m where m: "get_memory sample_codec sample_store (MemoryId 1) = Some m" "mn_content m = ''tea''" "mn_id m = MemoryId 1"
    by (simp add: get_memory_def row_of_def sample_store_def init_tables_def memory_row_def Sqlite_Store.sample_memory_def memory_node_new_def
        node_of_row_def)
  define sm where "sm = \<lparr>sm_memory = m, sm_score = Fin 1\<rparr>"
  have plan: "execute_plan ?P (GraphTraversal (MemoryId 1) 1 []) sample_facade = (Ok [sm], sample_facade)"
    using m(1) sample_traversal by (simp add: sm_def sample_parts sample_facade_def sample_ports_def List.map_filter_simps)
  have "edge_section id_show [] assembly_default = Ok []" for id_show by (simp add: edge_section_def assembly_default_def)
  then obtain w where w: "assemble (po_show ?P) [sm] [] assembly_default = Ok w"
    by (simp add: assemble_def Let_def case_prod_unfold)
  have "word_count ''tea'' = 1" "fl_ceil (fl_mul f64_of (f64_of (of_int 1)) (f64_of (13/10))) = Fin 2" by code_simp+
  then have "estimate_tokens ''tea'' \<le> 4096" by (simp add: estimate_tokens_def)
  then have "window_memories w = [sm]"
    using window_of_fitting[OF w] m(2) by (simp add: can_fit_def budget_new_def budget_remaining_def assembly_default_def content_of_def sm_def)
  moreover have r: "mentedb_recall ?P traverse_query sample_facade = (Ok w, sample_facade)"
    using w plan by (simp add: mentedb_recall_def then_do_def lift_def traverse_query_plan)
  ultimately show ?thesis
    using mql_recall_sound[OF r] m(3) by (auto simp: sample_parts sample_ports_def sm_def)
qed

end
