(* ===== verification/Facade_Engines.thy ===== *)
theory Facade_Engines
  imports Facade_Query Cognitive_Interference Consolidation_Text
begin

text \<open>
  The engines behind the facade (\<open>mentedb/src/lib.rs\<close>): each method locks one engine, is switched off by its flag of the
  configuration, and leaves the store and the graph alone; and the accessors of the knowledge tables of the store.
\<close>

section \<open>Steps on one part of the state\<close>

definition modify :: "(MenteDb \<Rightarrow> MenteDb) \<Rightarrow> unit Db" where
  "modify f s = (Ok (), f s)"

definition observe :: "(MenteDb \<Rightarrow> 'a) \<Rightarrow> 'a Db" where
  "observe f s = (Ok (f s), s)"

section \<open>Pain\<close>

definition mentedb_record_pain :: "PainSignal \<Rightarrow> unit Db" where
  "mentedb_record_pain signal = modify (\<lambda>s. if cf_pain_tracking (md_config s) then s\<lparr>md_pain := record_pain (md_pain s) signal\<rparr> else s)"

definition get_pain_warnings :: "Ports \<Rightarrow> string list \<Rightarrow> PainSignal list Db" where
  "get_pain_warnings P context_keywords = observe (\<lambda>s. if \<not> cf_pain_tracking (md_config s) then []
     else get_pain_for_context (po_lower P) (md_pain s) context_keywords)"

definition mentedb_format_pain_warnings :: "PainSignal list \<Rightarrow> string Db" where
  "mentedb_format_pain_warnings signals = observe (\<lambda>s. format_pain_warnings (md_pain s) signals)"

definition decay_pain :: "Ports \<Rightarrow> unit Db" where
  "decay_pain P = then_do (current_time_us P) (\<lambda>now. modify (\<lambda>s. s\<lparr>md_pain := decay_all (po_expo P) (md_pain s) now\<rparr>))"

definition all_pain_signals :: "PainSignal list Db" where
  "all_pain_signals = observe (\<lambda>s. all_signals (md_pain s))"

section \<open>Trajectory\<close>

text \<open>A panic inside the tracker happens under its write lock, before the state is written back.\<close>

definition record_trajectory_turn :: "Ports \<Rightarrow> TrajectoryNode \<Rightarrow> unit Db" where
  "record_trajectory_turn P turn s = (case record_turn (po_lower P) (md_trajectory s) turn of
     Ok t \<Rightarrow> (Ok (), s\<lparr>md_trajectory := t\<rparr>) | Err e \<Rightarrow> (Err e, s) | Panic \<Rightarrow> (Panic, s))"

definition mentedb_get_resume_context :: "string option Db" where
  "mentedb_get_resume_context = observe (\<lambda>s. get_resume_context (md_trajectory s))"

definition mentedb_predict_next_topics :: "Ports \<Rightarrow> string list Db" where
  "mentedb_predict_next_topics P = observe (\<lambda>s. predict_next_topics (po_lower P) (po_targets_order P) (md_trajectory s))"

definition get_trajectory :: "TrajectoryNode list Db" where
  "get_trajectory = observe (\<lambda>s. tt_trajectory (md_trajectory s))"

definition mentedb_reinforce_transition :: "Ports \<Rightarrow> string \<Rightarrow> unit Db" where
  "mentedb_reinforce_transition P hit_topic = modify (\<lambda>s. s\<lparr>md_trajectory := reinforce_transition (po_lower P) (md_trajectory s) hit_topic\<rparr>)"

section \<open>Token stream\<close>

definition feed_stream_token :: "string \<Rightarrow> unit Db" where
  "feed_stream_token token = modify (\<lambda>s. s\<lparr>md_stream := feed_token (md_stream s) token\<rparr>)"

definition check_stream_alerts :: "Ports \<Rightarrow> (MemoryId \<times> string) list \<Rightarrow> StreamAlert list Db" where
  "check_stream_alerts P known_facts = observe (\<lambda>s. check_alerts (po_lower P) (md_stream s) known_facts)"

definition drain_stream_buffer :: "string Db" where
  "drain_stream_buffer s = (case drain_buffer (md_stream s) of (txt, st) \<Rightarrow> (Ok txt, s\<lparr>md_stream := st\<rparr>))"

section \<open>Phantoms\<close>

definition detect_phantoms :: "Ports \<Rightarrow> string \<Rightarrow> string list \<Rightarrow> nat \<Rightarrow> PhantomMemory list Db" where
  "detect_phantoms P content known turn_id s =
     (if \<not> cf_phantom_tracking (md_config s) then (Ok [], s)
      else case detect_gaps (po_alnum P) (po_upper P) (po_lower P) (\<lambda>i. po_fresh P (md_draws s + i)) (po_clock P (md_draws s))
          (md_phantom s) content known turn_id of
        (found, t) \<Rightarrow> (Ok found, s\<lparr>md_phantom := t, md_draws := md_draws s + length found + 1\<rparr>))"

definition mentedb_resolve_phantom :: "MemoryId \<Rightarrow> unit Db" where
  "mentedb_resolve_phantom i = modify (\<lambda>s. s\<lparr>md_phantom := resolve_phantom (md_phantom s) i\<rparr>)"

definition mentedb_get_active_phantoms :: "PhantomMemory list Db" where
  "mentedb_get_active_phantoms = observe (\<lambda>s. get_active_phantoms (md_phantom s))"

definition mentedb_format_phantom_warnings :: "string Db" where
  "mentedb_format_phantom_warnings = observe (\<lambda>s. format_phantom_warnings (md_phantom s))"

definition mentedb_register_entity :: "string \<Rightarrow> unit Db" where
  "mentedb_register_entity entity = modify (\<lambda>s. s\<lparr>md_phantom := register_entity (md_phantom s) entity\<rparr>)"

definition mentedb_register_entities :: "string list \<Rightarrow> unit Db" where
  "mentedb_register_entities entities = modify (\<lambda>s. s\<lparr>md_phantom := register_entities (md_phantom s) entities\<rparr>)"

section \<open>Speculation\<close>

definition try_speculative_hit :: "Ports \<Rightarrow> string \<Rightarrow> Embedding option \<Rightarrow> CacheEntry option Db" where
  "try_speculative_hit P query query_embedding s =
     (if \<not> cf_speculative_cache (md_config s) then (Ok None, s)
      else case try_hit (po_lower P) (po_clock P (md_draws s)) (md_speculative s) query query_embedding of
        (hit, c) \<Rightarrow> (Ok hit, s\<lparr>md_speculative := c, md_draws := Suc (md_draws s)\<rparr>))"

text \<open>The builder runs inside the cache's lock and may itself search the database; it fails by returning nothing.\<close>

fun assemble_topics :: "Timestamp \<Rightarrow> string list \<Rightarrow> (string \<Rightarrow> (string \<times> MemoryId list \<times> Embedding option) option Db) \<Rightarrow> unit Db" where
  "assemble_topics now [] builder = give ()"
| "assemble_topics now (topic # topics) builder =
     then_do (observe (\<lambda>s. has_topic (md_speculative s) topic)) (\<lambda>known.
     then_do (if known then give None else builder topic) (\<lambda>built.
     then_do (modify (\<lambda>s. s\<lparr>md_speculative := pre_assemble now (md_speculative s) [topic] (\<lambda>_. built)\<rparr>)) (\<lambda>_.
     assemble_topics now topics builder)))"

definition pre_assemble_speculative :: "Ports \<Rightarrow> string list \<Rightarrow> (string \<Rightarrow> (string \<times> MemoryId list \<times> Embedding option) option Db) \<Rightarrow> unit Db" where
  "pre_assemble_speculative P predictions builder = then_do (read_config cf_speculative_cache) (\<lambda>on.
     if on then then_do (current_time_us P) (\<lambda>now. assemble_topics now predictions builder) else give ())"

definition evict_stale_speculative :: "Ports \<Rightarrow> nat \<Rightarrow> unit Db" where
  "evict_stale_speculative P max_age_us = then_do (current_time_us P) (\<lambda>now.
     modify (\<lambda>s. s\<lparr>md_speculative := evict_stale (md_speculative s) max_age_us now\<rparr>))"

definition speculative_cache_stats :: "SpecStats Db" where
  "speculative_cache_stats = observe (\<lambda>s. spec_stats (md_speculative s))"

section \<open>Interference, entities, compression\<close>

definition mentedb_detect_interference :: "MemoryNode list \<Rightarrow> InterferencePair list Db" where
  "mentedb_detect_interference memories = observe (\<lambda>s. if \<not> cf_interference_detection (md_config s) then []
     else detect_interference (cf_interference_threshold (md_config s)) memories)"

definition mentedb_resolve_entity :: "Ports \<Rightarrow> string \<Rightarrow> ResolvedEntity Db" where
  "mentedb_resolve_entity P name = observe (\<lambda>s. resolve (po_lower P) (md_resolver s) name)"

definition mentedb_add_entity_alias :: "Ports \<Rightarrow> string \<Rightarrow> string \<Rightarrow> f32 \<Rightarrow> unit Db" where
  "mentedb_add_entity_alias P alias canonical conf =
     modify (\<lambda>s. s\<lparr>md_resolver := add_alias (po_lower P) (md_resolver s) alias canonical conf\<rparr>)"

definition get_canonical_entity :: "Ports \<Rightarrow> string \<Rightarrow> string option Db" where
  "get_canonical_entity P name = observe (\<lambda>s. entity_canonical (po_lower P) (md_resolver s) name)"

definition mentedb_known_entities :: "string list Db" where
  "mentedb_known_entities = observe (\<lambda>s. known_entities (md_resolver s))"

definition compress_memory :: "Ports \<Rightarrow> MemoryNode \<Rightarrow> CompressedMemory Db" where
  "compress_memory P m = lift (compress (po_lower P) m)"

definition compress_memories :: "Ports \<Rightarrow> MemoryNode list \<Rightarrow> CompressedMemory list Db" where
  "compress_memories P ms = lift (compress_batch (po_lower P) ms)"

section \<open>Decay and archival\<close>

definition apply_decay :: "Ports \<Rightarrow> MemoryNode list \<Rightarrow> MemoryNode list Db" where
  "apply_decay P ms = then_do (current_time_us P) (\<lambda>now. then_do (read_config cf_decay_config) (\<lambda>cfg.
     lift (apply_decay_batch (po_exp2 P) (po_logn P) cfg ms now)))"

definition compute_decayed_salience :: "Ports \<Rightarrow> MemoryNode \<Rightarrow> f32 Db" where
  "compute_decayed_salience P m = then_do (current_time_us P) (\<lambda>now. then_do (read_config cf_decay_config) (\<lambda>cfg.
     lift (compute_decay (po_exp2 P) (po_logn P) cfg (mn_salience m) (mn_created_at m) (mn_accessed_at m) (mn_access_count m) now)))"

definition evaluate_archival :: "Ports \<Rightarrow> MemoryNode \<Rightarrow> ArchivalDecision Db" where
  "evaluate_archival P m = then_do (read_config cf_archival_evaluation) (\<lambda>on.
     if \<not> on then give ArchivalDecision.Keep
     else then_do (current_time_us P) (\<lambda>now. then_do (read_config cf_archival_config) (\<lambda>cfg. give (evaluate cfg m now))))"

definition evaluate_archival_batch :: "Ports \<Rightarrow> MemoryNode list \<Rightarrow> (MemoryId \<times> ArchivalDecision) list Db" where
  "evaluate_archival_batch P ms = then_do (read_config cf_archival_evaluation) (\<lambda>on.
     if \<not> on then give (map (\<lambda>m. (mn_id m, ArchivalDecision.Keep)) ms)
     else then_do (current_time_us P) (\<lambda>now. then_do (read_config cf_archival_config) (\<lambda>cfg. give (evaluate_batch cfg ms now))))"

text \<open>The evaluation of the whole store does not look at the flag.\<close>

definition evaluate_archival_global :: "Ports \<Rightarrow> (MemoryId \<times> ArchivalDecision) list Db" where
  "evaluate_archival_global P = then_do (current_time_us P) (\<lambda>now.
     then_do (read_db (all_memories (po_codec P))) (\<lambda>ms.
     then_do (read_config cf_archival_config) (\<lambda>cfg. give (evaluate_batch cfg ms now))))"

section \<open>Enrichment\<close>

definition needs_enrichment :: "bool Db" where
  "needs_enrichment = observe (\<lambda>s. nc_enabled (cf_enrichment_config (md_config s)) \<and> md_enrichment_pending s)"

definition last_enrichment_turn :: "nat Db" where
  "last_enrichment_turn = observe md_last_enrichment_turn"

definition request_enrichment :: "unit Db" where
  "request_enrichment = modify (\<lambda>s. s\<lparr>md_enrichment_pending := True\<rparr>)"

definition mark_enrichment_complete :: "nat \<Rightarrow> unit Db" where
  "mark_enrichment_complete turn_id = modify (\<lambda>s. s\<lparr>md_last_enrichment_turn := turn_id, md_enrichment_pending := False\<rparr>)"

text \<open>The creation time of a memory, in microseconds, is compared with the number of a turn.\<close>

definition is_candidate :: "nat \<Rightarrow> MemoryNode \<Rightarrow> bool" where
  "is_candidate last_turn m \<longleftrightarrow> mn_memory_type m = Episodic \<and> ''source:enrichment'' \<notin> set (mn_tags m) \<and> last_turn < mn_created_at m"

definition enrichment_candidates :: "Ports \<Rightarrow> MemoryNode list Db" where
  "enrichment_candidates P = observe (\<lambda>s.
     sort_by (\<lambda>a b. mn_created_at a < mn_created_at b) (filter (is_candidate (md_last_enrichment_turn s)) (all_memories (po_codec P) (md_db s))))"

definition enrichment_memory :: "f32 \<Rightarrow> MemoryNode \<Rightarrow> MemoryNode" where
  "enrichment_memory max_conf m = m\<lparr>mn_tags := (if ''source:enrichment'' \<in> set (mn_tags m) then mn_tags m else mn_tags m @ [''source:enrichment'']),
     mn_confidence := (if fl_lt max_conf (mn_confidence m) then max_conf else mn_confidence m)\<rparr>"

text \<open>A step whose error is dropped but counts only when it succeeds: \<open>if self.relate(edge).is_ok() { edges += 1 }\<close>.\<close>

definition succeeds :: "unit Db \<Rightarrow> nat Db" where
  "succeeds m s = (case m s of (Ok _, s') \<Rightarrow> (Ok 1, s') | (Err _, s') \<Rightarrow> (Ok 0, s') | (Panic, s') \<Rightarrow> (Panic, s'))"

fun total_of :: "('a \<Rightarrow> nat Db) \<Rightarrow> 'a list \<Rightarrow> nat Db" where
  "total_of f [] = give 0"
| "total_of f (x # xs) = then_do (f x) (\<lambda>n. then_do (total_of f xs) (\<lambda>k. give (n + k)))"

definition store_enrichment_memory :: "Ports \<Rightarrow> f32 \<Rightarrow> MemoryId list \<Rightarrow> MemoryNode \<Rightarrow> nat Db" where
  "store_enrichment_memory P max_conf source_ids m =
     then_do (mentedb_store P (enrichment_memory max_conf m)) (\<lambda>_.
     then_do (current_time_us P) (\<lambda>now.
     total_of (\<lambda>src. succeeds (relate P (plain_edge (mn_id m) src Derived (f32_of (8/10)) now (Some ''enrichment'')))) source_ids))"

definition store_enrichment_memories :: "Ports \<Rightarrow> MemoryNode list \<Rightarrow> MemoryId list \<Rightarrow> (nat \<times> nat) Db" where
  "store_enrichment_memories P memories source_ids = then_do (read_config (nc_max_enrichment_confidence \<circ> cf_enrichment_config)) (\<lambda>max_conf.
     then_do (total_of (store_enrichment_memory P max_conf source_ids) memories) (\<lambda>edges. give (length memories, edges)))"

section \<open>Writing the knowledge tables\<close>

definition mentedb_add_memory_source :: "Ports \<Rightarrow> MemorySource \<Rightarrow> unit Db" where
  "mentedb_add_memory_source P x = on_db (\<lambda>b. add_memory_source (po_env P) b x)"

definition mentedb_upsert_conversation :: "Ports \<Rightarrow> ConversationRecord \<Rightarrow> unit Db" where
  "mentedb_upsert_conversation P x = on_db (\<lambda>b. upsert_conversation (po_env P) b x)"

definition mentedb_add_conversation_event :: "Ports \<Rightarrow> ConversationEvent \<Rightarrow> unit Db" where
  "mentedb_add_conversation_event P x = on_db (\<lambda>b. add_conversation_event (po_env P) b x)"

definition mentedb_upsert_extraction_run :: "Ports \<Rightarrow> ExtractionRun \<Rightarrow> unit Db" where
  "mentedb_upsert_extraction_run P x = on_db (\<lambda>b. upsert_extraction_run (po_env P) b x)"

definition mentedb_upsert_entity :: "Ports \<Rightarrow> EntityRecord \<Rightarrow> unit Db" where
  "mentedb_upsert_entity P x = on_db (\<lambda>b. upsert_entity (po_env P) b x)"

definition mentedb_link_memory_entity :: "Ports \<Rightarrow> MemoryEntityLink \<Rightarrow> unit Db" where
  "mentedb_link_memory_entity P x = on_db (\<lambda>b. link_memory_entity (po_env P) b x)"

definition mentedb_upsert_claim :: "Ports \<Rightarrow> ClaimRecord \<Rightarrow> unit Db" where
  "mentedb_upsert_claim P x = on_db (\<lambda>b. upsert_claim (po_env P) b x)"

definition upsert_entity_alias :: "Ports \<Rightarrow> EntityAlias \<Rightarrow> unit Db" where
  "upsert_entity_alias P x = on_db (\<lambda>b. add_entity_alias (po_env P) b x)"

definition mentedb_record_lifecycle_event :: "Ports \<Rightarrow> MemoryLifecycleEvent \<Rightarrow> unit Db" where
  "mentedb_record_lifecycle_event P e = on_db (\<lambda>b. record_lifecycle_event (po_env P) (po_json P) b e)"

definition mentedb_set_retrieval_config :: "RetrievalConfig \<Rightarrow> unit Db" where
  "mentedb_set_retrieval_config cfg = modify (\<lambda>s. s\<lparr>md_db := set_retrieval_config (md_db s) cfg\<rparr>)"

definition mentedb_set_retrieval_tracing :: "bool \<Rightarrow> unit Db" where
  "mentedb_set_retrieval_tracing enabled = modify (\<lambda>s. s\<lparr>md_db := set_retrieval_tracing (md_db s) enabled\<rparr>)"

section \<open>Saving\<close>

text \<open>\<open>flush\<close> writes the three snapshots that opening reads.\<close>

definition flush :: "MenteDb \<Rightarrow> Saved" where
  "flush s = \<lparr> sv_transitions = Some (transition_snapshot (tt_transitions (md_trajectory s)) 1),
     sv_speculative = Some (snapshot_of (md_speculative s) 0), sv_entities = Some (entity_snapshot (md_resolver s)) \<rparr>"

section \<open>Finished enrichment\<close>

text \<open>
  Marking a turn as enriched does not take its memories out of the candidates: a turn's number is compared with creation times in
  microseconds, which are larger.
\<close>

lemma enriched_memories_stay_candidates:
  assumes "\<forall>m \<in> set (all_memories (po_codec P) (md_db s)). turn < mn_created_at m \<and> md_last_enrichment_turn s < mn_created_at m"
  shows "fst (enrichment_candidates P (snd (mark_enrichment_complete turn s))) = fst (enrichment_candidates P s)"
proof -
  have "filter (is_candidate turn) ms = filter (is_candidate (md_last_enrichment_turn s)) ms"
    if "\<forall>m \<in> set ms. turn < mn_created_at m \<and> md_last_enrichment_turn s < mn_created_at m" for ms
    using that by (intro filter_cong) (auto simp: is_candidate_def)
  from this[OF assms] show ?thesis by (simp add: enrichment_candidates_def mark_enrichment_complete_def observe_def modify_def)
qed

section \<open>The mirror under the new steps\<close>

lemma triple_modify: "(\<And>s. good N S s \<Longrightarrow> good N S (f s)) \<Longrightarrow> triple N S (modify f) any_result"
  by (simp add: triple_def modify_def)

lemma triple_observe: "triple N S (observe f) any_result"
  by (simp add: triple_def observe_def)

lemma good_engines [simp]:
  "good N S (s\<lparr>md_pain := a\<rparr>) = good N S s" "good N S (s\<lparr>md_trajectory := b\<rparr>) = good N S s" "good N S (s\<lparr>md_stream := c\<rparr>) = good N S s"
  "good N S (s\<lparr>md_speculative := d\<rparr>) = good N S s" "good N S (s\<lparr>md_resolver := e\<rparr>) = good N S s"
  "good N S (s\<lparr>md_last_enrichment_turn := i\<rparr>) = good N S s" "good N S (s\<lparr>md_enrichment_pending := j\<rparr>) = good N S s"
  by (simp_all add: good_def)

text \<open>
  How the set of memories may move in a step: \<open>rel\<close> is any reflexive and transitive relation that lets it grow. With the inclusion
  a step keeps every memory, with the full relation it only keeps graph and store in agreement.
\<close>

definition moves :: "(MemoryId set \<Rightarrow> MemoryId set \<Rightarrow> bool) \<Rightarrow> 'a Db \<Rightarrow> bool" where
  "moves rel m \<longleftrightarrow> (\<forall>S s. good S S s \<longrightarrow> (\<exists>T. rel S T \<and> good T T (snd (m s))))"

locale movement =
  fixes rel :: "MemoryId set \<Rightarrow> MemoryId set \<Rightarrow> bool"
  assumes grow: "S \<subseteq> T \<Longrightarrow> rel S T"
    and onward: "rel S T \<Longrightarrow> rel T U \<Longrightarrow> rel S U"
begin

lemma moves_triple: "(\<And>S. triple S S m R) \<Longrightarrow> moves rel m"
  unfolding moves_def triple_def using grow[OF subset_refl] by blast

lemma moves_grows: "(\<And>S. grows S I m) \<Longrightarrow> moves rel m"
  unfolding moves_def grows_def using grow by (metis Un_upper1 subset_refl)

lemma moves_step: "moves rel m \<Longrightarrow> good S S s \<Longrightarrow> \<exists>T. rel S T \<and> good T T (snd (m s))"
  by (simp add: moves_def)

lemma moves_bind: "moves rel m \<Longrightarrow> (\<And>x. moves rel (f x)) \<Longrightarrow> moves rel (then_do m f)"
  unfolding moves_def then_do_def by (auto split: prod.splits outcome.splits) (metis snd_conv onward)+

lemma moves_attempt: "moves rel m \<Longrightarrow> moves rel (attempt m)"
  unfolding moves_def attempt_def by (auto split: prod.splits outcome.splits) (metis snd_conv)+

lemma moves_succeeds: "moves rel m \<Longrightarrow> moves rel (succeeds m)"
  unfolding moves_def succeeds_def by (auto split: prod.splits outcome.splits) (metis snd_conv)+

lemma moves_give: "moves rel (give x)"
  by (rule moves_triple[OF triple_give]) (rule TrueI)

lemma moves_total_of: "(\<And>x. moves rel (f x)) \<Longrightarrow> moves rel (total_of f xs)"
  by (induction xs) (auto intro!: moves_give moves_bind)

lemma moves_each: "(\<And>x. moves rel (f x)) \<Longrightarrow> moves rel (each f xs)"
  by (induction xs) (auto intro!: moves_give moves_bind)

lemma moves_if: "moves rel m \<Longrightarrow> moves rel n \<Longrightarrow> moves rel (if b then m else n)"
  by simp

lemma moves_assemble: "(\<And>topic. moves rel (builder topic)) \<Longrightarrow> moves rel (assemble_topics now topics builder)"
proof (induction topics)
  case (Cons topic topics)
  then show ?case unfolding assemble_topics.simps
    by (intro moves_bind moves_if moves_give moves_triple[OF triple_observe] moves_triple[OF triple_modify]) simp_all
qed (simp add: moves_give)

lemma moves_consolidate: "moves rel (consolidate_cluster P ids)"
proof -
  have "triple S S (absorb_source P c now src) any_result" for S c now src
    unfolding absorb_source_def by (intro triple_seq triple_attempt[OF triple_invalidate] triple_attempt[OF triple_relate] triple_attempt[OF triple_emit])
  then have "moves rel (each (absorb_source P c now) xs)" for c now xs by (intro moves_triple[where R = any_result] triple_each)
  then show ?thesis unfolding consolidate_cluster_def Let_def
    by (auto intro!: moves_bind moves_triple[OF triple_read_db] moves_triple[OF triple_refuse] moves_triple[OF triple_draw]
        moves_grows[OF grows_mentedb_store] moves_triple[OF triple_emit] moves_triple[OF triple_time] moves_give)
qed

lemmas moves_steps = moves_give moves_bind moves_succeeds moves_each moves_attempt moves_total_of moves_if moves_triple[OF triple_time]
  moves_triple[OF triple_draw] moves_triple[OF triple_observe] moves_triple[OF triple_relate] moves_triple[OF triple_emit]
  moves_triple[OF triple_refuse] moves_triple[OF triple_lift[where R = any_result]] moves_triple[OF triple_read_db[where R = any_result]]
  moves_triple[OF triple_read_config[where R = any_result]] moves_grows[OF grows_mentedb_store] moves_consolidate TrueI

lemma moves_store_enrichment: "moves rel (store_enrichment_memories P memories source_ids)"
proof -
  have "moves rel (store_enrichment_memory P max_conf source_ids m)" for max_conf m
    unfolding store_enrichment_memory_def by (intro moves_steps)
  then show ?thesis unfolding store_enrichment_memories_def by (intro moves_steps)
qed

end

interpretation kept: movement "(\<subseteq>)"
  by unfold_locales auto

interpretation free: movement "\<lambda>_ _. True"
  by unfold_locales simp_all

lemma mirrors_moves: "mirrors m \<longleftrightarrow> moves (\<lambda>_ _. True) m"
  by (simp add: mirrors_def moves_def)

end
