(* ===== verification/Facade_Entities.thy ===== *)
theory Facade_Entities
  imports Facade_Engines
begin

text \<open>
  Entity linking, communities and the user profile (\<open>mentedb/src/lib.rs\<close>). A memory of an entity carries a tag
  \<open>entity:name\<close>; memories whose names resolve to the same entity are joined by \<open>Related\<close> edges.
\<close>

section \<open>Grouping\<close>

text \<open>\<open>map.entry(key).or_default().push(value)\<close>; the order in which a map is iterated is \<open>po_key_order\<close> of its keys.\<close>

definition push_group :: "'k \<Rightarrow> 'v \<Rightarrow> ('k \<times> 'v list) list \<Rightarrow> ('k \<times> 'v list) list" where
  "push_group k v m = AList.update k ((case map_of m k of Some vs \<Rightarrow> vs | None \<Rightarrow> []) @ [v]) m"

definition groups_of :: "('a \<Rightarrow> ('k \<times> 'v) option) \<Rightarrow> 'a list \<Rightarrow> ('k \<times> 'v list) list" where
  "groups_of f xs = fold (\<lambda>x m. case f x of Some (k, v) \<Rightarrow> push_group k v m | None \<Rightarrow> m) xs []"

definition members :: "('k \<times> 'v list) list \<Rightarrow> 'k \<Rightarrow> 'v list" where
  "members m k = (case map_of m k of Some vs \<Rightarrow> vs | None \<Rightarrow> [])"

section \<open>Names of entities\<close>

definition entity_tag :: "MemoryNode \<Rightarrow> string option" where
  "entity_tag m = (case List.map_filter (strip_prefix ''entity:'') (mn_tags m) of [] \<Rightarrow> None | n # _ \<Rightarrow> Some n)"

definition normalized_name :: "Ports \<Rightarrow> string \<Rightarrow> string" where
  "normalized_name P name = trim (po_lower P name)"

definition all_entity_names :: "Ports \<Rightarrow> string list Db" where
  "all_entity_names P = read_db (\<lambda>b. sorted_list_of_set (set (concat (map (\<lambda>m.
     map (normalized_name P) (List.map_filter (strip_prefix ''entity:'') (mn_tags m))) (all_memories (po_codec P) b)))))"

definition unresolved_entity_names :: "Ports \<Rightarrow> string list Db" where
  "unresolved_entity_names P = then_do (all_entity_names P) (\<lambda>names.
     observe (\<lambda>s. unresolved_names (po_lower P) (md_resolver s) names))"

text \<open>The contexts are cut at byte offsets, which may fall inside a character.\<close>

definition add_context :: "Ports \<Rightarrow> MemoryNode \<Rightarrow> (string \<times> string) list \<Rightarrow> (string \<times> string) list MenteResult" where
  "add_context P m contexts = (case entity_tag m of None \<Rightarrow> Ok contexts
   | Some tag \<Rightarrow> let name = normalized_name P tag; content = mn_content m in
      (case map_of contexts name of
         Some existing \<Rightarrow>
           if length existing < 300
           then let longer = existing @ '' | ''; remaining = 500 - length longer in
             bindO (slice content 0 (min (length content) remaining)) (\<lambda>part. Ok (AList.update name (longer @ part) contexts))
           else Ok contexts
       | None \<Rightarrow> bindO (slice content 0 (min (length content) 300)) (\<lambda>part. Ok (AList.update name part contexts))))"

fun fold_context :: "Ports \<Rightarrow> MemoryNode list \<Rightarrow> (string \<times> string) list \<Rightarrow> (string \<times> string) list MenteResult" where
  "fold_context P [] contexts = Ok contexts"
| "fold_context P (m # ms) contexts = bindO (add_context P m contexts) (fold_context P ms)"

definition entity_names_with_context :: "Ports \<Rightarrow> (string \<times> string option) list Db" where
  "entity_names_with_context P = then_do (read_db (all_memories (po_codec P))) (\<lambda>ms.
     then_do (lift (fold_context P ms [])) (\<lambda>contexts.
     then_do draw (\<lambda>n. give (map (\<lambda>name. (name, map_of contexts name)) (po_key_order P n (map fst contexts))))))"

definition build_entity_memory_map :: "Ports \<Rightarrow> Backend \<Rightarrow> (string \<times> MemoryId list) list" where
  "build_entity_memory_map P b = groups_of (\<lambda>m. map_option (\<lambda>tag. (normalized_name P tag, mn_id m)) (entity_tag m)) (all_memories (po_codec P) b)"

definition entity_memories :: "Ports \<Rightarrow> MemoryNode list Db" where
  "entity_memories P = read_db (\<lambda>b. filter (\<lambda>m. list_ex (\<lambda>t. starts_with t ''entity:'') (mn_tags m)) (all_memories (po_codec P) b))"

section \<open>Linking\<close>

record EntityLinkResult =
  lr_linked :: nat
  lr_ambiguous :: nat
  lr_edges_created :: nat

definition link_result_default :: EntityLinkResult where
  "link_result_default = \<lparr> lr_linked = 0, lr_ambiguous = 0, lr_edges_created = 0 \<rparr>"

record EntityLinkResolution =
  lx_canonical :: string
  lx_aliases :: "string list"
  lx_confidence :: f32

record EntitySeparation =
  sep_name_a :: string
  sep_name_b :: string

definition is_entity_link :: "StoredEdge \<Rightarrow> bool" where
  "is_entity_link e \<longleftrightarrow> se_edge_type e = Related \<and> (case se_label e of Some l \<Rightarrow> starts_with l ''entity_link:'' | None \<Rightarrow> False)"

definition already_linked :: "GraphManager \<Rightarrow> MemoryId \<Rightarrow> MemoryId \<Rightarrow> bool" where
  "already_linked g a b = list_ex (\<lambda>(tid, e). tid = b \<and> is_entity_link e) (outgoing (read_graph g) a)"

text \<open>The pairs \<open>i < j\<close> of the two nested loops.\<close>

fun ordered_pairs :: "'a list \<Rightarrow> ('a \<times> 'a) list" where
  "ordered_pairs [] = []"
| "ordered_pairs (x # xs) = map (Pair x) xs @ ordered_pairs xs"

fun each_with :: "('a \<Rightarrow> 'r \<Rightarrow> 'r Db) \<Rightarrow> 'a list \<Rightarrow> 'r \<Rightarrow> 'r Db" where
  "each_with f [] r = give r"
| "each_with f (x # xs) r = then_do (f x r) (each_with f xs)"

definition link_memories :: "Ports \<Rightarrow> string \<Rightarrow> f32 \<Rightarrow> Timestamp \<Rightarrow> MemoryId \<times> MemoryId \<Rightarrow> EntityLinkResult \<Rightarrow> EntityLinkResult Db" where
  "link_memories P label weight now pair r s =
     (if already_linked (md_graph s) (fst pair) (snd pair) then (Ok r, s)
      else then_do (succeeds (relate P (plain_edge (fst pair) (snd pair) Related weight now (Some label)))) (\<lambda>n.
        give (r\<lparr>lr_edges_created := lr_edges_created r + n, lr_linked := Suc (lr_linked r)\<rparr>)) s)"

definition link_group :: "Ports \<Rightarrow> string \<Rightarrow> f32 \<Rightarrow> Timestamp \<Rightarrow> MemoryId list \<Rightarrow> EntityLinkResult \<Rightarrow> EntityLinkResult Db" where
  "link_group P canonical weight now ids = each_with (link_memories P (''entity_link:'' @ canonical) weight now) (ordered_pairs ids)"

definition canonical_groups :: "Ports \<Rightarrow> EntityResolver \<Rightarrow> string list \<Rightarrow> (string \<times> string list) list" where
  "canonical_groups P r names = groups_of (\<lambda>name. let resolved = resolve (po_lower P) r name in
     if re_source resolved \<noteq> R_Identity then Some (re_canonical resolved, name) else None) names"

text \<open>The memories of a group: those of its names and those of the canonical name itself.\<close>

definition group_memory_ids :: "(string \<times> MemoryId list) list \<Rightarrow> string list \<Rightarrow> string \<Rightarrow> MemoryId list" where
  "group_memory_ids entity_map names canonical = sort_dedup (concat (map (members entity_map) names) @ members entity_map canonical)"

definition link_entities :: "Ports \<Rightarrow> EntityLinkResult Db" where
  "link_entities P =
     then_do (read_db (build_entity_memory_map P)) (\<lambda>entity_map.
     then_do draw (\<lambda>n.
     then_do (observe (\<lambda>s. canonical_groups P (md_resolver s) (po_key_order P n (map fst entity_map)))) (\<lambda>groups.
     then_do (current_time_us P) (\<lambda>now.
     then_do draw (\<lambda>k.
     each_with (\<lambda>canonical r. let ids = group_memory_ids entity_map (members groups canonical) canonical in
         if length ids < 2 then give r else link_group P canonical (Fin 1) now ids r)
       (po_key_order P k (map fst groups)) link_result_default)))))"

definition resolution_ids :: "Ports \<Rightarrow> (string \<times> MemoryId list) list \<Rightarrow> EntityLinkResolution \<Rightarrow> MemoryId list" where
  "resolution_ids P entity_map g = sort_dedup (members entity_map (po_lower P (lx_canonical g))
     @ concat (map (members entity_map \<circ> po_lower P) (lx_aliases g)))"

definition learn_resolution :: "Ports \<Rightarrow> EntityLinkResolution \<Rightarrow> unit Db" where
  "learn_resolution P g = modify (\<lambda>s. s\<lparr>md_resolver := learn_group (po_lower P) (md_resolver s)
     \<lparr> eg_canonical = lx_canonical g, eg_aliases = filter (\<lambda>a. po_lower P a \<noteq> po_lower P (lx_canonical g)) (lx_aliases g),
       eg_confidence = lx_confidence g \<rparr>\<rparr>)"

definition apply_entity_link_resolutions :: "Ports \<Rightarrow> EntityLinkResolution list \<Rightarrow> EntitySeparation list \<Rightarrow> EntityLinkResult Db" where
  "apply_entity_link_resolutions P merge_groups separations =
     then_do (current_time_us P) (\<lambda>now.
     then_do (read_db (build_entity_memory_map P)) (\<lambda>entity_map.
     then_do (each_with (\<lambda>g r. then_do (learn_resolution P g) (\<lambda>_.
         link_group P (po_lower P (lx_canonical g)) (lx_confidence g) now (resolution_ids P entity_map g) r)) merge_groups link_result_default) (\<lambda>r.
     then_do (each (\<lambda>sep. modify (\<lambda>s. s\<lparr>md_resolver := mark_different (po_lower P) (md_resolver s) (sep_name_a sep) (sep_name_b sep)\<rparr>)) separations) (\<lambda>_.
     give r))))"

section \<open>Communities\<close>

definition take_chars :: "nat \<Rightarrow> string \<Rightarrow> string" where
  "take_chars n txt = concat (take n (chars txt))"

definition has_tag :: "string \<Rightarrow> MemoryNode \<Rightarrow> bool" where
  "has_tag tag m = list_ex (\<lambda>t. t = tag) (mn_tags m)"

definition community_member :: "Ports \<Rightarrow> MemoryNode \<Rightarrow> (string \<times> string \<times> string) option" where
  "community_member P m = (if has_tag ''community_summary'' m then None
     else map_option (\<lambda>name.
       (po_lower P (case List.map_filter (strip_prefix ''entity_type:'') (mn_tags m) of [] \<Rightarrow> ''general'' | t # _ \<Rightarrow> t),
        name, take_chars 200 (mn_content m))) (entity_tag m))"

definition entity_communities :: "Ports \<Rightarrow> (string \<times> (string \<times> string) list) list Db" where
  "entity_communities P = then_do (read_db (\<lambda>b. groups_of (community_member P) (all_memories (po_codec P) b))) (\<lambda>categories.
     then_do draw (\<lambda>n. give (filter (\<lambda>(_, ms). 2 \<le> length ms)
       (map (\<lambda>c. (c, members categories c)) (po_key_order P n (map fst categories))))))"

text \<open>\<open>embedder.embed(text).ok()\<close>: without an embedder, or when it fails, there is no vector.\<close>

definition try_embed :: "string \<Rightarrow> Embedding option Db" where
  "try_embed txt s = (case embed_text txt s of (Err _, s') \<Rightarrow> (Ok None, s') | r \<Rightarrow> r)"

definition or_default :: "Embedding \<Rightarrow> Embedding option \<Rightarrow> Embedding" where
  "or_default d e = (case e of Some v \<Rightarrow> v | None \<Rightarrow> d)"

text \<open>A memory that is kept once under its tag: rewritten when it exists, else stored anew.\<close>

definition rewritten :: "Ports \<Rightarrow> MemoryNode \<Rightarrow> string \<Rightarrow> MemoryNode Db" where
  "rewritten P m txt = then_do (try_embed txt) (\<lambda>e.
     give (m\<lparr>mn_content := txt, mn_embedding := or_default (mn_embedding m) e\<rparr>))"

definition store_new :: "Ports \<Rightarrow> string \<Rightarrow> string list \<Rightarrow> f32 \<Rightarrow> MemoryId Db" where
  "store_new P txt tags conf = then_do (try_embed txt) (\<lambda>e.
     then_do draw (\<lambda>n.
     let m = (memory_node_new (po_fresh P n) (po_clock P n) (po_agent P n) Semantic txt (or_default [] e))\<lparr>mn_tags := tags, mn_confidence := conf\<rparr> in
     then_do (mentedb_store P m) (\<lambda>_. give (mn_id m))))"

definition tagged_memory :: "Ports \<Rightarrow> string \<Rightarrow> MemoryNode option Db" where
  "tagged_memory P tag = read_db (\<lambda>b. List.find (has_tag tag) (all_memories (po_codec P) b))"

definition store_community_summary :: "Ports \<Rightarrow> string \<Rightarrow> string \<Rightarrow> string list \<Rightarrow> MemoryId Db" where
  "store_community_summary P category summary member_names =
     (if category = [] then refuse (Storage ''community category cannot be empty'')
      else then_do (current_time_us P) (\<lambda>now.
        let community_tag = ''community:'' @ category in
        then_do (tagged_memory P community_tag) (\<lambda>existing.
        then_do (case existing of
            Some m \<Rightarrow> then_do (rewritten P m summary) (\<lambda>m'. then_do (put_memory P m') (\<lambda>_. give (mn_id m')))
          | None \<Rightarrow> store_new P summary [''community_summary'', community_tag, ''source:enrichment''] (f32_of (7/10))) (\<lambda>node_id.
        then_do (read_db (build_entity_memory_map P)) (\<lambda>entity_map.
        then_do (each (\<lambda>member_id. relate P (plain_edge node_id member_id Derived (f32_of (8/10)) now (Some (''community_member:'' @ category))))
          (concat (map (members entity_map \<circ> po_lower P) member_names))) (\<lambda>_.
        give node_id)))))) "

definition community_summaries :: "Ports \<Rightarrow> MemoryNode list Db" where
  "community_summaries P = read_db (\<lambda>b. filter (has_tag ''community_summary'') (all_memories (po_codec P) b))"

section \<open>The user profile\<close>

definition is_profile_fact :: "MemoryNode \<Rightarrow> bool" where
  "is_profile_fact m \<longleftrightarrow> \<not> fl_lt (mn_confidence m) (f32_of (1/2)) \<and> mn_memory_type m \<in> {Semantic, Procedural}
     \<and> \<not> list_ex (\<lambda>t. t = ''community_summary'' \<or> starts_with t ''entity:'') (mn_tags m)"

definition profile_facts :: "Ports \<Rightarrow> string list Db" where
  "profile_facts P = read_db (\<lambda>b. take 100 (map (\<lambda>m. take_chars 300 (mn_content m)) (filter is_profile_fact (all_memories (po_codec P) b))))"

definition store_user_profile :: "Ports \<Rightarrow> string \<Rightarrow> MemoryId Db" where
  "store_user_profile P profile = then_do (tagged_memory P ''user_profile'') (\<lambda>existing.
     case existing of
       Some m \<Rightarrow> then_do (rewritten P m profile) (\<lambda>m'. then_do (put_memory P m') (\<lambda>_.
         then_do (attempt (index_memory_entities P m')) (\<lambda>_. give (mn_id m'))))
     | None \<Rightarrow> store_new P profile [''user_profile'', ''scope:always'', ''source:enrichment''] (f32_of (8/10)))"

definition user_profile :: "Ports \<Rightarrow> MemoryNode option Db" where
  "user_profile P = tagged_memory P ''user_profile''"

section \<open>Groups\<close>

lemma groups_of_snoc: "groups_of f (xs @ [x]) = (case f x of Some (k, v) \<Rightarrow> push_group k v (groups_of f xs) | None \<Rightarrow> groups_of f xs)"
  unfolding groups_of_def by (simp split: option.split)

lemma members_push: "members (push_group k v m) j = (if j = k then members m k @ [v] else members m j)"
  by (auto simp: members_def push_group_def update_conv')

lemma members_groups: "members (groups_of f xs) k = map snd (filter (\<lambda>p. fst p = k) (List.map_filter f xs))"
proof (induction xs rule: rev_induct)
  case Nil
  then show ?case by (simp add: groups_of_def members_def List.map_filter_def)
next
  case (snoc x xs)
  then show ?case by (cases "f x") (auto simp: groups_of_snoc members_push List.map_filter_def)
qed

lemma keys_groups: "set (map fst (groups_of f xs)) = fst ` set (List.map_filter f xs)"
proof (induction xs rule: rev_induct)
  case Nil
  then show ?case by (simp add: groups_of_def List.map_filter_def)
next
  case (snoc x xs)
  then show ?case
    by (cases "f x") (auto simp: groups_of_snoc push_group_def update_keys List.map_filter_def image_Un simp flip: set_map split: if_splits)
qed

lemma distinct_sorted_adj: "sorted xs \<Longrightarrow> distinct (remdups_adj xs)"
  by (induction xs rule: remdups_adj.induct) auto

lemma sort_dedup_set: "sort_dedup xs = sorted_list_of_set (set xs)"
proof -
  have "sorted (sort_dedup xs)" "distinct (sort_dedup xs)" "set (sort_dedup xs) = set xs"
    by (simp_all add: sort_dedup_def sorted_remdups_adj distinct_sorted_adj)
  then show ?thesis by (metis sorted_list_of_set.idem_if_sorted_distinct)
qed

lemma ordered_pairs_sorted: "sorted xs \<Longrightarrow> distinct xs \<Longrightarrow> set (ordered_pairs xs) = {(a, b). a \<in> set xs \<and> b \<in> set xs \<and> a < b}"
  by (induction xs) force+

section \<open>Linking settles\<close>

text \<open>
  What linking leaves as it is: the memories and their tags, the resolver and the nodes of the graph; links are only added.
\<close>

definition linkable :: "MemoryId set \<Rightarrow> Tables \<Rightarrow> EntityResolver \<Rightarrow> MenteDb \<Rightarrow> bool" where
  "linkable N t r s \<longleftrightarrow> graph_inv (read_graph (md_graph s)) \<and> graph_nodes (read_graph (md_graph s)) = N
     \<and> core (bk_tables (md_db s)) = core t \<and> md_resolver s = r"

definition all_linked :: "(MemoryId \<times> MemoryId) set \<Rightarrow> MenteDb \<Rightarrow> bool" where
  "all_linked L s \<longleftrightarrow> (\<forall>(a, b) \<in> L. already_linked (md_graph s) a b)"

definition settles :: "(MenteDb \<Rightarrow> bool) \<Rightarrow> (EntityLinkResult \<Rightarrow> EntityLinkResult Db) \<Rightarrow> (MemoryId \<times> MemoryId) set \<Rightarrow> bool" where
  "settles I f L \<longleftrightarrow> (\<forall>r s. I s \<longrightarrow> (\<exists>r' s'. f r s = (Ok r', s') \<and> I s' \<and> all_linked L s'
     \<and> (\<forall>L'. all_linked L' s \<longrightarrow> all_linked L' s') \<and> (lr_edges_created r = lr_linked r \<longrightarrow> lr_edges_created r' = lr_linked r')
     \<and> (all_linked L s \<longrightarrow> r' = r \<and> s' = s)))"

lemma linked_edges:
  "graph_inv (read_graph g) \<Longrightarrow> already_linked g a b \<longleftrightarrow> (\<exists>e. (a, b, e) \<in># graph_edges (read_graph g) \<and> is_entity_link e)"
proof -
  assume inv: "graph_inv (read_graph g)"
  have "set (outgoing (read_graph g) a) = snd ` {x. x \<in># graph_edges (read_graph g) \<and> fst x = a}"
    using outgoing_edges[OF inv, of a, THEN arg_cong[where f = set_mset]] by simp
  then show ?thesis by (force simp: already_linked_def list_ex_iff)
qed

lemma relate_linkable:
  assumes "linkable N t r s" "me_source e \<in> N" "me_target e \<in> N" "me_weight e \<noteq> NaN"
  obtains s' where "relate P e s = (Ok (), s')" "linkable N t r s'"
    "graph_edges (read_graph (md_graph s')) = add_mset (me_source e, me_target e, from_memory_edge e) (graph_edges (read_graph (md_graph s)))"
proof -
  let ?g = "gm_graph (md_graph s)"
  have inv: "graph_inv ?g" and N: "graph_nodes ?g = N" using assms(1) by (simp_all add: linkable_def read_graph_def)
  obtain i j where ij: "id_to_idx ?g (me_source e) = Some i" "id_to_idx ?g (me_target e) = Some j"
    using assms(2,3) N by (auto simp: graph_nodes_def)
  then have "add_edge ?g e = push_delta ?g i j (from_memory_edge e)" by (simp add: add_edge_def add_node_def)
  then have added: "graph_inv (add_edge ?g e)" "graph_nodes (add_edge ?g e) = N"
    "graph_edges (add_edge ?g e) = add_mset (me_source e, me_target e, from_memory_edge e) (graph_edges ?g)"
    using push_delta_refines[OF inv ij] N by simp_all
  obtain b where b: "store_edge (po_env P) (md_db s) e = (Ok (), b)" "core (bk_tables b) = core (bk_tables (md_db s))"
    using assms(4) by (auto simp: store_edge_def transact_unit_def transact_def add_edge_on_def not_null_real_def core_def)
  have "relate P e s = (Ok (), s\<lparr>md_db := b, md_graph := (md_graph s)\<lparr>gm_graph := add_edge ?g e\<rparr>\<rparr>)"
    using ij b(1) by (simp add: relate_def db_defs add_relationship_def contains_node_def)
  then show ?thesis using that assms(1) b(2) added by (simp add: linkable_def read_graph_def)
qed

lemma settles_give: "settles I give {}"
  by (simp add: settles_def give_def all_linked_def)

lemma settles_pair:
  assumes "fst pair \<in> N" "snd pair \<in> N" "weight \<noteq> NaN"
  shows "settles (linkable N t r) (link_memories P (''entity_link:'' @ canonical) weight now pair) {pair}"
  unfolding settles_def
proof (intro allI impI)
  fix q s
  assume I: "linkable N t r s"
  let ?e = "plain_edge (fst pair) (snd pair) Related weight now (Some (''entity_link:'' @ canonical))"
  show "\<exists>r' s'. link_memories P (''entity_link:'' @ canonical) weight now pair q s = (Ok r', s') \<and> linkable N t r s' \<and> all_linked {pair} s'
      \<and> (\<forall>L'. all_linked L' s \<longrightarrow> all_linked L' s') \<and> (lr_edges_created q = lr_linked q \<longrightarrow> lr_edges_created r' = lr_linked r')
      \<and> (all_linked {pair} s \<longrightarrow> r' = q \<and> s' = s)"
  proof (cases "already_linked (md_graph s) (fst pair) (snd pair)")
    case True
    then show ?thesis using I by (simp add: link_memories_def all_linked_def case_prod_unfold)
  next
    case False
    obtain s' where s': "relate P ?e s = (Ok (), s')" "linkable N t r s'"
      "graph_edges (read_graph (md_graph s')) = add_mset (fst pair, snd pair, from_memory_edge ?e) (graph_edges (read_graph (md_graph s)))"
      using relate_linkable[OF I, of ?e P] assms by (auto simp: plain_edge_def)
    have inv: "graph_inv (read_graph (md_graph s))" "graph_inv (read_graph (md_graph s'))" using I s'(2) by (simp_all add: linkable_def)
    have "is_entity_link (from_memory_edge ?e)" by (simp add: is_entity_link_def from_memory_edge_def plain_edge_def starts_with_iff)
    then have "all_linked {pair} s'" "\<And>L'. all_linked L' s \<Longrightarrow> all_linked L' s'"
      by (auto simp: all_linked_def linked_edges[OF inv(1)] linked_edges[OF inv(2)] s'(3))
    then show ?thesis using False s'(1,2) by (auto simp: link_memories_def succeeds_def db_defs all_linked_def)
  qed
qed

lemma settles_each: "(\<And>x. x \<in> set xs \<Longrightarrow> settles I (f x) (L x)) \<Longrightarrow> settles I (each_with f xs) (\<Union>x \<in> set xs. L x)"
proof (induction xs)
  case Nil
  then show ?case by (simp add: settles_def give_def all_linked_def)
next
  case (Cons x xs)
  have f: "settles I (f x) (L x)" and fs: "settles I (each_with f xs) (\<Union>x \<in> set xs. L x)" using Cons by simp_all
  show ?case unfolding settles_def
  proof (intro allI impI)
    fix r s
    assume "I s"
    then obtain r1 s1 where 1: "f x r s = (Ok r1, s1)" "I s1" "all_linked (L x) s1" "\<forall>L'. all_linked L' s \<longrightarrow> all_linked L' s1"
      "lr_edges_created r = lr_linked r \<longrightarrow> lr_edges_created r1 = lr_linked r1" "all_linked (L x) s \<longrightarrow> r1 = r \<and> s1 = s"
      using f unfolding settles_def by blast
    obtain r2 s2 where 2: "each_with f xs r1 s1 = (Ok r2, s2)" "I s2" "all_linked (\<Union>x \<in> set xs. L x) s2" "\<forall>L'. all_linked L' s1 \<longrightarrow> all_linked L' s2"
      "lr_edges_created r1 = lr_linked r1 \<longrightarrow> lr_edges_created r2 = lr_linked r2" "all_linked (\<Union>x \<in> set xs. L x) s1 \<longrightarrow> r2 = r1 \<and> s2 = s1"
      using fs 1(2) unfolding settles_def by blast
    have "all_linked (A \<union> B) u \<longleftrightarrow> all_linked A u \<and> all_linked B u" for A B u by (auto simp: all_linked_def)
    then show "\<exists>r' s'. each_with f (x # xs) r s = (Ok r', s') \<and> I s' \<and> all_linked (\<Union>x \<in> set (x # xs). L x) s'
        \<and> (\<forall>L'. all_linked L' s \<longrightarrow> all_linked L' s') \<and> (lr_edges_created r = lr_linked r \<longrightarrow> lr_edges_created r' = lr_linked r')
        \<and> (all_linked (\<Union>x \<in> set (x # xs). L x) s \<longrightarrow> r' = r \<and> s' = s)"
      using 1 2 by (intro exI[of _ r2] exI[of _ s2]) (auto simp: then_do_def)
  qed
qed

lemma settles_group:
  assumes "set ids \<subseteq> N" "weight \<noteq> NaN"
  shows "settles (linkable N t r) (link_group P canonical weight now ids) (set (ordered_pairs ids))"
proof -
  have "fst p \<in> set xs \<and> snd p \<in> set xs" if "p \<in> set (ordered_pairs xs)" for p :: "MemoryId \<times> MemoryId" and xs
    using that by (induction xs) auto
  then have "settles (linkable N t r) (link_group P canonical weight now ids) (\<Union>p \<in> set (ordered_pairs ids). {p})"
    unfolding link_group_def using assms by (intro settles_each settles_pair) blast+
  then show ?thesis by simp
qed

text \<open>The links that linking is to make: between the memories of names that resolve to the same entity.\<close>

definition link_names :: "Ports \<Rightarrow> EntityResolver \<Rightarrow> string set \<Rightarrow> string \<Rightarrow> string set" where
  "link_names P r names c = {n \<in> names. re_source (resolve (po_lower P) r n) \<noteq> R_Identity \<and> re_canonical (resolve (po_lower P) r n) = c}"

definition link_set :: "Ports \<Rightarrow> EntityResolver \<Rightarrow> (string \<times> MemoryId list) list \<Rightarrow> string \<Rightarrow> (MemoryId \<times> MemoryId) set" where
  "link_set P r m c = (let ids = (\<Union>n \<in> insert c (link_names P r (fst ` set m) c). set (members m n)) in {(a, b). a \<in> ids \<and> b \<in> ids \<and> a < b})"

lemma canonical_group_names:
  "set (members (canonical_groups P r names) c) = link_names P r (set names) c"
  "set (map fst (canonical_groups P r names)) = {c. link_names P r (set names) c \<noteq> {}}"
  unfolding canonical_groups_def members_groups keys_groups link_names_def
  by (force simp: List.map_filter_def Let_def image_iff split: if_splits)+

lemma group_pairs:
  assumes "set names = fst ` set m"
  shows "set (ordered_pairs (group_memory_ids m (members (canonical_groups P r names) c) c)) = link_set P r m c"
proof -
  have "finite (link_names P r (set names) c)" by (simp add: link_names_def)
  then show ?thesis unfolding group_memory_ids_def sort_dedup_set
    by (subst ordered_pairs_sorted) (auto simp: link_set_def canonical_group_names(1) assms[symmetric] Let_def)
qed

lemma linkable_map: "linkable N t r s \<Longrightarrow> linkable N t r s' \<Longrightarrow> build_entity_memory_map P (md_db s') = build_entity_memory_map P (md_db s)"
proof -
  assume "linkable N t r s" "linkable N t r s'"
  then have c: "t_memories (bk_tables (md_db s')) = t_memories (bk_tables (md_db s))" "t_memory_tags (bk_tables (md_db s')) = t_memory_tags (bk_tables (md_db s))"
    by (simp_all add: linkable_def core_def)
  have "node_of_row codec (bk_tables (md_db s')) = node_of_row codec (bk_tables (md_db s))" for codec
    by (simp add: fun_eq_iff node_of_row_def tags_of_def c)
  then have "get_memory codec (md_db s') = get_memory codec (md_db s)" for codec by (intro ext) (simp add: get_memory_def c)
  then show ?thesis by (simp add: build_entity_memory_map_def all_memories_def all_memory_ids_def c)
qed

lemma map_members: "i \<in> set (members (build_entity_memory_map P b) n) \<longleftrightarrow>
    (\<exists>m \<in> set (all_memories (po_codec P) b). mn_id m = i \<and> map_option (normalized_name P) (entity_tag m) = Some n)"
  unfolding build_entity_memory_map_def members_groups by (force simp: set_map_filter)

lemma entity_map_keys: "n \<in> fst ` set (build_entity_memory_map P b) \<longleftrightarrow>
    (\<exists>m \<in> set (all_memories (po_codec P) b). map_option (normalized_name P) (entity_tag m) = Some n)"
  unfolding build_entity_memory_map_def set_map[symmetric] keys_groups by (force simp: set_map_filter)

lemma link_entities_run:
  assumes order: "\<forall>n xs. set (po_key_order P n xs) = set xs" and I: "linkable N (bk_tables (md_db s)) (md_resolver s) s"
    and N: "set (memory_ids s) \<subseteq> N"
  defines "L \<equiv> (\<Union>c. if link_names P (md_resolver s) (fst ` set (build_entity_memory_map P (md_db s))) c = {} then {}
      else link_set P (md_resolver s) (build_entity_memory_map P (md_db s)) c)"
  shows "\<exists>r s'. link_entities P s = (Ok r, s') \<and> linkable N (bk_tables (md_db s)) (md_resolver s) s' \<and> all_linked L s' \<and> lr_edges_created r = lr_linked r
    \<and> (all_linked L s \<longrightarrow> r = link_result_default \<and> md_db s' = md_db s \<and> md_graph s' = md_graph s)"
proof -
  let ?m = "build_entity_memory_map P (md_db s)" and ?I = "linkable N (bk_tables (md_db s)) (md_resolver s)"
  let ?n = "md_draws s"
  let ?g = "canonical_groups P (md_resolver s) (po_key_order P ?n (map fst ?m))"
  let ?f = "\<lambda>c r. let ids = group_memory_ids ?m (members ?g c) c in
         if length ids < 2 then give r else link_group P c (Fin 1) (po_clock P (Suc ?n)) ids r"
  let ?s = "s\<lparr>md_draws := Suc (Suc (Suc ?n))\<rparr>"
  have run: "link_entities P s = each_with ?f (po_key_order P (Suc (Suc ?n)) (map fst ?g)) link_result_default ?s"
    by (simp add: link_entities_def db_defs observe_def Let_def cong: if_cong)
  have names: "set (po_key_order P ?n (map fst ?m)) = fst ` set ?m" using order by simp
  have ids: "set (group_memory_ids ?m ns c) \<subseteq> N" for ns c
    using N by (auto simp: group_memory_ids_def sort_dedup_set map_members memory_ids_def all_memories_def set_map_filter get_memory_id subset_iff)
  have "settles ?I (?f c) (link_set P (md_resolver s) ?m c)" for c
  proof (cases "length (group_memory_ids ?m (members ?g c) c) < 2")
    case True
    then have "ordered_pairs (group_memory_ids ?m (members ?g c) c) = []"
      by (cases "group_memory_ids ?m (members ?g c) c" rule: ordered_pairs.cases) auto
    then show ?thesis using True group_pairs[OF names, of P "md_resolver s" c] settles_give by (simp add: Let_def)
  next
    case False
    then show ?thesis by (simp add: Let_def settles_group[OF ids] flip: group_pairs[OF names, of P "md_resolver s" c])
  qed
  then have "settles ?I (each_with ?f (po_key_order P (Suc (Suc ?n)) (map fst ?g)))
      (\<Union>c \<in> set (po_key_order P (Suc (Suc ?n)) (map fst ?g)). link_set P (md_resolver s) ?m c)" by (rule settles_each)
  also have "(\<Union>c \<in> set (po_key_order P (Suc (Suc ?n)) (map fst ?g)). link_set P (md_resolver s) ?m c) = L"
    using order canonical_group_names(2)[of P "md_resolver s" "po_key_order P ?n (map fst ?m)"] names by (auto simp: L_def)
  finally have settled: "settles ?I (each_with ?f (po_key_order P (Suc (Suc ?n)) (map fst ?g))) L" .
  have s: "?I ?s" "all_linked L ?s = all_linked L s" using I by (simp_all add: linkable_def all_linked_def)
  from settled[unfolded settles_def, rule_format, OF s(1), of link_result_default] show ?thesis
    unfolding run s(2) by (elim exE conjE) (auto simp: link_result_default_def)
qed

definition same_entity :: "Ports \<Rightarrow> EntityResolver \<Rightarrow> string \<Rightarrow> string \<Rightarrow> bool" where
  "same_entity P r n1 n2 \<longleftrightarrow> re_source (resolve (po_lower P) r n1) \<noteq> R_Identity \<and> re_source (resolve (po_lower P) r n2) \<noteq> R_Identity
     \<and> re_canonical (resolve (po_lower P) r n1) = re_canonical (resolve (po_lower P) r n2)"

text \<open>Linking entities is complete and settles: on a graph that holds every stored memory, \<open>link_entities\<close> succeeds, creates an edge
  for every pair it counts, and afterwards any two memories whose entity names the resolver maps to the same entity are joined by
  an entity link from the smaller identifier to the larger; a second run finds nothing to do and changes neither store nor graph.\<close>

theorem link_entities_settles:
  assumes "\<forall>n xs. set (po_key_order P n xs) = set xs"
    and "graph_inv (read_graph (md_graph s))" "set (memory_ids s) \<subseteq> graph_nodes (read_graph (md_graph s))"
    and "link_entities P s = (res, s')"
  shows "(\<exists>r. res = Ok r \<and> lr_edges_created r = lr_linked r)
    \<and> (\<forall>x \<in> set (all_memories (po_codec P) (md_db s)). \<forall>y \<in> set (all_memories (po_codec P) (md_db s)). \<forall>nx ny.
        entity_tag x = Some nx \<and> entity_tag y = Some ny \<and> same_entity P (md_resolver s) (normalized_name P nx) (normalized_name P ny)
          \<and> mn_id x < mn_id y \<longrightarrow> already_linked (md_graph s') (mn_id x) (mn_id y))
    \<and> (\<exists>s''. link_entities P s' = (Ok link_result_default, s'') \<and> md_db s'' = md_db s' \<and> md_graph s'' = md_graph s')"
proof -
  let ?N = "graph_nodes (read_graph (md_graph s))" and ?t = "bk_tables (md_db s)" and ?r = "md_resolver s"
  let ?m = "build_entity_memory_map P (md_db s)"
  let ?L = "\<Union>c. if link_names P ?r (fst ` set ?m) c = {} then {} else link_set P ?r ?m c"
  have I: "linkable ?N ?t ?r s" using assms(2) by (simp add: linkable_def)
  obtain r where r: "res = Ok r" "linkable ?N ?t ?r s'" "all_linked ?L s'" "lr_edges_created r = lr_linked r"
    using link_entities_run[OF assms(1) I assms(3)] assms(4) by auto
  have same: "build_entity_memory_map P (md_db s') = ?m" "md_resolver s' = ?r" using linkable_map[OF I r(2)] r(2) by (simp_all add: linkable_def)
  have "linkable ?N (bk_tables (md_db s')) (md_resolver s') s'" using r(2) by (simp add: linkable_def)
  moreover have "set (memory_ids s') \<subseteq> ?N"
    using assms(3) r(2) by (simp add: linkable_def core_def memory_ids_def all_memory_ids_def)
  ultimately have again: "\<exists>s''. link_entities P s' = (Ok link_result_default, s'') \<and> md_db s'' = md_db s' \<and> md_graph s'' = md_graph s'"
    using link_entities_run[OF assms(1), of ?N s'] r(3) unfolding same by auto
  have "already_linked (md_graph s') (mn_id x) (mn_id y)"
    if xy: "x \<in> set (all_memories (po_codec P) (md_db s))" "y \<in> set (all_memories (po_codec P) (md_db s))" "entity_tag x = Some nx" "entity_tag y = Some ny"
      "same_entity P ?r (normalized_name P nx) (normalized_name P ny)" "mn_id x < mn_id y" for x y nx ny
  proof -
    let ?c = "re_canonical (resolve (po_lower P) ?r (normalized_name P nx))"
    have names: "normalized_name P n \<in> link_names P ?r (fst ` set ?m) ?c" if "n \<in> {nx, ny}" for n
      using that xy by (auto simp: link_names_def entity_map_keys same_entity_def)
    moreover have "mn_id x \<in> set (members ?m (normalized_name P nx))" "mn_id y \<in> set (members ?m (normalized_name P ny))"
      using xy(1-4) by (auto simp: map_members)
    ultimately have "(mn_id x, mn_id y) \<in> link_set P ?r ?m ?c" using xy(6) by (auto simp: link_set_def Let_def)
    then have "(mn_id x, mn_id y) \<in> ?L" using names by (intro UN_I[of ?c]) (auto split: if_splits)
    then show ?thesis using r(3) by (auto simp: all_linked_def)
  qed
  then show ?thesis using r(1,4) again by blast
qed

definition linking_sample :: MenteDb where
  "linking_sample = sample_facade\<lparr>
     md_db := (backend_open retrieval_config_default 0 None)\<lparr>bk_tables := (init_tables 0)\<lparr>
       t_memories := [memory_row sample_codec 1 Sqlite_Store.sample_memory, memory_row sample_codec 2 (Sqlite_Store.sample_memory\<lparr>mn_id := MemoryId 2\<rparr>)],
       t_memory_tags := [(MemoryId 1, ''entity:js''), (MemoryId 2, ''entity:es'')]\<rparr>\<rparr>,
     md_graph := add_memory (add_memory gm_new (MemoryId 1)) (MemoryId 2),
     md_resolver := \<lparr> er_aliases = [(''js'', ''javascript''), (''es'', ''javascript'')], er_confidence = [], er_negative_pairs = {} \<rparr>\<rparr>"

lemma linking_sample_memories:
  "\<exists>x y. all_memories sample_codec (md_db linking_sample) = [x, y] \<and> mn_id x = MemoryId 1 \<and> mn_id y = MemoryId 2
    \<and> entity_tag x = Some ''js'' \<and> entity_tag y = Some ''es''"
  by (simp add: linking_sample_def all_memories_def all_memory_ids_def List.map_filter_simps get_memory_def row_of_def memory_row_def
      Sqlite_Store.sample_memory_def memory_node_new_def node_of_row_def tags_of_def entity_tag_def strip_prefix_def)

lemma linking_sample_entity: "same_entity sample_ports (md_resolver linking_sample) (normalized_name sample_ports ''js'') (normalized_name sample_ports ''es'')"
proof -
  have "normalized_name sample_ports ''js'' = ''js''" "normalized_name sample_ports ''es'' = ''es''"
    "normalize_entity to_ascii_lowercase ''js'' = ''js''" "normalize_entity to_ascii_lowercase ''es'' = ''es''"
    by (simp_all add: normalized_name_def sample_ports_def) code_simp+
  then show ?thesis by (simp add: same_entity_def resolve_def linking_sample_def sample_ports_def)
qed

lemma linking_sample_graph:
  "graph_inv (read_graph (md_graph linking_sample))" "set (memory_ids linking_sample) \<subseteq> graph_nodes (read_graph (md_graph linking_sample))"
proof -
  have "graph_reach (fst (add_node (fst (add_node graph_new (MemoryId 1))) (MemoryId 2)))"
    by (intro graph_reach.intros) (simp_all add: graph_new_def add_node_def)
  then show "graph_inv (read_graph (md_graph linking_sample))"
    by (simp add: linking_sample_def read_graph_def add_memory_def gm_new_def graph_reach_inv)
  show "set (memory_ids linking_sample) \<subseteq> graph_nodes (read_graph (md_graph linking_sample))"
    by (simp add: linking_sample_def memory_ids_def all_memory_ids_def memory_row_def Sqlite_Store.sample_memory_def memory_node_new_def read_graph_def)
qed

theorem link_entities_settles_witness:
  "already_linked (md_graph (snd (link_entities sample_ports linking_sample))) (MemoryId 1) (MemoryId 2)"
proof -
  have "\<forall>n xs. set (po_key_order sample_ports n xs) = set xs" "po_codec sample_ports = sample_codec" by (simp_all add: sample_ports_def)
  moreover obtain x y where "all_memories sample_codec (md_db linking_sample) = [x, y]" "mn_id x = MemoryId 1" "mn_id y = MemoryId 2"
    "entity_tag x = Some ''js''" "entity_tag y = Some ''es''" using linking_sample_memories by blast
  ultimately show ?thesis
    using link_entities_settles[OF _ linking_sample_graph surjective_pairing, of sample_ports] linking_sample_entity
    by (auto simp: less_MemoryId_def)
qed

section \<open>Texts cut inside a character\<close>

text \<open>The context of an entity is the first 300 bytes of a text: when they end inside a character, the call panics.\<close>

lemma context_cut_panics:
  assumes "entity_tag m = Some tag" "300 \<le> length (mn_content m)" "\<not> is_char_boundary (mn_content m) 300"
  shows "add_context P m [] = Panic"
  using assms by (simp add: add_context_def slice_def Let_def min_def)

section \<open>The mirror under linking\<close>

lemma triple_each_with: "(\<And>x r. triple N S (f x r) any_result) \<Longrightarrow> triple N S (each_with f xs r) any_result"
  by (induction xs arbitrary: r) (auto intro!: triple_give triple_bind[where R = any_result])

lemma triple_embed: "triple N S (embed_text txt) any_result" "triple N S (try_embed txt) any_result"
  by (auto simp: triple_def embed_text_def try_embed_def split: option.splits prod.splits outcome.splits)

lemma triple_rewritten: "triple N S (rewritten P m txt) (\<lambda>m'. mn_id m' = mn_id m)"
  unfolding rewritten_def by (intro triple_bind[OF triple_embed(2)] triple_give) simp

lemma triple_tagged: "triple N S (tagged_memory P tag) (\<lambda>e. \<forall>m. e = Some m \<longrightarrow> mn_id m \<in> S)"
  unfolding tagged_memory_def
  by (rule triple_read_db) (auto simp: find_Some_iff all_memories_def set_map_filter dest!: nth_mem dest: steady_known)

lemma triple_rewrite: "mn_id m \<in> S \<Longrightarrow> (\<And>m'. mn_id m' = mn_id m \<Longrightarrow> triple S S (k m') any_result)
    \<Longrightarrow> triple S S (then_do (rewritten P m txt) (\<lambda>m'. then_do (put_memory P m') (\<lambda>_. k m'))) any_result"
  by (rule triple_bind[OF triple_rewritten], rule triple_seq) (auto intro: triple_put)

text \<open>Steps whose effect depends on what was read before: \<open>moves_from\<close> fixes the memories at the start.\<close>

definition moves_from :: "(MemoryId set \<Rightarrow> MemoryId set \<Rightarrow> bool) \<Rightarrow> MemoryId set \<Rightarrow> 'a Db \<Rightarrow> bool" where
  "moves_from rel S m \<longleftrightarrow> (\<forall>s. good S S s \<longrightarrow> (\<exists>T. rel S T \<and> good T T (snd (m s))))"

context movement
begin

lemma moves_each_with: "(\<And>x r. moves rel (f x r)) \<Longrightarrow> moves rel (each_with f xs r)"
  by (induction xs arbitrary: r) (auto intro!: moves_give moves_bind)

lemma moves_link_group: "moves rel (link_group P canonical weight now ids r)"
proof -
  have "moves rel (link_memories P label weight now pair r)" for label pair r
    unfolding link_memories_def moves_def
    by (auto intro!: moves_step moves_bind moves_succeeds moves_triple[OF triple_relate] moves_give) (use grow[OF subset_refl] in blast)
  then show ?thesis unfolding link_group_def by (rule moves_each_with)
qed

lemma moves_link_entities: "moves rel (link_entities P)"
  unfolding link_entities_def Let_def by (intro moves_steps moves_each_with moves_link_group)

lemma moves_resolutions: "moves rel (apply_entity_link_resolutions P groups separations)"
  unfolding apply_entity_link_resolutions_def learn_resolution_def
  by (intro moves_steps moves_each_with moves_link_group moves_triple[OF triple_modify]) simp_all

lemma moves_store_new: "moves rel (store_new P txt tags conf)"
  unfolding store_new_def Let_def by (intro moves_steps moves_triple[OF triple_embed(2)])

lemma from_moves: "moves rel m \<Longrightarrow> moves_from rel S m"
  by (simp add: moves_def moves_from_def)

lemma from_triple: "triple S S m R \<Longrightarrow> moves_from rel S m"
  unfolding triple_def moves_from_def using grow[OF subset_refl] by blast

lemma from_bind: "moves_from rel S m \<Longrightarrow> (\<And>x. moves rel (f x)) \<Longrightarrow> moves_from rel S (then_do m f)"
  unfolding moves_def moves_from_def then_do_def by (auto split: prod.splits outcome.splits) (metis snd_conv onward)+

lemma moves_after: "(\<And>S. triple S S m (R S)) \<Longrightarrow> (\<And>S x. R S x \<Longrightarrow> moves_from rel S (f x)) \<Longrightarrow> moves rel (then_do m f)"
  unfolding moves_def moves_from_def triple_def then_do_def
  by (auto split: prod.splits outcome.splits) (metis fst_conv snd_conv grow subset_refl)+

lemma moves_summary: "moves rel (store_community_summary P category summary member_names)"
proof -
  have "moves_from rel S (case e of Some m \<Rightarrow> then_do (rewritten P m summary) (\<lambda>m'. then_do (put_memory P m') (\<lambda>_. give (mn_id m')))
      | None \<Rightarrow> store_new P summary tags conf)" if "\<forall>m. e = Some m \<longrightarrow> mn_id m \<in> S" for e tags conf S
    using that by (cases e) (auto intro!: from_moves[OF moves_store_new] from_triple[OF triple_rewrite] triple_give)
  then show ?thesis unfolding store_community_summary_def Let_def
    by (auto intro!: moves_steps moves_after[OF triple_tagged] from_bind)
qed

lemma moves_profile: "moves rel (store_user_profile P profile)"
  unfolding store_user_profile_def
proof (rule moves_after[OF triple_tagged])
  fix S and e :: "MemoryNode option"
  assume "\<forall>m. e = Some m \<longrightarrow> mn_id m \<in> S"
  then show "moves_from rel S (case e of Some m \<Rightarrow> then_do (rewritten P m profile) (\<lambda>m'. then_do (put_memory P m') (\<lambda>_.
         then_do (attempt (index_memory_entities P m')) (\<lambda>_. give (mn_id m'))))
     | None \<Rightarrow> store_new P profile [''user_profile'', ''scope:always'', ''source:enrichment''] (f32_of (8/10)))"
    by (cases e) (auto intro!: from_moves[OF moves_store_new] from_triple[OF triple_rewrite] triple_seq triple_attempt[OF triple_index] triple_give)
qed

end

end
