(* ===== verification/Facade_Sleep.thy ===== *)
theory Facade_Sleep
  imports Facade_Entities
begin

text \<open>
  Bounded maintenance for background workers (\<open>mentedb/src/sleep.rs\<close>): decay, archival, consolidation and entity linking over the
  first memories of the store, in the order of their identifiers.
\<close>

section \<open>Settings and results\<close>

record SleepMaintenanceConfig =
  sl_max_memories :: nat
  sl_apply_decay :: bool
  sl_decay_write_epsilon :: f32
  sl_evaluate_archival :: bool
  sl_apply_archival_deletes :: bool
  sl_run_consolidation :: bool
  sl_max_consolidation_clusters :: nat
  sl_consolidation_min_cluster_size :: nat
  sl_consolidation_similarity_threshold :: f32
  sl_link_entities :: bool

definition sleep_config_default :: SleepMaintenanceConfig where
  "sleep_config_default = \<lparr> sl_max_memories = 1000, sl_apply_decay = True, sl_decay_write_epsilon = f32_of (1/1000),
     sl_evaluate_archival = True, sl_apply_archival_deletes = False, sl_run_consolidation = True, sl_max_consolidation_clusters = 4,
     sl_consolidation_min_cluster_size = 2, sl_consolidation_similarity_threshold = f32_of (85/100), sl_link_entities = True \<rparr>"

datatype SleepMaintenanceStage = Stage_Decay | Stage_Archival | Stage_Consolidation | Stage_EntityLinking

record SleepMaintenanceIssue =
  si_stage :: SleepMaintenanceStage
  si_memory_id :: "MemoryId option"
  si_message :: string

record SleepMaintenanceResult =
  sr_processed_memories :: nat
  sr_decay_updated :: nat
  sr_archival_evaluated :: nat
  sr_archival_keep :: nat
  sr_archival_archive :: nat
  sr_archival_delete :: nat
  sr_archival_consolidate :: nat
  sr_archival_delete_applied :: nat
  sr_consolidation_candidates :: nat
  sr_consolidated :: nat
  sr_consolidated_memory_ids :: "MemoryId list"
  sr_entity_pairs_linked :: nat
  sr_entity_edges_created :: nat
  sr_entity_pairs_ambiguous :: nat
  sr_enrichment_pending :: bool
  sr_enrichment_candidates :: nat
  sr_issues :: "SleepMaintenanceIssue list"

definition sleep_result_default :: SleepMaintenanceResult where
  "sleep_result_default = \<lparr> sr_processed_memories = 0, sr_decay_updated = 0, sr_archival_evaluated = 0, sr_archival_keep = 0,
     sr_archival_archive = 0, sr_archival_delete = 0, sr_archival_consolidate = 0, sr_archival_delete_applied = 0,
     sr_consolidation_candidates = 0, sr_consolidated = 0, sr_consolidated_memory_ids = [], sr_entity_pairs_linked = 0,
     sr_entity_edges_created = 0, sr_entity_pairs_ambiguous = 0, sr_enrichment_pending = False, sr_enrichment_candidates = 0, sr_issues = [] \<rparr>"

text \<open>The text of an error; identifiers of every kind are displayed as their UUID.\<close>

fun error_display :: "(MemoryId \<Rightarrow> string) \<Rightarrow> MenteError \<Rightarrow> string" where
  "error_display id_show (MemoryNotFound i) = ''memory not found: '' @ id_show i"
| "error_display id_show (Storage e) = ''storage error: '' @ e"
| "error_display id_show (Index e) = ''index error: '' @ e"
| "error_display id_show (Query e) = ''query error: '' @ e"
| "error_display id_show (Serialization e) = ''serialization error: '' @ e"
| "error_display id_show (InvalidInput e) = ''invalid input: '' @ e"
| "error_display id_show (CapacityExceeded e) = ''capacity exceeded: '' @ e"
| "error_display id_show (EmbeddingDimensionMismatch got expected) =
     ''embedding dimension mismatch: got '' @ show_nat got @ '', expected '' @ show_nat expected"
| "error_display id_show (PermissionDenied (AgentId a) (SpaceId sp)) =
     ''permission denied: agent '' @ id_show (MemoryId a) @ '' cannot access space '' @ id_show (MemoryId sp)"
| "error_display id_show (ResourceExhausted e) = ''resource exhausted: '' @ e"
| "error_display id_show (Io e) = e"

section \<open>Stages\<close>

definition load_sleep_maintenance_memories :: "Ports \<Rightarrow> nat \<Rightarrow> MemoryNode list Db" where
  "load_sleep_maintenance_memories P max_memories = (if max_memories = 0 then give []
     else read_db (\<lambda>b. take max_memories (sort_key mn_id (all_memories (po_codec P) b))))"

definition sleep_decay_one :: "Ports \<Rightarrow> SleepMaintenanceConfig \<Rightarrow> Timestamp \<Rightarrow> MemoryNode \<Rightarrow> nat Db" where
  "sleep_decay_one P cfg now m = then_do (read_config cf_decay_config) (\<lambda>decay.
     then_do (lift (compute_decay (po_exp2 P) (po_logn P) decay (mn_salience m) (mn_created_at m) (mn_accessed_at m) (mn_access_count m) now)) (\<lambda>new_salience.
     if fl_le (fl_abs (fl_sub f32_of new_salience (mn_salience m))) (sl_decay_write_epsilon cfg) then give 0
     else then_do (put_memory P (m\<lparr>mn_salience := new_salience\<rparr>)) (\<lambda>_. give 1)))"

definition apply_sleep_decay :: "Ports \<Rightarrow> SleepMaintenanceConfig \<Rightarrow> MemoryNode list \<Rightarrow> SleepMaintenanceResult \<Rightarrow> SleepMaintenanceResult Db" where
  "apply_sleep_decay P cfg loaded r = then_do (current_time_us P) (\<lambda>now.
     then_do (total_of (sleep_decay_one P cfg now) loaded) (\<lambda>n. give (r\<lparr>sr_decay_updated := sr_decay_updated r + n\<rparr>)))"

fun apply_decision :: "Ports \<Rightarrow> SleepMaintenanceConfig \<Rightarrow> MemoryId \<times> ArchivalDecision \<Rightarrow> SleepMaintenanceResult \<Rightarrow> SleepMaintenanceResult Db" where
  "apply_decision P cfg (i, ArchivalDecision.Keep) r = give (r\<lparr>sr_archival_keep := Suc (sr_archival_keep r)\<rparr>)"
| "apply_decision P cfg (i, Archive) r = give (r\<lparr>sr_archival_archive := Suc (sr_archival_archive r)\<rparr>)"
| "apply_decision P cfg (i, Delete) r = (let r = r\<lparr>sr_archival_delete := Suc (sr_archival_delete r)\<rparr> in
     if sl_apply_archival_deletes cfg
     then then_do (mentedb_forget P i) (\<lambda>_. give (r\<lparr>sr_archival_delete_applied := Suc (sr_archival_delete_applied r)\<rparr>)) else give r)"
| "apply_decision P cfg (i, Consolidate _) r = give (r\<lparr>sr_archival_consolidate := Suc (sr_archival_consolidate r)\<rparr>)"

definition evaluate_sleep_archival :: "Ports \<Rightarrow> SleepMaintenanceConfig \<Rightarrow> MemoryNode list \<Rightarrow> SleepMaintenanceResult \<Rightarrow> SleepMaintenanceResult Db" where
  "evaluate_sleep_archival P cfg loaded r = then_do (evaluate_archival_batch P loaded) (\<lambda>decisions.
     each_with (apply_decision P cfg) decisions (r\<lparr>sr_archival_evaluated := length decisions\<rparr>))"

text \<open>The clustering always returns (lemma \<open>find_candidates_returns\<close>): the last branch is not taken.\<close>

definition the_candidates :: "ConsolidationCandidate list option \<Rightarrow> ConsolidationCandidate list Db" where
  "the_candidates cs = (case cs of Some xs \<Rightarrow> give xs | None \<Rightarrow> lift Panic)"

definition find_sleep_consolidation_candidates :: "Ports \<Rightarrow> SleepMaintenanceConfig \<Rightarrow> MemoryNode list \<Rightarrow> ConsolidationCandidate list Db" where
  "find_sleep_consolidation_candidates P cfg loaded = then_do (current_time_us P) (\<lambda>now.
     let eligible = filter (\<lambda>m. should_consolidate m now) loaded in
     if eligible = [] then give []
     else the_candidates (find_candidates (po_root_order P) eligible (sl_consolidation_min_cluster_size cfg) (sl_consolidation_similarity_threshold cfg)))"

text \<open>A cluster that cannot be consolidated is reported, and the next one is tried.\<close>

definition sleep_consolidate_one :: "Ports \<Rightarrow> ConsolidationCandidate \<Rightarrow> SleepMaintenanceResult \<Rightarrow> SleepMaintenanceResult Db" where
  "sleep_consolidate_one P c r s = (case consolidate_cluster P (cc_memories c) s of
     (Ok i, s') \<Rightarrow> (Ok (r\<lparr>sr_consolidated := Suc (sr_consolidated r), sr_consolidated_memory_ids := sr_consolidated_memory_ids r @ [i]\<rparr>), s')
   | (Err e, s') \<Rightarrow> (Ok (r\<lparr>sr_issues := sr_issues r
       @ [\<lparr> si_stage = Stage_Consolidation, si_memory_id = None, si_message = error_display (po_show P) e \<rparr>]\<rparr>), s')
   | (Panic, s') \<Rightarrow> (Panic, s'))"

definition run_sleep_consolidation :: "Ports \<Rightarrow> SleepMaintenanceConfig \<Rightarrow> MemoryNode list \<Rightarrow> SleepMaintenanceResult \<Rightarrow> SleepMaintenanceResult Db" where
  "run_sleep_consolidation P cfg loaded r = then_do (find_sleep_consolidation_candidates P cfg loaded) (\<lambda>candidates.
     each_with (sleep_consolidate_one P) (take (sl_max_consolidation_clusters cfg) candidates)
       (r\<lparr>sr_consolidation_candidates := length candidates\<rparr>))"

definition sleep_link :: "Ports \<Rightarrow> SleepMaintenanceResult \<Rightarrow> SleepMaintenanceResult Db" where
  "sleep_link P r = then_do (link_entities P) (\<lambda>e. give (r\<lparr>sr_entity_pairs_linked := lr_linked e,
     sr_entity_edges_created := lr_edges_created e, sr_entity_pairs_ambiguous := lr_ambiguous e\<rparr>))"

definition sleep_enrichment :: "Ports \<Rightarrow> SleepMaintenanceResult \<Rightarrow> SleepMaintenanceResult Db" where
  "sleep_enrichment P r = then_do needs_enrichment (\<lambda>pending.
     then_do (if pending then enrichment_candidates P else give []) (\<lambda>candidates.
     give (r\<lparr>sr_enrichment_pending := pending, sr_enrichment_candidates := length candidates\<rparr>)))"

section \<open>A run\<close>

definition run_sleep_maintenance :: "Ports \<Rightarrow> SleepMaintenanceConfig \<Rightarrow> SleepMaintenanceResult Db" where
  "run_sleep_maintenance P cfg =
     then_do (load_sleep_maintenance_memories P (sl_max_memories cfg)) (\<lambda>first.
     then_do (let r = sleep_result_default\<lparr>sr_processed_memories := length first\<rparr> in
       if sl_apply_decay cfg then apply_sleep_decay P cfg first r else give r) (\<lambda>r.
     then_do (load_sleep_maintenance_memories P (sl_max_memories cfg)) (\<lambda>loaded.
     then_do (if sl_evaluate_archival cfg then evaluate_sleep_archival P cfg loaded r else give r) (\<lambda>r.
     then_do (if sl_run_consolidation cfg then run_sleep_consolidation P cfg loaded r else give r) (\<lambda>r.
     then_do (if sl_link_entities cfg then sleep_link P r else give r) (sleep_enrichment P))))))"

text \<open>The lease is a lock on a file: \<open>lock\<close> is what the operating system answers, with \<open>False\<close> for a lock held by another process.\<close>

definition try_run_sleep_maintenance :: "Ports \<Rightarrow> bool MenteResult \<Rightarrow> SleepMaintenanceConfig \<Rightarrow> SleepMaintenanceResult option Db" where
  "try_run_sleep_maintenance P lock cfg = then_do (lift lock) (\<lambda>acquired.
     if \<not> acquired then give None else then_do (run_sleep_maintenance P cfg) (\<lambda>r. give (Some r)))"

section \<open>The clustering returns\<close>

lemma find_candidates_returns: "find_candidates order ms k thr \<noteq> None"
proof (cases "ms = []")
  case False
  obtain parent rank where s: "link_pairs ms thr (all_pairs (length ms)) ([0..<length ms], replicate (length ms) 0) = Some (parent, rank)"
    "uf_inv (length ms) (similar_pairs ms thr) parent" using link_all_spec by (metis prod.collapse)
  moreover obtain q cl where "group_roots parent [0..<length ms] Map.empty = Some (q, cl)"
    using group_roots_spec[OF s(2), of "[0..<length ms]" Map.empty] by auto
  ultimately show ?thesis using False by (simp add: find_candidates_def Let_def)
qed (simp add: find_candidates_def)

section \<open>What a run reports\<close>

text \<open>What the successful results of a step satisfy, whatever the state.\<close>

definition yields :: "'a Db \<Rightarrow> ('a \<Rightarrow> bool) \<Rightarrow> bool" where
  "yields m Q \<longleftrightarrow> (\<forall>s x s'. m s = (Ok x, s') \<longrightarrow> Q x)"

lemma yields_bind: "yields m Q \<Longrightarrow> (\<And>x. Q x \<Longrightarrow> yields (f x) R) \<Longrightarrow> yields (then_do m f) R"
  unfolding yields_def then_do_def by (auto split: prod.splits outcome.splits) metis

lemma yields_seq: "(\<And>x. yields (f x) R) \<Longrightarrow> yields (then_do m f) R"
  unfolding yields_def then_do_def by (auto split: prod.splits outcome.splits)

lemma yields_give: "Q x \<Longrightarrow> yields (give x) Q"
  by (simp add: yields_def give_def)

lemma yields_weaken: "yields m Q \<Longrightarrow> (\<And>x. Q x \<Longrightarrow> R x) \<Longrightarrow> yields m R"
  unfolding yields_def by blast

lemma yields_total_of: "(\<And>x. yields (f x) (\<lambda>n. n \<le> 1)) \<Longrightarrow> yields (total_of f xs) (\<lambda>n. n \<le> length xs)"
  by (induction xs) (auto intro!: yields_give yields_bind)

text \<open>A loop of \<open>n\<close> rounds: the invariant holds after as many rounds as elements.\<close>

lemma yields_each_with:
  assumes "\<And>x r n. I n r \<Longrightarrow> yields (f x r) (I (Suc n))" "I n r"
  shows "yields (each_with f xs r) (I (n + length xs))"
  using assms(2)
proof (induction xs arbitrary: n r)
  case (Cons x xs)
  have "yields (each_with f xs r') (I (n + length (x # xs)))" if "I (Suc n) r'" for r' using Cons.IH[OF that] by simp
  then show ?case unfolding each_with.simps by (intro yields_bind[OF assms(1)[OF Cons.prems]])
qed (simp add: yields_give)

lemma yields_load: "yields (load_sleep_maintenance_memories P k) (\<lambda>ms. length ms \<le> k)"
  by (auto simp: load_sleep_maintenance_memories_def yields_def give_def read_db_def)

text \<open>
  The report while the stages run: \<open>e\<close> memories were evaluated, \<open>n\<close> of them decided and \<open>c\<close> clusters tried.
\<close>

definition report_inv :: "SleepMaintenanceConfig \<Rightarrow> nat \<Rightarrow> nat \<Rightarrow> nat \<Rightarrow> SleepMaintenanceResult \<Rightarrow> bool" where
  "report_inv cfg e n c r \<longleftrightarrow> sr_processed_memories r \<le> sl_max_memories cfg \<and> sr_decay_updated r \<le> sr_processed_memories r
     \<and> sr_archival_evaluated r = e
     \<and> sr_archival_keep r + sr_archival_archive r + sr_archival_delete r + sr_archival_consolidate r = n
     \<and> sr_archival_delete_applied r = (if sl_apply_archival_deletes cfg then sr_archival_delete r else 0)
     \<and> sr_consolidated r = length (sr_consolidated_memory_ids r) \<and> sr_consolidated r + length (sr_issues r) = c"

lemma yields_decay:
  assumes "length ms \<le> sl_max_memories cfg"
  shows "yields (let r = sleep_result_default\<lparr>sr_processed_memories := length ms\<rparr> in if sl_apply_decay cfg then apply_sleep_decay P cfg ms r else give r)
    (report_inv cfg 0 0 0)"
proof -
  have one: "yields (sleep_decay_one P cfg now m) (\<lambda>n. n \<le> 1)" for now m
    unfolding sleep_decay_one_def by (auto intro!: yields_seq yields_give)
  show ?thesis unfolding apply_sleep_decay_def Let_def using assms
    by (auto intro!: yields_seq yields_bind[OF yields_total_of[OF one]] yields_give simp: report_inv_def sleep_result_default_def)
qed

lemma yields_decision: "report_inv cfg e n c r \<Longrightarrow> yields (apply_decision P cfg x r) (report_inv cfg e (Suc n) c)"
  by (cases "(P, cfg, x, r)" rule: apply_decision.cases) (auto simp: Let_def report_inv_def intro!: yields_give yields_seq)

lemma yields_archival:
  assumes "report_inv cfg 0 0 0 r"
  shows "yields (evaluate_sleep_archival P cfg ms r) (report_inv cfg (length ms) (length ms) 0)"
proof -
  have "yields (evaluate_archival_batch P ms) (\<lambda>ds. length ds = length ms)"
    unfolding evaluate_archival_batch_def by (auto intro!: yields_seq yields_give simp: evaluate_batch_def)
  moreover have "yields (each_with (apply_decision P cfg) ds (r\<lparr>sr_archival_evaluated := length ds\<rparr>)) (report_inv cfg (length ms) (length ms) 0)"
    if l: "length ds = length ms" for ds
  proof -
    have "report_inv cfg (length ms) 0 0 (r\<lparr>sr_archival_evaluated := length ds\<rparr>)" using assms l by (auto simp: report_inv_def)
    from yields_each_with[where I = "\<lambda>n. report_inv cfg (length ms) n 0", OF yields_decision this] show ?thesis by (simp flip: l)
  qed
  ultimately show ?thesis unfolding evaluate_sleep_archival_def by (rule yields_bind)
qed

lemma yields_consolidation:
  assumes "report_inv cfg e n 0 r"
  shows "yields (run_sleep_consolidation P cfg ms r) (\<lambda>r. \<exists>c \<le> sl_max_consolidation_clusters cfg. report_inv cfg e n c r)"
proof -
  have one: "yields (sleep_consolidate_one P x r) (report_inv cfg e n (Suc c))" if "report_inv cfg e n c r" for x r c
    using that by (auto simp: yields_def sleep_consolidate_one_def report_inv_def split: prod.splits outcome.splits)
  have "yields (each_with (sleep_consolidate_one P) (take k cs) (r\<lparr>sr_consolidation_candidates := length cs\<rparr>))
      (\<lambda>r. \<exists>c \<le> k. report_inv cfg e n c r)" for cs k
  proof -
    have "report_inv cfg e n 0 (r\<lparr>sr_consolidation_candidates := length cs\<rparr>)" using assms by (auto simp: report_inv_def)
    from yields_each_with[where I = "report_inv cfg e n" and xs = "take k cs", OF one this] show ?thesis
      by (rule yields_weaken) (auto intro: exI[of _ "min (length cs) k"])
  qed
  then show ?thesis unfolding run_sleep_consolidation_def by (intro yields_seq)
qed

text \<open>The report after the archival stage, and at the end.\<close>

definition evaluated_inv :: "SleepMaintenanceConfig \<Rightarrow> nat \<Rightarrow> SleepMaintenanceResult \<Rightarrow> bool" where
  "evaluated_inv cfg k r \<longleftrightarrow> (\<exists>e \<le> sl_max_memories cfg. \<exists>c \<le> k. report_inv cfg e e c r)"

lemma yields_finish:
  assumes "report_inv cfg e n c r"
  shows "yields (then_do (if sl_link_entities cfg then sleep_link P r else give r) (sleep_enrichment P)) (report_inv cfg e n c)"
proof (rule yields_bind)
  show "yields (if sl_link_entities cfg then sleep_link P r else give r) (report_inv cfg e n c)"
    using assms by (auto simp: sleep_link_def report_inv_def intro!: yields_seq yields_give)
  show "yields (sleep_enrichment P r1) (report_inv cfg e n c)" if "report_inv cfg e n c r1" for r1
    using that by (auto simp: sleep_enrichment_def report_inv_def intro!: yields_seq yields_give)
qed

lemma yields_clusters:
  assumes "evaluated_inv cfg 0 r"
  shows "yields (then_do (if sl_run_consolidation cfg then run_sleep_consolidation P cfg loaded r else give r)
      (\<lambda>r. then_do (if sl_link_entities cfg then sleep_link P r else give r) (sleep_enrichment P)))
    (evaluated_inv cfg (sl_max_consolidation_clusters cfg))"
proof -
  obtain e where e: "e \<le> sl_max_memories cfg" "report_inv cfg e e 0 r" using assms by (auto simp: evaluated_inv_def)
  have "yields (if sl_run_consolidation cfg then run_sleep_consolidation P cfg loaded r else give r)
      (\<lambda>r. \<exists>c \<le> sl_max_consolidation_clusters cfg. report_inv cfg e e c r)"
    using yields_consolidation[OF e(2)] e(2) by (auto intro: yields_give)
  then show ?thesis
  proof (rule yields_bind)
    fix r1
    assume "\<exists>c \<le> sl_max_consolidation_clusters cfg. report_inv cfg e e c r1"
    then obtain c where c: "c \<le> sl_max_consolidation_clusters cfg" "report_inv cfg e e c r1" by blast
    show "yields (then_do (if sl_link_entities cfg then sleep_link P r1 else give r1) (sleep_enrichment P))
        (evaluated_inv cfg (sl_max_consolidation_clusters cfg))"
      by (rule yields_weaken[OF yields_finish[OF c(2)]]) (use e(1) c(1) in \<open>auto simp: evaluated_inv_def\<close>)
  qed
qed

lemma yields_sleep: "yields (run_sleep_maintenance P cfg) (evaluated_inv cfg (sl_max_consolidation_clusters cfg))"
  unfolding run_sleep_maintenance_def
proof (rule yields_bind[OF yields_load], rule yields_bind[OF yields_decay], assumption, rule yields_bind[OF yields_load], rule yields_bind[OF _ yields_clusters])
  fix first r and loaded :: "MemoryNode list"
  assume r: "report_inv cfg 0 0 0 r" and l: "length loaded \<le> sl_max_memories cfg"
  show "yields (if sl_evaluate_archival cfg then evaluate_sleep_archival P cfg loaded r else give r) (evaluated_inv cfg 0)"
    using l r by (auto simp: evaluated_inv_def intro!: yields_weaken[OF yields_archival[OF r, of P loaded]] yields_give)
qed assumption

text \<open>A maintenance run stays within its budget and reports what it did: no more memories than the limit are looked at, at most those
  are rewritten, every evaluated memory is counted under exactly one decision, deletions are applied exactly when they are allowed,
  and at most the allowed number of clusters is tried, each of them either consolidated or reported as an issue.\<close>

theorem sleep_within_budget:
  assumes "run_sleep_maintenance P cfg s = (Ok r, s')"
  shows "sr_processed_memories r \<le> sl_max_memories cfg \<and> sr_decay_updated r \<le> sr_processed_memories r
    \<and> sr_archival_evaluated r \<le> sl_max_memories cfg
    \<and> sr_archival_keep r + sr_archival_archive r + sr_archival_delete r + sr_archival_consolidate r = sr_archival_evaluated r
    \<and> sr_archival_delete_applied r = (if sl_apply_archival_deletes cfg then sr_archival_delete r else 0)
    \<and> sr_consolidated r = length (sr_consolidated_memory_ids r)
    \<and> sr_consolidated r + length (sr_issues r) \<le> sl_max_consolidation_clusters cfg"
proof -
  have "evaluated_inv cfg (sl_max_consolidation_clusters cfg) r" using yields_sleep assms unfolding yields_def by blast
  then show ?thesis by (auto simp: evaluated_inv_def report_inv_def)
qed

section \<open>What a run leaves\<close>

lemma triple_total_of: "(\<And>x. x \<in> set xs \<Longrightarrow> triple N S (f x) any_result) \<Longrightarrow> triple N S (total_of f xs) any_result"
  by (induction xs) (auto intro!: triple_give triple_bind[where R = any_result])

lemma triple_load: "triple N S (load_sleep_maintenance_memories P k) (\<lambda>ms. \<forall>m \<in> set ms. mn_id m \<in> S)"
  unfolding load_sleep_maintenance_memories_def
  by (auto intro!: triple_give triple_read_db simp: all_memories_def set_map_filter dest!: in_set_takeD dest: steady_known)

lemma triple_sleep_decay: "\<forall>m \<in> set ms. mn_id m \<in> S \<Longrightarrow> triple N S (apply_sleep_decay P cfg ms r) any_result"
  unfolding apply_sleep_decay_def sleep_decay_one_def
  by (intro triple_seq triple_time triple_total_of triple_give triple_read_config triple_lift TrueI)
    (auto intro!: triple_give triple_seq triple_put)

context movement
begin

lemma moves_decision:
  assumes "sl_apply_archival_deletes cfg \<Longrightarrow> (\<And>i. moves rel (mentedb_forget P i))"
  shows "moves rel (apply_decision P cfg x r)"
  using assms by (cases "(P, cfg, x, r)" rule: apply_decision.cases) (auto simp: Let_def intro!: moves_give moves_bind)

lemma moves_consolidate_one: "moves rel (sleep_consolidate_one P c r)"
  using moves_consolidate[of P "cc_memories c"] unfolding moves_def sleep_consolidate_one_def
  by (auto split: prod.splits outcome.splits) (metis snd_conv)+

lemma moves_sleep:
  assumes "sl_apply_archival_deletes cfg \<Longrightarrow> (\<And>i. moves rel (mentedb_forget P i))"
  shows "moves rel (run_sleep_maintenance P cfg)"
proof -
  have decay: "moves_from rel S (let r = sleep_result_default\<lparr>sr_processed_memories := length ms\<rparr> in
      if sl_apply_decay cfg then apply_sleep_decay P cfg ms r else give r)" if "\<forall>m \<in> set ms. mn_id m \<in> S" for S ms
    unfolding Let_def using from_triple[OF triple_sleep_decay[OF that]] by (auto intro: from_moves moves_give)
  have "moves rel (load_sleep_maintenance_memories P k)" for k
    by (rule moves_triple[where R = any_result], rule triple_weaken[OF triple_load]) simp
  moreover have "moves rel (the_candidates cs)" for cs
    by (auto simp: the_candidates_def intro: moves_give moves_triple[OF triple_lift[where R = any_result]] split: option.split)
  ultimately show ?thesis
    unfolding run_sleep_maintenance_def evaluate_sleep_archival_def evaluate_archival_batch_def run_sleep_consolidation_def
      find_sleep_consolidation_candidates_def sleep_link_def sleep_enrichment_def needs_enrichment_def enrichment_candidates_def Let_def
    by (intro moves_after[OF triple_load] from_bind[OF decay[unfolded Let_def]])
      (auto intro!: from_moves moves_steps moves_each_with moves_consolidate_one moves_link_entities moves_decision[OF assms])
qed

end

text \<open>Maintenance that may not delete loses nothing: on a database whose graph mirrors its store, a run without archival deletions,
  failed runs included, keeps every memory, and graph and store still agree; recommendations to archive or delete are reported only.\<close>

theorem sleep_keeps_memories:
  assumes "\<not> sl_apply_archival_deletes cfg" "graph_nodes (read_graph (md_graph s)) = set (memory_ids s)"
    "backend_ok (md_db s)" "integrity (bk_tables (md_db s))"
  shows "let s' = snd (run_sleep_maintenance P cfg s) in set (memory_ids s) \<subseteq> set (memory_ids s')
    \<and> graph_nodes (read_graph (md_graph s')) = set (memory_ids s') \<and> backend_ok (md_db s') \<and> integrity (bk_tables (md_db s'))"
proof -
  have "good (set (memory_ids s)) (set (memory_ids s)) s"
    using assms(2-4) by (simp add: good_def steady_def memory_ids_def all_ids_set)
  from kept.moves_step[OF kept.moves_sleep this, of cfg P] assms(1) show ?thesis
    by (auto simp: good_def steady_def memory_ids_def all_ids_set Let_def)
qed

definition quiet_config :: SleepMaintenanceConfig where
  "quiet_config = sleep_config_default\<lparr>sl_apply_decay := False, sl_evaluate_archival := False, sl_run_consolidation := False, sl_link_entities := False\<rparr>"

lemma quiet_run: "run_sleep_maintenance P quiet_config s =
    (Ok (sleep_result_default\<lparr>sr_processed_memories := length (take 1000 (sort_key mn_id (all_memories (po_codec P) (md_db s)))),
       sr_enrichment_pending := nc_enabled (cf_enrichment_config (md_config s)) \<and> md_enrichment_pending s,
       sr_enrichment_candidates := (if nc_enabled (cf_enrichment_config (md_config s)) \<and> md_enrichment_pending s
         then length (filter (is_candidate (md_last_enrichment_turn s)) (all_memories (po_codec P) (md_db s))) else 0)\<rparr>), s)"
  by (simp add: run_sleep_maintenance_def quiet_config_def sleep_config_default_def load_sleep_maintenance_memories_def sleep_enrichment_def
      needs_enrichment_def enrichment_candidates_def observe_def db_defs sleep_result_default_def)

theorem sleep_within_budget_witness:
  "\<exists>r. fst (run_sleep_maintenance sample_ports quiet_config sample_facade) = Ok r \<and> sr_processed_memories r = 1 \<and> sr_decay_updated r \<le> 1"
proof -
  obtain r s' where run: "run_sleep_maintenance sample_ports quiet_config sample_facade = (Ok r, s')" "sr_processed_memories r = 1"
    by (simp add: quiet_run sample_ports_def sample_parts all_memories_def all_memory_ids_def sample_store_def List.map_filter_simps get_memory_def
        row_of_def sleep_result_default_def)
  then show ?thesis using sleep_within_budget[OF run(1)] by auto
qed

theorem sleep_keeps_memories_witness:
  "MemoryId 1 \<in> set (memory_ids (snd (run_sleep_maintenance sample_ports sleep_config_default linking_sample)))"
proof -
  have "\<not> sl_apply_archival_deletes sleep_config_default" by (simp add: sleep_config_default_def)
  moreover have "graph_nodes (gm_graph gm_new) = {}" by (simp add: gm_new_def graph_new_def graph_nodes_def)
  then have "graph_nodes (read_graph (md_graph linking_sample)) = set (memory_ids linking_sample)"
    by (auto simp: linking_sample_def memory_ids_def all_memory_ids_def memory_row_def Sqlite_Store.sample_memory_def memory_node_new_def read_graph_def)
  moreover have "backend_ok (md_db linking_sample)"
    by (simp add: linking_sample_def backend_ok_def tables_ok_def init_tables_def vec_ok_def memory_row_def Sqlite_Store.sample_memory_def
        memory_node_new_def backend_open_def open_tables_def Let_def)
  moreover have "integrity (bk_tables (md_db linking_sample))"
    by (simp add: linking_sample_def refs_defs refs_in_def init_tables_def)
  moreover have "MemoryId 1 \<in> set (memory_ids linking_sample)"
    by (simp add: linking_sample_def memory_ids_def all_memory_ids_def memory_row_def Sqlite_Store.sample_memory_def memory_node_new_def)
  ultimately show ?thesis using sleep_keeps_memories[of sleep_config_default linking_sample sample_ports] by (auto simp: Let_def)
qed

end
