(* ===== verification/Server_Rate_Limit.thy ===== *)
theory Server_Rate_Limit
  imports Core_Types Rust_Float
begin

text \<open>
  The errors of the HTTP server and its rate limiter (\<open>mentedb-server/src/error.rs\<close> and \<open>rate_limit.rs\<close>). An instant is a number
  of nanoseconds on the monotone clock; the tokens that time brings back are computed in \<open>f64\<close> as in the code. The locale
  \<open>metered\<close> is what the limit rests on: a step pays for a request with the tokens it has or with the time that has passed.
\<close>

section \<open>Errors as responses\<close>

datatype ApiError =
  BadRequest string
| ApiNotFound string
| Unauthorized string
| Forbidden string
| RateLimited
| ApiInternal string
| ServiceUnavailable string

fun api_error_display :: "ApiError \<Rightarrow> string" where
  "api_error_display (BadRequest msg) = ''bad request: '' @ msg"
| "api_error_display (ApiNotFound msg) = ''not found: '' @ msg"
| "api_error_display (Unauthorized msg) = ''unauthorized: '' @ msg"
| "api_error_display (Forbidden msg) = ''forbidden: '' @ msg"
| "api_error_display RateLimited = ''rate limited''"
| "api_error_display (ApiInternal msg) = ''internal error: '' @ msg"
| "api_error_display (ServiceUnavailable msg) = ''service unavailable: '' @ msg"

text \<open>A response is one of the inner service or an error: a status and the text under the key \<open>error\<close> of its JSON body.\<close>

datatype 'r response = Served 'r | ErrorResponse nat string

fun into_response :: "ApiError \<Rightarrow> 'r response" where
  "into_response (BadRequest msg) = ErrorResponse 400 msg"
| "into_response (ApiNotFound msg) = ErrorResponse 404 msg"
| "into_response (Unauthorized msg) = ErrorResponse 401 msg"
| "into_response (Forbidden msg) = ErrorResponse 403 msg"
| "into_response RateLimited = ErrorResponse 429 ''too many requests''"
| "into_response (ApiInternal msg) = ErrorResponse 500 msg"
| "into_response (ServiceUnavailable msg) = ErrorResponse 503 msg"

section \<open>The token bucket\<close>

type_synonym Instant = nat

record Bucket =
  tokens :: nat
  last_refill :: Instant
  bucket_max_tokens :: nat
  bucket_refill_rate :: nat

definition bucket_new :: "Instant \<Rightarrow> nat \<Rightarrow> nat \<Rightarrow> Bucket" where
  "bucket_new now max_tokens refill_rate =
     \<lparr>tokens = max_tokens, last_refill = now, bucket_max_tokens = max_tokens, bucket_refill_rate = refill_rate\<rparr>"

text \<open>\<open>Duration::as_secs_f64\<close> adds the seconds and the quotient of the nanoseconds; \<open>as u32\<close> truncates and saturates.\<close>

abbreviation nanos_per_sec :: nat where "nanos_per_sec \<equiv> 1000000000"

definition as_secs_f64 :: "nat \<Rightarrow> f64" where
  "as_secs_f64 elapsed = fl_add f64_of (f64_of (of_nat (elapsed div nanos_per_sec)))
     (fl_div f64_of (f64_of (of_nat (elapsed mod nanos_per_sec))) (f64_of (of_nat nanos_per_sec)))"

fun fl_to_u32 :: "fl \<Rightarrow> nat" where
  "fl_to_u32 NaN = 0"
| "fl_to_u32 (Inf s) = (if s then 0 else 4294967295)"
| "fl_to_u32 (Fin a) = nat (min 4294967295 \<lfloor>a\<rfloor>)"

definition refill_for :: "nat \<Rightarrow> nat \<Rightarrow> nat" where
  "refill_for elapsed refill_rate = fl_to_u32 (fl_mul f64_of (as_secs_f64 elapsed) (f64_of (of_nat refill_rate)))"

definition refilled :: "Bucket \<Rightarrow> Instant \<Rightarrow> Bucket" where
  "refilled b now = (let refill = refill_for (now - last_refill b) (bucket_refill_rate b) in
     if refill > 0 then b\<lparr>tokens := min (wrap32 (tokens b + refill)) (bucket_max_tokens b), last_refill := now\<rparr> else b)"

definition try_consume :: "Bucket \<Rightarrow> Instant \<Rightarrow> bool \<times> Bucket" where
  "try_consume b now = (let b = refilled b now in
     if tokens b > 0 then (True, b\<lparr>tokens := tokens b - 1\<rparr>) else (False, b))"

section \<open>The limiter\<close>

datatype IpAddr = V4 nat | V6 nat

record RateLimiter =
  buckets :: "IpAddr \<rightharpoonup> Bucket"
  limiter_max_tokens :: nat
  limiter_refill_rate :: nat

definition rate_limiter_new :: "nat \<Rightarrow> nat \<Rightarrow> RateLimiter" where
  "rate_limiter_new max_tokens refill_rate =
     \<lparr>buckets = Map.empty, limiter_max_tokens = max_tokens, limiter_refill_rate = refill_rate\<rparr>"

definition rate_limiter_default :: RateLimiter where
  "rate_limiter_default = rate_limiter_new 100 10"

definition client_ip :: "IpAddr option \<Rightarrow> IpAddr" where
  "client_ip connect_info = (case connect_info of Some ip \<Rightarrow> ip | None \<Rightarrow> V4 0)"

definition bucket_of :: "RateLimiter \<Rightarrow> Instant \<Rightarrow> IpAddr \<Rightarrow> Bucket" where
  "bucket_of l now ip = (case buckets l ip of Some b \<Rightarrow> b
     | None \<Rightarrow> bucket_new now (limiter_max_tokens l) (limiter_refill_rate l))"

definition limiter_check :: "RateLimiter \<Rightarrow> Instant \<Rightarrow> IpAddr \<Rightarrow> bool \<times> RateLimiter" where
  "limiter_check l now ip = (case try_consume (bucket_of l now ip) now of
     (allowed, b) \<Rightarrow> (allowed, l\<lparr>buckets := (buckets l)(ip \<mapsto> b)\<rparr>))"

definition rate_limit_call :: "('q \<Rightarrow> 'r response) \<Rightarrow> RateLimiter \<Rightarrow> Instant \<Rightarrow> IpAddr option \<Rightarrow> 'q \<Rightarrow> 'r response \<times> RateLimiter" where
  "rate_limit_call inner l now connect_info req = (case limiter_check l now (client_ip connect_info) of
     (allowed, l) \<Rightarrow> (if allowed then inner req else ErrorResponse 429 ''too many requests'', l))"

text \<open>The decisions on a sequence of requests, each with its address and its instant.\<close>

fun limiter_run :: "RateLimiter \<Rightarrow> (IpAddr \<times> Instant) list \<Rightarrow> bool list \<times> RateLimiter" where
  "limiter_run l [] = ([], l)"
| "limiter_run l ((ip, now) # reqs) = (case limiter_check l now ip of
     (allowed, l) \<Rightarrow> (case limiter_run l reqs of (ds, l) \<Rightarrow> (allowed # ds, l)))"

section \<open>Rounding errors of the refill\<close>

lemma rnd_even_half: "of_int (rnd_even x) \<le> x + 1 / 2" "x - 1 / 2 \<le> of_int (rnd_even x)"
  using of_int_floor_le[of x] floor_correct[of x] by (simp_all add: rnd_even_def Let_def del: of_int_floor_le)

lemma rnd_rel:
  assumes "x = 0 \<or> 2 powi (emin + int p - 1) \<le> x" "0 < p"
  shows "rnd p emin x \<le> x * (1 + 2 powi (- int p)) \<and> x * (1 - 2 powi (- int p)) \<le> rnd p emin x"
proof (cases "x = 0")
  case False
  then have lo: "2 powi (emin + int p - 1) \<le> x" using assms by simp
  then have x: "0 < x" using powi_pos2[of "emin + int p - 1"] by linarith
  have "(2::rat) powi (emin + int p - 1) < 2 powi (flog2 x + 1)"
    using lo flog2_bounds(2)[OF x] by linarith
  then have "emin + int p - 1 \<le> flog2 x" by (simp add: powi_less_iff2)
  then have g: "grid_exp p emin x = flog2 x - int p + 1" using x by (simp add: grid_exp_def)
  define q where "q = (2::rat) powi grid_exp p emin x"
  have q: "0 < q" by (simp add: q_def)
  have r: "rnd p emin x \<le> (x / q + 1 / 2) * q"
    using rnd_even_half(1)[of "x / q"] q False by (simp add: rnd_def Let_def q_def mult_right_mono)
  have l: "(x / q - 1 / 2) * q \<le> rnd p emin x"
    using rnd_even_half(2)[of "x / q"] q False by (simp add: rnd_def Let_def q_def mult_right_mono)
  have "q / 2 = 2 powi (flog2 x - int p)" using powi_diff2[of "flog2 x - int p + 1" 1] by (simp add: q_def g)
  also have "\<dots> = 2 powi flog2 x * 2 powi (- int p)" using powi_add2[of "flog2 x" "- int p"] by simp
  also have "\<dots> \<le> x * 2 powi (- int p)" using flog2_bounds(1)[OF x] by (intro mult_right_mono) auto
  finally have "q / 2 \<le> x * 2 powi (- int p)" .
  moreover have "(x / q + 1 / 2) * q = x + q / 2" "(x / q - 1 / 2) * q = x - q / 2" using q by (simp_all add: field_simps)
  ultimately show ?thesis using r l by (simp add: algebra_simps)
qed simp

abbreviation eps :: rat where "eps \<equiv> 1 / 9007199254740992"

lemma rnd64_rel:
  assumes "x = 0 \<or> 2 powi (-30) \<le> x"
  shows "rnd 53 (-1074) x \<le> x * (1 + eps)" "x * (1 - eps) \<le> rnd 53 (-1074) x"
proof -
  have "(2::rat) powi (-1074 + int 53 - 1) \<le> 2 powi (-30)" by (rule powi_mono2) simp
  then have "x = 0 \<or> (2::rat) powi (-1074 + int 53 - 1) \<le> x" using assms by linarith
  from rnd_rel[OF this] show "rnd 53 (-1074) x \<le> x * (1 + eps)" "x * (1 - eps) \<le> rnd 53 (-1074) x"
    by (simp_all add: power_int_def power_divide)
qed

lemma rnd64_ge_nat: "of_nat n \<le> x \<Longrightarrow> n < 9007199254740992 \<Longrightarrow> of_nat n \<le> rnd 53 (-1074) x"
  using rnd_mono[of "of_nat n" x 53 "-1074"] rnd_of_nat[of n 53 "-1074"] by simp

lemma rnd64_ge: "2 powi k \<le> x \<Longrightarrow> -1074 \<le> k \<Longrightarrow> 2 powi k \<le> rnd 53 (-1074) x"
  using rnd_mono[of "2 powi k" x 53 "-1074"] rnd_powi[of 53 "-1074" k] by simp

text \<open>A sum or product of sizes that a duration can have rounds to a finite number with these bounds.\<close>

lemma f64_of_size:
  assumes "0 \<le> x" "x \<le> 2 powi k" "0 \<le> k" "k < 1024" "x = 0 \<or> 2 powi (-30) \<le> x"
  obtains r where "f64_of x = Fin r" "0 \<le> r" "r \<le> 2 powi k" "r \<le> x * (1 + eps)" "r = 0 \<or> 2 powi (-30) \<le> r"
    "r = rnd 53 (-1074) x" "x * (1 - eps) \<le> r"
proof
  let ?r = "rnd 53 (-1074) x"
  show "f64_of x = Fin ?r" "?r \<le> 2 powi k"
    using to_fl_bounded[of x k 53 "-1074" 1024] assms(1-4) by (auto simp: f64_of_def abs_le_iff)
  show "0 \<le> ?r" using rnd_nonneg assms(1) .
  show "?r \<le> x * (1 + eps)" "x * (1 - eps) \<le> ?r" using rnd64_rel[OF assms(5)] .
  show "?r = 0 \<or> 2 powi (-30) \<le> ?r" using assms(5) rnd64_ge[of "-30" x] by auto
  show "?r = ?r" by (rule refl)
qed

lemma f64_of_small_nat: "n < 9007199254740992 \<Longrightarrow> f64_of (of_nat n) = Fin (of_nat n)"
  using f64_of_u64[of n] rnd_of_nat[of n 53 "-1074"] by simp

lemma tiny: "(2::rat) powi (-30) \<le> 1 / 1000000000"
  by (simp add: power_int_def power_divide)

lemma nat_or_small: "of_nat n = (0::rat) \<or> 2 powi (-30) \<le> (of_nat n :: rat)"
  using tiny by (cases n) (simp_all add: add_increasing2)

text \<open>The seconds of a duration are finite, at least 1 if a second has passed, and at most a relative error above the exact ones.\<close>

abbreviation exact_secs :: "nat \<Rightarrow> rat" where "exact_secs e \<equiv> of_nat e / 1000000000"

lemma secs_f64:
  assumes "e < nanos_per_sec * u64_mod"
  obtains v where "as_secs_f64 e = Fin v" "0 \<le> v" "v \<le> 2 powi 65" "\<And>n. n * nanos_per_sec \<le> e \<Longrightarrow> n < 9007199254740992 \<Longrightarrow> of_nat n \<le> v"
    "v \<le> exact_secs e * (1 + eps) * (1 + eps)" "v = 0 \<or> 2 powi (-30) \<le> v" "exact_secs e * (1 - eps) * (1 - eps) \<le> v"
proof -
  define s n where "s = e div nanos_per_sec" and "n = e mod nanos_per_sec"
  have "e = s * nanos_per_sec + n" by (simp add: s_def n_def)
  then have e: "exact_secs e = of_nat s + of_nat n / 1000000000" by (simp add: field_simps)
  have "s < u64_mod" using assms by (simp add: s_def less_mult_imp_div_less mult.commute)
  then have s: "(of_nat s :: rat) \<le> 2 powi 64" "of_nat s = (0::rat) \<or> 2 powi (-30) \<le> (of_nat s :: rat)"
    using nat_or_small[of s] by (simp_all add: power_int_def)
  have n: "n < nanos_per_sec" by (simp add: n_def)
  obtain x where x: "f64_of (of_nat s) = Fin x" "0 \<le> x" "x \<le> 2 powi 64" "x \<le> of_nat s * (1 + eps)" "x = 0 \<or> 2 powi (-30) \<le> x"
    "x = rnd 53 (-1074) (of_nat s)" "of_nat s * (1 - eps) \<le> x" using f64_of_size[of "of_nat s" 64] s by auto
  have n1: "n = 0 \<or> 2 powi (-30) \<le> (of_nat n :: rat) / 1000000000"
    using tiny by (cases n) (auto simp: field_simps)
  obtain y where y: "f64_of (of_nat n / 1000000000) = Fin y" "0 \<le> y" "y \<le> 1" "y \<le> of_nat n / 1000000000 * (1 + eps)" "y = 0 \<or> 2 powi (-30) \<le> y"
    "of_nat n / 1000000000 * (1 - eps) \<le> y" using f64_of_size[of "of_nat n / 1000000000" 0] n n1 by auto
  have "x + y \<le> 2 powi 65" using x(3) y(3) by (simp add: power_int_def)
  moreover have "x + y = 0 \<or> 2 powi (-30) \<le> x + y" using x(2,5) y(2,5) by auto
  ultimately obtain v where v: "f64_of (x + y) = Fin v" "0 \<le> v" "v \<le> 2 powi 65" "v \<le> (x + y) * (1 + eps)" "v = 0 \<or> 2 powi (-30) \<le> v"
    "v = rnd 53 (-1074) (x + y)" "(x + y) * (1 - eps) \<le> v" using f64_of_size[of "x + y" 65] x(2) y(2) by auto
  have f: "f64_of (of_nat n) = Fin (of_nat n)" "f64_of 1000000000 = Fin 1000000000"
    using f64_of_small_nat[of n] f64_of_small_nat[of 1000000000] n by simp_all
  have "as_secs_f64 e = Fin v" using x(1) y(1) v(1) f by (simp add: as_secs_f64_def s_def[symmetric] n_def[symmetric])
  moreover have "v \<le> exact_secs e * (1 + eps) * (1 + eps)"
  proof -
    have "x + y \<le> exact_secs e * (1 + eps)" using x(4) y(4) by (simp add: e algebra_simps)
    then show ?thesis using v(4) by simp
  qed
  moreover have "exact_secs e * (1 - eps) * (1 - eps) \<le> v"
  proof -
    have "exact_secs e * (1 - eps) \<le> x + y" using x(7) y(6) by (simp add: e algebra_simps)
    then show ?thesis using v(7) by simp
  qed
  moreover have "of_nat k \<le> v" if "k * nanos_per_sec \<le> e" "k < 9007199254740992" for k
  proof -
    have "k \<le> s" using that(1) by (simp add: s_def less_eq_div_iff_mult_less_eq)
    then have "of_nat k \<le> x" using rnd64_ge_nat[of k "of_nat s"] x(6) that(2) by simp
    then show ?thesis using y(2) v(6) rnd64_ge_nat[of k "x + y"] that(2) by simp
  qed
  ultimately show thesis using that v(2,3,5) by blast
qed

abbreviation refill_slack :: rat where "refill_slack \<equiv> 1 + 1 / 1125899906842624"
abbreviation window_slack :: rat where "window_slack \<equiv> 1 + 1 / 562949953421312"

text \<open>The number that is truncated to the refill is within three roundings of the exact one.\<close>

lemma refill_near:
  assumes "e < nanos_per_sec * u64_mod" "rate < u32_mod"
  obtains w where "refill_for e rate = nat (min 4294967295 \<lfloor>w\<rfloor>)" "0 \<le> w"
    "w \<le> exact_secs e * of_nat rate * ((1 + eps) * (1 + eps) * (1 + eps))"
    "exact_secs e * of_nat rate * ((1 - eps) * (1 - eps) * (1 - eps)) \<le> w"
proof -
  obtain v where v: "as_secs_f64 e = Fin v" "0 \<le> v" "v \<le> 2 powi 65" "v = 0 \<or> 2 powi (-30) \<le> v"
    "v \<le> exact_secs e * (1 + eps) * (1 + eps)" "exact_secs e * (1 - eps) * (1 - eps) \<le> v" using secs_f64[OF assms(1)] .
  define p where "p = v * of_nat rate"
  have "p \<le> 2 powi 65 * 2 powi 32" unfolding p_def using v(2,3) assms(2) by (intro mult_mono) (auto simp: power_int_def)
  then have p: "0 \<le> p" "p \<le> 2 powi 97" using v(2) by (simp_all add: p_def flip: powi_add2)
  have q: "p = 0 \<or> 2 powi (-30) \<le> p" using v(2,4) by (cases rate) (auto simp: p_def algebra_simps add_increasing2)
  obtain w where w: "f64_of p = Fin w" "0 \<le> w" "w \<le> p * (1 + eps)" "p * (1 - eps) \<le> w"
    using f64_of_size[OF p _ _ q] by (metis order_refl zero_le_numeral numeral_less_iff semiring_norm(76,78,80,81,79,75,77,68,69,70,71,72,73))
  have "p \<le> exact_secs e * (1 + eps) * (1 + eps) * of_nat rate" "exact_secs e * (1 - eps) * (1 - eps) * of_nat rate \<le> p"
    unfolding p_def using v(5,6) by (simp_all add: mult_right_mono del: times_divide_eq_left)
  then have "p * (1 + eps) \<le> exact_secs e * (1 + eps) * (1 + eps) * of_nat rate * (1 + eps)"
    "exact_secs e * (1 - eps) * (1 - eps) * of_nat rate * (1 - eps) \<le> p * (1 - eps)"
    by (intro mult_right_mono; simp)+
  moreover have "refill_for e rate = nat (min 4294967295 \<lfloor>w\<rfloor>)"
    using v(1) w(1) f64_of_small_nat[of rate] assms(2) by (simp add: refill_for_def p_def)
  ultimately show thesis using that[of w] w(2-4) by (simp add: mult_ac)
qed

lemma refill_upper:
  assumes "e < nanos_per_sec * u64_mod" "rate < u32_mod"
  shows "of_nat (refill_for e rate) \<le> exact_secs e * of_nat rate * refill_slack"
proof -
  obtain w where w: "refill_for e rate = nat (min 4294967295 \<lfloor>w\<rfloor>)" "0 \<le> w"
    "w \<le> exact_secs e * of_nat rate * ((1 + eps) * (1 + eps) * (1 + eps))" using refill_near[OF assms] .
  have "of_nat (refill_for e rate) \<le> w" using w(1,2) by (simp add: min_def le_floor_iff)
  also note w(3)
  also have "exact_secs e * of_nat rate * ((1 + eps) * (1 + eps) * (1 + eps)) \<le> exact_secs e * of_nat rate * refill_slack"
    by (intro mult_left_mono) auto
  finally show ?thesis .
qed

text \<open>When nothing is refilled, less than one token (up to the rounding) was due.\<close>

lemma no_refill_due:
  assumes "refill_for e rate = 0" "e < nanos_per_sec * u64_mod" "rate < u32_mod"
  shows "exact_secs e * of_nat rate * refill_slack \<le> window_slack"
proof -
  obtain w where w: "refill_for e rate = nat (min 4294967295 \<lfloor>w\<rfloor>)" "0 \<le> w"
    "exact_secs e * of_nat rate * ((1 - eps) * (1 - eps) * (1 - eps)) \<le> w" using refill_near[OF assms(2,3)] .
  have "w < 1" using w(1,2) assms(1) by (auto simp: min_def split: if_splits)
  then have d: "exact_secs e * of_nat rate * ((1 - eps) * (1 - eps) * (1 - eps)) \<le> 1" using w(3) by linarith
  define x where "x = exact_secs e * of_nat rate"
  have "x * ((1 - eps) * (1 - eps) * (1 - eps)) \<le> 1" using d by (simp only: x_def)
  then show ?thesis unfolding x_def[symmetric] by simp
qed

lemma refill_for_le: "refill_for e r \<le> 4294967295"
  by (cases "fl_mul f64_of (as_secs_f64 e) (f64_of (of_nat r))") (auto simp: refill_for_def)

lemma refill_for_zero: "r < u32_mod \<Longrightarrow> refill_for 0 r = 0"
  using refill_upper[of 0 r] by simp

lemma refill_lower:
  assumes "n * nanos_per_sec \<le> e" "e < nanos_per_sec * u64_mod" "rate < u32_mod" "n * rate < 9007199254740992" "n < 9007199254740992"
  shows "min 4294967295 (n * rate) \<le> refill_for e rate"
proof -
  obtain v where v: "as_secs_f64 e = Fin v" "0 \<le> v" "v \<le> 2 powi 65" "of_nat n \<le> v"
    using secs_f64[OF assms(2)] assms(1,5) by metis
  have "v * of_nat rate \<le> 2 powi 65 * 2 powi 32" using v(2,3) assms(3) by (intro mult_mono) (auto simp: power_int_def)
  then have "v * of_nat rate \<le> 2 powi 97" by (simp flip: powi_add2)
  then have p: "f64_of (v * of_nat rate) = Fin (rnd 53 (-1074) (v * of_nat rate))"
    using to_fl_bounded[of "v * of_nat rate" 97 53 "-1074" 1024] v(2) by (simp add: f64_of_def)
  have "of_nat (n * rate) \<le> v * of_nat rate" using mult_right_mono[OF v(4), of "of_nat rate"] by simp
  from rnd64_ge_nat[OF this assms(4)] have "int (n * rate) \<le> \<lfloor>rnd 53 (-1074) (v * of_nat rate)\<rfloor>" by (simp add: le_floor_iff)
  then have "min 4294967295 (n * rate) \<le> nat (min 4294967295 \<lfloor>rnd 53 (-1074) (v * of_nat rate)\<rfloor>)" by linarith
  then show ?thesis using v(1) p f64_of_small_nat[of rate] assms(3) by (simp add: refill_for_def)
qed

section \<open>What is allowed is paid for\<close>

fun meter :: "('b \<Rightarrow> nat \<Rightarrow> bool \<times> 'b) \<Rightarrow> 'b \<Rightarrow> nat list \<Rightarrow> bool list \<times> 'b" where
  "meter consume b [] = ([], b)"
| "meter consume b (now # ts) =
     (case consume b now of (a, b) \<Rightarrow> (case meter consume b ts of (ds, b) \<Rightarrow> (a # ds, b)))"

text \<open>
  The contract of a meter: a step keeps it well formed, moves its reference instant forward to at most the present, and takes
  the price of an allowed request out of its level or of the credit for the time that passed.
\<close>

locale metered =
  fixes consume :: "'b \<Rightarrow> nat \<Rightarrow> bool \<times> 'b"
    and level :: "'b \<Rightarrow> nat"
    and since :: "'b \<Rightarrow> nat"
    and good :: "'b \<Rightarrow> bool"
    and credit :: rat
    and horizon :: nat
  assumes credit_nonneg: "0 \<le> credit"
    and paid: "good b \<Longrightarrow> since b \<le> now \<Longrightarrow> now < horizon \<Longrightarrow> consume b now = (a, b') \<Longrightarrow>
      good b' \<and> since b \<le> since b' \<and> since b' \<le> now \<and>
      of_nat (level b') + (if a then 1 else 0) \<le> of_nat (level b) + credit * of_nat (since b' - since b)"
begin

lemma meter_bound:
  assumes "good b" "sorted ts" "\<forall>t \<in> set ts. since b \<le> t \<and> t \<le> stop" "since b \<le> stop" "stop < horizon" "meter consume b ts = (ds, b')"
  shows "of_nat (length (filter (\<lambda>a. a) ds)) \<le> of_nat (level b) + credit * of_nat (stop - since b)"
  using assms
proof (induction ts arbitrary: b ds)
  case Nil
  then show ?case using credit_nonneg by simp
next
  case (Cons now ts)
  obtain a c where c: "consume b now = (a, c)" by fastforce
  obtain es where es: "meter consume c ts = (es, b')" and ds: "ds = a # es" using Cons.prems(6) c by (auto split: prod.splits)
  have p: "good c" "since b \<le> since c" "since c \<le> now"
    "of_nat (level c) + (if a then 1 else 0) \<le> of_nat (level b) + credit * of_nat (since c - since b)"
    using paid[of b now a c] Cons.prems c by auto
  have "of_nat (length (filter (\<lambda>a. a) es)) \<le> of_nat (level c) + credit * of_nat (stop - since c)"
    using Cons.IH[of c es] p(1-3) Cons.prems es by force
  moreover have "of_nat (stop - since b) = of_nat (stop - since c) + (of_nat (since c - since b) :: rat)"
    using p(2,3) Cons.prems(3) by (simp flip: of_nat_add)
  ultimately show ?case using p(4) by (simp add: ds algebra_simps split: if_splits)
qed

lemma meter_good:
  assumes "good b" "sorted ts" "\<forall>t \<in> set ts. since b \<le> t \<and> t \<le> stop" "since b \<le> stop" "stop < horizon" "meter consume b ts = (ds, b')"
  shows "good b' \<and> since b' \<le> stop"
  using assms
proof (induction ts arbitrary: b ds)
  case (Cons now ts)
  obtain a c where c: "consume b now = (a, c)" by fastforce
  obtain es where es: "meter consume c ts = (es, b')" using Cons.prems(6) c by (auto split: prod.splits)
  have "good c" "since c \<le> now" using paid[of b now a c] Cons.prems c by auto
  then show ?case using Cons.IH[of c es] Cons.prems es by force
qed simp

end

definition bucket_good :: "nat \<Rightarrow> nat \<Rightarrow> Bucket \<Rightarrow> bool" where
  "bucket_good max_tokens refill_rate b \<longleftrightarrow> bucket_max_tokens b = max_tokens \<and> bucket_refill_rate b = refill_rate
     \<and> refill_rate < u32_mod \<and> tokens b \<le> max_tokens"

lemma refilled_good:
  assumes "bucket_good m r b" "last_refill b \<le> now"
  shows "bucket_good m r (refilled b now)" "last_refill b \<le> last_refill (refilled b now)" "last_refill (refilled b now) \<le> now"
  using assms by (auto simp: bucket_good_def refilled_def Let_def)

lemma refilled_tokens:
  assumes "bucket_good m r b" "last_refill b \<le> now" "now < nanos_per_sec * u64_mod"
  shows "of_nat (tokens (refilled b now)) \<le> of_nat (tokens b)
    + of_nat r * refill_slack / 1000000000 * of_nat (last_refill (refilled b now) - last_refill b)"
proof -
  let ?f = "refill_for (now - last_refill b) r"
  have "min (wrap32 (tokens b + ?f)) m \<le> tokens b + ?f" by (simp add: wrap32_def min.coboundedI1)
  then have "of_nat (min (wrap32 (tokens b + ?f)) m) \<le> of_nat (tokens b) + (of_nat ?f :: rat)"
    by (metis of_nat_add of_nat_le_iff)
  moreover have "of_nat ?f \<le> exact_secs (now - last_refill b) * of_nat r * refill_slack"
    using refill_upper[of "now - last_refill b" r] assms by (simp add: bucket_good_def)
  ultimately have "of_nat (min (wrap32 (tokens b + ?f)) m)
      \<le> of_nat (tokens b) + of_nat r * refill_slack / 1000000000 * of_nat (now - last_refill b)" by simp
  then show ?thesis using assms(1) by (simp add: refilled_def Let_def bucket_good_def del: of_nat_diff)
qed

interpretation bucket: metered try_consume tokens last_refill "bucket_good m r" "of_nat r * refill_slack / 1000000000" "nanos_per_sec * u64_mod"
  for m r
proof
  fix b now a b'
  assume "bucket_good m r b" "last_refill b \<le> now" "now < nanos_per_sec * u64_mod" "try_consume b now = (a, b')"
  then show "bucket_good m r b' \<and> last_refill b \<le> last_refill b' \<and> last_refill b' \<le> now \<and>
      of_nat (tokens b') + (if a then 1 else 0) \<le> of_nat (tokens b) + of_nat r * refill_slack / 1000000000 * of_nat (last_refill b' - last_refill b)"
    using refilled_good[of m r b now] refilled_tokens[of m r b now]
    by (auto simp: try_consume_def Let_def bucket_good_def of_nat_diff split: if_splits)
qed simp

section \<open>Clients are limited one by one\<close>

definition times_of :: "IpAddr \<Rightarrow> (IpAddr \<times> Instant) list \<Rightarrow> Instant list" where
  "times_of ip reqs = map snd (filter (\<lambda>q. fst q = ip) reqs)"

definition decisions_for :: "IpAddr \<Rightarrow> (IpAddr \<times> Instant) list \<Rightarrow> bool list \<Rightarrow> bool list" where
  "decisions_for ip reqs ds = map snd (filter (\<lambda>q. fst (fst q) = ip) (zip reqs ds))"

lemma times_of_simps [simp]:
  "times_of ip [] = []" "times_of ip ((ip', t) # reqs) = (if ip' = ip then t # times_of ip reqs else times_of ip reqs)"
  by (simp_all add: times_of_def)

lemma decisions_for_simps [simp]:
  "decisions_for ip [] ds = []"
  "decisions_for ip ((ip', t) # reqs) (d # ds) = (if ip' = ip then d # decisions_for ip reqs ds else decisions_for ip reqs ds)"
  by (simp_all add: decisions_for_def)

lemma times_of_append [simp]: "times_of ip (xs @ ys) = times_of ip xs @ times_of ip ys"
  by (simp add: times_of_def)

lemma times_of_mem: "u \<in> set (times_of ip reqs) \<Longrightarrow> \<exists>q \<in> set reqs. u = snd q"
  by (auto simp: times_of_def)

lemma sorted_times_of: "sorted (map snd reqs) \<Longrightarrow> sorted (times_of ip reqs)"
  by (induction reqs) (auto simp: times_of_def)

lemma window_times:
  assumes "sorted (map snd (pre @ reqs))" "\<forall>q \<in> set reqs. start \<le> snd q \<and> snd q \<le> stop"
  shows "sorted (times_of ip reqs)" "\<forall>t \<in> set (times_of ip reqs). start \<le> t \<and> t \<le> stop"
  using assms sorted_times_of[of reqs ip] by (auto simp: sorted_append dest!: times_of_mem)

lemma limiter_check_frame:
  assumes "limiter_check l now ip = (d, l')"
  shows "limiter_max_tokens l' = limiter_max_tokens l" "limiter_refill_rate l' = limiter_refill_rate l"
    "ip' \<noteq> ip \<Longrightarrow> buckets l' ip' = buckets l ip'"
    "buckets l' ip = Some (snd (try_consume (bucket_of l now ip) now))" "d = fst (try_consume (bucket_of l now ip) now)"
  using assms by (auto simp: limiter_check_def split: prod.splits)

lemma limiter_run_frame:
  assumes "limiter_run l reqs = (ds, l')"
  shows "limiter_max_tokens l' = limiter_max_tokens l \<and> limiter_refill_rate l' = limiter_refill_rate l"
  using assms limiter_check_frame(1,2)
  by (induction reqs arbitrary: l ds) (force split: prod.splits)+

text \<open>The decisions on one client, and its bucket, are those of its bucket alone on its own requests.\<close>

lemma limiter_run_known:
  assumes "limiter_run l reqs = (ds, l')" "buckets l ip = Some b"
  shows "\<exists>b'. meter try_consume b (times_of ip reqs) = (decisions_for ip reqs ds, b') \<and> buckets l' ip = Some b'"
  using assms
proof (induction reqs arbitrary: l b ds)
  case (Cons req reqs)
  obtain i t where req: "req = (i, t)" by fastforce
  obtain d k where k: "limiter_check l t i = (d, k)" by fastforce
  obtain es where es: "limiter_run k reqs = (es, l')" "ds = d # es"
    using Cons.prems(1) k by (auto simp: req split: prod.splits)
  show ?case
  proof (cases "i = ip")
    case True
    then have "bucket_of l t i = b" using Cons.prems(2) by (simp add: bucket_of_def)
    then show ?thesis
      using Cons.IH[OF es(1)] limiter_check_frame(4,5)[OF k] True
      by (auto simp: req es(2) split: prod.splits)
  next
    case False
    then show ?thesis
      using Cons.IH[OF es(1), of b] limiter_check_frame(3)[OF k, of ip] Cons.prems(2) by (auto simp: req es(2))
  qed
qed auto

lemma limiter_run_fresh:
  assumes "limiter_run l reqs = (ds, l')" "buckets l ip = None"
  shows "case times_of ip reqs of [] \<Rightarrow> buckets l' ip = None \<and> decisions_for ip reqs ds = []
    | t # ts \<Rightarrow> \<exists>b'. meter try_consume (bucket_new t (limiter_max_tokens l) (limiter_refill_rate l)) (t # ts)
        = (decisions_for ip reqs ds, b') \<and> buckets l' ip = Some b'"
  using assms
proof (induction reqs arbitrary: l ds)
  case (Cons req reqs)
  obtain i t where req: "req = (i, t)" by fastforce
  obtain d k where k: "limiter_check l t i = (d, k)" by fastforce
  obtain es where es: "limiter_run k reqs = (es, l')" "ds = d # es"
    using Cons.prems(1) k by (auto simp: req split: prod.splits)
  show ?case
  proof (cases "i = ip")
    case True
    then have "bucket_of l t i = bucket_new t (limiter_max_tokens l) (limiter_refill_rate l)"
      using Cons.prems(2) by (simp add: bucket_of_def)
    moreover obtain b' where "meter try_consume (snd (try_consume (bucket_of l t i) t)) (times_of ip reqs) = (decisions_for ip reqs es, b')"
      "buckets l' ip = Some b'" using limiter_run_known[OF es(1) limiter_check_frame(4)[OF k]] True by blast
    ultimately show ?thesis using limiter_check_frame(5)[OF k] True by (auto simp: req es(2) split: prod.splits)
  next
    case False
    then show ?thesis
      using Cons.IH[OF es(1)] limiter_check_frame(1,2)[OF k] limiter_check_frame(3)[OF k, of ip] Cons.prems(2)
      by (auto simp: req es(2) split: list.splits)
  qed
qed auto

lemma bucket_new_good: "m < u32_mod \<Longrightarrow> r < u32_mod \<Longrightarrow> bucket_good m r (bucket_new t m r)"
  by (simp add: bucket_good_def bucket_new_def)

lemma bucket_new_fields [simp]: "tokens (bucket_new t m r) = m" "last_refill (bucket_new t m r) = t"
  by (simp_all add: bucket_new_def)

lemma limiter_bucket_good:
  assumes "limiter_run (rate_limiter_new m r) pre = (ds, l)" "sorted (map snd (pre @ [(ip, t)]))"
    "t < nanos_per_sec * u64_mod" "m < u32_mod" "r < u32_mod"
  shows "bucket_good m r (bucket_of l t ip) \<and> last_refill (bucket_of l t ip) \<le> t"
proof (cases "times_of ip pre")
  case Nil
  then show ?thesis
    using limiter_run_fresh[OF assms(1), of ip] limiter_run_frame[OF assms(1)] bucket_new_good[OF assms(4,5), of t]
    by (simp add: rate_limiter_new_def bucket_of_def)
next
  case (Cons u us)
  then obtain b where b: "meter try_consume (bucket_new u m r) (u # us) = (decisions_for ip pre ds, b)" "buckets l ip = Some b"
    using limiter_run_fresh[OF assms(1), of ip] by (auto simp: rate_limiter_new_def)
  have "sorted (times_of ip (pre @ [(ip, t)]))" using assms(2) by (rule sorted_times_of)
  then have "sorted (u # us)" "\<forall>x \<in> set (u # us). u \<le> x \<and> x \<le> t" using Cons by (auto simp: sorted_append)
  then show ?thesis
    using bucket.meter_good[OF bucket_new_good[OF assms(4,5)], of "u # us" u t] assms(3) b by (auto simp: bucket_of_def)
qed

lemma refused_empty: "try_consume b now = (False, b') \<Longrightarrow> b' = refilled b now \<and> tokens b' = 0"
  by (auto simp: try_consume_def Let_def split: if_splits)

lemma window_sum:
  assumes "x \<le> k + y" "y = a * refill_slack + c" "c \<le> window_slack" "0 \<le> a" "k \<le> (n :: rat)"
  shows "x \<le> n + (1 + a) * window_slack"
  using assms by (simp add: field_simps)

text \<open>The tokens at the start of a window, those for the time that ran towards the next one before it, and the refill in it.\<close>

lemma window_bound:
  assumes "bucket_good m r b" "last_refill b \<le> start" "sorted ts" "\<forall>t \<in> set ts. start \<le> t \<and> t \<le> stop"
    "stop < nanos_per_sec * u64_mod" "meter try_consume b ts = (ds, b')"
  shows "of_nat (length (filter (\<lambda>d. d) ds)) \<le> of_nat m + (1 + of_nat r * exact_secs (stop - start)) * window_slack"
proof (cases ts)
  case (Cons t us)
  then have t: "start \<le> t" "t \<le> stop" "\<forall>x \<in> set ts. t \<le> x \<and> x \<le> stop" using assms(3,4) by auto
  have m: "of_nat (tokens c) \<le> (of_nat m :: rat)" if "bucket_good m r c" for c using that by (simp add: bucket_good_def)
  show ?thesis
  proof (cases "refill_for (t - last_refill b) r = 0")
    case True
    have "of_nat (length (filter (\<lambda>d. d) ds)) \<le> of_nat (tokens b) + of_nat r * refill_slack / 1000000000 * of_nat (stop - last_refill b)"
      using bucket.meter_bound[OF assms(1,3), of stop] assms t by force
    moreover have "of_nat (stop - last_refill b) = of_nat (stop - start) + (of_nat (start - last_refill b) :: rat)"
      using assms(2) t by (simp flip: of_nat_add)
    then have "of_nat r * refill_slack / 1000000000 * of_nat (stop - last_refill b)
        = (of_nat r * exact_secs (stop - start)) * refill_slack + exact_secs (start - last_refill b) * of_nat r * refill_slack"
      by (simp add: algebra_simps del: of_nat_diff)
    moreover have "exact_secs (start - last_refill b) * of_nat r * refill_slack \<le> window_slack"
    proof -
      have "exact_secs (start - last_refill b) * of_nat r * refill_slack \<le> exact_secs (t - last_refill b) * of_nat r * refill_slack"
        using t(1) by (intro mult_right_mono divide_right_mono) (simp_all add: diff_le_mono del: of_nat_diff)
      also have "\<dots> \<le> window_slack"
        using no_refill_due[OF True] t assms(1,5) by (simp add: bucket_good_def)
      finally show ?thesis .
    qed
    moreover have "0 \<le> of_nat r * exact_secs (stop - start)" by simp
    ultimately show ?thesis using m[OF assms(1)] using window_sum by blast
  next
    case False
    let ?c = "refilled b t"
    have c: "bucket_good m r ?c" "last_refill ?c = t"
      using refilled_good(1)[OF assms(1), of t] assms(1,2) t False by (auto simp: refilled_def Let_def bucket_good_def)
    then have "refilled ?c t = ?c" using refill_for_zero[of r] by (auto simp: refilled_def[of "refilled b t"] Let_def bucket_good_def)
    then have "try_consume ?c t = try_consume b t" by (simp add: try_consume_def)
    then have "meter try_consume ?c ts = (ds, b')" using assms(6) Cons by simp
    then have "of_nat (length (filter (\<lambda>d. d) ds)) \<le> of_nat (tokens ?c) + of_nat r * refill_slack / 1000000000 * of_nat (stop - t)"
      using bucket.meter_bound[OF c(1) assms(3), of stop] assms(5) c(2) t by simp
    also have "\<dots> \<le> of_nat m + of_nat r * refill_slack / 1000000000 * of_nat (stop - start)"
      using t(1) by (intro add_mono mult_left_mono m[OF c(1)]) (simp_all add: diff_le_mono2 del: of_nat_diff)
    also have "\<dots> \<le> of_nat m + (1 + of_nat r * exact_secs (stop - start)) * window_slack"
      by (rule window_sum[where c = 0, OF order_refl]) (simp_all del: of_nat_diff)
    finally show ?thesis .
  qed
qed (use assms(6) in simp)

text \<open>C24: in every window of time from \<open>start\<close> to \<open>stop\<close>, on a limiter with \<open>m\<close> tokens and \<open>r\<close> tokens a second that was new
  before any earlier sequence \<open>pre\<close> of requests (empty or not, however long ago), a client is allowed at most \<open>m + 1\<close> requests
  and \<open>r\<close> more for every second of the window, up to the relative error of the floating-point refill, whatever the other
  clients do and however its requests are spread. A client that was idle before the window saves up no more than \<open>m\<close> tokens;
  the one request above \<open>m\<close> is for the fraction of a token that had run up when the window opened. The clock is monotone,
  and its instants are below the \<open>2 ^ 64\<close> seconds that a duration can hold.\<close>

theorem rate_limit_bound:
  assumes "limiter_run (rate_limiter_new m r) pre = (ds0, l0)" "limiter_run l0 reqs = (ds, l)" "sorted (map snd (pre @ reqs))"
    "\<forall>q \<in> set pre. snd q \<le> start" "\<forall>q \<in> set reqs. start \<le> snd q \<and> snd q \<le> stop"
    "start \<le> stop" "stop < nanos_per_sec * u64_mod" "m < u32_mod" "r < u32_mod"
  shows "of_nat (length (filter (\<lambda>d. d) (decisions_for ip reqs ds)))
    \<le> of_nat m + (1 + of_nat r * exact_secs (stop - start)) * (1 + 1 / 562949953421312)"
proof (cases "buckets l0 ip")
  case (Some b)
  have "sorted (map snd (pre @ [(ip, start)]))" using assms(3,4) by (simp add: sorted_append)
  then have b: "bucket_good m r b" "last_refill b \<le> start"
    using limiter_bucket_good[OF assms(1), of ip start] assms(6-) Some by (simp_all add: bucket_of_def)
  show ?thesis
    using window_bound[OF b, of "times_of ip reqs" stop] limiter_run_known[OF assms(2) Some] window_times[OF assms(3,5)] assms(7) by blast
next
  case None
  show ?thesis
  proof (cases "times_of ip reqs")
    case Nil
    then show ?thesis using limiter_run_fresh[OF assms(2) None] by simp
  next
    case (Cons u us)
    then have u: "sorted (u # us)" "\<forall>t \<in> set (u # us). u \<le> t \<and> t \<le> stop" "start \<le> u" using window_times[OF assms(3,5), of ip] by auto
    obtain b where "meter try_consume (bucket_new u m r) (u # us) = (decisions_for ip reqs ds, b)"
      using limiter_run_fresh[OF assms(2) None] limiter_run_frame[OF assms(1)] Cons by (auto simp: rate_limiter_new_def)
    from window_bound[OF bucket_new_good[OF assms(8,9)] _ u(1,2) assms(7) this]
    have "of_nat (length (filter (\<lambda>d. d) (decisions_for ip reqs ds))) \<le> of_nat m + (1 + of_nat r * exact_secs (stop - u)) * window_slack" by simp
    also have "\<dots> \<le> of_nat m + (1 + of_nat r * exact_secs (stop - start)) * window_slack"
      using u(3) by (intro add_left_mono mult_right_mono mult_left_mono divide_right_mono) (simp_all add: diff_le_mono2 del: of_nat_diff)
    finally show ?thesis .
  qed
qed

theorem rate_limit_bound_witness:
  "of_nat (length (filter (\<lambda>d. d) (decisions_for (V4 1) [(V4 1, 900000000), (V4 1, 950000000), (V4 2, 960000000), (V4 1, 1000000000)]
     (fst (limiter_run (snd (limiter_run (rate_limiter_new 2 1) [(V4 1, 0)]))
        [(V4 1, 900000000), (V4 1, 950000000), (V4 2, 960000000), (V4 1, 1000000000)])))))
   \<le> of_nat 2 + (1 + of_nat 1 * exact_secs (1000000000 - 900000000)) * (1 + 1 / 562949953421312)"
  by (rule rate_limit_bound[OF prod.collapse[symmetric] prod.collapse[symmetric]]) simp_all

text \<open>C25: a client that is refused and comes back after at least a second is served, whatever the other clients did in the
  meantime, if the limiter has at least one token and refills at least one a second.
\<close>

theorem refused_client_recovers:
  assumes "limiter_run (rate_limiter_new m r) pre = (ds, l)" "sorted (map snd (pre @ [(ip, t)]))"
    "limiter_check l t ip = (False, l1)" "limiter_run l1 mid = (es, l2)" "ip \<notin> fst ` set mid"
    "t + nanos_per_sec \<le> u" "u < nanos_per_sec * u64_mod" "0 < m" "m < u32_mod" "0 < r" "r < u32_mod"
  shows "fst (rate_limit_call inner l2 u (Some ip) req) = inner req"
proof -
  define b where "b = snd (try_consume (bucket_of l t ip) t)"
  have c: "try_consume (bucket_of l t ip) t = (False, b)" "buckets l1 ip = Some b"
    using limiter_check_frame(4,5)[OF assms(3)] by (simp_all add: b_def prod_eq_iff)
  have "bucket_good m r (bucket_of l t ip)" "last_refill (bucket_of l t ip) \<le> t"
    using limiter_bucket_good[OF assms(1,2)] assms by auto
  then have b: "tokens b = 0" "bucket_good m r b" "last_refill b \<le> t"
    using refused_empty[OF c(1)] refilled_good[of m r "bucket_of l t ip" t] by auto
  have "times_of ip mid = []" using assms(5) by (auto simp: times_of_def filter_empty_conv)
  then have "bucket_of l2 u ip = b" using limiter_run_known[OF assms(4) c(2)] by (simp add: bucket_of_def)
  moreover have "0 < refill_for (u - last_refill b) r"
  proof -
    have "1 * nanos_per_sec \<le> u - last_refill b" "u - last_refill b < nanos_per_sec * u64_mod" using b(3) assms(6,7) by linarith+
    from refill_lower[OF this assms(11)] show ?thesis using assms(10,11) by simp
  qed
  then have "0 < tokens (refilled b u)"
    using refill_for_le[of "u - last_refill b" r] b(1,2) assms(8) by (simp add: refilled_def bucket_good_def Let_def)
  ultimately show ?thesis
    by (simp add: rate_limit_call_def client_ip_def limiter_check_def try_consume_def Let_def)
qed

theorem refused_client_recovers_witness:
  "fst (rate_limit_call (\<lambda>q. Served q) (snd (limiter_check (snd (limiter_check (rate_limiter_new 1 1) 0 (V4 7))) 0 (V4 7)))
     nanos_per_sec (Some (V4 7)) (0 :: nat)) = Served 0"
proof -
  have r: "limiter_run (rate_limiter_new 1 1) [(V4 7, 0)] = ([fst (limiter_check (rate_limiter_new 1 1) 0 (V4 7))],
      snd (limiter_check (rate_limiter_new 1 1) 0 (V4 7)))" by (simp split: prod.split)
  have "refill_for 0 1 = 0" by (simp add: refill_for_zero)
  then have "\<not> fst (limiter_check (snd (limiter_check (rate_limiter_new 1 1) 0 (V4 7))) 0 (V4 7))"
    by (simp add: limiter_check_def bucket_of_def rate_limiter_new_def bucket_new_def try_consume_def refilled_def)
  then have c: "limiter_check (snd (limiter_check (rate_limiter_new 1 1) 0 (V4 7))) 0 (V4 7)
      = (False, snd (limiter_check (snd (limiter_check (rate_limiter_new 1 1) 0 (V4 7))) 0 (V4 7)))" by (simp add: prod_eq_iff)
  show ?thesis
    by (rule refused_client_recovers[OF r _ c limiter_run.simps(1)]) simp_all
qed

text \<open>
  The addition of the refill is in 32 bits: a bucket that still holds a token when the refill saturates wraps around to an
  empty one, and a client that has been idle is refused (in a debug build the addition panics).
\<close>

lemma refill_wraps:
  "try_consume \<lparr>tokens = 1, last_refill = 0, bucket_max_tokens = 1000000, bucket_refill_rate = 1000000\<rparr> (4295 * nanos_per_sec)
   = (False, \<lparr>tokens = 0, last_refill = 4295 * nanos_per_sec, bucket_max_tokens = 1000000, bucket_refill_rate = 1000000\<rparr>)"
proof -
  have "refill_for (4295 * nanos_per_sec) 1000000 = 4294967295"
    using refill_lower[of 4295 "4295 * nanos_per_sec" 1000000] refill_for_le[of "4295 * nanos_per_sec" 1000000] by simp
  then show ?thesis by (simp add: try_consume_def refilled_def wrap32_def)
qed

end
