(* ===== verification/Spec2Isabelle.thy ===== *)
theory Spec2Isabelle
  imports Graph_Manager Mql_Planner Context_Assembler Embedding_Manager Core_Versions Core_Access Core_Resources Core_Events Consolidation_Cluster Consolidation_Life Consolidation_Text Cognitive_Interference Cognitive_Stream Cognitive_Speculative
    Extraction_Pipeline Cognitive_Entity Cognitive_Phantom Sqlite_Knowledge Facade_Query Facade_Sleep Server_Rate_Limit
begin

text \<open>
  Verification of MenteDB, the memory database of this repository: a Rust workspace under \<open>crates/\<close> in which an agent's
  memories are nodes with an embedding, a salience and a confidence, joined by typed edges. The \<open>mentedb\<close> crate ties the
  others together: a query in MQL is lexed, parsed and planned (\<open>mentedb-query\<close>), memories are found through embeddings
  (\<open>mentedb-embedding\<close>) and through the graph (\<open>mentedb-graph\<close>), the results are packed into a token budget
  (\<open>mentedb-context\<close>), and in the background memories are clustered, compressed, decayed and archived
  (\<open>mentedb-consolidation\<close>) while the engines of \<open>mentedb-cognitive\<close> watch the conversation. \<open>mentedb-core\<close> holds the data
  model and the state that all of them share. The path of a file below is relative to \<open>src/crates/\<close>.

  \<^bold>\<open>Conventions.\<close> The result of a Rust call is an \<open>outcome\<close> (theory Prelude): \<open>Ok\<close>, \<open>Err\<close> with the
  crate's error, or \<open>Panic\<close>, so that an index out of range, a slice off a character boundary or an \<open>unwrap\<close> is a branch of the
  model. Unsigned integers are natural numbers whose wrap-around is written out (\<open>wrap32\<close>, \<open>wrap64\<close>, the arithmetic of a
  release build) or words where the code works bitwise; \<open>i64\<close> is an \<open>int\<close> with its bounds. \<open>f32\<close> and \<open>f64\<close>
  (Rust_Float) are NaN, two infinities or the exact rational of the number, and every operation rounds to nearest, ties to
  even, in 24 or 53 bits; the sign of zero is left out, and no property depends on it. Strings are lists of UTF-8 bytes (Rust_Strings,
  Rust_Text). A hash map is a partial function where only lookups matter and an association list where its size or order does;
  a hash map iterated in an unspecified order is a list given as argument. \<open>sort_by\<close> of the standard library may panic on a comparison
  that is no total order, which \<open>partial_cmp(..).unwrap_or(Equal)\<close> is not with NaN; the model sorts stably whatever the comparison, and the
  properties of a sort by scores ask that no score is NaN. The clock, fresh identifiers, \<open>exp\<close>, \<open>ln\<close>, \<open>exp2\<close> and
  Unicode lower-casing are arguments of the definitions that use them. A read-write lock held for a whole method makes the
  method one step; the atomic counters of the resource tracker are also modelled access by access.

  \<^bold>\<open>The data model.\<close> Core_Types: identifiers, memory nodes, edges, errors and their default values
  (\<open>mentedb-core/src/types.rs\<close>, \<open>memory.rs\<close>, \<open>edge.rs\<close>, \<open>error.rs\<close>).

  \<^bold>\<open>The graph\<close> (\<open>mentedb-graph\<close>). Graph_Csr has the compressed rows and columns, the delta log and the lazy removals of
  \<open>csr.rs\<close>; Graph_Spec the abstract graph (a set of nodes and a multiset of edges), the invariant and the theorems that every
  update refines the abstract one, that compaction changes no query, that slices stay in bounds and that outgoing and incoming
  edges are dual. Graph_Traversal proves the searches of \<open>traversal.rs\<close> right with respect to walks, the shortest path
  included; its loops are total functions whose measure counts the nodes not yet visited. Graph_Belief (\<open>belief.rs\<close>) shows which nodes a
  change of confidence reaches and that confidences stay in the unit interval, Graph_Contradiction (\<open>contradiction.rs\<close>) what
  the three analyses return, Graph_Manager (\<open>manager.rs\<close>) that every sequence of operations keeps the invariant.

  \<^bold>\<open>The query language\<close> (\<open>mentedb-query\<close>). Mql_Lexer (\<open>lexer.rs\<close>): the tokens cover the input in order. Mql_Parser
  (\<open>ast.rs\<close>, \<open>parser.rs\<close>): the recursive descent, whose fuel is the number of tokens left plus one, shown sufficient in Mql_Print.
  The crate has no printer: the one of Mql_Print is a specification of the concrete syntax, and the theorem says that the parser inverts it on
  the statements it can return, but for floats and texts that read as identifiers. Mql_Planner (\<open>planner.rs\<close>, \<open>mql.rs\<close>): plans, and that parsing
  always returns.

  \<^bold>\<open>Context assembly\<close> (\<open>mentedb-context\<close>). Context_Budget (\<open>budget.rs\<close>), Context_Layout (\<open>layout.rs\<close>, \<open>serializer.rs\<close>)
  and Context_Assembler (\<open>delta.rs\<close>, \<open>assembler.rs\<close>): the greedy selection stays within the budget and leaves out only what
  does not fit, zones hold the right memories in the right order, and what the delta tracker records.

  \<^bold>\<open>Embeddings\<close> (\<open>mentedb-embedding\<close>). Embedding_Cache (\<open>cache.rs\<close>) refines an abstract least-recently-used map
  within its capacity, except that a capacity of 0 keeps one entry;
  Embedding_Manager (\<open>provider.rs\<close>, \<open>manager.rs\<close>, \<open>hash_provider.rs\<close>) is transparent: with a deterministic provider and no
  collision of cache keys the cached results are the provider's.

  \<^bold>\<open>Shared state\<close> (\<open>mentedb-core\<close>). Core_Versions (\<open>mvcc.rs\<close>, \<open>conflict.rs\<close>): the version store is a log. Core_Access
  (\<open>space.rs\<close>, \<open>agent.rs\<close>): access lists refine an access matrix. Core_Resources (\<open>limits.rs\<close>): limits hold after checked
  writes, and which interleavings of deletes keep the counters exact. Core_Events (\<open>event.rs\<close>, \<open>metrics.rs\<close>): who is notified,
  by the handles that the subscriptions returned.

  \<^bold>\<open>Consolidation\<close> (\<open>mentedb-consolidation\<close>). Consolidation_Cluster (\<open>consolidation.rs\<close>): union-find with path compression
  computes the connected components of the similarity graph; \<open>find\<close> is a partial function whose termination is proved
  under the union-find invariant. Consolidation_Life (\<open>decay.rs\<close>, \<open>archival.rs\<close>, \<open>forget.rs\<close>): bounds of the decay, archival
  decisions, forget plans. Consolidation_Text (\<open>compression.rs\<close>, \<open>extraction.rs\<close>): when compression cannot panic, and that
  extracted facts come from the text.

  \<^bold>\<open>Cognition\<close> (\<open>mentedb-cognitive\<close>). Cognitive_Interference (\<open>interference.rs\<close>): when the greedy order separates
  interfering memories. Cognitive_Stream (\<open>stream.rs\<close>, \<open>pain.rs\<close>): the ring buffer loses no text; which pain signals a context
  brings up. Cognitive_Speculative (\<open>speculative.rs\<close>): the cache stays bounded, and a hit is a best match. Cognitive_Llm
  (\<open>llm.rs\<close>): the prompts, the verdicts, and that the JSON object embedded in a model's answer is found and is balanced.
  Cognitive_Inference (\<open>write_inference.rs\<close>): which edges and updates a new memory brings about. Cognitive_Trajectory
  (\<open>trajectory.rs\<close>): the counts are exactly the changes of topic, a snapshot adds its counts to those of the map
  it is loaded into, what is predicted. Cognitive_Entity
  (\<open>entity.rs\<close>): learned aliases resolve, and the batch resolution asks the model only for what is unknown. Cognitive_Phantom
  (\<open>phantom.rs\<close>): each gap is reported once, and only for what is not known.

  \<^bold>\<open>Extraction\<close> (\<open>mentedb-extraction\<close>). Extraction_Pipeline (\<open>pipeline.rs\<close>, \<open>schema.rs\<close>, \<open>config.rs\<close>, \<open>error.rs\<close>): reading a
  model's answer, and that every extracted memory ends in exactly one of the four classes. The provider and the JSON library are arguments.

  \<^bold>\<open>The store\<close> (\<open>mentedb-sqlite\<close>). Sqlite_Schema has the tables as lists of rows, the conflict clauses and the cascades of the
  schema; Sqlite_Store the operations on memories, tags, vectors, edges and policies, each a transaction that is rolled back on
  an error, and shows that the vector table mirrors the memories; Sqlite_Search the filters, the rank fusion and the traces, with a specification
  of the ranks, scores and filters apart from the code;
  Sqlite_Knowledge the sources, conversations, extraction runs, entities, claims and relationships with their readers, and shows that
  no sequence of operations leaves a declared foreign key dangling (hits of traces, lifecycle events and edges declare none).
  The vector and text indexes of SQLite are arguments, as are the JSON texts of attributes.

  \<^bold>\<open>The facade\<close> (\<open>mentedb\<close>). Facade_Linker (\<open>entity_extraction.rs\<close>): the explicit mentions of entities in a memory, within
  the bounds of the configuration. Facade_State has the database as a record of the store, the graph and the engines, a method as a
  function from such a record to an outcome and a record, the ports of the program (clock, identifiers, the codec of embeddings, the
  indexes of SQLite) as one argument, and the opening of a database. Facade_Recall (recall in \<open>lib.rs\<close>): what is recalled is valid
  and not superseded at the time asked for, matches the tags, and is not archived. Facade_Write (\<open>lib.rs\<close>): storing, relating,
  write inference and consolidation. Facade_Policies (\<open>policies.rs\<close>): correction, enrichment, forgetting, decay and archival.
  Facade_Mirror shows by rules for the composition of steps that after every sequence of operations the graph is the mirror of the store,
  and that a forgotten memory is gone from both. Facade_Query: an MQL recall returns stored memories within the budget.
  Facade_Engines (\<open>lib.rs\<close>): the accessors of the cognitive engines, decay and archival evaluation, enrichment and the writers of the knowledge
  tables, and rules for steps that keep the mirror. Facade_Entities (\<open>lib.rs\<close>): entity linking, after which all memories of one entity are joined, communities and the user profile.
  Facade_Sleep (\<open>sleep.rs\<close>): a maintenance run stays within its limits, its report adds up, and without deletions it loses no memory.

  \<^bold>\<open>The server\<close> (\<open>mentedb-server\<close>). Server_Rate_Limit (\<open>rate_limit.rs\<close>, \<open>error.rs\<close>): in any window of time the token bucket lets through no
  more than its capacity and its refill allow, rounding included, and a refused client that waits is served again.

  \<^bold>\<open>Interfaces.\<close> The locales are \<open>comparator\<close> (a comparison under which the library's stable sort
  orders, interpreted at every sort of the code), those of the graph queries, of the cache, of the registries, of the counts of transitions (\<open>tally\<close>), of a table
  with a key (\<open>keyed_table\<close>) of a metered resource (\<open>metered\<close>)
  and of the relation between the memories before and after a step of the facade (\<open>movement\<close>, once for steps that keep every memory and once for all); each is interpreted on the definitions of the component that provides it.

  \<^bold>\<open>Not modelled.\<close> File and JSON input and output (saving and loading), the SQL engine, network services
  and machine-learned models (\<open>http_provider.rs\<close>, \<open>candle_provider.rs\<close>, \<open>provider.rs\<close> of \<open>mentedb-extraction\<close>), the HTTP, gRPC
  and WebSocket handlers of \<open>mentedb-server\<close>, the language bindings under \<open>src/sdks/\<close>, and plain settings (\<open>config.rs\<close>,
  \<open>tier.rs\<close>). Of \<open>mentedb\<close> the turn processing (\<open>process_turn.rs\<close>), the language-model side of
  enrichment (\<open>enrichment.rs\<close>), the extraction jobs, the projection of the graph, the readers that only forward to the store, the files that
  hold the state of the engines, and the lock file of the maintenance lease.
\<close>

end
